(* ===== verification/Prelude.thy ===== *)
theory Prelude
  imports Main "HOL-Library.Word" "HOL-Library.AList" "HOL-Library.Sublist"
    "HOL-Library.Code_Target_Numeral"
begin

text \<open>
  Shared ground of the development: how Go values are represented, the string
  functions of package \<open>strings\<close> the sources call, Go maps, and the generic
  lemmas the components use.

  \<^item> A byte is an \<open>8 word\<close>; a Go string is a \<open>string\<close> (a list of bytes as \<open>char\<close>);
    a nil slice and the zero value of a string are the empty list.
  \<^item> A Go map is an association list. Lookup is \<open>map_of\<close>, assignment and
    \<open>delete\<close> are \<open>mput\<close> and \<open>mdel\<close>; a \<open>range\<close> loop visits the list
    in its order. Go leaves that order open, so the theorems hold for every order
    of the list.
  \<^item> An error return is the left of a sum, a panic is the error \<open>Panic\<close>.
\<close>

type_synonym byte = "8 word"
type_synonym ('k, 'v) gomap = "('k \<times> 'v) list"

named_theorems gomap_simps "lookups after map updates"
named_theorems str_simps "facts on string splitting and joining"

section \<open>Errors\<close>

text \<open>
  The error values of pkg/ipam/ipam.go, errors made with \<open>fmt.Errorf\<close> (by the
  function that makes them), a panic, and \<open>NoReturn\<close>: a retry loop has used up the
  random draws it was given without returning.
\<close>

datatype error =
    ErrOutOfRange
  | ErrConflict
  | ErrNoAvailable
  | ErrNoSubnet
  | ErrInvalidCIDR
  | ErrInvalidIPFamily
  | ErrFmt string
  | Panic
  | NoReturn

section \<open>Go maps\<close>

definition mput :: "'k \<Rightarrow> 'v \<Rightarrow> ('k, 'v) gomap \<Rightarrow> ('k, 'v) gomap" where
  "mput k v m = AList.update k v m"

definition mdel :: "'k \<Rightarrow> ('k, 'v) gomap \<Rightarrow> ('k, 'v) gomap" where
  "mdel k m = AList.delete k m"

text \<open>Reading a missing key of a map to strings or slices gives the zero value.\<close>

definition mget0 :: "('k, 'v list) gomap \<Rightarrow> 'k \<Rightarrow> 'v list" where
  "mget0 m k = (case map_of m k of None \<Rightarrow> [] | Some v \<Rightarrow> v)"

definition mhas :: "('k, 'v) gomap \<Rightarrow> 'k \<Rightarrow> bool" where
  "mhas m k = (map_of m k \<noteq> None)"

text \<open>A Go map has one value per key.\<close>

definition mwf :: "('k, 'v) gomap \<Rightarrow> bool" where
  "mwf m = distinct (map fst m)"

lemma map_of_mput [gomap_simps, simp]: "map_of (mput k v m) = (map_of m)(k \<mapsto> v)"
  by (simp add: mput_def update_conv')

lemma map_of_mdel [gomap_simps, simp]: "map_of (mdel k m) = (map_of m)(k := None)"
  by (simp add: mdel_def delete_conv')

lemma mget0_mput [gomap_simps, simp]:
  "mget0 (mput k v m) k' = (if k' = k then v else mget0 m k')"
  by (simp add: mget0_def)

lemma mget0_mdel [gomap_simps, simp]:
  "mget0 (mdel k m) k' = (if k' = k then [] else mget0 m k')"
  by (simp add: mget0_def)

lemma mhas_mput [gomap_simps, simp]: "mhas (mput k v m) k' = (k' = k \<or> mhas m k')"
  by (auto simp: mhas_def)

lemma mhas_mdel [gomap_simps, simp]: "mhas (mdel k m) k' = (k' \<noteq> k \<and> mhas m k')"
  by (auto simp: mhas_def)

lemma mwf_mput [simp]: "mwf m \<Longrightarrow> mwf (mput k v m)"
  by (simp add: mwf_def mput_def distinct_update)

lemma mwf_mdel [simp]: "mwf m \<Longrightarrow> mwf (mdel k m)"
  by (simp add: mwf_def mdel_def distinct_delete)

lemma mwf_Nil [simp]: "mwf []"
  by (simp add: mwf_def)

lemma mwf_Cons: "mwf ((k, v) # m) \<longleftrightarrow> k \<notin> fst ` set m \<and> mwf m"
  by (simp add: mwf_def)

lemma mget0_Some [simp]: "map_of m k = Some v \<Longrightarrow> mget0 m k = v"
  by (simp add: mget0_def)

lemma mget0_None [simp]: "map_of m k = None \<Longrightarrow> mget0 m k = []"
  by (simp add: mget0_def)

lemma mget0_nonempty: "mget0 m k \<noteq> [] \<Longrightarrow> map_of m k = Some (mget0 m k)"
  by (cases "map_of m k") auto

lemma mwf_map_of_iff: "mwf m \<Longrightarrow> map_of m k = Some v \<longleftrightarrow> (k, v) \<in> set m"
  by (simp add: mwf_def)

text \<open>Changing the value under a present key leaves every other pair alone.\<close>

lemma set_mput: "mwf m \<Longrightarrow> set (mput k v m) = {p \<in> set m. fst p \<noteq> k} \<union> {(k, v)}"
  by (induction m) (force simp: mput_def mwf_def)+

lemma set_mdel: "set (mdel k m) = {p \<in> set m. fst p \<noteq> k}"
  by (auto simp: mdel_def AList.delete_eq)

section \<open>Strings\<close>

text \<open>\<open>strings.Cut\<close>: the text before and after the first occurrence of a separator.\<close>

fun cut :: "string \<Rightarrow> string \<Rightarrow> (string \<times> string) option" where
  "cut sep [] = (if sep = [] then Some ([], []) else None)"
| "cut sep (c # cs) =
     (if prefix sep (c # cs) then Some ([], drop (length sep) (c # cs))
      else map_option (\<lambda>(a, b). (c # a, b)) (cut sep cs))"

definition str_contains :: "string \<Rightarrow> string \<Rightarrow> bool" where
  "str_contains s sep = (cut sep s \<noteq> None)"

lemma cut_length: "cut sep s = Some (a, b) \<Longrightarrow> length s = length a + length sep + length b"
proof (induction sep s arbitrary: a b rule: cut.induct)
  case (1 sep)
  then show ?case by (auto split: if_splits)
next
  case (2 sep c cs)
  then show ?case
    by (auto split: if_splits simp: prefix_length_le) (metis le_add_diff_inverse length_Cons prefix_length_le)
qed

text \<open>\<open>strings.Split\<close> (and \<open>SplitSeq\<close>, which yields the same parts).\<close>

function (sequential) split :: "string \<Rightarrow> string \<Rightarrow> string list" where
  "split [] s = map (\<lambda>c. [c]) s"
| "split (x # sep) s =
     (case cut (x # sep) s of
        None \<Rightarrow> [s]
      | Some (a, b) \<Rightarrow> a # split (x # sep) b)"
  by pat_completeness auto
termination
  by (relation "measure (length \<circ> snd)") (auto dest!: cut_length)

declare split.simps(2) [simp del]

text \<open>\<open>strings.Join\<close>.\<close>

fun join :: "string \<Rightarrow> string list \<Rightarrow> string" where
  "join sep [] = []"
| "join sep [x] = x"
| "join sep (x # y # zs) = x @ sep @ join sep (y # zs)"

abbreviation split_char :: "char \<Rightarrow> string \<Rightarrow> string list" where
  "split_char c \<equiv> split [c]"

lemma cut_char_None [simp]: "cut [c] s = None \<longleftrightarrow> c \<notin> set s"
  by (induction s) auto

lemma cut_char_append: "c \<notin> set a \<Longrightarrow> cut [c] (a @ c # b) = Some (a, b)"
  by (induction a) auto

lemma cut_char_SomeD: "cut [c] s = Some (a, b) \<Longrightarrow> s = a @ c # b \<and> c \<notin> set a"
  by (induction s arbitrary: a) (auto split: if_splits)

lemma split_char_none [str_simps]: "c \<notin> set s \<Longrightarrow> split_char c s = [s]"
  by (simp add: split.simps flip: cut_char_None)

lemma split_char_append [str_simps]:
  "c \<notin> set a \<Longrightarrow> split_char c (a @ c # b) = a # split_char c b"
  by (simp add: split.simps cut_char_append)

lemma split_nonempty [simp]: "split (x # sep) s \<noteq> []"
  by (subst split.simps) (auto split: option.splits)

lemma split_char_join:
  "xs \<noteq> [] \<Longrightarrow> \<forall>x\<in>set xs. c \<notin> set x \<Longrightarrow> split_char c (join [c] xs) = xs"
  by (induction "[c]" xs rule: join.induct) (auto simp: str_simps)

lemma join_Cons: "ys \<noteq> [] \<Longrightarrow> join sep (x # ys) = x @ sep @ join sep ys"
  by (cases ys) auto

lemma join_split_char: "join [c] (split_char c s) = s"
proof (induction "length s" arbitrary: s rule: less_induct)
  case less
  show ?case
  proof (cases "cut [c] s")
    case None
    then show ?thesis by (simp add: str_simps)
  next
    case (Some p)
    then obtain a b where p: "cut [c] s = Some (a, b)" by (cases p) auto
    then have s: "s = a @ c # b" and "c \<notin> set a" by (auto dest: cut_char_SomeD)
    then have "split_char c s = a # split_char c b" by (simp add: str_simps)
    with less s show ?thesis by (simp add: join_Cons)
  qed
qed

lemma split_char_parts: "p \<in> set (split_char c s) \<Longrightarrow> c \<notin> set p"
proof (induction "length s" arbitrary: s rule: less_induct)
  case less
  show ?case
  proof (cases "cut [c] s")
    case None
    with less.prems show ?thesis by (simp add: str_simps)
  next
    case (Some q)
    then obtain a b where "cut [c] s = Some (a, b)" by (cases q) auto
    then have s: "s = a @ c # b" and a: "c \<notin> set a" by (auto dest: cut_char_SomeD)
    then have "split_char c s = a # split_char c b" by (simp add: str_simps)
    with less.prems consider "p = a" | "p \<in> set (split_char c b)" by auto
    then show ?thesis using a less.hyps [of b] s by cases auto
  qed
qed

text \<open>\<open>strings.TrimSpace\<close> on ASCII text, \<open>strings.ReplaceAll\<close> for one byte.\<close>

definition is_space :: "char \<Rightarrow> bool" where
  "is_space c = (of_char c \<in> {9, 10, 11, 12, 13, 32 :: nat})"

definition TrimSpace :: "string \<Rightarrow> string" where
  "TrimSpace s = rev (dropWhile is_space (rev (dropWhile is_space s)))"

definition replace_char :: "char \<Rightarrow> string \<Rightarrow> string \<Rightarrow> string" where
  "replace_char c t s = concat (map (\<lambda>x. if x = c then t else [x]) s)"

text \<open>\<open>sort.Strings\<close>: insertion by the order of bytes.\<close>

fun str_le :: "string \<Rightarrow> string \<Rightarrow> bool" where
  "str_le [] t = True"
| "str_le (a # s) [] = False"
| "str_le (a # s) (b # t) = (if a = b then str_le s t else (of_char a :: nat) < of_char b)"

fun insert_string :: "string \<Rightarrow> string list \<Rightarrow> string list" where
  "insert_string s [] = [s]"
| "insert_string s (t # ts) = (if str_le s t then s # t # ts else t # insert_string s ts)"

definition sort_strings :: "string list \<Rightarrow> string list" where
  "sort_strings ss = foldr insert_string ss []"

lemma set_insert_string [simp]: "set (insert_string s ts) = insert s (set ts)"
  by (induction ts) auto

lemma length_insert_string [simp]: "length (insert_string s ts) = Suc (length ts)"
  by (induction ts) auto

lemma set_sort_strings [simp]: "set (sort_strings ss) = set ss"
  by (induction ss) (auto simp: sort_strings_def)

lemma length_sort_strings [simp]: "length (sort_strings ss) = length ss"
  by (induction ss) (auto simp: sort_strings_def)

lemma distinct_sort_strings [simp]: "distinct (sort_strings ss) = distinct ss"
  by (metis card_distinct distinct_card length_sort_strings set_sort_strings)

lemma of_char_linear: "a \<noteq> b \<Longrightarrow> (of_char a :: nat) < of_char b \<or> (of_char b :: nat) < of_char a"
  using of_char_eq_iff [of a b, where 'a = nat] by linarith

lemma str_le_linear: "str_le s t \<or> str_le t s"
  using of_char_linear by (induction s t rule: str_le.induct) auto

lemma str_le_trans: "str_le s t \<Longrightarrow> str_le t u \<Longrightarrow> str_le s u"
proof (induction s t arbitrary: u rule: str_le.induct)
  case (3 a s b t)
  then show ?case by (cases u) (auto split: if_splits)
qed auto

lemma sorted_insert_string: "sorted_wrt str_le ts \<Longrightarrow> sorted_wrt str_le (insert_string s ts)"
  using str_le_linear str_le_trans by (induction ts) auto

lemma sorted_sort_strings: "sorted_wrt str_le (sort_strings ss)"
  by (induction ss) (auto simp: sort_strings_def sorted_insert_string)

section \<open>Lists\<close>

text \<open>Every list of a given property has a first element with a property.\<close>

lemma sorted_wrt_Cons2: "sorted_wrt R (x # y # zs) \<Longrightarrow> R x y"
  by simp

lemma last_less_all:
  "sorted_wrt R (xs @ [x]) \<longleftrightarrow> sorted_wrt R xs \<and> (\<forall>y\<in>set xs. R y x)"
  by (auto simp: sorted_wrt_append)

end
