(* ===== verification/NetIP.thy ===== *)
theory NetIP
  imports Prelude
begin

unbundle bit_operations_syntax

text \<open>
  The part of Go's standard library that the address code rests on: \<open>net.IP\<close> as a
  byte slice with \<open>To4\<close>, \<open>To16\<close>, \<open>Equal\<close> and \<open>Mask\<close>, \<open>bytes.Compare\<close>, the
  byte view of \<open>big.Int\<close>, \<open>ParseIP\<close>, \<open>ParseCIDR\<close>, \<open>IPNet\<close>, and the printing of
  addresses and networks. Nothing here is code of the repository. The nil slice is
  the empty list: no non-nil empty slice occurs.
\<close>

type_synonym bytes = "byte list"

section \<open>Big-endian numbers\<close>

text \<open>\<open>new(big.Int).SetBytes(bs)\<close> and \<open>Bytes()\<close>, which drops the sign and leading zeros.\<close>

fun be_nat :: "bytes \<Rightarrow> nat" where
  "be_nat [] = 0"
| "be_nat (b # bs) = unat b * 256 ^ length bs + be_nat bs"

fun nat_be :: "nat \<Rightarrow> bytes" where
  "nat_be n = (if n = 0 then [] else nat_be (n div 256) @ [word_of_nat (n mod 256)])"

declare nat_be.simps [simp del]

definition big_bytes :: "int \<Rightarrow> bytes" where
  "big_bytes i = nat_be (nat \<bar>i\<bar>)"

text \<open>The big-endian bytes of a number in exactly \<open>l\<close> bytes, high bytes cut off.\<close>

fun be_fixed :: "nat \<Rightarrow> nat \<Rightarrow> bytes" where
  "be_fixed 0 n = []"
| "be_fixed (Suc l) n = be_fixed l (n div 256) @ [word_of_nat (n mod 256)]"

lemma be_nat_append: "be_nat (xs @ ys) = be_nat xs * 256 ^ length ys + be_nat ys"
  by (induction xs) (auto simp: algebra_simps power_add)

lemma unat_byte_less [simp]: "unat (b :: byte) < 256"
  using unsigned_less [of b] by simp

lemma be_nat_less: "be_nat bs < 256 ^ length bs"
proof (induction bs)
  case Nil
  then show ?case by simp
next
  case (Cons b bs)
  have "unat b * 256 ^ length bs + be_nat bs < unat b * 256 ^ length bs + 256 ^ length bs"
    using Cons by simp
  also have "\<dots> = (unat b + 1) * 256 ^ length bs" by (simp add: algebra_simps)
  also have "\<dots> \<le> 256 * 256 ^ length bs"
    using unat_byte_less [of b] by (intro mult_le_mono1) linarith
  finally show ?case by simp
qed

lemma length_be_fixed [simp]: "length (be_fixed l n) = l"
  by (induction l n rule: be_fixed.induct) auto

lemma be_nat_be_fixed: "be_nat (be_fixed l n) = n mod 256 ^ l"
proof (induction l n rule: be_fixed.induct)
  case (1 n)
  then show ?case by simp
next
  case (2 l n)
  have "unat (word_of_nat (n mod 256) :: byte) = n mod 256"
    by (simp add: unat_of_nat)
  with 2 show ?case
    by (simp add: be_nat_append mod_mult2_eq)
qed

lemma be_nat_nat_be: "be_nat (nat_be n) = n"
proof (induction n rule: nat_be.induct)
  case (1 n)
  have "unat (word_of_nat (n mod 256) :: byte) = n mod 256"
    by (simp add: unat_of_nat)
  with 1 show ?case
    by (cases "n = 0") (simp_all add: nat_be.simps [of n] nat_be.simps [of 0] be_nat_append)
qed

lemma be_nat_inj: "length xs = length ys \<Longrightarrow> be_nat xs = be_nat ys \<Longrightarrow> xs = ys"
proof (induction xs ys rule: list_induct2)
  case Nil
  then show ?case by simp
next
  case (Cons x xs y ys)
  have lt: "be_nat xs < 256 ^ length xs" "be_nat ys < 256 ^ length xs"
    using be_nat_less [of xs] be_nat_less [of ys] Cons.hyps by simp_all
  have eq: "unat x * 256 ^ length xs + be_nat xs = unat y * 256 ^ length xs + be_nat ys"
    using Cons.prems Cons.hyps by simp
  then have "(unat x * 256 ^ length xs + be_nat xs) div 256 ^ length xs
           = (unat y * 256 ^ length xs + be_nat ys) div 256 ^ length xs"
    by simp
  with lt have "unat x = unat y" by simp
  with eq have "be_nat xs = be_nat ys" by simp
  with Cons \<open>unat x = unat y\<close> show ?case by (simp add: word_unat_eq_iff)
qed

lemma be_fixed_be_nat: "be_fixed (length bs) (be_nat bs) = bs"
  by (rule be_nat_inj) (simp_all add: be_nat_be_fixed be_nat_less)

lemma be_nat_replicate0 [simp]: "be_nat (replicate n 0) = 0"
  by (induction n) auto

lemma be_nat_drop: "be_nat (drop k bs) = be_nat bs mod 256 ^ (length bs - k)"
proof -
  have "be_nat bs = be_nat (take k bs) * 256 ^ (length bs - k) + be_nat (drop k bs)"
    using be_nat_append [of "take k bs" "drop k bs"] by simp
  moreover have "be_nat (drop k bs) < 256 ^ (length bs - k)"
    using be_nat_less [of "drop k bs"] by simp
  ultimately show ?thesis by simp
qed

text \<open>\<open>bytes.Compare\<close>: lexicographic, a proper prefix is smaller.\<close>

fun bytes_compare :: "bytes \<Rightarrow> bytes \<Rightarrow> int" where
  "bytes_compare [] [] = 0"
| "bytes_compare [] (y # ys) = -1"
| "bytes_compare (x # xs) [] = 1"
| "bytes_compare (x # xs) (y # ys) =
     (if x < y then -1 else if x > y then 1 else bytes_compare xs ys)"

lemma bytes_compare_be:
  "length xs = length ys \<Longrightarrow>
     bytes_compare xs ys = (if be_nat xs < be_nat ys then -1 else if be_nat xs > be_nat ys then 1 else 0)"
proof (induction xs ys rule: list_induct2)
  case Nil
  then show ?case by simp
next
  case (Cons x xs y ys)
  let ?B = "256 ^ length xs :: nat"
  have lt: "be_nat xs < ?B" "be_nat ys < ?B"
    using be_nat_less [of xs] be_nat_less [of ys] Cons.hyps by simp_all
  have step: "a * ?B + u < b * ?B + v" if "a < b" "u < ?B" for a b u v :: nat
  proof -
    have "a * ?B + u < (a + 1) * ?B" using that by simp
    also have "\<dots> \<le> b * ?B" using that by (intro mult_le_mono1) simp
    finally show ?thesis by simp
  qed
  consider "x < y" | "x > y" | "x = y" by fastforce
  then show ?case
  proof cases
    case 1
    then show ?thesis
      using step [of "unat x" "unat y" "be_nat xs" "be_nat ys"] lt Cons.hyps
      by (simp add: word_less_nat_alt)
  next
    case 2
    then show ?thesis
      using step [of "unat y" "unat x" "be_nat ys" "be_nat xs"] lt Cons.hyps
      by (simp add: word_less_nat_alt)
  next
    case 3
    then show ?thesis using Cons by simp
  qed
qed

section \<open>net.IP\<close>

definition v4InV6Prefix :: bytes where
  "v4InV6Prefix = replicate 10 0 @ [255, 255]"

definition ip_to4 :: "bytes \<Rightarrow> bytes" where
  "ip_to4 ip =
     (if length ip = 4 then ip
      else if length ip = 16 \<and> take 12 ip = v4InV6Prefix then drop 12 ip
      else [])"

definition ip_to16 :: "bytes \<Rightarrow> bytes" where
  "ip_to16 ip =
     (if length ip = 4 then v4InV6Prefix @ ip
      else if length ip = 16 then ip
      else [])"

definition ip_equal :: "bytes \<Rightarrow> bytes \<Rightarrow> bool" where
  "ip_equal a b =
     (if length a = length b then a = b
      else if length a = 4 \<and> length b = 16 then take 12 b = v4InV6Prefix \<and> a = drop 12 b
      else if length a = 16 \<and> length b = 4 then take 12 a = v4InV6Prefix \<and> drop 12 a = b
      else False)"

text \<open>The lengths an address can have, and the number the 16-byte form stands for.\<close>

definition ip_valid :: "bytes \<Rightarrow> bool" where
  "ip_valid ip = (length ip = 4 \<or> length ip = 16)"

definition ipv :: "bytes \<Rightarrow> nat" where
  "ipv ip = be_nat (ip_to16 ip)"

definition v4base :: nat where
  "v4base = 65535 * 2 ^ 32"

lemma length_v4InV6Prefix [simp]: "length v4InV6Prefix = 12"
  by (simp add: v4InV6Prefix_def)

lemma be_nat_v4InV6Prefix: "be_nat v4InV6Prefix = 65535"
  by (simp add: v4InV6Prefix_def be_nat_append)

lemma ip_to16_length: "ip_valid ip \<Longrightarrow> length (ip_to16 ip) = 16"
  by (auto simp: ip_valid_def ip_to16_def)

lemma ipv_4: "length ip = 4 \<Longrightarrow> ipv ip = v4base + be_nat ip"
  by (simp add: ipv_def ip_to16_def be_nat_append be_nat_v4InV6Prefix v4base_def)

lemma ipv_16: "length ip = 16 \<Longrightarrow> ipv ip = be_nat ip"
  by (simp add: ipv_def ip_to16_def)

lemma ip_equal_ipv:
  assumes "ip_valid a" "ip_valid b"
  shows "ip_equal a b \<longleftrightarrow> ipv a = ipv b"
proof -
  have "ipv a = ipv b \<longleftrightarrow> ip_to16 a = ip_to16 b"
    using be_nat_inj [of "ip_to16 a" "ip_to16 b"] assms
    by (auto simp: ipv_def ip_to16_length)
  moreover have "v4InV6Prefix @ x = y \<longleftrightarrow> take 12 y = v4InV6Prefix \<and> x = drop 12 y" for x y
    by (simp only: append_eq_conv_conj) auto
  then have "ip_to16 a = ip_to16 b \<longleftrightarrow> ip_equal a b"
    using assms unfolding ip_valid_def ip_to16_def ip_equal_def
    by (elim disjE) (simp_all, metis)
  ultimately show ?thesis by simp
qed

lemma ip_to4_16: "length ip = 16 \<Longrightarrow> ip_to4 ip \<noteq> [] \<Longrightarrow> ipv ip = v4base + be_nat (ip_to4 ip)"
  using append_take_drop_id [of 12 ip] be_nat_append [of "take 12 ip" "drop 12 ip"]
  by (auto simp: ip_to4_def ipv_16 be_nat_v4InV6Prefix v4base_def split: if_splits)

lemma ip_to4_length: "ip_to4 ip \<noteq> [] \<Longrightarrow> length (ip_to4 ip) = 4"
  by (auto simp: ip_to4_def split: if_splits)

lemma ip_to4_ipv: "ip_valid ip \<Longrightarrow> ip_to4 ip \<noteq> [] \<Longrightarrow> ipv ip = v4base + be_nat (ip_to4 ip)"
  using ip_to4_16 by (auto simp: ip_valid_def ipv_4 ip_to4_def)

lemma ip_to4_iff: "ip_valid ip \<Longrightarrow> ip_to4 ip \<noteq> [] \<longleftrightarrow> v4base \<le> ipv ip \<and> ipv ip < v4base + 2 ^ 32"
proof
  assume v: "ip_valid ip" and "ip_to4 ip \<noteq> []"
  then show "v4base \<le> ipv ip \<and> ipv ip < v4base + 2 ^ 32"
    using be_nat_less [of "ip_to4 ip"] by (simp add: ip_to4_ipv ip_to4_length)
next
  assume v: "ip_valid ip" and r: "v4base \<le> ipv ip \<and> ipv ip < v4base + 2 ^ 32"
  show "ip_to4 ip \<noteq> []"
  proof (cases "length ip = 4")
    case True
    then show ?thesis by (auto simp: ip_to4_def)
  next
    case False
    with v have l: "length ip = 16" by (simp add: ip_valid_def)
    have "ipv ip = be_nat (take 12 ip) * 2 ^ 32 + be_nat (drop 12 ip)"
      using be_nat_append [of "take 12 ip" "drop 12 ip"] l by (simp add: ipv_16)
    moreover have "be_nat (drop 12 ip) < 2 ^ 32"
      using be_nat_less [of "drop 12 ip"] l by simp
    ultimately have "be_nat (take 12 ip) = 65535"
      using r by (simp add: v4base_def)
    then have "take 12 ip = v4InV6Prefix"
      using l by (intro be_nat_inj) (simp_all add: be_nat_v4InV6Prefix)
    with l show ?thesis by (auto simp: ip_to4_def)
  qed
qed

end
