(* ===== verification/NetText.thy ===== *)
theory NetText
  imports NetIP
begin

unbundle bit_operations_syntax

text \<open>
  Text of addresses and networks in Go's \<open>net\<close> and \<open>net/netip\<close>: decimal and
  hexadecimal numbers, \<open>ParseIP\<close>, \<open>IP.String\<close>, \<open>CIDRMask\<close>, \<open>ParseCIDR\<close>,
  \<open>IPNet.Contains\<close> and \<open>IPNet.String\<close>. A zone makes \<open>ParseIP\<close> and
  \<open>ParseCIDR\<close> fail, so a text with \<open>%\<close> is refused. The last section proves that
  parsing reads back what printing writes, so the printed address determines the
  address (the allocator keys its maps by it).
\<close>

section \<open>Numbers\<close>

definition is_digit :: "char \<Rightarrow> bool" where
  "is_digit c = (48 \<le> (of_char c :: nat) \<and> of_char c \<le> (57 :: nat))"

definition digit_char :: "nat \<Rightarrow> char" where
  "digit_char d = char_of (48 + d)"

definition digit_val :: "char \<Rightarrow> nat" where
  "digit_val c = of_char c - 48"

definition dec_val :: "string \<Rightarrow> nat" where
  "dec_val ds = foldl (\<lambda>n c. 10 * n + digit_val c) 0 ds"

text \<open>\<open>strconv.Itoa\<close> and \<open>fmt\<close>'s \<open>%d\<close> on natural numbers.\<close>

fun dec :: "nat \<Rightarrow> string" where
  "dec n = (if n < 10 then [digit_char n] else dec (n div 10) @ [digit_char (n mod 10)])"

declare dec.simps [simp del]

definition is_hex :: "char \<Rightarrow> bool" where
  "is_hex c = (let n = of_char c :: nat in
     48 \<le> n \<and> n \<le> 57 \<or> 97 \<le> n \<and> n \<le> 102 \<or> 65 \<le> n \<and> n \<le> 70)"

definition hex_digit_val :: "char \<Rightarrow> nat" where
  "hex_digit_val c = (let n = of_char c :: nat in
     if n \<le> 57 then n - 48 else if n \<le> 70 then n - 55 else n - 87)"

definition hex_val :: "string \<Rightarrow> nat" where
  "hex_val ds = foldl (\<lambda>n c. 16 * n + hex_digit_val c) 0 ds"

definition hex_char :: "nat \<Rightarrow> char" where
  "hex_char d = (if d < 10 then char_of (48 + d) else char_of (87 + d))"

fun hexs :: "nat \<Rightarrow> string" where
  "hexs n = (if n < 16 then [hex_char n] else hexs (n div 16) @ [hex_char (n mod 16)])"

declare hexs.simps [simp del]

section \<open>Parsing addresses\<close>

text \<open>One IPv4 field: digits only, no leading zero, at most 255.\<close>

definition parse_octet :: "string \<Rightarrow> nat option" where
  "parse_octet ds =
     (if ds \<noteq> [] \<and> list_all is_digit ds \<and> (length ds = 1 \<or> hd ds \<noteq> CHR ''0'') \<and> dec_val ds \<le> 255
      then Some (dec_val ds) else None)"

definition parse_v4 :: "string \<Rightarrow> nat list option" where
  "parse_v4 s =
     (let fs = map parse_octet (split_char CHR ''.'' s)
      in if length fs = 4 \<and> None \<notin> set fs then Some (map the fs) else None)"

text \<open>
  The loop of \<open>netip.parseIPv6\<close>: \<open>k\<close> groups are still to be read, \<open>gs\<close> are the
  groups read, \<open>ell\<close> is the place of the double colon. The result is the unread text
  with the groups and that place.
\<close>

fun v6_loop :: "nat \<Rightarrow> string \<Rightarrow> nat list \<Rightarrow> nat option \<Rightarrow> (string \<times> nat list \<times> nat option) option" where
  "v6_loop 0 s gs ell = Some (s, gs, ell)"
| "v6_loop (Suc k) s gs ell =
     (let ds = takeWhile is_hex s; rest = dropWhile is_hex s in
      if ds = [] \<or> length ds > 4 then None
      else if rest \<noteq> [] \<and> hd rest = CHR ''.'' then
        (if ell = None \<and> length gs \<noteq> 6 \<or> length gs + 2 > 8 then None
         else case parse_v4 s of
             Some [a, b, c, d] \<Rightarrow> Some ([], gs @ [a * 256 + b, c * 256 + d], ell)
           | _ \<Rightarrow> None)
      else
        (let gs' = gs @ [hex_val ds] in
         if rest = [] then Some ([], gs', ell)
         else if hd rest \<noteq> CHR '':'' \<or> length rest = 1 then None
         else let s' = tl rest in
           if hd s' = CHR '':'' then
             (if ell \<noteq> None then None
              else if tl s' = [] then Some ([], gs', Some (length gs'))
              else v6_loop k (tl s') gs' (Some (length gs')))
           else v6_loop k s' gs' ell))"

declare v6_loop.simps(2) [simp del]

definition parse_v6 :: "string \<Rightarrow> nat list option" where
  "parse_v6 s =
     (if s = ''::'' then Some (replicate 8 0)
      else case (if prefix ''::'' s then v6_loop 8 (drop 2 s) [] (Some 0) else v6_loop 8 s [] None) of
          None \<Rightarrow> None
        | Some (rest, gs, ell) \<Rightarrow>
            if rest \<noteq> [] then None
            else if length gs < 8 then
              (case ell of
                 None \<Rightarrow> None
               | Some e \<Rightarrow> Some (take e gs @ replicate (8 - length gs) 0 @ drop e gs))
            else if ell \<noteq> None then None
            else Some gs)"

definition groups_bytes :: "nat list \<Rightarrow> bytes" where
  "groups_bytes gs = concat (map (\<lambda>g. [word_of_nat (g div 256), word_of_nat (g mod 256)]) gs)"

text \<open>\<open>netip.ParseAddr\<close> without zones: the 16-byte address and its \<open>BitLen\<close>.\<close>

definition parse_addr :: "string \<Rightarrow> (bytes \<times> nat) option" where
  "parse_addr s =
     (if CHR ''%'' \<in> set s then None
      else case find (\<lambda>c. c = CHR ''.'' \<or> c = CHR '':'') s of
          None \<Rightarrow> None
        | Some c \<Rightarrow>
            if c = CHR ''.''
            then map_option (\<lambda>fs. (v4InV6Prefix @ map word_of_nat fs, 32)) (parse_v4 s)
            else map_option (\<lambda>gs. (groups_bytes gs, 128)) (parse_v6 s))"

text \<open>\<open>net.ParseIP\<close>: 16 bytes, or nil.\<close>

definition ParseIP :: "string \<Rightarrow> bytes" where
  "ParseIP s = (case parse_addr s of None \<Rightarrow> [] | Some (ip, _) \<Rightarrow> ip)"

section \<open>Printing addresses\<close>

definition v4_string :: "bytes \<Rightarrow> string" where
  "v4_string ip = join ''.'' (map (dec \<circ> unat) ip)"

fun groups16 :: "bytes \<Rightarrow> nat list" where
  "groups16 (a # b # bs) = (unat a * 256 + unat b) # groups16 bs"
| "groups16 _ = []"

text \<open>The first longest run of at least two zero groups, as (start, end).\<close>

definition zero_run :: "nat list \<Rightarrow> nat \<Rightarrow> nat" where
  "zero_run gs i = length (takeWhile (\<lambda>g. g = 0) (drop i gs))"

definition longest_zeros :: "nat list \<Rightarrow> (nat \<times> nat) option" where
  "longest_zeros gs =
     foldl (\<lambda>best i.
        let l = zero_run gs i;
            b = (case best of None \<Rightarrow> 0 | Some (s, e) \<Rightarrow> e - s)
        in if l \<ge> 2 \<and> l > b then Some (i, i + l) else best) None [0..<length gs]"

definition v6_string :: "nat list \<Rightarrow> string" where
  "v6_string gs =
     (case longest_zeros gs of
        None \<Rightarrow> join '':'' (map hexs gs)
      | Some (s, e) \<Rightarrow> join '':'' (map hexs (take s gs)) @ ''::'' @ join '':'' (map hexs (drop e gs)))"

text \<open>\<open>net.IP.String\<close>; a slice of another length prints as \<open>?\<close> and its bytes in hex.\<close>

definition ip_string :: "bytes \<Rightarrow> string" where
  "ip_string ip =
     (if ip = [] then ''<nil>''
      else if ip_to4 ip \<noteq> [] then v4_string (ip_to4 ip)
      else if length ip = 16 then v6_string (groups16 ip)
      else ''?'' @ concat (map (\<lambda>b. [hex_char (unat b div 16), hex_char (unat b mod 16)]) ip))"

section \<open>Masks and networks\<close>

text \<open>\<open>net.CIDRMask\<close> over \<open>l\<close> bytes, \<open>simpleMaskLength\<close> and \<open>Mask.Size\<close>.\<close>

fun cidr_mask :: "nat \<Rightarrow> nat \<Rightarrow> bytes" where
  "cidr_mask 0 n = []"
| "cidr_mask (Suc l) n =
     (if n \<ge> 8 then 255 # cidr_mask l (n - 8) else NOT (drop_bit n 255) # cidr_mask l 0)"

definition CIDRMask :: "nat \<Rightarrow> nat \<Rightarrow> bytes" where
  "CIDRMask ones bits = (if (bits = 32 \<or> bits = 128) \<and> ones \<le> bits then cidr_mask (bits div 8) ones else [])"

fun byte_ones :: "nat \<Rightarrow> byte \<Rightarrow> nat" where
  "byte_ones 0 b = 0"
| "byte_ones (Suc k) b = (if bit b k then Suc (byte_ones k b) else 0)"

text \<open>None is Go's -1: the ones do not form a prefix.\<close>

fun mask_length :: "bytes \<Rightarrow> nat option" where
  "mask_length [] = Some 0"
| "mask_length (b # bs) =
     (if b = 255 then map_option (\<lambda>n. n + 8) (mask_length bs)
      else let n = byte_ones 8 b in
        if b = NOT (drop_bit n 255) \<and> list_all (\<lambda>x. x = 0) bs then Some n else None)"

definition mask_size :: "bytes \<Rightarrow> nat \<times> nat" where
  "mask_size m = (case mask_length m of None \<Rightarrow> (0, 0) | Some n \<Rightarrow> (n, 8 * length m))"

record IPNet =
  NetIP :: bytes
  NetMask :: bytes

definition ip_mask :: "bytes \<Rightarrow> bytes \<Rightarrow> bytes" where
  "ip_mask ip m =
     (let m' = (if length m = 16 \<and> length ip = 4 \<and> list_all (\<lambda>b. b = 255) (take 12 m) then drop 12 m else m);
          ip' = (if length m' = 4 \<and> length ip = 16 \<and> take 12 ip = v4InV6Prefix then drop 12 ip else ip)
      in if length ip' = length m' then map2 (AND) ip' m' else [])"

text \<open>\<open>dtoi\<close> with the check that it consumed all of its text.\<close>

definition parse_bits :: "string \<Rightarrow> nat option" where
  "parse_bits s =
     (if s \<noteq> [] \<and> list_all is_digit s \<and> dec_val s < 16777215 then Some (dec_val s) else None)"

definition ParseCIDR :: "string \<Rightarrow> (bytes \<times> IPNet) option" where
  "ParseCIDR s =
     (case cut ''/'' s of
        None \<Rightarrow> None
      | Some (a, m) \<Rightarrow>
          (case parse_addr a of
             None \<Rightarrow> None
           | Some (ip, bits) \<Rightarrow>
               (case parse_bits m of
                  None \<Rightarrow> None
                | Some n \<Rightarrow>
                    if n > bits then None
                    else Some (ip, \<lparr>NetIP = ip_mask ip (CIDRMask n bits), NetMask = CIDRMask n bits\<rparr>))))"

definition network_number_and_mask :: "IPNet \<Rightarrow> bytes \<times> bytes" where
  "network_number_and_mask n =
     (let ip = (if ip_to4 (NetIP n) \<noteq> [] then ip_to4 (NetIP n) else NetIP n); m = NetMask n in
      if length ip \<noteq> 4 \<and> length ip \<noteq> 16 then ([], [])
      else if length m = 4 then (if length ip = 4 then (ip, m) else ([], []))
      else if length m = 16 then (ip, if length ip = 4 then drop 12 m else m)
      else ([], []))"

definition net_contains :: "IPNet \<Rightarrow> bytes \<Rightarrow> bool" where
  "net_contains n ip =
     (let (nn, m) = network_number_and_mask n;
          x = (if ip_to4 ip \<noteq> [] then ip_to4 ip else ip)
      in length x = length nn \<and> map2 (AND) nn m = map2 (AND) x m)"

definition net_string :: "IPNet \<Rightarrow> string" where
  "net_string n =
     (let (nn, m) = network_number_and_mask n in
      if nn = [] \<or> m = [] then ''<nil>''
      else case mask_length m of
          Some l \<Rightarrow> ip_string nn @ ''/'' @ dec l
        | None \<Rightarrow> ip_string nn @ ''/'' @
            concat (map (\<lambda>b. [hex_char (unat b div 16), hex_char (unat b mod 16)]) m))"

section \<open>Reading back what is printed\<close>

lemma digit_char_props [simp]:
  "d < 10 \<Longrightarrow> digit_val (digit_char d) = d" "d < 10 \<Longrightarrow> is_digit (digit_char d)"
  by (simp_all add: digit_val_def digit_char_def is_digit_def)

lemma dec_val_snoc [simp]: "dec_val (ds @ [c]) = 10 * dec_val ds + digit_val c"
  by (simp add: dec_val_def)

lemma dec_val_Nil [simp]: "dec_val [] = 0"
  by (simp add: dec_val_def)

lemma dec_val_dec [simp]: "dec_val (dec n) = n"
proof (induction n rule: dec.induct)
  case (1 n)
  then show ?case
    by (cases "n < 10") (simp_all add: dec.simps [of n] dec_val_def [of "[_]"])
qed

lemma dec_digits: "list_all is_digit (dec n)"
proof (induction n rule: dec.induct)
  case (1 n)
  then show ?case by (cases "n < 10") (simp_all add: dec.simps [of n])
qed

lemma dec_nonempty [simp]: "dec n \<noteq> []"
  by (subst dec.simps) simp

lemma digit_char_0: "d < 10 \<Longrightarrow> digit_char d = CHR ''0'' \<longleftrightarrow> d = 0"
proof -
  assume d: "d < 10"
  have "digit_char 0 = CHR ''0''" by code_simp
  moreover have "digit_val CHR ''0'' = 0" by code_simp
  ultimately show ?thesis using digit_char_props(1) [OF d] by auto
qed

lemma dec_no_leading_zero: "0 < n \<Longrightarrow> hd (dec n) \<noteq> CHR ''0''"
proof (induction n rule: dec.induct)
  case (1 n)
  then show ?case
    by (cases "n < 10") (simp_all add: dec.simps [of n] digit_char_0)
qed

lemma dec_length_1: "length (dec n) = 1 \<longleftrightarrow> n < 10"
  by (subst dec.simps) simp

lemma parse_octet_dec: "n \<le> 255 \<Longrightarrow> parse_octet (dec n) = Some n"
  using dec_no_leading_zero [of n] dec_length_1 [of n]
  by (auto simp: parse_octet_def dec_digits)

lemma dec_not_in: "\<not> is_digit c \<Longrightarrow> c \<notin> set (dec n)"
  using dec_digits [of n] by (auto simp: list_all_iff)

lemma not_digits [simp]:
  "\<not> is_digit CHR ''.''" "\<not> is_digit CHR '':''" "\<not> is_digit CHR ''%''" "\<not> is_digit CHR ''/''"
  "\<not> is_digit CHR '',''"
  by (simp_all add: is_digit_def)

lemma set_join: "set (join sep xs) \<subseteq> set sep \<union> (\<Union>x\<in>set xs. set x)"
  by (induction sep xs rule: join.induct) auto

lemma v4_string_chars: "c \<in> set (v4_string ip) \<Longrightarrow> is_digit c \<or> c = CHR ''.''"
  using set_join [of "''.''" "map (dec \<circ> unat) ip"] dec_digits
  by (fastforce simp: v4_string_def list_all_iff)

lemma parse_v4_string:
  assumes "length ip = 4"
  shows "parse_v4 (v4_string ip) = Some (map unat ip)"
proof -
  have ne: "map (dec \<circ> unat) ip \<noteq> []" using assms by auto
  have "split_char CHR ''.'' (v4_string ip) = map (dec \<circ> unat) ip"
    unfolding v4_string_def by (rule split_char_join [OF ne]) (auto simp: dec_not_in)
  moreover have "parse_octet (dec (unat b)) = Some (unat b)" for b :: byte
    using unat_byte_less [of b] by (intro parse_octet_dec) linarith
  ultimately show ?thesis
    using assms by (auto simp: parse_v4_def comp_def)
qed

lemma v4_string_has_dot: "length ip = 4 \<Longrightarrow> CHR ''.'' \<in> set (v4_string ip)"
  by (auto simp: v4_string_def length_Suc_conv eval_nat_numeral)

lemma find_dot:
  "CHR ''.'' \<in> set s \<Longrightarrow> CHR '':'' \<notin> set s \<Longrightarrow>
     find (\<lambda>c. c = CHR ''.'' \<or> c = CHR '':'') s = Some CHR ''.''"
  by (induction s) auto

lemma find_colon:
  "CHR '':'' \<in> set s \<Longrightarrow> CHR ''.'' \<notin> set s \<Longrightarrow>
     find (\<lambda>c. c = CHR ''.'' \<or> c = CHR '':'') s = Some CHR '':''"
  by (induction s) auto

lemma parse_addr_v4_string:
  assumes "length ip = 4"
  shows "parse_addr (v4_string ip) = Some (v4InV6Prefix @ ip, 32)"
proof -
  have no: "CHR ''%'' \<notin> set (v4_string ip)" "CHR '':'' \<notin> set (v4_string ip)"
    using v4_string_chars [of _ ip] by fastforce+
  have "map (word_of_nat \<circ> unat) ip = ip"
    by (induction ip) auto
  with no show ?thesis
    using assms find_dot [OF v4_string_has_dot [OF assms] no(2)]
    by (simp add: parse_addr_def parse_v4_string)
qed

text \<open>Hexadecimal groups.\<close>

lemma hex_char_props [simp]:
  "d < 16 \<Longrightarrow> hex_digit_val (hex_char d) = d" "d < 16 \<Longrightarrow> is_hex (hex_char d)"
  by (auto simp: hex_digit_val_def hex_char_def is_hex_def Let_def)

lemma hex_val_snoc [simp]: "hex_val (ds @ [c]) = 16 * hex_val ds + hex_digit_val c"
  by (simp add: hex_val_def)

lemma hex_val_hexs [simp]: "hex_val (hexs n) = n"
proof (induction n rule: hexs.induct)
  case (1 n)
  then show ?case
    by (cases "n < 16") (simp_all add: hexs.simps [of n] hex_val_def [of "[_]"])
qed

lemma hexs_hex: "c \<in> set (hexs n) \<Longrightarrow> is_hex c"
proof (induction n rule: hexs.induct)
  case (1 n)
  then show ?case by (cases "n < 16") (auto simp: hexs.simps [of n])
qed

lemma hexs_nonempty [simp]: "hexs n \<noteq> []"
  by (subst hexs.simps) simp

lemma hexs_length: "n < 16 ^ k \<Longrightarrow> 0 < k \<Longrightarrow> length (hexs n) \<le> k"
proof (induction k arbitrary: n)
  case 0
  then show ?case by simp
next
  case (Suc k)
  show ?case
  proof (cases "n < 16")
    case True
    then show ?thesis by (simp add: hexs.simps [of n])
  next
    case False
    with Suc.prems have "n div 16 < 16 ^ k" "0 < k"
      by (auto simp: div_less_iff_less_mult mult.commute intro: gr0I)
    then show ?thesis using Suc.IH [of "n div 16"] False by (simp add: hexs.simps [of n])
  qed
qed

lemma not_hex [simp]: "\<not> is_hex CHR ''.''" "\<not> is_hex CHR '':''" "\<not> is_hex CHR ''%''" "\<not> is_hex CHR ''/''"
  by (simp_all add: is_hex_def Let_def)

lemma hexs_all [simp]:
  "takeWhile is_hex (hexs n) = hexs n" "dropWhile is_hex (hexs n) = []" "is_hex (hd (hexs n))"
  using hexs_hex [of _ n] by (auto simp: takeWhile_eq_all_conv dropWhile_eq_Nil_conv)

lemma takeWhile_hexs: "(\<And>c cs. r = c # cs \<Longrightarrow> \<not> is_hex c) \<Longrightarrow> takeWhile is_hex (hexs n @ r) = hexs n"
  by (cases r) (auto simp: takeWhile_append2 hexs_hex)

lemma dropWhile_hexs: "(\<And>c cs. r = c # cs \<Longrightarrow> \<not> is_hex c) \<Longrightarrow> dropWhile is_hex (hexs n @ r) = r"
  by (cases r) (auto simp: dropWhile_append hexs_hex)

text \<open>One group of the loop: at the end of the text, before a colon, before a double colon.\<close>

lemma v6_loop_last:
  "g < 65536 \<Longrightarrow> v6_loop (Suc k) (hexs g) gs ell = Some ([], gs @ [g], ell)"
  using hexs_length [of g 4] by (simp add: v6_loop.simps(2) Let_def)

lemma v6_loop_colon:
  assumes "g < 65536" "s \<noteq> []" "hd s \<noteq> CHR '':''"
  shows "v6_loop (Suc k) (hexs g @ '':'' @ s) gs ell = v6_loop k s (gs @ [g]) ell"
  using assms hexs_length [of g 4] takeWhile_hexs [of "'':'' @ s" g] dropWhile_hexs [of "'':'' @ s" g]
  by (simp add: v6_loop.simps(2) Let_def)

lemma v6_loop_ellipsis:
  assumes "g < 65536"
  shows "v6_loop (Suc k) (hexs g @ ''::'' @ s) gs None =
    (if s = [] then Some ([], gs @ [g], Some (Suc (length gs)))
     else v6_loop k s (gs @ [g]) (Some (Suc (length gs))))"
  using assms hexs_length [of g 4] takeWhile_hexs [of "''::'' @ s" g] dropWhile_hexs [of "''::'' @ s" g]
  by (simp add: v6_loop.simps(2) Let_def)

lemma join_hexs_hd: "hs \<noteq> [] \<Longrightarrow> join '':'' (map hexs hs) @ t \<noteq> [] \<and> is_hex (hd (join '':'' (map hexs hs) @ t))"
  by (cases hs rule: list.exhaust [case_names Nil Cons]; cases "tl hs")
    (auto simp: hd_append hexs_hex)

lemma is_hex_not_colon: "is_hex c \<Longrightarrow> c \<noteq> CHR '':''"
  by auto

lemma v6_loop_join:
  "hs \<noteq> [] \<Longrightarrow> length hs \<le> k \<Longrightarrow> \<forall>g\<in>set hs. g < 65536 \<Longrightarrow>
     v6_loop k (join '':'' (map hexs hs)) gs ell = Some ([], gs @ hs, ell)"
proof (induction hs arbitrary: k gs)
  case Nil
  then show ?case by simp
next
  case (Cons h hs)
  then obtain k' where k: "k = Suc k'" by (cases k) auto
  show ?case
  proof (cases "hs = []")
    case True
    then show ?thesis using Cons.prems k by (simp add: v6_loop_last)
  next
    case False
    then have "join '':'' (map hexs (h # hs)) = hexs h @ '':'' @ join '':'' (map hexs hs)"
      by (simp add: join_Cons)
    moreover have "v6_loop k (hexs h @ '':'' @ join '':'' (map hexs hs)) gs ell
        = v6_loop k' (join '':'' (map hexs hs)) (gs @ [h]) ell"
      using join_hexs_hd [OF False, of "[]"] Cons.prems unfolding k
      by (intro v6_loop_colon) (auto dest: is_hex_not_colon)
    ultimately show ?thesis using Cons.IH [OF False, of k' "gs @ [h]"] Cons.prems k by simp
  qed
qed

lemma v6_loop_join_ellipsis:
  "hs \<noteq> [] \<Longrightarrow> length hs \<le> k \<Longrightarrow> \<forall>g\<in>set hs. g < 65536 \<Longrightarrow>
     v6_loop k (join '':'' (map hexs hs) @ ''::'' @ s) gs None =
       (if s = [] then Some ([], gs @ hs, Some (length gs + length hs))
        else v6_loop (k - length hs) s (gs @ hs) (Some (length gs + length hs)))"
proof (induction hs arbitrary: k gs)
  case Nil
  then show ?case by simp
next
  case (Cons h hs)
  then obtain k' where k: "k = Suc k'" by (cases k) auto
  show ?case
  proof (cases "hs = []")
    case True
    then show ?thesis
      using Cons.prems k v6_loop_ellipsis [of h k' s gs] by simp
  next
    case False
    let ?t = "join '':'' (map hexs hs) @ ''::'' @ s"
    have "join '':'' (map hexs (h # hs)) @ ''::'' @ s = hexs h @ '':'' @ ?t"
      using False by (simp add: join_Cons)
    moreover have "v6_loop k (hexs h @ '':'' @ ?t) gs None = v6_loop k' ?t (gs @ [h]) None"
      using join_hexs_hd [OF False, of "''::'' @ s"] Cons.prems unfolding k
      by (intro v6_loop_colon) (auto dest: is_hex_not_colon)
    ultimately show ?thesis using Cons.IH [OF False, of k' "gs @ [h]"] Cons.prems k by simp
  qed
qed

text \<open>The elided run is a run of zeros, so the groups around it determine the list.\<close>

lemma zero_run_zeros: "zero_run gs i \<le> length gs - i \<and> take (zero_run gs i) (drop i gs) = replicate (zero_run gs i) 0"
proof -
  let ?w = "takeWhile (\<lambda>g. g = 0) (drop i gs)"
  have "length ?w \<le> length (drop i gs)" by (rule length_takeWhile_le)
  moreover have "?w = replicate (length ?w) 0"
    by (rule replicate_eqI) (auto dest: set_takeWhileD)
  ultimately show ?thesis
    by (metis zero_run_def length_drop takeWhile_eq_take)
qed

lemma longest_zeros_run:
  assumes "longest_zeros gs = Some (s, e)"
  shows "s + 2 \<le> e \<and> e \<le> length gs \<and> take (e - s) (drop s gs) = replicate (e - s) 0"
proof -
  define ok where "ok = (\<lambda>best. case best of None \<Rightarrow> True
    | Some (s, e) \<Rightarrow> s + 2 \<le> e \<and> e \<le> length gs \<and> take (e - s) (drop s gs) = replicate (e - s) 0)"
  have step: "ok (foldl (\<lambda>best i.
        let l = zero_run gs i; b = (case best of None \<Rightarrow> 0 | Some (s, e) \<Rightarrow> e - s)
        in if l \<ge> 2 \<and> l > b then Some (i, i + l) else best) best is)"
    if "ok best" "\<forall>i\<in>set is. i < length gs" for best and "is" :: "nat list"
    using that
  proof (induction "is" arbitrary: best)
    case Nil
    then show ?case by simp
  next
    case (Cons i "is")
    have "ok (Some (i, i + zero_run gs i))" if "2 \<le> zero_run gs i"
      using that zero_run_zeros [of gs i] Cons.prems by (auto simp: ok_def)
    with Cons show ?case by (simp add: Let_def)
  qed
  have "ok (longest_zeros gs)"
    unfolding longest_zeros_def by (rule step) (auto simp: ok_def)
  with assms show ?thesis by (simp add: ok_def)
qed

lemma longest_zeros_split:
  assumes "longest_zeros gs = Some (s, e)"
  shows "take s gs @ replicate (e - s) 0 @ drop e gs = gs"
proof -
  from longest_zeros_run [OF assms] have r: "s + 2 \<le> e" "take (e - s) (drop s gs) = replicate (e - s) 0"
    by auto
  have "gs = take s gs @ take (e - s) (drop s gs) @ drop (e - s) (drop s gs)"
    by (simp only: append_take_drop_id)
  with r show ?thesis by simp
qed

lemma join_hexs_empty [simp]: "join '':'' (map hexs hs) = [] \<longleftrightarrow> hs = []"
  using join_hexs_hd [of hs "[]"] by auto

lemma parse_v6_join:
  assumes "length gs = 8" "\<forall>g\<in>set gs. g < 65536"
  shows "parse_v6 (join '':'' (map hexs gs)) = Some gs"
proof -
  let ?s = "join '':'' (map hexs gs)"
  have ne: "gs \<noteq> []" using assms by auto
  have h: "?s \<noteq> []" "is_hex (hd ?s)" using join_hexs_hd [OF ne, of "[]"] by auto
  then have "\<not> prefix ''::'' ?s" by (cases ?s) auto
  then show ?thesis
    using v6_loop_join [OF ne, of 8 "[]" None] assms h by (auto simp: parse_v6_def)
qed

lemma parse_v6_leading:
  assumes "length hs < 8" "\<forall>g\<in>set hs. g < 65536"
  shows "parse_v6 (''::'' @ join '':'' (map hexs hs)) = Some (replicate (8 - length hs) 0 @ hs)"
proof (cases "hs = []")
  case True
  then show ?thesis by (simp add: parse_v6_def)
next
  case False
  then show ?thesis
    using v6_loop_join [OF False, of 8 "[]" "Some 0"] assms by (simp add: parse_v6_def)
qed

lemma parse_v6_middle:
  assumes "hs \<noteq> []" "length hs + length ts < 8" "\<forall>g\<in>set (hs @ ts). g < 65536"
  shows "parse_v6 (join '':'' (map hexs hs) @ ''::'' @ join '':'' (map hexs ts))
       = Some (hs @ replicate (8 - (length hs + length ts)) 0 @ ts)"
proof -
  let ?t = "join '':'' (map hexs ts)"
  let ?s = "join '':'' (map hexs hs) @ ''::'' @ ?t"
  have h: "?s \<noteq> []" "is_hex (hd ?s)" using join_hexs_hd [OF assms(1), of "''::'' @ ?t"] by auto
  then have np: "\<not> prefix ''::'' ?s" by (cases ?s) auto
  have "v6_loop 8 ?s [] None = Some ([], hs @ ts, Some (length hs))"
  proof (cases "ts = []")
    case True
    then show ?thesis
      using v6_loop_join_ellipsis [OF assms(1), of 8 "[]" "[]"] assms by simp
  next
    case False
    then have "v6_loop (8 - length hs) ?t hs (Some (length hs)) = Some ([], hs @ ts, Some (length hs))"
      using assms by (intro v6_loop_join) auto
    then show ?thesis
      using v6_loop_join_ellipsis [OF assms(1), of 8 ?t "[]"] assms False by simp
  qed
  with np h assms show ?thesis by (auto simp: parse_v6_def)
qed

lemma parse_v6_string:
  assumes l: "length gs = 8" and b: "\<forall>g\<in>set gs. g < 65536"
  shows "parse_v6 (v6_string gs) = Some gs"
proof (cases "longest_zeros gs")
  case None
  then show ?thesis using assms by (simp add: v6_string_def parse_v6_join)
next
  case (Some p)
  then obtain s e where se: "longest_zeros gs = Some (s, e)" by (cases p) auto
  note r = longest_zeros_run [OF se] and sp = longest_zeros_split [OF se]
  have bt: "\<forall>g\<in>set (take s gs @ drop e gs). g < 65536"
    using b by (auto dest: in_set_takeD in_set_dropD)
  show ?thesis
  proof (cases "s = 0")
    case True
    have "parse_v6 (''::'' @ join '':'' (map hexs (drop e gs))) = Some (replicate (8 - length (drop e gs)) 0 @ drop e gs)"
      using l r bt by (intro parse_v6_leading) auto
    with True se sp l r show ?thesis by (simp add: v6_string_def)
  next
    case False
    have "parse_v6 (join '':'' (map hexs (take s gs)) @ ''::'' @ join '':'' (map hexs (drop e gs)))
       = Some (take s gs @ replicate (8 - (length (take s gs) + length (drop e gs))) 0 @ drop e gs)"
      using l r bt False by (intro parse_v6_middle) auto
    moreover have "8 - (length (take s gs) + length (drop e gs)) = e - s"
      using l r by auto
    ultimately show ?thesis using se sp by (simp add: v6_string_def)
  qed
qed

lemma v6_string_chars: "c \<in> set (v6_string gs) \<Longrightarrow> is_hex c \<or> c = CHR '':''"
proof -
  have j: "x \<in> set (join '':'' (map hexs hs)) \<Longrightarrow> is_hex x \<or> x = CHR '':''" for x hs
    using set_join [of "'':''" "map hexs hs"] by (auto dest: hexs_hex)
  then show "c \<in> set (v6_string gs) \<Longrightarrow> is_hex c \<or> c = CHR '':''"
    by (auto simp: v6_string_def split: option.splits)
qed

lemma v6_string_has_colon: "length gs = 8 \<Longrightarrow> CHR '':'' \<in> set (v6_string gs)"
  by (auto simp: v6_string_def length_Suc_conv eval_nat_numeral split: option.splits)

lemma parse_addr_v6_string:
  assumes "length gs = 8" "\<forall>g\<in>set gs. g < 65536"
  shows "parse_addr (v6_string gs) = Some (groups_bytes gs, 128)"
proof -
  have no: "CHR ''%'' \<notin> set (v6_string gs)" "CHR ''.'' \<notin> set (v6_string gs)"
    using v6_string_chars [of _ gs] by fastforce+
  then show ?thesis
    using find_colon [OF v6_string_has_colon [OF assms(1)] no(2)] parse_v6_string [OF assms]
    by (simp add: parse_addr_def)
qed

lemma groups16_bound: "g \<in> set (groups16 bs) \<Longrightarrow> g < 65536"
proof (induction bs rule: groups16.induct)
  case (1 a b bs)
  have "unat a * 256 + unat b < 65536"
    using unat_byte_less [of a] unat_byte_less [of b] by linarith
  with 1 show ?case by auto
qed auto

lemma length_groups16: "length (groups16 bs) = length bs div 2"
  by (induction bs rule: groups16.induct) auto

lemma groups_bytes_groups16: "even (length bs) \<Longrightarrow> groups_bytes (groups16 bs) = bs"
proof (induction bs rule: groups16.induct)
  case (1 a b bs)
  then show ?case by (simp add: groups_bytes_def)
qed (auto simp: groups_bytes_def)

text \<open>\<open>ParseIP\<close> undoes \<open>String\<close>, up to the 16-byte form.\<close>

lemma parse_addr_ip_string:
  assumes "ip_valid ip"
  shows "parse_addr (ip_string ip) = Some (ip_to16 ip, if ip_to4 ip \<noteq> [] then 32 else 128)"
proof (cases "ip_to4 ip \<noteq> []")
  case True
  have "v4InV6Prefix @ ip_to4 ip = ip_to16 ip"
    using assms True
    by (auto simp: ip_to4_def ip_to16_def ip_valid_def split: if_splits) (metis append_take_drop_id)
  moreover have "ip \<noteq> []" using assms by (auto simp: ip_valid_def)
  ultimately show ?thesis
    using True parse_addr_v4_string [OF ip_to4_length [OF True]] by (simp add: ip_string_def)
next
  case False
  then have l: "length ip = 16" using assms by (auto simp: ip_valid_def ip_to4_def)
  moreover have "parse_addr (v6_string (groups16 ip)) = Some (groups_bytes (groups16 ip), 128)"
    using l by (intro parse_addr_v6_string) (auto simp: length_groups16 groups16_bound)
  moreover have "ip \<noteq> []" using l by auto
  ultimately show ?thesis
    using False by (simp add: ip_string_def ip_to16_def groups_bytes_groups16)
qed

lemma ParseIP_ip_string: "ip_valid ip \<Longrightarrow> ParseIP (ip_string ip) = ip_to16 ip"
  by (simp add: ParseIP_def parse_addr_ip_string)

lemma ip_string_colon: "ip_valid ip \<Longrightarrow> CHR '':'' \<in> set (ip_string ip) \<longleftrightarrow> ip_to4 ip = []"
proof -
  assume v: "ip_valid ip"
  then have ne: "ip \<noteq> []" by (auto simp: ip_valid_def)
  show ?thesis
  proof (cases "ip_to4 ip = []")
    case True
    with v ne have "length ip = 16" by (auto simp: ip_valid_def ip_to4_def)
    with True ne show ?thesis by (simp add: ip_string_def v6_string_has_colon length_groups16)
  next
    case False
    with ne show ?thesis using v4_string_chars [of "CHR '':''" "ip_to4 ip"] by (auto simp: ip_string_def)
  qed
qed

lemma ip_string_chars: "ip_valid ip \<Longrightarrow> c \<in> set (ip_string ip) \<Longrightarrow> is_hex c \<or> c = CHR ''.'' \<or> c = CHR '':''"
proof -
  assume v: "ip_valid ip" and c: "c \<in> set (ip_string ip)"
  have d: "is_digit c \<Longrightarrow> is_hex c" by (auto simp: is_digit_def is_hex_def Let_def)
  from v have "ip_to4 ip = [] \<Longrightarrow> length ip = 16" "ip \<noteq> []"
    by (auto simp: ip_valid_def ip_to4_def)
  with c d show ?thesis
    using v4_string_chars [of c "ip_to4 ip"] v6_string_chars [of c "groups16 ip"]
    by (auto simp: ip_string_def split: if_splits)
qed

lemma v6_loop_length:
  "v6_loop k s gs ell = Some (r, gs', ell') \<Longrightarrow> length gs + k = 8 \<Longrightarrow> length gs' \<le> 8"
proof (induction k s gs ell arbitrary: r gs' ell' rule: v6_loop.induct)
  case (1 s gs ell)
  then show ?case by simp
next
  case (2 k s gs ell)
  show ?case
    using 2(3-) 2(1) [OF refl refl _ _ refl _ _ refl] 2(2) [OF refl refl _ _ refl _ _ refl]
    by (auto simp: v6_loop.simps(2) Let_def split: if_splits option.splits list.splits)
qed

lemma parse_v6_length: "parse_v6 s = Some gs \<Longrightarrow> length gs = 8"
  using v6_loop_length [of 8 s "[]" None] v6_loop_length [of 8 "drop 2 s" "[]" "Some 0"]
  by (fastforce simp: parse_v6_def split: if_splits option.splits)

lemma ParseIP_length: "ParseIP s = [] \<or> length (ParseIP s) = 16"
proof (cases "parse_addr s")
  case None
  then show ?thesis by (simp add: ParseIP_def)
next
  case (Some p)
  have "length (concat (map (\<lambda>g. [word_of_nat (g div 256) :: byte, word_of_nat (g mod 256)]) gs)) = 2 * length gs" for gs
    by (induction gs) auto
  then show ?thesis
    using Some parse_v6_length [of s]
    by (auto simp: ParseIP_def parse_addr_def parse_v4_def groups_bytes_def Let_def split: if_splits option.splits)
qed

section \<open>Prefix masks as arithmetic\<close>

lemma byte_255: "(255 :: byte) = mask 8"
  by (simp add: mask_eq_exp_minus_1)

lemma byte_keep: "n \<le> 8 \<Longrightarrow> b AND NOT (drop_bit n 255) = push_bit (8 - n) (drop_bit (8 - n) b)" for b :: byte
  unfolding byte_255 by (intro bit_word_eqI) (auto simp: bit_simps)

lemma byte_fill: "n \<le> 8 \<Longrightarrow> (b AND NOT (drop_bit n 255)) OR NOT (NOT (drop_bit n 255)) = b OR mask (8 - n)" for b :: byte
  unfolding byte_255 by (intro bit_word_eqI) (auto simp: bit_simps)

lemma unat_push_drop: "unat (push_bit k (drop_bit k b)) = unat b div 2 ^ k * 2 ^ k" for b :: byte
proof -
  have "unat b div 2 ^ k * 2 ^ k \<le> unat b" by (rule div_times_less_eq_dividend)
  then have "unat b div 2 ^ k * 2 ^ k < 256" using unat_byte_less [of b] by linarith
  then show ?thesis
    by (simp only: unsigned_push_bit_eq unsigned_drop_bit_eq)
      (simp add: push_bit_eq_mult drop_bit_eq_div take_bit_eq_mod)
qed

lemma unat_or_mask: "k \<le> 8 \<Longrightarrow> unat (b OR mask k) = unat b div 2 ^ k * 2 ^ k + (2 ^ k - 1)" for b :: byte
proof -
  assume k: "k \<le> 8"
  have "unat (b OR mask k) = unat b OR mask k"
    using k by (intro bit_eqI) (auto simp: bit_simps unsigned_or_eq)
  also have "\<dots> = push_bit k (drop_bit k (unat b)) OR mask k"
    by (intro bit_eqI) (auto simp: bit_simps)
  also have "\<dots> = push_bit k (drop_bit k (unat b)) + mask k"
    by (intro disjunctive_add_eq_or [symmetric] bit_eqI) (auto simp: bit_simps)
  finally show ?thesis by (simp add: push_bit_eq_mult drop_bit_eq_div mask_eq_exp_minus_1)
qed

text \<open>A prefix mask keeps the high bits; filling up its complement gives the last address.\<close>

lemma length_cidr_mask [simp]: "length (cidr_mask l n) = l"
  by (induction l n rule: cidr_mask.induct) auto

lemma cidr_mask_0: "cidr_mask l 0 = replicate l 0"
proof (induction l)
  case (Suc l)
  moreover have "NOT (255 :: byte) = 0" by simp
  ultimately show ?case by simp
qed simp

lemma map2_and_zeros: "length ip = l \<Longrightarrow> map2 (AND) ip (replicate l (0 :: byte)) = replicate l 0"
  by (induction ip arbitrary: l) auto

lemma be_nat_full: "be_nat (map2 (\<lambda>s m. s OR NOT m) (replicate l 0) (replicate l (0 :: byte))) = 256 ^ l - 1"
proof (induction l)
  case (Suc l)
  have "unat (NOT 0 :: byte) = 255" by code_simp
  moreover have "0 < (256 :: nat) ^ l" by simp
  ultimately show ?case using Suc by simp
qed simp

lemma div_mult_split:
  fixes u r B k :: nat
  assumes "r < B"
  shows "(u * B + r) div (2 ^ k * B) * (2 ^ k * B) = u div 2 ^ k * 2 ^ k * B"
proof -
  have "(u * B + r) div (2 ^ k * B) = (u * B + r) div B div 2 ^ k"
    by (simp add: div_mult2_eq mult.commute)
  then show ?thesis using assms by (simp add: mult.assoc)
qed

lemma div_high:
  fixes u r B c z :: nat
  assumes "B = 2 ^ z * c"
  shows "(u * B + r) div 2 ^ z * 2 ^ z = u * B + r div 2 ^ z * 2 ^ z"
proof -
  have "u * B + r = r + 2 ^ z * (u * c)" using assms by simp
  moreover have "(r + 2 ^ z * (u * c)) div 2 ^ z = u * c + r div 2 ^ z" by simp
  ultimately have "(u * B + r) div 2 ^ z = u * c + r div 2 ^ z" by (simp only:)
  then show ?thesis using assms by (simp add: add_mult_distrib)
qed

lemma be_nat_mask:
  "length ip = l \<Longrightarrow> n \<le> 8 * l \<Longrightarrow>
     be_nat (map2 (AND) ip (cidr_mask l n)) = be_nat ip div 2 ^ (8 * l - n) * 2 ^ (8 * l - n)"
proof (induction l n arbitrary: ip rule: cidr_mask.induct)
  case (1 n)
  then show ?case by simp
next
  case (2 l n)
  then obtain b bs where ip: "ip = b # bs" "length bs = l" by (cases ip) auto
  have B: "(256 :: nat) ^ l = 2 ^ (8 * l)" by (simp add: power_mult)
  have lt: "be_nat bs < 2 ^ (8 * l)" using be_nat_less [of bs] ip B by simp
  show ?case
  proof (cases "n \<ge> 8")
    case True
    then have e: "8 * Suc l - n = 8 * l - (n - 8)" by simp
    have "be_nat (map2 (AND) bs (cidr_mask l (n - 8))) = be_nat bs div 2 ^ (8 * l - (n - 8)) * 2 ^ (8 * l - (n - 8))"
      using 2 True ip by auto
    moreover have "2 ^ (8 * l) = (2 :: nat) ^ (8 * l - (n - 8)) * 2 ^ (n - 8)"
      using True 2(4) by (simp flip: power_add)
    then have "(unat b * 2 ^ (8 * l) + be_nat bs) div 2 ^ (8 * l - (n - 8)) * 2 ^ (8 * l - (n - 8))
        = unat b * 2 ^ (8 * l) + be_nat bs div 2 ^ (8 * l - (n - 8)) * 2 ^ (8 * l - (n - 8))"
      by (rule div_high)
    moreover have "b AND 255 = b" unfolding byte_255 by (intro bit_word_eqI) (auto simp: bit_simps)
    ultimately show ?thesis
      using True ip B unfolding e by simp
  next
    case False
    have "8 * Suc l - n = (8 - n) + 8 * l" using False by simp
    then have e: "(2 :: nat) ^ (8 * Suc l - n) = 2 ^ (8 - n) * 2 ^ (8 * l)"
      by (simp only: power_add)
    have "unat (b AND NOT (drop_bit n 255)) = unat b div 2 ^ (8 - n) * 2 ^ (8 - n)"
      using False by (simp add: byte_keep unat_push_drop)
    then show ?thesis
      using False ip B lt e div_mult_split [OF lt, of "unat b" "8 - n"]
      by (simp add: cidr_mask_0 map2_and_zeros)
  qed
qed

lemma be_nat_fill:
  "length ip = l \<Longrightarrow> n \<le> 8 * l \<Longrightarrow>
     be_nat (map2 (\<lambda>s m. s OR NOT m) (map2 (AND) ip (cidr_mask l n)) (cidr_mask l n)) + 1
     = be_nat ip div 2 ^ (8 * l - n) * 2 ^ (8 * l - n) + 2 ^ (8 * l - n)"
proof (induction l n arbitrary: ip rule: cidr_mask.induct)
  case (1 n)
  then show ?case by simp
next
  case (2 l n)
  then obtain b bs where ip: "ip = b # bs" "length bs = l" by (cases ip) auto
  have B: "(256 :: nat) ^ l = 2 ^ (8 * l)" by (simp add: power_mult)
  have lt: "be_nat bs < 2 ^ (8 * l)" using be_nat_less [of bs] ip B by simp
  show ?case
  proof (cases "n \<ge> 8")
    case True
    then have e: "8 * Suc l - n = 8 * l - (n - 8)" by simp
    have "be_nat (map2 (\<lambda>s m. s OR NOT m) (map2 (AND) bs (cidr_mask l (n - 8))) (cidr_mask l (n - 8))) + 1
       = be_nat bs div 2 ^ (8 * l - (n - 8)) * 2 ^ (8 * l - (n - 8)) + 2 ^ (8 * l - (n - 8))"
      using 2 True ip by auto
    moreover have "2 ^ (8 * l) = (2 :: nat) ^ (8 * l - (n - 8)) * 2 ^ (n - 8)"
      using True 2(4) by (simp flip: power_add)
    then have "(unat b * 2 ^ (8 * l) + be_nat bs) div 2 ^ (8 * l - (n - 8)) * 2 ^ (8 * l - (n - 8))
        = unat b * 2 ^ (8 * l) + be_nat bs div 2 ^ (8 * l - (n - 8)) * 2 ^ (8 * l - (n - 8))"
      by (rule div_high)
    moreover have "b AND 255 OR NOT 255 = b" unfolding byte_255 by (intro bit_word_eqI) (auto simp: bit_simps)
    ultimately show ?thesis
      using True ip B unfolding e by simp
  next
    case False
    have "8 * Suc l - n = (8 - n) + 8 * l" using False by simp
    then have e: "(2 :: nat) ^ (8 * Suc l - n) = 2 ^ (8 - n) * 2 ^ (8 * l)"
      by (simp only: power_add)
    have u: "unat ((b AND NOT (drop_bit n 255)) OR NOT (NOT (drop_bit n 255)))
         + 1 = unat b div 2 ^ (8 - n) * 2 ^ (8 - n) + 2 ^ (8 - n)"
      using False unat_or_mask [of "8 - n" b] byte_fill [of n b] by simp
    let ?u = "unat ((b AND NOT (drop_bit n 255)) OR NOT (NOT (drop_bit n 255)))"
    have "?u * 2 ^ (8 * l) + 2 ^ (8 * l) = (?u + 1) * 2 ^ (8 * l)" by simp
    also have "\<dots> = be_nat ip div 2 ^ (8 * Suc l - n) * 2 ^ (8 * Suc l - n) + 2 ^ (8 * Suc l - n)"
      unfolding u e using ip B div_mult_split [OF lt, of "unat b" "8 - n"] by (simp add: add_mult_distrib)
    finally show ?thesis
      using False ip B be_nat_full [of l] by (simp add: cidr_mask_0 map2_and_zeros)
  qed
qed

text \<open>The length of a prefix mask is the number of its ones.\<close>

lemma byte_ones_prefix:
  "n < 8 \<Longrightarrow> byte_ones 8 (NOT (drop_bit n 255)) = n \<and> NOT (drop_bit n 255) \<noteq> (255 :: byte)"
proof -
  have "\<forall>n\<in>set [0..<8]. byte_ones 8 (NOT (drop_bit n 255)) = n \<and> NOT (drop_bit n 255) \<noteq> (255 :: byte)"
    by code_simp
  then show "n < 8 \<Longrightarrow> ?thesis" by simp
qed

lemma mask_length_cidr_mask: "n \<le> 8 * l \<Longrightarrow> mask_length (cidr_mask l n) = Some n"
proof (induction l n rule: cidr_mask.induct)
  case (1 n)
  then show ?case by simp
next
  case (2 l n)
  then show ?case
    using byte_ones_prefix [of n] by (auto simp: cidr_mask_0 Let_def list_all_iff)
qed

lemma mask_size_cidr_mask: "n \<le> 8 * l \<Longrightarrow> mask_size (cidr_mask l n) = (n, 8 * l)"
  by (simp add: mask_size_def mask_length_cidr_mask)

lemma map2_and_idem: "map2 (AND) (map2 (AND) xs ms) ms = map2 (AND) xs (ms :: bytes)"
  by (induction xs ms rule: list_induct2') (auto simp: and.assoc)

lemma length_map2_mask [simp]: "length ip = l \<Longrightarrow> length (map2 (AND) ip (cidr_mask l n)) = l"
  by simp

text \<open>Two addresses agree under a mask when they agree in the bits the mask keeps.\<close>

lemma masked_eq_iff:
  assumes "length a = l" "length b = l" "n \<le> 8 * l"
  shows "map2 (AND) a (cidr_mask l n) = map2 (AND) b (cidr_mask l n)
    \<longleftrightarrow> be_nat a div 2 ^ (8 * l - n) = be_nat b div 2 ^ (8 * l - n)"
proof -
  have "map2 (AND) a (cidr_mask l n) = map2 (AND) b (cidr_mask l n)
    \<longleftrightarrow> be_nat (map2 (AND) a (cidr_mask l n)) = be_nat (map2 (AND) b (cidr_mask l n))"
    using assms be_nat_inj [of "map2 (AND) a (cidr_mask l n)" "map2 (AND) b (cidr_mask l n)"] by auto
  with assms show ?thesis by (simp add: be_nat_mask)
qed

end
