(* ===== verification/IP.thy ===== *)
theory IP
  imports NetText
begin

text \<open>
  pkg/ipam/ip.go: the allocator's address type, a byte slice with a comparison that
  normalises IPv4 addresses, and addition and subtraction through \<open>big.Int\<close>.
  \<open>ipv\<close> is the number the 16-byte form of an address stands for. The locale
  \<open>address_family\<close> states what the range code relies on of these operations within
  one family; it is interpreted on the IPv4 addresses of 4 bytes and on the IPv6
  addresses from \<open>0:0:1::\<close> up, which excludes the block around the IPv4-mapped
  addresses, where the operations change family.
\<close>

section \<open>The code\<close>

type_synonym IP = bytes

definition NewIP :: "string \<Rightarrow> error + IP" where
  "NewIP s =
     (let ip = ParseIP s in
      if ip = [] then Inl (ErrFmt ''invalid IP address'')
      else Inr (if CHR '':'' \<notin> set s then ip_to4 ip else ip))"

definition IP_Clone :: "IP \<Rightarrow> IP" where
  "IP_Clone a = take (length a) a"

definition IP_To4 :: "IP \<Rightarrow> bytes" where
  "IP_To4 a = ip_to4 a"

definition IP_To16 :: "IP \<Rightarrow> bytes" where
  "IP_To16 a = ip_to16 a"

definition IP_Equal :: "IP \<Rightarrow> IP \<Rightarrow> bool" where
  "IP_Equal a b = ip_equal a b"

definition IP_cmp :: "IP \<Rightarrow> IP \<Rightarrow> int" where
  "IP_cmp a b =
     (let a4 = ip_to4 a; b4 = ip_to4 b in
      if a4 \<noteq> [] \<and> b4 \<noteq> [] then bytes_compare a4 b4
      else bytes_compare (ip_to16 a) (ip_to16 b))"

definition IP_LessThan :: "IP \<Rightarrow> IP \<Rightarrow> bool" where
  "IP_LessThan a b = (IP_cmp a b < 0)"

definition IP_GreaterThan :: "IP \<Rightarrow> IP \<Rightarrow> bool" where
  "IP_GreaterThan a b = (IP_cmp a b > 0)"

definition bytes2IP :: "bytes \<Rightarrow> nat \<Rightarrow> IP" where
  "bytes2IP buff l =
     (if length buff < l then replicate (l - length buff) 0 @ buff
      else if length buff > l then drop (length buff - l) buff
      else buff)"

definition IP_Add :: "IP \<Rightarrow> int \<Rightarrow> IP" where
  "IP_Add a n =
     (if IP_To4 a \<noteq> []
      then bytes2IP (big_bytes (int (be_nat (IP_To4 a)) + n)) (length (IP_To4 a))
      else bytes2IP (big_bytes (int (be_nat (IP_To16 a)) + n)) (length (IP_To16 a)))"

definition IP_Sub :: "IP \<Rightarrow> int \<Rightarrow> IP" where
  "IP_Sub a n =
     (let d = int (be_nat (IP_To16 a)) - n;
          ipInt = (if d < 0 then d + 2 ^ 128 else d)
      in if IP_To4 a \<noteq> [] then bytes2IP (big_bytes ipInt) (length (IP_To4 a))
         else bytes2IP (big_bytes ipInt) (length (IP_To16 a)))"

definition IP_String :: "IP \<Rightarrow> string" where
  "IP_String a = ip_string a"

section \<open>Bytes and numbers\<close>

lemma IP_Clone_id [simp]: "IP_Clone a = a"
  by (simp add: IP_Clone_def)

lemma bytes2IP_length [simp]: "length (bytes2IP b l) = l"
  by (auto simp: bytes2IP_def)

lemma bytes2IP_be_nat: "be_nat (bytes2IP b l) = be_nat b mod 256 ^ l"
proof -
  have "be_nat b < 256 ^ l" if "length b \<le> l"
    using be_nat_less [of b] power_increasing [OF that, of "256 :: nat"] by linarith
  then show ?thesis
    by (auto simp: bytes2IP_def be_nat_append be_nat_drop)
qed

lemma bytes2IP_big: "bytes2IP (big_bytes i) l = be_fixed l (nat \<bar>i\<bar>)"
  by (rule be_nat_inj) (simp_all add: bytes2IP_be_nat be_nat_be_fixed big_bytes_def be_nat_nat_be)

lemma be_fixed_mod: "be_fixed l (n mod 256 ^ l) = be_fixed l n"
  by (rule be_nat_inj) (simp_all add: be_nat_be_fixed)

lemma be_nat_4 [simp]: "length a = 4 \<Longrightarrow> be_nat a < 4294967296"
  using be_nat_less [of a] by simp

section \<open>Comparison\<close>

text \<open>
  On valid addresses of either length, \<open>cmp\<close> orders by the number of the 16-byte
  form, also across the two lengths, and \<open>Equal\<close> is equality of that number.
\<close>

lemma IP_cmp_ipv:
  assumes "ip_valid a" "ip_valid b"
  shows "IP_cmp a b = (if ipv a < ipv b then -1 else if ipv a > ipv b then 1 else 0)"
proof (cases "ip_to4 a \<noteq> [] \<and> ip_to4 b \<noteq> []")
  case True
  then show ?thesis
    using assms ip_to4_length [of a] ip_to4_length [of b]
    by (simp add: IP_cmp_def bytes_compare_be ip_to4_ipv)
next
  case False
  have "bytes_compare (ip_to16 a) (ip_to16 b)
     = (if ipv a < ipv b then -1 else if ipv a > ipv b then 1 else 0)"
    unfolding ipv_def using assms by (intro bytes_compare_be) (simp add: ip_to16_length)
  with False show ?thesis by (auto simp: IP_cmp_def)
qed

lemma IP_LessThan_ipv: "ip_valid a \<Longrightarrow> ip_valid b \<Longrightarrow> IP_LessThan a b \<longleftrightarrow> ipv a < ipv b"
  by (simp add: IP_LessThan_def IP_cmp_ipv)

lemma IP_GreaterThan_ipv: "ip_valid a \<Longrightarrow> ip_valid b \<Longrightarrow> IP_GreaterThan a b \<longleftrightarrow> ipv b < ipv a"
  by (simp add: IP_GreaterThan_def IP_cmp_ipv)

lemma IP_Equal_ipv: "ip_valid a \<Longrightarrow> ip_valid b \<Longrightarrow> IP_Equal a b \<longleftrightarrow> ipv a = ipv b"
  by (simp add: IP_Equal_def ip_equal_ipv)

section \<open>Addition and subtraction\<close>

lemma IP_Add_v4:
  assumes "length a = 4"
  shows "IP_Add a n = be_fixed 4 (nat \<bar>int (be_nat a) + n\<bar>)"
  using assms by (auto simp: IP_Add_def IP_To4_def ip_to4_def bytes2IP_big)

lemma IP_Add_v6:
  assumes "length a = 16" "ip_to4 a = []"
  shows "IP_Add a n = be_fixed 16 (nat \<bar>int (be_nat a) + n\<bar>)"
  using assms by (auto simp: IP_Add_def IP_To4_def IP_To16_def ip_to16_def bytes2IP_big)

lemma IP_Sub_v4:
  assumes a: "length a = 4" and n: "0 \<le> n" "n \<le> int (be_nat a) + int v4base"
  shows "IP_Sub a n = be_fixed 4 (nat (int (be_nat a) + int v4base - n))"
proof -
  have "be_nat (IP_To16 a) = v4base + be_nat a"
    using a ipv_4 [of a] by (simp add: IP_To16_def ipv_def)
  then show ?thesis
    using a n by (auto simp: IP_Sub_def IP_To4_def ip_to4_def bytes2IP_big Let_def algebra_simps)
qed

lemma IP_Sub_v6:
  assumes a: "length a = 16" "ip_to4 a = []" and n: "0 \<le> n" "n \<le> int (be_nat a)"
  shows "IP_Sub a n = be_fixed 16 (nat (int (be_nat a) - n))"
  using assms by (auto simp: IP_Sub_def IP_To4_def IP_To16_def ip_to16_def bytes2IP_big Let_def)

section \<open>Address families\<close>

datatype fam = F4 | F6

text \<open>The addresses of a family, and the least and greatest number of the family.\<close>

fun ipmin :: "fam \<Rightarrow> nat" where
  "ipmin F4 = v4base"
| "ipmin F6 = 2 ^ 48"

fun ipmax :: "fam \<Rightarrow> nat" where
  "ipmax F4 = v4base + (2 ^ 32 - 1)"
| "ipmax F6 = 2 ^ 128 - 1"

fun ipok :: "fam \<Rightarrow> IP \<Rightarrow> bool" where
  "ipok F4 a = (length a = 4)"
| "ipok F6 a = (length a = 16 \<and> 2 ^ 48 \<le> be_nat a)"

text \<open>The address of a family with a given number.\<close>

fun ip_of :: "fam \<Rightarrow> nat \<Rightarrow> IP" where
  "ip_of F4 n = be_fixed 4 (n - v4base)"
| "ip_of F6 n = be_fixed 16 n"

locale address_family =
  fixes ok :: "IP \<Rightarrow> bool" and lo hi :: nat
  assumes ok_valid: "ok a \<Longrightarrow> ip_valid a"
    and ok_bounds: "ok a \<Longrightarrow> lo \<le> ipv a \<and> ipv a \<le> hi"
    and ok_inj: "ok a \<Longrightarrow> ok b \<Longrightarrow> ipv a = ipv b \<Longrightarrow> a = b"
    and add1: "ok a \<Longrightarrow> ipv a < hi \<Longrightarrow> ok (IP_Add a 1) \<and> ipv (IP_Add a 1) = ipv a + 1"
    and sub1: "ok a \<Longrightarrow> lo < ipv a \<Longrightarrow> ok (IP_Sub a 1) \<and> ipv (IP_Sub a 1) = ipv a - 1"
    and add1_valid: "ok a \<Longrightarrow> ip_valid (IP_Add a 1)"
    and sub1_valid: "ok a \<Longrightarrow> ip_valid (IP_Sub a 1)"
    and add1_wrap: "ok a \<Longrightarrow> ipv a = hi \<Longrightarrow> ipv (IP_Add a 1) \<le> lo"
    and sub1_wrap: "ok a \<Longrightarrow> ipv a = lo \<Longrightarrow> ipv (IP_Sub a 1) < lo \<or> ipv (IP_Sub a 1) = hi"
begin

lemma less_iff: "ok a \<Longrightarrow> ok b \<Longrightarrow> IP_LessThan a b \<longleftrightarrow> ipv a < ipv b"
  by (simp add: IP_LessThan_ipv ok_valid)

lemma greater_iff: "ok a \<Longrightarrow> ok b \<Longrightarrow> IP_GreaterThan a b \<longleftrightarrow> ipv b < ipv a"
  by (simp add: IP_GreaterThan_ipv ok_valid)

lemma equal_iff: "ok a \<Longrightarrow> ok b \<Longrightarrow> IP_Equal a b \<longleftrightarrow> ipv a = ipv b"
  by (simp add: IP_Equal_ipv ok_valid)

lemma equal_eq: "ok a \<Longrightarrow> ok b \<Longrightarrow> IP_Equal a b \<longleftrightarrow> a = b"
  using ok_inj equal_iff by blast

lemma next_ok: "ok a \<Longrightarrow> ok b \<Longrightarrow> ipv a < ipv b \<Longrightarrow> ok (IP_Add a 1) \<and> ipv (IP_Add a 1) = ipv a + 1"
  using add1 [of a] ok_bounds [of b] by simp

lemma prev_ok: "ok a \<Longrightarrow> ok b \<Longrightarrow> ipv b < ipv a \<Longrightarrow> ok (IP_Sub a 1) \<and> ipv (IP_Sub a 1) = ipv a - 1"
  using sub1 [of a] ok_bounds [of b] by simp

lemma ok_nonempty: "ok a \<Longrightarrow> a \<noteq> []"
  using ok_valid [of a] by (auto simp: ip_valid_def)

end

lemma ipok_F6_to4: "ipok F6 a \<Longrightarrow> ip_to4 a = []"
  using ip_to4_iff [of a] by (auto simp: ip_valid_def ipv_16 v4base_def)

lemma ipok_valid: "ipok F a \<Longrightarrow> ip_valid a"
  by (cases F) (auto simp: ip_valid_def)

lemma ipok_bounds: "ipok F a \<Longrightarrow> ipmin F \<le> ipv a \<and> ipv a \<le> ipmax F"
  using be_nat_less [of a] be_nat_4 [of a]
  by (cases F) (auto simp: ipv_4 ipv_16 simp del: be_nat_4)

lemma ipok_inj: "ipok F a \<Longrightarrow> ipok F b \<Longrightarrow> ipv a = ipv b \<Longrightarrow> a = b"
  by (cases F) (auto simp: ipv_4 ipv_16 intro: be_nat_inj)

lemma ip_of_ok: "ipmin F \<le> n \<Longrightarrow> n \<le> ipmax F \<Longrightarrow> ipok F (ip_of F n) \<and> ipv (ip_of F n) = n"
  by (cases F) (auto simp: ipv_4 ipv_16 be_nat_be_fixed v4base_def)

lemma ip_of_ipv: "ipok F a \<Longrightarrow> ip_of F (ipv a) = a"
  using ip_of_ok [of F "ipv a"] ipok_bounds [of F a] ipok_inj [of F "ip_of F (ipv a)" a] by auto


text \<open>One step up or down, as the address of the neighbouring number.\<close>

lemma be_fixed_shift: "be_fixed l (n + k * 256 ^ l) = be_fixed l n"
  by (rule be_nat_inj) (simp_all add: be_nat_be_fixed)

lemma be_fixed_v4base: "be_fixed 4 (n + v4base) = be_fixed 4 n"
  using be_fixed_shift [of 4 n 65535] by (simp add: v4base_def)

lemma IP_Add1:
  "ipok F a \<Longrightarrow> ipv a < ipmax F \<Longrightarrow> IP_Add a 1 = ip_of F (ipv a + 1)"
  by (cases F) (simp_all add: IP_Add_v4 IP_Add_v6 ipok_F6_to4 ipv_4 ipv_16 nat_add_distrib flip: int_Suc)

lemma IP_Sub1:
  assumes "ipok F a" "ipmin F < ipv a"
  shows "IP_Sub a 1 = ip_of F (ipv a - 1)"
proof (cases F)
  case F4
  then have l: "length a = 4" and p: "0 < be_nat a"
    using assms by (auto simp: ipv_4)
  have "IP_Sub a 1 = be_fixed 4 (be_nat a + v4base - 1)"
    using l IP_Sub_v4 [of a 1] by (simp add: v4base_def nat_diff_distrib nat_add_distrib)
  also have "be_nat a + v4base - 1 = (be_nat a - 1) + v4base"
    using p by simp
  also have "be_fixed 4 \<dots> = be_fixed 4 (be_nat a - 1)"
    by (rule be_fixed_v4base)
  finally show ?thesis using F4 l by (simp add: ipv_4)
next
  case F6
  then show ?thesis
    using assms IP_Sub_v6 [of a 1] ipok_F6_to4 [of a]
    by (simp add: ipv_16 nat_diff_distrib)
qed

lemma IP_Add1_max: "ipok F a \<Longrightarrow> ipv a = ipmax F \<Longrightarrow> be_nat (IP_Add a 1) = 0 \<and> ip_valid (IP_Add a 1)"
  by (cases F) (simp_all add: IP_Add_v4 IP_Add_v6 ipok_F6_to4 ipv_4 ipv_16 be_nat_be_fixed ip_valid_def
      nat_add_distrib flip: int_Suc)

lemma IP_Sub1_min:
  assumes "ipok F a" "ipv a = ipmin F"
  shows "ip_valid (IP_Sub a 1) \<and> (ipv (IP_Sub a 1) < ipmin F \<or> ipv (IP_Sub a 1) = ipmax F)"
proof (cases F)
  case F4
  then have l: "length a = 4" and z: "be_nat a = 0"
    using assms by (auto simp: ipv_4)
  have "IP_Sub a 1 = be_fixed 4 (v4base - 1)"
    using l z IP_Sub_v4 [of a 1] by (simp add: v4base_def nat_diff_distrib)
  then show ?thesis
    using F4 by (simp add: ip_valid_def ipv_4 be_nat_be_fixed v4base_def)
next
  case F6
  then have "IP_Sub a 1 = be_fixed 16 (2 ^ 48 - 1)"
    using assms IP_Sub_v6 [of a 1] ipok_F6_to4 [of a] by (simp add: ipv_16 nat_diff_distrib)
  then show ?thesis
    using F6 by (simp add: ip_valid_def ipv_16 be_nat_be_fixed)
qed

interpretation af: address_family "ipok F" "ipmin F" "ipmax F" for F
proof unfold_locales
  fix a b :: IP
  show "ipok F a \<Longrightarrow> ip_valid a"
    by (rule ipok_valid)
  show "ipok F a \<Longrightarrow> ipmin F \<le> ipv a \<and> ipv a \<le> ipmax F"
    by (rule ipok_bounds)
  show "ipok F a \<Longrightarrow> ipok F b \<Longrightarrow> ipv a = ipv b \<Longrightarrow> a = b"
    by (rule ipok_inj)
  show "ipok F a \<Longrightarrow> ipv a < ipmax F \<Longrightarrow> ipok F (IP_Add a 1) \<and> ipv (IP_Add a 1) = ipv a + 1"
    using ip_of_ok [of F "ipv a + 1"] ipok_bounds [of F a] by (simp add: IP_Add1)
  show "ipok F a \<Longrightarrow> ipmin F < ipv a \<Longrightarrow> ipok F (IP_Sub a 1) \<and> ipv (IP_Sub a 1) = ipv a - 1"
    using ip_of_ok [of F "ipv a - 1"] ipok_bounds [of F a] by (simp add: IP_Sub1)
  show "ipok F a \<Longrightarrow> ip_valid (IP_Add a 1)"
    using ip_of_ok [of F "ipv a + 1"] ipok_bounds [of F a] IP_Add1 [of F a] IP_Add1_max [of F a]
    by (cases "ipv a = ipmax F") (auto intro: ipok_valid [of F])
  show "ipok F a \<Longrightarrow> ip_valid (IP_Sub a 1)"
    using ip_of_ok [of F "ipv a - 1"] ipok_bounds [of F a] IP_Sub1 [of F a] IP_Sub1_min [of F a]
    by (cases "ipv a = ipmin F") (auto intro: ipok_valid [of F])
  show "ipok F a \<Longrightarrow> ipv a = ipmax F \<Longrightarrow> ipv (IP_Add a 1) \<le> ipmin F"
    using IP_Add1_max [of F a]
    by (cases F) (auto simp: ipv_4 ipv_16 IP_Add_v4 IP_Add_v6 ipok_F6_to4)
  show "ipok F a \<Longrightarrow> ipv a = ipmin F \<Longrightarrow> ipv (IP_Sub a 1) < ipmin F \<or> ipv (IP_Sub a 1) = ipmax F"
    using IP_Sub1_min [of F a] by simp
qed

text \<open>The laws of the family order as rewrite rules for the range code.\<close>

lemmas ip_order = af.less_iff af.greater_iff af.equal_iff

section \<open>Text\<close>

lemma NewIP_String: "ipok F a \<Longrightarrow> NewIP (IP_String a) = Inr a"
proof -
  assume ok: "ipok F a"
  then have v: "ip_valid a" by (rule ipok_valid)
  then have ne: "ip_to16 a \<noteq> []" using ip_to16_length [of a] by auto
  have four: "ip_to4 (v4InV6Prefix @ a) = a" if "length a = 4"
    using that by (simp add: ip_to4_def)
  have colon: "CHR '':'' \<in> set (ip_string a) \<longleftrightarrow> ip_to4 a = []"
    by (rule ip_string_colon [OF v])
  have parse: "ParseIP (ip_string a) = ip_to16 a"
    by (rule ParseIP_ip_string [OF v])
  show ?thesis
  proof (cases F)
    case F4
    then have l: "length a = 4" using ok by simp
    then have "ip_to4 a \<noteq> []" "ip_to16 a = v4InV6Prefix @ a"
      by (auto simp: ip_to4_def ip_to16_def)
    with colon parse ne four [OF l] show ?thesis
      unfolding NewIP_def IP_String_def Let_def by simp
  next
    case F6
    then have "ip_to4 a = []" "ip_to16 a = a"
      using ok ipok_F6_to4 [of a] by (auto simp: ip_to16_def)
    with colon parse ne show ?thesis
      unfolding NewIP_def IP_String_def Let_def by simp
  qed
qed

lemma IP_String_inj: "ipok F a \<Longrightarrow> ipok F b \<Longrightarrow> IP_String a = IP_String b \<longleftrightarrow> a = b"
  by (metis NewIP_String sum.inject(2))

lemma NewIP_valid: "NewIP s = Inr a \<Longrightarrow> ip_valid a \<or> a = []"
  using ParseIP_length [of s] ip_to4_length [of "ParseIP s"]
  by (cases "ip_to4 (ParseIP s) = []") (auto simp: NewIP_def ip_valid_def Let_def split: if_splits)

section \<open>Properties\<close>

text \<open>The text of an address reads back as the same address, and two addresses with the same text are
  the same one, whatever their families.\<close>

theorem address_text_roundtrip:
  assumes "ipok F a" "ipok G b"
  shows "NewIP (IP_String a) = Inr a \<and> (IP_String a = IP_String b \<longleftrightarrow> a = b)"
  using NewIP_String [OF assms(1)] NewIP_String [OF assms(2)] by (metis sum.inject(2))

theorem address_text_roundtrip_witness:
  "ipok F4 [10,0,0,1] \<and> ipok F6 [253,0,0,0,0,0,0,0,0,0,0,0,0,0,0,1] \<and>
   NewIP (IP_String [10,0,0,1]) = Inr [10,0,0,1] \<and> IP_String [10,0,0,1] \<noteq> IP_String [253,0,0,0,0,0,0,0,0,0,0,0,0,0,0,1]"
proof -
  have ok: "ipok F4 [10,0,0,1]" "ipok F6 [253,0,0,0,0,0,0,0,0,0,0,0,0,0,0,1]" by code_simp+
  show ?thesis using address_text_roundtrip [OF ok] ok by simp
qed

lemma step_up: "ipok F a \<Longrightarrow> ipv a < ipmax F \<Longrightarrow> ipok F (IP_Add a 1) \<and> ipv (IP_Add a 1) = ipv a + 1 \<and> IP_Sub (IP_Add a 1) 1 = a"
  using af.add1 [of F a] af.sub1 [of F "IP_Add a 1"] af.ok_inj [of F _ a] af.ok_bounds [of F a] by simp

lemma step_down: "ipok F a \<Longrightarrow> ipmin F < ipv a \<Longrightarrow> ipok F (IP_Sub a 1) \<and> ipv (IP_Sub a 1) = ipv a - 1 \<and> IP_Add (IP_Sub a 1) 1 = a"
  using af.sub1 [of F a] af.add1 [of F "IP_Sub a 1"] af.ok_inj [of F _ a] af.ok_bounds [of F a] by simp

lemma step_wrap: "ipok F a \<Longrightarrow> ipv a = ipmax F \<Longrightarrow> length (IP_Add a 1) = length a \<and> be_nat (IP_Add a 1) = 0"
  using IP_Add1_max [of F a] by (cases F) (auto simp: IP_Add_v4 IP_Add_v6 ipok_F6_to4)

lemma step_below: "ipok F4 a \<Longrightarrow> ipv a = ipmin F4 \<Longrightarrow> IP_Sub a 1 = [255,255,255,255]"
proof -
  assume "ipok F4 a" "ipv a = ipmin F4"
  then have "a = [0,0,0,0]" using ipok_inj [of F4 a "[0,0,0,0]"] by (simp add: ipv_4)
  then show ?thesis by simp code_simp
qed

text \<open>Adding or subtracting one stays in the family, moves by exactly one and is undone by the
  other, as long as the family has a next address; at the last address the sum wraps around to the
  address whose bytes are all zero, and below 0.0.0.0 the difference is 255.255.255.255.\<close>

theorem address_step_bounds:
  assumes "ipok F a"
  shows "(ipv a < ipmax F \<longrightarrow> ipok F (IP_Add a 1) \<and> ipv (IP_Add a 1) = ipv a + 1 \<and> IP_Sub (IP_Add a 1) 1 = a) \<and>
    (ipmin F < ipv a \<longrightarrow> ipok F (IP_Sub a 1) \<and> ipv (IP_Sub a 1) = ipv a - 1 \<and> IP_Add (IP_Sub a 1) 1 = a) \<and>
    (ipv a = ipmax F \<longrightarrow> length (IP_Add a 1) = length a \<and> be_nat (IP_Add a 1) = 0) \<and>
    (F = F4 \<and> ipv a = ipmin F \<longrightarrow> IP_Sub a 1 = [255,255,255,255])"
  using step_up [OF assms] step_down [OF assms] step_wrap [OF assms] step_below [of a] assms by blast

theorem address_step_bounds_witness:
  "ipok F4 [10,0,0,255] \<and> ipv [10,0,0,255] < ipmax F4 \<and> IP_Sub (IP_Add [10,0,0,255] 1) 1 = [10,0,0,255] \<and>
   be_nat (IP_Add [255,255,255,255] 1) = 0 \<and> IP_Sub [0,0,0,0] 1 = [255,255,255,255]"
proof -
  have "ipok F4 [10,0,0,255]" "ipok F4 [255,255,255,255]" "ipok F4 [0,0,0,0]" by simp_all
  moreover have "ipv [10,0,0,255] < ipmax F4" "ipv [255,255,255,255] = ipmax F4" "ipv [0,0,0,0] = ipmin F4" by code_simp+
  ultimately show ?thesis
    using address_step_bounds [of F4 "[10,0,0,255]"] address_step_bounds [of F4 "[255,255,255,255]"]
      address_step_bounds [of F4 "[0,0,0,0]"] by blast
qed

end
