(* ===== verification/IPRange.thy ===== *)
theory IPRange
  imports IP
begin

unbundle bit_operations_syntax

text \<open>
  pkg/ipam/ip_range.go: a range of addresses from \<open>start\<close> to \<open>end\<close>. \<open>rset\<close> is the
  set of numbers of a range, \<open>rok\<close> says that both ends are of one family and in order.
  \<open>Add\<close> and \<open>Remove\<close> step over the ends with \<open>Sub(1)\<close> and \<open>Add(1)\<close>, which wrap
  around at the ends of the address space; the lemmas name that case.
\<close>

section \<open>The code\<close>

record IPRange =
  rstart :: IP
  rend :: IP

definition NewIPRange :: "IP \<Rightarrow> IP \<Rightarrow> IPRange" where
  "NewIPRange s e = \<lparr>rstart = s, rend = e\<rparr>"

text \<open>The error of \<open>NewIP\<close> is dropped: the start is then nil.\<close>

definition NewIPRangeFromCIDR :: "IPNet \<Rightarrow> IPRange" where
  "NewIPRangeFromCIDR cidr =
     (let s = (case NewIP (ip_string (ip_mask (NetIP cidr) (NetMask cidr))) of Inl _ \<Rightarrow> [] | Inr ip \<Rightarrow> ip)
      in \<lparr>rstart = s, rend = map2 (\<lambda>b m. b OR NOT m) s (NetMask cidr)\<rparr>)"

definition IPRange_Clone :: "IPRange \<Rightarrow> IPRange" where
  "IPRange_Clone r = NewIPRange (IP_Clone (rstart r)) (IP_Clone (rend r))"

definition IPRange_SetStart :: "IPRange \<Rightarrow> IP \<Rightarrow> IPRange" where
  "IPRange_SetStart r ip = r\<lparr>rstart := ip\<rparr>"

definition IPRange_SetEnd :: "IPRange \<Rightarrow> IP \<Rightarrow> IPRange" where
  "IPRange_SetEnd r ip = r\<lparr>rend := ip\<rparr>"

definition IPRange_Count :: "IPRange \<Rightarrow> int" where
  "IPRange_Count r = int (be_nat (rend r)) - int (be_nat (rstart r)) + 1"

text \<open>\<open>n\<close> is the number drawn by \<open>rand.Int\<close>, less than its bound \<open>Count\<close>.\<close>

definition IPRange_Random :: "IPRange \<Rightarrow> nat \<Rightarrow> IP" where
  "IPRange_Random r n = bytes2IP (big_bytes (int (be_nat (rstart r)) + int n)) (length (rstart r))"

definition IPRange_Contains :: "IPRange \<Rightarrow> IP \<Rightarrow> bool" where
  "IPRange_Contains r ip = (\<not> IP_GreaterThan (rstart r) ip \<and> \<not> IP_LessThan (rend r) ip)"

definition IPRange_Add :: "IPRange \<Rightarrow> IP \<Rightarrow> IPRange \<times> bool" where
  "IPRange_Add r ip =
     (let newStart = IP_Sub (rstart r) 1; newEnd = IP_Add (rend r) 1 in
      if IP_Equal newStart ip then (r\<lparr>rstart := newStart\<rparr>, True)
      else if IP_Equal newEnd ip then (r\<lparr>rend := newEnd\<rparr>, True)
      else (r, False))"

definition IPRange_Remove :: "IPRange \<Rightarrow> IP \<Rightarrow> IPRange list \<times> bool" where
  "IPRange_Remove r ip =
     (if \<not> IPRange_Contains r ip then ([], False)
      else
        let r1 = NewIPRange (rstart r) (IP_Sub ip 1);
            r2 = NewIPRange (IP_Add ip 1) (rend r)
        in ((if \<not> IP_GreaterThan (rstart r1) (rend r1) then [r1] else []) @
            (if \<not> IP_GreaterThan (rstart r2) (rend r2) then [r2] else []), True))"

definition IPRange_String :: "IPRange \<Rightarrow> string" where
  "IPRange_String r =
     (if IP_Equal (rstart r) (rend r) then IP_String (rstart r)
      else IP_String (rstart r) @ ''-'' @ IP_String (rend r))"

section \<open>Ranges as sets of addresses\<close>

definition rset :: "IPRange \<Rightarrow> nat set" where
  "rset r = {ipv (rstart r)..ipv (rend r)}"

definition rok :: "fam \<Rightarrow> IPRange \<Rightarrow> bool" where
  "rok F r = (ipok F (rstart r) \<and> ipok F (rend r) \<and> ipv (rstart r) \<le> ipv (rend r))"

lemma rok_D: "rok F r \<Longrightarrow> ipok F (rstart r)" "rok F r \<Longrightarrow> ipok F (rend r)"
  "rok F r \<Longrightarrow> ipv (rstart r) \<le> ipv (rend r)"
  by (auto simp: rok_def)

lemma NewIPRange_simps [simp]: "rstart (NewIPRange s e) = s" "rend (NewIPRange s e) = e"
  by (simp_all add: NewIPRange_def)

lemma IPRange_Clone_id [simp]: "IPRange_Clone r = r"
  by (simp add: IPRange_Clone_def NewIPRange_def)

lemma rset_NewIPRange [simp]: "rset (NewIPRange s e) = {ipv s..ipv e}"
  by (simp add: rset_def)

lemma rset_bounds: "rok F r \<Longrightarrow> x \<in> rset r \<Longrightarrow> ipmin F \<le> x \<and> x \<le> ipmax F"
  using ipok_bounds [of F "rstart r"] ipok_bounds [of F "rend r"]
  by (auto simp: rset_def rok_def)

lemma IPRange_Contains_iff:
  "rok F r \<Longrightarrow> ipok F ip \<Longrightarrow> IPRange_Contains r ip \<longleftrightarrow> ipv ip \<in> rset r"
  by (auto simp: IPRange_Contains_def rset_def rok_def ip_order [of F])

lemma ipv_diff: "ipok F a \<Longrightarrow> ipok F b \<Longrightarrow> int (be_nat b) - int (be_nat a) = int (ipv b) - int (ipv a)"
  by (cases F) (auto simp: ipv_4 ipv_16)

lemma IPRange_Count_card: "rok F r \<Longrightarrow> IPRange_Count r = int (card (rset r))"
  using ipv_diff [of F "rstart r" "rend r"]
  by (auto simp: IPRange_Count_def rset_def rok_def)

lemma IPRange_Random_in:
  assumes r: "rok F r" and n: "int n < IPRange_Count r"
  shows "ipok F (IPRange_Random r n) \<and> ipv (IPRange_Random r n) = ipv (rstart r) + n"
proof -
  have b: "be_nat (rstart r) + n \<le> be_nat (rend r)"
    using n by (simp add: IPRange_Count_def)
  have lt: "be_nat (rend r) < 256 ^ length (rend r)" by (rule be_nat_less)
  have "IPRange_Random r n = be_fixed (length (rstart r)) (be_nat (rstart r) + n)"
    by (simp add: IPRange_Random_def bytes2IP_big nat_add_distrib flip: of_nat_add)
  moreover have "be_nat (rstart r) + n < 256 ^ length (rend r)" using b lt by simp
  moreover have "length (rend r) = length (rstart r)" using r by (cases F) (auto simp: rok_def)
  ultimately show ?thesis
    using r by (cases F) (auto simp: rok_def be_nat_be_fixed ipv_4 ipv_16)
qed

text \<open>
  Neighbours: the address before the start and after the end. At the ends of the
  space the neighbour has a number outside the range's family, or, for IPv4, the
  number of the other end.
\<close>

lemma sub1_equal_iff:
  assumes "ipok F s" "ipok F ip" "\<not> (ipv s = ipmin F \<and> ipv ip = ipmax F)"
  shows "IP_Equal (IP_Sub s 1) ip \<longleftrightarrow> ipv s = ipv ip + 1"
proof (cases "ipv s = ipmin F")
  case True
  then have "ipv (IP_Sub s 1) \<noteq> ipv ip"
    using assms af.sub1_wrap [of F s] ipok_bounds [of F ip] by auto
  with True show ?thesis
    using assms ipok_bounds [of F ip] af.sub1_valid [of F s]
    by (simp add: IP_Equal_ipv ipok_valid)
next
  case False
  then show ?thesis
    using assms ipok_bounds [of F s] af.sub1 [of F s] by (auto simp: ip_order [of F])
qed

lemma add1_equal_iff:
  assumes "ipok F e" "ipok F ip" "\<not> (ipv e = ipmax F \<and> ipv ip = ipmin F)"
  shows "IP_Equal (IP_Add e 1) ip \<longleftrightarrow> ipv ip = ipv e + 1"
proof (cases "ipv e = ipmax F")
  case True
  then have "ipv (IP_Add e 1) \<noteq> ipv ip"
    using assms af.add1_wrap [of F e] ipok_bounds [of F ip] by auto
  with True show ?thesis
    using assms ipok_bounds [of F ip] af.add1_valid [of F e]
    by (simp add: IP_Equal_ipv ipok_valid)
next
  case False
  then show ?thesis
    using assms ipok_bounds [of F e] af.add1 [of F e] by (auto simp: ip_order [of F])
qed

text \<open>Extending a range by a neighbour; no other address changes it.\<close>

definition no_wrap :: "fam \<Rightarrow> IPRange \<Rightarrow> IP \<Rightarrow> bool" where
  "no_wrap F r ip =
     (\<not> (ipv (rstart r) = ipmin F \<and> ipv ip = ipmax F) \<and>
      \<not> (ipv (rend r) = ipmax F \<and> ipv ip = ipmin F))"

lemma IPRange_Add_eq:
  assumes r: "rok F r" and ip: "ipok F ip" and nw: "no_wrap F r ip"
  shows "IPRange_Add r ip =
    (if ipv (rstart r) = ipv ip + 1 then (r\<lparr>rstart := ip\<rparr>, True)
     else if ipv ip = ipv (rend r) + 1 then (r\<lparr>rend := ip\<rparr>, True)
     else (r, False))"
proof -
  note ok = rok_D [OF r]
  have s: "IP_Equal (IP_Sub (rstart r) 1) ip \<longleftrightarrow> ipv (rstart r) = ipv ip + 1"
    using ok ip nw by (intro sub1_equal_iff) (auto simp: no_wrap_def)
  have e: "IP_Equal (IP_Add (rend r) 1) ip \<longleftrightarrow> ipv ip = ipv (rend r) + 1"
    using ok ip nw by (intro add1_equal_iff) (auto simp: no_wrap_def)
  have "IP_Sub (rstart r) 1 = ip" if "ipv (rstart r) = ipv ip + 1"
    using that ok(1) ip af.prev_ok [of F "rstart r" ip] by (auto intro: ipok_inj)
  moreover have "IP_Add (rend r) 1 = ip" if "ipv ip = ipv (rend r) + 1"
    using that ok(2) ip af.next_ok [of F "rend r" ip] by (auto intro: ipok_inj)
  ultimately show ?thesis using s e by (simp add: IPRange_Add_def Let_def)
qed

text \<open>Removing an address splits the range at it.\<close>

definition inner :: "fam \<Rightarrow> IP \<Rightarrow> bool" where
  "inner F ip = (ipmin F < ipv ip \<and> ipv ip < ipmax F)"

lemma IPRange_Remove_eq:
  assumes r: "rok F r" and ip: "ipok F ip" and i: "inner F ip" and c: "ipv ip \<in> rset r"
  shows "IPRange_Remove r ip =
    ((if ipv (rstart r) < ipv ip then [NewIPRange (rstart r) (IP_Sub ip 1)] else []) @
     (if ipv ip < ipv (rend r) then [NewIPRange (IP_Add ip 1) (rend r)] else []), True)"
proof -
  note ok = rok_D [OF r]
  have s: "ipok F (IP_Sub ip 1)" "ipv (IP_Sub ip 1) = ipv ip - 1" "0 < ipv ip"
    using af.sub1 [of F ip] ip i by (auto simp: inner_def)
  have a: "ipok F (IP_Add ip 1)" "ipv (IP_Add ip 1) = ipv ip + 1"
    using af.add1 [of F ip] ip i by (auto simp: inner_def)
  have "IPRange_Contains r ip" using r ip c by (simp add: IPRange_Contains_iff)
  then show ?thesis
    using ok s a c by (auto simp: IPRange_Remove_def Let_def ip_order [of F] rset_def)
qed

lemma IPRange_Remove_rok:
  assumes "rok F r" "ipok F ip" "inner F ip" "ipv ip \<in> rset r" "q \<in> set (fst (IPRange_Remove r ip))"
  shows "rok F q"
proof -
  have "ipok F (IP_Sub ip 1)" "ipv (IP_Sub ip 1) = ipv ip - 1" "0 < ipv ip"
       "ipok F (IP_Add ip 1)" "ipv (IP_Add ip 1) = ipv ip + 1"
    using af.sub1 [of F ip] af.add1 [of F ip] assms by (auto simp: inner_def)
  then show ?thesis
    using assms(5) rok_D [OF assms(1)] unfolding IPRange_Remove_eq [OF assms(1-4)]
    by (auto simp: rok_def split: if_splits)
qed

end
