(* ===== verification/CidrBlocks.thy ===== *)
theory CidrBlocks
  imports NetText
begin

unbundle bit_operations_syntax

text \<open>
  Cutting a range of numbers into aligned blocks, as \<open>IPRangeToCIDRs\<close> of
  pkg/util/ippool.go and \<open>ToCIDRs\<close> of pkg/ipam/ip_range_list.go do it. Both hold
  the same \<open>countTrailingZeros\<close> and the same computation of the next block, which are
  here once; their loops are in the theories of the two files. \<open>cidr_blocks\<close> is the
  list of blocks (start, size in bits) these loops print. It covers the range exactly,
  in order and without overlap, and no other set of aligned blocks that covers the range
  exactly is smaller.
\<close>

section \<open>The code\<close>

text \<open>\<open>big.Int.BitLen\<close>\<close>

fun bit_len :: "nat \<Rightarrow> nat" where
  "bit_len n = (if n = 0 then 0 else Suc (bit_len (n div 2)))"

declare bit_len.simps [simp del]

text \<open>The loop of \<open>countTrailingZeros\<close>, from the bit \<open>zeros\<close> on.\<close>

function ctz_loop :: "nat \<Rightarrow> nat \<Rightarrow> nat \<Rightarrow> nat" where
  "ctz_loop v totalBits zeros =
     (if zeros < totalBits \<and> \<not> bit v zeros then ctz_loop v totalBits (zeros + 1) else zeros)"
  by pat_completeness auto
termination
  by (relation "measure (\<lambda>(v, t, z). t - z)") auto

declare ctz_loop.simps [simp del]

definition countTrailingZeros :: "nat \<Rightarrow> nat \<Rightarrow> nat" where
  "countTrailingZeros v totalBits = (if v = 0 then totalBits else ctz_loop v totalBits 0)"

text \<open>
  The size of the next block of the loops of \<open>IPRangeToCIDRs\<close> and \<open>ToCIDRs\<close>: as many
  trailing zero bits as the start has, but no more than fit below the end.
\<close>

definition block_size :: "nat \<Rightarrow> nat \<Rightarrow> nat \<Rightarrow> nat" where
  "block_size totalBits startInt endInt =
     (let zeros = countTrailingZeros startInt totalBits;
          bits = bit_len (endInt - startInt + 1);
          maxDiff = (if bits > 0 then bits - 1 else 0)
      in min (min zeros maxDiff) totalBits)"

function cidr_blocks :: "nat \<Rightarrow> nat \<Rightarrow> nat \<Rightarrow> (nat \<times> nat) list" where
  "cidr_blocks totalBits startInt endInt =
     (if startInt \<le> endInt then
        let size = block_size totalBits startInt endInt
        in (startInt, size) # cidr_blocks totalBits (startInt + 2 ^ size) endInt
      else [])"
  by pat_completeness auto
termination
  by (relation "measure (\<lambda>(t, s, e). e + 1 - s)") (auto simp: Let_def intro!: diff_less_mono2)

declare cidr_blocks.simps [simp del]

section \<open>The size of a block\<close>

lemma ctz_loop_spec:
  "zeros \<le> totalBits \<Longrightarrow> \<forall>i<zeros. \<not> bit v i \<Longrightarrow>
   ctz_loop v totalBits zeros \<le> totalBits \<and> (\<forall>i < ctz_loop v totalBits zeros. \<not> bit v i) \<and>
   (ctz_loop v totalBits zeros < totalBits \<longrightarrow> bit v (ctz_loop v totalBits zeros))"
proof (induction "totalBits - zeros" arbitrary: zeros)
  case 0
  then show ?case by (simp add: ctz_loop.simps [of _ _ zeros])
next
  case (Suc n)
  show ?case
  proof (cases "bit v zeros")
    case True
    then show ?thesis using Suc.prems by (simp add: ctz_loop.simps [of _ _ zeros])
  next
    case False
    then have "\<forall>i<zeros + 1. \<not> bit v i" using Suc.prems by (auto simp: less_Suc_eq)
    then show ?thesis
      using Suc.hyps(1) [of "zeros + 1"] Suc.hyps(2) False by (auto simp add: ctz_loop.simps [of _ _ zeros])
  qed
qed

lemma low_bits_dvd: "(\<forall>i<k. \<not> bit (v :: nat) i) \<longleftrightarrow> 2 ^ k dvd v"
proof -
  have "(\<forall>i<k. \<not> bit v i) \<longleftrightarrow> take_bit k v = 0"
    by (auto simp: bit_eq_iff bit_simps)
  then show ?thesis by (simp add: take_bit_eq_mod dvd_eq_mod_eq_0)
qed

lemma countTrailingZeros_dvd:
  "k \<le> totalBits \<Longrightarrow> k \<le> countTrailingZeros v totalBits \<longleftrightarrow> 2 ^ k dvd v"
proof -
  assume k: "k \<le> totalBits"
  note s = ctz_loop_spec [of 0 totalBits v]
  have "2 ^ k dvd v" if "k \<le> ctz_loop v totalBits 0"
    using that s by (simp flip: low_bits_dvd)
  moreover have "k \<le> ctz_loop v totalBits 0" if "2 ^ k dvd v"
    using that s k by (fastforce simp flip: low_bits_dvd intro: leI)
  ultimately show ?thesis using k by (auto simp: countTrailingZeros_def)
qed

lemma countTrailingZeros_le: "countTrailingZeros v totalBits \<le> totalBits"
  using ctz_loop_spec [of 0 totalBits v] by (simp add: countTrailingZeros_def)

lemma bit_len_le: "k < bit_len n \<longleftrightarrow> 2 ^ k \<le> n"
proof (induction k arbitrary: n)
  case 0
  then show ?case by (subst bit_len.simps) auto
next
  case (Suc k)
  have "Suc k < bit_len n \<longleftrightarrow> n \<noteq> 0 \<and> 2 ^ k \<le> n div 2"
    using Suc [of "n div 2"] by (subst bit_len.simps) simp
  also have "\<dots> \<longleftrightarrow> 2 ^ Suc k \<le> n"
    by (cases "n = 0") (simp_all add: less_eq_div_iff_mult_less_eq mult.commute)
  finally show ?case .
qed

text \<open>The block is aligned and fits, and it is the largest that does.\<close>

lemma block_size_iff:
  assumes "s \<le> e" "k \<le> T"
  shows "k \<le> block_size T s e \<longleftrightarrow> 2 ^ k dvd s \<and> s + 2 ^ k \<le> e + 1"
proof -
  have "0 < bit_len (e - s + 1)" by (simp add: bit_len_le)
  then have "k \<le> bit_len (e - s + 1) - 1 \<longleftrightarrow> 2 ^ k \<le> e - s + 1"
    using bit_len_le [of k "e - s + 1"] by linarith
  then show ?thesis
    using assms countTrailingZeros_dvd [OF assms(2), of s]
    by (auto simp: block_size_def Let_def)
qed

lemma block_size_le: "block_size T s e \<le> T"
  by (simp add: block_size_def Let_def)

lemma block_size_ok:
  "s \<le> e \<Longrightarrow> 2 ^ block_size T s e dvd s \<and> s + 2 ^ block_size T s e \<le> e + 1"
  using block_size_iff [of s e "block_size T s e" T] block_size_le by blast

section \<open>Blocks\<close>

text \<open>The numbers of a block and its alignment: the addresses of a CIDR.\<close>

definition blk :: "nat \<times> nat \<Rightarrow> nat set" where
  "blk b = {fst b..<fst b + 2 ^ snd b}"

definition aligned :: "nat \<Rightarrow> nat \<times> nat \<Rightarrow> bool" where
  "aligned T b = (snd b \<le> T \<and> 2 ^ snd b dvd fst b)"

lemma cidr_blocks_Nil [simp]: "e < s \<Longrightarrow> cidr_blocks T s e = []"
  by (subst cidr_blocks.simps) simp

lemma cidr_blocks_Cons:
  "s \<le> e \<Longrightarrow> cidr_blocks T s e = (s, block_size T s e) # cidr_blocks T (s + 2 ^ block_size T s e) e"
  by (subst cidr_blocks.simps) (simp add: Let_def)

lemma cidr_blocks_cover:
  "(\<Union>b\<in>set (cidr_blocks T s e). blk b) = {s..e} \<and> (\<forall>b\<in>set (cidr_blocks T s e). aligned T b \<and> s \<le> fst b)
   \<and> sorted_wrt (\<lambda>a b. fst a + 2 ^ snd a \<le> fst b) (cidr_blocks T s e)"
proof (induction T s e rule: cidr_blocks.induct)
  case (1 T s e)
  show ?case
  proof (cases "s \<le> e")
    case True
    let ?z = "block_size T s e"
    have z: "2 ^ ?z dvd s" "s + 2 ^ ?z \<le> e + 1" using block_size_ok [OF True] by auto
    have "{s..e} = {s..<s + 2 ^ ?z} \<union> {s + 2 ^ ?z..e}" using z by auto
    moreover have "\<forall>b\<in>set (cidr_blocks T (s + 2 ^ ?z) e). s \<le> fst b"
      using 1 [OF True refl] by fastforce
    ultimately show ?thesis
      using 1 [OF True refl] z block_size_le [of T s e]
      by (simp add: cidr_blocks_Cons [OF True] blk_def aligned_def)
  qed simp
qed

text \<open>Two aligned blocks are disjoint or one holds the other.\<close>

lemma blk_div:
  assumes "2 ^ k dvd (s :: nat)"
  shows "x \<in> blk (s, k) \<longleftrightarrow> x div 2 ^ k = s div 2 ^ k"
proof -
  obtain q where s: "s = 2 ^ k * q" using assms by (elim dvdE)
  have p: "0 < (2 :: nat) ^ k" by simp
  have "x < 2 ^ k * (x div 2 ^ k) + 2 ^ k"
    using mult_div_mod_eq [of "2 ^ k" x] mod_less_divisor [OF p, of x] by linarith
  then have "x div 2 ^ k = q \<longleftrightarrow> 2 ^ k * q \<le> x \<and> x < 2 ^ k * q + 2 ^ k"
    using div_nat_eqI [of "2 ^ k" q x] by auto
  then show ?thesis using s by (simp add: blk_def)
qed

lemma blk_laminar:
  assumes "2 ^ k dvd s" "2 ^ m dvd t" "k \<le> m" "blk (s, k) \<inter> blk (t, m) \<noteq> {}"
  shows "blk (s, k) \<subseteq> blk (t, m)"
proof
  obtain y where y: "y \<in> blk (s, k)" "y \<in> blk (t, m)" using assms by auto
  fix x assume "x \<in> blk (s, k)"
  with y have "x div 2 ^ k = y div 2 ^ k" using assms by (simp add: blk_div)
  moreover have "(2 :: nat) ^ m = 2 ^ k * 2 ^ (m - k)" using assms by (simp flip: power_add)
  ultimately have "x div 2 ^ m = y div 2 ^ m" by (simp add: div_mult2_eq)
  with y show "x \<in> blk (t, m)" using assms by (simp add: blk_div)
qed

text \<open>
  An aligned block inside the range that does not lie in the first block misses it:
  it cannot hold the first block, which is the largest that starts at \<open>s\<close>.
\<close>

lemma blk_outside:
  assumes le: "s \<le> e" and al: "aligned T b" and inr: "blk b \<subseteq> {s..e}"
    and nb: "\<not> blk b \<subseteq> blk (s, block_size T s e)"
  shows "blk b \<inter> blk (s, block_size T s e) = {}"
proof (rule ccontr)
  let ?z = "block_size T s e"
  have z: "2 ^ ?z dvd s" using block_size_ok [OF le] by auto
  assume i: "blk b \<inter> blk (s, ?z) \<noteq> {}"
  obtain t k where b: "b = (t, k)" by (cases b)
  have k: "k \<le> T" "2 ^ k dvd t" using al b by (auto simp: aligned_def)
  have "\<not> k \<le> ?z" using blk_laminar [OF k(2) z] i nb b by auto
  then have "blk (s, ?z) \<subseteq> blk (t, k)" using blk_laminar [OF z k(2)] i b by auto
  moreover have "s \<in> blk (s, ?z)" by (simp add: blk_def)
  ultimately have "s \<in> blk (t, k)" by blast
  moreover have "t \<in> blk b" using b by (simp add: blk_def)
  ultimately have ts: "t = s" using inr b by (fastforce simp: blk_def)
  have one: "1 \<le> (2 :: nat) ^ k" by simp
  then have "t + (2 ^ k - 1) \<in> blk b"
    unfolding b blk_def atLeastLessThan_iff fst_conv snd_conv by linarith
  then have "s + (2 ^ k - 1) \<in> {s..e}" using inr ts by auto
  then have "s + 2 ^ k \<le> e + 1" using one unfolding atLeastAtMost_iff by linarith
  then have "k \<le> ?z" using block_size_iff [OF le k(1)] k ts by blast
  with \<open>\<not> k \<le> ?z\<close> show False by simp
qed

text \<open>The blocks of a cover outside the first block cover the rest of the range.\<close>

lemma cover_rest:
  assumes le: "s \<le> e" and al: "\<forall>b\<in>C. aligned T b" and cov: "(\<Union>b\<in>C. blk b) = {s..e}"
  defines "D \<equiv> {b \<in> C. \<not> blk b \<subseteq> blk (s, block_size T s e)}"
  shows "(\<Union>b\<in>D. blk b) = {s + 2 ^ block_size T s e..e}"
proof
  let ?z = "block_size T s e"
  show "(\<Union>b\<in>D. blk b) \<subseteq> {s + 2 ^ ?z..e}"
  proof
    fix x assume "x \<in> (\<Union>b\<in>D. blk b)"
    then obtain b where b: "b \<in> C" "\<not> blk b \<subseteq> blk (s, ?z)" "x \<in> blk b" unfolding D_def by blast
    then have "blk b \<subseteq> {s..e}" using cov by blast
    then have "x \<notin> blk (s, ?z)" "x \<in> {s..e}"
      using blk_outside [OF le _ _ b(2)] al b by blast+
    then show "x \<in> {s + 2 ^ ?z..e}" by (auto simp: blk_def)
  qed
  show "{s + 2 ^ ?z..e} \<subseteq> (\<Union>b\<in>D. blk b)"
  proof
    fix x assume x: "x \<in> {s + 2 ^ ?z..e}"
    then have "x \<in> (\<Union>b\<in>C. blk b)" unfolding cov by auto
    moreover have "x \<notin> blk (s, ?z)" using x by (auto simp: blk_def)
    ultimately show "x \<in> (\<Union>b\<in>D. blk b)" unfolding D_def by blast
  qed
qed

lemma cidr_blocks_minimal:
  assumes "finite C" "\<forall>b\<in>C. aligned T b" "(\<Union>b\<in>C. blk b) = {s..e}"
  shows "length (cidr_blocks T s e) \<le> card C"
  using assms
proof (induction T s e arbitrary: C rule: cidr_blocks.induct)
  case (1 T s e)
  show ?case
  proof (cases "s \<le> e")
    case True
    let ?z = "block_size T s e"
    define D where "D = {b \<in> C. \<not> blk b \<subseteq> blk (s, ?z)}"
    have "(\<Union>b\<in>D. blk b) = {s + 2 ^ ?z..e}"
      unfolding D_def by (rule cover_rest [OF True 1(3,4)])
    then have ih: "length (cidr_blocks T (s + 2 ^ ?z) e) \<le> card D"
      using 1(1) [OF True refl, of D] 1(2,3) by (auto simp: D_def)
    have "s \<in> (\<Union>b\<in>C. blk b)" unfolding 1(4) using True by simp
    then obtain b where b: "b \<in> C" "s \<in> blk b" by auto
    have "s \<in> blk (s, ?z)" by (simp add: blk_def)
    moreover have "blk b \<subseteq> {s..e}" using 1(4) b by blast
    ultimately have "blk b \<subseteq> blk (s, ?z)" using blk_outside [OF True, of T b] 1(3) b by blast
    then have "D \<subset> C" using b unfolding D_def by blast
    then have "card D < card C" by (rule psubset_card_mono [OF 1(2)])
    with ih show ?thesis by (simp add: cidr_blocks_Cons [OF True])
  qed simp
qed

end
