(* ===== verification/IPRangeList.thy ===== *)
theory IPRangeList
  imports IPRange CidrBlocks
begin

text \<open>
  pkg/ipam/ip_range_list.go: a list of ranges kept sorted, disjoint and with gaps
  (\<open>rl_ok\<close>), which stands for the set of its addresses (\<open>rlset\<close>). A method that
  changes its receiver returns the new list beside its result. A nil list and an empty
  list answer alike in every method but \<open>Add\<close>, which the callers never apply to a list
  that may be nil; both are the empty list here. The loops over indices \<open>i\<close> and \<open>j\<close>
  of \<open>Separate\<close> and \<open>Merge\<close> recurse over the rest of the lists from these indices.
\<close>

section \<open>The code\<close>

type_synonym IPRangeList = "IPRange list"

definition NewEmptyIPRangeList :: IPRangeList where
  "NewEmptyIPRangeList = []"

fun pair_up :: "IP list \<Rightarrow> IPRangeList" where
  "pair_up (a # b # ips) = NewIPRange a b # pair_up ips"
| "pair_up _ = []"

definition NewIPRangeList :: "IP list \<Rightarrow> error + IPRangeList" where
  "NewIPRangeList ips =
     (if length ips mod 2 \<noteq> 0 then Inl (ErrFmt ''length of ips must be an even number'')
      else Inr (pair_up ips))"

definition rl_Clone :: "IPRangeList \<Rightarrow> IPRangeList" where
  "rl_Clone r = map IPRange_Clone r"

definition rl_Len :: "IPRangeList \<Rightarrow> nat" where
  "rl_Len r = length r"

fun rl_Count :: "IPRangeList \<Rightarrow> int" where
  "rl_Count [] = 0"
| "rl_Count (v # vs) = IPRange_Count v + rl_Count vs"

definition rl_At :: "IPRangeList \<Rightarrow> int \<Rightarrow> IPRange option" where
  "rl_At r i = (if i < 0 \<or> i \<ge> int (length r) then None else Some (r ! nat i))"

text \<open>\<open>sort.Find\<close> of the standard library: binary search for the least index with \<open>cmp \<le> 0\<close>.\<close>

function sort_find_loop :: "(nat \<Rightarrow> int) \<Rightarrow> nat \<Rightarrow> nat \<Rightarrow> nat" where
  "sort_find_loop cmp i j =
     (if i < j then
        let h = (i + j) div 2
        in if cmp h > 0 then sort_find_loop cmp (h + 1) j else sort_find_loop cmp i h
      else i)"
  by pat_completeness auto
termination
  by (relation "measure (\<lambda>(cmp, i, j). j - i)") (auto simp: Let_def)

declare sort_find_loop.simps [simp del]

definition sort_Find :: "nat \<Rightarrow> (nat \<Rightarrow> int) \<Rightarrow> nat \<times> bool" where
  "sort_Find n cmp = (let i = sort_find_loop cmp 0 n in (i, i < n \<and> cmp i = 0))"

definition rl_cmp :: "IPRangeList \<Rightarrow> IP \<Rightarrow> nat \<Rightarrow> int" where
  "rl_cmp r ip i =
     (if IP_GreaterThan (rstart (r ! i)) ip then -1
      else if IP_LessThan (rend (r ! i)) ip then 1
      else 0)"

definition rl_Find :: "IPRangeList \<Rightarrow> IP \<Rightarrow> nat \<times> bool" where
  "rl_Find r ip = sort_Find (length r) (rl_cmp r ip)"

definition rl_Contains :: "IPRangeList \<Rightarrow> IP \<Rightarrow> bool" where
  "rl_Contains r ip = snd (rl_Find r ip)"

text \<open>\<open>r.ranges[i].Add(ip)\<close> on a list: the range at \<open>i\<close> is changed in place.\<close>

definition add_at :: "IPRangeList \<Rightarrow> nat \<Rightarrow> IP \<Rightarrow> IPRangeList \<times> bool" where
  "add_at r i ip = (let (q, b) = IPRange_Add (r ! i) ip in (r[i := q], b))"

definition rl_Add :: "IPRangeList \<Rightarrow> IP \<Rightarrow> IPRangeList \<times> bool" where
  "rl_Add r ip =
     (let (n, found) = rl_Find r ip in
      if found then (r, False)
      else
        let (r1, ok1) = (if 0 < n then add_at r (n - 1) ip else (r, False));
            (r2, ok2) = (if ok1 then (r1, True)
                         else if n < length r1 then add_at r1 n ip else (r1, False))
        in if ok2 then
             (if 0 < n \<and> n < length r2 \<and> IP_Equal (IP_Add (rend (r2 ! (n - 1))) 1) (rstart (r2 ! n))
              then let r3 = r2[n - 1 := IPRange_SetEnd (r2 ! (n - 1)) (rend (r2 ! n))]
                   in take n r3 @ drop (Suc n) r3
              else r2, True)
           else (take n r2 @ [NewIPRange ip ip] @ drop n r2, True))"

definition rl_Remove :: "IPRangeList \<Rightarrow> IP \<Rightarrow> IPRangeList \<times> bool" where
  "rl_Remove r ip =
     (let (n, found) = rl_Find r ip in
      if \<not> found then (r, False)
      else
        (case fst (IPRange_Remove (r ! n) ip) of
           [] \<Rightarrow> take n r @ drop (Suc n) r
         | [v] \<Rightarrow> r[n := v]
         | v # w # _ \<Rightarrow> take n r @ [v, w] @ drop (Suc n) r, True))"

text \<open>
  \<open>sep_inner\<close> is the loop over \<open>j\<close> for one range of the receiver: the ranges it
  appends and the rest of \<open>x\<close> at which it stops, with the append after the loop when
  \<open>j\<close> has reached the end.
\<close>

fun sep_inner :: "IP \<Rightarrow> IP \<Rightarrow> IPRangeList \<Rightarrow> IPRangeList \<times> IPRangeList" where
  "sep_inner s e [] = ([NewIPRange s e], [])"
| "sep_inner s e (x # xs) =
     (if IP_LessThan (rend x) s then sep_inner s e xs
      else if IP_GreaterThan (rstart x) e then ([NewIPRange s e], x # xs)
      else if \<not> IP_LessThan (rend x) e then
        (if IP_GreaterThan (rstart x) s then [NewIPRange s (IP_Sub (rstart x) 1)] else [], x # xs)
      else
        let (out, rest) = sep_inner (IP_Add (rend x) 1) e xs
        in ((if IP_LessThan s (rstart x) then [NewIPRange s (IP_Sub (rstart x) 1)] else []) @ out, rest))"

fun sep_loop :: "IPRangeList \<Rightarrow> IPRangeList \<Rightarrow> IPRangeList" where
  "sep_loop [] xs = []"
| "sep_loop (r # rs) xs =
     (let (out, rest) = sep_inner (rstart r) (rend r) xs in out @ sep_loop rs rest)"

definition rl_Separate :: "IPRangeList \<Rightarrow> IPRangeList \<Rightarrow> IPRangeList" where
  "rl_Separate r x =
     (if rl_Len r = 0 then NewEmptyIPRangeList
      else if rl_Len x = 0 then rl_Clone r
      else sep_loop r x)"

definition rl_Allocate :: "IPRangeList \<Rightarrow> IP list \<Rightarrow> IPRangeList \<times> IP" where
  "rl_Allocate r skipped =
     (if rl_Len r = 0 then (r, [])
      else if length skipped = 0 then
        let ret = rstart (r ! 0) in (fst (rl_Remove r ret), ret)
      else
        let tmp = foldl (\<lambda>t ip. fst (rl_Add t ip)) NewEmptyIPRangeList skipped;
            filtered = rl_Separate r tmp
        in if rl_Len filtered = 0 then (r, [])
           else let ret = rstart (filtered ! 0) in (fst (rl_Remove r ret), ret))"

definition rl_Equal :: "IPRangeList \<Rightarrow> IPRangeList \<Rightarrow> bool" where
  "rl_Equal r x =
     (length r = length x \<and>
      list_all2 (\<lambda>a b. IP_Equal (rstart a) (rstart b) \<and> IP_Equal (rend a) (rend b)) r x)"

text \<open>The first loop of \<open>Merge\<close> interleaves by start, the second joins neighbours.\<close>

fun merge_loop :: "IPRangeList \<Rightarrow> IPRangeList \<Rightarrow> IPRangeList" where
  "merge_loop [] [] = []"
| "merge_loop [] (x # xs) = IPRange_Clone x # merge_loop [] xs"
| "merge_loop (s # ss) [] = IPRange_Clone s # merge_loop ss []"
| "merge_loop (s # ss) (x # xs) =
     (if IP_LessThan (rstart s) (rstart x) then IPRange_Clone s # merge_loop ss (x # xs)
      else IPRange_Clone x # merge_loop (s # ss) xs)"

fun join_adjacent :: "IPRangeList \<Rightarrow> IPRangeList" where
  "join_adjacent (a # b # rs) =
     (if IP_Equal (IP_Add (rend a) 1) (rstart b)
      then join_adjacent (a\<lparr>rend := rend b\<rparr> # rs)
      else a # join_adjacent (b # rs))"
| "join_adjacent rs = rs"

definition rl_Merge :: "IPRangeList \<Rightarrow> IPRangeList \<Rightarrow> IPRangeList" where
  "rl_Merge r x = join_adjacent (merge_loop (rl_Separate r x) x)"

definition rl_MergeRange :: "IPRangeList \<Rightarrow> IPRange \<Rightarrow> IPRangeList" where
  "rl_MergeRange r x = rl_Merge r [x]"

definition rl_Intersect :: "IPRangeList \<Rightarrow> IPRangeList \<Rightarrow> IPRangeList" where
  "rl_Intersect r x =
     (let r1 = rl_Separate r x; r2 = rl_Separate x r
      in rl_Separate (rl_Separate (rl_Merge r x) r1) r2)"

definition rl_String :: "IPRangeList \<Rightarrow> string" where
  "rl_String r = join '','' (map IPRange_String r)"

text \<open>One entry of a pool: a range \<open>a..b\<close>, a CIDR or an address.\<close>

definition parse_range :: "string \<Rightarrow> error + IPRange" where
  "parse_range s =
     (if str_contains s ''..'' then
        (let ips = split ''..'' s in
         case NewIP (ips ! 0) of
           Inl err \<Rightarrow> Inl err
         | Inr st \<Rightarrow>
             (case NewIP (ips ! 1) of
                Inl err \<Rightarrow> Inl err
              | Inr en \<Rightarrow>
                  if IP_GreaterThan st en then Inl (ErrFmt ''invalid ip range'')
                  else Inr (NewIPRange st en)))
      else if CHR ''/'' \<in> set s then
        (case ParseCIDR s of
           None \<Rightarrow> Inl (ErrFmt ''invalid CIDR address'')
         | Some (_, cidr) \<Rightarrow> Inr (NewIPRangeFromCIDR cidr))
      else
        (case NewIP s of
           Inl err \<Rightarrow> Inl err
         | Inr st \<Rightarrow> Inr (NewIPRange st (IP_Clone st))))"

fun range_list_from :: "IPRangeList \<Rightarrow> string list \<Rightarrow> error + IPRangeList" where
  "range_list_from ret [] = Inr ret"
| "range_list_from ret (s # x) =
     (case parse_range s of
        Inl err \<Rightarrow> Inl err
      | Inr r \<Rightarrow> range_list_from (rl_Merge ret [r]) x)"

definition NewIPRangeListFrom :: "string list \<Rightarrow> error + IPRangeList" where
  "NewIPRangeListFrom x = range_list_from [] x"

text \<open>
  \<open>ToCIDRs\<close>. A size below zero cannot come out of the computation on natural numbers, so
  its error has no branch. The bytes of the start are padded or cut to the length of the
  family; \<open>To4\<close> leaves a slice of 4 bytes as it is.
\<close>

function to_cidrs_loop :: "nat \<Rightarrow> nat \<Rightarrow> nat \<Rightarrow> nat \<Rightarrow> string list \<Rightarrow> error + string list" where
  "to_cidrs_loop len totalBits startInt endInt result =
     (if startInt \<le> endInt then
        if countTrailingZeros startInt totalBits > totalBits
        then Inl (ErrFmt ''trailing zero count exceeds total bits'')
        else
          let size = block_size totalBits startInt endInt;
              network = \<lparr>NetIP = bytes2IP (big_bytes (int startInt)) len, NetMask = CIDRMask (totalBits - size) totalBits\<rparr>
          in to_cidrs_loop len totalBits (startInt + 2 ^ size) endInt (result @ [net_string network])
      else Inr result)"
  by pat_completeness auto
termination
  by (relation "measure (\<lambda>(l, t, s, e, r). e + 1 - s)") (auto simp: Let_def intro!: diff_less_mono2)

declare to_cidrs_loop.simps [simp del]

definition range_cidrs :: "IPRange \<Rightarrow> string list \<Rightarrow> error + string list" where
  "range_cidrs r result =
     (let s = rstart r; e = rend r in
      if IP_Equal s e then
        Inr (result @ [IP_String s @ ''/'' @ dec (if length s = 16 then 128 else 32)])
      else
        let len = (if ip_to4 s = [] then 16 else 4); totalBits = (if ip_to4 s = [] then 128 else 32) in
        if be_nat s > be_nat e
        then Inl (ErrFmt (''range '' @ IP_String s @ ''..'' @ IP_String e @ '' start is greater than end''))
        else to_cidrs_loop len totalBits (be_nat s) (be_nat e) result)"

fun ranges_cidrs :: "IPRangeList \<Rightarrow> string list \<Rightarrow> error + string list" where
  "ranges_cidrs [] result = Inr result"
| "ranges_cidrs (r # rs) result =
     (case range_cidrs r result of
        Inl err \<Rightarrow> Inl err
      | Inr result' \<Rightarrow> ranges_cidrs rs result')"

definition rl_ToCIDRs :: "IPRangeList \<Rightarrow> error + string list" where
  "rl_ToCIDRs r =
     (if rl_Len r = 0 then Inr []
      else case ranges_cidrs r [] of
          Inl err \<Rightarrow> Inl err
        | Inr result \<Rightarrow> Inr (sort_strings result))"

end
