(* ===== verification/RangeSets.thy ===== *)
theory RangeSets
  imports IPRangeList
begin

text \<open>
  The range list of pkg/ipam/ip_range_list.go as a set of addresses. \<open>rlset\<close> maps a list
  to the numbers of its addresses; \<open>rl_ok F\<close> is the representation invariant (one family,
  sorted, a gap between neighbours), \<open>rl_mix\<close> and \<open>rl_dis\<close> its weaker forms for the lists
  that \<open>Allocate\<close> and \<open>Separate\<close> build from addresses of several families. Every
  operation is proved to be the operation on sets it stands for and to keep the
  invariant; the locale \<open>address_set\<close> collects these laws for the components that use
  the lists.
\<close>


section \<open>Lists as sets of addresses\<close>

definition rlset :: "IPRangeList \<Rightarrow> nat set" where
  "rlset rs = (\<Union>r\<in>set rs. rset r)"

text \<open>Sorted and disjoint, each range within one family.\<close>

definition rl_dis :: "IPRangeList \<Rightarrow> bool" where
  "rl_dis rs = ((\<forall>r\<in>set rs. \<exists>F. rok F r) \<and> sorted_wrt (\<lambda>a b. ipv (rend a) < ipv (rstart b)) rs)"

text \<open>Canonical lists of one family: sorted with a gap between neighbours.\<close>

definition rl_ok :: "fam \<Rightarrow> IPRangeList \<Rightarrow> bool" where
  "rl_ok F rs = ((\<forall>r\<in>set rs. rok F r) \<and> sorted_wrt (\<lambda>a b. ipv (rend a) + 1 < ipv (rstart b)) rs)"

lemma rlset_simps [simp]:
  "rlset [] = {}" "rlset (r # rs) = rset r \<union> rlset rs" "rlset (xs @ ys) = rlset xs \<union> rlset ys"
  by (auto simp: rlset_def)

lemma rl_ok_Nil [simp]: "rl_ok F []"
  by (simp add: rl_ok_def)

lemma rl_ok_Cons:
  "rl_ok F (r # rs) \<longleftrightarrow> rok F r \<and> (\<forall>q\<in>set rs. ipv (rend r) + 1 < ipv (rstart q)) \<and> rl_ok F rs"
  by (auto simp: rl_ok_def)

lemma rl_ok_append:
  "rl_ok F (xs @ ys) \<longleftrightarrow>
     rl_ok F xs \<and> rl_ok F ys \<and> (\<forall>p\<in>set xs. \<forall>q\<in>set ys. ipv (rend p) + 1 < ipv (rstart q))"
  by (auto simp: rl_ok_def sorted_wrt_append)

lemma rl_dis_Nil [simp]: "rl_dis []"
  by (simp add: rl_dis_def)

lemma rl_dis_Cons:
  "rl_dis (r # rs) \<longleftrightarrow> (\<exists>F. rok F r) \<and> (\<forall>q\<in>set rs. ipv (rend r) < ipv (rstart q)) \<and> rl_dis rs"
  by (auto simp: rl_dis_def)

lemma rl_dis_append:
  "rl_dis (xs @ ys) \<longleftrightarrow>
     rl_dis xs \<and> rl_dis ys \<and> (\<forall>p\<in>set xs. \<forall>q\<in>set ys. ipv (rend p) < ipv (rstart q))"
  by (auto simp: rl_dis_def sorted_wrt_append)

lemma rl_ok_dis: "rl_ok F rs \<Longrightarrow> rl_dis rs"
  unfolding rl_ok_def rl_dis_def by (auto elim!: sorted_wrt_mono_rel [rotated])

lemma rl_ok_rok: "rl_ok F rs \<Longrightarrow> r \<in> set rs \<Longrightarrow> rok F r"
  by (simp add: rl_ok_def)

lemma rl_ok_ends: "rl_ok F rs \<Longrightarrow> r \<in> set rs \<Longrightarrow> ipv (rstart r) \<in> rlset rs \<and> ipv (rend r) \<in> rlset rs"
  by (fastforce simp: rlset_def rset_def rok_def rl_ok_def)

lemma rok_nonempty: "rok F r \<Longrightarrow> rset r \<noteq> {}"
  by (auto simp: rok_def rset_def)

lemma rlset_empty_iff: "rl_ok F rs \<Longrightarrow> rlset rs = {} \<longleftrightarrow> rs = []"
  using rok_nonempty by (cases rs) (auto simp: rl_ok_Cons)

lemma rlset_bounds: "rl_ok F rs \<Longrightarrow> x \<in> rlset rs \<Longrightarrow> ipmin F \<le> x \<and> x \<le> ipmax F"
  using rset_bounds by (fastforce simp: rlset_def rl_ok_def)

lemma finite_rlset [simp]: "finite (rlset rs)"
  by (simp add: rlset_def rset_def)

lemma rl_Clone_id [simp]: "rl_Clone r = r"
proof -
  have "map IPRange_Clone r = map id r" by (rule map_cong) simp_all
  then show ?thesis by (simp add: rl_Clone_def)
qed

lemma rok_valid: "rok F r \<Longrightarrow> ip_valid (rstart r) \<and> ip_valid (rend r)"
  by (auto simp: rok_def dest: ipok_valid)

section \<open>Searching\<close>

text \<open>Binary search over a comparison that is positive on a prefix of the indices.\<close>

lemma sort_find_loop_spec:
  assumes "\<forall>a b. a < b \<longrightarrow> b < n \<longrightarrow> cmp b > 0 \<longrightarrow> cmp a > 0"
    and "i \<le> j" "j \<le> n" "\<forall>k<i. cmp k > 0" "j < n \<longrightarrow> \<not> cmp j > 0"
  shows "sort_find_loop cmp i j \<le> n \<and> (\<forall>k < sort_find_loop cmp i j. cmp k > 0)
       \<and> (sort_find_loop cmp i j < n \<longrightarrow> \<not> cmp (sort_find_loop cmp i j) > 0)"
  using assms
proof (induction cmp i j rule: sort_find_loop.induct)
  case (1 cmp i j)
  let ?h = "(i + j) div 2"
  show ?case
  proof (cases "i < j")
    case False
    with "1.prems" show ?thesis by (subst (1 2 3 4) sort_find_loop.simps) auto
  next
    case True
    then have h: "i \<le> ?h" "?h < j" by auto
    show ?thesis
    proof (cases "cmp ?h > 0")
      case pos: True
      have "\<forall>k<?h + 1. cmp k > 0"
        using "1.prems"(1,3) h(2) pos by (metis Suc_eq_plus1 less_Suc_eq order_less_le_trans)
      with "1.IH"(1) [OF True refl pos] "1.prems" h
      have "sort_find_loop cmp (?h + 1) j \<le> n \<and> (\<forall>k < sort_find_loop cmp (?h + 1) j. cmp k > 0)
         \<and> (sort_find_loop cmp (?h + 1) j < n \<longrightarrow> \<not> cmp (sort_find_loop cmp (?h + 1) j) > 0)"
        by simp
      then show ?thesis using True pos by (simp add: sort_find_loop.simps [of cmp i j] Let_def)
    next
      case neg: False
      with "1.IH"(2) [OF True refl neg] "1.prems" h
      have "sort_find_loop cmp i ?h \<le> n \<and> (\<forall>k < sort_find_loop cmp i ?h. cmp k > 0)
         \<and> (sort_find_loop cmp i ?h < n \<longrightarrow> \<not> cmp (sort_find_loop cmp i ?h) > 0)"
        by simp
      then show ?thesis using True neg by (simp add: sort_find_loop.simps [of cmp i j] Let_def)
    qed
  qed
qed

text \<open>
  On a sorted list the search splits it at the address: the ranges before end below it,
  the ranges from the index on start above it, but for the one that holds it.
\<close>

lemma rl_dis_nth:
  assumes "rl_dis rs" "i < j" "j < length rs"
  shows "ipv (rend (rs ! i)) < ipv (rstart (rs ! j))"
  using assms unfolding rl_dis_def by (auto dest: sorted_wrt_nth_less)

lemma rl_dis_rok: "rl_dis rs \<Longrightarrow> i < length rs \<Longrightarrow> \<exists>F. rok F (rs ! i)"
  by (auto simp: rl_dis_def)

lemma rl_cmp_ipv:
  assumes "rl_dis rs" "ip_valid ip" "i < length rs"
  shows "rl_cmp rs ip i = (if ipv ip < ipv (rstart (rs ! i)) then -1
    else if ipv (rend (rs ! i)) < ipv ip then 1 else 0)"
proof -
  obtain F where "rok F (rs ! i)" using rl_dis_rok assms by blast
  then have "ip_valid (rstart (rs ! i))" "ip_valid (rend (rs ! i))"
    by (auto dest: rok_valid)
  then show ?thesis
    using assms by (simp add: rl_cmp_def IP_GreaterThan_ipv IP_LessThan_ipv)
qed

lemma rl_Find_spec:
  assumes rs: "rl_dis rs" and ip: "ip_valid ip" and f: "rl_Find rs ip = (n, found)"
  shows "n \<le> length rs" "\<forall>r\<in>set (take n rs). ipv (rend r) < ipv ip"
    "\<not> found \<Longrightarrow> \<forall>r\<in>set (drop n rs). ipv ip < ipv (rstart r)"
    "found \<Longrightarrow> n < length rs \<and> ipv ip \<in> rset (rs ! n)"
proof -
  note c = rl_cmp_ipv [OF rs ip]
  have mono: "\<forall>a b. a < b \<longrightarrow> b < length rs \<longrightarrow> rl_cmp rs ip b > 0 \<longrightarrow> rl_cmp rs ip a > 0"
  proof (intro allI impI)
    fix a b assume ab: "a < b" "b < length rs" "rl_cmp rs ip b > 0"
    obtain F where "rok F (rs ! a)" using rl_dis_rok [OF rs, of a] ab by auto
    obtain G where "rok G (rs ! b)" using rl_dis_rok [OF rs, of b] ab by auto
    with \<open>rok F (rs ! a)\<close> ab c [of a] c [of b] rl_dis_nth [OF rs ab(1,2)] show "rl_cmp rs ip a > 0"
      by (auto simp: rok_def split: if_splits)
  qed
  have s: "n \<le> length rs" "\<forall>k<n. rl_cmp rs ip k > 0" "n < length rs \<Longrightarrow> \<not> rl_cmp rs ip n > 0"
    and fnd: "found \<longleftrightarrow> n < length rs \<and> rl_cmp rs ip n = 0"
    using sort_find_loop_spec [OF mono, of 0 "length rs"] f
    by (auto simp: rl_Find_def sort_Find_def Let_def)
  show "n \<le> length rs" by (rule s)
  show "\<forall>r\<in>set (take n rs). ipv (rend r) < ipv ip"
    using s c by (auto simp: in_set_conv_nth split: if_splits) (metis (no_types, lifting) less_le_trans not_one_less_zero zero_less_one_class.zero_less_one)
  show "\<forall>r\<in>set (drop n rs). ipv ip < ipv (rstart r)" if nf: "\<not> found"
  proof
    fix r assume "r \<in> set (drop n rs)"
    then obtain k where "k < length rs - n" "r = rs ! (n + k)" by (auto simp: in_set_conv_nth)
    then have k: "n + k < length rs" "r = rs ! (n + k)" by auto
    then have n: "n < length rs" by simp
    then have lt: "ipv ip < ipv (rstart (rs ! n))"
      using s(3) [OF n] nf fnd c [OF n] by (auto split: if_splits)
    obtain F where "rok F (rs ! n)" using rl_dis_rok [OF rs n] by auto
    with lt k show "ipv ip < ipv (rstart r)"
      using rl_dis_nth [OF rs, of n "n + k"] by (cases "k = 0") (auto simp: rok_def)
  qed
  show "found \<Longrightarrow> n < length rs \<and> ipv ip \<in> rset (rs ! n)"
    using fnd c [of n] by (auto simp: rset_def split: if_splits)
qed


lemma rl_Contains_iff:
  assumes rs: "rl_dis rs" and ip: "ip_valid ip"
  shows "rl_Contains rs ip \<longleftrightarrow> ipv ip \<in> rlset rs"
proof -
  obtain n found where f: "rl_Find rs ip = (n, found)" by fastforce
  note s = rl_Find_spec [OF rs ip f]
  have "rlset rs = rlset (take n rs) \<union> rlset (drop n rs)"
    by (simp flip: rlset_simps)
  moreover have "ipv ip \<notin> rlset (take n rs)"
    using s(2) by (fastforce simp: rlset_def rset_def)
  moreover have "ipv ip \<notin> rlset (drop n rs)" if "\<not> found"
    using s(3) [OF that] by (fastforce simp: rlset_def rset_def)
  moreover have "ipv ip \<in> rlset rs" if "found"
    using s(4) [OF that] by (auto simp: rlset_def)
  ultimately show ?thesis using f by (auto simp: rl_Contains_def)
qed

section \<open>Separate\<close>

lemma sep_inner_suffix: "sep_inner s e xs = (out, rest) \<Longrightarrow> suffix rest xs"
  by (induction s e xs arbitrary: out rest rule: sep_inner.induct)
    (auto split: if_splits prod.splits simp: suffix_ConsI Let_def)

lemma suffix_dis: "suffix ys xs \<Longrightarrow> rl_dis xs \<Longrightarrow> rl_dis ys"
  by (auto simp: suffix_def rl_dis_append)

lemma fam_unique:
  "ipmin F \<le> v \<Longrightarrow> v \<le> ipmax F \<Longrightarrow> ipmin G \<le> v \<Longrightarrow> v \<le> ipmax G \<Longrightarrow> F = G"
  by (cases F; cases G) (auto simp: v4base_def)

text \<open>Ranges that meet are of one family.\<close>

lemma meet_fam:
  assumes "rok G x" "ipok F s" "ipok F e" "ipv s \<le> ipv e" "ipv s \<le> ipv (rend x)" "ipv (rstart x) \<le> ipv e"
  shows "F = G"
proof -
  let ?v = "max (ipv s) (ipv (rstart x))"
  have "ipmin F \<le> ?v" "?v \<le> ipmax F" "ipmin G \<le> ?v" "?v \<le> ipmax G"
    using assms ipok_bounds [of F s] ipok_bounds [of F e] ipok_bounds [of G "rstart x"] ipok_bounds [of G "rend x"]
    by (auto simp: rok_def)
  then show ?thesis by (rule fam_unique)
qed

text \<open>
  One range against a sorted list: what is appended is canonical, lies within the
  range and is the range without the list; what was skipped of the list lies below
  the end of the range.
\<close>

lemma sep_inner_spec:
  "rl_dis xs \<Longrightarrow> ipok F s \<Longrightarrow> ipok F e \<Longrightarrow> ipv s \<le> ipv e \<Longrightarrow> sep_inner s e xs = (out, rest) \<Longrightarrow>
     rl_ok F out \<and> rlset out = {ipv s..ipv e} - rlset xs \<and>
     (\<forall>y\<in>rlset xs - rlset rest. y \<le> ipv e)"
proof (induction s e xs arbitrary: out rest rule: sep_inner.induct)
  case (1 s e)
  then show ?case by (auto simp: rl_ok_Cons rok_def)
next
  case (2 s e x xs)
  from 2(3) obtain G where x: "rok G x" and lt: "\<forall>q\<in>set xs. ipv (rend x) < ipv (rstart q)" and xs: "rl_dis xs"
    by (auto simp: rl_dis_Cons)
  note s = 2(4) and e = 2(5) and se = 2(6) and eq = 2(7)
  note v = rok_valid [OF x] ipok_valid [OF s] ipok_valid [OF e]
  have c: "IP_LessThan (rend x) s \<longleftrightarrow> ipv (rend x) < ipv s" "IP_GreaterThan (rstart x) e \<longleftrightarrow> ipv e < ipv (rstart x)"
    "IP_LessThan (rend x) e \<longleftrightarrow> ipv (rend x) < ipv e" "IP_GreaterThan (rstart x) s \<longleftrightarrow> ipv s < ipv (rstart x)"
    "IP_LessThan s (rstart x) \<longleftrightarrow> ipv s < ipv (rstart x)"
    using v by (simp_all add: IP_LessThan_ipv IP_GreaterThan_ipv)
  have above: "y \<in> rlset xs \<Longrightarrow> ipv (rend x) < y" for y
    using lt by (fastforce simp: rlset_def rset_def)
  have xse: "ipv (rstart x) \<le> ipv (rend x)" using x by (simp add: rok_def)
  consider (skip) "ipv (rend x) < ipv s" | (over) "ipv s \<le> ipv (rend x)" "ipv e < ipv (rstart x)"
    | (stop) "ipv s \<le> ipv (rend x)" "ipv (rstart x) \<le> ipv e" "ipv e \<le> ipv (rend x)"
    | (cut) "ipv s \<le> ipv (rend x)" "ipv (rstart x) \<le> ipv e" "ipv (rend x) < ipv e"
    by linarith
  then show ?case
  proof cases
    case skip
    then have "sep_inner s e xs = (out, rest)" using eq c by simp
    with 2(1) skip c xs s e se have "rl_ok F out \<and> rlset out = {ipv s..ipv e} - rlset xs \<and> (\<forall>y\<in>rlset xs - rlset rest. y \<le> ipv e)"
      by simp
    with skip se show ?thesis by (auto simp: rset_def)
  next
    case over
    then have "out = [NewIPRange s e]" "rest = x # xs" using eq c by auto
    with over s e se xse show ?thesis by (auto simp: rl_ok_Cons rok_def rset_def dest!: above)
  next
    case stop
    have "F = G" using meet_fam [OF x s e se] stop by simp
    have out: "out = (if ipv s < ipv (rstart x) then [NewIPRange s (IP_Sub (rstart x) 1)] else [])" "rest = x # xs"
      using eq c stop by auto
    have "ipok F (IP_Sub (rstart x) 1) \<and> ipv (IP_Sub (rstart x) 1) = ipv (rstart x) - 1" if "ipv s < ipv (rstart x)"
      using that x s \<open>F = G\<close> by (intro af.prev_ok) (auto simp: rok_def)
    with stop out s above show ?thesis by (force simp: rl_ok_Cons rok_def rset_def)
  next
    case cut
    have "F = G" using meet_fam [OF x s e se] cut by simp
    obtain out' where rec: "sep_inner (IP_Add (rend x) 1) e xs = (out', rest)"
      and out: "out = (if ipv s < ipv (rstart x) then [NewIPRange s (IP_Sub (rstart x) 1)] else []) @ out'"
      using eq c cut by (auto split: prod.splits)
    have n: "ipok F (IP_Add (rend x) 1) \<and> ipv (IP_Add (rend x) 1) = ipv (rend x) + 1"
      using x e cut \<open>F = G\<close> by (intro af.next_ok) (auto simp: rok_def)
    have p: "ipok F (IP_Sub (rstart x) 1) \<and> ipv (IP_Sub (rstart x) 1) = ipv (rstart x) - 1" if "ipv s < ipv (rstart x)"
      using that x s \<open>F = G\<close> by (intro af.prev_ok) (auto simp: rok_def)
    have ih: "rl_ok F out' \<and> rlset out' = {ipv (rend x) + 1..ipv e} - rlset xs \<and> (\<forall>y\<in>rlset xs - rlset rest. y \<le> ipv e)"
      using 2(2) [OF _ _ _ xs] n e cut c rec by simp
    have st: "ipv (rend x) < ipv (rstart q)" if "q \<in> set out'" for q
      using that ih rl_ok_ends [of F out' q] by auto
    have "rl_ok F out"
    proof (cases "ipv s < ipv (rstart x)")
      case True
      with p ih s st xse show ?thesis unfolding out by (force simp: rl_ok_Cons rok_def)
    qed (use ih out in simp)
    moreover have "rlset out = {ipv s..ipv e} - rlset (x # xs)"
      using ih p out cut xse above by (cases "ipv s < ipv (rstart x)") (force simp: rset_def)+
    ultimately show ?thesis using ih cut by (auto simp: rset_def)
  qed
qed


text \<open>The outer loop: each range of the receiver meets the rest the ranges before left over.\<close>

lemma sep_loop_spec:
  "rl_ok F rs \<Longrightarrow> rl_dis xs \<Longrightarrow> rl_ok F (sep_loop rs xs) \<and> rlset (sep_loop rs xs) = rlset rs - rlset xs"
proof (induction rs xs rule: sep_loop.induct)
  case (1 xs)
  then show ?case by simp
next
  case (2 r rs xs)
  obtain out rest where eq: "sep_inner (rstart r) (rend r) xs = (out, rest)" by fastforce
  from 2(2) have r: "rok F r" and gap: "\<forall>q\<in>set rs. ipv (rend r) + 1 < ipv (rstart q)" and rs: "rl_ok F rs"
    by (auto simp: rl_ok_Cons)
  have o: "rl_ok F out" "rlset out = rset r - rlset xs" "\<forall>y\<in>rlset xs - rlset rest. y \<le> ipv (rend r)"
    using sep_inner_spec [OF 2(3) _ _ _ eq] r by (auto simp: rok_def rset_def)
  have suf: "suffix rest xs" by (rule sep_inner_suffix [OF eq])
  then have sub: "rlset rest \<subseteq> rlset xs" by (auto simp: suffix_def)
  have ih: "rl_ok F (sep_loop rs rest)" "rlset (sep_loop rs rest) = rlset rs - rlset rest"
    using 2(1) [OF eq [symmetric] refl] rs suffix_dis [OF suf 2(3)] by auto
  have hi: "\<forall>y\<in>rlset rs. ipv (rend r) + 1 < y"
    using gap by (fastforce simp: rlset_def rset_def)
  have "y \<notin> rlset xs" if "y \<in> rlset rs" "y \<notin> rlset rest" for y
  proof
    assume "y \<in> rlset xs"
    with o(3) that have "y \<le> ipv (rend r)" by blast
    moreover have "ipv (rend r) + 1 < y" using hi that by blast
    ultimately show False by simp
  qed
  then have "rlset rs - rlset rest = rlset rs - rlset xs" using sub by blast
  moreover have "ipv (rend p) + 1 < ipv (rstart q)" if "p \<in> set out" "q \<in> set (sep_loop rs rest)" for p q
  proof -
    have "ipv (rend p) \<in> rlset out" "ipv (rstart q) \<in> rlset (sep_loop rs rest)"
      using that rl_ok_ends [OF o(1)] rl_ok_ends [OF ih(1)] by auto
    then have "ipv (rend p) \<le> ipv (rend r)" "ipv (rstart q) \<in> rlset rs"
      using o(2) ih(2) by (auto simp: rset_def)
    with hi show ?thesis by fastforce
  qed
  ultimately show ?case
    using eq o ih by (auto simp: rl_ok_append)
qed

lemma rl_Separate_spec:
  assumes "rl_ok F r" "rl_dis x"
  shows "rl_ok F (rl_Separate r x)" "rlset (rl_Separate r x) = rlset r - rlset x"
  using sep_loop_spec [OF assms] assms
  by (auto simp: rl_Separate_def rl_Len_def NewEmptyIPRangeList_def)

section \<open>Merge and Intersect\<close>

lemma merge_loop_set: "rlset (merge_loop s x) = rlset s \<union> rlset x"
  by (induction s x rule: merge_loop.induct) auto

lemma merge_loop_mem: "r \<in> set (merge_loop s x) \<Longrightarrow> r \<in> set s \<or> r \<in> set x"
  by (induction s x rule: merge_loop.induct) (auto split: if_splits)

lemma merge_loop_dis:
  "rl_ok F s \<Longrightarrow> rl_ok F x \<Longrightarrow> rlset s \<inter> rlset x = {} \<Longrightarrow> rl_dis (merge_loop s x)"
proof (induction s x rule: merge_loop.induct)
  case (4 s ss x xs)
  have s: "rok F s" "rl_ok F ss" "\<forall>q\<in>set ss. ipv (rend s) + 1 < ipv (rstart q)"
    and x: "rok F x" "rl_ok F xs" "\<forall>q\<in>set xs. ipv (rend x) + 1 < ipv (rstart q)"
    using 4 by (auto simp: rl_ok_Cons)
  have lt: "IP_LessThan (rstart s) (rstart x) \<longleftrightarrow> ipv (rstart s) < ipv (rstart x)"
    using s x by (auto simp: rok_def ip_order [of F])
  have d: "rset s \<inter> rset x = {}" using 4 by auto
  show ?case
  proof (cases "ipv (rstart s) < ipv (rstart x)")
    case True
    then have "ipv (rend s) < ipv (rstart x)"
      using d s(1) x(1) by (force simp: rset_def rok_def)
    then have "\<forall>q\<in>set (merge_loop ss (x # xs)). ipv (rend s) < ipv (rstart q)"
      using s x by (fastforce dest!: merge_loop_mem simp: rok_def)
    with 4 True lt s x show ?thesis by (auto simp: rl_dis_Cons)
  next
    case False
    then have "ipv (rend x) < ipv (rstart s)"
      using d s(1) x(1) by (force simp: rset_def rok_def)
    then have "\<forall>q\<in>set (merge_loop (s # ss) xs). ipv (rend x) < ipv (rstart q)"
      using s x by (fastforce dest!: merge_loop_mem simp: rok_def)
    with 4 False lt s x show ?thesis by (auto simp: rl_dis_Cons)
  qed
qed (auto simp: rl_dis_Cons rl_ok_Cons dest!: merge_loop_mem)


text \<open>Joining neighbours keeps the set and leaves gaps.\<close>

lemma join_adjacent_spec:
  "rl_dis rs \<Longrightarrow> \<forall>r\<in>set rs. rok F r \<Longrightarrow>
     rl_ok F (join_adjacent rs) \<and> rlset (join_adjacent rs) = rlset rs \<and>
     (\<forall>q\<in>set (join_adjacent rs). rs \<noteq> [] \<longrightarrow> ipv (rstart (hd rs)) \<le> ipv (rstart q))"
proof (induction rs rule: join_adjacent.induct)
  case (1 a b rs)
  have a: "rok F a" and b: "rok F b" and ab: "ipv (rend a) < ipv (rstart b)"
    using 1 by (auto simp: rl_dis_Cons)
  have "IP_Equal (IP_Add (rend a) 1) (rstart b) \<longleftrightarrow> ipv (rstart b) = ipv (rend a) + 1"
    using a b ab ipok_bounds [of F "rend a"] by (intro add1_equal_iff [of F]) (auto simp: rok_def)
  moreover
  { assume adj: "ipv (rstart b) = ipv (rend a) + 1"
    let ?ab = "a\<lparr>rend := rend b\<rparr>"
    have "rl_dis (?ab # rs)" "\<forall>r\<in>set (?ab # rs). rok F r"
      using 1(3,4) a b ab by (auto simp: rl_dis_Cons rok_def)
    moreover have "rset ?ab = rset a \<union> rset b"
      using adj a b by (auto simp: rset_def rok_def)
    ultimately have ?case
      using 1(1) adj \<open>_ \<longleftrightarrow> _\<close> by (auto simp: Un_assoc) }
  moreover
  { assume nadj: "ipv (rstart b) \<noteq> ipv (rend a) + 1"
    have ih: "rl_ok F (join_adjacent (b # rs))" "rlset (join_adjacent (b # rs)) = rlset (b # rs)"
       "\<forall>q\<in>set (join_adjacent (b # rs)). ipv (rstart b) \<le> ipv (rstart q)"
      using 1(2) 1(3,4) nadj \<open>_ \<longleftrightarrow> _\<close> by (auto simp: rl_dis_Cons)
    have "\<forall>q\<in>set (join_adjacent (b # rs)). ipv (rend a) + 1 < ipv (rstart q)"
      using ih(3) ab nadj by fastforce
    then have ?case
      using ih nadj a ab \<open>_ \<longleftrightarrow> _\<close> by (fastforce simp: rl_ok_Cons rok_def) }
  ultimately show ?case by blast
qed (auto simp: rl_ok_Cons)

lemma rl_Merge_spec:
  assumes "rl_ok F r" "rl_ok F x"
  shows "rl_ok F (rl_Merge r x)" "rlset (rl_Merge r x) = rlset r \<union> rlset x"
proof -
  note s = rl_Separate_spec [OF assms(1) rl_ok_dis [OF assms(2)]]
  have d: "rl_dis (merge_loop (rl_Separate r x) x)"
    using s assms by (intro merge_loop_dis [of F]) auto
  have k: "\<forall>q\<in>set (merge_loop (rl_Separate r x) x). rok F q"
    using s assms by (auto dest!: merge_loop_mem intro: rl_ok_rok)
  from join_adjacent_spec [OF d k] s
  show "rl_ok F (rl_Merge r x)" "rlset (rl_Merge r x) = rlset r \<union> rlset x"
    by (auto simp: rl_Merge_def merge_loop_set)
qed

lemma rl_Intersect_spec:
  assumes "rl_ok F r" "rl_ok F x"
  shows "rl_ok F (rl_Intersect r x)" "rlset (rl_Intersect r x) = rlset r \<inter> rlset x"
proof -
  note m = rl_Merge_spec [OF assms]
    and s1 = rl_Separate_spec [OF assms(1) rl_ok_dis [OF assms(2)]]
    and s2 = rl_Separate_spec [OF assms(2) rl_ok_dis [OF assms(1)]]
  note t1 = rl_Separate_spec [OF m(1) rl_ok_dis [OF s1(1)]]
  note t2 = rl_Separate_spec [OF t1(1) rl_ok_dis [OF s2(1)]]
  show "rl_ok F (rl_Intersect r x)" using t2(1) by (simp add: rl_Intersect_def Let_def)
  show "rlset (rl_Intersect r x) = rlset r \<inter> rlset x"
    using t2(2) t1(2) m(2) s1(2) s2(2) by (auto simp: rl_Intersect_def Let_def)
qed


section \<open>Add\<close>

lemma IP_Equal_ok: "ipok F a \<Longrightarrow> ipok G b \<Longrightarrow> IP_Equal a b \<longleftrightarrow> ipv a = ipv b"
  by (rule IP_Equal_ipv) (rule ipok_valid, assumption)+

lemma add1_equal_any:
  assumes x: "ipok G x" and y: "ipok H y" and lt: "ipv x < ipv y" and g: "G = H \<or> ipv x < ipmax G"
  shows "IP_Equal (IP_Add x 1) y \<longleftrightarrow> ipv y = ipv x + 1"
proof -
  have "ipv x < ipmax G"
    using g lt y ipok_bounds [of H y] by auto
  then have "ipok G (IP_Add x 1) \<and> ipv (IP_Add x 1) = ipv x + 1" using x by (intro af.add1) auto
  then show ?thesis using IP_Equal_ok [of G "IP_Add x 1" H y] y by auto
qed

lemma sub1_equal_any:
  assumes x: "ipok G x" and y: "ipok H y" and lt: "ipv x < ipv y" and g: "G = H \<or> ipmin H < ipv y"
  shows "IP_Equal (IP_Sub y 1) x \<longleftrightarrow> ipv y = ipv x + 1"
proof -
  have "ipmin H < ipv y"
    using g lt x ipok_bounds [of G x] by auto
  then have "ipok H (IP_Sub y 1) \<and> ipv (IP_Sub y 1) = ipv y - 1" using y by (intro af.sub1) auto
  then show ?thesis using IP_Equal_ok [of H "IP_Sub y 1" G x] x lt by auto
qed

text \<open>
  The cases in which stepping over an end cannot be mistaken for a neighbour: one
  family and not both ends of its space, or no end of the space at all.
\<close>

definition add_safe :: "IPRangeList \<Rightarrow> IP \<Rightarrow> bool" where
  "add_safe rs ip = (\<exists>G. ipok G ip \<and>
     ((\<forall>r\<in>set rs. rok G r \<and> no_wrap G r ip) \<or>
      inner G ip \<and> (\<forall>r\<in>set rs. \<exists>H. rok H r \<and> ipmin H < ipv (rstart r) \<and> ipv (rend r) < ipmax H)))"

lemma add_safe_valid: "add_safe rs ip \<Longrightarrow> ip_valid ip"
  by (auto simp: add_safe_def dest: ipok_valid)

lemma IPRange_Add_other:
  assumes r: "rok H r" "ipmin H < ipv (rstart r)" "ipv (rend r) < ipmax H" and ip: "ipok G ip" "inner G ip" and d: "G \<noteq> H"
  shows "IPRange_Add r ip = (r, False) \<and> ipv (rstart r) \<noteq> ipv ip + 1 \<and> ipv ip \<noteq> ipv (rend r) + 1"
proof -
  have s: "ipok H (IP_Sub (rstart r) 1) \<and> ipv (IP_Sub (rstart r) 1) = ipv (rstart r) - 1"
    using r by (intro af.sub1) (auto simp: rok_def)
  have e: "ipok H (IP_Add (rend r) 1) \<and> ipv (IP_Add (rend r) 1) = ipv (rend r) + 1"
    using r by (intro af.add1) (auto simp: rok_def)
  have ne: "ipv a \<noteq> ipv ip" if "ipok H a" for a
    using that ip d fam_unique [of G "ipv ip" H] ipok_bounds [of H a] ipok_bounds [of G ip] by auto
  have "\<not> IP_Equal (IP_Sub (rstart r) 1) ip" "\<not> IP_Equal (IP_Add (rend r) 1) ip"
    using s e ne ip by (auto simp: IP_Equal_ipv ipok_valid)
  then show ?thesis
    using s e ne [of "IP_Sub (rstart r) 1"] ne [of "IP_Add (rend r) 1"] r(2)
    by (auto simp: IPRange_Add_def Let_def)
qed

lemma add_safe_range:
  assumes s: "add_safe rs ip" and r: "r \<in> set rs"
  shows "IPRange_Add r ip =
    (if ipv (rstart r) = ipv ip + 1 then (r\<lparr>rstart := ip\<rparr>, True)
     else if ipv ip = ipv (rend r) + 1 then (r\<lparr>rend := ip\<rparr>, True)
     else (r, False))"
proof -
  from s obtain G where ip: "ipok G ip" and c: "(\<forall>r\<in>set rs. rok G r \<and> no_wrap G r ip) \<or>
      inner G ip \<and> (\<forall>r\<in>set rs. \<exists>H. rok H r \<and> ipmin H < ipv (rstart r) \<and> ipv (rend r) < ipmax H)"
    by (auto simp: add_safe_def)
  from c consider "rok G r" "no_wrap G r ip"
    | H where "inner G ip" "rok H r" "ipmin H < ipv (rstart r)" "ipv (rend r) < ipmax H"
    using r by blast
  then show ?thesis
  proof cases
    case 1
    then show ?thesis using ip by (intro IPRange_Add_eq)
  next
    case (2 H)
    show ?thesis
    proof (cases "G = H")
      case True
      with 2 have "no_wrap G r ip" by (auto simp: no_wrap_def inner_def)
      with 2 ip True show ?thesis by (intro IPRange_Add_eq) auto
    next
      case False
      with IPRange_Add_other [OF 2(2-4) ip 2(1)] show ?thesis by simp
    qed
  qed
qed

lemma add_safe_join:
  assumes s: "add_safe rs ip" and a: "a \<in> set rs" and b: "b \<in> set rs"
  shows "ipv ip < ipv (rstart b) \<Longrightarrow> IP_Equal (IP_Add ip 1) (rstart b) \<longleftrightarrow> ipv (rstart b) = ipv ip + 1"
    and "ipv (rend a) < ipv ip \<Longrightarrow> IP_Equal (IP_Add (rend a) 1) ip \<longleftrightarrow> ipv ip = ipv (rend a) + 1"
proof -
  from s obtain G where ip: "ipok G ip" and c: "(\<forall>r\<in>set rs. rok G r \<and> no_wrap G r ip) \<or>
      inner G ip \<and> (\<forall>r\<in>set rs. \<exists>H. rok H r \<and> ipmin H < ipv (rstart r) \<and> ipv (rend r) < ipmax H)"
    by (auto simp: add_safe_def)
  from c b obtain H where H: "ipok H (rstart b)" "G = H \<or> ipv ip < ipmax G"
    unfolding rok_def inner_def by blast
  then show "ipv ip < ipv (rstart b) \<Longrightarrow> IP_Equal (IP_Add ip 1) (rstart b) \<longleftrightarrow> ipv (rstart b) = ipv ip + 1"
    using ip by (intro add1_equal_any)
  from c a obtain K where K: "ipok K (rend a)" "K = G \<or> ipv (rend a) < ipmax K"
    unfolding rok_def by blast
  then show "ipv (rend a) < ipv ip \<Longrightarrow> IP_Equal (IP_Add (rend a) 1) ip \<longleftrightarrow> ipv ip = ipv (rend a) + 1"
    using ip by (intro add1_equal_any)
qed

text \<open>What \<open>Add\<close> makes of the ranges below and above a new address.\<close>

definition glue :: "IPRangeList \<Rightarrow> IP \<Rightarrow> IPRangeList \<Rightarrow> IPRangeList" where
  "glue L ip R =
    (let l = (L \<noteq> [] \<and> ipv ip = ipv (rend (last L)) + 1);
         r = (R \<noteq> [] \<and> ipv (rstart (hd R)) = ipv ip + 1)
     in if l \<and> r then butlast L @ (last L)\<lparr>rend := rend (hd R)\<rparr> # tl R
        else if l then butlast L @ (last L)\<lparr>rend := ip\<rparr> # R
        else if r then L @ (hd R)\<lparr>rstart := ip\<rparr> # tl R
        else L @ NewIPRange ip ip # R)"

lemma rl_Add_glue:
  assumes s: "add_safe rs ip" and f: "rl_Find rs ip = (n, False)" and n: "n \<le> length rs"
    and L: "\<forall>r\<in>set (take n rs). ipv (rend r) < ipv ip" and R: "\<forall>r\<in>set (drop n rs). ipv ip < ipv (rstart r)"
    and k: "\<forall>r\<in>set rs. ipv (rstart r) \<le> ipv (rend r)"
  shows "rl_Add rs ip = (glue (take n rs) ip (drop n rs), True)"
proof -
  note add = add_safe_range [OF s]
  note adj = add_safe_join [OF s]
  show ?thesis
  proof (cases "take n rs" rule: rev_cases)
    case Nil
    then have n0: "n = 0 \<or> rs = []" by simp
    show ?thesis
    proof (cases rs)
      case Nil
      with f n show ?thesis by (simp add: rl_Add_def glue_def)
    next
      case (Cons b bs)
      with n0 R k have "n = 0" and b: "ipv ip < ipv (rstart b)" "ipv (rstart b) \<le> ipv (rend b)" by auto
      have ab: "IPRange_Add b ip = (if ipv (rstart b) = ipv ip + 1 then (b\<lparr>rstart := ip\<rparr>, True) else (b, False))"
        using add [of b] Cons b by simp
      show ?thesis
        unfolding rl_Add_def f using \<open>n = 0\<close> Cons ab by (simp add: glue_def add_at_def)
    qed
  next
    case (snoc L a)
    then have na: "n = Suc (length L)" using n by (metis length_append_singleton length_take min.absorb2)
    have rsL: "rs = L @ a # drop n rs" using snoc append_take_drop_id [of n rs] by (metis append.assoc append_Cons append_Nil)
    have a: "ipv (rend a) < ipv ip" "ipv (rstart a) \<le> ipv (rend a)" and am: "a \<in> set rs"
      using L snoc k in_set_takeD [of a n rs] by auto
    have aa: "IPRange_Add a ip = (if ipv ip = ipv (rend a) + 1 then (a\<lparr>rend := ip\<rparr>, True) else (a, False))"
      using add [OF am] a by simp
    show ?thesis
    proof (cases "drop n rs")
      case Nil
      then have rs': "rs = L @ [a]" using rsL by simp
      show ?thesis
        unfolding rl_Add_def f using na aa by (simp add: rs' glue_def add_at_def)
    next
      case (Cons b bs)
      then have rs': "rs = L @ a # b # bs" using rsL by simp
      have bm: "b \<in> set rs" using rs' by simp
      have b: "ipv ip < ipv (rstart b)" "ipv (rstart b) \<le> ipv (rend b)" using R Cons k bm by auto
      have ab: "IPRange_Add b ip = (if ipv (rstart b) = ipv ip + 1 then (b\<lparr>rstart := ip\<rparr>, True) else (b, False))"
        using add [OF bm] b by simp
      note j = adj(1) [OF am bm b(1)] adj(2) [OF am bm a(1)]
      have ts: "take n rs = L @ [a]" "drop n rs = b # bs" by (simp_all add: snoc Cons)
      show ?thesis
        unfolding rl_Add_def f ts glue_def
        by (simp add: rs' na aa ab j add_at_def nth_append list_update_append Let_def IPRange_SetEnd_def)
    qed
  qed
qed


lemma glue_set:
  assumes "\<forall>r\<in>set (L @ R). ipv (rstart r) \<le> ipv (rend r)"
    "\<forall>r\<in>set L. ipv (rend r) < ipv ip" "\<forall>r\<in>set R. ipv ip < ipv (rstart r)"
  shows "rlset (glue L ip R) = insert (ipv ip) (rlset (L @ R))"
proof -
  have A: "rset (a\<lparr>rend := ip\<rparr>) = insert (ipv ip) (rset a)"
    if "ipv ip = ipv (rend a) + 1" "ipv (rstart a) \<le> ipv (rend a)" for a
    using that by (auto simp: rset_def)
  have B: "rset (b\<lparr>rstart := ip\<rparr>) = insert (ipv ip) (rset b)"
    if "ipv (rstart b) = ipv ip + 1" "ipv (rstart b) \<le> ipv (rend b)" for b
    using that by (auto simp: rset_def)
  have AB: "rset (a\<lparr>rend := rend b\<rparr>) = insert (ipv ip) (rset a \<union> rset b)"
    if "ipv ip = ipv (rend a) + 1" "ipv (rstart b) = ipv ip + 1" "ipv (rstart a) \<le> ipv (rend a)" "ipv (rstart b) \<le> ipv (rend b)" for a b
    using that by (auto simp: rset_def)
  show ?thesis
    using assms A B AB
    by (cases L rule: rev_cases; cases R) (auto simp: glue_def Let_def)
qed

lemma glue_ok:
  assumes "rl_ok F (L @ R)" "ipok F ip" "\<forall>r\<in>set L. ipv (rend r) < ipv ip" "\<forall>r\<in>set R. ipv ip < ipv (rstart r)"
  shows "rl_ok F (glue L ip R)"
  using assms
  by (cases L rule: rev_cases; cases R)
    (force simp: glue_def Let_def rl_ok_append rl_ok_Cons rok_def)+

text \<open>Lists that may mix the families, without the ends of the address spaces.\<close>

definition rin :: "IPRange \<Rightarrow> bool" where
  "rin r = (\<exists>H. rok H r \<and> ipmin H < ipv (rstart r) \<and> ipv (rend r) < ipmax H)"

definition rl_mix :: "IPRangeList \<Rightarrow> bool" where
  "rl_mix rs = (rl_dis rs \<and> (\<forall>r\<in>set rs. rin r))"

lemma rin_extend:
  assumes ip: "ipok G ip" "inner G ip"
  shows "rin a \<Longrightarrow> ipv ip = ipv (rend a) + 1 \<Longrightarrow> rin (a\<lparr>rend := ip\<rparr>)"
    and "rin b \<Longrightarrow> ipv (rstart b) = ipv ip + 1 \<Longrightarrow> rin (b\<lparr>rstart := ip\<rparr>)"
    and "rin a \<Longrightarrow> rin b \<Longrightarrow> ipv ip = ipv (rend a) + 1 \<Longrightarrow> ipv (rstart b) = ipv ip + 1 \<Longrightarrow> rin (a\<lparr>rend := rend b\<rparr>)"
    and "rin (NewIPRange ip ip)"
proof -
  have fa: "rok G a \<and> ipmin G < ipv (rstart a) \<and> ipv (rend a) < ipmax G" if "rin a" "ipv ip = ipv (rend a) + 1"
  proof -
    obtain H where H: "rok H a" "ipmin H < ipv (rstart a)" "ipv (rend a) < ipmax H" using \<open>rin a\<close> by (auto simp: rin_def)
    then have "H = G" using that ip by (intro fam_unique [of H "ipv ip" G]) (auto simp: rok_def inner_def)
    with H show ?thesis by simp
  qed
  have fb: "rok G b \<and> ipmin G < ipv (rstart b) \<and> ipv (rend b) < ipmax G" if "rin b" "ipv (rstart b) = ipv ip + 1"
  proof -
    obtain H where H: "rok H b" "ipmin H < ipv (rstart b)" "ipv (rend b) < ipmax H" using \<open>rin b\<close> by (auto simp: rin_def)
    then have "H = G" using that ip by (intro fam_unique [of H "ipv ip" G]) (auto simp: rok_def inner_def)
    with H show ?thesis by simp
  qed
  show "rin a \<Longrightarrow> ipv ip = ipv (rend a) + 1 \<Longrightarrow> rin (a\<lparr>rend := ip\<rparr>)"
    using fa ip unfolding rin_def by (intro exI [of _ G]) (auto simp: rok_def inner_def)
  show "rin b \<Longrightarrow> ipv (rstart b) = ipv ip + 1 \<Longrightarrow> rin (b\<lparr>rstart := ip\<rparr>)"
    using fb ip unfolding rin_def by (intro exI [of _ G]) (auto simp: rok_def inner_def)
  show "rin a \<Longrightarrow> rin b \<Longrightarrow> ipv ip = ipv (rend a) + 1 \<Longrightarrow> ipv (rstart b) = ipv ip + 1 \<Longrightarrow> rin (a\<lparr>rend := rend b\<rparr>)"
    using fa fb unfolding rin_def by (intro exI [of _ G]) (auto simp: rok_def)
  show "rin (NewIPRange ip ip)"
    using ip unfolding rin_def by (intro exI [of _ G]) (auto simp: rok_def inner_def)
qed

lemma rin_rok: "rin r \<Longrightarrow> \<exists>F. rok F r"
  by (auto simp: rin_def)

lemma glue_sorted:
  assumes "sorted_wrt (\<lambda>a b. ipv (rend a) < ipv (rstart b)) (L @ R)"
    "\<forall>r\<in>set (L @ R). ipv (rstart r) \<le> ipv (rend r)"
    "\<forall>r\<in>set L. ipv (rend r) < ipv ip" "\<forall>r\<in>set R. ipv ip < ipv (rstart r)"
  shows "sorted_wrt (\<lambda>a b. ipv (rend a) < ipv (rstart b)) (glue L ip R)"
  using assms
  by (cases L rule: rev_cases; cases R) (force simp: glue_def Let_def sorted_wrt_append)+

lemma glue_mix:
  assumes m: "rl_mix (L @ R)" and ip: "ipok G ip" "inner G ip"
    and L: "\<forall>r\<in>set L. ipv (rend r) < ipv ip" and R: "\<forall>r\<in>set R. ipv ip < ipv (rstart r)"
  shows "rl_mix (glue L ip R)"
proof -
  have r: "\<forall>r\<in>set (L @ R). rin r" using m by (simp add: rl_mix_def)
  then have "\<forall>r\<in>set (glue L ip R). rin r"
    using rin_extend [OF ip] by (cases L rule: rev_cases; cases R) (auto simp: glue_def Let_def)
  moreover have "sorted_wrt (\<lambda>a b. ipv (rend a) < ipv (rstart b)) (glue L ip R)"
    using m L R by (intro glue_sorted) (auto simp: rl_mix_def rl_dis_def rok_def)
  ultimately show ?thesis by (auto simp: rl_mix_def rl_dis_def dest: rin_rok)
qed

text \<open>\<open>Add\<close> inserts the address into the set, reports whether it was new, and keeps the form.\<close>

lemma rl_Add_found:
  assumes "rl_dis rs" "ip_valid ip" "ipv ip \<in> rlset rs"
  shows "rl_Add rs ip = (rs, False)"
proof -
  obtain n found where f: "rl_Find rs ip = (n, found)" by fastforce
  then have found using rl_Contains_iff [OF assms(1,2)] assms(3) by (simp add: rl_Contains_def)
  with f show ?thesis by (simp add: rl_Add_def)
qed

lemma rl_Add_new:
  assumes rs: "rl_dis rs" and s: "add_safe rs ip" and new: "ipv ip \<notin> rlset rs"
  obtains L R where "rs = L @ R" "rl_Add rs ip = (glue L ip R, True)"
    "\<forall>r\<in>set L. ipv (rend r) < ipv ip" "\<forall>r\<in>set R. ipv ip < ipv (rstart r)"
proof -
  have v: "ip_valid ip" using s by (rule add_safe_valid)
  obtain n found where f: "rl_Find rs ip = (n, found)" by fastforce
  then have nf: "\<not> found" using rl_Contains_iff [OF rs v] new by (simp add: rl_Contains_def)
  note sp = rl_Find_spec [OF rs v f]
  have k: "\<forall>r\<in>set rs. ipv (rstart r) \<le> ipv (rend r)" using rs by (auto simp: rl_dis_def rok_def)
  have "rl_Add rs ip = (glue (take n rs) ip (drop n rs), True)"
    using f nf by (intro rl_Add_glue [OF s _ sp(1,2) sp(3) [OF nf] k]) simp
  then show ?thesis
    using that [of "take n rs" "drop n rs"] sp(2) sp(3) [OF nf] by simp
qed

lemma rl_Add_set:
  assumes rs: "rl_dis rs" and s: "add_safe rs ip"
  shows "rlset (fst (rl_Add rs ip)) = insert (ipv ip) (rlset rs)" "snd (rl_Add rs ip) \<longleftrightarrow> ipv ip \<notin> rlset rs"
proof -
  have k: "\<forall>r\<in>set rs. ipv (rstart r) \<le> ipv (rend r)" using rs by (auto simp: rl_dis_def rok_def)
  have v: "ip_valid ip" using s by (rule add_safe_valid)
  have "rlset (fst (rl_Add rs ip)) = insert (ipv ip) (rlset rs) \<and> (snd (rl_Add rs ip) \<longleftrightarrow> ipv ip \<notin> rlset rs)"
  proof (cases "ipv ip \<in> rlset rs")
    case True
    then show ?thesis using rl_Add_found [OF rs v] by auto
  next
    case False
    obtain L R where LR: "rs = L @ R" "rl_Add rs ip = (glue L ip R, True)"
      "\<forall>r\<in>set L. ipv (rend r) < ipv ip" "\<forall>r\<in>set R. ipv ip < ipv (rstart r)"
      by (rule rl_Add_new [OF rs s False])
    with False k glue_set [of L R ip] show ?thesis by simp
  qed
  then show "rlset (fst (rl_Add rs ip)) = insert (ipv ip) (rlset rs)" "snd (rl_Add rs ip) \<longleftrightarrow> ipv ip \<notin> rlset rs"
    by blast+
qed

lemma rl_Add_ok:
  assumes rs: "rl_ok F rs" and s: "add_safe rs ip" and ip: "ipok F ip"
  shows "rl_ok F (fst (rl_Add rs ip))"
proof (cases "ipv ip \<in> rlset rs")
  case True
  then show ?thesis using rl_Add_found [OF rl_ok_dis [OF rs]] rs ipok_valid [OF ip] by simp
next
  case False
  obtain L R where LR: "rs = L @ R" "rl_Add rs ip = (glue L ip R, True)"
    "\<forall>r\<in>set L. ipv (rend r) < ipv ip" "\<forall>r\<in>set R. ipv ip < ipv (rstart r)"
    by (rule rl_Add_new [OF rl_ok_dis [OF rs] s False])
  with rs ip show ?thesis by (simp add: glue_ok)
qed

lemma rl_Add_mix:
  assumes rs: "rl_mix rs" and ip: "ipok G ip" "inner G ip"
  shows "rl_mix (fst (rl_Add rs ip))" "rlset (fst (rl_Add rs ip)) = insert (ipv ip) (rlset rs)"
proof -
  have d: "rl_dis rs" using rs by (simp add: rl_mix_def)
  have s: "add_safe rs ip" using rs ip by (auto simp: add_safe_def rl_mix_def rin_def)
  show "rlset (fst (rl_Add rs ip)) = insert (ipv ip) (rlset rs)" by (rule rl_Add_set [OF d s])
  show "rl_mix (fst (rl_Add rs ip))"
  proof (cases "ipv ip \<in> rlset rs")
    case True
    then show ?thesis using rl_Add_found [OF d ipok_valid [OF ip(1)]] rs by simp
  next
    case False
    obtain L R where LR: "rs = L @ R" "rl_Add rs ip = (glue L ip R, True)"
      "\<forall>r\<in>set L. ipv (rend r) < ipv ip" "\<forall>r\<in>set R. ipv ip < ipv (rstart r)"
      by (rule rl_Add_new [OF d s False])
    with rs ip show ?thesis by (simp add: glue_mix)
  qed
qed


section \<open>Remove\<close>

lemma rl_split_at:
  "n < length rs \<Longrightarrow> rs = take n rs @ rs ! n # drop (Suc n) rs"
  by (rule id_take_nth_drop)

lemma rl_Remove_absent:
  assumes "rl_dis rs" "ip_valid ip" "ipv ip \<notin> rlset rs"
  shows "rl_Remove rs ip = (rs, False)"
proof -
  obtain n found where f: "rl_Find rs ip = (n, found)" by fastforce
  then have "\<not> found" using rl_Contains_iff [OF assms(1,2)] assms(3) by (simp add: rl_Contains_def)
  with f show ?thesis by (simp add: rl_Remove_def)
qed

lemma rl_Remove_present:
  assumes rs: "rl_ok F rs" and ip: "ipok F ip" and i: "inner F ip" and m: "ipv ip \<in> rlset rs"
  obtains L r R where "rs = L @ r # R" "ipv ip \<in> rset r"
    "rl_Remove rs ip = (L @ fst (IPRange_Remove r ip) @ R, True)"
proof -
  have d: "rl_dis rs" and v: "ip_valid ip" using rs ip by (auto intro: rl_ok_dis ipok_valid)
  obtain n found where f: "rl_Find rs ip = (n, found)" by fastforce
  then have fd: found using rl_Contains_iff [OF d v] m by (simp add: rl_Contains_def)
  note sp = rl_Find_spec(4) [OF d v f fd]
  then have n: "n < length rs" and c: "ipv ip \<in> rset (rs ! n)" by auto
  have r: "rok F (rs ! n)" using rs n by (auto simp: rl_ok_def)
  have u: "rs[n := x] = take n rs @ [x] @ drop (Suc n) rs" for x
    using n by (simp add: upd_conv_take_nth_drop)
  have "rl_Remove rs ip = (take n rs @ fst (IPRange_Remove (rs ! n) ip) @ drop (Suc n) rs, True)"
    using fd u by (simp add: rl_Remove_def f IPRange_Remove_eq [OF r ip i c])
  then show ?thesis
    using that [of "take n rs" "rs ! n" "drop (Suc n) rs"] c n by (simp add: id_take_nth_drop)
qed

lemma IPRange_Remove_set:
  assumes "rok F r" "ipok F ip" "inner F ip" "ipv ip \<in> rset r"
  shows "rlset (fst (IPRange_Remove r ip)) = rset r - {ipv ip}" "rl_ok F (fst (IPRange_Remove r ip))"
proof -
  have "ipok F (IP_Sub ip 1)" "ipv (IP_Sub ip 1) = ipv ip - 1" "0 < ipv ip"
       "ipok F (IP_Add ip 1)" "ipv (IP_Add ip 1) = ipv ip + 1"
    using af.sub1 [of F ip] af.add1 [of F ip] assms by (auto simp: inner_def)
  then show "rlset (fst (IPRange_Remove r ip)) = rset r - {ipv ip}" "rl_ok F (fst (IPRange_Remove r ip))"
    using assms(1,4) unfolding IPRange_Remove_eq [OF assms]
    by (auto simp: rset_def rl_ok_Cons rok_def)
qed

text \<open>\<open>Remove\<close> takes the address out of the set, reports whether it was there, and keeps the form.\<close>

lemma rl_Remove_spec:
  assumes rs: "rl_ok F rs" and ip: "ipok F ip" and i: "inner F ip"
  shows "rl_ok F (fst (rl_Remove rs ip))" "rlset (fst (rl_Remove rs ip)) = rlset rs - {ipv ip}"
    "snd (rl_Remove rs ip) \<longleftrightarrow> ipv ip \<in> rlset rs"
proof -
  have "rl_ok F (fst (rl_Remove rs ip)) \<and> rlset (fst (rl_Remove rs ip)) = rlset rs - {ipv ip} \<and>
    (snd (rl_Remove rs ip) \<longleftrightarrow> ipv ip \<in> rlset rs)"
  proof (cases "ipv ip \<in> rlset rs")
    case False
    then show ?thesis using rl_Remove_absent [OF rl_ok_dis [OF rs] ipok_valid [OF ip]] rs by simp
  next
    case True
    obtain L r R where eq: "rs = L @ r # R" and c: "ipv ip \<in> rset r"
      and rem: "rl_Remove rs ip = (L @ fst (IPRange_Remove r ip) @ R, True)"
      by (rule rl_Remove_present [OF rs ip i True])
    have r: "rok F r" "rl_ok F L" "rl_ok F R" "\<forall>p\<in>set L. ipv (rend p) + 1 < ipv (rstart r)"
      "\<forall>q\<in>set R. ipv (rend r) + 1 < ipv (rstart q)" "\<forall>p\<in>set L. \<forall>q\<in>set R. ipv (rend p) + 1 < ipv (rstart q)"
      using rs eq by (auto simp: rl_ok_append rl_ok_Cons)
    note s = IPRange_Remove_set [OF r(1) ip i c]
    have b: "ipv (rstart r) \<le> ipv (rstart q) \<and> ipv (rend q) \<le> ipv (rend r)" if "q \<in> set (fst (IPRange_Remove r ip))" for q
      using rl_ok_ends [OF s(2) that] s(1) by (auto simp: rset_def)
    have "rl_ok F (L @ fst (IPRange_Remove r ip) @ R)"
      using r s(2) b by (fastforce simp: rl_ok_append)
    moreover have "rlset L \<inter> rset r = {}" "rlset R \<inter> rset r = {}"
      using r by (fastforce simp: rlset_def rset_def rok_def)+
    ultimately show ?thesis using rem s(1) eq c by auto
  qed
  then show "rl_ok F (fst (rl_Remove rs ip))" "rlset (fst (rl_Remove rs ip)) = rlset rs - {ipv ip}"
    "snd (rl_Remove rs ip) \<longleftrightarrow> ipv ip \<in> rlset rs" by blast+
qed

section \<open>Equality, size, allocation\<close>

lemma rok_eqI:
  "rok F x \<Longrightarrow> rok F y \<Longrightarrow> ipv (rstart x) = ipv (rstart y) \<Longrightarrow> ipv (rend x) = ipv (rend y) \<Longrightarrow> x = y"
  using ipok_inj [of F] by (cases x; cases y) (auto simp: rok_def)

text \<open>A canonical list is determined by its set: the form is unique.\<close>

lemma rl_ok_unique: "rl_ok F xs \<Longrightarrow> rl_ok F ys \<Longrightarrow> rlset xs = rlset ys \<Longrightarrow> xs = ys"
proof (induction xs arbitrary: ys)
  case Nil
  then show ?case using rlset_empty_iff [of F ys] by simp
next
  case (Cons x xs)
  then have "ys \<noteq> []" using rlset_empty_iff [of F "x # xs"] by auto
  then obtain y ys' where ys: "ys = y # ys'" by (cases ys) auto
  have x: "rok F x" "rl_ok F xs" "\<forall>z\<in>rlset xs. ipv (rend x) + 1 < z"
    using Cons.prems by (force simp: rl_ok_Cons rlset_def rset_def)+
  have y: "rok F y" "rl_ok F ys'" "\<forall>z\<in>rlset ys'. ipv (rend y) + 1 < z"
    using Cons.prems ys by (force simp: rl_ok_Cons rlset_def rset_def)+
  have eq: "rset x \<union> rlset xs = rset y \<union> rlset ys'" using Cons.prems ys by simp
  have "ipv (rstart x) = ipv (rstart y)"
  proof -
    have "ipv (rstart x) \<in> rset y \<union> rlset ys'" "ipv (rstart y) \<in> rset x \<union> rlset xs"
      using eq x(1) y(1) by (auto simp: rset_def rok_def)
    then show ?thesis using x y by (fastforce simp: rset_def rok_def)
  qed
  moreover have "ipv (rend x) = ipv (rend y)"
  proof -
    have "ipv (rend x) + 1 \<notin> rset x \<union> rlset xs" "ipv (rend y) + 1 \<notin> rset y \<union> rlset ys'"
      "ipv (rend x) \<in> rset x \<union> rlset xs" "ipv (rend y) \<in> rset y \<union> rlset ys'"
      using x y by (auto simp: rset_def rok_def)
    then have "ipv (rend x) + 1 \<notin> rset y" "ipv (rend y) + 1 \<notin> rset x" using eq by auto
    then show ?thesis
      using \<open>ipv (rstart x) = ipv (rstart y)\<close> x(1) y(1) by (auto simp: rset_def rok_def)
  qed
  ultimately have xy: "x = y" using x(1) y(1) by (intro rok_eqI)
  have "rlset xs \<inter> rset x = {}" "rlset ys' \<inter> rset y = {}"
    using x y by (fastforce simp: rset_def)+
  with eq xy have "rlset xs = rlset ys'" by blast
  with Cons.IH x(2) y(2) ys xy show ?case by simp
qed

lemma rl_Equal_iff: "rl_ok F xs \<Longrightarrow> rl_ok F ys \<Longrightarrow> rl_Equal xs ys \<longleftrightarrow> rlset xs = rlset ys"
proof
  assume xs: "rl_ok F xs" and ys: "rl_ok F ys" and "rl_Equal xs ys"
  have "x = y" if "x \<in> set xs" "y \<in> set ys" "IP_Equal (rstart x) (rstart y)" "IP_Equal (rend x) (rend y)" for x y
    using that rl_ok_rok [OF xs] rl_ok_rok [OF ys] by (intro rok_eqI [of F]) (auto simp: rok_def ip_order [of F])
  with \<open>rl_Equal xs ys\<close> have "list_all2 (=) xs ys"
    unfolding rl_Equal_def by (auto elim!: list.rel_mono_strong)
  then show "rlset xs = rlset ys" by (simp add: list.rel_eq)
next
  assume xs: "rl_ok F xs" and ys: "rl_ok F ys" and "rlset xs = rlset ys"
  then have "xs = ys" by (intro rl_ok_unique)
  with ys show "rl_Equal xs ys"
    by (auto simp: rl_Equal_def list_all2_same rl_ok_def rok_def ip_order [of F])
qed

lemma rl_Count_card: "rl_ok F rs \<Longrightarrow> rl_Count rs = int (card (rlset rs))"
proof (induction rs)
  case Nil
  then show ?case by simp
next
  case (Cons r rs)
  have "rset r \<inter> rlset rs = {}"
    using Cons.prems by (fastforce simp: rl_ok_Cons rlset_def rset_def)
  moreover have "finite (rset r)" by (simp add: rset_def)
  ultimately show ?case
    using Cons IPRange_Count_card [of F r] by (simp add: rl_ok_Cons card_Un_disjoint)
qed


text \<open>The first range starts with the least address of the list.\<close>

lemma rl_first_Min:
  assumes "rl_ok F rs" "rs \<noteq> []"
  shows "ipok F (rstart (rs ! 0))" "ipv (rstart (rs ! 0)) = Min (rlset rs)" "Min (rlset rs) \<in> rlset rs"
proof -
  obtain q qs where rs: "rs = q # qs" using assms by (cases rs) auto
  have q: "rok F q" "\<forall>y\<in>rlset qs. ipv (rend q) + 1 < y"
    using assms rs by (force simp: rl_ok_Cons rlset_def rset_def)+
  have "Min (rset q \<union> rlset qs) = ipv (rstart q)"
  proof (rule Min_eqI)
    show "finite (rset q \<union> rlset qs)" by (simp add: rset_def)
    show "ipv (rstart q) \<le> y" if "y \<in> rset q \<union> rlset qs" for y
      using that q by (force simp: rset_def rok_def)
    show "ipv (rstart q) \<in> rset q \<union> rlset qs" using q by (simp add: rset_def rok_def)
  qed
  then have "Min (rlset rs) = ipv (rstart q)" by (simp add: rs)
  then show "ipok F (rstart (rs ! 0))" "ipv (rstart (rs ! 0)) = Min (rlset rs)" "Min (rlset rs) \<in> rlset rs"
    using q rs by (auto simp: rok_def rset_def)
qed

text \<open>The addresses of a family but for the two ends of its space.\<close>

definition inn :: "fam \<Rightarrow> nat set" where
  "inn F = {ipmin F<..<ipmax F}"

lemma inner_inn: "inner F ip \<longleftrightarrow> ipv ip \<in> inn F"
  by (simp add: inner_def inn_def)

lemma fold_Add_mix:
  "rl_mix t \<Longrightarrow> \<forall>ip\<in>set ips. \<exists>G. ipok G ip \<and> inner G ip \<Longrightarrow>
     rl_mix (foldl (\<lambda>t ip. fst (rl_Add t ip)) t ips) \<and>
     rlset (foldl (\<lambda>t ip. fst (rl_Add t ip)) t ips) = rlset t \<union> ipv ` set ips"
proof (induction ips arbitrary: t)
  case Nil
  then show ?case by simp
next
  case (Cons ip ips)
  then obtain G where "ipok G ip" "inner G ip" by auto
  with Cons show ?case using rl_Add_mix [of t G ip] by auto
qed

lemma rl_Allocate_spec:
  assumes r: "rl_ok F r" and i: "rlset r \<subseteq> inn F"
    and sk: "\<forall>ip\<in>set skipped. \<exists>G. ipok G ip \<and> inner G ip"
  defines "avail \<equiv> rlset r - ipv ` set skipped"
  shows "avail = {} \<Longrightarrow> rl_Allocate r skipped = (r, [])"
    and "avail \<noteq> {} \<Longrightarrow> \<exists>r' ip. rl_Allocate r skipped = (r', ip) \<and> ipok F ip \<and> ipv ip = Min avail \<and>
       Min avail \<in> avail \<and> rl_ok F r' \<and> rlset r' = rlset r - {ipv ip}"
proof -
  define tmp where "tmp = foldl (\<lambda>t ip. fst (rl_Add t ip)) NewEmptyIPRangeList skipped"
  define fl where "fl = (if skipped = [] then r else rl_Separate r tmp)"
  have "rl_mix tmp" "rlset tmp = ipv ` set skipped"
    using fold_Add_mix [of "[]" skipped] sk by (auto simp: tmp_def NewEmptyIPRangeList_def rl_mix_def)
  then have fl: "rl_ok F fl" "rlset fl = avail"
    using r rl_Separate_spec [OF r, of tmp] by (auto simp: fl_def avail_def rl_mix_def)
  have eq: "rl_Allocate r skipped = (if fl = [] then (r, []) else (fst (rl_Remove r (rstart (fl ! 0))), rstart (fl ! 0)))"
    using rl_Separate_spec [OF r, of tmp] r rlset_empty_iff [of F fl] fl
    by (auto simp: rl_Allocate_def fl_def tmp_def Let_def rl_Len_def rl_Separate_def NewEmptyIPRangeList_def)
  show "avail = {} \<Longrightarrow> rl_Allocate r skipped = (r, [])"
    using eq rlset_empty_iff [OF fl(1)] fl(2) by simp
  assume "avail \<noteq> {}"
  then have ne: "fl \<noteq> []" using fl by auto
  note m = rl_first_Min [OF fl(1) ne]
  have "inner F (rstart (fl ! 0))"
    using m fl(2) i by (auto simp: inner_inn avail_def)
  note rm = rl_Remove_spec [OF r m(1) this]
  show "\<exists>r' ip. rl_Allocate r skipped = (r', ip) \<and> ipok F ip \<and> ipv ip = Min avail \<and>
       Min avail \<in> avail \<and> rl_ok F r' \<and> rlset r' = rlset r - {ipv ip}"
    using eq ne m rm fl(2) by auto
qed

text \<open>Within a family without the ends of its space, adding is always safe.\<close>

lemma add_safe_inn:
  assumes "rl_ok F rs" "rlset rs \<subseteq> inn F" "ipok F ip" "inner F ip"
  shows "add_safe rs ip"
proof -
  have "no_wrap F r ip" if "r \<in> set rs" for r
    using assms that rl_ok_ends [OF assms(1) that] by (auto simp: no_wrap_def inner_def)
  with assms show ?thesis by (auto simp: add_safe_def rl_ok_def)
qed

section \<open>The interface of a list of ranges\<close>

text \<open>
  What the allocator relies on: the operations act on the set of addresses the list
  stands for and keep its form. The laws of \<open>add\<close> and \<open>remove\<close> hold away from the
  ends of the address space.
\<close>

locale address_set =
  fixes wf :: "'s \<Rightarrow> bool" and elems :: "'s \<Rightarrow> nat set" and good :: "IP \<Rightarrow> bool"
    and empty :: 's and contains :: "'s \<Rightarrow> IP \<Rightarrow> bool"
    and add remove :: "'s \<Rightarrow> IP \<Rightarrow> 's \<times> bool"
    and sep mrg isect :: "'s \<Rightarrow> 's \<Rightarrow> 's"
  assumes wf_empty: "wf empty" and elems_empty: "elems empty = {}"
    and contains: "wf s \<Longrightarrow> good ip \<Longrightarrow> contains s ip \<longleftrightarrow> ipv ip \<in> elems s"
    and wf_add: "wf s \<Longrightarrow> good ip \<Longrightarrow> wf (fst (add s ip))"
    and elems_add: "wf s \<Longrightarrow> good ip \<Longrightarrow> elems (fst (add s ip)) = insert (ipv ip) (elems s)"
    and add_new: "wf s \<Longrightarrow> good ip \<Longrightarrow> snd (add s ip) \<longleftrightarrow> ipv ip \<notin> elems s"
    and wf_remove: "wf s \<Longrightarrow> good ip \<Longrightarrow> wf (fst (remove s ip))"
    and elems_remove: "wf s \<Longrightarrow> good ip \<Longrightarrow> elems (fst (remove s ip)) = elems s - {ipv ip}"
    and remove_present: "wf s \<Longrightarrow> good ip \<Longrightarrow> snd (remove s ip) \<longleftrightarrow> ipv ip \<in> elems s"
    and wf_sep: "wf s \<Longrightarrow> wf t \<Longrightarrow> wf (sep s t)" and elems_sep: "wf s \<Longrightarrow> wf t \<Longrightarrow> elems (sep s t) = elems s - elems t"
    and wf_mrg: "wf s \<Longrightarrow> wf t \<Longrightarrow> wf (mrg s t)" and elems_mrg: "wf s \<Longrightarrow> wf t \<Longrightarrow> elems (mrg s t) = elems s \<union> elems t"
    and wf_isect: "wf s \<Longrightarrow> wf t \<Longrightarrow> wf (isect s t)" and elems_isect: "wf s \<Longrightarrow> wf t \<Longrightarrow> elems (isect s t) = elems s \<inter> elems t"
    and wf_unique: "wf s \<Longrightarrow> wf t \<Longrightarrow> elems s = elems t \<Longrightarrow> s = t"
begin

lemmas wf_intros = wf_empty wf_add wf_remove wf_sep wf_mrg wf_isect
lemmas elems_simps = elems_empty elems_add elems_remove elems_sep elems_mrg elems_isect

lemma remove_add: "wf s \<Longrightarrow> good ip \<Longrightarrow> ipv ip \<notin> elems s \<Longrightarrow> fst (remove (fst (add s ip)) ip) = s"
  by (rule wf_unique) (auto simp: wf_intros elems_simps)

lemma add_remove: "wf s \<Longrightarrow> good ip \<Longrightarrow> ipv ip \<in> elems s \<Longrightarrow> fst (add (fst (remove s ip)) ip) = s"
  by (rule wf_unique) (auto simp: wf_intros elems_simps)

lemma sep_mrg_partition: "wf s \<Longrightarrow> wf t \<Longrightarrow> mrg (sep s t) (isect s t) = s"
  by (rule wf_unique) (auto simp: wf_intros elems_simps)

lemma mrg_commute: "wf s \<Longrightarrow> wf t \<Longrightarrow> mrg s t = mrg t s"
  by (rule wf_unique) (auto simp: wf_intros elems_simps)

end

text \<open>The lists of one family without the ends of its space.\<close>

definition rl_in :: "fam \<Rightarrow> IPRangeList \<Rightarrow> bool" where
  "rl_in F rs = (rl_ok F rs \<and> rlset rs \<subseteq> inn F)"

definition ip_in :: "fam \<Rightarrow> IP \<Rightarrow> bool" where
  "ip_in F ip = (ipok F ip \<and> inner F ip)"

interpretation rl: address_set "rl_in F" rlset "ip_in F" NewEmptyIPRangeList rl_Contains rl_Add rl_Remove
  rl_Separate rl_Merge rl_Intersect for F
proof unfold_locales
  fix s t :: IPRangeList and ip :: IP
  show "rl_in F NewEmptyIPRangeList" "rlset NewEmptyIPRangeList = {}"
    by (simp_all add: rl_in_def NewEmptyIPRangeList_def)
  show "rl_in F s \<Longrightarrow> ip_in F ip \<Longrightarrow> rl_Contains s ip \<longleftrightarrow> ipv ip \<in> rlset s"
    using rl_Contains_iff [OF rl_ok_dis ipok_valid] by (auto simp: rl_in_def ip_in_def)
  assume s: "rl_in F s"
  then have sd: "rl_dis s" by (auto simp: rl_in_def intro: rl_ok_dis)
  { assume ip: "ip_in F ip"
    have safe: "add_safe s ip" using s ip add_safe_inn by (auto simp: rl_in_def ip_in_def)
    note a = rl_Add_set [OF sd safe] rl_Add_ok [OF _ safe, of F]
      and r = rl_Remove_spec [of F s ip]
    show "rl_in F (fst (rl_Add s ip))" "rlset (fst (rl_Add s ip)) = insert (ipv ip) (rlset s)"
      "snd (rl_Add s ip) \<longleftrightarrow> ipv ip \<notin> rlset s"
      using s ip a by (auto simp: rl_in_def ip_in_def inner_inn)
    show "rl_in F (fst (rl_Remove s ip))" "rlset (fst (rl_Remove s ip)) = rlset s - {ipv ip}"
      "snd (rl_Remove s ip) \<longleftrightarrow> ipv ip \<in> rlset s"
      using s ip r by (auto simp: rl_in_def ip_in_def) }
  assume t: "rl_in F t"
  then have td: "rl_dis t" by (auto simp: rl_in_def intro: rl_ok_dis)
  show "rl_in F (rl_Separate s t)" "rlset (rl_Separate s t) = rlset s - rlset t"
    using s rl_Separate_spec [OF _ td, of F s] by (auto simp: rl_in_def)
  show "rl_in F (rl_Merge s t)" "rlset (rl_Merge s t) = rlset s \<union> rlset t"
    using s t rl_Merge_spec [of F s t] by (auto simp: rl_in_def)
  show "rl_in F (rl_Intersect s t)" "rlset (rl_Intersect s t) = rlset s \<inter> rlset t"
    using s t rl_Intersect_spec [of F s t] by (auto simp: rl_in_def)
  show "rlset s = rlset t \<Longrightarrow> s = t"
    using s t rl_ok_unique [of F s t] by (auto simp: rl_in_def)
qed

lemmas rl_wf = rl.wf_intros
lemmas rl_elems = rl.elems_simps rl.add_new rl.remove_present rl.contains

section \<open>Properties\<close>

text \<open>C38.
  \<open>Separate\<close> is set difference: for a well-formed receiver and any sorted list \<open>x\<close> it
  returns a well-formed list whose addresses are those of the receiver not in \<open>x\<close>.\<close>

theorem Separate_is_difference:
  assumes "rl_ok F r" "rl_dis x"
  shows "rl_ok F (rl_Separate r x) \<and> rlset (rl_Separate r x) = rlset r - rlset x"
  using rl_Separate_spec [OF assms] by simp

theorem Separate_is_difference_witness:
  "rl_ok F4 [NewIPRange [10,0,0,1] [10,0,0,9]] \<and> rl_dis [NewIPRange [10,0,0,3] [10,0,0,4]] \<and>
   rl_ok F4 (rl_Separate [NewIPRange [10,0,0,1] [10,0,0,9]] [NewIPRange [10,0,0,3] [10,0,0,4]]) \<and>
   rlset (rl_Separate [NewIPRange [10,0,0,1] [10,0,0,9]] [NewIPRange [10,0,0,3] [10,0,0,4]])
   = rlset [NewIPRange [10,0,0,1] [10,0,0,9]] - rlset [NewIPRange [10,0,0,3] [10,0,0,4]]"
proof -
  have a: "rl_ok F4 [NewIPRange [10,0,0,1] [10,0,0,9]]" by code_simp
  have "rl_ok F4 [NewIPRange [10,0,0,3] [10,0,0,4]]" by code_simp
  then have b: "rl_dis [NewIPRange [10,0,0,3] [10,0,0,4]]" by (rule rl_ok_dis)
  show ?thesis using a b Separate_is_difference [OF a b] by blast
qed

text \<open>\<open>Merge\<close> is union and \<open>Intersect\<close> is intersection on well-formed lists of one family,
  and both results are well-formed.\<close>

theorem Merge_Intersect_sets:
  assumes "rl_ok F r" "rl_ok F x"
  shows "rl_ok F (rl_Merge r x) \<and> rlset (rl_Merge r x) = rlset r \<union> rlset x \<and>
    rl_ok F (rl_Intersect r x) \<and> rlset (rl_Intersect r x) = rlset r \<inter> rlset x"
  using rl_Merge_spec [OF assms] rl_Intersect_spec [OF assms] by simp

theorem Merge_Intersect_sets_witness:
  "rl_ok F4 [NewIPRange [10,0,0,1] [10,0,0,9]] \<and> rl_ok F4 [NewIPRange [10,0,0,5] [10,0,1,4]] \<and>
   rlset (rl_Merge [NewIPRange [10,0,0,1] [10,0,0,9]] [NewIPRange [10,0,0,5] [10,0,1,4]])
   = rlset [NewIPRange [10,0,0,1] [10,0,0,9]] \<union> rlset [NewIPRange [10,0,0,5] [10,0,1,4]]"
proof -
  have a: "rl_ok F4 [NewIPRange [10,0,0,1] [10,0,0,9]]" by code_simp
  have b: "rl_ok F4 [NewIPRange [10,0,0,5] [10,0,1,4]]" by code_simp
  show ?thesis using a b Merge_Intersect_sets [OF a b] by blast
qed

text \<open>\<open>Add\<close> inserts one address into the set and \<open>Remove\<close> deletes it, both keep the
  list well-formed, and their results say whether the set changed; this for addresses
  other than the first and last of the address space.\<close>

theorem Add_Remove_sets:
  assumes "rl_in F r" "ip_in F ip"
  shows "rl_in F (fst (rl_Add r ip)) \<and> rlset (fst (rl_Add r ip)) = insert (ipv ip) (rlset r) \<and>
    (snd (rl_Add r ip) \<longleftrightarrow> ipv ip \<notin> rlset r) \<and>
    rl_in F (fst (rl_Remove r ip)) \<and> rlset (fst (rl_Remove r ip)) = rlset r - {ipv ip} \<and>
    (snd (rl_Remove r ip) \<longleftrightarrow> ipv ip \<in> rlset r)"
  using rl.wf_add [OF assms] rl.elems_add [OF assms] rl.add_new [OF assms]
    rl.wf_remove [OF assms] rl.elems_remove [OF assms] rl.remove_present [OF assms] by simp

theorem Add_Remove_sets_witness:
  "rl_in F4 [NewIPRange [10,0,0,1] [10,0,0,9]] \<and> ip_in F4 [10,0,0,5] \<and>
   rlset (fst (rl_Remove [NewIPRange [10,0,0,1] [10,0,0,9]] [10,0,0,5]))
   = rlset [NewIPRange [10,0,0,1] [10,0,0,9]] - {ipv [10,0,0,5]} \<and>
   snd (rl_Remove [NewIPRange [10,0,0,1] [10,0,0,9]] [10,0,0,5])"
proof -
  have "rl_ok F4 [NewIPRange [10,0,0,1] [10,0,0,9]]" by code_simp
  moreover have m: "rlset [NewIPRange [10,0,0,1] [10,0,0,9]] = {ipv [10,0,0,1]..ipv [10,0,0,9]}" by simp
  moreover have n: "ipmin F4 < ipv [10,0,0,1]" "ipv [10,0,0,9] < ipmax F4"
    "ipv [10,0,0,1] \<le> ipv [10,0,0,5]" "ipv [10,0,0,5] \<le> ipv [10,0,0,9]" by code_simp+
  ultimately have a: "rl_in F4 [NewIPRange [10,0,0,1] [10,0,0,9]]" by (auto simp: rl_in_def inn_def)
  have b: "ip_in F4 [10,0,0,5]" by code_simp
  show ?thesis using a b m n Add_Remove_sets [OF a b] by auto
qed

text \<open>\<open>Find\<close>, the binary search of the list, answers whether an address is in the list, and
  the index it returns splits the list: the ranges before it end below the address and,
  when the address is not in the list, the ranges from it on start above the address.\<close>

theorem Find_splits:
  assumes "rl_dis rs" "ip_valid ip"
  shows "case rl_Find rs ip of (n, found) \<Rightarrow>
     n \<le> length rs \<and> (found \<longleftrightarrow> ipv ip \<in> rlset rs) \<and>
     (\<forall>r\<in>set (take n rs). ipv (rend r) < ipv ip) \<and>
     (\<not> found \<longrightarrow> (\<forall>r\<in>set (drop n rs). ipv ip < ipv (rstart r))) \<and>
     (found \<longrightarrow> n < length rs \<and> ipv ip \<in> rset (rs ! n))"
proof -
  obtain n found where f: "rl_Find rs ip = (n, found)" by fastforce
  show ?thesis
    using rl_Find_spec [OF assms f] rl_Contains_iff [OF assms] f by (simp add: rl_Contains_def)
qed

theorem Find_splits_witness:
  "rl_dis [NewIPRange [10,0,0,3] [10,0,0,4]] \<and> ip_valid [10,0,0,4] \<and>
   rl_Find [NewIPRange [10,0,0,3] [10,0,0,4]] [10,0,0,4] = (0, True) \<and>
   ipv [10,0,0,4] \<in> rlset [NewIPRange [10,0,0,3] [10,0,0,4]]"
proof -
  have "rl_ok F4 [NewIPRange [10,0,0,3] [10,0,0,4]]" by code_simp
  then have a: "rl_dis [NewIPRange [10,0,0,3] [10,0,0,4]]" by (rule rl_ok_dis)
  have b: "ip_valid [10,0,0,4]" by code_simp
  have c: "rl_Find [NewIPRange [10,0,0,3] [10,0,0,4]] [10,0,0,4] = (0, True)" by code_simp
  show ?thesis using a b c Find_splits [OF a b] unfolding c by simp
qed

text \<open>C39.
  \<open>Allocate\<close> hands out the least address of the list that is not skipped and removes
  just that address; it returns nil and leaves the list alone exactly when every address
  is skipped. The skipped addresses may be of either family.\<close>

theorem Allocate_least:
  assumes "rl_ok F r" "rlset r \<subseteq> inn F" "\<forall>ip\<in>set skipped. \<exists>G. ipok G ip \<and> inner G ip"
  shows "if rlset r - ipv ` set skipped = {} then rl_Allocate r skipped = (r, [])
    else \<exists>r' ip. rl_Allocate r skipped = (r', ip) \<and> ipok F ip \<and>
      ipv ip = Min (rlset r - ipv ` set skipped) \<and> ipv ip \<in> rlset r - ipv ` set skipped \<and>
      rl_ok F r' \<and> rlset r' = rlset r - {ipv ip}"
proof (cases "rlset r - ipv ` set skipped = {}")
  case True
  then show ?thesis using rl_Allocate_spec(1) [OF assms] by simp
next
  case False
  then show ?thesis using rl_Allocate_spec(2) [OF assms] by (auto simp: Diff_eq_empty_iff)
qed

theorem Allocate_least_witness:
  "rlset [NewIPRange [10,0,0,1] [10,0,0,9]] - ipv ` set [[10,0,0,1]] \<noteq> {} \<and>
   (\<exists>r' ip. rl_Allocate [NewIPRange [10,0,0,1] [10,0,0,9]] [[10,0,0,1]] = (r', ip) \<and> ipok F4 ip \<and>
      rlset r' = rlset [NewIPRange [10,0,0,1] [10,0,0,9]] - {ipv ip})"
proof -
  have a: "rl_ok F4 [NewIPRange [10,0,0,1] [10,0,0,9]]" by code_simp
  have n: "ipmin F4 < ipv [10,0,0,1]" "ipv [10,0,0,9] < ipmax F4" "ipv [10,0,0,1] < ipv [10,0,0,9]" by code_simp+
  then have b: "rlset [NewIPRange [10,0,0,1] [10,0,0,9]] \<subseteq> inn F4" by (auto simp: inn_def)
  have "ipok F4 [10,0,0,1]" "inner F4 [10,0,0,1]" by code_simp+
  then have c: "\<forall>ip\<in>set [[10,0,0,1]]. \<exists>G. ipok G ip \<and> inner G ip"
    unfolding list.set by blast
  have "ipv [10,0,0,9] \<in> rlset [NewIPRange [10,0,0,1] [10,0,0,9]] - ipv ` set [[10,0,0,1]]"
    using n by simp
  then have d: "rlset [NewIPRange [10,0,0,1] [10,0,0,9]] - ipv ` set [[10,0,0,1]] \<noteq> {}" by blast
  show ?thesis using d Allocate_least [OF a b c] unfolding if_not_P [OF d] by blast
qed

text \<open>
  The representation is canonical: on well-formed lists of one family \<open>Equal\<close> decides
  equality of the sets of addresses, and \<open>Count\<close> is the number of addresses.\<close>

theorem Equal_Count_sets:
  assumes "rl_ok F xs" "rl_ok F ys"
  shows "(rl_Equal xs ys \<longleftrightarrow> rlset xs = rlset ys) \<and> rl_Count xs = int (card (rlset xs))"
  using rl_Equal_iff [OF assms] rl_Count_card [OF assms(1)] by simp

theorem Equal_Count_sets_witness:
  "rl_ok F4 [NewIPRange [10,0,0,1] [10,0,0,9]] \<and>
   rl_Count [NewIPRange [10,0,0,1] [10,0,0,9]] = 9 \<and>
   card (rlset [NewIPRange [10,0,0,1] [10,0,0,9]]) = 9"
proof -
  have a: "rl_ok F4 [NewIPRange [10,0,0,1] [10,0,0,9]]" by code_simp
  have c: "rl_Count [NewIPRange [10,0,0,1] [10,0,0,9]] = 9" by code_simp
  show ?thesis using a c Equal_Count_sets [OF a a] by simp
qed

end
