(* ===== verification/UtilText.thy ===== *)
theory UtilText
  imports NetText
begin

unbundle bit_operations_syntax

text \<open>
  The small helpers of pkg/util that work on strings and slices of strings:
  slice.go, strings.go, ip.go, address_family.go, subnet.go, version.go. Strings are
  byte lists; the loops over runes of the sources only look for ASCII characters, which
  never occur inside the encoding of another rune.
\<close>

section \<open>slice.go\<close>

definition DiffStringSlice :: "string list \<Rightarrow> string list \<Rightarrow> string list" where
  "DiffStringSlice s1 s2 =
     filter (\<lambda>s. s \<notin> set s2) s1 @ filter (\<lambda>s. s \<notin> set s1) s2"

text \<open>The order of \<open>UnsortedList\<close> is open in Go; here each string stands where it came first.\<close>

definition UnionStringSlice :: "string list list \<Rightarrow> string list" where
  "UnionStringSlice slices = foldl (\<lambda>u s. foldl (\<lambda>u x. if x \<in> set u then u else u @ [x]) u s) [] slices"

fun IsStringsOverlap :: "string list \<Rightarrow> string list \<Rightarrow> bool" where
  "IsStringsOverlap [] b = False"
| "IsStringsOverlap (sa # a) b = (if sa \<in> set b then True else IsStringsOverlap a b)"

fun RemoveString :: "string list \<Rightarrow> string \<Rightarrow> string list" where
  "RemoveString [] s = []"
| "RemoveString (item # xs) s =
     (if item = s then RemoveString xs s else item # RemoveString xs s)"

lemma RemoveString_filter [simp]: "RemoveString xs s = filter (\<lambda>x. x \<noteq> s) xs"
  by (induction xs) auto

section \<open>strings.go\<close>

text \<open>The loop of \<open>DoubleQuotedFields\<close>: \<open>sb\<close> is the field being built.\<close>

fun quoted_loop :: "bool \<Rightarrow> string \<Rightarrow> string list \<Rightarrow> string \<Rightarrow> string list" where
  "quoted_loop quoted sb flds [] = (if length sb > 0 then flds @ [sb] else flds)"
| "quoted_loop quoted sb flds (r # s) =
     (if r = CHR 0x22 then quoted_loop (\<not> quoted) sb flds s
      else if \<not> quoted \<and> r = CHR '' '' then quoted_loop quoted [] (flds @ [sb]) s
      else quoted_loop quoted (sb @ [r]) flds s)"

definition DoubleQuotedFields :: "string \<Rightarrow> string list" where
  "DoubleQuotedFields s = quoted_loop False [] [] s"

definition SplitTrimmed :: "string \<Rightarrow> string \<Rightarrow> string list" where
  "SplitTrimmed s sep = filter (\<lambda>item. item \<noteq> []) (map TrimSpace (split sep s))"

section \<open>ip.go\<close>

text \<open>
  In \<open>Uint32ToIPv4\<close> the mask and the shift have one precedence in Go and associate to
  the left: \<open>n\<close> is masked first, then shifted.
\<close>

definition Uint32ToIPv4 :: "32 word \<Rightarrow> string" where
  "Uint32ToIPv4 n =
     dec (unat (drop_bit 24 n)) @ ''.'' @ dec (unat (drop_bit 16 (n AND 0xff0000))) @ ''.'' @
     dec (unat (drop_bit 8 (n AND 0xff00))) @ ''.'' @ dec (unat (n AND 0xff))"

definition IPv4ToUint32 :: "bytes \<Rightarrow> error + 32 word" where
  "IPv4ToUint32 ip =
     (if length ip < 4 then Inl Panic
      else Inr (push_bit 24 (ucast (ip ! 0)) OR push_bit 16 (ucast (ip ! 1)) OR
                push_bit 8 (ucast (ip ! 2)) OR ucast (ip ! 3)))"

text \<open>\<open>%04x\<close>\<close>

definition hex04 :: "nat \<Rightarrow> string" where
  "hex04 n = (let h = hexs n in replicate (4 - length h) CHR ''0'' @ h)"

definition Uint32ToIPv6 :: "32 word list \<Rightarrow> string" where
  "Uint32ToIPv6 n =
     join '':'' (map hex04 (concat (map (\<lambda>w. [unat (drop_bit 16 w), unat (w AND 0xffff)]) (take 4 n))))"

definition IPv6ToLabelValue :: "string \<Rightarrow> string" where
  "IPv6ToLabelValue ip =
     (if ip = [] then []
      else let v = replace_char CHR '':'' ''-'' ip;
               v1 = (if hd v = CHR ''-'' then CHR ''0'' # v else v)
           in if last v1 = CHR ''-'' then v1 @ ''0'' else v1)"

section \<open>address_family.go\<close>

definition ProtocolIPv4 :: string where "ProtocolIPv4 = ''IPv4''"
definition ProtocolIPv6 :: string where "ProtocolIPv6 = ''IPv6''"
definition ProtocolDual :: string where "ProtocolDual = ''Dual''"
definition ProtocolMac :: string where "ProtocolMac = ''Mac''"

lemmas protocol_defs = ProtocolIPv4_def ProtocolIPv6_def ProtocolDual_def ProtocolMac_def

text \<open>The constants \<open>AF_UNSPEC\<close>, \<open>AF_INET\<close> and \<open>AF_INET6\<close> of Linux.\<close>

definition ProtocolToFamily :: "string \<Rightarrow> error + int" where
  "ProtocolToFamily protocol =
     (if protocol = ProtocolDual then Inr 0
      else if protocol = ProtocolIPv4 then Inr 2
      else if protocol = ProtocolIPv6 then Inr 10
      else Inl (ErrFmt (''invalid protocol: '' @ protocol)))"

text \<open>\<open>strings.ToLower\<close> on ASCII\<close>

definition lower_char :: "char \<Rightarrow> char" where
  "lower_char c = (let n = of_char c :: nat in if 65 \<le> n \<and> n \<le> 90 then char_of (n + 32) else c)"

definition ToLower :: "string \<Rightarrow> string" where
  "ToLower s = map lower_char s"

definition NormalizeIPFamily :: "string \<Rightarrow> string" where
  "NormalizeIPFamily ipFamily =
     (if ipFamily = ToLower ProtocolIPv4 then ProtocolIPv4
      else if ipFamily = ToLower ProtocolIPv6 then ProtocolIPv6
      else ipFamily)"

section \<open>subnet.go\<close>

definition OvnProvider :: string where "OvnProvider = ''ovn''"

definition IsOvnProvider :: "string \<Rightarrow> bool" where
  "IsOvnProvider provider =
     (if provider = [] \<or> provider = OvnProvider then True
      else let flds = split_char CHR ''.'' provider
           in length flds = 3 \<and> flds ! 2 = OvnProvider)"

definition GetNadBySubnetProvider :: "string \<Rightarrow> string \<times> string \<times> bool" where
  "GetNadBySubnetProvider provider =
     (let flds = split_char CHR ''.'' provider in
      if length flds = 3 \<and> flds ! 2 = OvnProvider then (flds ! 0, flds ! 1, True)
      else if length flds = 2 then (flds ! 0, flds ! 1, True)
      else ([], [], False))"

section \<open>version.go\<close>

text \<open>\<open>strconv.Atoi\<close> on a 64-bit platform; the value at an error is what \<open>Atoi\<close> returns beside it.\<close>

definition Atoi_val :: "string \<Rightarrow> int \<times> bool" where
  "Atoi_val s =
     (let neg = (s \<noteq> [] \<and> hd s = CHR ''-'');
          d = (if s \<noteq> [] \<and> (hd s = CHR ''-'' \<or> hd s = CHR ''+'') then tl s else s)
      in if d = [] \<or> \<not> list_all is_digit d then (0, False)
         else let n = int (dec_val d) in
           if neg then (if n \<le> 2 ^ 63 then (- n, True) else (- (2 ^ 63), False))
           else (if n < 2 ^ 63 then (n, True) else (2 ^ 63 - 1, False)))"

definition pad_version :: "string list \<Rightarrow> string list" where
  "pad_version v = v @ replicate (4 - length v) ''0''"

fun version_loop :: "string list \<Rightarrow> string list \<Rightarrow> int" where
  "version_loop (a # as) (b # bs) =
     (let x = fst (Atoi_val a); y = fst (Atoi_val b) in
      if x = y then version_loop as bs else if x > y then 1 else -1)"
| "version_loop _ _ = 0"

definition CompareVersion :: "string \<Rightarrow> string \<Rightarrow> int" where
  "CompareVersion version1 version2 =
     version_loop (take 4 (pad_version (split_char CHR ''.'' version1)))
                  (take 4 (pad_version (split_char CHR ''.'' version2)))"

section \<open>Affixes\<close>

text \<open>\<open>strings.TrimPrefix\<close> and \<open>strings.TrimSuffix\<close>.\<close>

definition TrimPrefix :: "string \<Rightarrow> string \<Rightarrow> string" where
  "TrimPrefix s p = (if prefix p s then drop (length p) s else s)"

definition TrimSuffix :: "string \<Rightarrow> string \<Rightarrow> string" where
  "TrimSuffix s p = (if suffix p s then take (length s - length p) s else s)"

section \<open>Numbers\<close>

text \<open>\<open>strconv.Itoa\<close>.\<close>

definition Itoa :: "int \<Rightarrow> string" where
  "Itoa n = (if n < 0 then ''-'' @ dec (nat (- n)) else dec (nat n))"

end
