(* ===== verification/UtilNet.thy ===== *)
theory UtilNet
  imports UtilText
begin

unbundle bit_operations_syntax

text \<open>
  pkg/util/net.go: the functions on textual addresses, networks and MAC addresses the
  controllers and the allocator share. \<open>BigInt2Ip\<close> panics on a number of more than 16
  bytes (\<open>big.Int.FillBytes\<close>), so it and its callers return a sum. Bytes drawn from
  \<open>crypto/rand\<close> are arguments. The functions that open sockets or read the environment
  are not modelled, nor is logging.
\<close>

section \<open>MAC addresses\<close>

text \<open>\<open>net.HardwareAddr.String\<close>\<close>

definition hex2 :: "byte \<Rightarrow> string" where
  "hex2 b = [hex_char (unat b div 16), hex_char (unat b mod 16)]"

definition hw_string :: "bytes \<Rightarrow> string" where
  "hw_string bs = join '':'' (map hex2 bs)"

text \<open>\<open>buf\<close>: the six bytes read from \<open>rand\<close>.\<close>

definition GenerateMac :: "bytes \<Rightarrow> string" where
  "GenerateMac buf = hw_string (((hd buf OR 0x02) AND 0xfe) # tl buf)"

text \<open>The loop with the draws it may use; \<open>None\<close> when no draw was acceptable.\<close>

fun GenerateMacWithExclusion :: "string list \<Rightarrow> bytes list \<Rightarrow> (string \<times> bytes list) option" where
  "GenerateMacWithExclusion exclusionMACs [] = None"
| "GenerateMacWithExclusion exclusionMACs (buf # draws) =
     (let mac = GenerateMac buf in
      if mac \<notin> set exclusionMACs then Some (mac, draws)
      else GenerateMacWithExclusion exclusionMACs draws)"

section \<open>Addresses and numbers\<close>

definition IP2BigInt :: "string \<Rightarrow> int" where
  "IP2BigInt ipStr =
     (let ip = ParseIP ipStr in
      if ip_to4 ip \<noteq> [] then int (be_nat (ip_to4 ip)) else int (be_nat (ip_to16 ip)))"

definition BigInt2Ip :: "int \<Rightarrow> error + string" where
  "BigInt2Ip ipInt =
     (let n = length (big_bytes ipInt);
          l = (if n > 4 then 16 else 4)
      in if n > l then Inl Panic else Inr (ip_string (be_fixed l (nat \<bar>ipInt\<bar>))))"

definition SubnetNumber :: "string \<Rightarrow> string" where
  "SubnetNumber subnet =
     (case ParseCIDR subnet of
        None \<Rightarrow> []
      | Some (_, cidr) \<Rightarrow>
          let (maskLength, len) = mask_size (NetMask cidr) in
          if maskLength + 1 = len then [] else ip_string (NetIP cidr))"

definition SubnetBroadcast :: "string \<Rightarrow> error + string" where
  "SubnetBroadcast subnet =
     (case ParseCIDR subnet of
        None \<Rightarrow> Inl Panic
      | Some (_, cidr) \<Rightarrow>
          let (ones, bits) = mask_size (NetMask cidr) in
          if ones + 1 = bits then Inr []
          else BigInt2Ip (IP2BigInt (ip_string (NetIP cidr)) + (2 ^ (bits - ones) - 1)))"

definition FirstIP :: "string \<Rightarrow> error + string" where
  "FirstIP subnet =
     (case ParseCIDR subnet of
        None \<Rightarrow> Inl (ErrFmt (subnet @ '' is not a valid cidr''))
      | Some (_, cidr) \<Rightarrow>
          let (ones, bits) = mask_size (NetMask cidr) in
          if ones + 1 = bits then Inr (ip_string (NetIP cidr))
          else BigInt2Ip (IP2BigInt (ip_string (NetIP cidr)) + 1))"

definition getCIDRSize :: "IPNet \<Rightarrow> int" where
  "getCIDRSize cidr =
     (let (ones, bits) = mask_size (NetMask cidr); size = 2 ^ (bits - ones) in
      if ones + 1 = bits then size - 1 else size - 2)"

definition LastIP :: "string \<Rightarrow> error + string" where
  "LastIP subnet =
     (case ParseCIDR subnet of
        None \<Rightarrow> Inl (ErrFmt (subnet @ '' is not a valid cidr''))
      | Some (_, cidr) \<Rightarrow> BigInt2Ip (IP2BigInt (ip_string (NetIP cidr)) + getCIDRSize cidr))"

definition first_of :: "char \<Rightarrow> string \<Rightarrow> string" where
  "first_of c s = hd (split_char c s)"

definition CheckProtocol :: "string \<Rightarrow> string" where
  "CheckProtocol address =
     (if address = [] then []
      else
        let ips = split_char CHR '','' address in
        if length ips = 2 then
          let IP1 = ParseIP (first_of CHR ''/'' (ips ! 0));
              IP2 = ParseIP (first_of CHR ''/'' (ips ! 1))
          in if IP1 = [] \<or> IP2 = [] then []
             else if ip_to4 IP1 \<noteq> [] \<and> ip_to4 IP2 = [] \<and> ip_to16 IP2 \<noteq> [] then ProtocolDual
             else if ip_to4 IP2 \<noteq> [] \<and> ip_to4 IP1 = [] \<and> ip_to16 IP1 \<noteq> [] then ProtocolDual
             else []
        else
          let ip = ParseIP (first_of CHR ''/'' address) in
          if ip = [] then []
          else if ip_to4 ip \<noteq> [] then ProtocolIPv4
          else if ip_to16 ip \<noteq> [] then ProtocolIPv6
          else [])"

text \<open>The inner loop of \<open>CIDRContainIP\<close> over the addresses for one network.\<close>

fun cidr_ips_loop :: "string \<Rightarrow> IPNet \<Rightarrow> string list \<Rightarrow> bool" where
  "cidr_ips_loop cidr cidrNet [] = True"
| "cidr_ips_loop cidr cidrNet (ip # ips) =
     (if CheckProtocol cidr \<noteq> CheckProtocol ip then cidr_ips_loop cidr cidrNet ips
      else let ipAddr = ParseIP ip in
        if ipAddr = [] then False
        else if \<not> net_contains cidrNet ipAddr then False
        else cidr_ips_loop cidr cidrNet ips)"

fun cidrs_loop :: "string list \<Rightarrow> string list \<Rightarrow> bool" where
  "cidrs_loop [] ips = True"
| "cidrs_loop (cidr # cidrs) ips =
     (case ParseCIDR cidr of
        None \<Rightarrow> False
      | Some (_, cidrNet) \<Rightarrow> if \<not> cidr_ips_loop cidr cidrNet ips then False else cidrs_loop cidrs ips)"

definition CIDRContainIP :: "string \<Rightarrow> string \<Rightarrow> bool" where
  "CIDRContainIP cidrStr ipStr =
     (if cidrStr = [] then False
      else
        let cidrs = split_char CHR '','' cidrStr; ips = split_char CHR '','' ipStr in
        if length cidrs = 1 \<and> (\<exists>ip\<in>set ips. CheckProtocol cidrStr \<noteq> CheckProtocol ip) then False
        else cidrs_loop cidrs ips)"

definition AddressCountBigInt :: "IPNet \<Rightarrow> int" where
  "AddressCountBigInt network =
     (let (prefixLen, bits) = mask_size (NetMask network); count = 2 ^ (bits - prefixLen) in
      if bits - prefixLen \<ge> 2 then count - 2 else count)"

text \<open>
  \<open>add\<close> is the number drawn by \<open>rand.Int\<close>, less than \<open>2 ^ (zeros - 1)\<close>. With no host
  bits the unsigned \<open>zeros - 1\<close> wraps around and the shift by it panics.
\<close>

definition GenerateRandomIP :: "string \<Rightarrow> nat \<Rightarrow> error + string" where
  "GenerateRandomIP cidr add =
     (case ParseCIDR cidr of
        None \<Rightarrow> Inr []
      | Some (ip, network) \<Rightarrow>
          let (ones, bits) = mask_size (NetMask network) in
          if bits - ones = 0 then Inl Panic
          else case BigInt2Ip (IP2BigInt (ip_string ip) + int add) of
              Inl err \<Rightarrow> Inl err
            | Inr t \<Rightarrow> Inr (t @ ''/'' @ dec ones))"

definition IPToString :: "string \<Rightarrow> string" where
  "IPToString ip =
     (case ParseCIDR ip of
        Some (ipNet, _) \<Rightarrow> ip_string ipNet
      | None \<Rightarrow> if ParseIP ip \<noteq> [] then ip_string (ParseIP ip) else [])"

definition IsValidIP :: "string \<Rightarrow> bool" where
  "IsValidIP ip = (ParseIP ip \<noteq> [])"

definition CheckCidrs :: "string \<Rightarrow> error option" where
  "CheckCidrs cidr =
     (if \<exists>cidrBlock\<in>set (split_char CHR '','' cidr). ParseCIDR cidrBlock = None
      then Some ErrInvalidCIDR else None)"

section \<open>Gateways and lists of addresses\<close>

fun gws_loop :: "string list \<Rightarrow> string list \<Rightarrow> error + string list" where
  "gws_loop gws [] = Inr gws"
| "gws_loop gws (cidr # cidrs) =
     (case FirstIP cidr of
        Inl err \<Rightarrow> Inl err
      | Inr gw \<Rightarrow> gws_loop (gws @ [gw]) cidrs)"

definition GetGwByCidr :: "string \<Rightarrow> error + string" where
  "GetGwByCidr cidrStr =
     (case gws_loop [] (split_char CHR '','' cidrStr) of
        Inl err \<Rightarrow> Inl err
      | Inr gws \<Rightarrow> Inr (join '','' gws))"

fun append_gw_loop :: "string \<Rightarrow> string list \<Rightarrow> string list \<Rightarrow> error + string list" where
  "append_gw_loop gateway gws [] = Inr gws"
| "append_gw_loop gateway gws (cidr # cidrs) =
     (if CheckProtocol gateway = CheckProtocol cidr
      then append_gw_loop gateway (gws @ [gateway]) cidrs
      else case FirstIP cidr of
          Inl err \<Rightarrow> Inl err
        | Inr gw \<Rightarrow>
            append_gw_loop gateway
              (if CheckProtocol gateway = ProtocolIPv4 then [gateway, gw] else [gw, gateway]) cidrs)"

definition AppendGwByCidr :: "string \<Rightarrow> string \<Rightarrow> error + string" where
  "AppendGwByCidr gateway cidrStr =
     (case append_gw_loop gateway [] (split_char CHR '','' cidrStr) of
        Inl err \<Rightarrow> Inl err
      | Inr gws \<Rightarrow> Inr (join '','' gws))"

definition is_v4_entry :: "string \<Rightarrow> bool" where
  "is_v4_entry ex = (CheckProtocol (hd (split ''..'' ex)) = ProtocolIPv4)"

definition SplitIpsByProtocol :: "string list \<Rightarrow> string list \<times> string list" where
  "SplitIpsByProtocol excludeIps = (filter is_v4_entry excludeIps, filter (\<lambda>ex. \<not> is_v4_entry ex) excludeIps)"

definition GetStringIP :: "string \<Rightarrow> string \<Rightarrow> string" where
  "GetStringIP v4IP v6IP =
     join '','' ((if IsValidIP v4IP then [v4IP] else []) @ (if IsValidIP v6IP then [v6IP] else []))"

definition GetIPAddrWithMask :: "string \<Rightarrow> string \<Rightarrow> error + string" where
  "GetIPAddrWithMask ip cidr =
     (let ips = split_char CHR '','' ip in
      if CheckProtocol cidr = ProtocolDual then
        let cidrBlocks = split_char CHR '','' cidr in
        if length cidrBlocks = 2 then
          (if length ips = 2 then
             let p0 = split_char CHR ''/'' (cidrBlocks ! 0); p1 = split_char CHR ''/'' (cidrBlocks ! 1) in
             if length p0 < 2 \<or> length p1 < 2 then Inl Panic
             else Inr (ips ! 0 @ ''/'' @ p0 ! 1 @ '','' @ ips ! 1 @ ''/'' @ p1 ! 1)
           else Inl (ErrFmt (''ip '' @ ip @ '' should be dualstack'')))
        else Inr []
      else if length ips = 1 then
        let p = split_char CHR ''/'' cidr in
        if length p < 2 then Inl Panic else Inr (ip @ ''/'' @ p ! 1)
      else Inl (ErrFmt (''ip '' @ ip @ '' should be singlestack'')))"

text \<open>The loop of \<open>GetIPAddrWithMaskForCNI\<close> over the addresses of a dual-stack network.\<close>

fun cni_ips_loop :: "string list \<Rightarrow> string list \<Rightarrow> string list \<Rightarrow> error + string list" where
  "cni_ips_loop cidrBlocks ipAddrs [] = Inr ipAddrs"
| "cni_ips_loop cidrBlocks ipAddrs (ip # ips) =
     (let p = CheckProtocol ip in
      if p \<noteq> ProtocolIPv4 \<and> p \<noteq> ProtocolIPv6 then Inl (ErrFmt (''invalid ip '' @ ip))
      else
        let cidrBlock = (if p = ProtocolIPv4 then cidrBlocks ! 0 else cidrBlocks ! 1) in
        case cut ''/'' cidrBlock of
          None \<Rightarrow> Inl (ErrFmt (''invalid cidr '' @ cidrBlock))
        | Some (_, m) \<Rightarrow>
            if m = [] then Inl (ErrFmt (''invalid cidr '' @ cidrBlock))
            else cni_ips_loop cidrBlocks (ipAddrs @ [ip @ ''/'' @ m]) ips)"

definition GetIPAddrWithMaskForCNI :: "string \<Rightarrow> string \<Rightarrow> error + (string \<times> bool)" where
  "GetIPAddrWithMaskForCNI ip cidr =
     (if ip = [] then Inr ([], True)
      else if CheckProtocol cidr = ProtocolDual then
        let cidrBlocks = split_char CHR '','' cidr in
        if length cidrBlocks \<noteq> 2 then Inl (ErrFmt (''invalid dualstack cidr '' @ cidr))
        else case cni_ips_loop cidrBlocks [] (split_char CHR '','' ip) of
            Inl err \<Rightarrow> Inl err
          | Inr ipAddrs \<Rightarrow> Inr (join '','' ipAddrs, False)
      else case GetIPAddrWithMask ip cidr of
          Inl err \<Rightarrow> Inl err
        | Inr ipAddr \<Rightarrow> Inr (ipAddr, False))"

definition GetIPWithoutMask :: "string \<Rightarrow> string" where
  "GetIPWithoutMask ipStr = join '','' (map (first_of CHR ''/'') (split_char CHR '','' ipStr))"

definition SplitStringIP :: "string \<Rightarrow> string \<times> string" where
  "SplitStringIP ipStr =
     (let p = CheckProtocol ipStr in
      if p = ProtocolDual then
        foldl (\<lambda>(v4IP, v6IP) ipTmp. if CheckProtocol ipTmp = ProtocolIPv4 then (ipTmp, v6IP) else (v4IP, ipTmp))
          ([], []) (split_char CHR '','' ipStr)
      else if p = ProtocolIPv4 then (ipStr, [])
      else if p = ProtocolIPv6 then ([], ipStr)
      else ([], []))"

section \<open>Excluded addresses\<close>

text \<open>
  The two loops of \<open>ExpandExcludeIPs\<close> over the blocks of the network, for a range from
  \<open>s\<close> to \<open>e\<close> and for one address (which stops at the first block that holds it).
\<close>

fun exclude_range_loop :: "string \<Rightarrow> int \<Rightarrow> int \<Rightarrow> string list \<Rightarrow> string list \<Rightarrow> error + string list" where
  "exclude_range_loop p0 s e [] rv = Inr rv"
| "exclude_range_loop p0 s e (cidrBlock # blocks) rv =
     (if CheckProtocol cidrBlock \<noteq> CheckProtocol p0 then exclude_range_loop p0 s e blocks rv
      else case FirstIP cidrBlock of
          Inl Panic \<Rightarrow> Inl Panic
        | Inl _ \<Rightarrow> exclude_range_loop p0 s e blocks rv
        | Inr firstIP \<Rightarrow>
            (case LastIP cidrBlock of
               Inl err \<Rightarrow> Inl err
             | Inr lastIP \<Rightarrow>
                 let s1 = (if s < IP2BigInt firstIP then IP2BigInt firstIP else s);
                     e1 = (if e > IP2BigInt lastIP then IP2BigInt lastIP else e)
                 in case (BigInt2Ip s1, BigInt2Ip e1) of
                     (Inr a, Inr b) \<Rightarrow>
                       exclude_range_loop p0 s e blocks
                         (if s1 = e1 then rv @ [a] else if s1 < e1 then rv @ [a @ ''..'' @ b] else rv)
                   | _ \<Rightarrow> Inl Panic))"

fun exclude_ip_loop :: "string \<Rightarrow> string list \<Rightarrow> string list \<Rightarrow> error + string list" where
  "exclude_ip_loop excludeIP [] rv = Inr rv"
| "exclude_ip_loop excludeIP (cidrBlock # blocks) rv =
     (if CheckProtocol cidrBlock = CheckProtocol excludeIP then
        (if CIDRContainIP cidrBlock excludeIP \<and> excludeIP \<noteq> SubnetNumber cidrBlock then
           (case SubnetBroadcast cidrBlock of
              Inl err \<Rightarrow> Inl err
            | Inr bc \<Rightarrow>
                if excludeIP \<noteq> bc then Inr (rv @ [excludeIP])
                else exclude_ip_loop excludeIP blocks rv)
         else exclude_ip_loop excludeIP blocks rv)
      else exclude_ip_loop excludeIP blocks rv)"

fun exclude_loop :: "string list \<Rightarrow> string list \<Rightarrow> string list \<Rightarrow> error + string list" where
  "exclude_loop blocks [] rv = Inr rv"
| "exclude_loop blocks (excludeIP # excludeIPs) rv =
     (if str_contains excludeIP ''..'' then
        (let parts = split ''..'' excludeIP in
         if length parts \<noteq> 2 \<or> CheckProtocol (parts ! 0) \<noteq> CheckProtocol (parts ! 1)
         then exclude_loop blocks excludeIPs rv
         else
           let s = IP2BigInt (parts ! 0); e = IP2BigInt (parts ! 1) in
           if s > e then exclude_loop blocks excludeIPs rv
           else case exclude_range_loop (parts ! 0) s e blocks rv of
               Inl err \<Rightarrow> Inl err
             | Inr rv' \<Rightarrow> exclude_loop blocks excludeIPs rv')
      else case exclude_ip_loop excludeIP blocks rv of
          Inl err \<Rightarrow> Inl err
        | Inr rv' \<Rightarrow> exclude_loop blocks excludeIPs rv')"

definition ExpandExcludeIPs :: "string list \<Rightarrow> string \<Rightarrow> error + string list" where
  "ExpandExcludeIPs excludeIPs cidr = exclude_loop (split_char CHR '','' cidr) excludeIPs []"

definition ContainsIPs :: "string \<Rightarrow> string \<Rightarrow> bool" where
  "ContainsIPs excludeIP ip =
     (if str_contains excludeIP ''..'' then
        let parts = split ''..'' excludeIP;
            s = IP2BigInt (parts ! 0); e = IP2BigInt (parts ! 1); v = IP2BigInt ip
        in s \<le> v \<and> e \<ge> v
      else excludeIP = ip)"

definition entry_count :: "string \<Rightarrow> int" where
  "entry_count excludeIP =
     (if str_contains excludeIP ''..'' then
        let parts = split ''..'' excludeIP
        in IP2BigInt (parts ! 1) - IP2BigInt (parts ! 0) + 1
      else 1)"

definition CountIPNumsBigInt :: "string list \<Rightarrow> int" where
  "CountIPNumsBigInt excludeIPs = foldl (\<lambda>count ex. count + entry_count ex) 0 excludeIPs"

definition GatewayContains :: "string \<Rightarrow> string \<Rightarrow> bool" where
  "GatewayContains gatewayNodeStr gateway =
     (\<exists>gw\<in>set (split_char CHR '','' gatewayNodeStr).
        TrimSpace (if CHR '':'' \<in> set gw then first_of CHR '':'' gw else gw) = TrimSpace gateway)"

text \<open>
  \<open>asSelector\<close> stands for \<open>metav1.LabelSelectorAsSelector\<close> with \<open>Matches\<close>: no value on a
  selector it cannot convert.
\<close>

definition MatchLabelSelectors ::
  "('sel \<Rightarrow> ((string, string) gomap \<Rightarrow> bool) option) \<Rightarrow> 'sel list \<Rightarrow> (string, string) gomap \<Rightarrow> bool" where
  "MatchLabelSelectors asSelector selectors nodeLabels =
     (\<exists>selector\<in>set selectors. case asSelector selector of None \<Rightarrow> False | Some m \<Rightarrow> m nodeLabels)"

definition dec_int :: "int \<Rightarrow> string" where
  "dec_int i = (if i < 0 then CHR ''-'' # dec (nat (- i)) else dec (nat i))"

definition JoinHostPort :: "string \<Rightarrow> 32 word \<Rightarrow> string" where
  "JoinHostPort host port =
     (if CHR '':'' \<in> set host then ''['' @ host @ '']:'' @ dec_int (sint port)
      else host @ '':'' @ dec_int (sint port))"

section \<open>Overlap of networks\<close>

text \<open>The inner loop returns from \<open>CIDROverlap\<close> with a value, or goes on (\<open>None\<close>).\<close>

fun overlap_inner :: "string \<Rightarrow> string list \<Rightarrow> bool option" where
  "overlap_inner cidrA [] = None"
| "overlap_inner cidrA (cidrB # bs) =
     (if CheckProtocol cidrA \<noteq> CheckProtocol cidrB then overlap_inner cidrA bs
      else case (ParseCIDR cidrA, ParseCIDR cidrB) of
          (Some (aIP, aIPNet), Some (bIP, bIPNet)) \<Rightarrow>
            if net_contains aIPNet bIP \<or> net_contains bIPNet aIP then Some True
            else overlap_inner cidrA bs
        | _ \<Rightarrow> Some False)"

fun overlap_outer :: "string list \<Rightarrow> string list \<Rightarrow> bool" where
  "overlap_outer [] bs = False"
| "overlap_outer (cidrA # as) bs =
     (case overlap_inner cidrA bs of
        Some r \<Rightarrow> r
      | None \<Rightarrow> overlap_outer as bs)"

definition CIDROverlap :: "string \<Rightarrow> string \<Rightarrow> bool" where
  "CIDROverlap a b = overlap_outer (split_char CHR '','' a) (split_char CHR '','' b)"

definition CIDRContainsCIDR :: "string \<Rightarrow> string \<Rightarrow> error + bool" where
  "CIDRContainsCIDR a b =
     (case ParseCIDR a of
        None \<Rightarrow> Inl (ErrFmt ''invalid CIDR address'')
      | Some (_, ca) \<Rightarrow>
          (case ParseCIDR b of
             None \<Rightarrow> Inl (ErrFmt ''invalid CIDR address'')
           | Some (_, cb) \<Rightarrow>
               let (oa, ba) = mask_size (NetMask ca); (ob, bb) = mask_size (NetMask cb) in
               if ba \<noteq> bb then Inl (ErrFmt (''protocol of cidr '' @ a @ '' and '' @ b @ '' not match''))
               else Inr (oa \<le> ob \<and> net_contains ca (NetIP cb))))"

definition IPv4Multicast :: string where "IPv4Multicast = ''224.0.0.0/4''"
definition IPv4Loopback :: string where "IPv4Loopback = ''127.0.0.1/8''"
definition IPv4Broadcast :: string where "IPv4Broadcast = ''255.255.255.255/32''"
definition IPv4Zero :: string where "IPv4Zero = ''0.0.0.0/32''"
definition IPv4LinkLocalUnicast :: string where "IPv4LinkLocalUnicast = ''169.254.0.0/16''"
definition IPv6Unspecified :: string where "IPv6Unspecified = ''::/128''"
definition IPv6Loopback :: string where "IPv6Loopback = ''::1/128''"
definition IPv6Multicast :: string where "IPv6Multicast = ''ff00::/8''"
definition IPv6LinkLocalUnicast :: string where "IPv6LinkLocalUnicast = ''FE80::/10''"

text \<open>The special networks in the order the code tests them, with the words of the error.\<close>

definition special_cidrs :: "(string \<times> string) list" where
  "special_cidrs =
    [(''v4 broadcast'', IPv4Broadcast), (''v4 multicast'', IPv4Multicast), (''v4 loopback'', IPv4Loopback),
     (''v4 localnet'', IPv4Zero), (''v4 link local'', IPv4LinkLocalUnicast),
     (''v6 unspecified'', IPv6Unspecified), (''v6 loopback'', IPv6Loopback),
     (''v6 multicast'', IPv6Multicast), (''v6 link local'', IPv6LinkLocalUnicast)]"

fun unicast_loop :: "string \<Rightarrow> string list \<Rightarrow> error option" where
  "unicast_loop cidr [] = None"
| "unicast_loop cidr (cidrBlock # blocks) =
     (case find (\<lambda>(w, c). CIDROverlap cidrBlock c) special_cidrs of
        Some (w, c) \<Rightarrow> Some (ErrFmt (cidr @ '' conflict with '' @ w @ '' cidr '' @ c))
      | None \<Rightarrow> unicast_loop cidr blocks)"

definition CIDRGlobalUnicast :: "string \<Rightarrow> error option" where
  "CIDRGlobalUnicast cidr = unicast_loop cidr (split_char CHR '','' cidr)"

fun CheckSystemCIDR :: "string list \<Rightarrow> error option" where
  "CheckSystemCIDR [] = None"
| "CheckSystemCIDR (cidr # cidrs) =
     (case CIDRGlobalUnicast cidr of
        Some err \<Rightarrow> Some err
      | None \<Rightarrow>
          (case find (CIDROverlap cidr) cidrs of
             Some nextCidr \<Rightarrow> Some (ErrFmt (''cidr '' @ cidr @ '' is conflict with cidr '' @ nextCidr))
           | None \<Rightarrow> CheckSystemCIDR cidrs))"

section \<open>Checks of single values\<close>

definition CheckNodeDNSIP :: "string \<Rightarrow> error option" where
  "CheckNodeDNSIP nodeLocalDNSIP =
     (if nodeLocalDNSIP \<noteq> [] \<and> \<not> IsValidIP nodeLocalDNSIP
      then Some (ErrFmt ''invalid node local dns ip'') else None)"

definition vpcExternalNet :: string where "vpcExternalNet = ''ovn-vpc-external-network''"

definition GetExternalNetwork :: "string \<Rightarrow> string" where
  "GetExternalNetwork externalNet = (if externalNet = [] then vpcExternalNet else externalNet)"

definition InvalidSpecialCIDR :: "string \<Rightarrow> error option" where
  "InvalidSpecialCIDR s =
     (if prefix ''0.0.0.0'' s then Some (ErrFmt ''invalid zero cidr'')
      else if str_contains s ''255.255.255.255'' then Some (ErrFmt ''invalid broadcast cidr'')
      else None)"

definition InvalidNetworkMask :: "IPNet \<Rightarrow> error option" where
  "InvalidNetworkMask network =
     (let (ones, bits) = mask_size (NetMask network) in
      if ones = bits then Some (ErrFmt (''invalid network mask '' @ dec ones)) else None)"

definition ValidatePort :: "string \<Rightarrow> error option" where
  "ValidatePort port =
     (let (p, ok) = Atoi_val port in
      if \<not> ok then Some (ErrFmt ''must be a number'')
      else if p < 1 \<or> p > 65535 then Some (ErrFmt ''must be between 1 and 65535'')
      else None)"

definition ValidateProtocol :: "string \<Rightarrow> error option" where
  "ValidateProtocol protocol =
     (let p = ToLower protocol in
      if p \<noteq> ''tcp'' \<and> p \<noteq> ''udp'' then Some (ErrFmt ''must be tcp or udp'') else None)"

end
