(* ===== verification/UtilIPPool.thy ===== *)
theory UtilIPPool
  imports UtilNet CidrBlocks
begin

text \<open>
  pkg/util/ippool.go: the entries of an IP pool (addresses, ranges, networks) as
  canonical networks for OVN address sets. The map \<open>seen\<close> is the list of its keys.
\<close>

definition NormalizeIP :: "string \<Rightarrow> error + bytes" where
  "NormalizeIP v =
     (let ip = ParseIP (TrimSpace v) in
      if ip = [] then Inl (ErrFmt ''invalid IP address'')
      else if ip_to4 ip \<noteq> [] then Inr (ip_to4 ip)
      else Inr (ip_to16 ip))"

definition ipToBigInt :: "bytes \<Rightarrow> nat" where
  "ipToBigInt ip = be_nat ip"

definition bigIntToIP :: "nat \<Rightarrow> nat \<Rightarrow> bytes" where
  "bigIntToIP v len =
     (let bs = big_bytes (int v);
          bs' = (if length bs < len then replicate (len - length bs) 0 @ bs
                 else if length bs > len then drop (length bs - len) bs else bs)
      in if len = 4 then ip_to4 bs' else bs')"

text \<open>
  The loop of \<open>IPRangeToCIDRs\<close>; as in \<open>ToCIDRs\<close>, a size below zero cannot come out.
\<close>

function range_to_cidrs_loop :: "nat \<Rightarrow> nat \<Rightarrow> nat \<Rightarrow> nat \<Rightarrow> string list \<Rightarrow> error + string list" where
  "range_to_cidrs_loop len totalBits startInt endInt result =
     (if startInt \<le> endInt then
        if countTrailingZeros startInt totalBits > totalBits
        then Inl (ErrFmt ''trailing zero count exceeds total bits'')
        else
          let size = block_size totalBits startInt endInt;
              network = \<lparr>NetIP = bigIntToIP startInt len, NetMask = CIDRMask (totalBits - size) totalBits\<rparr>
          in range_to_cidrs_loop len totalBits (startInt + 2 ^ size) endInt (result @ [net_string network])
      else Inr result)"
  by pat_completeness auto
termination
  by (relation "measure (\<lambda>(l, t, s, e, r). e + 1 - s)") (auto simp: Let_def intro!: diff_less_mono2)

declare range_to_cidrs_loop.simps [simp del]

definition IPRangeToCIDRs :: "bytes \<Rightarrow> bytes \<Rightarrow> error + string list" where
  "IPRangeToCIDRs s e =
     (let len = (if ip_to4 s = [] then 16 else 4); totalBits = (if ip_to4 s = [] then 128 else 32) in
      if ipToBigInt s > ipToBigInt e
      then Inl (ErrFmt (''range '' @ ip_string s @ ''..'' @ ip_string e @ '' start is greater than end''))
      else range_to_cidrs_loop len totalBits (ipToBigInt s) (ipToBigInt e) [])"

definition compareIP :: "bytes \<Rightarrow> bytes \<Rightarrow> int" where
  "compareIP a b = bytes_compare a b"

definition expandIPRange :: "string \<Rightarrow> error + string list" where
  "expandIPRange v =
     (let parts = split ''..'' v in
      if length parts \<noteq> 2 then Inl (ErrFmt ''invalid IP range'')
      else case NormalizeIP (parts ! 0) of
          Inl _ \<Rightarrow> Inl (ErrFmt ''invalid range start'')
        | Inr s \<Rightarrow>
            (case NormalizeIP (parts ! 1) of
               Inl _ \<Rightarrow> Inl (ErrFmt ''invalid range end'')
             | Inr e \<Rightarrow>
                 if (ip_to4 s \<noteq> []) \<noteq> (ip_to4 e \<noteq> []) then Inl (ErrFmt ''range mixes IPv4 and IPv6 addresses'')
                 else if compareIP s e > 0 then Inl (ErrFmt ''range start is greater than end'')
                 else case IPRangeToCIDRs s e of
                     Inl _ \<Rightarrow> Inl (ErrFmt ''failed to convert IP range to CIDRs'')
                   | Inr cidrs \<Rightarrow> Inr cidrs))"

definition normalizeCIDR :: "string \<Rightarrow> error + string" where
  "normalizeCIDR v =
     (case ParseCIDR v of
        None \<Rightarrow> Inl (ErrFmt ''invalid CIDR'')
      | Some (_, network) \<Rightarrow> Inr (net_string network))"

definition ipToCIDR :: "string \<Rightarrow> error + string" where
  "ipToCIDR v =
     (case NormalizeIP v of
        Inl _ \<Rightarrow> Inl (ErrFmt ''invalid IP address'')
      | Inr ip \<Rightarrow> Inr (ip_string ip @ ''/'' @ dec (if ip_to4 ip = [] then 128 else 32)))"

definition cut_suffix :: "string \<Rightarrow> string \<Rightarrow> string option" where
  "cut_suffix s suf = (if suffix suf s then Some (take (length s - length suf) s) else None)"

definition simplifyOVNAddress :: "string \<Rightarrow> string" where
  "simplifyOVNAddress cidr =
     (case cut_suffix cidr ''/32'' of
        Some before \<Rightarrow> before
      | None \<Rightarrow>
          (case cut_suffix cidr ''/128'' of
             Some before \<Rightarrow> before
           | None \<Rightarrow> cidr))"

text \<open>The variables of \<open>expandIPPoolAddressesInternal\<close>.\<close>

record expand_state =
  seen :: "string list"
  hasIPv4 :: bool
  hasIPv6 :: bool

definition addUnique :: "bool \<Rightarrow> string \<Rightarrow> expand_state \<Rightarrow> expand_state" where
  "addUnique checkMixedIPFamily cidr st =
     (if cidr \<in> set (seen st) then st
      else let st1 = st\<lparr>seen := seen st @ [cidr]\<rparr> in
        if checkMixedIPFamily
        then (if CHR '':'' \<in> set cidr then st1\<lparr>hasIPv6 := True\<rparr> else st1\<lparr>hasIPv4 := True\<rparr>)
        else st1)"

definition expand_entry :: "string \<Rightarrow> error + string list" where
  "expand_entry v =
     (if str_contains v ''..'' then expandIPRange v
      else if CHR ''/'' \<in> set v then
        (case normalizeCIDR v of Inl err \<Rightarrow> Inl err | Inr cidr \<Rightarrow> Inr [cidr])
      else (case ipToCIDR v of Inl err \<Rightarrow> Inl err | Inr cidr \<Rightarrow> Inr [cidr]))"

fun expand_loop :: "bool \<Rightarrow> string list \<Rightarrow> expand_state \<Rightarrow> error + expand_state" where
  "expand_loop chk [] st = Inr st"
| "expand_loop chk (raw # entries) st =
     (let v = TrimSpace raw in
      if v = [] then expand_loop chk entries st
      else case expand_entry v of
          Inl err \<Rightarrow> Inl err
        | Inr cidrs \<Rightarrow> expand_loop chk entries (foldl (\<lambda>st cidr. addUnique chk cidr st) st cidrs))"

definition expandIPPoolAddressesInternal :: "string list \<Rightarrow> bool \<Rightarrow> error + string list" where
  "expandIPPoolAddressesInternal entries checkMixedIPFamily =
     (if length entries = 0 then Inr []
      else case expand_loop checkMixedIPFamily entries \<lparr>seen = [], hasIPv4 = False, hasIPv6 = False\<rparr> of
          Inl err \<Rightarrow> Inl err
        | Inr st \<Rightarrow>
            if checkMixedIPFamily \<and> hasIPv4 st \<and> hasIPv6 st
            then Inl (ErrFmt ''mixed IPv4 and IPv6 addresses are not supported in OVN address set'')
            else Inr (sort_strings (seen st)))"

definition ExpandIPPoolAddresses :: "string list \<Rightarrow> error + string list" where
  "ExpandIPPoolAddresses entries = expandIPPoolAddressesInternal entries False"

definition ExpandIPPoolAddressesForOVN :: "string list \<Rightarrow> error + string list" where
  "ExpandIPPoolAddressesForOVN entries =
     (case expandIPPoolAddressesInternal entries True of
        Inl err \<Rightarrow> Inl err
      | Inr addresses \<Rightarrow> Inr (map simplifyOVNAddress addresses))"

definition CanonicalizeIPPoolEntries :: "string list \<Rightarrow> error + (string, bool) gomap" where
  "CanonicalizeIPPoolEntries entries =
     (case ExpandIPPoolAddresses entries of
        Inl err \<Rightarrow> Inl err
      | Inr expanded \<Rightarrow> Inr (foldl (\<lambda>m token. mput token True m) [] expanded))"

text \<open>\<open>strings.Fields\<close> on ASCII text.\<close>

fun fields_loop :: "string \<Rightarrow> string \<Rightarrow> string list" where
  "fields_loop cur [] = (if cur = [] then [] else [cur])"
| "fields_loop cur (c # s) =
     (if is_space c then (if cur = [] then fields_loop [] s else cur # fields_loop [] s)
      else fields_loop (cur @ [c]) s)"

definition NormalizeAddressSetEntries :: "string \<Rightarrow> string set" where
  "NormalizeAddressSetEntries raw =
     set (fields_loop [] (TrimSpace (replace_char (CHR 0x22) [] raw)))"

definition IPPoolAddressSetName :: "string \<Rightarrow> string" where
  "IPPoolAddressSetName name = replace_char CHR ''-'' ''.'' name"

end
