(* ===== verification/Networks.thy ===== *)
theory Networks
  imports RangeSets UtilIPPool
begin

unbundle bit_operations_syntax

text \<open>
  Networks as sets of addresses: what \<open>net.IPNet\<close> values, their text and the functions on
  that text in pkg/util/net.go and pkg/util/ippool.go mean for addresses. \<open>net_ok F n\<close> says
  that a network is of family \<open>F\<close> with prefix length \<open>n\<close> and has no host bits set,
  \<open>netset\<close> is its set of addresses. IPv6 networks that start below \<open>0:0:1::\<close> are left
  out, as in the family itself. The theory proves that parsing reads back a printed
  network, the first and last usable address, the range of a network, overlap and inclusion
  of networks, and that \<open>ToCIDRs\<close> and \<open>IPRangeToCIDRs\<close> print a smallest exact cover.
\<close>

section \<open>Networks of a family\<close>

fun flen :: "fam \<Rightarrow> nat" where
  "flen F4 = 4"
| "flen F6 = 16"

definition fbits :: "fam \<Rightarrow> nat" where
  "fbits F = 8 * flen F"

fun fbase :: "fam \<Rightarrow> nat" where
  "fbase F4 = v4base"
| "fbase F6 = 0"

lemma fbits_simps [simp]: "fbits F4 = 32" "fbits F6 = 128"
  by (simp_all add: fbits_def)

lemma ipok_flen: "ipok F a \<Longrightarrow> length a = flen F"
  by (cases F) auto

lemma ipv_fbase: "ipok F a \<Longrightarrow> ipv a = fbase F + be_nat a"
  by (cases F) (auto simp: ipv_4 ipv_16)

lemma ipmax_fbase: "ipmax F = fbase F + (2 ^ fbits F - 1)"
  by (cases F) (auto simp: fbits_def)

definition net_ok :: "fam \<Rightarrow> nat \<Rightarrow> IPNet \<Rightarrow> bool" where
  "net_ok F n net =
     (ipok F (NetIP net) \<and> n \<le> fbits F \<and> NetMask net = cidr_mask (flen F) n \<and>
      2 ^ (fbits F - n) dvd be_nat (NetIP net))"

definition netset :: "fam \<Rightarrow> nat \<Rightarrow> IPNet \<Rightarrow> nat set" where
  "netset F n net = {ipv (NetIP net)..<ipv (NetIP net) + 2 ^ (fbits F - n)}"

lemma net_ok_D:
  assumes "net_ok F n net"
  shows "ipok F (NetIP net)" "n \<le> fbits F" "NetMask net = cidr_mask (flen F) n"
    "2 ^ (fbits F - n) dvd be_nat (NetIP net)" "length (NetIP net) = flen F"
  using assms ipok_flen by (auto simp: net_ok_def)

lemma net_mask_size: "net_ok F n net \<Longrightarrow> mask_size (NetMask net) = (n, fbits F)"
  by (simp add: net_ok_def mask_size_cidr_mask fbits_def)

lemma net_number_and_mask: "net_ok F n net \<Longrightarrow> network_number_and_mask net = (NetIP net, NetMask net)"
  using ipok_F6_to4 [of "NetIP net"]
  by (cases F) (auto simp: net_ok_def network_number_and_mask_def Let_def ip_to4_def)

lemma masked_base:
  assumes "length b = l" "n \<le> 8 * l" "2 ^ (8 * l - n) dvd be_nat b"
  shows "map2 (AND) b (cidr_mask l n) = b"
  using assms by (intro be_nat_inj) (simp_all add: be_nat_mask)

lemma dvd_div_range:
  fixes b x k :: nat
  assumes "2 ^ k dvd b"
  shows "x div 2 ^ k = b div 2 ^ k \<longleftrightarrow> b \<le> x \<and> x < b + 2 ^ k"
  using blk_div [OF assms, of x] by (auto simp: blk_def)

lemma to4_family: "ipok F a \<Longrightarrow> (if ip_to4 a \<noteq> [] then ip_to4 a else a) = a"
  using ipok_F6_to4 [of a] by (cases F) (auto simp: ip_to4_def)

lemma net_contains_iff:
  assumes n: "net_ok F n net" and a: "ipok F a"
  shows "net_contains net a \<longleftrightarrow> ipv a \<in> netset F n net"
proof -
  note d = net_ok_D [OF n]
  have "net_contains net a \<longleftrightarrow>
     map2 (AND) (NetIP net) (cidr_mask (flen F) n) = map2 (AND) a (cidr_mask (flen F) n)"
    using d(3,5) ipok_flen [OF a] to4_family [OF a]
    by (simp add: net_contains_def net_number_and_mask [OF n] Let_def)
  also have "\<dots> \<longleftrightarrow> be_nat (NetIP net) div 2 ^ (fbits F - n) = be_nat a div 2 ^ (fbits F - n)"
    using d(2,5) ipok_flen [OF a] unfolding fbits_def by (intro masked_eq_iff) auto
  also have "\<dots> \<longleftrightarrow> be_nat (NetIP net) \<le> be_nat a \<and> be_nat a < be_nat (NetIP net) + 2 ^ (fbits F - n)"
    using dvd_div_range [OF d(4), of "be_nat a"] by auto
  finally show ?thesis
    using ipv_fbase [OF a] ipv_fbase [OF d(1)] by (simp add: netset_def)
qed

lemma net_contains_other:
  assumes n: "net_ok F n net" and a: "ipok G a" and "F \<noteq> G"
  shows "\<not> net_contains net a"
proof -
  have "flen F \<noteq> flen G" using assms(3) by (cases F; cases G) auto
  then show ?thesis
    using net_ok_D [OF n] ipok_flen [OF a] to4_family [OF a]
    by (simp add: net_contains_def net_number_and_mask [OF n] Let_def)
qed

text \<open>A network does not reach past the end of its family.\<close>

lemma dvd_bound:
  fixes b :: nat
  assumes "2 ^ k dvd b" "b < 2 ^ m" "k \<le> m"
  shows "b + 2 ^ k \<le> 2 ^ m"
proof -
  obtain q where q: "b = 2 ^ k * q" using assms by (elim dvdE)
  have m: "(2 :: nat) ^ m = 2 ^ k * 2 ^ (m - k)" using assms by (simp flip: power_add)
  have "q < 2 ^ (m - k)" using assms q m by simp
  then have "2 ^ k * (q + 1) \<le> 2 ^ k * 2 ^ (m - k)" by (intro mult_le_mono2) simp
  then show ?thesis using q m by simp
qed

lemma net_bound: "net_ok F n net \<Longrightarrow> be_nat (NetIP net) + 2 ^ (fbits F - n) \<le> 2 ^ fbits F"
proof -
  assume n: "net_ok F n net"
  have "be_nat (NetIP net) < 256 ^ flen F" using be_nat_less [of "NetIP net"] net_ok_D(5) [OF n] by simp
  then have "be_nat (NetIP net) < 2 ^ fbits F" by (simp add: fbits_def power_mult)
  then show ?thesis using net_ok_D(4) [OF n] by (intro dvd_bound) auto
qed

lemma netset_family: "net_ok F n net \<Longrightarrow> netset F n net \<subseteq> {ipmin F..ipmax F}"
proof -
  assume n: "net_ok F n net"
  have p: "0 < (2 :: nat) ^ fbits F" by simp
  have "ipmin F \<le> ipv (NetIP net)" using ipok_bounds net_ok_D(1) [OF n] by blast
  moreover have "ipv (NetIP net) + 2 ^ (fbits F - n) \<le> ipmax F + 1"
    using net_bound [OF n] ipv_fbase [OF net_ok_D(1) [OF n]] p unfolding ipmax_fbase by linarith
  ultimately show ?thesis unfolding netset_def by auto
qed

section \<open>Text of networks\<close>

lemma net_string_eq: "net_ok F n net \<Longrightarrow> net_string net = ip_string (NetIP net) @ ''/'' @ dec n"
proof -
  assume n: "net_ok F n net"
  have l: "0 < flen F" by (cases F) simp_all
  then have ip: "NetIP net \<noteq> []" using net_ok_D(5) [OF n] by auto
  have "length (NetMask net) = flen F" using net_ok_D(3) [OF n] by simp
  with l have "NetMask net \<noteq> []" by auto
  moreover have "mask_length (NetMask net) = Some n"
    using net_ok_D(2,3) [OF n] mask_length_cidr_mask [of n "flen F"] by (simp add: fbits_def)
  moreover note ip
  ultimately show ?thesis by (simp add: net_string_def net_number_and_mask [OF n])
qed

lemma ip_string_no_slash: "ip_valid ip \<Longrightarrow> CHR ''/'' \<notin> set (ip_string ip)"
  using ip_string_chars [of ip "CHR ''/''"] by auto

lemma parse_bits_dec: "n < 16777215 \<Longrightarrow> parse_bits (dec n) = Some n"
  by (simp add: parse_bits_def dec_digits)

lemma ip_mask_to16:
  assumes "ipok F a" "n \<le> fbits F"
  shows "ip_mask (ip_to16 a) (CIDRMask n (fbits F)) = map2 (AND) a (cidr_mask (flen F) n)"
  using assms by (cases F) (auto simp: ip_mask_def CIDRMask_def ip_to16_def Let_def)

lemma ParseCIDR_text:
  assumes a: "ipok F a" and n: "n \<le> fbits F"
  shows "ParseCIDR (ip_string a @ ''/'' @ dec n) =
    Some (ip_to16 a, \<lparr>NetIP = map2 (AND) a (cidr_mask (flen F) n), NetMask = cidr_mask (flen F) n\<rparr>)"
proof -
  have v: "ip_valid a" using a by (rule ipok_valid)
  have "cut ''/'' (ip_string a @ ''/'' @ dec n) = Some (ip_string a, dec n)"
    using cut_char_append [OF ip_string_no_slash [OF v], of "dec n"] by simp
  moreover have "parse_addr (ip_string a) = Some (ip_to16 a, fbits F)"
    using parse_addr_ip_string [OF v] a ipok_F6_to4 [of a] by (cases F) (auto simp: ip_to4_def)
  moreover have "parse_bits (dec n) = Some n"
    using n by (intro parse_bits_dec) (cases F; simp)
  moreover have "CIDRMask n (fbits F) = cidr_mask (flen F) n"
    using n by (cases F) (auto simp: CIDRMask_def)
  ultimately show ?thesis
    using n ip_mask_to16 [OF a n] by (simp add: ParseCIDR_def)
qed

lemma ParseCIDR_net_string:
  assumes n: "net_ok F n net"
  shows "ParseCIDR (net_string net) = Some (ip_to16 (NetIP net), net)"
proof -
  note d = net_ok_D [OF n]
  have "map2 (AND) (NetIP net) (cidr_mask (flen F) n) = NetIP net"
    using d by (intro masked_base) (auto simp: fbits_def)
  then show ?thesis
    using ParseCIDR_text [OF d(1,2)] d(3) net_string_eq [OF n] by (cases net) simp
qed

section \<open>Two dots\<close>

text \<open>A text in which no dot follows a dot or ends the text: the \<open>..\<close> after it is the first.\<close>

fun single_dots :: "string \<Rightarrow> bool" where
  "single_dots [] = True"
| "single_dots [c] = (c \<noteq> CHR ''.'')"
| "single_dots (a # b # s) = (\<not> (a = CHR ''.'' \<and> b = CHR ''.'') \<and> single_dots (b # s))"

lemma cut_dots: "single_dots s \<Longrightarrow> cut ''..'' (s @ ''..'' @ t) = Some (s, t)"
  by (induction s rule: single_dots.induct) auto

lemma cut_dots_None: "single_dots s \<Longrightarrow> cut ''..'' s = None"
  by (induction s rule: single_dots.induct) auto

lemma single_dots_none: "CHR ''.'' \<notin> set s \<Longrightarrow> single_dots s"
  by (induction s rule: single_dots.induct) auto

lemma single_dots_append:
  "CHR ''.'' \<notin> set ds \<Longrightarrow> r \<noteq> [] \<Longrightarrow> hd r \<noteq> CHR ''.'' \<Longrightarrow> single_dots r \<Longrightarrow> single_dots (ds @ CHR ''.'' # r)"
proof (induction ds)
  case Nil
  then show ?case by (cases r) auto
next
  case (Cons d ds)
  then show ?case by (cases "ds @ CHR ''.'' # r") auto
qed

lemma single_dots_join:
  "xs \<noteq> [] \<Longrightarrow> \<forall>x\<in>set xs. x \<noteq> [] \<and> CHR ''.'' \<notin> set x \<Longrightarrow>
     single_dots (join ''.'' xs) \<and> join ''.'' xs \<noteq> [] \<and> hd (join ''.'' xs) \<noteq> CHR ''.''"
proof (induction "''.''" xs rule: join.induct)
  case (2 x)
  then show ?case by (cases x) (auto intro: single_dots_none)
next
  case (3 x y zs)
  then show ?case by (cases x) (auto intro: single_dots_append [where ds = "_ # _", simplified])
qed simp

lemma single_dots_ip_string: "ip_valid ip \<Longrightarrow> single_dots (ip_string ip)"
proof -
  assume v: "ip_valid ip"
  then have ne: "ip \<noteq> []" by (auto simp: ip_valid_def)
  show ?thesis
  proof (cases "ip_to4 ip = []")
    case True
    with v ne have "length ip = 16" by (auto simp: ip_valid_def ip_to4_def)
    moreover have "CHR ''.'' \<notin> set (v6_string (groups16 ip))"
      using v6_string_chars [of "CHR ''.''" "groups16 ip"] by auto
    ultimately show ?thesis using True ne by (simp add: ip_string_def single_dots_none)
  next
    case False
    have "single_dots (join ''.'' (map (dec \<circ> unat) (ip_to4 ip)))"
      using False by (intro conjunct1 [OF single_dots_join]) (auto simp: dec_not_in)
    with False ne show ?thesis by (simp add: ip_string_def v4_string_def)
  qed
qed

lemma split_dots:
  assumes "single_dots s" "single_dots t"
  shows "split ''..'' (s @ ''..'' @ t) = [s, t]" "str_contains (s @ ''..'' @ t) ''..''" "split ''..'' s = [s]"
  using cut_dots [OF assms(1), of t] cut_dots_None [OF assms(2)] cut_dots_None [OF assms(1)]
  by (simp_all add: split.simps str_contains_def)

lemma parse_range_text:
  assumes "ipok F a" "ipok F b" "ipv a \<le> ipv b"
  shows "parse_range (ip_string a @ ''..'' @ ip_string b) = Inr (NewIPRange a b)"
proof -
  note s = split_dots [OF single_dots_ip_string single_dots_ip_string,
      OF ipok_valid [OF assms(1)] ipok_valid [OF assms(2)]]
  have "NewIP (ip_string a) = Inr a" "NewIP (ip_string b) = Inr b"
    using NewIP_String assms unfolding IP_String_def by blast+
  moreover have "\<not> IP_GreaterThan a b" using assms by (simp add: ip_order [of F])
  ultimately show ?thesis
    unfolding parse_range_def using s by simp
qed

lemma rl_ok_single: "rok F r \<Longrightarrow> rl_ok F [r]"
  by (simp add: rl_ok_Cons)

lemma rl_Merge_Nil: "rok F r \<Longrightarrow> rl_Merge [] [r] = [r]"
  using rl_Merge_spec [of F "[]" "[r]"] rl_ok_single [of F r] by (intro rl_ok_unique [of F]) auto

lemma NewIPRangeListFrom_text:
  assumes "ipok F a" "ipok F b" "ipv a \<le> ipv b"
  shows "NewIPRangeListFrom [ip_string a @ ''..'' @ ip_string b] = Inr [NewIPRange a b]"
  using assms rl_Merge_Nil [of F "NewIPRange a b"]
  unfolding NewIPRangeListFrom_def range_list_from.simps parse_range_text [OF assms]
  by (simp add: rok_def)

section \<open>First and last address\<close>

lemma nat_be_length: "length (nat_be n) \<le> k \<longleftrightarrow> n < 256 ^ k"
proof (induction k arbitrary: n)
  case 0
  then show ?case by (subst nat_be.simps) simp
next
  case (Suc k)
  have "length (nat_be n) \<le> Suc k \<longleftrightarrow> n = 0 \<or> n div 256 < 256 ^ k"
    using Suc [of "n div 256"] by (subst nat_be.simps) simp
  also have "\<dots> \<longleftrightarrow> n < 256 ^ Suc k"
    by (auto simp: div_less_iff_less_mult mult.commute)
  finally show ?case .
qed

lemma IP2BigInt_text: "ipok F a \<Longrightarrow> IP2BigInt (ip_string a) = int (be_nat a)"
proof -
  assume a: "ipok F a"
  then have p: "ParseIP (ip_string a) = ip_to16 a" by (intro ParseIP_ip_string ipok_valid)
  show ?thesis
  proof (cases F)
    case F4
    with a have "ip_to16 a = v4InV6Prefix @ a" "ip_to4 (v4InV6Prefix @ a) = a" "a \<noteq> []"
      by (auto simp: ip_to16_def ip_to4_def)
    with p show ?thesis by (simp add: IP2BigInt_def Let_def)
  next
    case F6
    with a ipok_F6_to4 [of a] have "ip_to16 a = a" "ip_to4 a = []" by (auto simp: ip_to16_def)
    with p show ?thesis by (simp add: IP2BigInt_def Let_def)
  qed
qed

text \<open>Printing a number: right for the numbers of IPv4, and for those of the IPv6 addresses from \<open>0:0:1::\<close> up.\<close>

lemma BigInt2Ip_text: "ipok F a \<Longrightarrow> BigInt2Ip (int (be_nat a)) = Inr (ip_string a)"
proof -
  assume a: "ipok F a"
  have l: "length a = flen F" using a by (rule ipok_flen)
  have "be_nat a < 256 ^ flen F" using be_nat_less [of a] l by simp
  then have n: "length (nat_be (be_nat a)) \<le> flen F" by (simp add: nat_be_length)
  have "length (nat_be (be_nat a)) > 4" if "F = F6"
    using a that nat_be_length [of "be_nat a" 4] by (simp add: not_le [symmetric])
  then have "(if length (nat_be (be_nat a)) > 4 then 16 else 4) = flen F"
    using n by (cases F) auto
  then show ?thesis
    using n l be_fixed_be_nat [of a] by (simp add: BigInt2Ip_def big_bytes_def Let_def)
qed

text \<open>The address \<open>d\<close> after the first of a network.\<close>

lemma ip_at:
  assumes n: "net_ok F n net" and d: "d < 2 ^ (fbits F - n)"
  obtains a where "ipok F a" "ipv a = ipv (NetIP net) + d" "be_nat a = be_nat (NetIP net) + d"
proof -
  have b: "ipok F (NetIP net)" by (rule net_ok_D [OF n])
  have "ipv (NetIP net) + d \<in> netset F n net" using d by (simp add: netset_def)
  then have "ipv (NetIP net) + d \<in> {ipmin F..ipmax F}" using netset_family [OF n] by blast
  then obtain a where a: "ipok F a" "ipv a = ipv (NetIP net) + d"
    using ip_of_ok [of F "ipv (NetIP net) + d"] by auto
  then show ?thesis using that [of a] ipv_fbase [OF b] ipv_fbase [OF a(1)] by simp
qed

lemma FirstIP_net:
  assumes n: "net_ok F n net" and lt: "n < fbits F"
  obtains a where "FirstIP (net_string net) = Inr (ip_string a)" "ipok F a"
    "ipv a = (if n + 1 = fbits F then ipv (NetIP net) else ipv (NetIP net) + 1)"
proof (cases "n + 1 = fbits F")
  case True
  then show ?thesis
    using that [of "NetIP net"] net_ok_D(1) [OF n] net_mask_size [OF n]
    by (simp add: FirstIP_def ParseCIDR_net_string [OF n])
next
  case False
  have "1 < (2 :: nat) ^ (fbits F - n)" using lt by (intro one_less_power) auto
  then obtain a where a: "ipok F a" "ipv a = ipv (NetIP net) + 1" "be_nat a = be_nat (NetIP net) + 1"
    by (rule ip_at [OF n])
  have "FirstIP (net_string net) = BigInt2Ip (int (be_nat (NetIP net)) + 1)"
    using False net_mask_size [OF n] IP2BigInt_text [OF net_ok_D(1) [OF n]]
    by (simp add: FirstIP_def ParseCIDR_net_string [OF n])
  also have "\<dots> = BigInt2Ip (int (be_nat a))" using a by (simp add: add.commute)
  finally show ?thesis using that [of a] a False BigInt2Ip_text [OF a(1)] by simp
qed

lemma LastIP_net:
  assumes n: "net_ok F n net" and lt: "n < fbits F"
  obtains a where "LastIP (net_string net) = Inr (ip_string a)" "ipok F a"
    "ipv a = (if n + 1 = fbits F then ipv (NetIP net) + 1 else ipv (NetIP net) + (2 ^ (fbits F - n) - 2))"
proof -
  let ?d = "if n + 1 = fbits F then 1 else 2 ^ (fbits F - n) - 2 :: nat"
  have p: "2 \<le> (2 :: nat) ^ (fbits F - n)"
    using lt power_increasing [of 1 "fbits F - n" "2 :: nat"] by simp
  then have "?d < 2 ^ (fbits F - n)" by auto
  then obtain a where a: "ipok F a" "ipv a = ipv (NetIP net) + ?d" "be_nat a = be_nat (NetIP net) + ?d"
    by (rule ip_at [OF n])
  have "fbits F - n = 1" if "n + 1 = fbits F" using that by simp
  then have "getCIDRSize net = int ?d"
    using net_mask_size [OF n] p by (auto simp: getCIDRSize_def Let_def of_nat_diff)
  then have "LastIP (net_string net) = BigInt2Ip (int (be_nat a))"
    using a(3) IP2BigInt_text [OF net_ok_D(1) [OF n]]
    by (simp add: LastIP_def ParseCIDR_net_string [OF n])
  then show ?thesis using that [of a] a BigInt2Ip_text [OF a(1)] by auto
qed

section \<open>Protocols\<close>

fun fproto :: "fam \<Rightarrow> string" where
  "fproto F4 = ProtocolIPv4"
| "fproto F6 = ProtocolIPv6"

lemma ParseIP_ipok: "ipok F a \<Longrightarrow> ParseIP (ip_string a) = ip_to16 a"
  by (intro ParseIP_ip_string ipok_valid)

lemma ip_to16_ipok: "ipok F a \<Longrightarrow> ip_to16 a \<noteq> [] \<and> (ip_to4 (ip_to16 a) \<noteq> [] \<longleftrightarrow> F = F4) \<and> ip_to16 (ip_to16 a) = ip_to16 a"
  using ipok_F6_to4 [of a] by (cases F) (auto simp: ip_to16_def ip_to4_def)

lemma ip_string_no_comma: "ip_valid ip \<Longrightarrow> CHR '','' \<notin> set (ip_string ip)"
  using ip_string_chars [of ip "CHR '',''"] by (auto simp: is_hex_def)

lemma CheckProtocol_text:
  assumes a: "ipok F a" and t: "CHR '','' \<notin> set t" and f: "t = [] \<or> hd t = CHR ''/''"
  shows "CheckProtocol (ip_string a @ t) = fproto F"
proof -
  have v: "ip_valid a" using a by (rule ipok_valid)
  have ne: "ip_string a \<noteq> []"
    using ParseIP_ipok [OF a] ip_to16_ipok [OF a] by (cases "ip_string a") (auto simp: ParseIP_def parse_addr_def)
  have "split_char CHR '','' (ip_string a @ t) = [ip_string a @ t]"
    using ip_string_no_comma [OF v] t by (intro split_char_none) auto
  moreover have "first_of CHR ''/'' (ip_string a @ t) = ip_string a"
    using f ip_string_no_slash [OF v] split_char_append [of "CHR ''/''" "ip_string a"]
      split_char_none [of "CHR ''/''" "ip_string a"]
    by (cases t) (auto simp: first_of_def)
  ultimately show ?thesis
    using ne ParseIP_ipok [OF a] ip_to16_ipok [OF a]
    by (cases F) (auto simp: CheckProtocol_def Let_def)
qed

lemma CheckProtocol_ip: "ipok F a \<Longrightarrow> CheckProtocol (ip_string a) = fproto F"
  using CheckProtocol_text [of F a "[]"] by simp

lemma CheckProtocol_net: "net_ok F n net \<Longrightarrow> CheckProtocol (net_string net) = fproto F"
  using CheckProtocol_text [of F "NetIP net" "''/'' @ dec n"] net_ok_D(1) [of F n net] dec_not_in [of "CHR '',''" n]
  by (simp add: net_string_eq)

section \<open>The range of a network\<close>

lemma NewIPRangeFromCIDR_net:
  assumes n: "net_ok F n net"
  shows "rok F (NewIPRangeFromCIDR net) \<and> rset (NewIPRangeFromCIDR net) = netset F n net"
proof -
  note d = net_ok_D [OF n]
  have m: "map2 (AND) (NetIP net) (cidr_mask (flen F) n) = NetIP net"
    using d by (intro masked_base) (auto simp: fbits_def)
  have "ip_mask (NetIP net) (NetMask net) = NetIP net"
    using m d by (cases F) (auto simp: ip_mask_def Let_def)
  then have r: "NewIPRangeFromCIDR net =
      \<lparr>rstart = NetIP net, rend = map2 (\<lambda>b m. b OR NOT m) (NetIP net) (cidr_mask (flen F) n)\<rparr>"
    using NewIP_String [OF d(1)] d(3) unfolding NewIPRangeFromCIDR_def IP_String_def by (simp only: sum.case Let_def)
  let ?e = "map2 (\<lambda>b m. b OR NOT m) (NetIP net) (cidr_mask (flen F) n)"
  have "be_nat ?e + 1 = be_nat (NetIP net) div 2 ^ (fbits F - n) * 2 ^ (fbits F - n) + 2 ^ (fbits F - n)"
    using be_nat_fill [of "NetIP net" "flen F" n] d(2,5) m by (simp add: fbits_def)
  also have "\<dots> = be_nat (NetIP net) + 2 ^ (fbits F - n)" using d(4) by simp
  finally have e: "be_nat ?e + 1 = be_nat (NetIP net) + 2 ^ (fbits F - n)" .
  have one: "1 \<le> (2 :: nat) ^ (fbits F - n)" by simp
  then have le: "be_nat (NetIP net) \<le> be_nat ?e" using e by linarith
  then have ok: "ipok F ?e" using d(1,5) by (cases F) auto
  then have "ipv ?e + 1 = ipv (NetIP net) + 2 ^ (fbits F - n)"
    using e ipv_fbase [OF ok] ipv_fbase [OF d(1)] by simp
  then show ?thesis
    using r d(1) ok le ipv_fbase [OF ok] ipv_fbase [OF d(1)]
    by (auto simp: rok_def rset_def netset_def)
qed

section \<open>What ParseCIDR returns\<close>

lemma parse_addr_cases:
  assumes "parse_addr s = Some (ip, bits)"
  shows "(bits = 32 \<and> (\<exists>b. length b = 4 \<and> ip = v4InV6Prefix @ b)) \<or> (bits = 128 \<and> length ip = 16)"
proof -
  have "length (ParseIP s) = 16" if "bits = 128"
    using assms ParseIP_length [of s] that parse_v6_length [of s]
    by (auto simp: ParseIP_def parse_addr_def groups_bytes_def split: if_splits option.splits)
  then show ?thesis
    using assms by (auto simp: ParseIP_def parse_addr_def parse_v4_def Let_def split: if_splits option.splits)
qed

lemma masked_dvd:
  "length b = l \<Longrightarrow> n \<le> 8 * l \<Longrightarrow> 2 ^ (8 * l - n) dvd be_nat (map2 (AND) b (cidr_mask l n))"
  by (simp add: be_nat_mask)

lemma ParseCIDR_net_ok:
  assumes "ParseCIDR s = Some (ip, net)"
  shows "\<exists>n. net_ok F4 n net \<or> (length (NetIP net) = 16 \<and> (ipok F6 (NetIP net) \<longrightarrow> net_ok F6 n net))"
proof -
  obtain a m bits n where p: "cut ''/'' s = Some (a, m)" "parse_addr a = Some (ip, bits)"
    "parse_bits m = Some n" "n \<le> bits" "net = \<lparr>NetIP = ip_mask ip (CIDRMask n bits), NetMask = CIDRMask n bits\<rparr>"
    using assms by (auto simp: ParseCIDR_def split: option.splits if_splits)
  from parse_addr_cases [OF p(2)] show ?thesis
  proof
    assume "bits = 32 \<and> (\<exists>b. length b = 4 \<and> ip = v4InV6Prefix @ b)"
    then obtain b where b: "bits = 32" "length b = 4" "ip = v4InV6Prefix @ b" by auto
    have "ip_mask ip (CIDRMask n bits) = map2 (AND) b (cidr_mask 4 n)"
      using b p(4) by (simp add: ip_mask_def CIDRMask_def)
    then have "net_ok F4 n net"
      using b p(4,5) masked_dvd [of b 4 n] by (simp add: net_ok_def CIDRMask_def)
    then show ?thesis by blast
  next
    assume b: "bits = 128 \<and> length ip = 16"
    then have i: "ip_mask ip (CIDRMask n bits) = map2 (AND) ip (cidr_mask 16 n)"
      using p(4) by (simp add: ip_mask_def CIDRMask_def)
    then have "length (NetIP net) = 16" using b p(5) by simp
    moreover have "ipok F6 (NetIP net) \<longrightarrow> net_ok F6 n net"
      using b p(4,5) i masked_dvd [of ip 16 n] by (simp add: net_ok_def CIDRMask_def)
    ultimately show ?thesis by blast
  qed
qed

section \<open>Ranges as networks\<close>

text \<open>The addresses of a network, and of a text that is one.\<close>

definition net_addrs :: "fam \<Rightarrow> IPNet \<Rightarrow> nat set" where
  "net_addrs F net = {ipv a |a. ipok F a \<and> net_contains net a}"

definition text_addrs :: "fam \<Rightarrow> string \<Rightarrow> nat set" where
  "text_addrs F t = (case ParseCIDR t of None \<Rightarrow> {} | Some (_, net) \<Rightarrow> net_addrs F net)"

lemma net_addrs_netset: "net_ok F n net \<Longrightarrow> net_addrs F net = netset F n net"
proof -
  assume n: "net_ok F n net"
  have "x \<in> net_addrs F net" if "x \<in> netset F n net" for x
    using that netset_family [OF n] ip_of_ok [of F x] net_contains_iff [OF n, of "ip_of F x"]
    by (force simp: net_addrs_def)
  then show ?thesis using net_contains_iff [OF n] by (auto simp: net_addrs_def)
qed

lemma text_addrs_net: "net_ok F n net \<Longrightarrow> text_addrs F (net_string net) = netset F n net"
  by (simp add: text_addrs_def ParseCIDR_net_string net_addrs_netset)

definition block_net :: "fam \<Rightarrow> nat \<times> nat \<Rightarrow> IPNet" where
  "block_net F b = \<lparr>NetIP = be_fixed (flen F) (fst b), NetMask = cidr_mask (flen F) (fbits F - snd b)\<rparr>"

definition shift :: "fam \<Rightarrow> nat set \<Rightarrow> nat set" where
  "shift F X = (\<lambda>x. fbase F + x) ` X"

lemma shift_interval: "shift F {a..b} = {fbase F + a..fbase F + b}" "shift F {a..<b} = {fbase F + a..<fbase F + b}"
  by (simp_all add: shift_def add.commute)

lemma block_net_ok:
  assumes s: "ipok F s" and b: "aligned (fbits F) b" "be_nat s \<le> fst b" "fst b < 2 ^ fbits F"
  shows "net_ok F (fbits F - snd b) (block_net F b) \<and>
    netset F (fbits F - snd b) (block_net F b) = shift F (blk b)"
proof -
  have "2 ^ fbits F = (256 :: nat) ^ flen F" by (simp add: fbits_def power_mult)
  then have n: "be_nat (be_fixed (flen F) (fst b)) = fst b" using b(3) by (simp add: be_nat_be_fixed)
  then have ok: "ipok F (be_fixed (flen F) (fst b))" using s b(2) by (cases F) auto
  moreover have d: "fbits F - (fbits F - snd b) = snd b" using b(1) by (simp add: aligned_def)
  ultimately have "net_ok F (fbits F - snd b) (block_net F b)"
    using b(1) n by (simp add: net_ok_def block_net_def aligned_def)
  moreover have "netset F (fbits F - snd b) (block_net F b) = shift F (blk b)"
    using d n ipv_fbase [OF ok] by (simp add: netset_def block_net_def blk_def shift_interval add.assoc)
  ultimately show ?thesis ..
qed

text \<open>The texts of the blocks of a range denote the addresses of the blocks.\<close>

lemma block_texts:
  assumes s: "ipok F s" and e: "ipok F e" and b: "b \<in> set (cidr_blocks (fbits F) (be_nat s) (be_nat e))"
  shows "net_ok F (fbits F - snd b) (block_net F b)" "text_addrs F (net_string (block_net F b)) = shift F (blk b)"
proof -
  note c = cidr_blocks_cover [of "fbits F" "be_nat s" "be_nat e"]
  have "fst b \<in> blk b" by (simp add: blk_def)
  then have "fst b \<le> be_nat e" using c b by auto
  also have "\<dots> < 2 ^ fbits F" using be_nat_less [of e] ipok_flen [OF e] by (simp add: fbits_def power_mult)
  finally have "fst b < 2 ^ fbits F" .
  moreover have "aligned (fbits F) b" "be_nat s \<le> fst b" using c b by auto
  ultimately have n: "net_ok F (fbits F - snd b) (block_net F b) \<and>
      netset F (fbits F - snd b) (block_net F b) = shift F (blk b)"
    by (intro block_net_ok [OF s])
  then show "net_ok F (fbits F - snd b) (block_net F b)" ..
  with n show "text_addrs F (net_string (block_net F b)) = shift F (blk b)"
    by (simp add: text_addrs_net)
qed

lemma cidr_texts_cover:
  assumes s: "ipok F s" and e: "ipok F e"
  shows "(\<Union>t\<in>set (map (net_string \<circ> block_net F) (cidr_blocks (fbits F) (be_nat s) (be_nat e))). text_addrs F t)
    = {ipv s..ipv e}"
proof -
  have "(\<Union>t\<in>set (map (net_string \<circ> block_net F) (cidr_blocks (fbits F) (be_nat s) (be_nat e))). text_addrs F t)
    = shift F (\<Union>b\<in>set (cidr_blocks (fbits F) (be_nat s) (be_nat e)). blk b)"
    using block_texts(2) [OF s e] by (simp add: shift_def image_UN)
  also have "\<dots> = {ipv s..ipv e}"
    using cidr_blocks_cover [of "fbits F" "be_nat s" "be_nat e"]
    by (simp add: shift_interval ipv_fbase [OF s] ipv_fbase [OF e])
  finally show ?thesis .
qed

text \<open>Any other exact cover by networks of the family has at least as many.\<close>

lemma cidr_texts_minimal:
  assumes s: "ipok F s" and e: "ipok F e" and C: "finite C" "\<forall>net\<in>C. \<exists>n. net_ok F n net"
    and cov: "(\<Union>net\<in>C. net_addrs F net) = {ipv s..ipv e}"
  shows "length (cidr_blocks (fbits F) (be_nat s) (be_nat e)) \<le> card C"
proof -
  obtain pl where pl: "\<forall>net\<in>C. net_ok F (pl net) net" using C(2) by metis
  define f where "f net = (be_nat (NetIP net), fbits F - pl net)" for net
  have al: "aligned (fbits F) (f net)" "shift F (blk (f net)) = net_addrs F net" if "net \<in> C" for net
  proof -
    have n: "net_ok F (pl net) net" using pl that by blast
    show "aligned (fbits F) (f net)" using net_ok_D [OF n] by (simp add: f_def aligned_def)
    show "shift F (blk (f net)) = net_addrs F net"
      using ipv_fbase [OF net_ok_D(1) [OF n]] net_addrs_netset [OF n]
      by (simp add: f_def blk_def netset_def shift_interval add.assoc)
  qed
  have "shift F (\<Union>b\<in>f ` C. blk b) = (\<Union>net\<in>C. net_addrs F net)"
    using al(2) by (simp add: shift_def image_UN)
  also have "\<dots> = shift F {be_nat s..be_nat e}"
    using cov by (simp add: shift_interval ipv_fbase [OF s] ipv_fbase [OF e])
  finally have "(\<Union>b\<in>f ` C. blk b) = {be_nat s..be_nat e}"
    unfolding shift_def by (rule inj_image_eq_iff [THEN iffD1, rotated]) (simp add: inj_def)
  then have "length (cidr_blocks (fbits F) (be_nat s) (be_nat e)) \<le> card (f ` C)"
    using C(1) al(1) by (intro cidr_blocks_minimal) auto
  also have "\<dots> \<le> card C" by (rule card_image_le [OF C(1)])
  finally show ?thesis .
qed

section \<open>The two loops\<close>

lemma CIDRMask_fbits: "n \<le> fbits F \<Longrightarrow> CIDRMask n (fbits F) = cidr_mask (flen F) n"
  by (cases F) (auto simp: CIDRMask_def)

lemma loop_net:
  "\<lparr>NetIP = be_fixed (flen F) s, NetMask = CIDRMask (fbits F - k) (fbits F)\<rparr> = block_net F (s, k)"
  by (simp add: block_net_def CIDRMask_fbits)

lemma to_cidrs_loop_eq:
  "to_cidrs_loop (flen F) (fbits F) s e result =
     Inr (result @ map (net_string \<circ> block_net F) (cidr_blocks (fbits F) s e))"
proof (induction "fbits F" s e arbitrary: result rule: cidr_blocks.induct)
  case (1 s e)
  show ?case
  proof (cases "s \<le> e")
    case True
    have "\<not> countTrailingZeros s (fbits F) > fbits F" by (simp add: not_less countTrailingZeros_le)
    then show ?thesis
      using True 1 [OF True refl]
      by (subst to_cidrs_loop.simps) (simp add: Let_def cidr_blocks_Cons bytes2IP_big loop_net)
  qed (simp add: to_cidrs_loop.simps)
qed

lemma bigIntToIP_eq: "bigIntToIP v (flen F) = be_fixed (flen F) v"
proof -
  have "bigIntToIP v (flen F) = bytes2IP (big_bytes (int v)) (flen F)"
    using bytes2IP_length [of "big_bytes (int v)" 4]
    by (cases F) (auto simp: bigIntToIP_def bytes2IP_def Let_def ip_to4_def)
  then show ?thesis by (simp add: bytes2IP_big)
qed

lemma range_to_cidrs_loop_eq:
  "range_to_cidrs_loop (flen F) (fbits F) s e result =
     Inr (result @ map (net_string \<circ> block_net F) (cidr_blocks (fbits F) s e))"
proof (induction "fbits F" s e arbitrary: result rule: cidr_blocks.induct)
  case (1 s e)
  show ?case
  proof (cases "s \<le> e")
    case True
    have "\<not> countTrailingZeros s (fbits F) > fbits F" by (simp add: not_less countTrailingZeros_le)
    then show ?thesis
      using True 1 [OF True refl]
      by (subst range_to_cidrs_loop.simps) (simp add: Let_def cidr_blocks_Cons bigIntToIP_eq loop_net)
  qed (simp add: range_to_cidrs_loop.simps)
qed

lemma to4_flen: "ipok F s \<Longrightarrow> (if ip_to4 s = [] then 16 else 4) = flen F \<and> (if ip_to4 s = [] then 128 else 32) = fbits F"
  using ipok_F6_to4 [of s] by (cases F) (auto simp: ip_to4_def)

lemma IPRangeToCIDRs_eq:
  assumes s: "ipok F s" and e: "ipok F e" and le: "ipv s \<le> ipv e"
  shows "IPRangeToCIDRs s e = Inr (map (net_string \<circ> block_net F) (cidr_blocks (fbits F) (be_nat s) (be_nat e)))"
proof -
  have "be_nat s \<le> be_nat e" using le ipv_fbase [OF s] ipv_fbase [OF e] by simp
  then show ?thesis
    using range_to_cidrs_loop_eq [of F "be_nat s" "be_nat e" "[]"] to4_flen [OF s]
    by (simp only: IPRangeToCIDRs_def ipToBigInt_def Let_def) simp
qed

lemma IPRangeToCIDRs_error:
  assumes "ipok F s" "ipok F e" "ipv e < ipv s"
  shows "\<exists>m. IPRangeToCIDRs s e = Inl (ErrFmt m)"
  using assms ipv_fbase [of F s] ipv_fbase [of F e] by (simp add: IPRangeToCIDRs_def ipToBigInt_def Let_def)

lemma block_size_single: "block_size T v v = 0"
proof -
  have "2 ^ block_size T v v \<le> (1 :: nat)" using block_size_ok [of v v T] by simp
  then show ?thesis using one_less_power [of "2 :: nat" "block_size T v v"] by (cases "block_size T v v = 0") auto
qed

text \<open>One range of a list: a single address is its own network.\<close>

lemma range_cidrs_eq:
  assumes r: "rok F r"
  shows "range_cidrs r result = Inr (result @
    map (net_string \<circ> block_net F) (cidr_blocks (fbits F) (be_nat (rstart r)) (be_nat (rend r))))"
proof -
  note ok = rok_D [OF r]
  have le: "be_nat (rstart r) \<le> be_nat (rend r)"
    using ok ipv_fbase [OF ok(1)] ipv_fbase [OF ok(2)] by simp
  show ?thesis
  proof (cases "ipv (rstart r) = ipv (rend r)")
    case True
    then have eq: "rstart r = rend r" using ok ipok_inj by blast
    have "block_size (fbits F) (be_nat (rend r)) (be_nat (rend r)) = 0" by (rule block_size_single)
    then have b: "cidr_blocks (fbits F) (be_nat (rend r)) (be_nat (rend r)) = [(be_nat (rend r), 0)]"
      by (simp add: cidr_blocks_Cons)
    have "net_string (block_net F (be_nat (rend r), 0)) = ip_string (rend r) @ ''/'' @ dec (fbits F)"
      using net_string_eq [OF block_texts(1) [OF ok(2) ok(2)], of "(be_nat (rend r), 0)"] b
        be_fixed_be_nat [of "rend r"] ipok_flen [OF ok(2)] by (simp add: block_net_def)
    moreover have "(if length (rend r) = 16 then 128 else 32) = fbits F"
      using ok(2) by (cases F) auto
    moreover have "IP_Equal (rstart r) (rend r)" using ok True by (simp add: ip_order [of F])
    ultimately show ?thesis
      using b eq by (simp add: range_cidrs_def Let_def IP_String_def)
  next
    case False
    then have "\<not> IP_Equal (rstart r) (rend r)" using ok by (simp add: ip_order [of F])
    then show ?thesis
      using le to_cidrs_loop_eq [of F "be_nat (rstart r)" "be_nat (rend r)" result] to4_flen [OF ok(1)]
      by (simp only: range_cidrs_def Let_def) simp
  qed
qed

definition rl_cidr_texts :: "fam \<Rightarrow> IPRangeList \<Rightarrow> string list" where
  "rl_cidr_texts F rs = concat (map (\<lambda>r.
     map (net_string \<circ> block_net F) (cidr_blocks (fbits F) (be_nat (rstart r)) (be_nat (rend r)))) rs)"

lemma ranges_cidrs_eq: "\<forall>r\<in>set rs. rok F r \<Longrightarrow> ranges_cidrs rs result = Inr (result @ rl_cidr_texts F rs)"
  by (induction rs arbitrary: result) (auto simp: range_cidrs_eq rl_cidr_texts_def)

lemma rl_ToCIDRs_eq: "rl_ok F rs \<Longrightarrow> rl_ToCIDRs rs = Inr (sort_strings (rl_cidr_texts F rs))"
  using ranges_cidrs_eq [of rs F "[]"]
  by (auto simp: rl_ToCIDRs_def rl_Len_def rl_ok_def rl_cidr_texts_def sort_strings_def)

lemma rl_cidr_texts_cover:
  assumes "rl_ok F rs"
  shows "(\<Union>t\<in>set (rl_cidr_texts F rs). text_addrs F t) = rlset rs"
proof -
  have "(\<Union>t\<in>set (map (net_string \<circ> block_net F) (cidr_blocks (fbits F) (be_nat (rstart r)) (be_nat (rend r)))).
      text_addrs F t) = rset r" if "r \<in> set rs" for r
    using cidr_texts_cover [OF rok_D(1,2) [OF rl_ok_rok [OF assms that]]] by (simp add: rset_def)
  then show ?thesis by (simp add: rl_cidr_texts_def rlset_def)
qed

section \<open>Overlap and inclusion\<close>

text \<open>An address with a prefix length, as the sources write a network, and the network it names.\<close>

definition cidr_text :: "bytes \<Rightarrow> nat \<Rightarrow> string" where
  "cidr_text a n = ip_string a @ ''/'' @ dec n"

definition text_net :: "fam \<Rightarrow> bytes \<Rightarrow> nat \<Rightarrow> IPNet" where
  "text_net F a n = \<lparr>NetIP = map2 (AND) a (cidr_mask (flen F) n), NetMask = cidr_mask (flen F) n\<rparr>"

definition text_ok :: "fam \<Rightarrow> bytes \<Rightarrow> nat \<Rightarrow> bool" where
  "text_ok F a n = (ipok F a \<and> net_ok F n (text_net F a n))"

lemma ParseCIDR_cidr_text: "text_ok F a n \<Longrightarrow> ParseCIDR (cidr_text a n) = Some (ip_to16 a, text_net F a n)"
  using ParseCIDR_text [of F a n] by (simp add: text_ok_def cidr_text_def text_net_def net_ok_def)

lemma text_addrs_cidr_text: "text_ok F a n \<Longrightarrow> text_addrs F (cidr_text a n) = netset F n (text_net F a n)"
  by (simp add: text_addrs_def ParseCIDR_cidr_text) (simp add: text_ok_def net_addrs_netset)

lemma cidr_text_no_comma: "ipok F a \<Longrightarrow> CHR '','' \<notin> set (cidr_text a n)"
  using ip_string_no_comma [OF ipok_valid, of F a] dec_not_in [of "CHR '',''" n] by (simp add: cidr_text_def)

lemma split_cidr_text: "ipok F a \<Longrightarrow> split_char CHR '','' (cidr_text a n) = [cidr_text a n]"
  by (intro split_char_none cidr_text_no_comma)

lemma CheckProtocol_cidr_text: "ipok F a \<Longrightarrow> CheckProtocol (cidr_text a n) = fproto F"
  using CheckProtocol_text [of F a "''/'' @ dec n"] dec_not_in [of "CHR '',''" n] by (simp add: cidr_text_def)

lemma net_contains_to16: "ip_valid a \<Longrightarrow> net_contains net (ip_to16 a) = net_contains net a"
proof -
  assume v: "ip_valid a"
  have "(if ip_to4 (ip_to16 a) \<noteq> [] then ip_to4 (ip_to16 a) else ip_to16 a) = (if ip_to4 a \<noteq> [] then ip_to4 a else a)"
    using v by (auto simp: ip_valid_def ip_to16_def ip_to4_def)
  then show ?thesis by (simp add: net_contains_def)
qed

lemma text_self: "text_ok F a n \<Longrightarrow> ipv a \<in> netset F n (text_net F a n)"
proof -
  assume t: "text_ok F a n"
  then have a: "ipok F a" and n: "net_ok F n (text_net F a n)" by (auto simp: text_ok_def)
  have "net_contains (text_net F a n) a"
    using ipok_flen [OF a] net_ok_D(5) [OF n] to4_family [OF a]
    by (simp add: net_contains_def net_number_and_mask [OF n] Let_def) (simp add: text_net_def map2_and_idem)
  then show ?thesis using net_contains_iff [OF n a] by simp
qed

text \<open>Two networks of a family are disjoint or one holds the other.\<close>

lemma netset_blk: "net_ok F n net \<Longrightarrow> netset F n net = shift F (blk (be_nat (NetIP net), fbits F - n))"
  using ipv_fbase [OF net_ok_D(1)] by (simp add: netset_def blk_def shift_interval add.assoc)

lemma shift_mono: "shift F X \<subseteq> shift F Y \<longleftrightarrow> X \<subseteq> Y" "shift F X \<inter> shift F Y = shift F (X \<inter> Y)"
  by (auto simp: shift_def)

lemma shift_empty [simp]: "shift F X = {} \<longleftrightarrow> X = {}"
  by (simp add: shift_def)

lemma netset_laminar:
  assumes x: "net_ok F n x" and y: "net_ok F m y" and "m \<le> n" "netset F n x \<inter> netset F m y \<noteq> {}"
  shows "netset F n x \<subseteq> netset F m y"
  using assms blk_laminar [OF net_ok_D(4) [OF x] net_ok_D(4) [OF y]]
  by (simp add: netset_blk shift_mono)

lemma fproto_inj: "fproto F = fproto G \<longleftrightarrow> F = G"
  by (cases F; cases G) (auto simp: protocol_defs)

lemma CIDROverlap_iff:
  assumes a: "text_ok F a n" and b: "text_ok G b m"
  shows "CIDROverlap (cidr_text a n) (cidr_text b m) \<longleftrightarrow>
    F = G \<and> text_addrs F (cidr_text a n) \<inter> text_addrs G (cidr_text b m) \<noteq> {}"
proof -
  have ok: "ipok F a" "ipok G b" "net_ok F n (text_net F a n)" "net_ok G m (text_net G b m)"
    using a b by (auto simp: text_ok_def)
  have s: "CIDROverlap (cidr_text a n) (cidr_text b m) \<longleftrightarrow>
      F = G \<and> (net_contains (text_net F a n) b \<or> net_contains (text_net G b m) a)"
    using ok ParseCIDR_cidr_text [OF a] ParseCIDR_cidr_text [OF b]
    by (auto simp: CIDROverlap_def split_cidr_text CheckProtocol_cidr_text fproto_inj net_contains_to16 ipok_valid)
  show ?thesis
  proof (cases "F = G")
    case False
    with s show ?thesis by simp
  next
    case True
    then have "net_contains (text_net F a n) b \<or> net_contains (text_net G b m) a
      \<longleftrightarrow> ipv b \<in> netset F n (text_net F a n) \<or> ipv a \<in> netset F m (text_net F b m)"
      using ok net_contains_iff by auto
    also have "\<dots> \<longleftrightarrow> netset F n (text_net F a n) \<inter> netset F m (text_net F b m) \<noteq> {}"
      using True text_self [OF a] text_self [OF b] ok
        netset_laminar [OF ok(3), of m "text_net F b m"] netset_laminar [OF _ ok(3), of m "text_net F b m"]
      by (cases "m \<le> n") auto
    finally show ?thesis using s True a b by (simp add: text_addrs_cidr_text)
  qed
qed

lemma CIDRContainsCIDR_iff:
  assumes a: "text_ok F a n" and b: "text_ok G b m"
  shows "CIDRContainsCIDR (cidr_text a n) (cidr_text b m) =
    (if F = G then Inr (text_addrs G (cidr_text b m) \<subseteq> text_addrs F (cidr_text a n))
     else Inl (ErrFmt (''protocol of cidr '' @ cidr_text a n @ '' and '' @ cidr_text b m @ '' not match'')))"
proof -
  have ok: "ipok F a" "ipok G b" "net_ok F n (text_net F a n)" "net_ok G m (text_net G b m)"
    using a b by (auto simp: text_ok_def)
  have e: "CIDRContainsCIDR (cidr_text a n) (cidr_text b m) =
    (if fbits F \<noteq> fbits G
     then Inl (ErrFmt (''protocol of cidr '' @ cidr_text a n @ '' and '' @ cidr_text b m @ '' not match''))
     else Inr (n \<le> m \<and> net_contains (text_net F a n) (NetIP (text_net G b m))))"
    using ParseCIDR_cidr_text [OF a] ParseCIDR_cidr_text [OF b] net_mask_size [OF ok(3)] net_mask_size [OF ok(4)]
    by (simp add: CIDRContainsCIDR_def)
  show ?thesis
  proof (cases "F = G")
    case False
    then have "fbits F \<noteq> fbits G" by (cases F; cases G) auto
    with e False show ?thesis by simp
  next
    case True
    let ?A = "netset F n (text_net F a n)" and ?B = "netset F m (text_net F b m)"
    have base: "ipv (NetIP (text_net F b m)) \<in> ?B" by (simp add: netset_def)
    have bok: "net_ok F m (text_net F b m)" using ok(4) True by simp
    have "n \<le> m" if "?B \<subseteq> ?A"
    proof (rule ccontr)
      assume "\<not> n \<le> m"
      moreover have "n \<le> fbits F" using ok(3) by (rule net_ok_D)
      ultimately have "(2 :: nat) ^ (fbits F - n) < 2 ^ (fbits F - m)" by (intro power_strict_increasing) auto
      moreover have "card ?B \<le> card ?A" using that by (intro card_mono) (simp_all add: netset_def)
      ultimately show False by (simp add: netset_def)
    qed
    then have "n \<le> m \<and> ipv (NetIP (text_net F b m)) \<in> ?A \<longleftrightarrow> ?B \<subseteq> ?A"
      using netset_laminar [OF bok ok(3)] base by blast
    then show ?thesis
      using e True a b net_contains_iff [OF ok(3) net_ok_D(1) [OF bok]] by (simp add: text_addrs_cidr_text)
  qed
qed

lemma CIDRContainIP_iff:
  assumes a: "text_ok F a n" and x: "ipok G x"
  shows "CIDRContainIP (cidr_text a n) (ip_string x) \<longleftrightarrow> F = G \<and> ipv x \<in> text_addrs F (cidr_text a n)"
proof -
  have ok: "ipok F a" "net_ok F n (text_net F a n)" using a by (auto simp: text_ok_def)
  have ne: "cidr_text a n \<noteq> []" by (simp add: cidr_text_def)
  have sx: "split_char CHR '','' (ip_string x) = [ip_string x]"
    using ip_string_no_comma [OF ipok_valid [OF x]] by (rule split_char_none)
  have "ParseIP (ip_string x) = ip_to16 x" "ip_to16 x \<noteq> []"
    using ParseIP_ipok [OF x] ip_to16_ipok [OF x] by auto
  then have "CIDRContainIP (cidr_text a n) (ip_string x) \<longleftrightarrow> F = G \<and> net_contains (text_net F a n) x"
    using ne sx ok ParseCIDR_cidr_text [OF a]
    by (simp add: CIDRContainIP_def split_cidr_text CheckProtocol_cidr_text CheckProtocol_ip [OF x]
        fproto_inj net_contains_to16 ipok_valid [OF x])
  then show ?thesis using net_contains_iff [OF ok(2), of x] x a by (auto simp: text_addrs_cidr_text)
qed

section \<open>MAC addresses\<close>

lemma mac_bits:
  "bit ((b OR 0x02) AND 0xfe :: byte) i \<longleftrightarrow> i = 1 \<or> (i \<noteq> 0 \<and> i < 8 \<and> bit b i)"
proof -
  have e: "(0xfe :: byte) = NOT (mask 1)" by (simp add: mask_eq_exp_minus_1)
  have "(0x02 :: byte) = push_bit 1 1" by simp
  then show ?thesis unfolding e by (auto simp: bit_simps)
qed

lemma GenerateMacWithExclusion_spec:
  "GenerateMacWithExclusion ex draws =
     (case dropWhile (\<lambda>b. GenerateMac b \<in> set ex) draws of [] \<Rightarrow> None | b # bs \<Rightarrow> Some (GenerateMac b, bs))"
  by (induction draws) auto

lemma usable_interval:
  fixes x p :: nat
  assumes "4 \<le> p"
  shows "x + 1 \<le> x + (p - 2) \<and> {x + 1..x + (p - 2)} = {x..<x + p} - {x, x + p - 1}"
  using assms by auto

section \<open>Properties\<close>

text \<open>\<open>ToCIDRs\<close> of a well-formed list never fails and returns a sorted list of networks whose
  addresses, read back from the text, are exactly the addresses of the list.\<close>

theorem ToCIDRs_exact:
  assumes "rl_ok F rs"
  shows "\<exists>cs. rl_ToCIDRs rs = Inr cs \<and> sorted_wrt str_le cs \<and> (\<Union>t\<in>set cs. text_addrs F t) = rlset rs"
  using rl_ToCIDRs_eq [OF assms] rl_cidr_texts_cover [OF assms] sorted_sort_strings by auto

theorem ToCIDRs_exact_witness:
  "rl_ok F4 [NewIPRange [10,0,0,1] [10,0,0,6]] \<and>
   rl_ToCIDRs [NewIPRange [10,0,0,1] [10,0,0,6]] = Inr [''10.0.0.1/32'', ''10.0.0.2/31'', ''10.0.0.4/31'', ''10.0.0.6/32''] \<and>
   (\<Union>t\<in>set [''10.0.0.1/32'', ''10.0.0.2/31'', ''10.0.0.4/31'', ''10.0.0.6/32'']. text_addrs F4 t)
     = rlset [NewIPRange [10,0,0,1] [10,0,0,6]]"
proof -
  have a: "rl_ok F4 [NewIPRange [10,0,0,1] [10,0,0,6]]" by code_simp
  have b: "rl_ToCIDRs [NewIPRange [10,0,0,1] [10,0,0,6]] =
    Inr [''10.0.0.1/32'', ''10.0.0.2/31'', ''10.0.0.4/31'', ''10.0.0.6/32'']" by code_simp
  from ToCIDRs_exact [OF a] a b show ?thesis by (metis sum.inject(2))
qed

text \<open>C35.
  \<open>IPRangeToCIDRs\<close> of a range of one family in order returns networks that cover exactly
  the range, and no set of networks that covers exactly the range is smaller; of a range
  in the wrong order it returns an error.\<close>

theorem IPRangeToCIDRs_smallest:
  assumes "ipok F s" "ipok F e"
  shows "if ipv s \<le> ipv e then
      \<exists>cs. IPRangeToCIDRs s e = Inr cs \<and> (\<Union>t\<in>set cs. text_addrs F t) = {ipv s..ipv e} \<and>
        (\<forall>C. finite C \<and> (\<forall>net\<in>C. \<exists>n. net_ok F n net) \<and> (\<Union>net\<in>C. net_addrs F net) = {ipv s..ipv e}
           \<longrightarrow> length cs \<le> card C)
    else \<exists>m. IPRangeToCIDRs s e = Inl (ErrFmt m)"
proof (cases "ipv s \<le> ipv e")
  case True
  then show ?thesis
    using IPRangeToCIDRs_eq [OF assms True] cidr_texts_cover [OF assms] cidr_texts_minimal [OF assms] by simp
next
  case False
  then show ?thesis using IPRangeToCIDRs_error [OF assms] by simp
qed

theorem IPRangeToCIDRs_smallest_witness:
  "ipok F4 [10,0,0,1] \<and> ipok F4 [10,0,0,6] \<and> ipv [10,0,0,1] \<le> ipv [10,0,0,6] \<and>
   (\<exists>cs. IPRangeToCIDRs [10,0,0,1] [10,0,0,6] = Inr cs \<and> (\<Union>t\<in>set cs. text_addrs F4 t) = {ipv [10,0,0,1]..ipv [10,0,0,6]})"
proof -
  have a: "ipok F4 [10,0,0,1]" "ipok F4 [10,0,0,6]" "ipv [10,0,0,1] \<le> ipv [10,0,0,6]" by code_simp+
  from IPRangeToCIDRs_smallest [OF a(1,2)] a show ?thesis unfolding if_P [OF a(3)] by blast
qed

text \<open>\<open>NewIPRangeFromCIDR\<close> of a network is the range, in order and of its family, of exactly
  the addresses \<open>IPNet.Contains\<close> accepts.\<close>

theorem NewIPRangeFromCIDR_exact:
  assumes "net_ok F n net"
  shows "rok F (NewIPRangeFromCIDR net) \<and>
    rset (NewIPRangeFromCIDR net) = {ipv a |a. ipok F a \<and> net_contains net a}"
  using NewIPRangeFromCIDR_net [OF assms] net_addrs_netset [OF assms] by (simp add: net_addrs_def)

theorem NewIPRangeFromCIDR_exact_witness:
  "net_ok F4 24 \<lparr>NetIP = [10,0,3,0], NetMask = [255,255,255,0]\<rparr> \<and>
   rok F4 (NewIPRangeFromCIDR \<lparr>NetIP = [10,0,3,0], NetMask = [255,255,255,0]\<rparr>)"
proof -
  have a: "net_ok F4 24 \<lparr>NetIP = [10,0,3,0], NetMask = [255,255,255,0]\<rparr>" by code_simp
  show ?thesis using a NewIPRangeFromCIDR_exact [OF a] by simp
qed

text \<open>\<open>FirstIP\<close> and \<open>LastIP\<close> of the text of a network with host bits give the ends of its
  usable range: all of a network of two addresses, else all but the network address and
  the broadcast address.\<close>

theorem FirstIP_LastIP_usable:
  assumes "net_ok F n net" "n < fbits F"
  shows "\<exists>a b. FirstIP (net_string net) = Inr (ip_string a) \<and> LastIP (net_string net) = Inr (ip_string b) \<and>
    ipok F a \<and> ipok F b \<and> ipv a \<le> ipv b \<and>
    {ipv a..ipv b} = (if n + 1 = fbits F then netset F n net
      else netset F n net - {ipv (NetIP net), ipv (NetIP net) + 2 ^ (fbits F - n) - 1})"
proof -
  obtain a where a: "FirstIP (net_string net) = Inr (ip_string a)" "ipok F a"
    "ipv a = (if n + 1 = fbits F then ipv (NetIP net) else ipv (NetIP net) + 1)"
    by (rule FirstIP_net [OF assms])
  obtain b where b: "LastIP (net_string net) = Inr (ip_string b)" "ipok F b"
    "ipv b = (if n + 1 = fbits F then ipv (NetIP net) + 1 else ipv (NetIP net) + (2 ^ (fbits F - n) - 2))"
    by (rule LastIP_net [OF assms])
  have "ipv a \<le> ipv b \<and> {ipv a..ipv b} = (if n + 1 = fbits F then netset F n net
      else netset F n net - {ipv (NetIP net), ipv (NetIP net) + 2 ^ (fbits F - n) - 1})"
  proof (cases "n + 1 = fbits F")
    case True
    then have "fbits F - n = 1" by simp
    with True a b show ?thesis by (auto simp: netset_def)
  next
    case False
    then have "4 \<le> (2 :: nat) ^ (fbits F - n)"
      using assms(2) power_increasing [of 2 "fbits F - n" "2 :: nat"] by simp
    from usable_interval [OF this] False a(3) b(3) show ?thesis
      unfolding netset_def by simp
  qed
  with a b show ?thesis by blast
qed

theorem FirstIP_LastIP_usable_witness:
  "net_ok F4 24 \<lparr>NetIP = [10,0,3,0], NetMask = [255,255,255,0]\<rparr> \<and>
   (\<exists>a b. FirstIP ''10.0.3.0/24'' = Inr (ip_string a) \<and> LastIP ''10.0.3.0/24'' = Inr (ip_string b) \<and> ipv a \<le> ipv b)"
proof -
  have a: "net_ok F4 24 \<lparr>NetIP = [10,0,3,0], NetMask = [255,255,255,0]\<rparr>" by code_simp
  have t: "net_string \<lparr>NetIP = [10,0,3,0], NetMask = [255,255,255,0]\<rparr> = ''10.0.3.0/24''" by code_simp
  have l: "24 < fbits F4" by simp
  show ?thesis using a FirstIP_LastIP_usable [OF a l] unfolding t by blast
qed

text \<open>\<open>CIDROverlap\<close> of two networks, written with any address of theirs, holds exactly when
  they are of one family and have an address in common.\<close>

theorem CIDROverlap_common:
  assumes "text_ok F a n" "text_ok G b m"
  shows "CIDROverlap (cidr_text a n) (cidr_text b m) \<longleftrightarrow>
    F = G \<and> text_addrs F (cidr_text a n) \<inter> text_addrs G (cidr_text b m) \<noteq> {}"
  by (rule CIDROverlap_iff [OF assms])

theorem CIDROverlap_common_witness:
  "text_ok F4 [10,0,3,7] 24 \<and> text_ok F4 [10,0,0,1] 16 \<and> CIDROverlap ''10.0.3.7/24'' ''10.0.0.1/16'' \<and>
   text_addrs F4 ''10.0.3.7/24'' \<inter> text_addrs F4 ''10.0.0.1/16'' \<noteq> {}"
proof -
  have a: "text_ok F4 [10,0,3,7] 24" "text_ok F4 [10,0,0,1] 16" by code_simp+
  have t: "cidr_text [10,0,3,7] 24 = ''10.0.3.7/24''" "cidr_text [10,0,0,1] 16 = ''10.0.0.1/16''" by code_simp+
  have c: "CIDROverlap ''10.0.3.7/24'' ''10.0.0.1/16''" by code_simp
  show ?thesis using a c CIDROverlap_common [OF a] unfolding t by simp
qed

text \<open>\<open>CIDRContainsCIDR\<close> decides inclusion of the sets of addresses for networks of one family
  and reports networks of two families as an error; \<open>CIDRContainIP\<close> decides membership of
  one address.\<close>

theorem CIDRContains_sets:
  assumes "text_ok F a n" "text_ok G b m" "ipok G x"
  shows "(case CIDRContainsCIDR (cidr_text a n) (cidr_text b m) of
       Inl err \<Rightarrow> F \<noteq> G
     | Inr c \<Rightarrow> F = G \<and> (c \<longleftrightarrow> text_addrs G (cidr_text b m) \<subseteq> text_addrs F (cidr_text a n))) \<and>
    (CIDRContainIP (cidr_text a n) (ip_string x) \<longleftrightarrow> F = G \<and> ipv x \<in> text_addrs F (cidr_text a n))"
  using CIDRContainsCIDR_iff [OF assms(1,2)] CIDRContainIP_iff [OF assms(1,3)] by (simp split: if_splits)

theorem CIDRContains_sets_witness:
  "text_ok F4 [10,0,0,1] 16 \<and> text_ok F4 [10,0,3,7] 24 \<and> ipok F4 [10,0,9,9] \<and>
   CIDRContainsCIDR ''10.0.0.1/16'' ''10.0.3.7/24'' = Inr True \<and>
   text_addrs F4 ''10.0.3.7/24'' \<subseteq> text_addrs F4 ''10.0.0.1/16''"
proof -
  have a: "text_ok F4 [10,0,0,1] 16" "text_ok F4 [10,0,3,7] 24" "ipok F4 [10,0,9,9]" by code_simp+
  have t: "cidr_text [10,0,3,7] 24 = ''10.0.3.7/24''" "cidr_text [10,0,0,1] 16 = ''10.0.0.1/16''" by code_simp+
  have c: "CIDRContainsCIDR ''10.0.0.1/16'' ''10.0.3.7/24'' = Inr True" by code_simp
  show ?thesis using a c CIDRContains_sets [OF a] unfolding t c by simp
qed

text \<open>
  A generated MAC address is the text of the six drawn bytes with the bit of locally
  administered addresses set and the multicast bit cleared in the first; and the retry loop
  returns as soon as a draw gives an address outside the exclusions, never an excluded one.\<close>

theorem GenerateMac_unicast:
  assumes "GenerateMac buf \<notin> set ex" "\<forall>d\<in>set pre. GenerateMac d \<in> set ex"
  shows "(\<exists>b. GenerateMac buf = hw_string (b # tl buf) \<and> bit b 1 \<and> \<not> bit b 0 \<and>
       (\<forall>i. 2 \<le> i \<and> i < 8 \<longrightarrow> bit b i = bit (hd buf) i)) \<and>
    GenerateMacWithExclusion ex (pre @ buf # rest) = Some (GenerateMac buf, rest)"
proof -
  have "dropWhile (\<lambda>b. GenerateMac b \<in> set ex) (pre @ buf # rest) = buf # rest"
    using assms by (simp add: dropWhile_append1 dropWhile_append2)
  then have "GenerateMacWithExclusion ex (pre @ buf # rest) = Some (GenerateMac buf, rest)"
    by (simp add: GenerateMacWithExclusion_spec)
  moreover have "\<exists>b. GenerateMac buf = hw_string (b # tl buf) \<and> bit b 1 \<and> \<not> bit b 0 \<and>
       (\<forall>i. 2 \<le> i \<and> i < 8 \<longrightarrow> bit b i = bit (hd buf) i)"
    by (rule exI [of _ "(hd buf OR 0x02) AND 0xfe"]) (auto simp: GenerateMac_def mac_bits)
  ultimately show ?thesis by blast
qed

theorem GenerateMac_unicast_witness:
  "GenerateMacWithExclusion [''02:00:00:00:00:01''] ([[0,0,0,0,0,1]] @ [7,0,0,0,0,1] # []) = Some (''06:00:00:00:00:01'', [])"
proof -
  have a: "GenerateMac [7,0,0,0,0,1] = ''06:00:00:00:00:01''" "GenerateMac [0,0,0,0,0,1] = ''02:00:00:00:00:01''" by code_simp+
  then have "GenerateMac [7,0,0,0,0,1] \<notin> set [''02:00:00:00:00:01'']"
    "\<forall>d\<in>set [[0,0,0,0,0,1]]. GenerateMac d \<in> set [''02:00:00:00:00:01'']" by simp_all
  from GenerateMac_unicast [OF this, of "[]"] a show ?thesis by simp
qed

end
