(* ===== verification/Subnet.thy ===== *)
theory Subnet
  imports UtilNet IPRangeList
begin

text \<open>
  pkg/ipam/subnet.go and pkg/ipam/ippool.go: the state of one subnet and its operations.

  The fields and methods for IPv4 and IPv6 are written twice in the code, the text of one
  from the other by exchanging 4 and 6. Here the fields of a family are a record
  (\<open>SubnetFam\<close>, \<open>IPPoolFam\<close>) which the subnet and the pools hold twice, and a method
  of a family is one definition over \<open>fam\<close> with two instances. The pointers the code
  keeps to lists, maps and pools are places in the record: the lists of a subnet and of its
  pools are never shared (the code clones them). \<open>V4CIDR\<close> and \<open>V6CIDR\<close> may be nil. The
  field \<open>rnd\<close> holds the bytes \<open>crypto/rand\<close> will yield. A method that changes the subnet
  returns it beside its result; with the errors \<open>Panic\<close> and \<open>NoReturn\<close> the method does not
  return and the subnet beside it has no meaning. The mutexes serialise the operations.
\<close>

section \<open>State\<close>

record SubnetFam =
  FCIDR :: "IPNet option"
  SFree :: IPRangeList
  SReserved :: IPRangeList
  SAvailable :: IPRangeList
  SUsing :: IPRangeList
  NicToIP :: "(string, IP) gomap"
  IPToPod :: "(string, string) gomap"
  Gw :: string

record IPPoolFam =
  PIPs :: IPRangeList
  PFree :: IPRangeList
  PAvailable :: IPRangeList
  PReserved :: IPRangeList
  PReleased :: IPRangeList
  PUsing :: IPRangeList

record IPPool =
  PV4 :: IPPoolFam
  PV6 :: IPPoolFam

record Subnet =
  Name :: string
  CIDR :: string
  Protocol :: string
  SV4 :: SubnetFam
  SV6 :: SubnetFam
  NicToMac :: "(string, string) gomap"
  MacToPod :: "(string, string) gomap"
  PodToNicList :: "(string, string list) gomap"
  GatewayMAC :: string
  IPPools :: "(string, IPPool) gomap"
  rnd :: "bytes list"

text \<open>The part of a family, and its replacement.\<close>

fun other :: "fam \<Rightarrow> fam" where
  "other F4 = F6"
| "other F6 = F4"

fun sfam :: "fam \<Rightarrow> Subnet \<Rightarrow> SubnetFam" where
  "sfam F4 s = SV4 s"
| "sfam F6 s = SV6 s"

fun set_sfam :: "fam \<Rightarrow> SubnetFam \<Rightarrow> Subnet \<Rightarrow> Subnet" where
  "set_sfam F4 f s = s\<lparr>SV4 := f\<rparr>"
| "set_sfam F6 f s = s\<lparr>SV6 := f\<rparr>"

fun pfam :: "fam \<Rightarrow> IPPool \<Rightarrow> IPPoolFam" where
  "pfam F4 p = PV4 p"
| "pfam F6 p = PV6 p"

fun set_pfam :: "fam \<Rightarrow> IPPoolFam \<Rightarrow> IPPool \<Rightarrow> IPPool" where
  "set_pfam F4 f p = p\<lparr>PV4 := f\<rparr>"
| "set_pfam F6 f p = p\<lparr>PV6 := f\<rparr>"

definition set_pool :: "string \<Rightarrow> IPPool \<Rightarrow> Subnet \<Rightarrow> Subnet" where
  "set_pool name p s = s\<lparr>IPPools := mput name p (IPPools s)\<rparr>"

definition empty_fam :: SubnetFam where
  "empty_fam = \<lparr>FCIDR = None, SFree = NewEmptyIPRangeList, SReserved = NewEmptyIPRangeList,
     SAvailable = NewEmptyIPRangeList, SUsing = NewEmptyIPRangeList, NicToIP = [], IPToPod = [], Gw = []\<rparr>"

definition empty_pool_fam :: IPPoolFam where
  "empty_pool_fam = \<lparr>PIPs = NewEmptyIPRangeList, PFree = NewEmptyIPRangeList, PAvailable = NewEmptyIPRangeList,
     PReserved = NewEmptyIPRangeList, PReleased = NewEmptyIPRangeList, PUsing = NewEmptyIPRangeList\<rparr>"

section \<open>Making a subnet\<close>

text \<open>\<open>fmt.Sprintf("%s..%s", firstIP, lastIP)\<close> of a network, read as a list; nil when that fails.\<close>

definition ok_text :: "error + string \<Rightarrow> string" where
  "ok_text r = (case r of Inl _ \<Rightarrow> [] | Inr t \<Rightarrow> t)"

definition usable_list :: "string \<Rightarrow> error + IPRangeList" where
  "usable_list cidr =
     (if FirstIP cidr = Inl Panic \<or> LastIP cidr = Inl Panic then Inl Panic
      else case NewIPRangeListFrom [ok_text (FirstIP cidr) @ ''..'' @ ok_text (LastIP cidr)] of
          Inl _ \<Rightarrow> Inr NewEmptyIPRangeList
        | Inr l \<Rightarrow> Inr l)"

text \<open>
  The fields of a family as \<open>NewSubnet\<close> sets them: \<open>ips\<close> is the first value of \<open>V4Free\<close>
  (empty for a family the protocol does not have).
\<close>

definition new_fam :: "IPNet option \<Rightarrow> IPRangeList \<Rightarrow> IPRangeList \<Rightarrow> SubnetFam" where
  "new_fam cidr ips reserved =
     (let free = rl_Separate ips reserved in
      \<lparr>FCIDR = cidr, SFree = free, SReserved = reserved, SAvailable = rl_Clone free,
       SUsing = NewEmptyIPRangeList, NicToIP = [], IPToPod = [], Gw = []\<rparr>)"

definition new_pool_fam :: "IPRangeList \<Rightarrow> SubnetFam \<Rightarrow> IPPoolFam" where
  "new_pool_fam ips f =
     \<lparr>PIPs = rl_Clone ips, PFree = rl_Clone (SFree f), PAvailable = rl_Clone (SAvailable f),
      PReserved = rl_Clone (SReserved f), PReleased = NewEmptyIPRangeList, PUsing = NewEmptyIPRangeList\<rparr>"

fun parse_cidrs :: "string list \<Rightarrow> IPNet list option" where
  "parse_cidrs [] = Some []"
| "parse_cidrs (b # bs) =
     (case ParseCIDR b of
        None \<Rightarrow> None
      | Some (_, cidr) \<Rightarrow> map_option (\<lambda>cs. cidr # cs) (parse_cidrs bs))"

text \<open>
  \<open>NewSubnet\<close>: the networks and usable lists of the two families by protocol. In the
  \<open>default\<close> branch the code takes the first two networks, and panics if there is one.
\<close>

definition subnet_ranges ::
  "string \<Rightarrow> string \<Rightarrow> IPNet list \<Rightarrow> error + ((IPNet option \<times> IPRangeList) \<times> (IPNet option \<times> IPRangeList))" where
  "subnet_ranges protocol cidrStr cidrs =
     (if protocol = ProtocolIPv4 then
        (case usable_list cidrStr of
           Inl err \<Rightarrow> Inl err
         | Inr l \<Rightarrow> Inr ((Some (cidrs ! 0), l), (None, NewEmptyIPRangeList)))
      else if protocol = ProtocolIPv6 then
        (case usable_list cidrStr of
           Inl err \<Rightarrow> Inl err
         | Inr l \<Rightarrow> Inr ((None, NewEmptyIPRangeList), (Some (cidrs ! 0), l)))
      else
        let blocks = split_char CHR '','' cidrStr in
        if length cidrs < 2 then Inl Panic
        else case usable_list (blocks ! 0) of
            Inl err \<Rightarrow> Inl err
          | Inr l4 \<Rightarrow>
              (case usable_list (blocks ! 1) of
                 Inl err \<Rightarrow> Inl err
               | Inr l6 \<Rightarrow> Inr ((Some (cidrs ! 0), l4), (Some (cidrs ! 1), l6))))"

definition NewSubnet :: "bytes list \<Rightarrow> string \<Rightarrow> string \<Rightarrow> string list \<Rightarrow> error + Subnet" where
  "NewSubnet draws name cidrStr excludeIps =
     (case parse_cidrs (split_char CHR '','' cidrStr) of
        None \<Rightarrow> Inl ErrInvalidCIDR
      | Some cidrs \<Rightarrow>
          (case ExpandExcludeIPs excludeIps cidrStr of
             Inl err \<Rightarrow> Inl err
           | Inr ex \<Rightarrow>
               let (v4Exclude, v6Exclude) = SplitIpsByProtocol ex in
               (case NewIPRangeListFrom v4Exclude of
                  Inl err \<Rightarrow> Inl err
                | Inr v4Reserved \<Rightarrow>
                    (case NewIPRangeListFrom v6Exclude of
                       Inl err \<Rightarrow> Inl err
                     | Inr v6Reserved \<Rightarrow>
                         let protocol = CheckProtocol cidrStr in
                         (case subnet_ranges protocol cidrStr cidrs of
                            Inl err \<Rightarrow> Inl err
                          | Inr ((c4, l4), (c6, l6)) \<Rightarrow>
                              let f4 = new_fam c4 l4 v4Reserved; f6 = new_fam c6 l6 v6Reserved in
                              Inr \<lparr>Name = name, CIDR = cidrStr, Protocol = protocol, SV4 = f4, SV6 = f6,
                                NicToMac = [], MacToPod = [], PodToNicList = [], GatewayMAC = [],
                                IPPools = [([], \<lparr>PV4 = new_pool_fam l4 f4, PV6 = new_pool_fam l6 f6\<rparr>)],
                                rnd = draws\<rparr>)))))"

definition NewMacOnlySubnet :: "bytes list \<Rightarrow> string \<Rightarrow> Subnet" where
  "NewMacOnlySubnet draws name =
     \<lparr>Name = name, CIDR = [], Protocol = ProtocolMac, SV4 = empty_fam, SV6 = empty_fam,
      NicToMac = [], MacToPod = [], PodToNicList = [], GatewayMAC = [],
      IPPools = [([], \<lparr>PV4 = empty_pool_fam, PV6 = empty_pool_fam\<rparr>)], rnd = draws\<rparr>"

section \<open>MAC addresses and NIC lists\<close>

lemma GenerateMacWithExclusion_shorter:
  "GenerateMacWithExclusion ex draws = Some (mac, rest) \<Longrightarrow> length rest < length draws"
  by (induction draws) (auto simp: Let_def split: if_splits)

text \<open>The loop of \<open>GetRandomMac\<close>: draw until the address is not in \<open>MacToPod\<close>.\<close>

function random_mac_loop :: "string list \<Rightarrow> (string, string) gomap \<Rightarrow> bytes list \<Rightarrow> (string \<times> bytes list) option" where
  "random_mac_loop exclusionMACs macToPod draws =
     (case GenerateMacWithExclusion exclusionMACs draws of
        None \<Rightarrow> None
      | Some (mac, rest) \<Rightarrow>
          if \<not> mhas macToPod mac then Some (mac, rest)
          else random_mac_loop exclusionMACs macToPod rest)"
  by pat_completeness auto
termination
  by (relation "measure (\<lambda>(e, m, d). length d)") (auto dest: GenerateMacWithExclusion_shorter)

declare random_mac_loop.simps [simp del]

definition GetRandomMac :: "string \<Rightarrow> string \<Rightarrow> Subnet \<Rightarrow> Subnet \<times> (error + string)" where
  "GetRandomMac podName nicName s =
     (case map_of (NicToMac s) nicName of
        Some mac \<Rightarrow> (s, Inr mac)
      | None \<Rightarrow>
          (case random_mac_loop (if GatewayMAC s \<noteq> [] then [GatewayMAC s] else []) (MacToPod s) (rnd s) of
             None \<Rightarrow> (s, Inl NoReturn)
           | Some (mac, rest) \<Rightarrow>
               (s\<lparr>MacToPod := mput mac podName (MacToPod s), NicToMac := mput nicName mac (NicToMac s), rnd := rest\<rparr>,
                Inr mac)))"

definition GetStaticMac :: "string \<Rightarrow> string \<Rightarrow> string \<Rightarrow> bool \<Rightarrow> Subnet \<Rightarrow> Subnet \<times> error option" where
  "GetStaticMac podName nicName mac checkConflict s =
     (if mac = [] then (s, None)
      else if checkConflict \<and> (case map_of (MacToPod s) mac of None \<Rightarrow> False | Some p \<Rightarrow> p \<noteq> podName)
      then (s, Some ErrConflict)
      else if checkConflict \<and> GatewayMAC s \<noteq> [] \<and> mac = GatewayMAC s then (s, Some ErrConflict)
      else (s\<lparr>MacToPod := mput mac podName (MacToPod s), NicToMac := mput nicName mac (NicToMac s)\<rparr>, None))"

definition pushPodNic :: "string \<Rightarrow> string \<Rightarrow> Subnet \<Rightarrow> Subnet" where
  "pushPodNic podName nicName s =
     (if mget0 (NicToIP (SV4 s)) nicName \<noteq> [] \<or> mget0 (NicToIP (SV6 s)) nicName \<noteq> [] \<or> mget0 (NicToMac s) nicName \<noteq> []
      then s\<lparr>PodToNicList := mput podName (remdups_adj (mget0 (PodToNicList s) podName @ [nicName])) (PodToNicList s)\<rparr>
      else s)"

definition popPodNic :: "string \<Rightarrow> string \<Rightarrow> Subnet \<Rightarrow> Subnet" where
  "popPodNic podName nicName s =
     (let l = RemoveString (mget0 (PodToNicList s) podName) nicName in
      if length l = 0 then s\<lparr>PodToNicList := mdel podName (PodToNicList s)\<rparr>
      else s\<lparr>PodToNicList := mput podName l (PodToNicList s)\<rparr>)"

section \<open>Releasing\<close>

text \<open>The loop over the pools: the first pool that uses the address gives it up.\<close>

fun release_pools :: "fam \<Rightarrow> IP \<Rightarrow> bool \<Rightarrow> (string, IPPool) gomap \<Rightarrow> (string, IPPool) gomap" where
  "release_pools F ip changed [] = []"
| "release_pools F ip changed ((n, p) # ps) =
     (let (using', b) = rl_Remove (PUsing (pfam F p)) ip; q = (pfam F p)\<lparr>PUsing := using'\<rparr> in
      if b then
        (n, set_pfam F (if \<not> changed then q\<lparr>PAvailable := fst (rl_Add (PAvailable q) ip),
                                           PReleased := fst (rl_Add (PReleased q) ip)\<rparr> else q) p) # ps
      else (n, set_pfam F q p) # release_pools F ip changed ps)"

text \<open>\<open>releaseV4Addr\<close> and \<open>releaseV6Addr\<close>. A nil network panics in \<open>Contains\<close>.\<close>

definition release_mac :: "fam \<Rightarrow> string \<Rightarrow> Subnet \<Rightarrow> Subnet" where
  "release_mac F nicName s =
     (case map_of (NicToMac s) nicName of
        None \<Rightarrow> s
      | Some mac \<Rightarrow>
          if mhas (NicToIP (sfam (other F) s)) nicName then s
          else s\<lparr>NicToMac := mdel nicName (NicToMac s), MacToPod := mdel mac (MacToPod s)\<rparr>)"

definition release_lists :: "fam \<Rightarrow> IP \<Rightarrow> bool \<Rightarrow> Subnet \<Rightarrow> Subnet" where
  "release_lists F ip changed s =
     (let f = sfam F s;
          f1 = f\<lparr>SUsing := fst (rl_Remove (SUsing f) ip)\<rparr>;
          f2 = (if \<not> changed then f1\<lparr>SAvailable := fst (rl_Add (SAvailable f1) ip)\<rparr> else f1);
          s1 = set_sfam F f2 s
      in s1\<lparr>IPPools := release_pools F ip changed (IPPools s1)\<rparr>)"

definition releaseFamAddr :: "fam \<Rightarrow> string \<Rightarrow> string \<Rightarrow> Subnet \<Rightarrow> error + Subnet" where
  "releaseFamAddr F podName nicName s =
     (let f = sfam F s in
      case map_of (NicToIP f) nicName of
        None \<Rightarrow> Inr s
      | Some ip \<Rightarrow>
          let oldPods = split_char CHR '','' (mget0 (IPToPod f) (IP_String ip)) in
          if length oldPods > 1 then
            Inr (set_sfam F (f\<lparr>IPToPod := mput (IP_String ip) (join '','' (RemoveString oldPods podName)) (IPToPod f)\<rparr>) s)
          else
            let s1 = set_sfam F (f\<lparr>NicToIP := mdel nicName (NicToIP f), IPToPod := mdel (IP_String ip) (IPToPod f)\<rparr>) s;
                s2 = release_mac F nicName s1
            in case FCIDR f of
                None \<Rightarrow> Inl Panic
              | Some cidr \<Rightarrow>
                  Inr (release_lists F ip (\<not> net_contains cidr ip \<or> rl_Contains (SReserved f) ip) s2))"

definition releaseV4Addr :: "string \<Rightarrow> string \<Rightarrow> Subnet \<Rightarrow> error + Subnet" where
  "releaseV4Addr = releaseFamAddr F4"

definition releaseV6Addr :: "string \<Rightarrow> string \<Rightarrow> Subnet \<Rightarrow> error + Subnet" where
  "releaseV6Addr = releaseFamAddr F6"

definition releaseAddr :: "string \<Rightarrow> string \<Rightarrow> Subnet \<Rightarrow> error + Subnet" where
  "releaseAddr podName nicName s =
     (case releaseV4Addr podName nicName s of
        Inl err \<Rightarrow> Inl err
      | Inr s1 \<Rightarrow>
          (case releaseV6Addr podName nicName s1 of
             Inl err \<Rightarrow> Inl err
           | Inr s2 \<Rightarrow>
               if mhas (NicToIP (SV4 s2)) nicName \<or> mhas (NicToIP (SV6 s2)) nicName then Inr s2
               else case map_of (NicToMac s2) nicName of
                   None \<Rightarrow> Inr s2
                 | Some mac \<Rightarrow>
                     Inr (s2\<lparr>NicToMac := mdel nicName (NicToMac s2), MacToPod := mdel mac (MacToPod s2)\<rparr>)))"

definition ReleaseAddressWithNicName :: "string \<Rightarrow> string \<Rightarrow> Subnet \<Rightarrow> error + Subnet" where
  "ReleaseAddressWithNicName podName nicName s =
     (case releaseAddr podName nicName s of
        Inl err \<Rightarrow> Inl err
      | Inr s1 \<Rightarrow> Inr (popPodNic podName nicName s1))"

text \<open>
  The loop of \<open>ReleaseAddress\<close> runs over the list as it was at its start: \<open>popPodNic\<close> puts
  a new slice into the map.
\<close>

fun release_nics :: "string \<Rightarrow> string list \<Rightarrow> Subnet \<Rightarrow> error + Subnet" where
  "release_nics podName [] s = Inr s"
| "release_nics podName (nicName # nics) s =
     (case ReleaseAddressWithNicName podName nicName s of
        Inl err \<Rightarrow> Inl err
      | Inr s1 \<Rightarrow> release_nics podName nics s1)"

definition ReleaseAddress :: "string \<Rightarrow> Subnet \<Rightarrow> error + Subnet" where
  "ReleaseAddress podName s = release_nics podName (mget0 (PodToNicList s) podName) s"

section \<open>Random allocation\<close>

text \<open>\<open>Panic\<close> and \<open>NoReturn\<close>: the call has not returned.\<close>

definition fatal :: "error \<Rightarrow> bool" where
  "fatal err = (err = Panic \<or> err = NoReturn)"

text \<open>The addresses to skip; a text that is not an address is dropped.\<close>

definition parse_skipped :: "string list \<Rightarrow> IP list" where
  "parse_skipped addrs = concat (map (\<lambda>t. case NewIP t of Inl _ \<Rightarrow> [] | Inr ip \<Rightarrow> if ip \<noteq> [] then [ip] else []) addrs)"

text \<open>The lists and maps after the pool has given out \<open>ip\<close> for a NIC; \<open>free\<close> is what the pool has left.\<close>

definition take_pool :: "fam \<Rightarrow> IPRangeList \<Rightarrow> IP \<Rightarrow> IPPool \<Rightarrow> IPPool" where
  "take_pool F free ip p =
     (let q = pfam F p in
      set_pfam F (q\<lparr>PFree := free, PAvailable := fst (rl_Remove (PAvailable q) ip), PUsing := fst (rl_Add (PUsing q) ip)\<rparr>) p)"

definition take_fam :: "string \<Rightarrow> string \<Rightarrow> IP \<Rightarrow> SubnetFam \<Rightarrow> SubnetFam" where
  "take_fam podName nicName ip f =
     f\<lparr>SFree := fst (rl_Remove (SFree f) ip), SAvailable := fst (rl_Remove (SAvailable f) ip),
       SUsing := fst (rl_Add (SUsing f) ip), NicToIP := mput nicName ip (NicToIP f),
       IPToPod := mput (IP_String ip) podName (IPToPod f)\<rparr>"

text \<open>The MAC address of a NIC that has just got an address, with the way back when it conflicts.\<close>

definition finish_random ::
  "fam \<Rightarrow> string \<Rightarrow> string \<Rightarrow> string option \<Rightarrow> bool \<Rightarrow> IP \<Rightarrow> Subnet \<Rightarrow> Subnet \<times> (error + (IP \<times> string))" where
  "finish_random F podName nicName mac checkConflict ip s =
     (case mac of
        None \<Rightarrow>
          (case GetRandomMac podName nicName s of
             (s', Inl err) \<Rightarrow> (s', Inl err)
           | (s', Inr m) \<Rightarrow> (s', Inr (ip, m)))
      | Some m \<Rightarrow>
          (case GetStaticMac podName nicName m checkConflict s of
             (s', None) \<Rightarrow> (s', Inr (ip, m))
           | (s', Some err) \<Rightarrow>
               (case releaseFamAddr F podName nicName s' of
                  Inl e \<Rightarrow> (s', Inl e)
                | Inr s'' \<Rightarrow> (popPodNic podName nicName s'', Inl err))))"

text \<open>The part of \<open>getV4RandomAddress\<close> after the fast path.\<close>

definition alloc_random ::
  "fam \<Rightarrow> string \<Rightarrow> string \<Rightarrow> string \<Rightarrow> string option \<Rightarrow> string list \<Rightarrow> bool \<Rightarrow> Subnet
    \<Rightarrow> Subnet \<times> (error + (IP \<times> string))" where
  "alloc_random F ippoolName podName nicName mac skippedAddrs checkConflict s =
     (case map_of (IPPools s) ippoolName of
        None \<Rightarrow> (s, Inl ErrNoAvailable)
      | Some pool \<Rightarrow>
          let p = pfam F pool;
              free1 = rl_Separate (PFree p) (PReserved p);
              (free, released) =
                (if rl_Len free1 = 0 then (rl_Separate (PReleased p) (PReserved p), NewEmptyIPRangeList)
                 else (free1, PReleased p));
              pool1 = set_pfam F (p\<lparr>PFree := free, PReleased := released\<rparr>) pool
          in if rl_Len free = 0 then (set_pool ippoolName pool1 s, Inl ErrNoAvailable)
             else
               let (left, ip) = rl_Allocate free (parse_skipped skippedAddrs) in
               if ip = [] then (set_pool ippoolName pool1 s, Inl ErrConflict)
               else
                 let s1 = set_pool ippoolName (take_pool F left ip pool1) s;
                     s2 = set_sfam F (take_fam podName nicName ip (sfam F s1)) s1;
                     s3 = pushPodNic podName nicName s2
                 in finish_random F podName nicName mac checkConflict ip s3)"

definition getFamRandomAddress ::
  "fam \<Rightarrow> string \<Rightarrow> string \<Rightarrow> string \<Rightarrow> string option \<Rightarrow> string list \<Rightarrow> bool \<Rightarrow> Subnet
    \<Rightarrow> Subnet \<times> (error + (IP \<times> string))" where
  "getFamRandomAddress F ippoolName podName nicName mac skippedAddrs checkConflict s =
     (let cur = mget0 (NicToIP (sfam F s)) nicName; m = mget0 (NicToMac s) nicName in
      if cur \<noteq> [] \<and> (m \<noteq> [] \<or> mac = Some []) then
        (if IP_String cur \<notin> set skippedAddrs then (s, Inr (cur, m))
         else case releaseFamAddr F podName nicName s of
             Inl err \<Rightarrow> (s, Inl err)
           | Inr s1 \<Rightarrow> alloc_random F ippoolName podName nicName mac skippedAddrs checkConflict s1)
      else alloc_random F ippoolName podName nicName mac skippedAddrs checkConflict s)"

type_synonym alloc_result = "Subnet \<times> (error + (IP \<times> IP \<times> string))"

definition getV4RandomAddress ::
  "string \<Rightarrow> string \<Rightarrow> string \<Rightarrow> string option \<Rightarrow> string list \<Rightarrow> bool \<Rightarrow> Subnet \<Rightarrow> alloc_result" where
  "getV4RandomAddress ippoolName podName nicName mac skippedAddrs checkConflict s =
     (case getFamRandomAddress F4 ippoolName podName nicName mac skippedAddrs checkConflict s of
        (s', Inl err) \<Rightarrow> (s', Inl err)
      | (s', Inr (ip, m)) \<Rightarrow> (s', Inr (ip, [], m)))"

definition getV6RandomAddress ::
  "string \<Rightarrow> string \<Rightarrow> string \<Rightarrow> string option \<Rightarrow> string list \<Rightarrow> bool \<Rightarrow> Subnet \<Rightarrow> alloc_result" where
  "getV6RandomAddress ippoolName podName nicName mac skippedAddrs checkConflict s =
     (case getFamRandomAddress F6 ippoolName podName nicName mac skippedAddrs checkConflict s of
        (s', Inl err) \<Rightarrow> (s', Inl err)
      | (s', Inr (ip, m)) \<Rightarrow> (s', Inr ([], ip, m)))"

definition getDualRandomAddress ::
  "string \<Rightarrow> string \<Rightarrow> string \<Rightarrow> string option \<Rightarrow> string list \<Rightarrow> bool \<Rightarrow> Subnet \<Rightarrow> alloc_result" where
  "getDualRandomAddress poolName podName nicName mac skippedAddrs checkConflict s =
     (let existingV4 = mget0 (NicToIP (SV4 s)) nicName in
      case getV4RandomAddress poolName podName nicName mac skippedAddrs checkConflict s of
        (s1, Inl err) \<Rightarrow> (s1, Inl err)
      | (s1, Inr (v4IP, _, _)) \<Rightarrow>
          (case getV6RandomAddress poolName podName nicName mac skippedAddrs checkConflict s1 of
             (s2, Inl err) \<Rightarrow>
               if \<not> fatal err \<and> (existingV4 = [] \<or> \<not> IP_Equal existingV4 v4IP) then
                 (case releaseV4Addr podName nicName s2 of
                    Inl e \<Rightarrow> (s2, Inl e)
                  | Inr s3 \<Rightarrow> (popPodNic podName nicName s3, Inl err))
               else (s2, Inl err)
           | (s2, Inr (_, v6IP, macStr)) \<Rightarrow>
               if \<not> IP_Equal (mget0 (NicToIP (SV4 s2)) nicName) v4IP then
                 (case getV4RandomAddress poolName podName nicName mac skippedAddrs checkConflict s2 of
                    (s3, Inl err) \<Rightarrow> if fatal err then (s3, Inl err) else (s3, Inr ([], v6IP, macStr))
                  | (s3, Inr (v4IP', _, _)) \<Rightarrow> (s3, Inr (v4IP', v6IP, macStr)))
               else (s2, Inr (v4IP, v6IP, macStr))))"

definition getMacOnlyAddress :: "string \<Rightarrow> string \<Rightarrow> string option \<Rightarrow> bool \<Rightarrow> Subnet \<Rightarrow> alloc_result" where
  "getMacOnlyAddress podName nicName mac checkConflict s =
     (case mac of
        Some (c # cs) \<Rightarrow>
          (case GetStaticMac podName nicName (c # cs) checkConflict s of
             (s', Some err) \<Rightarrow> (s', Inl err)
           | (s', None) \<Rightarrow> (s', Inr ([], [], c # cs)))
      | _ \<Rightarrow>
          (case GetRandomMac podName nicName s of
             (s', Inl err) \<Rightarrow> (s', Inl err)
           | (s', Inr m) \<Rightarrow> (s', Inr ([], [], m))))"

text \<open>The deferred \<open>pushPodNic\<close> runs on every return.\<close>

definition GetRandomAddressWithFamily ::
  "string \<Rightarrow> string \<Rightarrow> string \<Rightarrow> string option \<Rightarrow> string \<Rightarrow> string list \<Rightarrow> bool \<Rightarrow> Subnet \<Rightarrow> alloc_result" where
  "GetRandomAddressWithFamily poolName podName nicName mac ipFamily skippedAddrs checkConflict s =
     (let (s', r) =
        (if ipFamily \<noteq> [] \<and> Protocol s \<noteq> ProtocolDual \<and> Protocol s \<noteq> ProtocolMac \<and> ipFamily \<noteq> Protocol s
         then (s, Inl ErrInvalidIPFamily)
         else if Protocol s = ProtocolMac then getMacOnlyAddress podName nicName mac checkConflict s
         else if Protocol s = ProtocolDual then
           (if ipFamily = ProtocolIPv4
            then getV4RandomAddress poolName podName nicName mac skippedAddrs checkConflict s
            else if ipFamily = ProtocolIPv6
            then getV6RandomAddress poolName podName nicName mac skippedAddrs checkConflict s
            else getDualRandomAddress poolName podName nicName mac skippedAddrs checkConflict s)
         else if Protocol s = ProtocolIPv4
         then getV4RandomAddress poolName podName nicName mac skippedAddrs checkConflict s
         else getV6RandomAddress poolName podName nicName mac skippedAddrs checkConflict s)
      in (pushPodNic podName nicName s', r))"

definition GetRandomAddress ::
  "string \<Rightarrow> string \<Rightarrow> string \<Rightarrow> string option \<Rightarrow> string list \<Rightarrow> bool \<Rightarrow> Subnet \<Rightarrow> alloc_result" where
  "GetRandomAddress poolName podName nicName mac skippedAddrs checkConflict s =
     GetRandomAddressWithFamily poolName podName nicName mac [] skippedAddrs checkConflict s"

section \<open>Static allocation\<close>

text \<open>
  \<open>staticAddressFamily\<close> holds pointers to the lists and maps of one family in the subnet and
  in one pool; here it is the family and the name of the pool.
\<close>

record staticAddressFamily =
  sa_fam :: fam
  sa_pool :: string

definition v4StaticAddressFamily :: "string \<Rightarrow> staticAddressFamily" where
  "v4StaticAddressFamily pool = \<lparr>sa_fam = F4, sa_pool = pool\<rparr>"

definition v6StaticAddressFamily :: "string \<Rightarrow> staticAddressFamily" where
  "v6StaticAddressFamily pool = \<lparr>sa_fam = F6, sa_pool = pool\<rparr>"

definition staticAddressFamilyForIP :: "IP \<Rightarrow> bool \<Rightarrow> Subnet \<Rightarrow> error + staticAddressFamily" where
  "staticAddressFamilyForIP ip checkConflict s =
     (let v4 = (IP_To4 ip \<noteq> []); F = (if v4 then F4 else F6); cidr = FCIDR (sfam F s); gateway = Gw (sfam F s) in
      if (case cidr of None \<Rightarrow> True | Some c \<Rightarrow> \<not> net_contains c ip) then Inl ErrOutOfRange
      else case find (\<lambda>(n, pool). rl_Contains (PIPs (pfam F pool)) ip) (IPPools s) of
          None \<Rightarrow> Inl ErrOutOfRange
        | Some (n, pool) \<Rightarrow>
            if checkConflict \<and> ip_equal ip (ParseIP gateway) then Inl ErrConflict
            else Inr (if v4 then v4StaticAddressFamily n else v6StaticAddressFamily n))"

definition releaseCurrentStaticAddress ::
  "staticAddressFamily \<Rightarrow> string \<Rightarrow> string \<Rightarrow> IP \<Rightarrow> Subnet \<Rightarrow> error + Subnet" where
  "releaseCurrentStaticAddress family podName nicName ip s =
     (let current = mget0 (NicToIP (sfam (sa_fam family) s)) nicName in
      if current \<noteq> [] \<and> \<not> IP_Equal current ip then releaseFamAddr (sa_fam family) podName nicName s
      else Inr s)"

text \<open>The \<open>switch\<close> that takes the address from the pool.\<close>

definition take_static :: "fam \<Rightarrow> IP \<Rightarrow> string \<Rightarrow> Subnet \<Rightarrow> Subnet option" where
  "take_static F ip n s =
     (case map_of (IPPools s) n of
        None \<Rightarrow> None
      | Some pool \<Rightarrow>
          let p = pfam F pool; f = sfam F s in
          if rl_Contains (PReserved p) ip then Some s
          else let (free', b) = rl_Remove (PFree p) ip in
            if b then Some (set_sfam F (f\<lparr>SFree := fst (rl_Remove (SFree f) ip)\<rparr>)
                             (set_pool n (set_pfam F (p\<lparr>PFree := free'\<rparr>) pool) s))
            else let (released', b') = rl_Remove (PReleased p) ip in
              if b' then Some (set_pool n (set_pfam F (p\<lparr>PReleased := released'\<rparr>) pool) s)
              else None)"

definition allocateStaticAddress ::
  "staticAddressFamily \<Rightarrow> string \<Rightarrow> string \<Rightarrow> IP \<Rightarrow> bool \<Rightarrow> bool \<Rightarrow> Subnet \<Rightarrow> Subnet \<times> (error + bool)" where
  "allocateStaticAddress family podName nicName ip force checkConflict s =
     (let F = sa_fam family;
          assign = (\<lambda>pods s. let f = sfam F s in
            set_sfam F (f\<lparr>NicToIP := mput nicName ip (NicToIP f), IPToPod := mput (IP_String ip) pods (IPToPod f)\<rparr>) s);
          fresh = (case take_static F ip (sa_pool family) s of
             None \<Rightarrow> (s, Inl ErrNoAvailable)
           | Some s1 \<Rightarrow> (assign podName s1, Inr True))
      in case map_of (IPToPod (sfam F s)) (IP_String ip) of
          None \<Rightarrow> fresh
        | Some existPod \<Rightarrow>
            if podName \<notin> set (split_char CHR '','' existPod) then
              (if \<not> checkConflict then (assign (existPod @ '','' @ podName) s, Inr False)
               else (s, Inl ErrConflict))
            else if \<not> force then (s, Inr False)
            else fresh)"

definition markStaticAddressAllocated :: "staticAddressFamily \<Rightarrow> IP \<Rightarrow> Subnet \<Rightarrow> Subnet" where
  "markStaticAddressAllocated family ip s =
     (let F = sa_fam family; f = sfam F s;
          s1 = set_sfam F (f\<lparr>SAvailable := fst (rl_Remove (SAvailable f) ip), SUsing := fst (rl_Add (SUsing f) ip)\<rparr>) s
      in case map_of (IPPools s1) (sa_pool family) of
          None \<Rightarrow> s1
        | Some pool \<Rightarrow>
            let p = pfam F pool in
            set_pool (sa_pool family)
              (set_pfam F (p\<lparr>PAvailable := fst (rl_Remove (PAvailable p) ip), PUsing := fst (rl_Add (PUsing p) ip)\<rparr>) pool) s1)"

text \<open>The MAC address of \<open>GetStaticAddress\<close>.\<close>

definition static_mac :: "string \<Rightarrow> string \<Rightarrow> string option \<Rightarrow> bool \<Rightarrow> Subnet \<Rightarrow> Subnet \<times> (error + string)" where
  "static_mac podName nicName mac checkConflict s =
     (case mac of
        None \<Rightarrow>
          (case map_of (NicToMac s) nicName of
             Some m \<Rightarrow> (s, Inr m)
           | None \<Rightarrow> GetRandomMac podName nicName s)
      | Some m \<Rightarrow>
          (case GetStaticMac podName nicName m checkConflict s of
             (s', Some err) \<Rightarrow> (s', Inl err)
           | (s', None) \<Rightarrow> (s', Inr m)))"

definition GetStaticAddress ::
  "string \<Rightarrow> string \<Rightarrow> IP \<Rightarrow> string option \<Rightarrow> bool \<Rightarrow> bool \<Rightarrow> Subnet \<Rightarrow> Subnet \<times> (error + (IP \<times> string))" where
  "GetStaticAddress podName nicName ip mac force checkConflict s =
     (case staticAddressFamilyForIP ip checkConflict s of
        Inl err \<Rightarrow> (s, Inl err)
      | Inr family \<Rightarrow>
          (case releaseCurrentStaticAddress family podName nicName ip s of
             Inl err \<Rightarrow> (s, Inl err)
           | Inr s1 \<Rightarrow>
               (case static_mac podName nicName mac checkConflict s1 of
                  (s2, Inl err) \<Rightarrow> (pushPodNic podName nicName s2, Inl err)
                | (s2, Inr macStr) \<Rightarrow>
                    (case allocateStaticAddress family podName nicName ip force checkConflict s2 of
                       (s3, Inl err) \<Rightarrow> (pushPodNic podName nicName s3, Inl err)
                     | (s3, Inr allocated) \<Rightarrow>
                         (pushPodNic podName nicName (if allocated then markStaticAddressAllocated family ip s3 else s3),
                          Inr (ip, macStr))))))"

section \<open>Queries\<close>

definition Subnet_ContainAddress :: "IP \<Rightarrow> Subnet \<Rightarrow> bool" where
  "Subnet_ContainAddress address s =
     (if mhas (IPToPod (SV4 s)) (IP_String address) then True
      else mhas (IPToPod (SV6 s)) (IP_String address))"

definition Subnet_GetPodAddress :: "string \<Rightarrow> Subnet \<Rightarrow> IP \<times> IP \<times> string \<times> string" where
  "Subnet_GetPodAddress nicName s =
     (let v4 = mget0 (NicToIP (SV4 s)) nicName; v6 = mget0 (NicToIP (SV6 s)) nicName; mac = mget0 (NicToMac s) nicName in
      if Protocol s = ProtocolIPv4 then (v4, [], mac, ProtocolIPv4)
      else if Protocol s = ProtocolIPv6 then ([], v6, mac, ProtocolIPv6)
      else (v4, v6, mac, ProtocolDual))"

definition isIPAssignedToOtherPod :: "string \<Rightarrow> string \<Rightarrow> Subnet \<Rightarrow> string \<times> bool" where
  "isIPAssignedToOtherPod ip podName s =
     (case map_of (IPToPod (SV4 s)) ip of
        Some existPod \<Rightarrow> if podName \<notin> set (split_char CHR '','' existPod) then (existPod, True)
          else (case map_of (IPToPod (SV6 s)) ip of
             Some existPod6 \<Rightarrow> if podName \<notin> set (split_char CHR '','' existPod6) then (existPod6, True) else ([], False)
           | None \<Rightarrow> ([], False))
      | None \<Rightarrow>
          (case map_of (IPToPod (SV6 s)) ip of
             Some existPod6 \<Rightarrow> if podName \<notin> set (split_char CHR '','' existPod6) then (existPod6, True) else ([], False)
           | None \<Rightarrow> ([], False)))"

section \<open>Pools\<close>

text \<open>The new pool in one family; a conflict names the first other pool that shares addresses.\<close>

definition pool_conflict :: "fam \<Rightarrow> string \<Rightarrow> IPRangeList \<Rightarrow> Subnet \<Rightarrow> (string \<times> IPRangeList) option" where
  "pool_conflict F name ips s =
     (case find (\<lambda>(k, v). k \<noteq> [] \<and> k \<noteq> name \<and> rl_Len (rl_Intersect ips (PIPs (pfam F v))) \<noteq> 0) (IPPools s) of
        None \<Rightarrow> None
      | Some (k, v) \<Rightarrow> Some (k, rl_Intersect ips (PIPs (pfam F v))))"

definition make_pool_fam :: "fam \<Rightarrow> string \<Rightarrow> string list \<Rightarrow> Subnet \<Rightarrow> error + IPPoolFam" where
  "make_pool_fam F name ips s =
     (let f = sfam F s in
      case FCIDR f of
        None \<Rightarrow> Inr empty_pool_fam
      | Some cidr \<Rightarrow>
          (case NewIPRangeListFrom ips of
             Inl err \<Rightarrow> Inl err
           | Inr l \<Rightarrow>
               (case pool_conflict F name l s of
                  Some (k, r) \<Rightarrow>
                    Inl (ErrFmt (''ippool '' @ name @ '' has conflict IPs with ippool '' @ k @ '': '' @ rl_String r))
                | None \<Rightarrow>
                    (case usable_list (net_string cidr) of
                       Inl err \<Rightarrow> Inl err
                     | Inr u \<Rightarrow>
                         let reserved = rl_Intersect (SReserved f) l;
                             using' = rl_Intersect (SUsing f) l;
                             free = rl_Separate (rl_Separate (rl_Intersect u l) using') reserved
                         in Inr \<lparr>PIPs = l, PFree = free, PAvailable = rl_Clone free, PReserved = reserved,
                                 PReleased = NewEmptyIPRangeList, PUsing = using'\<rparr>))))"

text \<open>What the default pool keeps: \<open>p\<close> is the old pool of the name, if there is one.\<close>

definition shrink_default :: "fam \<Rightarrow> Subnet \<Rightarrow> IPPool option \<Rightarrow> IPPoolFam \<Rightarrow> IPPoolFam \<Rightarrow> IPPoolFam" where
  "shrink_default F s p pool d =
     (let back = (\<lambda>x g. case p of None \<Rightarrow> x | Some q \<Rightarrow> rl_Merge x (g (pfam F q)));
          free = rl_Separate (rl_Separate (back (PAvailable d) PAvailable) (PFree pool)) (SReserved (sfam F s))
      in \<lparr>PIPs = rl_Separate (back (PIPs d) PIPs) (PIPs pool), PFree = free, PAvailable = rl_Clone free,
          PReserved = rl_Separate (back (PReserved d) PReserved) (PReserved pool),
          PReleased = NewEmptyIPRangeList,
          PUsing = rl_Separate (back (PUsing d) PUsing) (PUsing pool)\<rparr>)"

definition AddOrUpdateIPPool :: "string \<Rightarrow> string list \<Rightarrow> Subnet \<Rightarrow> Subnet \<times> error option" where
  "AddOrUpdateIPPool name ips s =
     (let (v4IPs, v6IPs) = SplitIpsByProtocol ips in
      case make_pool_fam F4 name v4IPs s of
        Inl err \<Rightarrow> (s, Some err)
      | Inr p4 \<Rightarrow>
          (case make_pool_fam F6 name v6IPs s of
             Inl err \<Rightarrow> (s, Some err)
           | Inr p6 \<Rightarrow>
               (case map_of (IPPools s) [] of
                  None \<Rightarrow> (s, Some Panic)
                | Some d \<Rightarrow>
                    let p = map_of (IPPools s) name;
                        d' = \<lparr>PV4 = shrink_default F4 s p p4 (PV4 d), PV6 = shrink_default F6 s p p6 (PV6 d)\<rparr>
                    in (set_pool name \<lparr>PV4 = p4, PV6 = p6\<rparr> (set_pool [] d' s), None))))"

definition absorb_pool :: "IPPoolFam \<Rightarrow> IPPoolFam \<Rightarrow> IPPoolFam" where
  "absorb_pool d p =
     \<lparr>PIPs = rl_Merge (PIPs d) (PIPs p), PFree = rl_Merge (PFree d) (PFree p),
      PAvailable = rl_Merge (PAvailable d) (PAvailable p), PReserved = rl_Merge (PReserved d) (PReserved p),
      PReleased = rl_Merge (PReleased d) (PReleased p), PUsing = rl_Merge (PUsing d) (PUsing p)\<rparr>"

definition RemoveIPPool :: "string \<Rightarrow> Subnet \<Rightarrow> error + Subnet" where
  "RemoveIPPool name s =
     (case map_of (IPPools s) name of
        None \<Rightarrow> Inr s
      | Some p \<Rightarrow>
          (case map_of (IPPools s) [] of
             None \<Rightarrow> Inl Panic
           | Some d \<Rightarrow>
               let s1 = set_pool [] \<lparr>PV4 = absorb_pool (PV4 d) (PV4 p), PV6 = absorb_pool (PV6 d) (PV6 p)\<rparr> s
               in Inr (s1\<lparr>IPPools := mdel name (IPPools s1)\<rparr>)))"

text \<open>The eight results of \<open>IPPoolStatistics\<close>; without the pool they are zero values.\<close>

record pool_statistics =
  v4Available :: int
  v4Using :: int
  v6Available :: int
  v6Using :: int
  v4AvailableRange :: string
  v4UsingRange :: string
  v6AvailableRange :: string
  v6UsingRange :: string

definition zero_statistics :: pool_statistics where
  "zero_statistics = \<lparr>v4Available = 0, v4Using = 0, v6Available = 0, v6Using = 0,
     v4AvailableRange = [], v4UsingRange = [], v6AvailableRange = [], v6UsingRange = []\<rparr>"

definition Subnet_IPPoolStatistics :: "string \<Rightarrow> Subnet \<Rightarrow> pool_statistics" where
  "Subnet_IPPoolStatistics ippool s =
     (case map_of (IPPools s) ippool of
        None \<Rightarrow> zero_statistics
      | Some p \<Rightarrow>
          \<lparr>v4Available = rl_Count (PAvailable (PV4 p)), v4Using = rl_Count (PUsing (PV4 p)),
           v6Available = rl_Count (PAvailable (PV6 p)), v6Using = rl_Count (PUsing (PV6 p)),
           v4AvailableRange = rl_String (PAvailable (PV4 p)), v4UsingRange = rl_String (PUsing (PV4 p)),
           v6AvailableRange = rl_String (PAvailable (PV6 p)), v6UsingRange = rl_String (PUsing (PV6 p))\<rparr>)"

end
