(* ===== verification/IPAM.thy ===== *)
theory IPAM
  imports Subnet
begin

text \<open>
  pkg/ipam/ipam.go: the subnets by name and the operations the controllers call. A new
  subnet is given the bytes its random MAC addresses will use. The methods that only read
  return their result; the others return the state beside it. A pointer to a subnet is its
  name. \<open>SubnetAddress\<close> holds the name of the subnet for its pointer.
\<close>

record IPAM =
  Subnets :: "(string, Subnet) gomap"

record SubnetAddress =
  sa_subnet :: string
  sa_IP :: string
  sa_Mac :: string

definition NewIPAM :: IPAM where
  "NewIPAM = \<lparr>Subnets = []\<rparr>"

definition set_subnet :: "string \<Rightarrow> Subnet \<Rightarrow> IPAM \<Rightarrow> IPAM" where
  "set_subnet name s ipam = ipam\<lparr>Subnets := mput name s (Subnets ipam)\<rparr>"

section \<open>Allocation\<close>

definition validateRequestedIPFamily :: "string \<Rightarrow> error option" where
  "validateRequestedIPFamily ipFamily =
     (let f = NormalizeIPFamily ipFamily in
      if f = [] \<or> f = ProtocolIPv4 \<or> f = ProtocolIPv6 then None else Some ErrInvalidIPFamily)"

text \<open>The text of an address that may be nil.\<close>

definition opt_text :: "IP \<Rightarrow> string" where
  "opt_text ip = (if ip \<noteq> [] then IP_String ip else [])"

definition IPAM_GetRandomAddressWithFamily ::
  "string \<Rightarrow> string \<Rightarrow> string option \<Rightarrow> string \<Rightarrow> string \<Rightarrow> string \<Rightarrow> string list \<Rightarrow> bool \<Rightarrow> IPAM
    \<Rightarrow> IPAM \<times> (error + (string \<times> string \<times> string))" where
  "IPAM_GetRandomAddressWithFamily podName nicName mac subnetName poolName ipFamily0 skippedAddrs checkConflict ipam =
     (let ipFamily = NormalizeIPFamily ipFamily0 in
      case validateRequestedIPFamily ipFamily of
        Some err \<Rightarrow> (ipam, Inl err)
      | None \<Rightarrow>
          (case map_of (Subnets ipam) subnetName of
             None \<Rightarrow> (ipam, Inl ErrNoSubnet)
           | Some subnet \<Rightarrow>
               (case GetRandomAddressWithFamily poolName podName nicName mac ipFamily skippedAddrs checkConflict subnet of
                  (s', Inl err) \<Rightarrow> (set_subnet subnetName s' ipam, Inl err)
                | (s', Inr (v4IP, v6IP, macStr)) \<Rightarrow>
                    (set_subnet subnetName s' ipam, Inr (opt_text v4IP, opt_text v6IP, macStr)))))"

definition IPAM_GetRandomAddress ::
  "string \<Rightarrow> string \<Rightarrow> string option \<Rightarrow> string \<Rightarrow> string \<Rightarrow> string list \<Rightarrow> bool \<Rightarrow> IPAM
    \<Rightarrow> IPAM \<times> (error + (string \<times> string \<times> string))" where
  "IPAM_GetRandomAddress podName nicName mac subnetName poolName skippedAddrs checkConflict ipam =
     IPAM_GetRandomAddressWithFamily podName nicName mac subnetName poolName [] skippedAddrs checkConflict ipam"

text \<open>The two loops of \<open>GetStaticAddressWithFamily\<close>: parsing the addresses, then taking them.\<close>

fun parse_static :: "string \<Rightarrow> string list \<Rightarrow> error + IP list" where
  "parse_static ipFamily [] = Inr []"
| "parse_static ipFamily (ipStr # ips) =
     (case NewIP ipStr of
        Inl err \<Rightarrow> Inl err
      | Inr ip \<Rightarrow>
          if ipFamily \<noteq> [] \<and> CheckProtocol (IP_String ip) \<noteq> ipFamily then Inl ErrInvalidIPFamily
          else case parse_static ipFamily ips of
              Inl err \<Rightarrow> Inl err
            | Inr rest \<Rightarrow> Inr (ip # rest))"

fun take_statics ::
  "string \<Rightarrow> string \<Rightarrow> string option \<Rightarrow> bool \<Rightarrow> IP list \<Rightarrow> IP list \<Rightarrow> string \<Rightarrow> Subnet
    \<Rightarrow> Subnet \<times> (error + (IP list \<times> string))" where
  "take_statics podName nicName mac checkConflict [] ips macStr s = (s, Inr (ips, macStr))"
| "take_statics podName nicName mac checkConflict (ip # staticIPs) ips macStr s =
     (case GetStaticAddress podName nicName ip mac False checkConflict s of
        (s1, Inl err) \<Rightarrow>
          if length ips \<noteq> 0 \<and> \<not> fatal err then
            (case ReleaseAddressWithNicName podName nicName s1 of
               Inl e \<Rightarrow> (s1, Inl e)
             | Inr s2 \<Rightarrow> (s2, Inl err))
          else (s1, Inl err)
      | (s1, Inr (ipAddr, m)) \<Rightarrow> take_statics podName nicName mac checkConflict staticIPs (ips @ [ipAddr]) m s1)"

definition checkAndAppendIpsForDual ::
  "IP list \<Rightarrow> string \<Rightarrow> string \<Rightarrow> string \<Rightarrow> bool \<Rightarrow> Subnet \<Rightarrow> Subnet \<times> (error + IP list)" where
  "checkAndAppendIpsForDual ips mac podName nicName checkConflict s =
     (if Protocol s \<noteq> ProtocolDual \<or> length ips = 2 then (s, Inr ips)
      else if ips = [] then (s, Inl Panic)
      else if CheckProtocol (IP_String (ips ! 0)) = ProtocolIPv4 then
        (case getV6RandomAddress [] podName nicName (Some mac) [] checkConflict s of
           (s', Inl err) \<Rightarrow> (s', Inl err)
         | (s', Inr (_, ipAddr, _)) \<Rightarrow> (s', Inr (ips @ [ipAddr])))
      else if CheckProtocol (IP_String (ips ! 0)) = ProtocolIPv6 then
        (case getV4RandomAddress [] podName nicName (Some mac) [] checkConflict s of
           (s', Inl err) \<Rightarrow> (s', Inl err)
         | (s', Inr (ipAddr, _, _)) \<Rightarrow> (s', Inr (ipAddr # ips)))
      else (s, Inr []))"

text \<open>The two addresses of a dual-stack result: the last of each family.\<close>

definition dual_texts :: "IP list \<Rightarrow> string \<times> string" where
  "dual_texts ips =
     foldl (\<lambda>(v4, v6) ip.
        if CheckProtocol (IP_String ip) = ProtocolIPv4 then (IP_String ip, v6)
        else if CheckProtocol (IP_String ip) = ProtocolIPv6 then (v4, IP_String ip)
        else (v4, v6)) ([], []) ips"

definition static_result :: "string \<Rightarrow> string \<Rightarrow> IP list \<Rightarrow> string \<Rightarrow> error + (string \<times> string \<times> string)" where
  "static_result protocol ip ips macStr =
     (if protocol = ProtocolIPv4 then Inr (ip, [], macStr)
      else if protocol = ProtocolIPv6 then Inr ([], ip, macStr)
      else if protocol = ProtocolDual then (let (v4, v6) = dual_texts ips in Inr (v4, v6, macStr))
      else Inl ErrNoAvailable)"

definition static_in_subnet ::
  "string \<Rightarrow> string \<Rightarrow> string \<Rightarrow> string option \<Rightarrow> string \<Rightarrow> bool \<Rightarrow> Subnet
    \<Rightarrow> Subnet \<times> (error + (string \<times> string \<times> string))" where
  "static_in_subnet podName nicName ip mac ipFamily checkConflict s =
     (if ip = [] \<and> Protocol s = ProtocolMac then
        (case GetRandomAddress [] podName nicName mac [] checkConflict s of
           (s', Inl err) \<Rightarrow> (s', Inl err)
         | (s', Inr (_, _, macStr)) \<Rightarrow> (s', Inr ([], [], macStr)))
      else case parse_static ipFamily (split_char CHR '','' ip) of
          Inl err \<Rightarrow> (s, Inl err)
        | Inr staticIPs \<Rightarrow>
            (case take_statics podName nicName mac checkConflict staticIPs [] [] s of
               (s1, Inl err) \<Rightarrow> (s1, Inl err)
             | (s1, Inr (ips, macStr)) \<Rightarrow>
                 if ipFamily = [] then
                   (case checkAndAppendIpsForDual ips macStr podName nicName checkConflict s1 of
                      (s2, Inl err) \<Rightarrow> (s2, Inl err)
                    | (s2, Inr ips') \<Rightarrow> (s2, static_result (Protocol s2) ip ips' macStr))
                 else (s1, static_result (Protocol s1) ip ips macStr)))"

definition IPAM_GetStaticAddressWithFamily ::
  "string \<Rightarrow> string \<Rightarrow> string \<Rightarrow> string option \<Rightarrow> string \<Rightarrow> string \<Rightarrow> bool \<Rightarrow> IPAM
    \<Rightarrow> IPAM \<times> (error + (string \<times> string \<times> string))" where
  "IPAM_GetStaticAddressWithFamily podName nicName ip mac subnetName ipFamily0 checkConflict ipam =
     (let ipFamily = NormalizeIPFamily ipFamily0 in
      case validateRequestedIPFamily ipFamily of
        Some err \<Rightarrow> (ipam, Inl err)
      | None \<Rightarrow>
          (case map_of (Subnets ipam) subnetName of
             None \<Rightarrow> (ipam, Inl ErrNoSubnet)
           | Some subnet \<Rightarrow>
               let (s', r) = static_in_subnet podName nicName ip mac ipFamily checkConflict subnet
               in (set_subnet subnetName s' ipam, r)))"

definition IPAM_GetStaticAddress ::
  "string \<Rightarrow> string \<Rightarrow> string \<Rightarrow> string option \<Rightarrow> string \<Rightarrow> bool \<Rightarrow> IPAM
    \<Rightarrow> IPAM \<times> (error + (string \<times> string \<times> string))" where
  "IPAM_GetStaticAddress podName nicName ip mac subnetName checkConflict ipam =
     IPAM_GetStaticAddressWithFamily podName nicName ip mac subnetName [] checkConflict ipam"

section \<open>Release\<close>

fun release_all :: "(Subnet \<Rightarrow> error + Subnet) \<Rightarrow> (string, Subnet) gomap \<Rightarrow> error + (string, Subnet) gomap" where
  "release_all g [] = Inr []"
| "release_all g ((n, s) # rest) =
     (case g s of
        Inl err \<Rightarrow> Inl err
      | Inr s' \<Rightarrow> (case release_all g rest of Inl err \<Rightarrow> Inl err | Inr rest' \<Rightarrow> Inr ((n, s') # rest')))"

definition release_in :: "(Subnet \<Rightarrow> error + Subnet) \<Rightarrow> string \<Rightarrow> IPAM \<Rightarrow> error + IPAM" where
  "release_in g subnetName ipam =
     (if subnetName \<noteq> [] then
        (case map_of (Subnets ipam) subnetName of
           None \<Rightarrow> Inr ipam
         | Some s \<Rightarrow> (case g s of Inl err \<Rightarrow> Inl err | Inr s' \<Rightarrow> Inr (set_subnet subnetName s' ipam)))
      else (case release_all g (Subnets ipam) of
          Inl err \<Rightarrow> Inl err
        | Inr m \<Rightarrow> Inr (ipam\<lparr>Subnets := m\<rparr>)))"

definition ReleaseAddressByPod :: "string \<Rightarrow> string \<Rightarrow> IPAM \<Rightarrow> error + IPAM" where
  "ReleaseAddressByPod podName subnetName ipam = release_in (ReleaseAddress podName) subnetName ipam"

definition ReleaseAddressByNic :: "string \<Rightarrow> string \<Rightarrow> string \<Rightarrow> IPAM \<Rightarrow> error + IPAM" where
  "ReleaseAddressByNic podName nicName subnetName ipam =
     release_in (ReleaseAddressWithNicName podName nicName) subnetName ipam"

section \<open>Adding and changing a subnet\<close>

text \<open>
  The pools of a family after the network, the gateway or the reserved addresses have
  changed: \<open>d\<close> is the default pool, which gives up what the others hold.
\<close>

definition refresh_pool :: "fam \<Rightarrow> IPRangeList \<Rightarrow> IPRangeList \<Rightarrow> IPPool \<Rightarrow> IPPool" where
  "refresh_pool F ips reserved pool =
     (let p = pfam F pool;
          u = rl_Intersect (PUsing p) ips;
          r = rl_Intersect reserved (PIPs p);
          free = rl_Separate (rl_Separate (rl_Intersect ips (PIPs p)) u) r
      in set_pfam F (p\<lparr>PUsing := u, PReserved := r, PFree := free, PAvailable := rl_Clone free,
                       PReleased := NewEmptyIPRangeList\<rparr>) pool)"

definition give_up :: "IPPoolFam \<Rightarrow> IPPoolFam \<Rightarrow> IPPoolFam" where
  "give_up d p = d\<lparr>PIPs := rl_Separate (PIPs d) (PIPs p), PFree := rl_Separate (PFree d) (PIPs p),
                   PUsing := rl_Separate (PUsing d) (PUsing p), PReserved := rl_Separate (PReserved d) (PReserved p)\<rparr>"

fun refresh_pools :: "fam \<Rightarrow> IPRangeList \<Rightarrow> IPRangeList \<Rightarrow> (string, IPPool) gomap \<Rightarrow> IPPoolFam
    \<Rightarrow> (string, IPPool) gomap \<times> IPPoolFam" where
  "refresh_pools F ips reserved [] d = ([], d)"
| "refresh_pools F ips reserved ((n, pool) # ps) d =
     (if n = [] then let (ps', d') = refresh_pools F ips reserved ps d in ((n, pool) # ps', d')
      else let pool' = refresh_pool F ips reserved pool;
               (ps', d') = refresh_pools F ips reserved ps (give_up d (pfam F pool'))
           in ((n, pool') # ps', d'))"

text \<open>NICs whose address is not in the new network lose it.\<close>

definition drop_outside :: "IPRangeList \<Rightarrow> SubnetFam \<Rightarrow> SubnetFam" where
  "drop_outside ips f =
     f\<lparr>NicToIP := filter (\<lambda>(nic, ip). rl_Contains ips ip) (NicToIP f),
       IPToPod := foldl (\<lambda>m (nic, ip). if rl_Contains ips ip then m else mdel (IP_String ip) m) (IPToPod f) (NicToIP f)\<rparr>"

definition change_fam :: "fam \<Rightarrow> string \<Rightarrow> string \<Rightarrow> IPRangeList \<Rightarrow> Subnet \<Rightarrow> error + Subnet" where
  "change_fam F cidrStr gw reserved s =
     (case usable_list cidrStr of
        Inl err \<Rightarrow> Inl err
      | Inr ips \<Rightarrow>
          (case map_of (IPPools s) [] of
             None \<Rightarrow> Inl Panic
           | Some pool \<Rightarrow>
               let f = sfam F s;
                   u = rl_Intersect (SUsing f) ips;
                   free = rl_Separate (rl_Separate ips reserved) u;
                   f1 = f\<lparr>FCIDR := map_option snd (ParseCIDR cidrStr), SReserved := reserved, SUsing := u,
                          SFree := free, SAvailable := rl_Clone free, Gw := gw\<rparr>;
                   d = (pfam F pool)\<lparr>PIPs := ips, PFree := rl_Clone free, PReserved := rl_Clone reserved,
                          PReleased := NewEmptyIPRangeList, PUsing := rl_Clone u\<rparr>;
                   (pools, d1) = refresh_pools F ips reserved (IPPools s) d;
                   pool1 = set_pfam F (d1\<lparr>PAvailable := rl_Clone (PFree d1)\<rparr>) pool
               in Inr (set_sfam F (drop_outside ips f1) (s\<lparr>IPPools := mput [] pool1 pools\<rparr>))))"

definition cidr_string :: "IPNet option \<Rightarrow> string" where
  "cidr_string c = (case c of None \<Rightarrow> ''<nil>'' | Some net \<Rightarrow> net_string net)"

definition update_fam :: "fam \<Rightarrow> string \<Rightarrow> string \<Rightarrow> string \<Rightarrow> IPRangeList \<Rightarrow> Subnet \<Rightarrow> error + Subnet" where
  "update_fam F protocol cidrStr gw reserved s =
     (let f = sfam F s in
      if (protocol = ProtocolDual \<or> protocol = (case F of F4 \<Rightarrow> ProtocolIPv4 | F6 \<Rightarrow> ProtocolIPv6)) \<and>
         (cidr_string (FCIDR f) \<noteq> cidrStr \<or> Gw f \<noteq> gw \<or> \<not> rl_Equal (SReserved f) reserved)
      then change_fam F cidrStr gw reserved s
      else Inr s)"

text \<open>The two instances, one for each of the two conditional blocks of the code.\<close>

definition v4_update :: "string \<Rightarrow> string \<Rightarrow> string \<Rightarrow> IPRangeList \<Rightarrow> Subnet \<Rightarrow> error + Subnet" where
  "v4_update = update_fam F4"

definition v6_update :: "string \<Rightarrow> string \<Rightarrow> string \<Rightarrow> IPRangeList \<Rightarrow> Subnet \<Rightarrow> error + Subnet" where
  "v6_update = update_fam F6"

text \<open>MAC addresses of NICs that have no address left are dropped.\<close>

definition drop_macs :: "Subnet \<Rightarrow> Subnet" where
  "drop_macs s =
     (let gone = (\<lambda>nic. mget0 (NicToIP (SV4 s)) nic = [] \<and> mget0 (NicToIP (SV6 s)) nic = []) in
      s\<lparr>NicToMac := filter (\<lambda>(nic, mac). \<not> gone nic) (NicToMac s),
        MacToPod := foldl (\<lambda>m (nic, mac). if gone nic then mdel mac m else m) (MacToPod s) (NicToMac s)\<rparr>)"

definition update_subnet ::
  "string \<Rightarrow> string \<Rightarrow> string \<Rightarrow> string \<Rightarrow> string \<Rightarrow> string list \<Rightarrow> Subnet \<Rightarrow> Subnet \<times> error option" where
  "update_subnet protocol v4cidrStr v6cidrStr v4Gw v6Gw ex s0 =
     (let s = s0\<lparr>Protocol := protocol\<rparr>; (v4Exclude, v6Exclude) = SplitIpsByProtocol ex in
      case NewIPRangeListFrom v4Exclude of
        Inl err \<Rightarrow> (s, Some err)
      | Inr v4Reserved \<Rightarrow>
          (case NewIPRangeListFrom v6Exclude of
             Inl err \<Rightarrow> (s, Some err)
           | Inr v6Reserved \<Rightarrow>
               (case v4_update protocol v4cidrStr v4Gw v4Reserved s of
                  Inl err \<Rightarrow> (s, Some err)
                | Inr s1 \<Rightarrow>
                    (case v6_update protocol v6cidrStr v6Gw v6Reserved s1 of
                       Inl err \<Rightarrow> (s1, Some err)
                     | Inr s2 \<Rightarrow> (drop_macs s2, None)))))"

text \<open>The networks and gateways of the two families by protocol: (v4 network, v6 network, v4 gateway, v6 gateway).\<close>

definition subnet_parts ::
  "string \<Rightarrow> string \<Rightarrow> string \<Rightarrow> IPNet list \<Rightarrow> error + (string \<times> string \<times> string \<times> string)" where
  "subnet_parts name protocol gw cidrs =
     (if protocol = ProtocolDual then
        let gws = split_char CHR '','' gw in
        if length cidrs < 2 then Inl Panic
        else if length gws = 2 then Inr (net_string (cidrs ! 0), net_string (cidrs ! 1), gws ! 0, gws ! 1)
        else Inl (ErrFmt (''dual subnet '' @ name @ '' invalid gw '' @ gw))
      else if protocol = ProtocolIPv4 then Inr (net_string (cidrs ! 0), [], gw, [])
      else if protocol = ProtocolIPv6 then Inr ([], net_string (cidrs ! 0), [], gw)
      else if protocol = [] then Inl ErrInvalidCIDR
      else Inr ([], [], [], []))"

definition add_new_subnet ::
  "bytes list \<Rightarrow> string \<Rightarrow> string \<Rightarrow> string \<Rightarrow> string \<Rightarrow> string list \<Rightarrow> IPAM \<Rightarrow> IPAM \<times> error option" where
  "add_new_subnet draws name cidrStr v4Gw v6Gw ex ipam =
     (case NewSubnet draws name cidrStr ex of
        Inl err \<Rightarrow> (ipam, Some err)
      | Inr subnet \<Rightarrow>
          (set_subnet name (subnet\<lparr>SV4 := (SV4 subnet)\<lparr>Gw := v4Gw\<rparr>, SV6 := (SV6 subnet)\<lparr>Gw := v6Gw\<rparr>\<rparr>) ipam, None))"

definition AddOrUpdateSubnet ::
  "bytes list \<Rightarrow> string \<Rightarrow> string \<Rightarrow> string \<Rightarrow> string list \<Rightarrow> IPAM \<Rightarrow> IPAM \<times> error option" where
  "AddOrUpdateSubnet draws name cidrStr gw excludeIps ipam =
     (if cidrStr = [] then
        (case map_of (Subnets ipam) name of
           Some subnet \<Rightarrow>
             if FCIDR (SV4 subnet) \<noteq> None \<or> FCIDR (SV6 subnet) \<noteq> None then (ipam, Some ErrInvalidCIDR)
             else (set_subnet name (subnet\<lparr>Protocol := ProtocolMac\<rparr>) ipam, None)
         | None \<Rightarrow> (set_subnet name (NewMacOnlySubnet draws name) ipam, None))
      else case ExpandExcludeIPs excludeIps cidrStr of
          Inl err \<Rightarrow> (ipam, Some err)
        | Inr ex \<Rightarrow>
            (case parse_cidrs (split_char CHR '','' cidrStr) of
               None \<Rightarrow> (ipam, Some ErrInvalidCIDR)
             | Some cidrs \<Rightarrow>
                 let protocol = CheckProtocol cidrStr in
                 (case subnet_parts name protocol gw cidrs of
                    Inl err \<Rightarrow> (ipam, Some err)
                  | Inr (v4cidrStr, v6cidrStr, v4Gw, v6Gw) \<Rightarrow>
                      (case map_of (Subnets ipam) name of
                         Some subnet \<Rightarrow>
                           let (s', e) = update_subnet protocol v4cidrStr v6cidrStr v4Gw v6Gw ex subnet
                           in (set_subnet name s' ipam, e)
                       | None \<Rightarrow> add_new_subnet draws name cidrStr v4Gw v6Gw ex ipam))))"

definition DeleteSubnet :: "string \<Rightarrow> IPAM \<Rightarrow> IPAM" where
  "DeleteSubnet subnetName ipam = ipam\<lparr>Subnets := mdel subnetName (Subnets ipam)\<rparr>"

section \<open>Queries and pools\<close>

definition nic_addresses :: "string \<Rightarrow> Subnet \<Rightarrow> string \<Rightarrow> SubnetAddress list" where
  "nic_addresses name s nicName =
     (let (v4IP, v6IP, mac, protocol) = Subnet_GetPodAddress nicName s in
      if protocol = ProtocolIPv4 then [\<lparr>sa_subnet = name, sa_IP = IP_String v4IP, sa_Mac = mac\<rparr>]
      else if protocol = ProtocolIPv6 then [\<lparr>sa_subnet = name, sa_IP = IP_String v6IP, sa_Mac = mac\<rparr>]
      else if protocol = ProtocolDual then
        [\<lparr>sa_subnet = name, sa_IP = IP_String v4IP, sa_Mac = mac\<rparr>, \<lparr>sa_subnet = name, sa_IP = IP_String v6IP, sa_Mac = mac\<rparr>]
      else [])"

definition IPAM_GetPodAddress :: "string \<Rightarrow> IPAM \<Rightarrow> SubnetAddress list" where
  "IPAM_GetPodAddress podName ipam =
     concat (map (\<lambda>(name, s). concat (map (nic_addresses name s) (mget0 (PodToNicList s) podName))) (Subnets ipam))"

definition IPAM_ContainAddress :: "string \<Rightarrow> IPAM \<Rightarrow> bool" where
  "IPAM_ContainAddress address ipam =
     (case NewIP address of
        Inl _ \<Rightarrow> False
      | Inr ip \<Rightarrow> if ip = [] then False else \<exists>(name, s)\<in>set (Subnets ipam). Subnet_ContainAddress ip s)"

definition IsIPAssignedToOtherPod :: "string \<Rightarrow> string \<Rightarrow> string \<Rightarrow> IPAM \<Rightarrow> string \<times> bool" where
  "IsIPAssignedToOtherPod ip subnetName podName ipam =
     (case map_of (Subnets ipam) subnetName of
        None \<Rightarrow> ([], False)
      | Some s \<Rightarrow> isIPAssignedToOtherPod ip podName s)"

definition GetSubnetV4Mask :: "string \<Rightarrow> IPAM \<Rightarrow> error + string" where
  "GetSubnetV4Mask subnetName ipam =
     (case map_of (Subnets ipam) subnetName of
        None \<Rightarrow> Inl ErrNoAvailable
      | Some s \<Rightarrow>
          (case FCIDR (SV4 s) of
             None \<Rightarrow> Inl Panic
           | Some cidr \<Rightarrow> Inr (dec (fst (mask_size (NetMask cidr))))))"

definition list_or_nil :: "error + IPRangeList \<Rightarrow> IPRangeList" where
  "list_or_nil r = (case r of Inl _ \<Rightarrow> NewEmptyIPRangeList | Inr l \<Rightarrow> l)"

definition GetSubnetIPRangeString :: "string \<Rightarrow> string list \<Rightarrow> IPAM \<Rightarrow> string \<times> string \<times> string \<times> string" where
  "GetSubnetIPRangeString subnetName excludeIps ipam =
     (let (v4Exclude, v6Exclude) = SplitIpsByProtocol excludeIps in
      case map_of (Subnets ipam) subnetName of
        None \<Rightarrow> ([], [], [], [])
      | Some s \<Rightarrow>
          let v4Reserved = list_or_nil (NewIPRangeListFrom v4Exclude); v6Reserved = list_or_nil (NewIPRangeListFrom v6Exclude)
          in (rl_String (rl_Separate (SUsing (SV4 s)) v4Reserved), rl_String (rl_Separate (SUsing (SV6 s)) v6Reserved),
              rl_String (rl_Separate (SAvailable (SV4 s)) v4Reserved), rl_String (rl_Separate (SAvailable (SV6 s)) v6Reserved)))"

definition IPAM_AddOrUpdateIPPool :: "string \<Rightarrow> string \<Rightarrow> string list \<Rightarrow> IPAM \<Rightarrow> IPAM \<times> error option" where
  "IPAM_AddOrUpdateIPPool subnet ippool ips ipam =
     (case map_of (Subnets ipam) subnet of
        None \<Rightarrow> (ipam, Some (ErrFmt (''subnet '' @ subnet @ '' does not exist in IPAM'')))
      | Some s \<Rightarrow> let (s', e) = AddOrUpdateIPPool ippool ips s in (set_subnet subnet s' ipam, e))"

definition IPAM_RemoveIPPool :: "string \<Rightarrow> string \<Rightarrow> IPAM \<Rightarrow> error + IPAM" where
  "IPAM_RemoveIPPool subnet ippool ipam =
     (case map_of (Subnets ipam) subnet of
        None \<Rightarrow> Inr ipam
      | Some s \<Rightarrow> (case RemoveIPPool ippool s of Inl err \<Rightarrow> Inl err | Inr s' \<Rightarrow> Inr (set_subnet subnet s' ipam)))"

definition IPAM_IPPoolStatistics :: "string \<Rightarrow> string \<Rightarrow> IPAM \<Rightarrow> pool_statistics" where
  "IPAM_IPPoolStatistics subnet ippool ipam =
     (case map_of (Subnets ipam) subnet of
        None \<Rightarrow> zero_statistics
      | Some s \<Rightarrow> Subnet_IPPoolStatistics ippool s)"

definition RecordGatewayMAC :: "string \<Rightarrow> string \<Rightarrow> IPAM \<Rightarrow> IPAM \<times> error option" where
  "RecordGatewayMAC subnetName gatewayMAC ipam =
     (case map_of (Subnets ipam) subnetName of
        None \<Rightarrow> (ipam, Some (ErrFmt (''subnet '' @ subnetName @ '' not found in ipam'')))
      | Some s \<Rightarrow> (set_subnet subnetName (s\<lparr>GatewayMAC := gatewayMAC\<rparr>) ipam, None))"

end
