(* ===== verification/SubnetInv.thy ===== *)
theory SubnetInv
  imports Networks IPAM
begin

text \<open>
  The invariant of a subnet. For each family \<open>U\<close> is the set of usable addresses of its
  network; the lists of the subnet and of its pools are then determined by two sets, the
  reserved addresses and the addresses in use, and the maps of leases hold only addresses
  in use, each for one NIC. The lemmas of this theory show that the operations of
  pkg/ipam/subnet.go keep the invariant.
\<close>

section \<open>The invariant\<close>

definition pools_of :: "fam \<Rightarrow> Subnet \<Rightarrow> (string, IPPoolFam) gomap" where
  "pools_of F s = map (\<lambda>(n, p). (n, pfam F p)) (IPPools s)"

definition pool_ok :: "fam \<Rightarrow> nat set \<Rightarrow> nat set \<Rightarrow> nat set \<Rightarrow> IPPoolFam \<Rightarrow> bool" where
  "pool_ok F U R X p =
     (rl_in F (PIPs p) \<and> rl_in F (PFree p) \<and> rl_in F (PAvailable p) \<and> rl_in F (PReserved p) \<and>
      rl_in F (PReleased p) \<and> rl_in F (PUsing p) \<and>
      rlset (PReserved p) = R \<inter> rlset (PIPs p) \<and> rlset (PUsing p) = X \<inter> rlset (PIPs p) \<and>
      rlset (PAvailable p) = U \<inter> rlset (PIPs p) - X - R \<and>
      rlset (PFree p) \<union> rlset (PReleased p) = rlset (PAvailable p) \<and> rlset (PFree p) \<inter> rlset (PReleased p) = {})"

definition pools_ok :: "fam \<Rightarrow> nat set \<Rightarrow> nat set \<Rightarrow> nat set \<Rightarrow> (string, IPPoolFam) gomap \<Rightarrow> bool" where
  "pools_ok F U R X ps =
     (mwf ps \<and> (\<forall>(n, p)\<in>set ps. pool_ok F U R X p) \<and>
      (\<forall>(n, p)\<in>set ps. \<forall>(m, q)\<in>set ps. n \<noteq> m \<longrightarrow> rlset (PIPs p) \<inter> rlset (PIPs q) = {}) \<and>
      U \<subseteq> (\<Union>(n, p)\<in>set ps. rlset (PIPs p)))"

definition leases_ok :: "fam \<Rightarrow> nat set \<Rightarrow> (string, IP) gomap \<Rightarrow> (string, string) gomap \<Rightarrow> bool" where
  "leases_ok F X nics pods =
     (mwf nics \<and>
      (\<forall>nic ip. map_of nics nic = Some ip \<longrightarrow> ip_in F ip \<and> ipv ip \<in> X \<and> map_of pods (IP_String ip) \<noteq> None) \<and>
      (\<forall>nic nic' ip. map_of nics nic = Some ip \<longrightarrow> map_of nics nic' = Some ip \<longrightarrow> nic = nic') \<and>
      (\<forall>k v. map_of pods k = Some v \<longrightarrow> CHR '','' \<notin> set v))"

definition cidr_ok :: "fam \<Rightarrow> nat set \<Rightarrow> IPNet option \<Rightarrow> bool" where
  "cidr_ok F U cidr =
     (case cidr of
        None \<Rightarrow> U = {}
      | Some c \<Rightarrow> (\<exists>l. usable_list (net_string c) = Inr l \<and> rl_in F l \<and> rlset l = U) \<and>
                  (\<forall>ip. ip_in F ip \<and> ipv ip \<in> U \<longrightarrow> net_contains c ip))"

definition lists_ok :: "fam \<Rightarrow> nat set \<Rightarrow> SubnetFam \<Rightarrow> (string, IPPoolFam) gomap \<Rightarrow> bool" where
  "lists_ok F U f ps =
     (rl_in F (SFree f) \<and> rl_in F (SReserved f) \<and> rl_in F (SAvailable f) \<and> rl_in F (SUsing f) \<and>
      rlset (SReserved f) \<subseteq> U \<and> rlset (SUsing f) \<subseteq> U \<and>
      rlset (SAvailable f) = U - rlset (SUsing f) - rlset (SReserved f) \<and>
      pools_ok F U (rlset (SReserved f)) (rlset (SUsing f)) ps)"

definition fam_ok :: "fam \<Rightarrow> nat set \<Rightarrow> SubnetFam \<Rightarrow> (string, IPPoolFam) gomap \<Rightarrow> bool" where
  "fam_ok F U f ps =
     (lists_ok F U f ps \<and> leases_ok F (rlset (SUsing f)) (NicToIP f) (IPToPod f) \<and> cidr_ok F U (FCIDR f))"

definition sub_ok :: "(fam \<Rightarrow> nat set) \<Rightarrow> Subnet \<Rightarrow> bool" where
  "sub_ok U s = ((\<forall>F. fam_ok F (U F) (sfam F s) (pools_of F s)) \<and> map_of (IPPools s) [] \<noteq> None)"

section \<open>Families and pools as places\<close>

lemma other_simps [simp]: "other (other F) = F" "other F \<noteq> F" "F \<noteq> other F"
  by (cases F; simp)+

lemma fam_other: "G \<noteq> F \<Longrightarrow> G = other F"
  by (cases F; cases G) auto

lemma sfam_set [simp]: "sfam F (set_sfam F f s) = f" "G \<noteq> F \<Longrightarrow> sfam G (set_sfam F f s) = sfam G s"
  by (cases F; cases G; simp)+

lemma pfam_set [simp]: "pfam F (set_pfam F f p) = f" "G \<noteq> F \<Longrightarrow> pfam G (set_pfam F f p) = pfam G p"
  by (cases F; cases G; simp)+

lemma set_sfam_fields [simp]:
  "IPPools (set_sfam F f s) = IPPools s" "NicToMac (set_sfam F f s) = NicToMac s" "MacToPod (set_sfam F f s) = MacToPod s"
  "PodToNicList (set_sfam F f s) = PodToNicList s" "rnd (set_sfam F f s) = rnd s" "Protocol (set_sfam F f s) = Protocol s"
  "GatewayMAC (set_sfam F f s) = GatewayMAC s"
  by (cases F; simp)+

lemma sfam_update [simp]:
  "sfam F (s\<lparr>IPPools := x\<rparr>) = sfam F s" "sfam F (s\<lparr>NicToMac := y\<rparr>) = sfam F s" "sfam F (s\<lparr>MacToPod := y\<rparr>) = sfam F s"
  "sfam F (s\<lparr>PodToNicList := z\<rparr>) = sfam F s" "sfam F (s\<lparr>rnd := w\<rparr>) = sfam F s" "sfam F (s\<lparr>GatewayMAC := g\<rparr>) = sfam F s"
  "sfam F (s\<lparr>Protocol := g\<rparr>) = sfam F s"
  by (cases F; simp)+

lemma set_pool_fields [simp]:
  "sfam F (set_pool n p s) = sfam F s" "NicToMac (set_pool n p s) = NicToMac s" "MacToPod (set_pool n p s) = MacToPod s"
  "PodToNicList (set_pool n p s) = PodToNicList s" "rnd (set_pool n p s) = rnd s" "Protocol (set_pool n p s) = Protocol s"
  "GatewayMAC (set_pool n p s) = GatewayMAC s" "IPPools (set_pool n p s) = mput n p (IPPools s)"
  by (simp_all add: set_pool_def)

lemma map_mput: "map (\<lambda>(n, p). (n, g p)) (mput k v m) = mput k (g v) (map (\<lambda>(n, p). (n, g p)) m)"
  unfolding mput_def by (induction m) auto

lemma pools_of_set_pool [simp]: "pools_of F (set_pool n p s) = mput n (pfam F p) (pools_of F s)"
  by (simp add: pools_of_def map_mput)

lemma pools_of_simps [simp]:
  "pools_of F (set_sfam G f s) = pools_of F s"
  "pools_of F (s\<lparr>NicToMac := y\<rparr>) = pools_of F s" "pools_of F (s\<lparr>MacToPod := y\<rparr>) = pools_of F s"
  "pools_of F (s\<lparr>PodToNicList := z\<rparr>) = pools_of F s" "pools_of F (s\<lparr>rnd := w\<rparr>) = pools_of F s"
  "pools_of F (s\<lparr>GatewayMAC := g\<rparr>) = pools_of F s" "pools_of F (s\<lparr>Protocol := g\<rparr>) = pools_of F s"
  by (simp_all add: pools_of_def)

lemma map_of_pools_of: "map_of (pools_of F s) n = map_option (pfam F) (map_of (IPPools s) n)"
  unfolding pools_of_def by (induction "IPPools s") (auto simp: pools_of_def map_of_map)

lemma mwf_pools_of: "mwf (pools_of F s) = mwf (IPPools s)"
  by (simp add: mwf_def pools_of_def comp_def split_def)

lemma mput_same: "mwf m \<Longrightarrow> map_of m k = Some v \<Longrightarrow> mput k v m = m"
  unfolding mput_def mwf_def by (induction m) (auto dest: map_of_SomeD split: if_splits)

lemma pools_of_other:
  "G \<noteq> F \<Longrightarrow> mwf (IPPools s) \<Longrightarrow> map_of (IPPools s) n = Some p \<Longrightarrow> pools_of G (set_pool n (set_pfam F f p) s) = pools_of G s"
  by (simp add: mput_same mwf_pools_of map_of_pools_of)

section \<open>One pool changes\<close>

lemma pools_ok_D:
  assumes "pools_ok F U R X ps"
  shows "mwf ps" "(n, p) \<in> set ps \<Longrightarrow> pool_ok F U R X p"
    "(n, p) \<in> set ps \<Longrightarrow> (m, q) \<in> set ps \<Longrightarrow> n \<noteq> m \<Longrightarrow> rlset (PIPs p) \<inter> rlset (PIPs q) = {}"
    "x \<in> U \<Longrightarrow> \<exists>n p. (n, p) \<in> set ps \<and> x \<in> rlset (PIPs p)"
proof -
  have a: "\<forall>(n, p)\<in>set ps. pool_ok F U R X p"
    and b: "\<forall>(n, p)\<in>set ps. \<forall>(m, q)\<in>set ps. n \<noteq> m \<longrightarrow> rlset (PIPs p) \<inter> rlset (PIPs q) = {}"
    and c: "U \<subseteq> (\<Union>(n, p)\<in>set ps. rlset (PIPs p))" and "mwf ps"
    using assms unfolding pools_ok_def by - (elim conjE, assumption)+
  show "mwf ps" by fact
  show "(n, p) \<in> set ps \<Longrightarrow> pool_ok F U R X p" using a by blast
  show "(n, p) \<in> set ps \<Longrightarrow> (m, q) \<in> set ps \<Longrightarrow> n \<noteq> m \<Longrightarrow> rlset (PIPs p) \<inter> rlset (PIPs q) = {}"
    using bspec [OF b, of "(n, p)"] by blast
  show "x \<in> U \<Longrightarrow> \<exists>n p. (n, p) \<in> set ps \<and> x \<in> rlset (PIPs p)" using c by blast
qed

lemma pool_ok_cong: "X \<inter> rlset (PIPs p) = X' \<inter> rlset (PIPs p) \<Longrightarrow> pool_ok F U R X p \<Longrightarrow> pool_ok F U R X' p"
  unfolding pool_ok_def by (elim conjE, intro conjI) (simp_all, blast+)

lemma pools_ok_put:
  assumes ps: "pools_ok F U R X ps" and n: "(n, p) \<in> set ps" and p': "pool_ok F U R X' p'" and I: "PIPs p' = PIPs p"
    and X': "X' - rlset (PIPs p) = X - rlset (PIPs p)"
  shows "pools_ok F U R X' (mput n p' ps)"
proof -
  note d = pools_ok_D [OF ps]
  have s: "set (mput n p' ps) = {e \<in> set ps. fst e \<noteq> n} \<union> {(n, p')}" by (rule set_mput [OF d(1)])
  have other: "pool_ok F U R X' q" if "(m, q) \<in> set ps" "m \<noteq> n" for m q
  proof (rule pool_ok_cong)
    show "X \<inter> rlset (PIPs q) = X' \<inter> rlset (PIPs q)" using d(3) [OF that(1) n that(2)] X' by blast
    show "pool_ok F U R X q" using d(2) that by blast
  qed
  have "U \<subseteq> (\<Union>(m, q)\<in>set (mput n p' ps). rlset (PIPs q))"
  proof
    fix x assume "x \<in> U"
    then obtain m q where "(m, q) \<in> set ps" "x \<in> rlset (PIPs q)" using d(4) by blast
    moreover have "q = p" if "m = n" using that \<open>(m, q) \<in> set ps\<close> n d(1) by (metis mwf_map_of_iff option.inject)
    ultimately show "x \<in> (\<Union>(m, q)\<in>set (mput n p' ps). rlset (PIPs q))"
      unfolding s using I by (cases "m = n") auto
  qed
  then show ?thesis
    unfolding pools_ok_def s using other p' d(1,3) n I by (fastforce simp: mwf_mput)
qed

section \<open>Releasing\<close>

definition rel_fam :: "bool \<Rightarrow> IP \<Rightarrow> IPPoolFam \<Rightarrow> IPPoolFam" where
  "rel_fam changed ip p =
     (let q = p\<lparr>PUsing := fst (rl_Remove (PUsing p) ip)\<rparr> in
      if \<not> changed then q\<lparr>PAvailable := fst (rl_Add (PAvailable q) ip), PReleased := fst (rl_Add (PReleased q) ip)\<rparr> else q)"

lemma set_pfam_same [simp]: "set_pfam F (pfam F p) p = p"
  by (cases F) simp_all

lemma rl_in_Remove_absent:
  "rl_in F l \<Longrightarrow> ip_in F ip \<Longrightarrow> ipv ip \<notin> rlset l \<Longrightarrow> rl_Remove l ip = (l, False)"
  using rl_Remove_absent [OF rl_ok_dis ipok_valid] by (auto simp: rl_in_def ip_in_def)

lemma release_pools_hit:
  assumes "\<forall>(m, q)\<in>set ps. rl_in F (PUsing (pfam F q))" "ip_in F ip" "mwf ps"
    "(n, p) \<in> set ps" "ipv ip \<in> rlset (PUsing (pfam F p))"
    "\<forall>(m, q)\<in>set ps. m \<noteq> n \<longrightarrow> ipv ip \<notin> rlset (PUsing (pfam F q))"
  shows "release_pools F ip changed ps = mput n (set_pfam F (rel_fam changed ip (pfam F p)) p) ps"
  using assms
proof (induction ps)
  case (Cons e ps)
  obtain m q where e: "e = (m, q)" by (cases e)
  show ?case
  proof (cases "m = n")
    case True
    then have "q = p" using Cons.prems e by (auto simp: mwf_Cons) force
    moreover have "snd (rl_Remove (PUsing (pfam F p)) ip)"
      using Cons.prems rl.remove_present [of F "PUsing (pfam F p)" ip] \<open>q = p\<close> e by auto
    ultimately show ?thesis
      using True e by (auto simp: mput_def rel_fam_def Let_def split: prod.splits)
  next
    case False
    then have "rl_Remove (PUsing (pfam F q)) ip = (PUsing (pfam F q), False)"
      using Cons.prems e by (intro rl_in_Remove_absent) auto
    moreover have "(pfam F q)\<lparr>PUsing := PUsing (pfam F q)\<rparr> = pfam F q" by simp
    ultimately show ?thesis
      using Cons False e by (auto simp: mput_def mwf_Cons)
  qed
qed simp

text \<open>The pool of an address in use, after its release.\<close>

lemma rel_fam_ok:
  assumes p: "pool_ok F U R X p" and ip: "ip_in F ip" "ipv ip \<in> rlset (PUsing p)" "ipv ip \<in> U"
  shows "pool_ok F U R (X - {ipv ip}) (rel_fam (ipv ip \<in> R) ip p)"
proof -
  have in6: "rl_in F (PIPs p)" "rl_in F (PFree p)" "rl_in F (PAvailable p)" "rl_in F (PReserved p)"
      "rl_in F (PReleased p)" "rl_in F (PUsing p)"
    and s: "rlset (PReserved p) = R \<inter> rlset (PIPs p)" "rlset (PUsing p) = X \<inter> rlset (PIPs p)"
      "rlset (PAvailable p) = U \<inter> rlset (PIPs p) - X - R"
      "rlset (PFree p) \<union> rlset (PReleased p) = rlset (PAvailable p)" "rlset (PFree p) \<inter> rlset (PReleased p) = {}"
    using p by (auto simp: pool_ok_def)
  note rm = rl.wf_remove [OF in6(6) ip(1)] rl.elems_remove [OF in6(6) ip(1)]
  note aa = rl.wf_add [OF in6(3) ip(1)] rl.elems_add [OF in6(3) ip(1)]
  note ar = rl.wf_add [OF in6(5) ip(1)] rl.elems_add [OF in6(5) ip(1)]
  show ?thesis
  proof (cases "ipv ip \<in> R")
    case True
    then show ?thesis
      using in6 s rm ip by (simp add: pool_ok_def rel_fam_def) blast
  next
    case False
    then show ?thesis
      using in6 s rm aa ar ip by (simp add: pool_ok_def rel_fam_def Let_def) blast
  qed
qed

lemma lists_okD:
  assumes "lists_ok F U f ps"
  shows "rl_in F (SFree f)" "rl_in F (SReserved f)" "rl_in F (SAvailable f)" "rl_in F (SUsing f)"
    "rlset (SReserved f) \<subseteq> U" "rlset (SUsing f) \<subseteq> U"
    "rlset (SAvailable f) = U - rlset (SUsing f) - rlset (SReserved f)"
    "pools_ok F U (rlset (SReserved f)) (rlset (SUsing f)) ps"
  using assms by (auto simp: lists_ok_def)

lemma pool_okD:
  assumes "pool_ok F U R X p"
  shows "rl_in F (PIPs p)" "rl_in F (PFree p)" "rl_in F (PAvailable p)" "rl_in F (PReserved p)"
    "rl_in F (PReleased p)" "rl_in F (PUsing p)"
    "rlset (PReserved p) = R \<inter> rlset (PIPs p)" "rlset (PUsing p) = X \<inter> rlset (PIPs p)"
    "rlset (PAvailable p) = U \<inter> rlset (PIPs p) - X - R"
    "rlset (PFree p) \<union> rlset (PReleased p) = rlset (PAvailable p)" "rlset (PFree p) \<inter> rlset (PReleased p) = {}"
  using assms unfolding pool_ok_def by blast+

lemma sub_okD:
  assumes "sub_ok U s"
  shows "fam_ok F (U F) (sfam F s) (pools_of F s)" "lists_ok F (U F) (sfam F s) (pools_of F s)"
    "leases_ok F (rlset (SUsing (sfam F s))) (NicToIP (sfam F s)) (IPToPod (sfam F s))"
    "cidr_ok F (U F) (FCIDR (sfam F s))" "map_of (IPPools s) [] \<noteq> None" "mwf (IPPools s)"
proof -
  show f: "fam_ok F (U F) (sfam F s) (pools_of F s)" using assms by (simp add: sub_ok_def)
  then show "lists_ok F (U F) (sfam F s) (pools_of F s)"
    "leases_ok F (rlset (SUsing (sfam F s))) (NicToIP (sfam F s)) (IPToPod (sfam F s))"
    "cidr_ok F (U F) (FCIDR (sfam F s))" by (simp_all add: fam_ok_def)
  then have "mwf (pools_of F s)" using lists_okD(8) pools_ok_D(1) by blast
  then show "mwf (IPPools s)" by (simp add: mwf_pools_of)
  show "map_of (IPPools s) [] \<noteq> None" using assms by (simp add: sub_ok_def)
qed

lemma sub_ok_frame [simp]:
  "sub_ok U (s\<lparr>NicToMac := y\<rparr>) = sub_ok U s" "sub_ok U (s\<lparr>MacToPod := y\<rparr>) = sub_ok U s"
  "sub_ok U (s\<lparr>PodToNicList := z\<rparr>) = sub_ok U s" "sub_ok U (s\<lparr>rnd := w\<rparr>) = sub_ok U s"
  "sub_ok U (s\<lparr>GatewayMAC := g\<rparr>) = sub_ok U s" "sub_ok U (s\<lparr>Protocol := g\<rparr>) = sub_ok U s"
  by (simp_all add: sub_ok_def)

lemma sub_ok_put:
  assumes s: "sub_ok U s" and p: "map_of (IPPools s) n = Some p"
    and f: "fam_ok F (U F) f (mput n q (pools_of F s))"
  shows "sub_ok U (set_pool n (set_pfam F q p) (set_sfam F f s))"
proof -
  have "fam_ok G (U G) (sfam G (set_pool n (set_pfam F q p) (set_sfam F f s)))
      (pools_of G (set_pool n (set_pfam F q p) (set_sfam F f s)))" for G
  proof (cases "G = F")
    case True
    then show ?thesis using f by simp
  next
    case False
    then have "pools_of G (set_pool n (set_pfam F q p) (set_sfam F f s)) = pools_of G s"
      using pools_of_other [OF False, of "set_sfam F f s" n p q] sub_okD(6) [OF s] p by simp
    then show ?thesis using False sub_okD(1) [OF s, of G] by (simp del: pools_of_set_pool)
  qed
  then show ?thesis using sub_okD(5) [OF s] by (simp add: sub_ok_def)
qed

lemma set_sfam_same [simp]: "set_sfam F (sfam F s) s = s"
  by (cases F) simp_all

lemma set_sfam_twice [simp]: "set_sfam F g (set_sfam F f s) = set_sfam F g s"
  by (cases F) simp_all

lemma set_pool_sfam: "set_sfam F f (set_pool n p s) = set_pool n p (set_sfam F f s)"
  by (cases F) (simp_all add: set_pool_def)

lemma set_pfam_twice [simp]: "set_pfam F g (set_pfam F f p) = set_pfam F g p"
  by (cases F) simp_all

lemma mput_twice [simp]: "mput k v (mput k u m) = mput k v m"
  by (induction m) (auto simp: mput_def)

lemma set_pool_twice [simp]: "set_pool n p (set_pool n q s) = set_pool n p s"
  by (simp add: set_pool_def)

lemma sub_ok_sfam:
  assumes s: "sub_ok U s" and f: "fam_ok F (U F) f (pools_of F s)"
  shows "sub_ok U (set_sfam F f s)"
proof -
  have "fam_ok G (U G) (sfam G (set_sfam F f s)) (pools_of G (set_sfam F f s))" for G
    using f sub_okD(1) [OF s, of G] by (cases "G = F") simp_all
  then show ?thesis using sub_okD(5) [OF s] by (simp add: sub_ok_def)
qed

section \<open>Leases\<close>

lemma leases_okD:
  assumes "leases_ok F X nics pods"
  shows "mwf nics" "map_of nics nic = Some ip \<Longrightarrow> ip_in F ip" "map_of nics nic = Some ip \<Longrightarrow> ipv ip \<in> X"
    "map_of nics nic = Some ip \<Longrightarrow> \<exists>v. map_of pods (IP_String ip) = Some v"
    "map_of nics nic = Some ip \<Longrightarrow> map_of nics nic' = Some ip \<Longrightarrow> nic = nic'"
    "map_of pods k = Some v \<Longrightarrow> CHR '','' \<notin> set v"
  using assms unfolding leases_ok_def by blast+

lemma ip_in_inj: "ip_in F a \<Longrightarrow> ip_in F b \<Longrightarrow> ipv a = ipv b \<longleftrightarrow> a = b"
  using ipok_inj by (auto simp: ip_in_def)

lemma ip_in_String: "ip_in F a \<Longrightarrow> ip_in F b \<Longrightarrow> IP_String a = IP_String b \<longleftrightarrow> a = b"
  using IP_String_inj by (auto simp: ip_in_def)

lemma leases_ok_release:
  assumes l: "leases_ok F X nics pods" and nic: "map_of nics nic = Some ip"
  shows "leases_ok F (X - {ipv ip}) (mdel nic nics) (mdel (IP_String ip) pods)"
proof -
  note d = leases_okD [OF l]
  have "ipv ip' \<noteq> ipv ip \<and> IP_String ip' \<noteq> IP_String ip" if "nic' \<noteq> nic" "map_of nics nic' = Some ip'" for nic' ip'
    using d(2) [OF nic] d(2) [OF that(2)] d(5) [OF nic, of nic'] that ip_in_inj ip_in_String by blast
  then show ?thesis
    unfolding leases_ok_def using d by (auto split: if_splits)
qed

lemma leases_ok_take:
  assumes l: "leases_ok F X nics pods" and ip: "ip_in F ip" and new: "\<forall>n. map_of nics n \<noteq> Some ip"
    and pod: "CHR '','' \<notin> set pod"
  shows "leases_ok F (insert (ipv ip) X) (mput nic ip nics) (mput (IP_String ip) pod pods)"
  unfolding leases_ok_def using leases_okD [OF l] ip new pod by (auto split: if_splits)


section \<open>Release\<close>

lemma cidr_ok_None: "cidr_ok F U None \<longleftrightarrow> U = {}"
  by (simp add: cidr_ok_def)

lemma pools_of_mem: "mwf (IPPools s) \<Longrightarrow> map_of (IPPools s) n = Some p \<Longrightarrow> (n, pfam F p) \<in> set (pools_of F s)"
  using map_of_SomeD [of "IPPools s" n p] by (force simp: pools_of_def)

lemma pool_of_address:
  assumes "lists_ok F U (sfam F s) (pools_of F s)" "x \<in> U"
  obtains n p where "map_of (IPPools s) n = Some p" "x \<in> rlset (PIPs (pfam F p))"
    "\<And>m q. map_of (IPPools s) m = Some q \<Longrightarrow> m \<noteq> n \<Longrightarrow> x \<notin> rlset (PIPs (pfam F q))"
proof -
  note po = lists_okD(8) [OF assms(1)]
  have w: "mwf (pools_of F s)" "mwf (IPPools s)" using pools_ok_D(1) [OF po] by (simp_all add: mwf_pools_of)
  have i: "(m, pfam F q) \<in> set (pools_of F s)" if "map_of (IPPools s) m = Some q" for m q
    using that w by (simp add: pools_of_mem)
  obtain n p' where np: "(n, p') \<in> set (pools_of F s)" "x \<in> rlset (PIPs p')"
    using pools_ok_D(4) [OF po assms(2)] by blast
  then have "map_of (pools_of F s) n = Some p'" using w by (simp add: mwf_map_of_iff)
  then obtain p where "map_of (IPPools s) n = Some p" "p' = pfam F p" by (auto simp: map_of_pools_of)
  moreover have "x \<notin> rlset (PIPs (pfam F q))" if "map_of (IPPools s) m = Some q" "m \<noteq> n" for m q
    using pools_ok_D(3) [OF po i [OF that(1)] np(1) that(2)] np(2) by blast
  ultimately show ?thesis using that np by blast
qed

lemma pool_ok_of:
  assumes "lists_ok F U (sfam F s) (pools_of F s)" "map_of (IPPools s) n = Some p"
  shows "pool_ok F U (rlset (SReserved (sfam F s))) (rlset (SUsing (sfam F s))) (pfam F p)"
    "(n, pfam F p) \<in> set (pools_of F s)"
proof -
  note po = lists_okD(8) [OF assms(1)]
  show i: "(n, pfam F p) \<in> set (pools_of F s)"
    using assms(2) pools_ok_D(1) [OF po] by (simp add: pools_of_mem mwf_pools_of)
  show "pool_ok F U (rlset (SReserved (sfam F s))) (rlset (SUsing (sfam F s))) (pfam F p)"
    by (rule pools_ok_D(2) [OF po i])
qed

text \<open>The lists of a family after the release of an address in use.\<close>

definition rel_sub :: "bool \<Rightarrow> IP \<Rightarrow> SubnetFam \<Rightarrow> SubnetFam" where
  "rel_sub changed ip f =
     (let f1 = f\<lparr>SUsing := fst (rl_Remove (SUsing f) ip)\<rparr> in
      if \<not> changed then f1\<lparr>SAvailable := fst (rl_Add (SAvailable f1) ip)\<rparr> else f1)"

lemma rel_sub_fields [simp]:
  "SUsing (rel_sub c ip f) = fst (rl_Remove (SUsing f) ip)" "SReserved (rel_sub c ip f) = SReserved f"
  "NicToIP (rel_sub c ip f) = NicToIP f" "IPToPod (rel_sub c ip f) = IPToPod f" "FCIDR (rel_sub c ip f) = FCIDR f"
  "SFree (rel_sub c ip f) = SFree f" "Gw (rel_sub c ip f) = Gw f"
  by (simp_all add: rel_sub_def Let_def)

lemma rel_sub_ok:
  assumes l: "lists_ok F U f ps" and ip: "ip_in F ip" "ipv ip \<in> rlset (SUsing f)"
    and n: "(n, p) \<in> set ps" "ipv ip \<in> rlset (PIPs p)"
  shows "lists_ok F U (rel_sub (ipv ip \<in> rlset (SReserved f)) ip f)
    (mput n (rel_fam (ipv ip \<in> rlset (SReserved f)) ip p) ps)"
proof -
  note d = lists_okD [OF l]
  note po = pools_ok_D(2) [OF d(8) n(1)]
  have u: "ipv ip \<in> rlset (PUsing p)" using pool_okD(8) [OF po] n ip by blast
  have "pools_ok F U (rlset (SReserved f)) (rlset (SUsing f) - {ipv ip})
      (mput n (rel_fam (ipv ip \<in> rlset (SReserved f)) ip p) ps)"
  proof (rule pools_ok_put [OF d(8) n(1)])
    show "pool_ok F U (rlset (SReserved f)) (rlset (SUsing f) - {ipv ip})
        (rel_fam (ipv ip \<in> rlset (SReserved f)) ip p)"
      using rel_fam_ok [OF po ip(1) u] ip d(6) by blast
    show "PIPs (rel_fam (ipv ip \<in> rlset (SReserved f)) ip p) = PIPs p" by (simp add: rel_fam_def Let_def)
    show "rlset (SUsing f) - {ipv ip} - rlset (PIPs p) = rlset (SUsing f) - rlset (PIPs p)" using n by blast
  qed
  moreover have "rlset (SAvailable (rel_sub (ipv ip \<in> rlset (SReserved f)) ip f)) =
      U - (rlset (SUsing f) - {ipv ip}) - rlset (SReserved f)"
    "rl_in F (SAvailable (rel_sub (ipv ip \<in> rlset (SReserved f)) ip f))"
    using d ip rl.wf_add [OF d(3) ip(1)] rl.elems_add [OF d(3) ip(1)] by (auto simp: rel_sub_def Let_def)
  ultimately show ?thesis
    using d rl.wf_remove [OF d(4) ip(1)] rl.elems_remove [OF d(4) ip(1)] by (auto simp: lists_ok_def)
qed

lemma release_lists_hit:
  assumes l: "lists_ok F U (sfam F s) (pools_of F s)" and ip: "ip_in F ip" "ipv ip \<in> rlset (SUsing (sfam F s))"
  obtains n p where "map_of (IPPools s) n = Some p" "ipv ip \<in> rlset (PIPs (pfam F p))"
    "\<And>c. release_lists F ip c s = set_pool n (set_pfam F (rel_fam c ip (pfam F p)) p) (set_sfam F (rel_sub c ip (sfam F s)) s)"
proof -
  note d = lists_okD [OF l]
  have w: "mwf (IPPools s)" using pools_ok_D(1) [OF d(8)] by (simp add: mwf_pools_of)
  obtain n p where np: "map_of (IPPools s) n = Some p" "ipv ip \<in> rlset (PIPs (pfam F p))"
    and oth: "\<And>m q. map_of (IPPools s) m = Some q \<Longrightarrow> m \<noteq> n \<Longrightarrow> ipv ip \<notin> rlset (PIPs (pfam F q))"
    using pool_of_address [OF l, of "ipv ip"] ip d(6) by blast
  have pok: "pool_ok F U (rlset (SReserved (sfam F s))) (rlset (SUsing (sfam F s))) (pfam F q)" if "(m, q) \<in> set (IPPools s)" for m q
    using that pool_ok_of [OF l] w by (simp add: mwf_map_of_iff)
  have "release_pools F ip c (IPPools s) = mput n (set_pfam F (rel_fam c ip (pfam F p)) p) (IPPools s)" for c
  proof (rule release_pools_hit)
    show "\<forall>(m, q)\<in>set (IPPools s). rl_in F (PUsing (pfam F q))" using pool_okD(6) [OF pok] by blast
    show "(n, p) \<in> set (IPPools s)" using np w by (simp add: mwf_map_of_iff)
    then show "ipv ip \<in> rlset (PUsing (pfam F p))" using pool_okD(8) [OF pok] np ip by blast
    show "\<forall>(m, q)\<in>set (IPPools s). m \<noteq> n \<longrightarrow> ipv ip \<notin> rlset (PUsing (pfam F q))"
      using pool_okD(8) [OF pok] oth w by (auto simp: mwf_map_of_iff)
  qed (use ip w in auto)
  then have "release_lists F ip c s = set_pool n (set_pfam F (rel_fam c ip (pfam F p)) p) (set_sfam F (rel_sub c ip (sfam F s)) s)" for c
    by (simp add: release_lists_def Let_def rel_sub_def set_pool_def)
  with np show ?thesis using that by blast
qed


lemma lists_ok_frame [simp]:
  "lists_ok F U (f\<lparr>NicToIP := a\<rparr>) ps = lists_ok F U f ps" "lists_ok F U (f\<lparr>IPToPod := b\<rparr>) ps = lists_ok F U f ps"
  "lists_ok F U (f\<lparr>Gw := g\<rparr>) ps = lists_ok F U f ps" "lists_ok F U (f\<lparr>FCIDR := c\<rparr>) ps = lists_ok F U f ps"
  by (simp_all add: lists_ok_def)

lemma release_mac_fields [simp]:
  "sfam G (release_mac F nic s) = sfam G s" "IPPools (release_mac F nic s) = IPPools s"
  "PodToNicList (release_mac F nic s) = PodToNicList s" "pools_of G (release_mac F nic s) = pools_of G s"
  "Protocol (release_mac F nic s) = Protocol s" "sub_ok U (release_mac F nic s) = sub_ok U s"
  "GatewayMAC (release_mac F nic s) = GatewayMAC s" "rnd (release_mac F nic s) = rnd s"
  by (auto simp: release_mac_def split: option.splits)

lemma release_mac_comm:
  "release_mac F nic (set_sfam F f s) = set_sfam F f (release_mac F nic s)"
  by (cases F) (auto simp: release_mac_def split: option.splits)

lemma not_using_None:
  assumes "fam_ok F U f ps" "map_of (NicToIP f) nic = Some ip"
  shows "\<exists>cidr. FCIDR f = Some cidr \<and> net_contains cidr ip"
proof -
  have l: "leases_ok F (rlset (SUsing f)) (NicToIP f) (IPToPod f)" "lists_ok F U f ps" "cidr_ok F U (FCIDR f)"
    using assms by (simp_all add: fam_ok_def)
  then have "ipv ip \<in> U" "ip_in F ip" using leases_okD(2,3) [OF l(1) assms(2)] lists_okD(6) [OF l(2)] by blast+
  with l(3) show ?thesis by (cases "FCIDR f") (auto simp: cidr_ok_def)
qed

text \<open>A NIC that has an address gives it up: the call returns, and the address leaves the lists in use.\<close>

definition lease_out :: "string \<Rightarrow> IP \<Rightarrow> SubnetFam \<Rightarrow> SubnetFam" where
  "lease_out nic ip f = f\<lparr>NicToIP := mdel nic (NicToIP f), IPToPod := mdel (IP_String ip) (IPToPod f)\<rparr>"

lemma lease_out_fields [simp]:
  "SUsing (lease_out nic ip f) = SUsing f" "SReserved (lease_out nic ip f) = SReserved f"
  "NicToIP (lease_out nic ip f) = mdel nic (NicToIP f)" "IPToPod (lease_out nic ip f) = mdel (IP_String ip) (IPToPod f)"
  "FCIDR (lease_out nic ip f) = FCIDR f" "SFree (lease_out nic ip f) = SFree f" "Gw (lease_out nic ip f) = Gw f"
  "lists_ok F U (lease_out nic ip f) ps = lists_ok F U f ps" "SAvailable (lease_out nic ip f) = SAvailable f"
  by (simp_all add: lease_out_def)

lemma releaseFamAddr_hit:
  assumes s: "sub_ok U s" and nic: "map_of (NicToIP (sfam F s)) nic = Some ip"
  obtains n p where "map_of (IPPools s) n = Some p" "ipv ip \<in> rlset (PIPs (pfam F p))"
    "releaseFamAddr F pod nic s = Inr (set_pool n (set_pfam F (rel_fam (ipv ip \<in> rlset (SReserved (sfam F s))) ip (pfam F p)) p)
       (set_sfam F (rel_sub (ipv ip \<in> rlset (SReserved (sfam F s))) ip (lease_out nic ip (sfam F s))) (release_mac F nic s)))"
proof -
  define s2 where "s2 = set_sfam F (lease_out nic ip (sfam F s)) (release_mac F nic s)"
  note d = lists_okD [OF sub_okD(2) [OF s, of F]] and ld = leases_okD [OF sub_okD(3) [OF s, of F]]
  have ip: "ip_in F ip" "ipv ip \<in> rlset (SUsing (sfam F s))" using ld(2,3) [OF nic] by blast+
  obtain c where c: "FCIDR (sfam F s) = Some c" "net_contains c ip"
    using not_using_None [OF sub_okD(1) [OF s] nic] by blast
  obtain v where "map_of (IPToPod (sfam F s)) (IP_String ip) = Some v" using ld(4) [OF nic] by blast
  moreover from this have "split_char CHR '','' v = [v]" using ld(6) by (simp add: split_char_none)
  ultimately have eq: "releaseFamAddr F pod nic s = Inr (release_lists F ip (ipv ip \<in> rlset (SReserved (sfam F s))) s2)"
    using nic c rl.contains [OF d(2) ip(1)]
    by (simp add: releaseFamAddr_def Let_def s2_def lease_out_def release_mac_comm)
  have "lists_ok F (U F) (sfam F s2) (pools_of F s2)" using sub_okD(2) [OF s] by (simp add: s2_def)
  moreover have "ipv ip \<in> rlset (SUsing (sfam F s2))" using ip by (simp add: s2_def)
  ultimately obtain n p where "map_of (IPPools s2) n = Some p" "ipv ip \<in> rlset (PIPs (pfam F p))"
    "\<And>c. release_lists F ip c s2 = set_pool n (set_pfam F (rel_fam c ip (pfam F p)) p) (set_sfam F (rel_sub c ip (sfam F s2)) s2)"
    using release_lists_hit ip(1) by blast
  with eq show ?thesis using that [of n p] by (simp add: s2_def)
qed

lemma releaseFamAddr_ok:
  assumes s: "sub_ok U s"
  shows "\<exists>s'. releaseFamAddr F pod nic s = Inr s' \<and> sub_ok U s'"
proof (cases "map_of (NicToIP (sfam F s)) nic")
  case None
  then show ?thesis using s by (simp add: releaseFamAddr_def Let_def)
next
  case (Some ip)
  let ?R = "rlset (SReserved (sfam F s))" and ?f = "lease_out nic ip (sfam F s)"
  note d = lists_okD [OF sub_okD(2) [OF s, of F]] and l = sub_okD(3) [OF s, of F]
  have ip: "ip_in F ip" "ipv ip \<in> rlset (SUsing (sfam F s))" using leases_okD(2,3) [OF l Some] by blast+
  obtain n p where np: "map_of (IPPools s) n = Some p" "ipv ip \<in> rlset (PIPs (pfam F p))"
    and eq: "releaseFamAddr F pod nic s = Inr (set_pool n (set_pfam F (rel_fam (ipv ip \<in> ?R) ip (pfam F p)) p)
       (set_sfam F (rel_sub (ipv ip \<in> ?R) ip ?f) (release_mac F nic s)))"
    using releaseFamAddr_hit [OF s Some] by blast
  have "fam_ok F (U F) (rel_sub (ipv ip \<in> ?R) ip ?f) (mput n (rel_fam (ipv ip \<in> ?R) ip (pfam F p)) (pools_of F s))"
    unfolding fam_ok_def
    using rel_sub_ok [of F "U F" ?f "pools_of F s" ip n "pfam F p"] pool_ok_of(2) [OF sub_okD(2) [OF s, of F] np(1)] np(2) ip
      sub_okD(2,4) [OF s, of F] leases_ok_release [OF l Some] rl.elems_remove [OF d(4) ip(1)]
    by simp
  then have "sub_ok U (set_pool n (set_pfam F (rel_fam (ipv ip \<in> ?R) ip (pfam F p)) p)
       (set_sfam F (rel_sub (ipv ip \<in> ?R) ip ?f) (release_mac F nic s)))"
    using s np(1) by (intro sub_ok_put) simp_all
  with eq show ?thesis by blast
qed


lemma podnic_ok [simp]: "sub_ok U (popPodNic pod nic s) = sub_ok U s" "sub_ok U (pushPodNic pod nic s) = sub_ok U s"
  by (simp_all add: popPodNic_def pushPodNic_def Let_def)

lemma podnic_fields [simp]:
  "sfam F (popPodNic pod nic s) = sfam F s" "sfam F (pushPodNic pod nic s) = sfam F s"
  "IPPools (popPodNic pod nic s) = IPPools s" "IPPools (pushPodNic pod nic s) = IPPools s"
  "NicToMac (popPodNic pod nic s) = NicToMac s" "NicToMac (pushPodNic pod nic s) = NicToMac s"
  "MacToPod (popPodNic pod nic s) = MacToPod s" "MacToPod (pushPodNic pod nic s) = MacToPod s"
  "Protocol (popPodNic pod nic s) = Protocol s" "Protocol (pushPodNic pod nic s) = Protocol s"
  by (simp_all add: popPodNic_def pushPodNic_def Let_def)

lemma releaseAddr_ok:
  assumes s: "sub_ok U s"
  shows "\<exists>s'. releaseAddr pod nic s = Inr s' \<and> sub_ok U s'"
proof -
  obtain s1 where s1: "releaseV4Addr pod nic s = Inr s1" "sub_ok U s1"
    using releaseFamAddr_ok [OF s, of F4 pod nic] by (auto simp: releaseV4Addr_def)
  obtain s2 where s2: "releaseV6Addr pod nic s1 = Inr s2" "sub_ok U s2"
    using releaseFamAddr_ok [OF s1(2), of F6 pod nic] by (auto simp: releaseV6Addr_def)
  show ?thesis using s1 s2 by (auto simp: releaseAddr_def split: option.splits)
qed

lemma ReleaseAddressWithNicName_ok:
  "sub_ok U s \<Longrightarrow> \<exists>s'. ReleaseAddressWithNicName pod nic s = Inr s' \<and> sub_ok U s'"
  using releaseAddr_ok [of U s pod nic] by (auto simp: ReleaseAddressWithNicName_def)

lemma release_nics_ok: "sub_ok U s \<Longrightarrow> \<exists>s'. release_nics pod nics s = Inr s' \<and> sub_ok U s'"
proof (induction nics arbitrary: s)
  case (Cons nic nics)
  then obtain s1 where "ReleaseAddressWithNicName pod nic s = Inr s1" "sub_ok U s1"
    using ReleaseAddressWithNicName_ok by blast
  with Cons.IH show ?case by simp
qed simp

lemma ReleaseAddress_ok: "sub_ok U s \<Longrightarrow> \<exists>s'. ReleaseAddress pod s = Inr s' \<and> sub_ok U s'"
  by (simp add: ReleaseAddress_def release_nics_ok)

section \<open>MAC addresses\<close>

lemma GetRandomMac_fields [simp]:
  "sub_ok U (fst (GetRandomMac pod nic s)) = sub_ok U s"
  "sfam F (fst (GetRandomMac pod nic s)) = sfam F s" "IPPools (fst (GetRandomMac pod nic s)) = IPPools s"
  "Protocol (fst (GetRandomMac pod nic s)) = Protocol s"
  by (auto simp: GetRandomMac_def split: option.splits)

lemma GetStaticMac_fields [simp]:
  "sub_ok U (fst (GetStaticMac pod nic mac c s)) = sub_ok U s"
  "sfam F (fst (GetStaticMac pod nic mac c s)) = sfam F s" "IPPools (fst (GetStaticMac pod nic mac c s)) = IPPools s"
  "Protocol (fst (GetStaticMac pod nic mac c s)) = Protocol s"
  by (auto simp: GetStaticMac_def split: option.splits)

section \<open>Taking an address\<close>

lemma fam_ok_take:
  assumes f: "fam_ok F U f ps" and n: "(n, p) \<in> set ps" and ip: "ip_in F ip" "ipv ip \<in> U" "ipv ip \<in> rlset (PIPs p)"
    and new: "\<forall>n. map_of (NicToIP f) n \<noteq> Some ip" and pod: "CHR '','' \<notin> set pod"
    and q: "pool_ok F U (rlset (SReserved f)) (insert (ipv ip) (rlset (SUsing f))) q" "PIPs q = PIPs p"
    and f': "rl_in F (SFree f')" "SReserved f' = SReserved f" "SAvailable f' = fst (rl_Remove (SAvailable f) ip)"
      "SUsing f' = fst (rl_Add (SUsing f) ip)" "FCIDR f' = FCIDR f"
      "NicToIP f' = mput nic ip (NicToIP f)" "IPToPod f' = mput (IP_String ip) pod (IPToPod f)"
  shows "fam_ok F U f' (mput n q ps)"
proof -
  have l: "lists_ok F U f ps" "leases_ok F (rlset (SUsing f)) (NicToIP f) (IPToPod f)" "cidr_ok F U (FCIDR f)"
    using f by (simp_all add: fam_ok_def)
  note d = lists_okD [OF l(1)]
  note a = rl.wf_add [OF d(4) ip(1)] rl.elems_add [OF d(4) ip(1)] and r = rl.wf_remove [OF d(3) ip(1)] rl.elems_remove [OF d(3) ip(1)]
  have "pools_ok F U (rlset (SReserved f)) (insert (ipv ip) (rlset (SUsing f))) (mput n q ps)"
    by (rule pools_ok_put [OF d(8) n q]) (use ip in blast)
  then have "lists_ok F U f' (mput n q ps)"
    unfolding lists_ok_def using a r f' d ip(2) by auto
  moreover have "leases_ok F (rlset (SUsing f')) (NicToIP f') (IPToPod f')"
    using leases_ok_take [OF l(2) ip(1) new pod] a f' by simp
  ultimately show ?thesis using l(3) f' by (simp add: fam_ok_def)
qed

lemma not_leased: "leases_ok F X nics pods \<Longrightarrow> ipv ip \<notin> X \<Longrightarrow> map_of nics n \<noteq> Some ip"
  using leases_okD(3) by blast

section \<open>Random allocation\<close>

definition skips_ok :: "string list \<Rightarrow> bool" where
  "skips_ok addrs = (\<forall>ip\<in>set (parse_skipped addrs). \<exists>G. ip_in G ip)"

text \<open>The pool before the address is drawn: the reserved addresses are out, an empty free list is refilled.\<close>

definition refill :: "IPPoolFam \<Rightarrow> IPPoolFam" where
  "refill p =
     (let free1 = rl_Separate (PFree p) (PReserved p) in
      if rl_Len free1 = 0 then p\<lparr>PFree := rl_Separate (PReleased p) (PReserved p), PReleased := NewEmptyIPRangeList\<rparr>
      else p\<lparr>PFree := free1, PReleased := PReleased p\<rparr>)"

lemma rl_Len_zero: "rl_in F l \<Longrightarrow> rl_Len l = 0 \<longleftrightarrow> rlset l = {}"
  using rlset_empty_iff [of F l] by (auto simp: rl_Len_def rl_in_def)

lemma refill_ok:
  assumes p: "pool_ok F U R X p"
  shows "pool_ok F U R X (refill p)" "PIPs (refill p) = PIPs p" "PAvailable (refill p) = PAvailable p"
    "rlset (PFree (refill p)) = (if rlset (PFree p) \<noteq> {} then rlset (PFree p) else rlset (PAvailable p))"
proof -
  note d = pool_okD [OF p]
  have a: "rl_in F (rl_Separate (PFree p) (PReserved p))" "rlset (rl_Separate (PFree p) (PReserved p)) = rlset (PFree p)"
    using d rl.wf_sep [OF d(2,4)] rl.elems_sep [OF d(2,4)] by auto
  have b: "rl_in F (rl_Separate (PReleased p) (PReserved p))" "rlset (rl_Separate (PReleased p) (PReserved p)) = rlset (PReleased p)"
    using d rl.wf_sep [OF d(5,4)] rl.elems_sep [OF d(5,4)] by auto
  note e = rl.wf_empty [of F] rl.elems_empty
  note z = rl_Len_zero [OF a(1)] a(2)
  show "pool_ok F U R X (refill p)"
    using d a b e z by (auto simp: refill_def pool_ok_def Let_def)
  show "PIPs (refill p) = PIPs p" "PAvailable (refill p) = PAvailable p" by (simp_all add: refill_def Let_def)
  show "rlset (PFree (refill p)) = (if rlset (PFree p) \<noteq> {} then rlset (PFree p) else rlset (PAvailable p))"
    using z d(10) b by (auto simp: refill_def Let_def)
qed

lemma alloc_random_refill:
  "alloc_random F n pod nic mac sk c s =
     (case map_of (IPPools s) n of
        None \<Rightarrow> (s, Inl ErrNoAvailable)
      | Some pool \<Rightarrow>
          let p1 = refill (pfam F pool); pool1 = set_pfam F p1 pool in
          if rl_Len (PFree p1) = 0 then (set_pool n pool1 s, Inl ErrNoAvailable)
          else let (left, ip) = rl_Allocate (PFree p1) (parse_skipped sk) in
            if ip = [] then (set_pool n pool1 s, Inl ErrConflict)
            else finish_random F pod nic mac c ip
              (pushPodNic pod nic (set_sfam F (take_fam pod nic ip (sfam F s)) (set_pool n (take_pool F left ip pool1) s))))"
  by (auto simp: alloc_random_def refill_def Let_def split: option.splits prod.splits)

text \<open>The pool and the family after an address of the pool has been taken.\<close>

lemma take_pool_ok:
  assumes p: "pool_ok F U R X p" and ip: "ip_in F ip" "ipv ip \<in> rlset (PFree p)"
    and left: "rl_in F left" "rlset left = rlset (PFree p) - {ipv ip}"
  shows "pool_ok F U R (insert (ipv ip) X)
    (p\<lparr>PFree := left, PAvailable := fst (rl_Remove (PAvailable p) ip), PUsing := fst (rl_Add (PUsing p) ip)\<rparr>)"
proof -
  note d = pool_okD [OF p]
  note a = rl.wf_add [OF d(6) ip(1)] rl.elems_add [OF d(6) ip(1)] and r = rl.wf_remove [OF d(3) ip(1)] rl.elems_remove [OF d(3) ip(1)]
  have "ipv ip \<in> rlset (PIPs p)" "ipv ip \<notin> rlset (PReleased p)" using d ip(2) by blast+
  then show ?thesis
    unfolding pool_ok_def using d a r left by simp blast
qed

lemma random_take_ok:
  assumes s: "sub_ok U s" and n: "map_of (IPPools s) n = Some pool"
    and ip: "ip_in F ip" "ipv ip \<in> rlset (PFree (refill (pfam F pool)))"
    and left: "rl_in F left" "rlset left = rlset (PFree (refill (pfam F pool))) - {ipv ip}"
    and pod: "CHR '','' \<notin> set pod"
  shows "sub_ok U (set_sfam F (take_fam pod nic ip (sfam F s)) (set_pool n (take_pool F left ip (set_pfam F (refill (pfam F pool)) pool)) s))"
proof -
  let ?p = "refill (pfam F pool)"
  note l = sub_okD(2,3) [OF s, of F] and d = lists_okD [OF sub_okD(2) [OF s, of F]]
  note po = refill_ok [OF pool_ok_of(1) [OF l(1) n]]
  note pd = pool_okD [OF po(1)]
  have x: "ipv ip \<in> U F" "ipv ip \<notin> rlset (SUsing (sfam F s))" "ipv ip \<in> rlset (PIPs (pfam F pool))"
    using ip(2) pd(9,10) po(2) by auto
  have new: "\<forall>k. map_of (NicToIP (sfam F s)) k \<noteq> Some ip" using not_leased [OF l(2) x(2)] by blast
  have sf: "rl_in F (SFree (take_fam pod nic ip (sfam F s)))"
    using rl.wf_remove [OF d(1) ip(1)] by (simp add: take_fam_def)
  have "fam_ok F (U F) (take_fam pod nic ip (sfam F s))
      (mput n (?p\<lparr>PFree := left, PAvailable := fst (rl_Remove (PAvailable ?p) ip), PUsing := fst (rl_Add (PUsing ?p) ip)\<rparr>) (pools_of F s))"
    by (rule fam_ok_take [OF sub_okD(1) [OF s] pool_ok_of(2) [OF l(1) n] ip(1) x(1,3) new pod take_pool_ok [OF po(1) ip left] _ sf])
      (simp_all add: take_fam_def po)
  from sub_ok_put [OF s n this] show ?thesis
    by (simp add: take_pool_def Let_def set_pool_sfam)
qed

lemma finish_random_ok:
  assumes "sub_ok U s" shows "sub_ok U (fst (finish_random F pod nic mac c ip s))"
proof (cases mac)
  case None
  moreover have "sub_ok U (fst (GetRandomMac pod nic s))" using assms by simp
  ultimately show ?thesis
    by (auto simp: finish_random_def simp del: GetRandomMac_fields split: prod.splits sum.splits)
next
  case (Some m)
  have "sub_ok U (fst (GetStaticMac pod nic m c s))" using assms by simp
  moreover obtain s' where "releaseFamAddr F pod nic (fst (GetStaticMac pod nic m c s)) = Inr s'" "sub_ok U s'"
    using releaseFamAddr_ok [OF calculation] by blast
  ultimately show ?thesis
    using Some by (auto simp: finish_random_def simp del: GetStaticMac_fields split: prod.splits option.splits)
qed

lemma refill_put_ok:
  assumes s: "sub_ok U s" and n: "map_of (IPPools s) n = Some pool"
  shows "sub_ok U (set_pool n (set_pfam F (refill (pfam F pool)) pool) s)"
proof -
  note l = sub_okD(2,3,4) [OF s, of F]
  note d = lists_okD [OF l(1)]
  note r = refill_ok [OF pool_ok_of(1) [OF l(1) n]]
  have "pools_ok F (U F) (rlset (SReserved (sfam F s))) (rlset (SUsing (sfam F s))) (mput n (refill (pfam F pool)) (pools_of F s))"
    by (rule pools_ok_put [OF d(8) pool_ok_of(2) [OF l(1) n] r(1,2)]) simp
  then have "fam_ok F (U F) (sfam F s) (mput n (refill (pfam F pool)) (pools_of F s))"
    using l d by (simp add: fam_ok_def lists_ok_def)
  from sub_ok_put [OF s n this] show ?thesis by simp
qed

text \<open>
  A draw from a pool: the least address of its free list, or of what was released once
  that is empty, that is not skipped; the two errors leave the leases alone.
\<close>

definition drawable :: "fam \<Rightarrow> string \<Rightarrow> Subnet \<Rightarrow> nat set" where
  "drawable F n s =
     (case map_of (IPPools s) n of
        None \<Rightarrow> {}
      | Some pool \<Rightarrow> if rlset (PFree (pfam F pool)) \<noteq> {} then rlset (PFree (pfam F pool)) else rlset (PReleased (pfam F pool)))"

lemma drawable_refill:
  assumes "sub_ok U s" "map_of (IPPools s) n = Some pool"
  shows "rlset (PFree (refill (pfam F pool))) = drawable F n s"
proof -
  note p = pool_ok_of(1) [OF sub_okD(2) [OF assms(1), of F] assms(2)]
  show ?thesis using refill_ok(4) [OF p] pool_okD(10) [OF p] assms(2) by (auto simp: drawable_def)
qed

lemma drawable_sub:
  assumes "sub_ok U s"
  shows "drawable F n s \<subseteq> U F - rlset (SUsing (sfam F s)) - rlset (SReserved (sfam F s))"
proof (cases "map_of (IPPools s) n")
  case None
  then show ?thesis by (simp add: drawable_def)
next
  case (Some pool)
  note p = pool_ok_of(1) [OF sub_okD(2) [OF assms] Some, of F]
  show ?thesis using pool_okD(9,10) [OF p] Some unfolding drawable_def by auto
qed

lemma alloc_random_cases:
  assumes s: "sub_ok U s" and sk: "skips_ok sk" and pod: "CHR '','' \<notin> set pod"
  obtains (none) s' where "drawable F n s = {}" "alloc_random F n pod nic mac sk c s = (s', Inl ErrNoAvailable)"
      "sub_ok U s'" "\<And>G. sfam G s' = sfam G s" "NicToMac s' = NicToMac s" "MacToPod s' = MacToPod s"
    | (skip) s' where "drawable F n s \<noteq> {}" "drawable F n s \<subseteq> ipv ` set (parse_skipped sk)"
      "alloc_random F n pod nic mac sk c s = (s', Inl ErrConflict)"
      "sub_ok U s'" "\<And>G. sfam G s' = sfam G s" "NicToMac s' = NicToMac s" "MacToPod s' = MacToPod s"
    | (take) ip s' where "alloc_random F n pod nic mac sk c s = finish_random F pod nic mac c ip s'"
      "ip_in F ip" "ipv ip = Min (drawable F n s - ipv ` set (parse_skipped sk))" "ipv ip \<in> drawable F n s - ipv ` set (parse_skipped sk)"
      "sub_ok U s'" "sfam F s' = take_fam pod nic ip (sfam F s)" "\<And>G. G \<noteq> F \<Longrightarrow> sfam G s' = sfam G s"
      "NicToMac s' = NicToMac s" "MacToPod s' = MacToPod s"
proof (cases "map_of (IPPools s) n")
  case None
  then show ?thesis using s by (intro none [of s]) (simp_all add: drawable_def alloc_random_def)
next
  case (Some pool)
  let ?p = "refill (pfam F pool)" and ?sk = "parse_skipped sk"
  note po = refill_ok [OF pool_ok_of(1) [OF sub_okD(2) [OF s, of F] Some]] and dr = drawable_refill [OF s Some, of F]
  note eq = alloc_random_refill [of F n pod nic mac sk c s] and ok = refill_put_ok [OF s Some, of F]
  have free: "rl_in F (PFree ?p)" by (rule pool_okD(2) [OF po(1)])
  have sk': "\<forall>ip\<in>set ?sk. \<exists>G. ipok G ip \<and> inner G ip" using sk by (simp add: skips_ok_def ip_in_def)
  have fi: "rl_ok F (PFree ?p)" "rlset (PFree ?p) \<subseteq> inn F" using free by (simp_all add: rl_in_def)
  note al = rl_Allocate_spec [OF fi sk', unfolded dr]
  show ?thesis
  proof (cases "drawable F n s = {}")
    case True
    then show ?thesis using ok Some eq rl_Len_zero [OF free] dr by (intro none [of "set_pool n (set_pfam F ?p pool) s"]) simp_all
  next
    case ne: False
    show ?thesis
    proof (cases "drawable F n s - ipv ` set ?sk = {}")
      case True
      then show ?thesis using ok Some eq rl_Len_zero [OF free] dr ne al(1) by (intro skip [of "set_pool n (set_pfam F ?p pool) s"]) auto
    next
      case False
      then obtain left ip where a: "rl_Allocate (PFree ?p) ?sk = (left, ip)" "ipok F ip" "ipv ip = Min (drawable F n s - ipv ` set ?sk)"
        "ipv ip \<in> drawable F n s - ipv ` set ?sk" "rl_ok F left" "rlset left = drawable F n s - {ipv ip}"
        using al(2) by metis
      have ip: "ip_in F ip" "ip \<noteq> []" using a fi dr af.ok_nonempty by (auto simp: ip_in_def inner_inn)
      have l: "rl_in F left" using a fi dr by (auto simp: rl_in_def)
      let ?s = "set_sfam F (take_fam pod nic ip (sfam F s)) (set_pool n (take_pool F left ip (set_pfam F ?p pool)) s)"
      have "sub_ok U ?s" using a ip l dr by (intro random_take_ok [OF s Some _ _ _ _ pod]) auto
      then show ?thesis
        using eq Some rl_Len_zero [OF free] dr ne a ip by (intro take [of ip "pushPodNic pod nic ?s"]) simp_all
    qed
  qed
qed

lemma alloc_random_ok:
  assumes "sub_ok U s" "skips_ok sk" "CHR '','' \<notin> set pod"
  shows "sub_ok U (fst (alloc_random F n pod nic mac sk c s))"
  using assms by (cases rule: alloc_random_cases [where F = F and n = n and nic = nic and mac = mac and c = c]) (simp_all add: finish_random_ok)

lemma getFamRandomAddress_ok:
  assumes s: "sub_ok U s" "skips_ok sk" "CHR '','' \<notin> set pod"
  shows "sub_ok U (fst (getFamRandomAddress F n pod nic mac sk c s))"
proof -
  obtain s1 where "releaseFamAddr F pod nic s = Inr s1" "sub_ok U s1" using releaseFamAddr_ok [OF s(1)] by blast
  then show ?thesis using s alloc_random_ok [OF _ s(2,3)] by (simp add: getFamRandomAddress_def Let_def)
qed

lemma getV4_ok:
  assumes "sub_ok U s" "skips_ok sk" "CHR '','' \<notin> set pod"
  shows "sub_ok U (fst (getV4RandomAddress n pod nic mac sk c s))" "sub_ok U (fst (getV6RandomAddress n pod nic mac sk c s))"
  using getFamRandomAddress_ok [OF assms, of F4 n nic mac c] getFamRandomAddress_ok [OF assms, of F6 n nic mac c]
  by (auto simp: getV4RandomAddress_def getV6RandomAddress_def split: prod.splits sum.splits)

lemma getDual_ok:
  assumes s: "sub_ok U s" and sk: "skips_ok sk" "CHR '','' \<notin> set pod"
  shows "sub_ok U (fst (getDualRandomAddress n pod nic mac sk c s))"
proof -
  have step: "sub_ok U s'" if "getV4RandomAddress n pod nic mac sk c t = (s', r)" "sub_ok U t" for t s' r
    using that getV4_ok(1) [OF that(2) sk, of n nic mac c] by simp
  have step6: "sub_ok U s'" if "getV6RandomAddress n pod nic mac sk c t = (s', r)" "sub_ok U t" for t s' r
    using that getV4_ok(2) [OF that(2) sk, of n nic mac c] by simp
  have rel: "sub_ok U s'" if "releaseV4Addr pod nic t = Inr s'" "sub_ok U t" for t s'
    using releaseFamAddr_ok [OF that(2), of F4 pod nic] that(1) by (simp add: releaseV4Addr_def)
  show ?thesis
    using s by (auto simp: getDualRandomAddress_def Let_def split: prod.splits sum.splits dest: step step6 rel)
qed

lemma getMacOnly_ok: "sub_ok U s \<Longrightarrow> sub_ok U (fst (getMacOnlyAddress pod nic mac c s))"
proof -
  assume "sub_ok U s"
  then have "sub_ok U (fst (GetRandomMac pod nic s))" "sub_ok U (fst (GetStaticMac pod nic m c s))" for m by simp_all
  then show ?thesis
    unfolding getMacOnlyAddress_def
    by (auto simp del: GetRandomMac_fields GetStaticMac_fields split: option.splits list.splits prod.splits sum.splits)
      (metis fst_conv)+
qed

lemma GetRandomAddressWithFamily_ok:
  assumes "sub_ok U s" "skips_ok sk" "CHR '','' \<notin> set pod"
  shows "sub_ok U (fst (GetRandomAddressWithFamily n pod nic mac fam sk c s))"
  using getV4_ok [OF assms] getDual_ok [OF assms] getMacOnly_ok [OF assms(1)] assms(1)
  by (simp add: GetRandomAddressWithFamily_def Let_def split_beta)

section \<open>Static allocation\<close>

lemma static_family_D:
  assumes s: "sub_ok U s" and ip: "ipok G ip" and r: "staticAddressFamilyForIP ip c s = Inr fam"
  obtains pool where "sa_fam fam = G" "map_of (IPPools s) (sa_pool fam) = Some pool" "ipv ip \<in> rlset (PIPs (pfam G pool))" "ip_in G ip"
proof -
  have g: "(if IP_To4 ip \<noteq> [] then F4 else F6) = G"
    using ip ipok_F6_to4 by (cases G) (auto simp: IP_To4_def ip_to4_def)
  obtain n pool where f: "find (\<lambda>(n, pool). rl_Contains (PIPs (pfam G pool)) ip) (IPPools s) = Some (n, pool)"
    and fam: "fam = (if IP_To4 ip \<noteq> [] then v4StaticAddressFamily n else v6StaticAddressFamily n)"
    using r g by (auto simp: staticAddressFamilyForIP_def Let_def split: option.splits if_splits)
  from f have "(n, pool) \<in> set (IPPools s)" and con: "rl_Contains (PIPs (pfam G pool)) ip"
    by (auto simp: find_Some_iff in_set_conv_nth)
  then have m: "map_of (IPPools s) n = Some pool" using sub_okD(6) [OF s] by (simp add: mwf_map_of_iff)
  note p = pool_okD(1) [OF pool_ok_of(1) [OF sub_okD(2) [OF s, of G] m]]
  have "ipv ip \<in> rlset (PIPs (pfam G pool))"
    using con p rl_Contains_iff [OF rl_ok_dis ipok_valid [OF ip]] by (auto simp: rl_in_def)
  moreover have "ip_in G ip" using calculation p ip by (auto simp: ip_in_def rl_in_def inner_inn)
  moreover have "sa_fam fam = G" "sa_pool fam = n" using fam g by (auto simp: v4StaticAddressFamily_def v6StaticAddressFamily_def)
  ultimately show ?thesis using that m by blast
qed

text \<open>Taking a given address of a pool and entering it in the lists.\<close>

definition static_fam :: "string \<Rightarrow> string \<Rightarrow> IP \<Rightarrow> IPRangeList \<Rightarrow> SubnetFam \<Rightarrow> SubnetFam" where
  "static_fam pod nic ip free f =
     f\<lparr>SFree := free, NicToIP := mput nic ip (NicToIP f), IPToPod := mput (IP_String ip) pod (IPToPod f),
       SAvailable := fst (rl_Remove (SAvailable f) ip), SUsing := fst (rl_Add (SUsing f) ip)\<rparr>"

definition static_pool :: "IP \<Rightarrow> IPPoolFam \<Rightarrow> IPPoolFam" where
  "static_pool ip p = p\<lparr>PAvailable := fst (rl_Remove (PAvailable p) ip), PUsing := fst (rl_Add (PUsing p) ip)\<rparr>"

definition static_lists :: "IP \<Rightarrow> IPPoolFam \<Rightarrow> IPPoolFam option" where
  "static_lists ip p =
     (if rl_Contains (PReserved p) ip then Some p
      else if snd (rl_Remove (PFree p) ip) then Some (p\<lparr>PFree := fst (rl_Remove (PFree p) ip)\<rparr>)
      else if snd (rl_Remove (PReleased p) ip) then Some (p\<lparr>PReleased := fst (rl_Remove (PReleased p) ip)\<rparr>)
      else None)"

lemma static_lists_ok:
  assumes p: "pool_ok F U R X p" and ip: "ip_in F ip" "ipv ip \<in> rlset (PIPs p)" and R: "R \<subseteq> U"
    and q: "static_lists ip p = Some q"
  shows "pool_ok F U R (insert (ipv ip) X) (static_pool ip q)" "PIPs (static_pool ip q) = PIPs p" "ipv ip \<in> U"
proof -
  note d = pool_okD [OF p]
  note fr = rl.wf_remove [OF d(2) ip(1)] rl.elems_remove [OF d(2) ip(1)] rl.remove_present [OF d(2) ip(1)]
    and re = rl.wf_remove [OF d(5) ip(1)] rl.elems_remove [OF d(5) ip(1)] rl.remove_present [OF d(5) ip(1)]
    and av = rl.wf_remove [OF d(3) ip(1)] rl.elems_remove [OF d(3) ip(1)]
    and us = rl.wf_add [OF d(6) ip(1)] rl.elems_add [OF d(6) ip(1)] and rs = rl.contains [OF d(4) ip(1)]
  show "PIPs (static_pool ip q) = PIPs p" using q by (auto simp: static_lists_def static_pool_def split: if_splits)
  consider "ipv ip \<in> rlset (PReserved p)" "q = p"
    | "ipv ip \<notin> rlset (PReserved p)" "ipv ip \<in> rlset (PFree p)" "q = p\<lparr>PFree := fst (rl_Remove (PFree p) ip)\<rparr>"
    | "ipv ip \<notin> rlset (PReserved p)" "ipv ip \<in> rlset (PReleased p)" "q = p\<lparr>PReleased := fst (rl_Remove (PReleased p) ip)\<rparr>"
    using q fr(3) re(3) rs by (auto simp: static_lists_def split: if_splits)
  then show "pool_ok F U R (insert (ipv ip) X) (static_pool ip q)"
  proof cases
    case 1
    then have "ipv ip \<in> R" "ipv ip \<notin> rlset (PAvailable p)" using d by blast+
    with 1 d av us ip show ?thesis unfolding pool_ok_def static_pool_def by auto
  next
    case 2
    with d av us fr ip show ?thesis unfolding pool_ok_def static_pool_def by auto
  next
    case 3
    with d av us re ip show ?thesis unfolding pool_ok_def static_pool_def by auto
  qed
  show "ipv ip \<in> U"
    using \<open>static_lists ip p = Some q\<close> fr(3) re(3) rs d(7,9,10) R by (auto simp: static_lists_def split: if_splits)
qed


definition static_free :: "IP \<Rightarrow> IPPoolFam \<Rightarrow> SubnetFam \<Rightarrow> IPRangeList" where
  "static_free ip p f =
     (if \<not> rl_Contains (PReserved p) ip \<and> snd (rl_Remove (PFree p) ip) then fst (rl_Remove (SFree f) ip) else SFree f)"

lemma take_static_eq:
  assumes "mwf (IPPools s)" "map_of (IPPools s) n = Some pool"
  shows "take_static F ip n s =
    (case static_lists ip (pfam F pool) of
       None \<Rightarrow> None
     | Some q \<Rightarrow> Some (set_pool n (set_pfam F q pool) (set_sfam F ((sfam F s)\<lparr>SFree := static_free ip (pfam F pool) (sfam F s)\<rparr>) s)))"
proof -
  have "set_pool n pool s = s" using mput_same [OF assms] by (simp add: set_pool_def)
  then show ?thesis
    using assms by (auto simp: take_static_def static_lists_def static_free_def Let_def set_pool_sfam split: prod.splits)
qed

lemma mark_eq:
  assumes "map_of (IPPools s) (sa_pool fam) = Some pool" "sa_fam fam = F"
  shows "markStaticAddressAllocated fam ip s =
    set_pool (sa_pool fam) (set_pfam F (static_pool ip (pfam F pool)) pool)
      (set_sfam F ((sfam F s)\<lparr>SAvailable := fst (rl_Remove (SAvailable (sfam F s)) ip), SUsing := fst (rl_Add (SUsing (sfam F s)) ip)\<rparr>) s)"
  using assms by (simp add: markStaticAddressAllocated_def Let_def static_pool_def)

text \<open>Without sharing and without force, the address is taken from the pool and entered, or the state stays.\<close>

lemma allocateStatic_cases:
  assumes s: "sub_ok U s" and ip: "ip_in F ip" and fam: "sa_fam fam = F" "map_of (IPPools s) (sa_pool fam) = Some pool"
  obtains (err) e where "allocateStaticAddress fam pod nic ip False True s = (s, Inl e)" "e = ErrConflict \<or> e = ErrNoAvailable"
    | (kept) v where "map_of (IPToPod (sfam F s)) (IP_String ip) = Some v" "pod \<in> set (split_char CHR '','' v)"
      "allocateStaticAddress fam pod nic ip False True s = (s, Inr False)"
    | (took) s1 q where "map_of (IPToPod (sfam F s)) (IP_String ip) = None" "static_lists ip (pfam F pool) = Some q"
      "allocateStaticAddress fam pod nic ip False True s = (s1, Inr True)"
      "markStaticAddressAllocated fam ip s1 = set_pool (sa_pool fam) (set_pfam F (static_pool ip q) pool)
         (set_sfam F (static_fam pod nic ip (static_free ip (pfam F pool) (sfam F s)) (sfam F s)) s)"
proof (cases "map_of (IPToPod (sfam F s)) (IP_String ip)")
  case (Some v)
  then show ?thesis
    using err [of ErrConflict] kept fam by (cases "pod \<in> set (split_char CHR '','' v)") (simp_all add: allocateStaticAddress_def Let_def)
next
  case None
  note eq = take_static_eq [OF sub_okD(6) [OF s] fam(2), of F ip]
  show ?thesis
  proof (cases "static_lists ip (pfam F pool)")
    case n: None
    then show ?thesis using err [of ErrNoAvailable] None fam eq by (simp add: allocateStaticAddress_def Let_def)
  next
    case (Some q)
    let ?f = "(sfam F s)\<lparr>SFree := static_free ip (pfam F pool) (sfam F s), NicToIP := mput nic ip (NicToIP (sfam F s)),
      IPToPod := mput (IP_String ip) pod (IPToPod (sfam F s))\<rparr>"
    let ?s = "set_pool (sa_pool fam) (set_pfam F q pool) (set_sfam F ?f s)"
    have "allocateStaticAddress fam pod nic ip False True s = (?s, Inr True)"
      using Some None fam eq by (simp add: allocateStaticAddress_def Let_def set_pool_sfam)
    moreover have "markStaticAddressAllocated fam ip ?s = set_pool (sa_pool fam) (set_pfam F (static_pool ip q) pool)
         (set_sfam F (static_fam pod nic ip (static_free ip (pfam F pool) (sfam F s)) (sfam F s)) s)"
      using mark_eq [of ?s fam "set_pfam F q pool" F ip] fam by (simp add: static_fam_def set_pool_sfam)
    ultimately show ?thesis using took None Some by blast
  qed
qed

lemma static_take_ok:
  assumes s: "sub_ok U s" and ip: "ip_in F ip" "ipv ip \<in> rlset (PIPs (pfam F pool))" and n: "map_of (IPPools s) n = Some pool"
    and free: "map_of (IPToPod (sfam F s)) (IP_String ip) = None" and q: "static_lists ip (pfam F pool) = Some q"
    and pod: "CHR '','' \<notin> set pod"
  shows "sub_ok U (set_pool n (set_pfam F (static_pool ip q) pool)
    (set_sfam F (static_fam pod nic ip (static_free ip (pfam F pool) (sfam F s)) (sfam F s)) s))"
proof (rule sub_ok_put [OF s n])
  note l = sub_okD(2,3) [OF s, of F] and d = lists_okD [OF sub_okD(2) [OF s, of F]]
  note sl = static_lists_ok [OF pool_ok_of(1) [OF l(1) n] ip d(5) q]
  have new: "\<forall>k. map_of (NicToIP (sfam F s)) k \<noteq> Some ip" using leases_okD(4) [OF l(2)] free by fastforce
  have sf: "rl_in F (SFree (static_fam pod nic ip (static_free ip (pfam F pool) (sfam F s)) (sfam F s)))"
    using rl.wf_remove [OF d(1) ip(1)] d(1) by (simp add: static_fam_def static_free_def)
  show "fam_ok F (U F) (static_fam pod nic ip (static_free ip (pfam F pool) (sfam F s)) (sfam F s)) (mput n (static_pool ip q) (pools_of F s))"
    by (rule fam_ok_take [OF sub_okD(1) [OF s] pool_ok_of(2) [OF l(1) n] ip(1) sl(3) ip(2) new pod sl(1,2) sf])
      (simp_all add: static_fam_def)
qed

lemma static_mac_fields [simp]:
  "sub_ok U (fst (static_mac pod nic mac c s)) = sub_ok U s"
  "sfam F (fst (static_mac pod nic mac c s)) = sfam F s" "IPPools (fst (static_mac pod nic mac c s)) = IPPools s"
  "Protocol (fst (static_mac pod nic mac c s)) = Protocol s"
  by (simp_all add: static_mac_def GetRandomMac_def GetStaticMac_def split: option.splits prod.splits)

text \<open>The addresses of a pool, which only the operations on pools and networks change.\<close>

definition pool_ips :: "fam \<Rightarrow> Subnet \<Rightarrow> string \<Rightarrow> IPRangeList option" where
  "pool_ips F s n = map_option (\<lambda>p. PIPs (pfam F p)) (map_of (IPPools s) n)"

lemma pool_ips_put:
  assumes "map_of (IPPools s) n = Some p" "PIPs q = PIPs (pfam F p)"
  shows "pool_ips G (set_pool n (set_pfam F q p) (set_sfam F f s)) = pool_ips G s"
  using assms by (cases "G = F") (auto simp: pool_ips_def fun_eq_iff)

lemma releaseFamAddr_ips:
  assumes s: "sub_ok U s" and r: "releaseFamAddr F pod nic s = Inr s'"
  shows "pool_ips G s' = pool_ips G s" "Protocol s' = Protocol s" "SReserved (sfam G s') = SReserved (sfam G s)"
    "FCIDR (sfam G s') = FCIDR (sfam G s)" "G \<noteq> F \<Longrightarrow> sfam G s' = sfam G s"
proof -
  have "pool_ips G s' = pool_ips G s \<and> Protocol s' = Protocol s \<and> SReserved (sfam G s') = SReserved (sfam G s) \<and>
    FCIDR (sfam G s') = FCIDR (sfam G s) \<and> (G \<noteq> F \<longrightarrow> sfam G s' = sfam G s)"
  proof (cases "map_of (NicToIP (sfam F s)) nic")
    case None
    then show ?thesis using r by (simp add: releaseFamAddr_def Let_def)
  next
    case (Some ip)
    obtain n p c where np: "map_of (IPPools s) n = Some p" and e: "releaseFamAddr F pod nic s = Inr (set_pool n (set_pfam F (rel_fam c ip (pfam F p)) p)
       (set_sfam F (rel_sub c ip (lease_out nic ip (sfam F s))) (release_mac F nic s)))"
      using releaseFamAddr_hit [OF s Some] by metis
    have "PIPs (rel_fam c ip (pfam F p)) = PIPs (pfam F p)" by (simp add: rel_fam_def Let_def)
    then have "pool_ips G s' = pool_ips G (release_mac F nic s)" using pool_ips_put [of "release_mac F nic s" n p] np e r by simp
    moreover have "pool_ips G (release_mac F nic s) = pool_ips G s" by (simp add: pool_ips_def fun_eq_iff)
    ultimately show ?thesis using r e by (cases "G = F") auto
  qed
  then show "pool_ips G s' = pool_ips G s" "Protocol s' = Protocol s" "SReserved (sfam G s') = SReserved (sfam G s)"
    "FCIDR (sfam G s') = FCIDR (sfam G s)" "G \<noteq> F \<Longrightarrow> sfam G s' = sfam G s" by blast+
qed

lemma releaseCurrent_ok:
  assumes s: "sub_ok U s"
  obtains s' where "releaseCurrentStaticAddress fam pod nic ip s = Inr s'" "sub_ok U s'" "\<And>G. pool_ips G s' = pool_ips G s"
    "Protocol s' = Protocol s"
proof (cases "mget0 (NicToIP (sfam (sa_fam fam) s)) nic \<noteq> [] \<and> \<not> IP_Equal (mget0 (NicToIP (sfam (sa_fam fam) s)) nic) ip")
  case True
  obtain s' where "releaseFamAddr (sa_fam fam) pod nic s = Inr s'" "sub_ok U s'" using releaseFamAddr_ok [OF s] by blast
  then show ?thesis using True that [of s'] releaseFamAddr_ips [OF s] by (simp add: releaseCurrentStaticAddress_def Let_def)
next
  case False
  then have "releaseCurrentStaticAddress fam pod nic ip s = Inr s" unfolding releaseCurrentStaticAddress_def Let_def by (rule if_not_P)
  then show ?thesis using s that [of s] by blast
qed

lemma GetStaticAddress_ok:
  assumes s: "sub_ok U s" and ip: "ipok G ip" and pod: "CHR '','' \<notin> set pod"
  shows "sub_ok U (fst (GetStaticAddress pod nic ip mac False True s))"
proof (cases "staticAddressFamilyForIP ip True s")
  case (Inl e)
  then show ?thesis using s by (simp add: GetStaticAddress_def)
next
  case (Inr fam)
  obtain pool where f: "sa_fam fam = G" "map_of (IPPools s) (sa_pool fam) = Some pool" "ipv ip \<in> rlset (PIPs (pfam G pool))" "ip_in G ip"
    using static_family_D [OF s ip Inr] by blast
  obtain s1 where s1: "releaseCurrentStaticAddress fam pod nic ip s = Inr s1" "sub_ok U s1" "\<And>G. pool_ips G s1 = pool_ips G s"
    using releaseCurrent_ok [OF s] by blast
  obtain s2 r where s2: "static_mac pod nic mac True s1 = (s2, r)" by fastforce
  then have s2o: "sub_ok U s2" "IPPools s2 = IPPools s1"
    using s1 static_mac_fields(1) [of U pod nic mac True s1] static_mac_fields(3) [of pod nic mac True s1] by simp_all
  show ?thesis
  proof (cases r)
    case (Inl e)
    then show ?thesis using Inr s1 s2 s2o by (simp add: GetStaticAddress_def)
  next
    case r: (Inr m)
    have "pool_ips G s2 (sa_pool fam) = Some (PIPs (pfam G pool))" 
    proof -
      have "pool_ips G s2 = pool_ips G s1" using s2o(2) by (simp add: pool_ips_def fun_eq_iff)
      then show ?thesis using f(2) unfolding s1(3) by (simp add: pool_ips_def)
    qed
    then obtain pool' where p': "map_of (IPPools s2) (sa_pool fam) = Some pool'" "PIPs (pfam G pool') = PIPs (pfam G pool)"
      by (auto simp: pool_ips_def)
    have res: "fst (GetStaticAddress pod nic ip mac False True s) =
      (case allocateStaticAddress fam pod nic ip False True s2 of
         (s3, Inl err) \<Rightarrow> pushPodNic pod nic s3
       | (s3, Inr allocated) \<Rightarrow> pushPodNic pod nic (if allocated then markStaticAddressAllocated fam ip s3 else s3))"
      using Inr s1 s2 r by (simp add: GetStaticAddress_def split: prod.splits sum.splits)
    from s2o(1) f(4,1) p'(1) show ?thesis
    proof (cases rule: allocateStatic_cases [where pod = pod and nic = nic])
      case (took s3 q)
      then show ?thesis using res static_take_ok [OF s2o(1) f(4) _ p'(1) took(1,2) pod] f(3) p'(2) by simp
    qed (use res s2o in simp_all)
  qed
qed

section \<open>Pools\<close>

lemma make_pool_fam_ok:
  assumes s: "sub_ok U s" and m: "make_pool_fam F name ips s = Inr p"
    and ips: "FCIDR (sfam F s) \<noteq> None \<Longrightarrow> \<forall>l. NewIPRangeListFrom ips = Inr l \<longrightarrow> rl_in F l"
  shows "pool_ok F (U F) (rlset (SReserved (sfam F s))) (rlset (SUsing (sfam F s))) p" "PFree p = PAvailable p"
    "map_of (IPPools s) k = Some v \<Longrightarrow> k \<noteq> [] \<Longrightarrow> k \<noteq> name \<Longrightarrow> rlset (PIPs p) \<inter> rlset (PIPs (pfam F v)) = {}"
proof -
  note d = lists_okD [OF sub_okD(2) [OF s, of F]] and c = sub_okD(4) [OF s, of F]
  have "pool_ok F (U F) (rlset (SReserved (sfam F s))) (rlset (SUsing (sfam F s))) p \<and> PFree p = PAvailable p \<and>
    (map_of (IPPools s) k = Some v \<longrightarrow> k \<noteq> [] \<longrightarrow> k \<noteq> name \<longrightarrow> rlset (PIPs p) \<inter> rlset (PIPs (pfam F v)) = {})"
  proof (cases "FCIDR (sfam F s)")
    case None
    then have "p = empty_pool_fam" "U F = {}" using m c by (simp_all add: make_pool_fam_def Let_def cidr_ok_def)
    then show ?thesis
      using rl.wf_empty [of F] rl.elems_empty by (simp add: pool_ok_def empty_pool_fam_def)
  next
    case (Some cidr)
    obtain u where u: "usable_list (net_string cidr) = Inr u" "rl_in F u" "rlset u = U F" using c Some by (auto simp: cidr_ok_def)
    obtain l where l: "NewIPRangeListFrom ips = Inr l" "pool_conflict F name l s = None"
      using m Some by (auto simp: make_pool_fam_def Let_def split: sum.splits option.splits)
    have lin: "rl_in F l" using ips Some l(1) by simp
    define R where "R = rl_Intersect (SReserved (sfam F s)) l"
    define X where "X = rl_Intersect (SUsing (sfam F s)) l"
    define free where "free = rl_Separate (rl_Separate (rl_Intersect u l) X) R"
    have p: "p = \<lparr>PIPs = l, PFree = free, PAvailable = free, PReserved = R, PReleased = NewEmptyIPRangeList, PUsing = X\<rparr>"
      using m Some l u by (simp add: make_pool_fam_def Let_def R_def X_def free_def)
    have R: "rl_in F R" "rlset R = rlset (SReserved (sfam F s)) \<inter> rlset l"
      using rl.wf_isect [OF d(2) lin] rl.elems_isect [OF d(2) lin] by (simp_all add: R_def)
    have X: "rl_in F X" "rlset X = rlset (SUsing (sfam F s)) \<inter> rlset l"
      using rl.wf_isect [OF d(4) lin] rl.elems_isect [OF d(4) lin] by (simp_all add: X_def)
    have ul: "rl_in F (rl_Intersect u l)" "rlset (rl_Intersect u l) = U F \<inter> rlset l"
      using rl.wf_isect [OF u(2) lin] rl.elems_isect [OF u(2) lin] u(3) by simp_all
    note ux = rl.wf_sep [OF ul(1) X(1)] rl.elems_sep [OF ul(1) X(1)]
    have free: "rl_in F free" "rlset free = U F \<inter> rlset l - rlset (SUsing (sfam F s)) - rlset (SReserved (sfam F s))"
      using rl.wf_sep [OF ux(1) R(1)] rl.elems_sep [OF ux(1) R(1)] ux(2) ul(2) X(2) R(2) by (auto simp: free_def)
    have "rlset l \<inter> rlset (PIPs (pfam F v)) = {}" if k: "map_of (IPPools s) k = Some v" "k \<noteq> []" "k \<noteq> name"
    proof -
      have vin: "rl_in F (PIPs (pfam F v))" by (rule pool_okD(1) [OF pool_ok_of(1) [OF sub_okD(2) [OF s] k(1)]])
      have "find (\<lambda>(k, v). k \<noteq> [] \<and> k \<noteq> name \<and> rl_Len (rl_Intersect l (PIPs (pfam F v))) \<noteq> 0) (IPPools s) = None"
        using l(2) by (auto simp: pool_conflict_def split: option.splits)
      then have "rl_Len (rl_Intersect l (PIPs (pfam F v))) = 0"
        using k map_of_SomeD [OF k(1)] by (auto simp: find_None_iff)
      then show ?thesis
        using rl_Len_zero [OF rl.wf_isect [OF lin vin]] rl.elems_isect [OF lin vin] by simp
    qed
    then show ?thesis
      using lin R X free rl.wf_empty [of F] rl.elems_empty by (simp add: p pool_ok_def)
  qed
  then show "pool_ok F (U F) (rlset (SReserved (sfam F s))) (rlset (SUsing (sfam F s))) p" "PFree p = PAvailable p"
    "map_of (IPPools s) k = Some v \<Longrightarrow> k \<noteq> [] \<Longrightarrow> k \<noteq> name \<Longrightarrow> rlset (PIPs p) \<inter> rlset (PIPs (pfam F v)) = {}" by blast+
qed

lemma shrink_default_ok:
  fixes name :: string
  assumes s: "sub_ok U s" and d: "map_of (IPPools s) [] = Some d"
    and p: "pool_ok F (U F) (rlset (SReserved (sfam F s))) (rlset (SUsing (sfam F s))) p"
    and full: "PFree p = PAvailable p"
  defines "Q \<equiv> (case map_of (IPPools s) name of None \<Rightarrow> {} | Some q \<Rightarrow> rlset (PIPs (pfam F q)))"
  shows "pool_ok F (U F) (rlset (SReserved (sfam F s))) (rlset (SUsing (sfam F s)))
      (shrink_default F s (map_of (IPPools s) name) p (pfam F d))"
    "rlset (PIPs (shrink_default F s (map_of (IPPools s) name) p (pfam F d))) = (rlset (PIPs (pfam F d)) \<union> Q) - rlset (PIPs p)"
proof -
  let ?R = "rlset (SReserved (sfam F s))" and ?X = "rlset (SUsing (sfam F s))" and ?d = "pfam F d"
  define old where "old = (\<lambda>x g. case map_of (IPPools s) name of None \<Rightarrow> x | Some q \<Rightarrow> rl_Merge x (g (pfam F q)))"
  note l = sub_okD(2) [OF s, of F]
  note sd = lists_okD [OF l] and dd = pool_okD [OF pool_ok_of(1) [OF l d]] and pd = pool_okD [OF p]
  have b: "rl_in F (old (g ?d) g) \<and> rlset (old (g ?d) g) = rlset (g ?d) \<union> (case map_of (IPPools s) name of None \<Rightarrow> {} | Some q \<Rightarrow> rlset (g (pfam F q)))"
    if "rl_in F (g ?d)" "\<And>q. map_of (IPPools s) name = Some q \<Longrightarrow> rl_in F (g (pfam F q))" for g
    using that rl.wf_mrg rl.elems_mrg by (auto simp: old_def split: option.splits)
  have bi: "rl_in F (old (PIPs ?d) PIPs)" "rlset (old (PIPs ?d) PIPs) = rlset (PIPs ?d) \<union> Q"
    using b [of PIPs] dd(1) pool_okD(1) [OF pool_ok_of(1) [OF l]] by (simp_all add: Q_def)
  have br: "rl_in F (old (PReserved ?d) PReserved)" "rlset (old (PReserved ?d) PReserved) = ?R \<inter> (rlset (PIPs ?d) \<union> Q)"
    using b [of PReserved] dd(4,7) pool_okD(4,7) [OF pool_ok_of(1) [OF l]] by (auto simp: Q_def split: option.splits)
  have bu: "rl_in F (old (PUsing ?d) PUsing)" "rlset (old (PUsing ?d) PUsing) = ?X \<inter> (rlset (PIPs ?d) \<union> Q)"
    using b [of PUsing] dd(6,8) pool_okD(6,8) [OF pool_ok_of(1) [OF l]] by (auto simp: Q_def split: option.splits)
  have ba: "rl_in F (old (PAvailable ?d) PAvailable)"
    "rlset (old (PAvailable ?d) PAvailable) = U F \<inter> (rlset (PIPs ?d) \<union> Q) - ?X - ?R"
    using b [of PAvailable] dd(3,9) pool_okD(3,9) [OF pool_ok_of(1) [OF l]] by (auto simp: Q_def split: option.splits)
  note f1 = rl.wf_sep [OF ba(1) pd(2)] rl.elems_sep [OF ba(1) pd(2)]
  note f2 = rl.wf_sep [OF f1(1) sd(2)] rl.elems_sep [OF f1(1) sd(2)]
  have fr: "rlset (rl_Separate (rl_Separate (old (PAvailable ?d) PAvailable) (PFree p)) (SReserved (sfam F s)))
      = U F \<inter> (rlset (PIPs ?d) \<union> Q - rlset (PIPs p)) - ?X - ?R"
    using f2(2) f1(2) ba(2) pd(9) full by auto
  note i = rl.wf_sep [OF bi(1) pd(1)] rl.elems_sep [OF bi(1) pd(1)] and r = rl.wf_sep [OF br(1) pd(4)] rl.elems_sep [OF br(1) pd(4)]
    and u = rl.wf_sep [OF bu(1) pd(6)] rl.elems_sep [OF bu(1) pd(6)]
  show "pool_ok F (U F) ?R ?X (shrink_default F s (map_of (IPPools s) name) p ?d)"
    unfolding pool_ok_def shrink_default_def old_def [symmetric] Let_def
    using i r u f2(1) fr bi(2) br(2) bu(2) pd(7,8) rl.wf_empty [of F] rl.elems_empty by auto
  show "rlset (PIPs (shrink_default F s (map_of (IPPools s) name) p ?d)) = (rlset (PIPs ?d) \<union> Q) - rlset (PIPs p)"
    unfolding shrink_default_def old_def [symmetric] Let_def using i bi(2) by simp
qed

text \<open>The pools after one has been made and the default pool has given up its addresses.\<close>

lemma pools_ok_repart:
  assumes ps: "pools_ok F U R X ps" and d: "([], d) \<in> set ps" and name: "name \<noteq> []"
    and new: "pool_ok F U R X d'" "pool_ok F U R X p'"
    and I: "rlset (PIPs d') = (rlset (PIPs d) \<union> (case map_of ps name of None \<Rightarrow> {} | Some q \<Rightarrow> rlset (PIPs q))) - rlset (PIPs p')"
    and dis: "\<And>m q. (m, q) \<in> set ps \<Longrightarrow> m \<noteq> [] \<Longrightarrow> m \<noteq> name \<Longrightarrow> rlset (PIPs p') \<inter> rlset (PIPs q) = {}"
  shows "pools_ok F U R X (mput name p' (mput [] d' ps))"
proof -
  note D = pools_ok_D [OF ps]
  define rest where "rest = {e \<in> set ps. fst e \<noteq> [] \<and> fst e \<noteq> name}"
  have st: "set (mput name p' (mput [] d' ps)) = rest \<union> {([], d'), (name, p')}"
    using set_mput [of "mput [] d' ps" name p'] set_mput [OF D(1), of "[]" d'] D(1) name by (auto simp: rest_def)
  have nm: "rlset (PIPs q) \<inter> (case map_of ps name of None \<Rightarrow> {} | Some q \<Rightarrow> rlset (PIPs q)) = {}" if "(m, q) \<in> rest" for m q
    using that D(3) [of m q name] D(1) by (auto simp: rest_def mwf_map_of_iff split: option.splits)
  have rd: "rlset (PIPs q) \<inter> rlset (PIPs d') = {}" if "(m, q) \<in> rest" for m q
    using D(3) [of m q "[]" d] nm [OF that] that d I by (auto simp: rest_def)
  have rp: "rlset (PIPs q) \<inter> rlset (PIPs p') = {}" if "(m, q) \<in> rest" for m q
    using dis [of m q] that by (auto simp: rest_def)
  have rr: "rlset (PIPs q) \<inter> rlset (PIPs q') = {}" if "(m, q) \<in> rest" "(m', q') \<in> rest" "m \<noteq> m'" for m q m' q'
    using D(3) [of m q m' q'] that by (auto simp: rest_def)
  have dp: "rlset (PIPs d') \<inter> rlset (PIPs p') = {}" using I by blast
  have cover: "\<exists>e\<in>rest \<union> {([], d'), (name, p')}. x \<in> rlset (PIPs (snd e))" if "x \<in> U" for x
  proof -
    from D(4) [OF that] obtain n p where np: "(n, p) \<in> set ps" "x \<in> rlset (PIPs p)" by blast
    consider "n = []" | "n = name" | "(n, p) \<in> rest" using np by (auto simp: rest_def)
    then show ?thesis
    proof cases
      case 1
      then have "p = d" using np d D(1) by (metis mwf_map_of_iff option.inject)
      then show ?thesis using np I by auto
    next
      case 2
      then have "map_of ps name = Some p" using np D(1) by (simp add: mwf_map_of_iff)
      then show ?thesis using np I by auto
    next
      case 3
      then show ?thesis using np by force
    qed
  qed
  have pok: "pool_ok F U R X q" if "(m, q) \<in> rest" for m q using that D(2) by (auto simp: rest_def)
  show ?thesis
    unfolding pools_ok_def st
  proof (intro conjI)
    show "mwf (mput name p' (mput [] d' ps))" using D(1) by simp
    show "\<forall>(n, p)\<in>rest \<union> {([], d'), (name, p')}. pool_ok F U R X p" using pok new by blast
    show "\<forall>(n, p)\<in>rest \<union> {([], d'), (name, p')}. \<forall>(m, q)\<in>rest \<union> {([], d'), (name, p')}. n \<noteq> m \<longrightarrow> rlset (PIPs p) \<inter> rlset (PIPs q) = {}"
      using rr rd rp dp unfolding disjoint_iff by blast
    show "U \<subseteq> (\<Union>(n, p)\<in>rest \<union> {([], d'), (name, p')}. rlset (PIPs p))" using cover by fastforce
  qed
qed

lemma sub_ok_pools:
  assumes s: "sub_ok U s" and eq: "\<And>F. sfam F s' = sfam F s" and d: "map_of (IPPools s') [] \<noteq> None"
    and po: "\<And>F. pools_ok F (U F) (rlset (SReserved (sfam F s))) (rlset (SUsing (sfam F s))) (pools_of F s')"
  shows "sub_ok U s'"
proof -
  have "fam_ok F (U F) (sfam F s) (pools_of F s')" for F
    using po [of F] lists_okD [OF sub_okD(2) [OF s, of F]] sub_okD(3,4) [OF s, of F] by (simp add: fam_ok_def lists_ok_def)
  then show ?thesis using eq d by (simp add: sub_ok_def)
qed

text \<open>The texts given for a pool denote addresses of their family, away from the ends of its space.\<close>

definition pool_texts_ok :: "string list \<Rightarrow> Subnet \<Rightarrow> bool" where
  "pool_texts_ok ips s =
     (\<forall>F. FCIDR (sfam F s) \<noteq> None \<longrightarrow>
       (\<forall>l. NewIPRangeListFrom ((case F of F4 \<Rightarrow> fst | F6 \<Rightarrow> snd) (SplitIpsByProtocol ips)) = Inr l \<longrightarrow> rl_in F l))"

lemma AddOrUpdateIPPool_ok:
  assumes s: "sub_ok U s" and name: "name \<noteq> []" and t: "pool_texts_ok ips s"
  shows "sub_ok U (fst (AddOrUpdateIPPool name ips s))"
    "\<And>F. sfam F (fst (AddOrUpdateIPPool name ips s)) = sfam F s"
    "snd (AddOrUpdateIPPool name ips s) \<noteq> None \<Longrightarrow> fst (AddOrUpdateIPPool name ips s) = s"
proof -
  obtain v4 v6 where v: "SplitIpsByProtocol ips = (v4, v6)" by fastforce
  define vs where "vs = (\<lambda>F. case F of F4 \<Rightarrow> v4 | F6 \<Rightarrow> v6)"
  obtain d where d: "map_of (IPPools s) [] = Some d" using sub_okD(5) [OF s] by blast
  consider (err) e where "AddOrUpdateIPPool name ips s = (s, Some e)"
    | (ok) mk where "\<And>F. make_pool_fam F name (vs F) s = Inr (mk F)"
  proof (cases "make_pool_fam F4 name v4 s")
    case (Inl e)
    then show ?thesis using err v by (simp add: AddOrUpdateIPPool_def)
  next
    case p4: (Inr p4)
    show ?thesis
    proof (cases "make_pool_fam F6 name v6 s")
      case (Inl e)
      then show ?thesis using err v p4 by (simp add: AddOrUpdateIPPool_def)
    next
      case (Inr p6)
      have "make_pool_fam F name (vs F) s = Inr (case F of F4 \<Rightarrow> p4 | F6 \<Rightarrow> p6)" for F
        using p4 Inr by (cases F) (simp_all add: vs_def)
      then show ?thesis using ok by blast
    qed
  qed
  then have "sub_ok U (fst (AddOrUpdateIPPool name ips s)) \<and> (\<forall>F. sfam F (fst (AddOrUpdateIPPool name ips s)) = sfam F s) \<and>
    (snd (AddOrUpdateIPPool name ips s) \<noteq> None \<longrightarrow> fst (AddOrUpdateIPPool name ips s) = s)"
  proof cases
    case err
    then show ?thesis using s by simp
  next
    case ok
    define dn where "dn = (\<lambda>F. shrink_default F s (map_of (IPPools s) name) (mk F) (pfam F d))"
    define s' where "s' = set_pool name \<lparr>PV4 = mk F4, PV6 = mk F6\<rparr> (set_pool [] \<lparr>PV4 = dn F4, PV6 = dn F6\<rparr> s)"
    have "make_pool_fam F4 name v4 s = Inr (mk F4)" "make_pool_fam F6 name v6 s = Inr (mk F6)"
      using ok [of F4] ok [of F6] by (simp_all add: vs_def)
    then have res: "AddOrUpdateIPPool name ips s = (s', None)"
      using v d by (simp add: AddOrUpdateIPPool_def Let_def s'_def dn_def)
    have "sub_ok U s'"
    proof (rule sub_ok_pools [OF s])
      fix F
      note l = sub_okD(2) [OF s, of F]
      have tx: "\<forall>l. NewIPRangeListFrom (vs F) = Inr l \<longrightarrow> rl_in F l" if "FCIDR (sfam F s) \<noteq> None"
        using t that v by (cases F) (auto simp: pool_texts_ok_def vs_def)
      note mp = make_pool_fam_ok [OF s ok [of F] tx]
      note sh = shrink_default_ok [OF s d mp(1,2), of name]
      show "sfam F s' = sfam F s" by (simp add: s'_def)
      have "pools_of F s' = mput name (mk F) (mput [] (dn F) (pools_of F s))" by (cases F) (simp_all add: s'_def)
      moreover have "pools_ok F (U F) (rlset (SReserved (sfam F s))) (rlset (SUsing (sfam F s))) (mput name (mk F) (mput [] (dn F) (pools_of F s)))"
      proof (rule pools_ok_repart [OF lists_okD(8) [OF l] pool_ok_of(2) [OF l d] name _ mp(1)])
        show "pool_ok F (U F) (rlset (SReserved (sfam F s))) (rlset (SUsing (sfam F s))) (dn F)" using sh(1) by (simp add: dn_def)
        show "rlset (PIPs (dn F)) = rlset (PIPs (pfam F d)) \<union>
            (case map_of (pools_of F s) name of None \<Rightarrow> {} | Some q \<Rightarrow> rlset (PIPs q)) - rlset (PIPs (mk F))"
          using sh(2) by (simp add: dn_def map_of_pools_of split: option.splits)
        fix m q assume m: "(m, q) \<in> set (pools_of F s)" "m \<noteq> []" "m \<noteq> name"
        then obtain v where "map_of (IPPools s) m = Some v" "q = pfam F v"
          using mwf_map_of_iff [of "pools_of F s" m q] sub_okD(6) [OF s] by (auto simp: map_of_pools_of mwf_pools_of)
        then show "rlset (PIPs (mk F)) \<inter> rlset (PIPs q) = {}" using mp(3) m by blast
      qed
      ultimately show "pools_ok F (U F) (rlset (SReserved (sfam F s))) (rlset (SUsing (sfam F s))) (pools_of F s')" by simp
      show "map_of (IPPools s') [] \<noteq> None" by (simp add: s'_def)
    qed
    then show ?thesis using res by (simp add: s'_def)
  qed
  then show "sub_ok U (fst (AddOrUpdateIPPool name ips s))" "\<And>F. sfam F (fst (AddOrUpdateIPPool name ips s)) = sfam F s"
    "snd (AddOrUpdateIPPool name ips s) \<noteq> None \<Longrightarrow> fst (AddOrUpdateIPPool name ips s) = s" by blast+
qed

lemma absorb_pool_ok:
  assumes d: "pool_ok F U R X d" and p: "pool_ok F U R X p" and dis: "rlset (PIPs d) \<inter> rlset (PIPs p) = {}"
  shows "pool_ok F U R X (absorb_pool d p)" "rlset (PIPs (absorb_pool d p)) = rlset (PIPs d) \<union> rlset (PIPs p)"
proof -
  note D = pool_okD [OF d] and P = pool_okD [OF p]
  note m = rl.wf_mrg [OF D(1) P(1)] rl.wf_mrg [OF D(2) P(2)] rl.wf_mrg [OF D(3) P(3)] rl.wf_mrg [OF D(4) P(4)]
    rl.wf_mrg [OF D(5) P(5)] rl.wf_mrg [OF D(6) P(6)]
  note e = rl.elems_mrg [OF D(1) P(1)] rl.elems_mrg [OF D(2) P(2)] rl.elems_mrg [OF D(3) P(3)] rl.elems_mrg [OF D(4) P(4)]
    rl.elems_mrg [OF D(5) P(5)] rl.elems_mrg [OF D(6) P(6)]
  have x: "rlset (PFree d) \<inter> rlset (PReleased p) = {}" "rlset (PFree p) \<inter> rlset (PReleased d) = {}"
    using D(9,10) P(9,10) dis by blast+
  show "rlset (PIPs (absorb_pool d p)) = rlset (PIPs d) \<union> rlset (PIPs p)" using e by (simp add: absorb_pool_def)
  have a: "rlset (PFree d) \<union> rlset (PFree p) \<union> (rlset (PReleased d) \<union> rlset (PReleased p)) = rlset (PAvailable d) \<union> rlset (PAvailable p)"
    "(rlset (PFree d) \<union> rlset (PFree p)) \<inter> (rlset (PReleased d) \<union> rlset (PReleased p)) = {}"
    using D(10,11) P(10,11) x by blast+
  show "pool_ok F U R X (absorb_pool d p)"
    unfolding pool_ok_def absorb_pool_def using m e a D(7-9) P(7-9) by auto
qed

lemma pools_ok_absorb:
  assumes ps: "pools_ok F U R X ps" and d: "([], d) \<in> set ps" and p: "(name, p) \<in> set ps" and name: "name \<noteq> []"
  shows "pools_ok F U R X (mdel name (mput [] (absorb_pool d p) ps))"
proof -
  note D = pools_ok_D [OF ps]
  define rest where "rest = {e \<in> set ps. fst e \<noteq> [] \<and> fst e \<noteq> name}"
  have dis: "rlset (PIPs d) \<inter> rlset (PIPs p) = {}" using D(3) [OF d p] name by blast
  note ab = absorb_pool_ok [OF D(2) [OF d] D(2) [OF p] dis]
  have st: "set (mdel name (mput [] (absorb_pool d p) ps)) = rest \<union> {([], absorb_pool d p)}"
    using set_mput [OF D(1), of "[]" "absorb_pool d p"] name by (auto simp: set_mdel rest_def)
  have r: "pool_ok F U R X q" "rlset (PIPs q) \<inter> rlset (PIPs (absorb_pool d p)) = {}" if "(m, q) \<in> rest" for m q
    using that D(2) D(3) [of m q, OF _ d] D(3) [of m q, OF _ p] ab(2) by (auto simp: rest_def)
  have rr: "rlset (PIPs q) \<inter> rlset (PIPs q') = {}" if "(m, q) \<in> rest" "(m', q') \<in> rest" "m \<noteq> m'" for m q m' q'
    using D(3) [of m q m' q'] that by (auto simp: rest_def)
  have cover: "\<exists>e\<in>rest \<union> {([], absorb_pool d p)}. x \<in> rlset (PIPs (snd e))" if x: "x \<in> U" for x
  proof -
    obtain n q where nq: "(n, q) \<in> set ps" "x \<in> rlset (PIPs q)" using D(4) [OF x] by blast
    have "q = d" if "n = []" using that nq d D(1) by (metis mwf_map_of_iff option.inject)
    moreover have "q = p" if "n = name" using that nq p D(1) by (metis mwf_map_of_iff option.inject)
    ultimately show ?thesis using nq ab(2) by (cases "(n, q) \<in> rest") (force simp: rest_def)+
  qed
  show ?thesis
    unfolding pools_ok_def st
  proof (intro conjI)
    show "mwf (mdel name (mput [] (absorb_pool d p) ps))" using D(1) by simp
    show "\<forall>(n, q)\<in>rest \<union> {([], absorb_pool d p)}. pool_ok F U R X q" using r(1) ab(1) by blast
    show "\<forall>(n, q)\<in>rest \<union> {([], absorb_pool d p)}. \<forall>(m, q')\<in>rest \<union> {([], absorb_pool d p)}. n \<noteq> m \<longrightarrow> rlset (PIPs q) \<inter> rlset (PIPs q') = {}"
      using rr r(2) unfolding disjoint_iff by blast
    show "U \<subseteq> (\<Union>(n, q)\<in>rest \<union> {([], absorb_pool d p)}. rlset (PIPs q))" using cover by fastforce
  qed
qed

lemma pools_of_mdel: "pools_of F (s\<lparr>IPPools := mdel n (IPPools s)\<rparr>) = mdel n (pools_of F s)"
  by (simp add: pools_of_def mdel_def AList.delete_eq filter_map comp_def split_def)

lemma RemoveIPPool_ok:
  assumes s: "sub_ok U s" and name: "name \<noteq> []"
  obtains s' where "RemoveIPPool name s = Inr s'" "sub_ok U s'" "\<And>F. sfam F s' = sfam F s" "map_of (IPPools s') name = None"
proof (cases "map_of (IPPools s) name")
  case None
  then show ?thesis using s that by (simp add: RemoveIPPool_def)
next
  case (Some p)
  obtain d where d: "map_of (IPPools s) [] = Some d" using sub_okD(5) [OF s] by blast
  define dn where "dn = (\<lambda>F. absorb_pool (pfam F d) (pfam F p))"
  define s1 where "s1 = set_pool [] \<lparr>PV4 = dn F4, PV6 = dn F6\<rparr> s"
  define s' where "s' = s1\<lparr>IPPools := mdel name (IPPools s1)\<rparr>"
  have res: "RemoveIPPool name s = Inr s'" using Some d by (simp add: RemoveIPPool_def Let_def s'_def s1_def dn_def)
  have "sub_ok U s'"
  proof (rule sub_ok_pools [OF s])
    fix F
    note l = sub_okD(2) [OF s, of F]
    show "sfam F s' = sfam F s" by (simp add: s'_def s1_def)
    show "map_of (IPPools s') [] \<noteq> None" using name by (simp add: s'_def s1_def)
    have "pools_of F s1 = mput [] (dn F) (pools_of F s)" by (cases F) (simp_all add: s1_def)
    then have "pools_of F s' = mdel name (mput [] (dn F) (pools_of F s))" by (simp add: s'_def pools_of_mdel)
    then show "pools_ok F (U F) (rlset (SReserved (sfam F s))) (rlset (SUsing (sfam F s))) (pools_of F s')"
      using pools_ok_absorb [OF lists_okD(8) [OF l] pool_ok_of(2) [OF l d] pool_ok_of(2) [OF l Some] name] by (simp add: dn_def)
  qed
  then show ?thesis using that res by (simp add: s'_def s1_def)
qed

end
