(* ===== verification/SubnetNets.thy ===== *)
theory SubnetNets
  imports SubnetInv
begin

text \<open>
  The invariant of a subnet when it is made and when its networks change. \<open>usable\<close> is the
  set of addresses of a network that may be leased; networks of at most two addresses are
  left out (\<open>net_fit\<close>). \<open>NewSubnet\<close> of networks of either or both families sets up the
  invariant, and the update of a family by \<open>AddOrUpdateSubnet\<close> carries it over to the new
  network: the pools are divided anew and the leases outside the network are dropped.
\<close>

section \<open>Networks\<close>

text \<open>The addresses of a network that may be leased, and the networks for which they lie inside the family.\<close>

definition usable :: "fam \<Rightarrow> nat \<Rightarrow> IPNet \<Rightarrow> nat set" where
  "usable F n net =
     (if n + 1 = fbits F then netset F n net
      else netset F n net - {ipv (NetIP net), ipv (NetIP net) + 2 ^ (fbits F - n) - 1})"

definition net_fit :: "fam \<Rightarrow> nat \<Rightarrow> IPNet \<Rightarrow> bool" where
  "net_fit F n net = (net_ok F n net \<and> n + 1 < fbits F)"

lemma usable_ends:
  assumes "net_fit F n net"
  obtains a b where "FirstIP (net_string net) = Inr (ip_string a)" "LastIP (net_string net) = Inr (ip_string b)"
    "ip_in F a" "ip_in F b" "ipv a \<le> ipv b" "{ipv a..ipv b} = usable F n net"
proof -
  have n: "net_ok F n net" "n < fbits F" "n + 1 \<noteq> fbits F" using assms by (auto simp: net_fit_def)
  obtain a where a: "FirstIP (net_string net) = Inr (ip_string a)" "ipok F a" "ipv a = ipv (NetIP net) + 1"
    using FirstIP_net [OF n(1,2)] n(3) by metis
  obtain b where b: "LastIP (net_string net) = Inr (ip_string b)" "ipok F b" "ipv b = ipv (NetIP net) + (2 ^ (fbits F - n) - 2)"
    using LastIP_net [OF n(1,2)] n(3) by metis
  have p: "4 \<le> (2 :: nat) ^ (fbits F - n)"
    using n power_increasing [of 2 "fbits F - n" "2 :: nat"] by simp
  have i: "ipv a \<le> ipv b" "{ipv a..ipv b} = usable F n net"
    using usable_interval [OF p] n(3) a(3) b(3) unfolding usable_def netset_def by simp_all
  have "ipv (NetIP net) + (2 ^ (fbits F - n) - 1) \<in> netset F n net" using p by (simp add: netset_def)
  then have "ipv (NetIP net) + (2 ^ (fbits F - n) - 1) \<le> ipmax F" using netset_family [OF n(1)] by auto
  moreover have "ipmin F \<le> ipv (NetIP net)" using ipok_bounds net_ok_D(1) [OF n(1)] by blast
  ultimately have "inner F a" "inner F b" using p a(3) b(3) by (auto simp: inner_def)
  then show ?thesis using that a b i by (auto simp: ip_in_def)
qed

lemma usable_list_net:
  assumes "net_fit F n net"
  obtains l where "usable_list (net_string net) = Inr l" "rl_in F l" "rlset l = usable F n net"
proof -
  obtain a b where ab: "FirstIP (net_string net) = Inr (ip_string a)" "LastIP (net_string net) = Inr (ip_string b)"
    "ip_in F a" "ip_in F b" "ipv a \<le> ipv b" "{ipv a..ipv b} = usable F n net" using usable_ends [OF assms] .
  have ok: "ipok F a" "ipok F b" using ab by (simp_all add: ip_in_def)
  have "usable_list (net_string net) = Inr [NewIPRange a b]"
    using NewIPRangeListFrom_text [OF ok ab(5)] by (simp add: usable_list_def ab(1,2) ok_text_def)
  moreover have "rl_in F [NewIPRange a b]"
    using ab(3,4,5) rl_ok_single [of F "NewIPRange a b"] by (auto simp: rl_in_def rok_def ip_in_def inner_def inn_def rset_def)
  ultimately show ?thesis using that ab(6) by (simp add: rset_def)
qed

lemma cidr_ok_net:
  assumes "net_fit F n net"
  shows "cidr_ok F (usable F n net) (Some net)"
proof -
  obtain l where "usable_list (net_string net) = Inr l" "rl_in F l" "rlset l = usable F n net"
    using usable_list_net [OF assms] .
  moreover have "net_contains net ip" if "ip_in F ip" "ipv ip \<in> usable F n net" for ip
    using net_contains_iff [of F n net ip] that assms by (auto simp: net_fit_def ip_in_def usable_def split: if_splits)
  ultimately show ?thesis by (auto simp: cidr_ok_def)
qed

section \<open>A new subnet\<close>

lemma new_fam_ok:
  assumes l: "rl_in F l" and r: "rl_in F r" "rlset r \<subseteq> rlset l" and c: "cidr_ok F (rlset l) cidr"
  shows "fam_ok F (rlset l) ((new_fam cidr l r)\<lparr>Gw := g\<rparr>) [([], new_pool_fam l (new_fam cidr l r))]"
proof -
  note sp = rl.wf_sep [OF l r(1)] rl.elems_sep [OF l r(1)] and e = rl.wf_empty [of F] rl.elems_empty
  have "pool_ok F (rlset l) (rlset r) {} (new_pool_fam l (new_fam cidr l r))"
    using l r sp e by (auto simp: pool_ok_def new_pool_fam_def new_fam_def Let_def)
  then have "pools_ok F (rlset l) (rlset r) {} [([], new_pool_fam l (new_fam cidr l r))]"
    by (simp add: pools_ok_def mwf_Cons new_pool_fam_def)
  then show ?thesis
    using l r sp e c by (simp add: fam_ok_def lists_ok_def leases_ok_def new_fam_def Let_def)
qed

lemma fam_ok_none: "fam_ok F {} (empty_fam\<lparr>Gw := g\<rparr>) [([], empty_pool_fam)]"
proof -
  have "new_fam None NewEmptyIPRangeList NewEmptyIPRangeList = empty_fam"
    "new_pool_fam NewEmptyIPRangeList empty_fam = empty_pool_fam"
    by (simp_all add: new_fam_def empty_fam_def new_pool_fam_def empty_pool_fam_def NewEmptyIPRangeList_def Let_def
        rl_Separate_def)
  then show ?thesis
    using new_fam_ok [of F NewEmptyIPRangeList NewEmptyIPRangeList None g] rl.wf_empty [of F] rl.elems_empty
    by (simp add: cidr_ok_def)
qed

text \<open>The reserved addresses of a new subnet are usable addresses of its networks.\<close>

definition reserved_ok :: "(fam \<Rightarrow> nat set) \<Rightarrow> Subnet \<Rightarrow> bool" where
  "reserved_ok U s = (\<forall>F. rl_in F (SReserved (sfam F s)) \<and> rlset (SReserved (sfam F s)) \<subseteq> U F)"


text \<open>The networks of a subnet: at most one for each family, and the text of the subnet.\<close>

type_synonym nets = "fam \<Rightarrow> (nat \<times> IPNet) option"

definition nets_fit :: "nets \<Rightarrow> bool" where
  "nets_fit nets = ((\<forall>F n net. nets F = Some (n, net) \<longrightarrow> net_fit F n net) \<and> (\<exists>F. nets F \<noteq> None))"

definition nets_usable :: "nets \<Rightarrow> fam \<Rightarrow> nat set" where
  "nets_usable nets F = (case nets F of None \<Rightarrow> {} | Some (n, net) \<Rightarrow> usable F n net)"

definition net_texts :: "nets \<Rightarrow> string list" where
  "net_texts nets = concat (map (\<lambda>F. case nets F of None \<Rightarrow> [] | Some (n, net) \<Rightarrow> [net_string net]) [F4, F6])"

definition nets_text :: "nets \<Rightarrow> string" where
  "nets_text nets = join '','' (net_texts nets)"

lemma net_string_no_comma: "net_ok F n net \<Longrightarrow> CHR '','' \<notin> set (net_string net)"
  using ip_string_no_comma [OF ipok_valid [OF net_ok_D(1)]] dec_not_in [of "CHR '',''" n] by (simp add: net_string_eq)

lemma nets_cases:
  assumes "nets_fit nets"
  obtains (v4) n a where "nets F4 = Some (n, a)" "nets F6 = None" "net_fit F4 n a" "net_ok F4 n a"
    | (v6) m b where "nets F4 = None" "nets F6 = Some (m, b)" "net_fit F6 m b" "net_ok F6 m b"
    | (dual) n a m b where "nets F4 = Some (n, a)" "nets F6 = Some (m, b)" "net_fit F4 n a" "net_fit F6 m b"
      "net_ok F4 n a" "net_ok F6 m b"
proof -
  have f: "net_fit F n net \<and> net_ok F n net" if "nets F = Some (n, net)" for F n net
    using assms that by (auto simp: nets_fit_def net_fit_def)
  obtain F where F: "nets F \<noteq> None" using assms by (auto simp: nets_fit_def)
  show ?thesis
  proof (cases "nets F4")
    case None
    with F obtain p where "nets F6 = Some p" by (cases F) auto
    with None f [of F6] v6 show ?thesis by (cases p) auto
  next
    case (Some p)
    obtain n a where na: "nets F4 = Some (n, a)" using Some by (cases p) auto
    show ?thesis
    proof (cases "nets F6")
      case None
      with na f [of F4] v4 show ?thesis by auto
    next
      case (Some q)
      with na f [of F4 n a] f [of F6] dual show ?thesis by (cases q) auto
    qed
  qed
qed

lemma split_nets_text: "nets_fit nets \<Longrightarrow> split_char CHR '','' (nets_text nets) = net_texts nets"
  by (erule nets_cases) (use net_string_no_comma in \<open>simp_all add: nets_text_def net_texts_def split_char_none split_char_append\<close>)

lemma CheckProtocol_two:
  assumes a: "net_ok F4 n a" and b: "net_ok F6 m b"
  shows "CheckProtocol (net_string a @ '','' @ net_string b) = ProtocolDual"
proof -
  have sp: "split_char CHR '','' (net_string a @ '','' @ net_string b) = [net_string a, net_string b]"
    using split_char_append [OF net_string_no_comma [OF a], of "net_string b"] split_char_none [OF net_string_no_comma [OF b]] by simp
  have f: "first_of CHR ''/'' (net_string net) = ip_string (NetIP net)" if n: "net_ok F k net" for F k net
    using split_char_append [OF ip_string_no_slash [OF ipok_valid [OF net_ok_D(1) [OF n]]], of "dec k"]
    by (simp add: net_string_eq [OF n] first_of_def)
  note ia = net_ok_D(1) [OF a] and ib = net_ok_D(1) [OF b]
  show ?thesis
    unfolding CheckProtocol_def Let_def sp
    using ip_to16_ipok [OF ia] ip_to16_ipok [OF ib] by (simp add: f [OF a] f [OF b] ParseIP_ipok [OF ia] ParseIP_ipok [OF ib])
qed

lemma nets_fitD: "nets_fit nets \<Longrightarrow> nets F = Some (n, net) \<Longrightarrow> net_fit F n net \<and> net_ok F n net"
  by (simp add: nets_fit_def net_fit_def)

lemma protocol_distinct:
  "ProtocolIPv4 \<noteq> ProtocolIPv6" "ProtocolIPv4 \<noteq> ProtocolDual" "ProtocolIPv6 \<noteq> ProtocolDual"
  "ProtocolIPv6 \<noteq> ProtocolIPv4" "ProtocolDual \<noteq> ProtocolIPv4" "ProtocolDual \<noteq> ProtocolIPv6"
  by (simp_all add: ProtocolIPv4_def ProtocolIPv6_def ProtocolDual_def)

lemma nets_protocol:
  "nets_fit nets \<Longrightarrow> CheckProtocol (nets_text nets) =
    (if nets F6 = None then ProtocolIPv4 else if nets F4 = None then ProtocolIPv6 else ProtocolDual)"
  by (erule nets_cases) (use CheckProtocol_net CheckProtocol_two in \<open>auto simp: nets_text_def net_texts_def\<close>)

definition net_list :: "nets \<Rightarrow> IPNet list" where
  "net_list nets = concat (map (\<lambda>F. case nets F of None \<Rightarrow> [] | Some (n, net) \<Rightarrow> [net]) [F4, F6])"

lemma parse_cidrs_texts: "nets_fit nets \<Longrightarrow> parse_cidrs (net_texts nets) = Some (net_list nets)"
  by (erule nets_cases) (use ParseCIDR_net_string in \<open>simp_all add: net_texts_def net_list_def\<close>)

text \<open>What \<open>NewSubnet\<close> starts from: for each family its network and the list of its usable addresses.\<close>

lemma subnet_ranges_nets:
  assumes n: "nets_fit nets"
  obtains l where "subnet_ranges (CheckProtocol (nets_text nets)) (nets_text nets)
      (net_list nets) = Inr ((map_option snd (nets F4), l F4), (map_option snd (nets F6), l F6))"
    "\<And>F. rl_in F (l F)" "\<And>F. rlset (l F) = nets_usable nets F"
proof -
  have "\<exists>l. rl_in F l \<and> rlset l = nets_usable nets F \<and> (\<forall>k net. nets F = Some (k, net) \<longrightarrow> usable_list (net_string net) = Inr l) \<and>
    (nets F = None \<longrightarrow> l = NewEmptyIPRangeList)" for F
  proof (cases "nets F")
    case None
    then show ?thesis using rl.wf_empty [of F] rl.elems_empty by (auto simp: nets_usable_def)
  next
    case (Some p)
    then obtain k net where p: "nets F = Some (k, net)" by (cases p) auto
    then have "net_fit F k net" using n by (simp add: nets_fit_def)
    then obtain l where "usable_list (net_string net) = Inr l" "rl_in F l" "rlset l = usable F k net" by (rule usable_list_net)
    then show ?thesis using p by (auto simp: nets_usable_def)
  qed
  then obtain l where l: "\<And>F. rl_in F (l F)" "\<And>F. rlset (l F) = nets_usable nets F"
    "\<And>F k net. nets F = Some (k, net) \<Longrightarrow> usable_list (net_string net) = Inr (l F)" "\<And>F. nets F = None \<Longrightarrow> l F = NewEmptyIPRangeList"
    by metis
  have "subnet_ranges (CheckProtocol (nets_text nets)) (nets_text nets)
      (net_list nets) = Inr ((map_option snd (nets F4), l F4), (map_option snd (nets F6), l F6))"
    using n unfolding nets_protocol [OF n]
    by (rule nets_cases)
      (use l(3) [of F4] l(3) [of F6] l(4) [of F4] l(4) [of F6] split_nets_text [OF n] in
        \<open>simp_all add: subnet_ranges_def net_list_def Let_def nets_text_def net_texts_def protocol_distinct\<close>)
  then show ?thesis using that l(1,2) by blast
qed

lemma NewSubnet_ok:
  assumes n: "nets_fit nets" and s: "NewSubnet draws name (nets_text nets) ex = Inr s" and r: "reserved_ok (nets_usable nets) s"
  shows "sub_ok (nets_usable nets) (s\<lparr>SV4 := (SV4 s)\<lparr>Gw := g4\<rparr>, SV6 := (SV6 s)\<lparr>Gw := g6\<rparr>\<rparr>)"
    "Protocol s = (if nets F6 = None then ProtocolIPv4 else if nets F4 = None then ProtocolIPv6 else ProtocolDual)"
proof -
  obtain l where l: "subnet_ranges (CheckProtocol (nets_text nets)) (nets_text nets)
      (net_list nets) = Inr ((map_option snd (nets F4), l F4), (map_option snd (nets F6), l F6))"
    "\<And>F. rl_in F (l F)" "\<And>F. rlset (l F) = nets_usable nets F" using subnet_ranges_nets [OF n] by metis
  obtain r4 r6 where s': "s = \<lparr>Name = name, CIDR = nets_text nets, Protocol = CheckProtocol (nets_text nets),
      SV4 = new_fam (map_option snd (nets F4)) (l F4) r4, SV6 = new_fam (map_option snd (nets F6)) (l F6) r6,
      NicToMac = [], MacToPod = [], PodToNicList = [], GatewayMAC = [],
      IPPools = [([], \<lparr>PV4 = new_pool_fam (l F4) (new_fam (map_option snd (nets F4)) (l F4) r4),
        PV6 = new_pool_fam (l F6) (new_fam (map_option snd (nets F6)) (l F6) r6)\<rparr>)], rnd = draws\<rparr>"
    using s l(1) parse_cidrs_texts [OF n] split_nets_text [OF n]
    by (auto simp: NewSubnet_def Let_def split: sum.splits prod.splits)
  have c: "cidr_ok F (nets_usable nets F) (map_option snd (nets F))" for F
    using cidr_ok_net n by (cases "nets F") (auto simp: nets_usable_def cidr_ok_None nets_fit_def)
  have "rl_in F4 r4" "rlset r4 \<subseteq> nets_usable nets F4" "rl_in F6 r6" "rlset r6 \<subseteq> nets_usable nets F6"
    using r [unfolded reserved_ok_def, rule_format, of F4] r [unfolded reserved_ok_def, rule_format, of F6]
    by (simp_all add: s' new_fam_def Let_def)
  then have f: "fam_ok F4 (nets_usable nets F4) ((new_fam (map_option snd (nets F4)) (l F4) r4)\<lparr>Gw := g4\<rparr>)
      [([], new_pool_fam (l F4) (new_fam (map_option snd (nets F4)) (l F4) r4))]"
    "fam_ok F6 (nets_usable nets F6) ((new_fam (map_option snd (nets F6)) (l F6) r6)\<lparr>Gw := g6\<rparr>)
      [([], new_pool_fam (l F6) (new_fam (map_option snd (nets F6)) (l F6) r6))]"
    using new_fam_ok [OF l(2), of F4 r4] new_fam_ok [OF l(2), of F6 r6] c l(3) by simp_all
  have "fam_ok F (nets_usable nets F) (sfam F (s\<lparr>SV4 := (SV4 s)\<lparr>Gw := g4\<rparr>, SV6 := (SV6 s)\<lparr>Gw := g6\<rparr>\<rparr>))
      (pools_of F (s\<lparr>SV4 := (SV4 s)\<lparr>Gw := g4\<rparr>, SV6 := (SV6 s)\<lparr>Gw := g6\<rparr>\<rparr>))" for F
    using f by (cases F) (simp_all add: s' pools_of_def)
  then show "sub_ok (nets_usable nets) (s\<lparr>SV4 := (SV4 s)\<lparr>Gw := g4\<rparr>, SV6 := (SV6 s)\<lparr>Gw := g6\<rparr>\<rparr>)"
    by (simp add: sub_ok_def s')
  show "Protocol s = (if nets F6 = None then ProtocolIPv4 else if nets F4 = None then ProtocolIPv6 else ProtocolDual)"
    by (simp add: s' nets_protocol [OF n])
qed


section \<open>A changed network\<close>

lemma refresh_pools_eq:
  "refresh_pools F ips reserved ps d =
     (map (\<lambda>(n, pool). (n, if n = [] then pool else refresh_pool F ips reserved pool)) ps,
      foldl (\<lambda>d (n, pool). if n = [] then d else give_up d (pfam F (refresh_pool F ips reserved pool))) d ps)"
  by (induction ps arbitrary: d) (auto simp: Let_def)

lemma refresh_pool_ok:
  assumes p: "pool_ok F U R X (pfam F pool)" and ips: "rl_in F ips" and res: "rl_in F reserved"
  shows "pool_ok F (rlset ips) (rlset reserved) (X \<inter> rlset ips) (pfam F (refresh_pool F ips reserved pool))"
    "PIPs (pfam F (refresh_pool F ips reserved pool)) = PIPs (pfam F pool)"
    "G \<noteq> F \<Longrightarrow> pfam G (refresh_pool F ips reserved pool) = pfam G pool"
proof -
  note d = pool_okD [OF p]
  define u where "u = rl_Intersect (PUsing (pfam F pool)) ips"
  define r where "r = rl_Intersect reserved (PIPs (pfam F pool))"
  define free where "free = rl_Separate (rl_Separate (rl_Intersect ips (PIPs (pfam F pool))) u) r"
  have u: "rl_in F u" "rlset u = X \<inter> rlset ips \<inter> rlset (PIPs (pfam F pool))"
    using rl.wf_isect [OF d(6) ips] rl.elems_isect [OF d(6) ips] d(8) by (auto simp: u_def)
  have r: "rl_in F r" "rlset r = rlset reserved \<inter> rlset (PIPs (pfam F pool))"
    using rl.wf_isect [OF res d(1)] rl.elems_isect [OF res d(1)] by (simp_all add: r_def)
  note i = rl.wf_isect [OF ips d(1)] rl.elems_isect [OF ips d(1)]
  note iu = rl.wf_sep [OF i(1) u(1)] rl.elems_sep [OF i(1) u(1)]
  have free: "rl_in F free" "rlset free = rlset ips \<inter> rlset (PIPs (pfam F pool)) - X \<inter> rlset ips - rlset reserved"
    using rl.wf_sep [OF iu(1) r(1)] rl.elems_sep [OF iu(1) r(1)] iu(2) i(2) u(2) r(2) by (auto simp: free_def)
  have eq: "refresh_pool F ips reserved pool = set_pfam F ((pfam F pool)\<lparr>PUsing := u, PReserved := r, PFree := free,
      PAvailable := free, PReleased := NewEmptyIPRangeList\<rparr>) pool"
    by (simp add: refresh_pool_def Let_def u_def r_def free_def)
  show "pool_ok F (rlset ips) (rlset reserved) (X \<inter> rlset ips) (pfam F (refresh_pool F ips reserved pool))"
    using d(1) u r free rl.wf_empty [of F] rl.elems_empty by (simp add: eq pool_ok_def Int_assoc)
  show "PIPs (pfam F (refresh_pool F ips reserved pool)) = PIPs (pfam F pool)" by (simp add: eq)
  show "G \<noteq> F \<Longrightarrow> pfam G (refresh_pool F ips reserved pool) = pfam G pool" by (simp add: eq)
qed

text \<open>The default pool while the others are visited: \<open>S\<close> are the addresses of those seen.\<close>

definition rest_pool :: "fam \<Rightarrow> nat set \<Rightarrow> nat set \<Rightarrow> nat set \<Rightarrow> nat set \<Rightarrow> IPPoolFam \<Rightarrow> bool" where
  "rest_pool F U R X S d =
     (rl_in F (PIPs d) \<and> rl_in F (PFree d) \<and> rl_in F (PReserved d) \<and> rl_in F (PUsing d) \<and>
      PReleased d = NewEmptyIPRangeList \<and> rlset (PIPs d) = U - S \<and> rlset (PFree d) = U - R - X - S \<and>
      rlset (PReserved d) = R - S \<and> rlset (PUsing d) = X - S)"

lemma give_up_rest:
  assumes d: "rest_pool F U R X S d" and p: "pool_ok F U R X p"
  shows "rest_pool F U R X (S \<union> rlset (PIPs p)) (give_up d p)"
proof -
  have D: "rl_in F (PIPs d)" "rl_in F (PFree d)" "rl_in F (PReserved d)" "rl_in F (PUsing d)"
    using d by (simp_all add: rest_pool_def)
  note P = pool_okD [OF p]
  note w = rl.wf_sep [OF D(1) P(1)] rl.wf_sep [OF D(2) P(1)] rl.wf_sep [OF D(3) P(4)] rl.wf_sep [OF D(4) P(6)]
  note e = rl.elems_sep [OF D(1) P(1)] rl.elems_sep [OF D(2) P(1)] rl.elems_sep [OF D(3) P(4)] rl.elems_sep [OF D(4) P(6)]
  show ?thesis using w e d P(7,8) by (auto simp: give_up_def rest_pool_def)
qed

lemma give_up_all:
  assumes "rest_pool F U R X S d" "\<forall>(n, pool)\<in>set ps. n \<noteq> [] \<longrightarrow> pool_ok F U R X (pfam F (g pool))"
  shows "rest_pool F U R X (S \<union> (\<Union>(n, pool)\<in>{e \<in> set ps. fst e \<noteq> []}. rlset (PIPs (pfam F (g pool)))))
    (foldl (\<lambda>d (n, pool). if n = [] then d else give_up d (pfam F (g pool))) d ps)"
  using assms
proof (induction ps arbitrary: d S)
  case (Cons e ps)
  obtain n pool where e: "e = (n, pool)" by (cases e)
  show ?case
  proof (cases "n = []")
    case True
    then have "{e' \<in> set (e # ps). fst e' \<noteq> []} = {e \<in> set ps. fst e \<noteq> []}" using e by auto
    then show ?thesis using Cons.IH [OF Cons.prems(1)] Cons.prems(2) True e by simp
  next
    case False
    then have "rest_pool F U R X (S \<union> rlset (PIPs (pfam F (g pool)))) (give_up d (pfam F (g pool)))"
      using Cons.prems e by (intro give_up_rest) auto
    from Cons.IH [OF this] have "rest_pool F U R X (S \<union> rlset (PIPs (pfam F (g pool))) \<union>
        (\<Union>(n, pool)\<in>{e \<in> set ps. fst e \<noteq> []}. rlset (PIPs (pfam F (g pool)))))
        (foldl (\<lambda>d (n, pool). if n = [] then d else give_up d (pfam F (g pool))) d (e # ps))"
      using Cons.prems(2) e False by simp
    moreover have "{e' \<in> set (e # ps). fst e' \<noteq> []} = insert e {e \<in> set ps. fst e \<noteq> []}" using e False by auto
    ultimately show ?thesis using e by (simp add: Un_assoc)
  qed
qed simp


lemma refreshed_pools_ok:
  assumes w: "mwf ps" and R: "R \<subseteq> U" and X: "X \<subseteq> U"
    and named: "\<And>n p. (n, p) \<in> set ps \<Longrightarrow> n \<noteq> [] \<Longrightarrow> pool_ok F U R X p"
    and dis: "\<And>n p m q. (n, p) \<in> set ps \<Longrightarrow> (m, q) \<in> set ps \<Longrightarrow> n \<noteq> m \<Longrightarrow> n \<noteq> [] \<Longrightarrow> m \<noteq> [] \<Longrightarrow> rlset (PIPs p) \<inter> rlset (PIPs q) = {}"
    and d: "rest_pool F U R X (\<Union>(n, p)\<in>{e \<in> set ps. fst e \<noteq> []}. rlset (PIPs p)) d"
  shows "pools_ok F U R X (mput [] (d\<lparr>PAvailable := PFree d\<rparr>) ps)"
proof -
  define rest where "rest = {e \<in> set ps. fst e \<noteq> []}"
  let ?d = "d\<lparr>PAvailable := PFree d\<rparr>"
  have st: "set (mput [] ?d ps) = rest \<union> {([], ?d)}" using set_mput [OF w] by (simp add: rest_def)
  have D: "pool_ok F U R X ?d"
    using d R X rl.wf_empty [of F] rl.elems_empty by (auto simp: rest_pool_def pool_ok_def)
  have i: "rlset (PIPs ?d) = U - (\<Union>(n, p)\<in>rest. rlset (PIPs p))" using d by (simp add: rest_pool_def rest_def)
  have N: "pool_ok F U R X p" if "(n, p) \<in> rest" for n p using that named by (auto simp: rest_def)
  have nn: "x \<notin> rlset (PIPs q)" if "(n, p) \<in> rest" "(m, q) \<in> rest" "n \<noteq> m" "x \<in> rlset (PIPs p)" for n p m q x
    using that dis [of n p m q] by (auto simp: rest_def)
  have nd: "x \<notin> rlset (PIPs ?d)" if "(n, p) \<in> rest" "x \<in> rlset (PIPs p)" for n p x using that i by blast
  have "\<forall>(n, p)\<in>rest \<union> {([], ?d)}. pool_ok F U R X p" using D N by blast
  moreover have "U \<subseteq> (\<Union>(n, p)\<in>rest \<union> {([], ?d)}. rlset (PIPs p))" using i by blast
  moreover have "\<forall>(n, p)\<in>rest \<union> {([], ?d)}. \<forall>(m, q)\<in>rest \<union> {([], ?d)}. n \<noteq> m \<longrightarrow> rlset (PIPs p) \<inter> rlset (PIPs q) = {}"
    using nn nd unfolding disjoint_iff by blast
  ultimately show ?thesis unfolding pools_ok_def st using w by simp
qed

text \<open>The leases that stay when the network changes.\<close>

lemma map_of_filter_fst: "mwf m \<Longrightarrow> map_of (filter P m) k = Some v \<longleftrightarrow> map_of m k = Some v \<and> P (k, v)"
proof -
  assume w: "mwf m"
  then have "mwf (filter P m)" by (simp add: mwf_def distinct_map_filter)
  then show ?thesis using w by (auto simp: mwf_map_of_iff)
qed

lemma foldl_mdel:
  "map_of (foldl (\<lambda>m (nic, ip). if P ip then m else mdel (g ip) m) pods nics) k =
     (if \<exists>(nic, ip)\<in>set nics. \<not> P ip \<and> g ip = k then None else map_of pods k)"
proof (induction nics arbitrary: pods)
  case (Cons e nics)
  obtain nic ip where "e = (nic, ip)" by (cases e)
  then show ?case using Cons [of "if P ip then pods else mdel (g ip) pods"] by (auto split: if_splits)
qed simp

lemma drop_outside_ok:
  assumes l: "leases_ok F X (NicToIP f) (IPToPod f)" and ips: "rl_in F ips"
  shows "leases_ok F (X \<inter> rlset ips) (NicToIP (drop_outside ips f)) (IPToPod (drop_outside ips f))"
proof -
  note d = leases_okD [OF l]
  have c: "rl_Contains ips ip \<longleftrightarrow> ipv ip \<in> rlset ips" if "map_of (NicToIP f) nic = Some ip" for nic ip
    by (rule rl.contains [OF ips d(2) [OF that]])
  have nic: "map_of (NicToIP (drop_outside ips f)) nic = Some ip \<longleftrightarrow> map_of (NicToIP f) nic = Some ip \<and> ipv ip \<in> rlset ips" for nic ip
    using c by (auto simp: drop_outside_def map_of_filter_fst [OF d(1)])
  have pod: "map_of (IPToPod (drop_outside ips f)) (IP_String ip) = map_of (IPToPod f) (IP_String ip)"
    if n: "map_of (NicToIP f) nic = Some ip" "ipv ip \<in> rlset ips" for nic ip
  proof -
    have "rl_Contains ips ip'" if m: "(nic', ip') \<in> set (NicToIP f)" "IP_String ip' = IP_String ip" for nic' ip'
    proof -
      have "map_of (NicToIP f) nic' = Some ip'" using m mwf_map_of_iff [OF d(1)] by blast
      then have "ip' = ip" using ip_in_String [OF d(2) d(2) [OF n(1)]] m(2) by blast
      then show ?thesis using c n by blast
    qed
    then have "\<not> (\<exists>(nic', ip')\<in>set (NicToIP f). \<not> rl_Contains ips ip' \<and> IP_String ip' = IP_String ip)" by blast
    then show ?thesis by (simp add: drop_outside_def foldl_mdel)
  qed
  have "map_of (IPToPod f) k = Some v" if "map_of (IPToPod (drop_outside ips f)) k = Some v" for k v
    using that by (auto simp: drop_outside_def foldl_mdel split: if_splits)
  moreover have "mwf (NicToIP (drop_outside ips f))"
    using d(1) by (simp add: drop_outside_def mwf_def distinct_map_filter)
  moreover have "\<exists>v. map_of (IPToPod (drop_outside ips f)) (IP_String ip) = Some v"
    if "map_of (NicToIP f) nic = Some ip" "ipv ip \<in> rlset ips" for nic ip
    using pod [OF that] d(4) [OF that(1)] by simp
  ultimately show ?thesis
    unfolding leases_ok_def nic using d(2,3,5,6) by blast
qed


lemma change_fam_pools:
  assumes s: "sub_ok U s" and pool: "map_of (IPPools s) [] = Some pool" and ips: "rl_in F ips"
    and res: "rl_in F reserved" "rlset reserved \<subseteq> rlset ips"
    and u: "u = rl_Intersect (SUsing (sfam F s)) ips" and free: "free = rl_Separate (rl_Separate ips reserved) u"
    and rp: "refresh_pools F ips reserved (IPPools s) ((pfam F pool)\<lparr>PIPs := ips, PFree := free, PReserved := reserved,
        PReleased := NewEmptyIPRangeList, PUsing := u\<rparr>) = (pools, d1)"
  defines "ps \<equiv> mput [] (set_pfam F (d1\<lparr>PAvailable := PFree d1\<rparr>) pool) pools"
  shows "pools_ok F (rlset ips) (rlset reserved) (rlset (SUsing (sfam F s)) \<inter> rlset ips) (map (\<lambda>(n, p). (n, pfam F p)) ps)"
    "G \<noteq> F \<Longrightarrow> map (\<lambda>(n, p). (n, pfam G p)) ps = pools_of G s" "map_of ps [] \<noteq> None"
    "rl_in F u" "rlset u = rlset (SUsing (sfam F s)) \<inter> rlset ips"
    "rl_in F free" "rlset free = rlset ips - rlset reserved - rlset (SUsing (sfam F s))"
proof -
  let ?U = "rlset ips" and ?R = "rlset reserved" and ?X = "rlset (SUsing (sfam F s)) \<inter> rlset ips"
  let ?g = "refresh_pool F ips reserved"
  note l = sub_okD(2) [OF s, of F] and w = sub_okD(6) [OF s]
  note sd = lists_okD [OF l]
  note D = pools_ok_D [OF sd(8)]
  show u': "rl_in F u" "rlset u = ?X" using rl.wf_isect [OF sd(4) ips] rl.elems_isect [OF sd(4) ips] by (simp_all add: u)
  note sp = rl.wf_sep [OF ips res(1)] rl.elems_sep [OF ips res(1)]
  show f': "rl_in F free" "rlset free = ?U - ?R - rlset (SUsing (sfam F s))"
    using rl.wf_sep [OF sp(1) u'(1)] rl.elems_sep [OF sp(1) u'(1)] sp(2) u'(2) by (auto simp: free)
  have mem: "pool_ok F (U F) (rlset (SReserved (sfam F s))) (rlset (SUsing (sfam F s))) (pfam F p)" "(n, pfam F p) \<in> set (pools_of F s)"
    if "(n, p) \<in> set (IPPools s)" for n p
    using that pool_ok_of [OF l, of n p] w by (simp_all add: mwf_map_of_iff)
  note rf = refresh_pool_ok [OF mem(1) ips res(1)]
  have pools: "pools = map (\<lambda>(n, pool). (n, if n = [] then pool else ?g pool)) (IPPools s)"
    and d1: "d1 = foldl (\<lambda>d (n, pool). if n = [] then d else give_up d (pfam F (?g pool))) ((pfam F pool)\<lparr>PIPs := ips, PFree := free, PReserved := reserved,
        PReleased := NewEmptyIPRangeList, PUsing := u\<rparr>) (IPPools s)"
    using rp by (simp_all add: refresh_pools_eq)
  have wp: "mwf pools" using w by (simp add: pools mwf_def comp_def split_def)
  define qs where "qs = map (\<lambda>(n, p). (n, pfam F p)) pools"
  have "rest_pool F ?U ?R ?X {} ((pfam F pool)\<lparr>PIPs := ips, PFree := free, PReserved := reserved, PReleased := NewEmptyIPRangeList, PUsing := u\<rparr>)"
    using ips res u' f' by (auto simp: rest_pool_def)
  from give_up_all [OF this, of "IPPools s" ?g] rf(1)
  have "rest_pool F ?U ?R ?X (\<Union>(n, pool)\<in>{e \<in> set (IPPools s). fst e \<noteq> []}. rlset (PIPs (pfam F (?g pool)))) d1"
    by (auto simp: d1)
  moreover have "(\<Union>(n, pool)\<in>{e \<in> set (IPPools s). fst e \<noteq> []}. rlset (PIPs (pfam F (?g pool)))) =
      (\<Union>(n, p)\<in>{e \<in> set qs. fst e \<noteq> []}. rlset (PIPs p))"
    by (auto simp: qs_def pools image_image split_def split: if_splits)
  ultimately have rest: "rest_pool F ?U ?R ?X (\<Union>(n, p)\<in>{e \<in> set qs. fst e \<noteq> []}. rlset (PIPs p)) d1" by simp
  have named: "\<exists>p'. p = pfam F (?g p') \<and> (n, p') \<in> set (IPPools s)" if "(n, p) \<in> set qs" "n \<noteq> []" for n p
    using that by (auto simp: qs_def pools)
  have "pools_ok F ?U ?R ?X (mput [] (d1\<lparr>PAvailable := PFree d1\<rparr>) qs)"
  proof (rule refreshed_pools_ok [OF _ res(2) _ _ _ rest])
    show "mwf qs" using wp by (simp add: qs_def mwf_def comp_def split_def)
    show "pool_ok F ?U ?R ?X p" if "(n, p) \<in> set qs" "n \<noteq> []" for n p using named [OF that] rf(1) by blast
    show "rlset (PIPs p) \<inter> rlset (PIPs q) = {}"
      if pq: "(n, p) \<in> set qs" "(m, q) \<in> set qs" "n \<noteq> m" "n \<noteq> []" "m \<noteq> []" for n p m q
    proof -
      obtain p' where p': "p = pfam F (?g p')" "(n, p') \<in> set (IPPools s)" using named pq by blast
      obtain q' where q': "q = pfam F (?g q')" "(m, q') \<in> set (IPPools s)" using named pq by blast
      show ?thesis using D(3) [OF mem(2) [OF p'(2)] mem(2) [OF q'(2)] pq(3)] rf(2) [OF p'(2)] rf(2) [OF q'(2)] p' q' by simp
    qed
  qed auto
  then show "pools_ok F ?U ?R ?X (map (\<lambda>(n, p). (n, pfam F p)) ps)" by (simp add: ps_def map_mput qs_def)
  show "map_of ps [] \<noteq> None" by (simp add: ps_def)
  show "map (\<lambda>(n, p). (n, pfam G p)) ps = pools_of G s" if G: "G \<noteq> F"
  proof -
    have "map (\<lambda>(n, p). (n, pfam G p)) pools = pools_of G s"
      using rf(3) [OF _ G] by (auto simp: pools pools_of_def)
    then show ?thesis
      using G mput_same [of "pools_of G s" "[]" "pfam G pool"] w pool by (simp add: ps_def map_mput map_of_pools_of mwf_pools_of)
  qed
qed

lemma change_fam_ok:
  assumes s: "sub_ok U s" and ips: "usable_list cidrStr = Inr ips" "rl_in F ips"
    and res: "rl_in F reserved" "rlset reserved \<subseteq> rlset ips" and c: "cidr_ok F (rlset ips) (map_option snd (ParseCIDR cidrStr))"
  shows "\<exists>s'. change_fam F cidrStr gw reserved s = Inr s' \<and> sub_ok (U(F := rlset ips)) s'"
proof -
  obtain pool where pool: "map_of (IPPools s) [] = Some pool" using sub_okD(5) [OF s] by blast
  define u where "u = rl_Intersect (SUsing (sfam F s)) ips"
  define free where "free = rl_Separate (rl_Separate ips reserved) u"
  obtain pools d1 where rp: "refresh_pools F ips reserved (IPPools s) ((pfam F pool)\<lparr>PIPs := ips, PFree := free, PReserved := reserved,
        PReleased := NewEmptyIPRangeList, PUsing := u\<rparr>) = (pools, d1)" by fastforce
  define ps where "ps = mput [] (set_pfam F (d1\<lparr>PAvailable := PFree d1\<rparr>) pool) pools"
  define f where "f = drop_outside ips ((sfam F s)\<lparr>FCIDR := map_option snd (ParseCIDR cidrStr), SReserved := reserved, SUsing := u,
      SFree := free, SAvailable := free, Gw := gw\<rparr>)"
  note cp = change_fam_pools [OF s pool ips(2) res u_def free_def rp, folded ps_def]
  have eq: "change_fam F cidrStr gw reserved s = Inr (set_sfam F f (s\<lparr>IPPools := ps\<rparr>))"
    using ips(1) pool rp by (simp add: change_fam_def Let_def u_def free_def f_def ps_def)
  have "leases_ok F (rlset (SUsing f)) (NicToIP f) (IPToPod f)"
    using drop_outside_ok [OF _ ips(2), of "rlset (SUsing (sfam F s))"] sub_okD(3) [OF s, of F] cp(5)
    by (simp add: f_def drop_outside_def)
  then have fo: "fam_ok F (rlset ips) f (map (\<lambda>(n, p). (n, pfam F p)) ps)"
    using cp(1,4-7) res c by (auto simp: fam_ok_def lists_ok_def f_def drop_outside_def)
  have "fam_ok G ((U(F := rlset ips)) G) (sfam G (set_sfam F f (s\<lparr>IPPools := ps\<rparr>))) (pools_of G (set_sfam F f (s\<lparr>IPPools := ps\<rparr>)))" for G
    using fo sub_okD(1) [OF s, of G] cp(2) [of G] by (cases "G = F") (simp_all add: pools_of_def)
  then show ?thesis using eq cp(3) by (simp add: sub_ok_def)
qed

end
