(* ===== verification/Exclude.thy ===== *)
theory Exclude
  imports SubnetNets
begin

text \<open>
  The excluded addresses of a subnet: \<open>ExpandExcludeIPs\<close> of pkg/util/net.go and what the
  allocator reads back from its result. An entry is one address or a range, written with
  the canonical text of addresses; the expansion clips the entries to the usable addresses
  of the networks of the subnet.
\<close>

section \<open>Entries and networks as sets\<close>

text \<open>An entry: whether it is written as a range, its family, its first and its last address.\<close>

type_synonym entry = "bool \<times> fam \<times> IP \<times> IP"

definition etext :: "entry \<Rightarrow> string" where
  "etext e = (case e of (r, F, a, b) \<Rightarrow> if r then ip_string a @ ''..'' @ ip_string b else ip_string a)"

definition entry_ok :: "entry \<Rightarrow> bool" where
  "entry_ok e = (case e of (r, F, a, b) \<Rightarrow> ipok F a \<and> ipok F b \<and> (\<not> r \<longrightarrow> a = b))"

definition entry_in :: "entry \<Rightarrow> bool" where
  "entry_in e = (case e of (r, F, a, b) \<Rightarrow> ip_in F a \<and> ip_in F b \<and> ipv a \<le> ipv b \<and> (\<not> r \<longrightarrow> a = b))"

fun addrs :: "fam \<Rightarrow> entry \<Rightarrow> nat set" where
  "addrs G (r, F, a, b) = (if F = G then {ipv a..ipv b} else {})"

definition eset :: "fam \<Rightarrow> entry list \<Rightarrow> nat set" where
  "eset G es = (\<Union>e\<in>set es. addrs G e)"

type_synonym block = "fam \<times> nat \<times> IPNet"

definition block_ok :: "block \<Rightarrow> bool" where
  "block_ok b = (case b of (F, n, net) \<Rightarrow> net_fit F n net)"

definition btext :: "block \<Rightarrow> string" where
  "btext b = net_string (snd (snd b))"

fun baddrs :: "fam \<Rightarrow> block \<Rightarrow> nat set" where
  "baddrs G (F, n, net) = (if F = G then usable F n net else {})"

definition bset :: "fam \<Rightarrow> block list \<Rightarrow> nat set" where
  "bset G bs = (\<Union>b\<in>set bs. baddrs G b)"

lemma eset_simps [simp]: "eset G [] = {}" "eset G (e # es) = addrs G e \<union> eset G es" "eset G (xs @ ys) = eset G xs \<union> eset G ys"
  by (auto simp: eset_def)

lemma bset_simps [simp]: "bset G [] = {}" "bset G (b # bs) = baddrs G b \<union> bset G bs"
  by (auto simp: bset_def)

lemma etext_simps: "etext (True, F, a, b) = ip_string a @ ''..'' @ ip_string b" "etext (False, F, a, b) = ip_string a"
  by (simp_all add: etext_def)

text \<open>The range cut to one network.\<close>

lemma exclude_range_loop_spec:
  assumes a: "ipok F a" and b: "ipok F b" and bs: "\<forall>x\<in>set bs. block_ok x" and rv: "\<forall>e\<in>set rv. entry_in e"
  shows "\<exists>rv'. exclude_range_loop (ip_string a) (IP2BigInt (ip_string a)) (IP2BigInt (ip_string b)) (map btext bs) (map etext rv) = Inr (map etext rv') \<and>
    (\<forall>e\<in>set rv'. entry_in e) \<and> (\<forall>G. eset G rv' = eset G rv \<union> (addrs G (True, F, a, b) \<inter> bset G bs))"
  using bs rv
proof (induction bs arbitrary: rv)
  case Nil
  then show ?case by auto
next
  case (Cons x bs)
  obtain H n net where x: "x = (H, n, net)" by (cases x)
  have fit: "net_fit H n net" "net_ok H n net" using Cons.prems x by (auto simp: block_ok_def net_fit_def)
  have bsr: "\<forall>x\<in>set bs. block_ok x" using Cons.prems by simp
  show ?case
  proof (cases "H = F")
    case False
    then have "addrs G (True, F, a, b) \<inter> bset G (x # bs) = addrs G (True, F, a, b) \<inter> bset G bs" for G using x by auto
    then show ?thesis
      using Cons.IH [OF bsr Cons.prems(2)] False x CheckProtocol_net [OF fit(2)] CheckProtocol_ip [OF a] by (simp add: btext_def fproto_inj)
  next
    case True
    obtain c d where cd: "FirstIP (net_string net) = Inr (ip_string c)" "LastIP (net_string net) = Inr (ip_string d)"
      "ip_in F c" "ip_in F d" "ipv c \<le> ipv d" "{ipv c..ipv d} = usable F n net" using usable_ends [OF fit(1)] True by metis
    have ok: "ipok F c" "ipok F d" using cd by (simp_all add: ip_in_def)
    define a' where "a' = (if ipv a < ipv c then c else a)"
    define b' where "b' = (if ipv d < ipv b then d else b)"
    have ok': "ipok F a'" "ipok F b'" using a b ok by (auto simp: a'_def b'_def)
    note num = IP2BigInt_text [OF a] IP2BigInt_text [OF b] IP2BigInt_text [OF ok(1)] IP2BigInt_text [OF ok(2)]
    note v = ipv_fbase [OF a] ipv_fbase [OF b] ipv_fbase [OF ok(1)] ipv_fbase [OF ok(2)] ipv_fbase [OF ok'(1)] ipv_fbase [OF ok'(2)]
    have s1: "(if IP2BigInt (ip_string a) < IP2BigInt (ip_string c) then IP2BigInt (ip_string c) else IP2BigInt (ip_string a)) = int (be_nat a')"
      and e1: "(if IP2BigInt (ip_string b) > IP2BigInt (ip_string d) then IP2BigInt (ip_string d) else IP2BigInt (ip_string b)) = int (be_nat b')"
      using v by (auto simp: num a'_def b'_def)
    define rv1 where "rv1 = (if ipv a' = ipv b' then rv @ [(False, F, a', b')] else if ipv a' < ipv b' then rv @ [(True, F, a', b')] else rv)"
    have eqs: "a' = b' \<longleftrightarrow> ipv a' = ipv b'" using ipok_inj [OF ok'] by auto
    have step: "exclude_range_loop (ip_string a) (IP2BigInt (ip_string a)) (IP2BigInt (ip_string b)) (map btext (x # bs)) (map etext rv) =
      exclude_range_loop (ip_string a) (IP2BigInt (ip_string a)) (IP2BigInt (ip_string b)) (map btext bs) (map etext rv1)"
      using x True CheckProtocol_net [OF fit(2)] CheckProtocol_ip [OF a] v(5,6)
      by (simp add: btext_def cd(1,2) Let_def s1 e1 BigInt2Ip_text [OF ok'(1)] BigInt2Ip_text [OF ok'(2)] rv1_def etext_def)
    have i: "{ipv a'..ipv b'} = {ipv a..ipv b} \<inter> usable F n net" unfolding cd(6) [symmetric] by (auto simp: a'_def b'_def)
    have "ip_in F a' \<and> ip_in F b'" if "ipv a' \<le> ipv b'"
      using that cd(3,4) ok' by (auto simp: a'_def b'_def ip_in_def inner_def split: if_splits)
    then have rv1: "\<forall>e\<in>set rv1. entry_in e" "eset G rv1 = eset G rv \<union> (addrs G (True, F, a, b) \<inter> baddrs G x)" for G
      using Cons.prems(2) eqs i x True by (auto simp: rv1_def entry_in_def)
    show ?thesis using Cons.IH [OF bsr rv1(1)] unfolding step rv1(2) by (auto simp: Int_Un_distrib Un_assoc)
  qed
qed


lemma usable_inn: "net_fit F n net \<Longrightarrow> usable F n net \<subseteq> inn F"
  by (erule usable_list_net) (auto simp: rl_in_def)

lemma CIDRContainIP_net:
  assumes n: "net_ok H n net" and a: "ipok F a"
  shows "CIDRContainIP (net_string net) (ip_string a) \<longleftrightarrow> H = F \<and> ipv a \<in> netset H n net"
proof -
  have eq: "net_string net = cidr_text (NetIP net) n" using net_string_eq [OF n] by (simp add: cidr_text_def)
  have t: "text_net H (NetIP net) n = net"
    using masked_base [of "NetIP net" "flen H" n] net_ok_D [OF n] by (cases net) (simp add: text_net_def fbits_def)
  have "text_ok H (NetIP net) n" using n t net_ok_D(1) [OF n] by (simp add: text_ok_def)
  from CIDRContainIP_iff [OF this a] text_addrs_cidr_text [OF this] show ?thesis by (simp add: eq t)
qed

text \<open>The test of one address against one network: it is usable there.\<close>

lemma exclude_ip_test:
  assumes f: "net_fit F n net" and a: "ipok F a"
  obtains bc where "SubnetBroadcast (net_string net) = Inr bc"
    "CIDRContainIP (net_string net) (ip_string a) \<and> ip_string a \<noteq> SubnetNumber (net_string net) \<and> ip_string a \<noteq> bc \<longleftrightarrow> ipv a \<in> usable F n net"
proof -
  have n: "net_ok F n net" "n + 1 \<noteq> fbits F" "n \<le> fbits F" using f by (auto simp: net_fit_def)
  have lt: "2 ^ (fbits F - n) - 1 < (2 :: nat) ^ (fbits F - n)" by simp
  obtain l where l: "ipok F l" "ipv l = ipv (NetIP net) + (2 ^ (fbits F - n) - 1)" "be_nat l = be_nat (NetIP net) + (2 ^ (fbits F - n) - 1)"
    by (rule ip_at [OF n(1) lt])
  note b = net_ok_D(1) [OF n(1)]
  have "int (2 ^ (fbits F - n) - 1) = 2 ^ (fbits F - n) - 1" by (simp add: of_nat_diff)
  then have "int (be_nat l) = IP2BigInt (ip_string (NetIP net)) + (2 ^ (fbits F - n) - 1)"
    unfolding l(3) of_nat_add IP2BigInt_text [OF b] by simp
  then have bc: "SubnetBroadcast (net_string net) = Inr (ip_string l)"
    using n ParseCIDR_net_string [OF n(1)] net_mask_size [OF n(1)] BigInt2Ip_text [OF l(1)] by (simp add: SubnetBroadcast_def)
  have sn: "SubnetNumber (net_string net) = ip_string (NetIP net)"
    using n ParseCIDR_net_string [OF n(1)] net_mask_size [OF n(1)] by (simp add: SubnetNumber_def)
  have eq: "ip_string a = ip_string x \<longleftrightarrow> ipv a = ipv x" if "ipok F x" for x
    using IP_String_inj [OF a that] ipok_inj [OF a that] by (auto simp: IP_String_def)
  have p: "ipv (NetIP net) + 2 ^ (fbits F - n) - 1 = ipv l" using l(2) by simp
  show ?thesis
    by (rule that [OF bc]) (use n p in \<open>auto simp: sn CIDRContainIP_net [OF n(1) a] eq [OF b] eq [OF l(1)] usable_def\<close>)
qed

lemma exclude_ip_loop_spec:
  assumes a: "ipok F a" and bs: "\<forall>x\<in>set bs. block_ok x" and rv: "\<forall>e\<in>set rv. entry_in e"
  shows "\<exists>rv'. exclude_ip_loop (ip_string a) (map btext bs) (map etext rv) = Inr (map etext rv') \<and>
    (\<forall>e\<in>set rv'. entry_in e) \<and> (\<forall>G. eset G rv' = eset G rv \<union> (addrs G (False, F, a, a) \<inter> bset G bs))"
  using bs
proof (induction bs)
  case Nil
  then show ?case using rv by auto
next
  case (Cons x bs)
  obtain H n net where x: "x = (H, n, net)" by (cases x)
  have fit: "net_fit H n net" "net_ok H n net" using Cons.prems x by (auto simp: block_ok_def net_fit_def)
  note pr = CheckProtocol_net [OF fit(2)] CheckProtocol_ip [OF a]
  show ?case
  proof (cases "H = F \<and> ipv a \<in> usable H n net")
    case True
    then obtain bc where "SubnetBroadcast (net_string net) = Inr bc" "CIDRContainIP (net_string net) (ip_string a)"
      "ip_string a \<noteq> SubnetNumber (net_string net)" "ip_string a \<noteq> bc" using exclude_ip_test [OF fit(1), of a] a by metis
    then have res: "exclude_ip_loop (ip_string a) (map btext (x # bs)) (map etext rv) = Inr (map etext (rv @ [(False, F, a, a)]))"
      using pr True by (simp add: x btext_def etext_def)
    have "ip_in F a" using True usable_inn [of F n net] fit(1) a by (auto simp: ip_in_def inner_inn)
    then show ?thesis
      using res rv True x by (intro exI [of _ "rv @ [(False, F, a, a)]"]) (auto simp: entry_in_def)
  next
    case False
    have "exclude_ip_loop (ip_string a) (map btext (x # bs)) (map etext rv) = exclude_ip_loop (ip_string a) (map btext bs) (map etext rv)"
    proof (cases "H = F")
      case True
      then obtain bc where "SubnetBroadcast (net_string net) = Inr bc"
        "\<not> (CIDRContainIP (net_string net) (ip_string a) \<and> ip_string a \<noteq> SubnetNumber (net_string net) \<and> ip_string a \<noteq> bc)"
        using exclude_ip_test [OF fit(1), of a] a False by metis
      then show ?thesis using pr True by (auto simp: x btext_def)
    qed (use pr in \<open>simp add: x btext_def fproto_inj\<close>)
    moreover have "addrs G (False, F, a, a) \<inter> bset G (x # bs) = addrs G (False, F, a, a) \<inter> bset G bs" for G
      using False x by auto
    ultimately show ?thesis using Cons by simp
  qed
qed


text \<open>The loop over the entries: together they stand for what is excluded among the usable addresses.\<close>

lemma exclude_loop_spec:
  assumes es: "\<forall>e\<in>set es. entry_ok e" and bs: "\<forall>x\<in>set bs. block_ok x" and rv: "\<forall>e\<in>set rv. entry_in e"
  shows "\<exists>rv'. exclude_loop (map btext bs) (map etext es) (map etext rv) = Inr (map etext rv') \<and>
    (\<forall>e\<in>set rv'. entry_in e) \<and> (\<forall>G. eset G rv' = eset G rv \<union> (eset G es \<inter> bset G bs))"
  using es rv
proof (induction es arbitrary: rv)
  case Nil
  then show ?case by auto
next
  case (Cons e es)
  obtain r F a b where e: "e = (r, F, a, b)" by (cases e)
  have ok: "ipok F a" "ipok F b" "\<not> r \<Longrightarrow> a = b" using Cons.prems e by (auto simp: entry_ok_def)
  note d = split_dots [OF single_dots_ip_string [OF ipok_valid [OF ok(1)]] single_dots_ip_string [OF ipok_valid [OF ok(2)]]]
  have none: "\<not> str_contains (ip_string a) ''..''"
    using cut_dots_None [OF single_dots_ip_string [OF ipok_valid [OF ok(1)]]] by (simp add: str_contains_def)
  have es': "\<forall>e\<in>set es. entry_ok e" using Cons.prems by simp
  define keep where "keep = (r \<and> ipv b < ipv a)"
  obtain rv1 where rv1: "exclude_loop (map btext bs) (map etext (e # es)) (map etext rv) = exclude_loop (map btext bs) (map etext es) (map etext rv1)"
    "\<forall>e\<in>set rv1. entry_in e" "\<forall>G. eset G rv1 = eset G rv \<union> (addrs G e \<inter> bset G bs)"
  proof (cases r)
    case False
    obtain rv' where rv': "exclude_ip_loop (ip_string a) (map btext bs) (map etext rv) = Inr (map etext rv')"
      "\<forall>e\<in>set rv'. entry_in e" "\<forall>G. eset G rv' = eset G rv \<union> (addrs G (False, F, a, a) \<inter> bset G bs)"
      using exclude_ip_loop_spec [OF ok(1) bs Cons.prems(2)] by blast
    show ?thesis by (rule that [of rv']) (use rv' False e ok(3) none in \<open>auto simp: etext_def\<close>)
  next
    case True
    have sp: "str_contains (etext e) ''..''" "split ''..'' (etext e) = [ip_string a, ip_string b]" using d True e by (simp_all add: etext_def)
    have le: "IP2BigInt (ip_string a) > IP2BigInt (ip_string b) \<longleftrightarrow> ipv b < ipv a"
      using IP2BigInt_text [OF ok(1)] IP2BigInt_text [OF ok(2)] ipv_fbase [OF ok(1)] ipv_fbase [OF ok(2)] by simp
    have pr: "CheckProtocol (ip_string a) = CheckProtocol (ip_string b)" using CheckProtocol_ip ok by simp
    show ?thesis
    proof (cases "ipv b < ipv a")
      case lt: True
      show ?thesis by (rule that [of rv]) (use lt sp le pr e Cons.prems in \<open>auto simp: Let_def\<close>)
    next
      case ge: False
      obtain rv' where rv': "exclude_range_loop (ip_string a) (IP2BigInt (ip_string a)) (IP2BigInt (ip_string b)) (map btext bs) (map etext rv) = Inr (map etext rv')"
        "\<forall>e\<in>set rv'. entry_in e" "\<forall>G. eset G rv' = eset G rv \<union> (addrs G (True, F, a, b) \<inter> bset G bs)"
        using exclude_range_loop_spec [OF ok(1,2) bs Cons.prems(2)] by blast
      show ?thesis by (rule that [of rv']) (use rv' ge sp le pr e True in \<open>auto simp: Let_def\<close>)
    qed
  qed
  from Cons.IH [OF es' rv1(2)] rv1(1,3) show ?case by (auto simp: Int_Un_distrib2 Un_assoc)
qed

lemma split_blocks: "\<forall>x\<in>set bs. block_ok x \<Longrightarrow> bs \<noteq> [] \<Longrightarrow> split_char CHR '','' (join '','' (map btext bs)) = map btext bs"
  using net_string_no_comma by (intro split_char_join) (fastforce simp: block_ok_def net_fit_def btext_def)+

lemma ExpandExcludeIPs_spec:
  assumes "\<forall>e\<in>set es. entry_ok e" "\<forall>x\<in>set bs. block_ok x" "bs \<noteq> []"
  obtains rv where "ExpandExcludeIPs (map etext es) (join '','' (map btext bs)) = Inr (map etext rv)"
    "\<forall>e\<in>set rv. entry_in e" "\<And>G. eset G rv = eset G es \<inter> bset G bs"
  using exclude_loop_spec [OF assms(1,2), of "[]"] split_blocks [OF assms(2,3)] by (auto simp: ExpandExcludeIPs_def)

section \<open>Reading the entries\<close>

lemma parse_range_etext:
  assumes "entry_in (r, F, a, b)"
  shows "parse_range (etext (r, F, a, b)) = Inr (NewIPRange a b)"
proof (cases r)
  case True
  then show ?thesis using parse_range_text [of F a b] assms by (simp add: etext_def entry_in_def ip_in_def)
next
  case False
  have a: "ipok F a" "a = b" using assms False by (auto simp: entry_in_def ip_in_def)
  have "\<not> str_contains (ip_string a) ''..''"
    using cut_dots_None [OF single_dots_ip_string [OF ipok_valid [OF a(1)]]] by (simp add: str_contains_def)
  then show ?thesis
    using False a NewIP_String [OF a(1)] ip_string_no_slash [OF ipok_valid [OF a(1)]]
    by (simp add: etext_def parse_range_def IP_String_def)
qed

lemma range_list_from_entries:
  assumes "\<forall>e\<in>set es. entry_in e \<and> fst (snd e) = F" "rl_in F l"
  shows "\<exists>l'. range_list_from l (map etext es) = Inr l' \<and> rl_in F l' \<and> rlset l' = rlset l \<union> eset F es"
  using assms
proof (induction es arbitrary: l)
  case (Cons e es)
  obtain r a b where e: "e = (r, F, a, b)" using Cons.prems by (cases e) auto
  have ei: "entry_in (r, F, a, b)" using Cons.prems e by auto
  then have s: "rl_in F [NewIPRange a b]" "rlset [NewIPRange a b] = {ipv a..ipv b}"
    using rl_ok_single [of F "NewIPRange a b"] by (auto simp: entry_in_def ip_in_def rl_in_def rok_def inner_def inn_def rset_def)
  note m = rl.wf_mrg [OF Cons.prems(2) s(1)] rl.elems_mrg [OF Cons.prems(2) s(1)]
  obtain l' where "range_list_from (rl_Merge l [NewIPRange a b]) (map etext es) = Inr l'" "rl_in F l'"
    "rlset l' = rlset (rl_Merge l [NewIPRange a b]) \<union> eset F es" using Cons.IH [OF _ m(1)] Cons.prems(1) by auto
  then show ?case using m(2) s(2) parse_range_etext [OF ei] e by (auto simp: Un_assoc)
qed simp

lemma is_v4_etext: "entry_in (r, F, a, b) \<Longrightarrow> is_v4_entry (etext (r, F, a, b)) \<longleftrightarrow> F = F4"
proof -
  assume "entry_in (r, F, a, b)"
  then have ok: "ipok F a" "ipok F b" by (auto simp: entry_in_def ip_in_def)
  have "hd (split ''..'' (etext (r, F, a, b))) = ip_string a"
    using split_dots [OF single_dots_ip_string [OF ipok_valid [OF ok(1)]] single_dots_ip_string [OF ipok_valid [OF ok(2)]]]
    by (simp add: etext_def)
  then show ?thesis using CheckProtocol_ip [OF ok(1)] by (cases F) (simp_all add: is_v4_entry_def protocol_distinct)
qed

text \<open>The two lists of reserved addresses of \<open>NewSubnet\<close> and \<open>AddOrUpdateSubnet\<close>.\<close>

lemma split_entries:
  assumes "\<forall>e\<in>set es. entry_in e"
  shows "(case F of F4 \<Rightarrow> fst | F6 \<Rightarrow> snd) (SplitIpsByProtocol (map etext es)) = map etext (filter (\<lambda>e. fst (snd e) = F) es)"
    "eset F (filter (\<lambda>e. fst (snd e) = F) es) = eset F es"
proof -
  have "filter is_v4_entry (map etext es) = map etext (filter (\<lambda>e. fst (snd e) = F4) es)"
    "filter (\<lambda>t. \<not> is_v4_entry t) (map etext es) = map etext (filter (\<lambda>e. fst (snd e) = F6) es)"
  proof -
    have e: "is_v4_entry (etext e) \<longleftrightarrow> fst (snd e) = F4" if "e \<in> set es" for e
      using is_v4_etext assms that by (cases e) auto
    have f: "fst (snd e) \<noteq> F4 \<longleftrightarrow> fst (snd e) = F6" for e :: entry by (cases "fst (snd e)") auto
    show "filter is_v4_entry (map etext es) = map etext (filter (\<lambda>e. fst (snd e) = F4) es)"
      "filter (\<lambda>t. \<not> is_v4_entry t) (map etext es) = map etext (filter (\<lambda>e. fst (snd e) = F6) es)"
      using e by (simp_all add: filter_map f cong: filter_cong)
  qed
  then show "(case F of F4 \<Rightarrow> fst | F6 \<Rightarrow> snd) (SplitIpsByProtocol (map etext es)) = map etext (filter (\<lambda>e. fst (snd e) = F) es)"
    by (cases F) (simp_all add: SplitIpsByProtocol_def)
  have "addrs F e = {}" if "fst (snd e) \<noteq> F" for e using that by (cases e) auto
  then show "eset F (filter (\<lambda>e. fst (snd e) = F) es) = eset F es" unfolding eset_def by fastforce
qed

lemma NewIPRangeListFrom_entries:
  assumes es: "\<forall>e\<in>set es. entry_in e"
  obtains l where "NewIPRangeListFrom ((case F of F4 \<Rightarrow> fst | F6 \<Rightarrow> snd) (SplitIpsByProtocol (map etext es))) = Inr l"
    "rl_in F l" "rlset l = eset F es"
proof -
  let ?es = "filter (\<lambda>e. fst (snd e) = F) es"
  have "\<forall>e\<in>set ?es. entry_in e \<and> fst (snd e) = F" using es by simp
  from range_list_from_entries [OF this rl.wf_empty] obtain l where
    "range_list_from NewEmptyIPRangeList (map etext ?es) = Inr l" "rl_in F l" "rlset l = eset F es"
    using rl.elems_empty split_entries(2) [OF es, of F] by auto
  then show ?thesis using that split_entries(1) [OF es, of F] by (simp add: NewIPRangeListFrom_def NewEmptyIPRangeList_def)
qed

end
