(* ===== verification/IPAMInv.thy ===== *)
theory IPAMInv
  imports Exclude
begin

text \<open>
  The invariant of the whole allocator, and the states it can reach. Every method of
  pkg/ipam/ipam.go that changes the state is a step; \<open>op_ok\<close> says what is asked of its
  arguments. Rule induction over the steps shows that every reachable state satisfies the
  invariant of all its subnets.
\<close>

definition ipam_ok :: "IPAM \<Rightarrow> bool" where
  "ipam_ok ipam = (mwf (Subnets ipam) \<and> (\<forall>name s. map_of (Subnets ipam) name = Some s \<longrightarrow> (\<exists>U. sub_ok U s)))"

lemma ipam_ok_set: "ipam_ok ipam \<Longrightarrow> sub_ok U s \<Longrightarrow> ipam_ok (set_subnet name s ipam)"
  by (auto simp: ipam_ok_def set_subnet_def)

lemma ipam_okD: "ipam_ok ipam \<Longrightarrow> map_of (Subnets ipam) name = Some s \<Longrightarrow> \<exists>U. sub_ok U s"
  by (auto simp: ipam_ok_def)

section \<open>Subnets\<close>

definition blocks :: "nets \<Rightarrow> block list" where
  "blocks nets = concat (map (\<lambda>F. case nets F of None \<Rightarrow> [] | Some (n, net) \<Rightarrow> [(F, n, net)]) [F4, F6])"

lemma blocks_nets:
  assumes "nets_fit nets"
  shows "nets_text nets = join '','' (map btext (blocks nets))" "\<forall>x\<in>set (blocks nets). block_ok x" "blocks nets \<noteq> []"
    "bset G (blocks nets) = nets_usable nets G"
proof -
  show "nets_text nets = join '','' (map btext (blocks nets))"
    using assms by (rule nets_cases) (simp_all add: nets_text_def net_texts_def blocks_def btext_def)
  show "\<forall>x\<in>set (blocks nets). block_ok x" "blocks nets \<noteq> []"
    using assms by (rule nets_cases, simp_all add: blocks_def block_ok_def)+
  show "bset G (blocks nets) = nets_usable nets G"
    using assms by (rule nets_cases) (cases G; simp add: blocks_def nets_usable_def)+
qed

text \<open>The lists of reserved addresses: what the entries exclude of the usable addresses.\<close>

lemma exclude_nets:
  assumes "nets_fit nets" "\<forall>e\<in>set es. entry_ok e"
  obtains rv where "ExpandExcludeIPs (map etext es) (nets_text nets) = Inr (map etext rv)" "\<forall>e\<in>set rv. entry_in e"
    "\<And>G. eset G rv = eset G es \<inter> nets_usable nets G"
  using ExpandExcludeIPs_spec [OF assms(2) blocks_nets(2,3) [OF assms(1)]] blocks_nets(1,4) [OF assms(1)] by metis

lemma entry_in_ok: "entry_in e \<Longrightarrow> entry_ok e"
  by (auto simp: entry_in_def entry_ok_def ip_in_def)

lemma NewSubnet_total:
  assumes n: "nets_fit nets" and es: "\<forall>e\<in>set es. entry_ok e"
  shows "\<exists>s. NewSubnet draws name (nets_text nets) (map etext es) = Inr s \<and> reserved_ok (nets_usable nets) s \<and>
    (\<forall>F. rlset (SReserved (sfam F s)) = eset F es \<inter> nets_usable nets F)"
proof -
  obtain rv where rv: "ExpandExcludeIPs (map etext es) (nets_text nets) = Inr (map etext rv)" "\<forall>e\<in>set rv. entry_in e"
    "\<And>G. eset G rv = eset G es \<inter> nets_usable nets G" using exclude_nets [OF assms] by blast
  obtain v4 v6 where v: "SplitIpsByProtocol (map etext rv) = (v4, v6)" by fastforce
  obtain r4 where r4: "NewIPRangeListFrom v4 = Inr r4" "rl_in F4 r4" "rlset r4 = eset F4 rv"
    using NewIPRangeListFrom_entries [OF rv(2), of F4] v by auto
  obtain r6 where r6: "NewIPRangeListFrom v6 = Inr r6" "rl_in F6 r6" "rlset r6 = eset F6 rv"
    using NewIPRangeListFrom_entries [OF rv(2), of F6] v by auto
  obtain l where l: "subnet_ranges (CheckProtocol (nets_text nets)) (nets_text nets)
      (net_list nets) = Inr ((map_option snd (nets F4), l F4), (map_option snd (nets F6), l F6))"
    using subnet_ranges_nets [OF n] by metis
  obtain s where s: "NewSubnet draws name (nets_text nets) (map etext es) = Inr s" "SReserved (SV4 s) = r4" "SReserved (SV6 s) = r6"
    using parse_cidrs_texts [OF n] split_nets_text [OF n] rv(1) v r4(1) r6(1) l
    by (simp add: NewSubnet_def Let_def new_fam_def)
  have "rl_in F (SReserved (sfam F s)) \<and> rlset (SReserved (sfam F s)) = eset F es \<inter> nets_usable nets F" for F
    using r4 r6 rv(3) s by (cases F) simp_all
  then show ?thesis using s(1) by (auto simp: reserved_ok_def)
qed

lemma update_fam_ok:
  assumes s: "sub_ok U s" and r: "rl_in F reserved"
    and own: "protocol = ProtocolDual \<or> protocol = fproto F \<Longrightarrow> \<exists>n net. net_fit F n net \<and> cidrStr = net_string net \<and> rlset reserved \<subseteq> usable F n net"
  shows "\<exists>s' U'. update_fam F protocol cidrStr gw reserved s = Inr s' \<and> sub_ok U' s'"
proof (cases "(protocol = ProtocolDual \<or> protocol = fproto F) \<and>
         (cidr_string (FCIDR (sfam F s)) \<noteq> cidrStr \<or> Gw (sfam F s) \<noteq> gw \<or> \<not> rl_Equal (SReserved (sfam F s)) reserved)")
  case False
  then have "update_fam F protocol cidrStr gw reserved s = Inr s"
    unfolding update_fam_def Let_def by (cases F) auto
  then show ?thesis using s by blast
next
  case True
  then have eq: "update_fam F protocol cidrStr gw reserved s = change_fam F cidrStr gw reserved s"
    unfolding update_fam_def Let_def by (cases F) auto
  obtain n net where n: "net_fit F n net" "cidrStr = net_string net" "rlset reserved \<subseteq> usable F n net" using own True by blast
  obtain l where l: "usable_list (net_string net) = Inr l" "rl_in F l" "rlset l = usable F n net" using usable_list_net [OF n(1)] .
  have "cidr_ok F (rlset l) (map_option snd (ParseCIDR cidrStr))"
    using cidr_ok_net [OF n(1)] ParseCIDR_net_string [of F n net] n l by (simp add: net_fit_def)
  then show ?thesis using change_fam_ok [OF s l(1) [folded n(2)] l(2) r] n(3) l(3) unfolding eq by blast
qed

lemma drop_macs_ok [simp]: "sub_ok U (drop_macs s) = sub_ok U s"
  by (simp add: drop_macs_def Let_def)


text \<open>A text of a subnet: none, for a subnet without addresses, or its networks.\<close>

definition cidr_text_ok :: "string \<Rightarrow> bool" where
  "cidr_text_ok cidrStr = (cidrStr = [] \<or> (\<exists>nets. nets_fit nets \<and> cidrStr = nets_text nets))"

definition exclude_ok :: "string list \<Rightarrow> bool" where
  "exclude_ok ex = (\<exists>es. (\<forall>e\<in>set es. entry_ok e) \<and> ex = map etext es)"

lemma update_subnet_ok:
  assumes s: "sub_ok U s" and n: "nets_fit nets" and rv: "\<forall>e\<in>set rv. entry_in e" "\<And>G. eset G rv \<subseteq> nets_usable nets G"
    and c: "\<And>F n net. nets F = Some (n, net) \<Longrightarrow> cidr F = net_string net"
  shows "\<exists>U'. sub_ok U' (fst (update_subnet (CheckProtocol (nets_text nets)) (cidr F4) (cidr F6) g4 g6 (map etext rv) s))"
    "snd (update_subnet (CheckProtocol (nets_text nets)) (cidr F4) (cidr F6) g4 g6 (map etext rv) s) = None"
proof -
  let ?p = "CheckProtocol (nets_text nets)"
  obtain v4 v6 where v: "SplitIpsByProtocol (map etext rv) = (v4, v6)" by fastforce
  obtain r4 where r4: "NewIPRangeListFrom v4 = Inr r4" "rl_in F4 r4" "rlset r4 = eset F4 rv"
    using NewIPRangeListFrom_entries [OF rv(1), of F4] v by auto
  obtain r6 where r6: "NewIPRangeListFrom v6 = Inr r6" "rl_in F6 r6" "rlset r6 = eset F6 rv"
    using NewIPRangeListFrom_entries [OF rv(1), of F6] v by auto
  have own: "\<exists>k net. net_fit F k net \<and> cidr F = net_string net \<and> eset F rv \<subseteq> usable F k net" if "?p = ProtocolDual \<or> ?p = fproto F" for F
  proof -
    have "nets F \<noteq> None"
      using n that unfolding nets_protocol [OF n] by (cases rule: nets_cases) (cases F; auto simp: protocol_distinct)+
    then obtain k net where "nets F = Some (k, net)" by auto
    then show ?thesis using n c rv(2) [of F] by (intro exI [of _ k] exI [of _ net]) (auto simp: nets_fit_def nets_usable_def)
  qed
  obtain s1 U1 where s1: "v4_update ?p (cidr F4) g4 r4 (s\<lparr>Protocol := ?p\<rparr>) = Inr s1" "sub_ok U1 s1"
    using update_fam_ok [of U "s\<lparr>Protocol := ?p\<rparr>" F4 r4 ?p "cidr F4" g4] s r4 own [of F4] by (auto simp: v4_update_def)
  obtain s2 U2 where s2: "v6_update ?p (cidr F6) g6 r6 s1 = Inr s2" "sub_ok U2 s2"
    using update_fam_ok [OF s1(2) r6(2), of ?p "cidr F6" g6] r6 own [of F6] by (auto simp: v6_update_def)
  have "update_subnet ?p (cidr F4) (cidr F6) g4 g6 (map etext rv) s = (drop_macs s2, None)"
    using v r4(1) r6(1) s1(1) s2(1) by (simp add: update_subnet_def Let_def)
  then show "\<exists>U'. sub_ok U' (fst (update_subnet ?p (cidr F4) (cidr F6) g4 g6 (map etext rv) s))"
    "snd (update_subnet ?p (cidr F4) (cidr F6) g4 g6 (map etext rv) s) = None" using s2(2) by auto
qed

lemma subnet_parts_nets:
  assumes n: "nets_fit nets" and p: "subnet_parts name (CheckProtocol (nets_text nets)) gw (net_list nets) = Inr (c4, c6, g4, g6)"
    and F: "nets F = Some (k, net)"
  shows "(case F of F4 \<Rightarrow> c4 | F6 \<Rightarrow> c6) = net_string net"
  using n p F unfolding nets_protocol [OF n]
  by (cases rule: nets_cases) (cases F; auto simp: subnet_parts_def protocol_distinct net_list_def Let_def split: if_splits)+

lemma mac_only_ok: "sub_ok (\<lambda>F. {}) (NewMacOnlySubnet draws name)"
proof -
  have "fam_ok F {} empty_fam [([], empty_pool_fam)]" for F using fam_ok_none [of F "[]"] by (simp add: empty_fam_def)
  then have "fam_ok F {} (sfam F (NewMacOnlySubnet draws name)) (pools_of F (NewMacOnlySubnet draws name))" for F
    by (cases F) (simp_all add: NewMacOnlySubnet_def pools_of_def)
  then show ?thesis by (simp add: sub_ok_def NewMacOnlySubnet_def)
qed

lemma AddOrUpdateSubnet_ok:
  assumes i: "ipam_ok ipam" and c: "cidr_text_ok cidrStr" and x: "exclude_ok excludeIps"
  shows "ipam_ok (fst (AddOrUpdateSubnet draws name cidrStr gw excludeIps ipam))"
proof (cases "cidrStr = []")
  case True
  then show ?thesis
    using i ipam_okD [OF i] mac_only_ok [of draws name]
    by (fastforce simp: AddOrUpdateSubnet_def intro: ipam_ok_set split: option.splits)
next
  case False
  then obtain nets where n: "nets_fit nets" "cidrStr = nets_text nets" using c by (auto simp: cidr_text_ok_def)
  obtain es where es: "\<forall>e\<in>set es. entry_ok e" "excludeIps = map etext es" using x by (auto simp: exclude_ok_def)
  obtain rv where rv: "ExpandExcludeIPs excludeIps cidrStr = Inr (map etext rv)" "\<forall>e\<in>set rv. entry_in e"
    "\<And>G. eset G rv \<subseteq> nets_usable nets G" using exclude_nets [OF n(1) es(1)] n(2) es(2) by (metis Int_lower2)
  note pc = parse_cidrs_texts [OF n(1)] split_nets_text [OF n(1)]
  show ?thesis
  proof (cases "subnet_parts name (CheckProtocol cidrStr) gw (net_list nets)")
    case (Inl e)
    then show ?thesis using False rv(1) pc n i by (simp add: AddOrUpdateSubnet_def Let_def)
  next
    case (Inr q)
    obtain c4 c6 g4 g6 where q: "q = (c4, c6, g4, g6)" by (cases q)
    define cidr where "cidr = (\<lambda>F. case F of F4 \<Rightarrow> c4 | F6 \<Rightarrow> c6)"
    have cidr: "cidr F = net_string net" if "nets F = Some (k, net)" for F k net
      using subnet_parts_nets [OF n(1) _ that] Inr q n(2) by (simp add: cidr_def)
    show ?thesis
    proof (cases "map_of (Subnets ipam) name")
      case (Some s)
      then obtain U where s: "sub_ok U s" using ipam_okD [OF i] by blast
      obtain U' where "sub_ok U' (fst (update_subnet (CheckProtocol cidrStr) c4 c6 g4 g6 (map etext rv) s))"
        using update_subnet_ok(1) [of U s nets rv cidr g4 g6] s n rv(2,3) cidr by (auto simp: cidr_def)
      then show ?thesis
        using False rv(1) pc n Inr q Some ipam_ok_set [OF i] by (simp add: AddOrUpdateSubnet_def Let_def split_beta)
    next
      case None
      have "\<forall>e\<in>set rv. entry_ok e" using rv(2) entry_in_ok by blast
      then obtain s where s: "NewSubnet draws name cidrStr (map etext rv) = Inr s" "reserved_ok (nets_usable nets) s"
        using NewSubnet_total [OF n(1)] n(2) by metis
      have "sub_ok (nets_usable nets) (s\<lparr>SV4 := (SV4 s)\<lparr>Gw := g4\<rparr>, SV6 := (SV6 s)\<lparr>Gw := g6\<rparr>\<rparr>)"
        using NewSubnet_ok(1) [OF n(1)] s n(2) by blast
      then show ?thesis
        using False rv(1) pc n Inr q None s(1) ipam_ok_set [OF i] by (simp add: AddOrUpdateSubnet_def add_new_subnet_def Let_def)
    qed
  qed
qed


section \<open>Leases\<close>

text \<open>The texts of a call that the invariant can carry: no comma in a pod name, addresses in canonical families.\<close>

definition pod_ok :: "string \<Rightarrow> bool" where
  "pod_ok podName = (CHR '','' \<notin> set podName)"

definition statics_ok :: "string \<Rightarrow> bool" where
  "statics_ok ip = (\<forall>t\<in>set (split_char CHR '','' ip). \<forall>a. NewIP t = Inr a \<longrightarrow> (\<exists>G. ipok G a))"

lemma skips_ok_Nil [simp]: "skips_ok []"
  by (simp add: skips_ok_def parse_skipped_def)

lemma parse_static_ok:
  "parse_static fam ts = Inr ips \<Longrightarrow> \<forall>t\<in>set ts. \<forall>a. NewIP t = Inr a \<longrightarrow> (\<exists>G. ipok G a) \<Longrightarrow> \<forall>a\<in>set ips. \<exists>G. ipok G a"
  by (induction ts arbitrary: ips) (auto split: sum.splits if_splits)

lemma take_statics_ok:
  assumes "sub_ok U s" "pod_ok pod" "\<forall>a\<in>set staticIPs. \<exists>G. ipok G a"
  shows "sub_ok U (fst (take_statics pod nic mac True staticIPs ips m s))"
  using assms(1,3)
proof (induction staticIPs arbitrary: s ips m)
  case (Cons ip staticIPs)
  obtain G where G: "ipok G ip" using Cons.prems by auto
  obtain s1 r where s1: "GetStaticAddress pod nic ip mac False True s = (s1, r)" by fastforce
  have ok: "sub_ok U s1" using GetStaticAddress_ok [OF Cons.prems(1) G, of pod nic mac] assms(2) s1 by (simp add: pod_ok_def)
  obtain s2 where "ReleaseAddressWithNicName pod nic s1 = Inr s2" "sub_ok U s2" using ReleaseAddressWithNicName_ok [OF ok] by blast
  then show ?case using s1 ok Cons.IH [OF ok] Cons.prems(2) by (simp split: sum.splits)
qed simp

lemma checkAndAppend_ok:
  assumes "sub_ok U s" "pod_ok pod"
  shows "sub_ok U (fst (checkAndAppendIpsForDual ips mac pod nic True s))"
  using getV4_ok [OF assms(1) skips_ok_Nil, of pod] assms by (simp add: checkAndAppendIpsForDual_def pod_ok_def split_beta split: sum.splits)

lemma static_in_subnet_ok:
  assumes s: "sub_ok U s" and p: "pod_ok pod" and ip: "statics_ok ip"
  shows "sub_ok U (fst (static_in_subnet pod nic ip mac fam True s))"
proof -
  have rand: "sub_ok U (fst (GetRandomAddress [] pod nic mac [] True s))"
    using GetRandomAddressWithFamily_ok [OF s skips_ok_Nil] p by (simp add: GetRandomAddress_def pod_ok_def)
  have t: "sub_ok U (fst (take_statics pod nic mac True ips [] [] s))" if "parse_static fam (split_char CHR '','' ip) = Inr ips" for ips
    using take_statics_ok [OF s p] parse_static_ok [OF that] ip by (simp add: statics_ok_def)
  have "sub_ok U (fst (checkAndAppendIpsForDual js m pod nic True s1))"
    if "parse_static fam (split_char CHR '','' ip) = Inr ips" "take_statics pod nic mac True ips [] [] s = (s1, r)" for ips s1 r js m
    using checkAndAppend_ok [OF _ p] t [OF that(1)] that(2) by simp
  then show ?thesis
    using rand t s by (auto simp: static_in_subnet_def split_beta split: sum.splits) (metis prod.collapse)+
qed

lemma release_all_ok:
  assumes g: "\<And>s U. sub_ok U s \<Longrightarrow> \<exists>s'. g s = Inr s' \<and> sub_ok U s'"
  shows "\<forall>(n, s)\<in>set m. \<exists>U. sub_ok U s \<Longrightarrow>
    \<exists>m'. release_all g m = Inr m' \<and> map fst m' = map fst m \<and> (\<forall>(n, s)\<in>set m'. \<exists>U. sub_ok U s)"
proof (induction m)
  case (Cons e m)
  obtain n s where e: "e = (n, s)" by (cases e)
  obtain U where "sub_ok U s" using Cons.prems e by auto
  then obtain s' where "g s = Inr s'" "sub_ok U s'" using g by blast
  with Cons e show ?case by auto
qed simp

lemma release_in_ok:
  assumes i: "ipam_ok ipam" and g: "\<And>s U. sub_ok U s \<Longrightarrow> \<exists>s'. g s = Inr s' \<and> sub_ok U s'"
  shows "\<exists>ipam'. release_in g subnetName ipam = Inr ipam' \<and> ipam_ok ipam'"
proof (cases "subnetName = []")
  case True
  have w: "mwf (Subnets ipam)" using i by (simp add: ipam_ok_def)
  then have "\<forall>(n, s)\<in>set (Subnets ipam). \<exists>U. sub_ok U s" using i by (auto simp: ipam_ok_def mwf_map_of_iff)
  then obtain m' where m': "release_all g (Subnets ipam) = Inr m'" "map fst m' = map fst (Subnets ipam)"
    "\<forall>(n, s)\<in>set m'. \<exists>U. sub_ok U s" using release_all_ok [of g "Subnets ipam"] g by metis
  have w': "mwf m'" using w m'(2) by (simp add: mwf_def)
  have "ipam_ok (ipam\<lparr>Subnets := m'\<rparr>)" using w' m'(3) by (auto simp: ipam_ok_def mwf_map_of_iff)
  then show ?thesis using True m'(1) by (simp add: release_in_def)
next
  case False
  show ?thesis
  proof (cases "map_of (Subnets ipam) subnetName")
    case None
    then show ?thesis using False i by (simp add: release_in_def)
  next
    case (Some s)
    obtain U where "sub_ok U s" using ipam_okD [OF i Some] by blast
    then obtain s' where "g s = Inr s'" "sub_ok U s'" using g by blast
    then show ?thesis using False Some ipam_ok_set [OF i] by (simp add: release_in_def)
  qed
qed

section \<open>The calls as steps\<close>

text \<open>
  One constructor for each method that changes the state; the arguments are those of the
  method but for \<open>checkConflict\<close>, which is \<open>true\<close>: the calls that share an address between
  pods on purpose are left out.
\<close>

datatype ipam_op =
    AddSubnet "bytes list" string string string "string list"
  | DelSubnet string
  | GetRandom string string "string option" string string string "string list"
  | GetStatic string string string "string option" string string
  | ReleasePod string string
  | ReleaseNic string string string
  | AddPool string string "string list"
  | DelPool string string
  | GatewayMac string string

text \<open>What is asked of the arguments.\<close>

fun op_ok :: "ipam_op \<Rightarrow> IPAM \<Rightarrow> bool" where
  "op_ok (AddSubnet draws name cidr gw ex) ipam = (cidr_text_ok cidr \<and> exclude_ok ex)"
| "op_ok (GetRandom pod nic mac subnet pool fam skipped) ipam = (pod_ok pod \<and> skips_ok skipped)"
| "op_ok (GetStatic pod nic ip mac subnet fam) ipam = (pod_ok pod \<and> statics_ok ip)"
| "op_ok (AddPool subnet pool ips) ipam = (pool \<noteq> [] \<and> (\<forall>s. map_of (Subnets ipam) subnet = Some s \<longrightarrow> pool_texts_ok ips s))"
| "op_ok (DelPool subnet pool) ipam = (pool \<noteq> [])"
| "op_ok _ ipam = True"

inductive ipam_step :: "IPAM \<Rightarrow> ipam_op \<Rightarrow> IPAM \<Rightarrow> bool" where
  add_subnet: "AddOrUpdateSubnet draws name cidr gw ex ipam = (ipam', r) \<Longrightarrow>
    ipam_step ipam (AddSubnet draws name cidr gw ex) ipam'"
| del_subnet: "ipam_step ipam (DelSubnet name) (DeleteSubnet name ipam)"
| get_random: "IPAM_GetRandomAddressWithFamily pod nic mac subnet pool fam skipped True ipam = (ipam', r1) \<Longrightarrow>
    ipam_step ipam (GetRandom pod nic mac subnet pool fam skipped) ipam'"
| get_static: "IPAM_GetStaticAddressWithFamily pod nic ip mac subnet fam True ipam = (ipam', r1) \<Longrightarrow>
    ipam_step ipam (GetStatic pod nic ip mac subnet fam) ipam'"
| release_pod: "ReleaseAddressByPod pod subnet ipam = Inr ipam' \<Longrightarrow> ipam_step ipam (ReleasePod pod subnet) ipam'"
| release_nic: "ReleaseAddressByNic pod nic subnet ipam = Inr ipam' \<Longrightarrow> ipam_step ipam (ReleaseNic pod nic subnet) ipam'"
| add_pool: "IPAM_AddOrUpdateIPPool subnet pool ips ipam = (ipam', r) \<Longrightarrow> ipam_step ipam (AddPool subnet pool ips) ipam'"
| del_pool: "IPAM_RemoveIPPool subnet pool ipam = Inr ipam' \<Longrightarrow> ipam_step ipam (DelPool subnet pool) ipam'"
| gateway_mac: "RecordGatewayMAC subnet mac ipam = (ipam', r) \<Longrightarrow> ipam_step ipam (GatewayMac subnet mac) ipam'"

inductive reachable :: "IPAM \<Rightarrow> bool" where
  start: "reachable NewIPAM"
| step: "reachable ipam \<Longrightarrow> op_ok a ipam \<Longrightarrow> ipam_step ipam a ipam' \<Longrightarrow> reachable ipam'"

lemma ipam_step_ok:
  assumes "ipam_step ipam a ipam'" "op_ok a ipam" "ipam_ok ipam"
  shows "ipam_ok ipam'"
  using assms
proof (induction rule: ipam_step.induct)
  case (add_subnet draws name cidr gw ex ipam ipam' r)
  then show ?case using AddOrUpdateSubnet_ok [of ipam cidr ex draws name gw] by simp
next
  case (del_subnet ipam name)
  then show ?case by (auto simp: ipam_ok_def DeleteSubnet_def split: if_splits)
next
  case (get_random pod nic mac subnet pool fam skipped ipam ipam' r1)
  then have "ipam_ok (fst (IPAM_GetRandomAddressWithFamily pod nic mac subnet pool fam skipped True ipam))"
    using ipam_okD [of ipam subnet] GetRandomAddressWithFamily_ok ipam_ok_set
    by (fastforce simp: IPAM_GetRandomAddressWithFamily_def Let_def pod_ok_def split_beta split: option.splits sum.splits)
  then show ?case using get_random by simp
next
  case (get_static pod nic ip mac subnet fam ipam ipam' r1)
  then have "ipam_ok (fst (IPAM_GetStaticAddressWithFamily pod nic ip mac subnet fam True ipam))"
    using ipam_okD [of ipam subnet] static_in_subnet_ok ipam_ok_set
    by (fastforce simp: IPAM_GetStaticAddressWithFamily_def Let_def split_beta split: option.splits)
  then show ?case using get_static by simp
next
  case (release_pod pod subnet ipam ipam')
  then show ?case using release_in_ok [of ipam "ReleaseAddress pod" subnet] ReleaseAddress_ok by (auto simp: ReleaseAddressByPod_def)
next
  case (release_nic pod nic subnet ipam ipam')
  then show ?case
    using release_in_ok [of ipam "ReleaseAddressWithNicName pod nic" subnet] ReleaseAddressWithNicName_ok by (auto simp: ReleaseAddressByNic_def)
next
  case (add_pool subnet pool ips ipam ipam' r)
  then have "ipam_ok (fst (IPAM_AddOrUpdateIPPool subnet pool ips ipam))"
    using ipam_okD [of ipam subnet] AddOrUpdateIPPool_ok(1) ipam_ok_set
    by (fastforce simp: IPAM_AddOrUpdateIPPool_def split_beta split: option.splits)
  then show ?case using add_pool by simp
next
  case (del_pool subnet pool ipam ipam')
  show ?case
  proof (cases "map_of (Subnets ipam) subnet")
    case None
    then show ?thesis using del_pool by (simp add: IPAM_RemoveIPPool_def)
  next
    case (Some s)
    obtain U where U: "sub_ok U s" using ipam_okD [OF del_pool(3) Some] by blast
    obtain s' where "RemoveIPPool pool s = Inr s'" "sub_ok U s'" using RemoveIPPool_ok [OF U] del_pool(2) by (metis op_ok.simps(5))
    then show ?thesis using del_pool Some ipam_ok_set by (auto simp: IPAM_RemoveIPPool_def)
  qed
next
  case (gateway_mac subnet mac ipam ipam' r)
  then have "ipam_ok (fst (RecordGatewayMAC subnet mac ipam))"
    using ipam_okD [of ipam subnet] ipam_ok_set by (fastforce simp: RecordGatewayMAC_def split: option.splits)
  then show ?case using gateway_mac by simp
qed

lemma reachable_ok: "reachable ipam \<Longrightarrow> ipam_ok ipam"
  by (induction rule: reachable.induct) (auto simp: NewIPAM_def ipam_ok_def [of "\<lparr>Subnets = []\<rparr>"] intro: ipam_step_ok)

end
