(* ===== verification/SubnetProps.thy ===== *)
theory SubnetProps
  imports IPAMInv
begin

text \<open>
  What the operations of pkg/ipam/subnet.go promise, on subnets that satisfy the invariant:
  which address a random allocation yields and which errors it may return, what a release
  gives back, that an allocation undone leaves no trace, and to whom a given address is
  granted.
\<close>

section \<open>Random MAC addresses\<close>

text \<open>The loop of \<open>GetRandomMac\<close> yields the first draw that is neither excluded nor taken.\<close>

lemma random_mac_loop_spec:
  "random_mac_loop ex m draws =
     (case dropWhile (\<lambda>b. GenerateMac b \<in> set ex \<or> mhas m (GenerateMac b)) draws of
        [] \<Rightarrow> None | b # bs \<Rightarrow> Some (GenerateMac b, bs))"
proof (induction draws)
  case Nil
  then show ?case by (simp add: random_mac_loop.simps)
next
  case (Cons b draws)
  have "random_mac_loop ex m (b # draws) = random_mac_loop ex m draws" if "GenerateMac b \<in> set ex"
    using that by (simp add: random_mac_loop.simps [of ex m "b # draws"] random_mac_loop.simps [of ex m draws] Let_def)
  with Cons show ?case
    by (cases "GenerateMac b \<in> set ex") (simp_all add: random_mac_loop.simps [of ex m "b # draws"] Let_def)
qed

lemma GenerateMac_nonempty: "GenerateMac b \<noteq> []"
  by (cases "tl b") (simp_all add: GenerateMac_def hw_string_def hex2_def)

lemma GetRandomMac_cases:
  assumes "map_of (NicToMac s) nic = None"
  obtains (none) "GetRandomMac pod nic s = (s, Inl NoReturn)"
      "\<forall>b\<in>set (rnd s). (GatewayMAC s \<noteq> [] \<and> GenerateMac b = GatewayMAC s) \<or> mhas (MacToPod s) (GenerateMac b)"
    | (mac) b rest where "b \<in> set (rnd s)" "GatewayMAC s = [] \<or> GenerateMac b \<noteq> GatewayMAC s" "\<not> mhas (MacToPod s) (GenerateMac b)"
      "GetRandomMac pod nic s = (s\<lparr>MacToPod := mput (GenerateMac b) pod (MacToPod s), NicToMac := mput nic (GenerateMac b) (NicToMac s), rnd := rest\<rparr>,
         Inr (GenerateMac b))"
proof -
  let ?ex = "if GatewayMAC s \<noteq> [] then [GatewayMAC s] else []"
  let ?P = "\<lambda>b. GenerateMac b \<in> set ?ex \<or> mhas (MacToPod s) (GenerateMac b)"
  show ?thesis
  proof (cases "dropWhile ?P (rnd s)")
    case Nil
    then have "\<forall>b\<in>set (rnd s). ?P b" by (simp add: dropWhile_eq_Nil_conv)
    moreover have "GetRandomMac pod nic s = (s, Inl NoReturn)"
      unfolding GetRandomMac_def random_mac_loop_spec assms Nil by simp
    ultimately show ?thesis using none by (auto split: if_splits)
  next
    case (Cons b rest)
    then have "\<not> ?P b" "b \<in> set (rnd s)"
      using hd_dropWhile [of ?P "rnd s"] set_dropWhileD [of b ?P "rnd s"] by auto
    moreover have "GetRandomMac pod nic s = (s\<lparr>MacToPod := mput (GenerateMac b) pod (MacToPod s),
        NicToMac := mput nic (GenerateMac b) (NicToMac s), rnd := rest\<rparr>, Inr (GenerateMac b))"
      unfolding GetRandomMac_def random_mac_loop_spec assms Cons by simp
    ultimately show ?thesis using mac [of b rest] by (auto split: if_splits)
  qed
qed

section \<open>One family\<close>

lemma releaseFamAddr_effect:
  assumes s: "sub_ok U s" and nic: "map_of (NicToIP (sfam F s)) nic = Some ip"
  obtains s' where "releaseFamAddr F pod nic s = Inr s'" "sub_ok U s'"
    "NicToIP (sfam F s') = mdel nic (NicToIP (sfam F s))" "IPToPod (sfam F s') = mdel (IP_String ip) (IPToPod (sfam F s))"
    "rlset (SUsing (sfam F s')) = rlset (SUsing (sfam F s)) - {ipv ip}" "SReserved (sfam F s') = SReserved (sfam F s)"
    "rlset (SAvailable (sfam F s')) =
       (if ipv ip \<in> rlset (SReserved (sfam F s)) then rlset (SAvailable (sfam F s)) else insert (ipv ip) (rlset (SAvailable (sfam F s))))"
    "\<And>G. G \<noteq> F \<Longrightarrow> sfam G s' = sfam G s"
proof -
  let ?R = "rlset (SReserved (sfam F s))" and ?f = "lease_out nic ip (sfam F s)"
  note d = lists_okD [OF sub_okD(2) [OF s, of F]]
  have ip: "ip_in F ip" using leases_okD(2) [OF sub_okD(3) [OF s] nic] by blast
  obtain n p where eq: "releaseFamAddr F pod nic s = Inr (set_pool n (set_pfam F (rel_fam (ipv ip \<in> ?R) ip (pfam F p)) p)
       (set_sfam F (rel_sub (ipv ip \<in> ?R) ip ?f) (release_mac F nic s)))"
    using releaseFamAddr_hit [OF s nic] by blast
  obtain s' where s': "releaseFamAddr F pod nic s = Inr s'" "sub_ok U s'" using releaseFamAddr_ok [OF s] by blast
  have f: "sfam F s' = rel_sub (ipv ip \<in> ?R) ip ?f" using eq s'(1) by auto
  show ?thesis
  proof (rule that [OF s'])
    show "\<And>G. G \<noteq> F \<Longrightarrow> sfam G s' = sfam G s" using eq s'(1) by auto
    show "rlset (SAvailable (sfam F s')) = (if ipv ip \<in> ?R then rlset (SAvailable (sfam F s)) else insert (ipv ip) (rlset (SAvailable (sfam F s))))"
      using rl.elems_add [OF d(3) ip] by (simp add: f rel_sub_def Let_def)
  qed (simp_all add: f rl.elems_remove [OF d(4) ip])
qed

lemma finish_random_mac:
  assumes "mac = None"
  obtains (kept) m where "map_of (NicToMac s) nic = Some m" "finish_random F pod nic mac c ip s = (s, Inr (ip, m))"
    | (none) "finish_random F pod nic mac c ip s = (s, Inl NoReturn)"
    | (new) s' m where "finish_random F pod nic mac c ip s = (s', Inr (ip, m))" "\<And>G. sfam G s' = sfam G s" "\<And>U. sub_ok U s' = sub_ok U s"
      "map_of (NicToMac s') nic = Some m" "m \<noteq> []"
proof (cases "map_of (NicToMac s) nic")
  case (Some m)
  then show ?thesis using kept assms by (simp add: finish_random_def GetRandomMac_def)
next
  case None
  then show ?thesis
  proof (cases rule: GetRandomMac_cases [where pod = pod])
    case none
    then show ?thesis using that(2) assms by (simp add: finish_random_def)
  next
    case (mac b rest)
    show ?thesis using that(3) [of _ "GenerateMac b"] mac assms GenerateMac_nonempty [of b] by (simp add: finish_random_def)
  qed
qed

text \<open>A NIC without an address asks for one, and for a random MAC address: the three outcomes.\<close>

lemma random_cases:
  fixes n :: string
  assumes s: "sub_ok U s" and sk: "skips_ok sk" and pod: "CHR '','' \<notin> set pod" and nic: "map_of (NicToIP (sfam F s)) nic = None"
  defines "A \<equiv> drawable F n s" and "S \<equiv> ipv ` set (parse_skipped sk)"
  obtains (none) s' where "A = {}" "getFamRandomAddress F n pod nic None sk c s = (s', Inl ErrNoAvailable)" "sub_ok U s'" "\<And>G. sfam G s' = sfam G s"
    | (skip) s' where "A \<noteq> {}" "A \<subseteq> S" "getFamRandomAddress F n pod nic None sk c s = (s', Inl ErrConflict)" "sub_ok U s'" "\<And>G. sfam G s' = sfam G s"
    | (wait) s' where "getFamRandomAddress F n pod nic None sk c s = (s', Inl NoReturn)"
    | (got) s' ip m where "getFamRandomAddress F n pod nic None sk c s = (s', Inr (ip, m))" "sub_ok U s'" "ip_in F ip"
      "ipv ip = Min (A - S)" "ipv ip \<in> A - S" "sfam F s' = take_fam pod nic ip (sfam F s)" "\<And>G. G \<noteq> F \<Longrightarrow> sfam G s' = sfam G s"
      "map_of (NicToMac s') nic = Some m" "m = [] \<Longrightarrow> map_of (NicToMac s) nic = Some m"
proof -
  have eq: "getFamRandomAddress F n pod nic None sk c s = alloc_random F n pod nic None sk c s"
    using nic by (simp add: getFamRandomAddress_def Let_def)
  show ?thesis
    using s sk pod unfolding A_def S_def eq
  proof (cases rule: alloc_random_cases [where F = F and n = n and nic = nic and mac = None and c = c])
    case (take ip s1)
    have "(None :: string option) = None" ..
    then show ?thesis
    proof (cases rule: finish_random_mac [where s = s1 and nic = nic and F = F and pod = pod and c = c and ip = ip])
      case (kept m)
      then show ?thesis using got [of s1 ip m] take by (simp add: A_def S_def eq)
    next
      case none
      then show ?thesis using wait take eq by simp
    next
      case (new s' m)
      then show ?thesis using got [of s' ip m] take by (simp add: A_def S_def eq)
    qed
  qed (use none skip in \<open>simp_all add: A_def S_def eq\<close>)
qed


section \<open>A sample subnet\<close>

text \<open>A network of six usable addresses, one of them reserved, and the subnet after one NIC has got an address.\<close>

definition sample_net :: IPNet where
  "sample_net = \<lparr>NetIP = [10,0,0,0], NetMask = [255,255,255,248]\<rparr>"

definition sample :: Subnet where
  "sample =
     (let ips = [NewIPRange [10,0,0,1] [10,0,0,6]]; f4 = new_fam (Some sample_net) ips [NewIPRange [10,0,0,1] [10,0,0,1]] in
      \<lparr>Name = ''subnet'', CIDR = ''10.0.0.0/29'', Protocol = ProtocolIPv4, SV4 = f4, SV6 = empty_fam,
       NicToMac = [], MacToPod = [], PodToNicList = [], GatewayMAC = [],
       IPPools = [([], \<lparr>PV4 = new_pool_fam ips f4, PV6 = empty_pool_fam\<rparr>)], rnd = [[2,3,4,5,6,7], [2,3,4,5,6,8]]\<rparr>)"

definition sample1 :: Subnet where
  "sample1 = fst (getFamRandomAddress F4 [] ''pod'' ''nic'' None [] True sample)"

definition sampleU :: "fam \<Rightarrow> nat set" where
  "sampleU F = (case F of F4 \<Rightarrow> usable F4 29 sample_net | F6 \<Rightarrow> {})"

lemma sample_fit: "net_fit F4 29 sample_net"
  by code_simp

lemma sample_ips: "rl_in F4 [NewIPRange [10,0,0,1] [10,0,0,6]]" "rlset [NewIPRange [10,0,0,1] [10,0,0,6]] = usable F4 29 sample_net"
  "rl_in F4 [NewIPRange [10,0,0,1] [10,0,0,1]]" "rlset [NewIPRange [10,0,0,1] [10,0,0,1]] \<subseteq> usable F4 29 sample_net"
proof -
  have v: "ipv (NetIP sample_net) = 281470849515520" "ipv [10,0,0,1] = 281470849515521" "ipv [10,0,0,6] = 281470849515526"
    "ipmin F4 = 281470681743360" "ipmax F4 = 281474976710655" by code_simp+
  have o: "rl_ok F4 [NewIPRange [10,0,0,1] [10,0,0,6]]" "rl_ok F4 [NewIPRange [10,0,0,1] [10,0,0,1]]" by code_simp+
  show "rl_in F4 [NewIPRange [10,0,0,1] [10,0,0,6]]" "rl_in F4 [NewIPRange [10,0,0,1] [10,0,0,1]]"
    using o v by (auto simp: rl_in_def inn_def rset_def)
  show "rlset [NewIPRange [10,0,0,1] [10,0,0,6]] = usable F4 29 sample_net"
  proof -
    have "ipv [10,0,0,1] = ipv (NetIP sample_net) + 1" "ipv [10,0,0,6] = ipv (NetIP sample_net) + (8 - 2)" by code_simp+
    then have "rlset [NewIPRange [10,0,0,1] [10,0,0,6]] = {ipv (NetIP sample_net) + 1..ipv (NetIP sample_net) + (8 - 2)}"
      by (simp only: rlset_simps rset_def NewIPRange_def IPRange.simps Un_empty_right)
    also have "\<dots> = {ipv (NetIP sample_net)..<ipv (NetIP sample_net) + 8} - {ipv (NetIP sample_net), ipv (NetIP sample_net) + 8 - 1}"
      by (rule conjunct2 [OF usable_interval]) simp
    also have "\<dots> = usable F4 29 sample_net" by (simp add: usable_def netset_def del: atLeastLessThan_iff)
    finally show ?thesis .
  qed
  moreover have "rlset [NewIPRange [10,0,0,1] [10,0,0,1]] \<subseteq> rlset [NewIPRange [10,0,0,1] [10,0,0,6]]" using v by (simp add: rset_def)
  ultimately show "rlset [NewIPRange [10,0,0,1] [10,0,0,1]] \<subseteq> usable F4 29 sample_net" by (simp only:)
qed

lemma sample_ok: "sub_ok sampleU sample"
proof -
  have "fam_ok F4 (usable F4 29 sample_net) ((new_fam (Some sample_net) [NewIPRange [10,0,0,1] [10,0,0,6]] [NewIPRange [10,0,0,1] [10,0,0,1]])\<lparr>Gw := []\<rparr>)
      [([], new_pool_fam [NewIPRange [10,0,0,1] [10,0,0,6]] (new_fam (Some sample_net) [NewIPRange [10,0,0,1] [10,0,0,6]] [NewIPRange [10,0,0,1] [10,0,0,1]]))]"
    by (rule new_fam_ok [OF sample_ips(1,3), unfolded sample_ips(2), OF sample_ips(4) cidr_ok_net [OF sample_fit]])
  moreover have "fam_ok F6 {} (empty_fam\<lparr>Gw := []\<rparr>) [([], empty_pool_fam)]" by (rule fam_ok_none)
  ultimately have "fam_ok F (sampleU F) (sfam F sample) (pools_of F sample)" for F
    by (cases F) (simp_all add: sample_def sampleU_def pools_of_def Let_def new_fam_def empty_fam_def)
  then show ?thesis by (simp add: sub_ok_def sample_def Let_def)
qed

lemma sample1_ok: "sub_ok sampleU sample1"
  unfolding sample1_def by (rule getFamRandomAddress_ok [OF sample_ok skips_ok_Nil]) simp

lemma sample1_lease: "map_of (NicToIP (sfam F4 sample1)) ''nic'' = Some [10,0,0,2]" "map_of (NicToIP (sfam F4 sample)) ''nic'' = None"
  by code_simp+

section \<open>Properties\<close>



text \<open>What was taken for a NIC without an address is given back as it was.\<close>

lemma rel_fam_lists:
  assumes "pool_ok F U R X p" "ip_in F ip" "ipv ip \<in> X" "\<not> c"
  shows "ipv ip \<in> rlset (PReleased (rel_fam c ip p))" "ipv ip \<notin> rlset (PFree (rel_fam c ip p))"
  using assms rl.elems_add [OF pool_okD(5) [OF assms(1)] assms(2)] pool_okD(9,10) [OF assms(1)] by (auto simp: rel_fam_def Let_def)

text \<open>
  An address that is in use and not reserved goes to the \<open>Released\<close> list of its pool when its
  NIC gives it up, and to no \<open>Free\<close> list.\<close>

lemma release_marks_released:
  assumes s: "sub_ok U s" and nic: "map_of (NicToIP (sfam F s)) nic = Some ip" and r: "ipv ip \<notin> rlset (SReserved (sfam F s))"
    and rel: "releaseFamAddr F pod nic s = Inr s'"
  shows "(\<exists>n p. map_of (IPPools s') n = Some p \<and> ipv ip \<in> rlset (PReleased (pfam F p))) \<and>
    (\<forall>n p. map_of (IPPools s') n = Some p \<longrightarrow> ipv ip \<notin> rlset (PFree (pfam F p)))"
proof -
  have ip: "ip_in F ip" "ipv ip \<in> rlset (SUsing (sfam F s))" using leases_okD(2,3) [OF sub_okD(3) [OF s] nic] by blast+
  obtain n p where np: "map_of (IPPools s) n = Some p" "releaseFamAddr F pod nic s =
      Inr (set_pool n (set_pfam F (rel_fam (ipv ip \<in> rlset (SReserved (sfam F s))) ip (pfam F p)) p)
       (set_sfam F (rel_sub (ipv ip \<in> rlset (SReserved (sfam F s))) ip (lease_out nic ip (sfam F s))) (release_mac F nic s)))"
    using releaseFamAddr_hit [OF s nic] by metis
  note po = pool_ok_of(1) [OF sub_okD(2) [OF s]]
  have free: "ipv ip \<notin> rlset (PFree (pfam F q))" if "map_of (IPPools s) m = Some q" for m q
    using pool_okD(9,10) [OF po [OF that]] ip(2) by blast
  show ?thesis using np rel r free rel_fam_lists [OF po [OF np(1)] ip] by (auto simp: pfam_set)
qed

lemma take_release:
  assumes s: "sub_ok U s" and s1: "sub_ok U s1" and ip: "ip_in F ip" and f: "sfam F s1 = take_fam pod nic ip (sfam F s)"
    and x: "ipv ip \<notin> rlset (SUsing (sfam F s))" "ipv ip \<notin> rlset (SReserved (sfam F s))" and nic: "map_of (NicToIP (sfam F s)) nic = None"
  shows "\<exists>s2. releaseFamAddr F pod' nic s1 = Inr s2 \<and> sub_ok U s2 \<and> SUsing (sfam F s2) = SUsing (sfam F s) \<and>
    SAvailable (sfam F s2) = SAvailable (sfam F s) \<and> map_of (NicToIP (sfam F s2)) = map_of (NicToIP (sfam F s)) \<and>
    map_of (IPToPod (sfam F s2)) = (map_of (IPToPod (sfam F s)))(IP_String ip := None) \<and>
    (\<exists>n p. map_of (IPPools s2) n = Some p \<and> ipv ip \<in> rlset (PReleased (pfam F p))) \<and>
    (\<forall>n p. map_of (IPPools s2) n = Some p \<longrightarrow> ipv ip \<notin> rlset (PFree (pfam F p))) \<and>
    (\<forall>G. G \<noteq> F \<longrightarrow> sfam G s2 = sfam G s1)"
proof -
  note d = lists_okD [OF sub_okD(2) [OF s, of F]]
  have nic1: "map_of (NicToIP (sfam F s1)) nic = Some ip" by (simp add: f take_fam_def)
  from releaseFamAddr_effect [OF s1 this, of pod'] obtain s2 where s2: "releaseFamAddr F pod' nic s1 = Inr s2" "sub_ok U s2"
    "NicToIP (sfam F s2) = mdel nic (NicToIP (sfam F s1))" "IPToPod (sfam F s2) = mdel (IP_String ip) (IPToPod (sfam F s1))"
    "rlset (SUsing (sfam F s2)) = rlset (SUsing (sfam F s1)) - {ipv ip}" "SReserved (sfam F s2) = SReserved (sfam F s1)"
    "\<forall>G. G \<noteq> F \<longrightarrow> sfam G s2 = sfam G s1" by metis
  note d2 = lists_okD [OF sub_okD(2) [OF s2(2), of F]]
  have u: "SUsing (sfam F s2) = SUsing (sfam F s)"
    using s2(5) rl.elems_add [OF d(4) ip] x by (intro rl.wf_unique [OF d2(4) d(4)]) (simp add: f take_fam_def)
  have "SReserved (sfam F s2) = SReserved (sfam F s)" using s2(6) by (simp add: f take_fam_def)
  then have "SAvailable (sfam F s2) = SAvailable (sfam F s)"
    using u d(7) d2(7) by (intro rl.wf_unique [OF d2(3) d(3)]) simp
  moreover have "(map_of (NicToIP (sfam F s)))(nic := None) = map_of (NicToIP (sfam F s))" using nic by (simp add: fun_upd_idem_iff)
  moreover have "ipv ip \<notin> rlset (SReserved (sfam F s1))" using x(2) by (simp add: f take_fam_def)
  ultimately show ?thesis using s2 u release_marks_released [OF s1 nic1 _ s2(1)] by (simp add: f take_fam_def)
qed



text \<open>C9.
  Allocating a random address for a NIC and releasing it restores the available and the used
  addresses of the subnet and the leases of all NICs, but not the order of reuse: the address
  is then in the released list of its pool and in no list of free addresses.\<close>

theorem random_release_roundtrip:
  assumes "sub_ok U s" "skips_ok skipped" "CHR '','' \<notin> set pod" "map_of (NicToIP (sfam F s)) nic = None"
    and "getFamRandomAddress F pool pod nic None skipped True s = (s1, Inr (ip, mac))"
  shows "\<exists>s2. releaseFamAddr F pod nic s1 = Inr s2 \<and> SUsing (sfam F s2) = SUsing (sfam F s) \<and>
    SAvailable (sfam F s2) = SAvailable (sfam F s) \<and> map_of (NicToIP (sfam F s2)) = map_of (NicToIP (sfam F s)) \<and>
    map_of (IPToPod (sfam F s2)) = (map_of (IPToPod (sfam F s)))(IP_String ip := None) \<and>
    (\<exists>n p. map_of (IPPools s2) n = Some p \<and> ipv ip \<in> rlset (PReleased (pfam F p))) \<and>
    (\<forall>n p. map_of (IPPools s2) n = Some p \<longrightarrow> ipv ip \<notin> rlset (PFree (pfam F p)))"
  using assms(1-4)
proof (cases rule: random_cases [where F = F and n = pool and nic = nic and c = True])
  case (got s' ip' m)
  then have g: "s' = s1" "ip' = ip" using assms(5) by auto
  have x: "ipv ip \<notin> rlset (SUsing (sfam F s))" "ipv ip \<notin> rlset (SReserved (sfam F s))"
    using got(5) g drawable_sub [OF assms(1), of F pool] by blast+
  show ?thesis using take_release [OF assms(1) _ _ _ x assms(4), of s1 pod pod] got(2,3,6) unfolding g by blast
qed (use assms(5) in simp_all)

theorem random_release_roundtrip_witness:
  "getFamRandomAddress F4 [] ''pod'' ''nic'' None [] True sample = (sample1, Inr ([10,0,0,2], ''02:03:04:05:06:07'')) \<and>
   (\<exists>s2. releaseFamAddr F4 ''pod'' ''nic'' sample1 = Inr s2 \<and> SAvailable (sfam F4 s2) = SAvailable (sfam F4 sample) \<and>
     (\<exists>n p. map_of (IPPools s2) n = Some p \<and> ipv [10,0,0,2] \<in> rlset (PReleased (pfam F4 p))))"
proof -
  have "snd (getFamRandomAddress F4 [] ''pod'' ''nic'' None [] True sample) = Inr ([10,0,0,2], ''02:03:04:05:06:07'')" by code_simp
  then have c: "getFamRandomAddress F4 [] ''pod'' ''nic'' None [] True sample = (sample1, Inr ([10,0,0,2], ''02:03:04:05:06:07''))"
    by (simp add: sample1_def prod_eq_iff)
  have p: "CHR '','' \<notin> set ''pod''" by simp
  show ?thesis using c random_release_roundtrip [OF sample_ok skips_ok_Nil p sample1_lease(2) c] by blast
qed

text \<open>
  Asking again for a random address changes nothing and gives the NIC the address and the
  MAC address it has, unless the caller now skips that address.\<close>

theorem random_again_same:
  assumes "sub_ok U s" "map_of (NicToIP (sfam F s)) nic = Some ip" "map_of (NicToMac s) nic = Some mac" "mac \<noteq> []"
    and "IP_String ip \<notin> set skipped"
  shows "getFamRandomAddress F pool pod nic m skipped c s = (s, Inr (ip, mac))"
proof -
  have "ip \<noteq> []" using leases_okD(2) [OF sub_okD(3) [OF assms(1)] assms(2)] af.ok_nonempty by (auto simp: ip_in_def)
  then show ?thesis using assms(2-5) by (simp add: getFamRandomAddress_def Let_def)
qed

theorem random_again_same_witness:
  "map_of (NicToMac sample1) ''nic'' = Some ''02:03:04:05:06:07'' \<and>
   getFamRandomAddress F4 [] ''pod'' ''nic'' None [] True sample1 = (sample1, Inr ([10,0,0,2], ''02:03:04:05:06:07''))"
proof -
  have m: "map_of (NicToMac sample1) ''nic'' = Some ''02:03:04:05:06:07''" by code_simp
  have s: "IP_String [10,0,0,2] \<notin> set []" by simp
  show ?thesis using m random_again_same [OF sample1_ok sample1_lease(1) m _ s, of "[]" "''pod''" None True] by simp
qed


text \<open>A NIC that asks for a MAC address another pod has gets no address: the address that was
  drawn for it is given back, and the available and used addresses and the leases are as before.\<close>

theorem mac_conflict_undone:
  assumes s: "sub_ok U s" "skips_ok skipped" "CHR '','' \<notin> set pod" "map_of (NicToIP (sfam F s)) nic = None"
    and m: "mac \<noteq> []" "map_of (MacToPod s) mac = Some owner" "owner \<noteq> pod"
  shows "\<exists>s' err. getFamRandomAddress F pool pod nic (Some mac) skipped True s = (s', Inl err) \<and> \<not> fatal err \<and> sub_ok U s' \<and>
    SUsing (sfam F s') = SUsing (sfam F s) \<and> SAvailable (sfam F s') = SAvailable (sfam F s) \<and>
    map_of (NicToIP (sfam F s')) = map_of (NicToIP (sfam F s))"
proof -
  have eq: "getFamRandomAddress F pool pod nic (Some mac) skipped True s = alloc_random F pool pod nic (Some mac) skipped True s"
    using s(4) by (simp add: getFamRandomAddress_def Let_def)
  show ?thesis
    using s(1-3)
  proof (cases rule: alloc_random_cases [where F = F and n = pool and nic = nic and mac = "Some mac" and c = True])
    case (take ip s1)
    have x: "ipv ip \<notin> rlset (SUsing (sfam F s))" "ipv ip \<notin> rlset (SReserved (sfam F s))"
      using take(4) drawable_sub [OF s(1), of F pool] by blast+
    have st: "GetStaticMac pod nic mac True s1 = (s1, Some ErrConflict)" using m take(9) by (simp add: GetStaticMac_def)
    obtain s2 where s2: "releaseFamAddr F pod nic s1 = Inr s2" "sub_ok U s2" "SUsing (sfam F s2) = SUsing (sfam F s)"
      "SAvailable (sfam F s2) = SAvailable (sfam F s)" "map_of (NicToIP (sfam F s2)) = map_of (NicToIP (sfam F s))"
      using take_release [OF s(1) take(5,2,6) x s(4)] by blast
    have "alloc_random F pool pod nic (Some mac) skipped True s = (popPodNic pod nic s2, Inl ErrConflict)"
      using take(1) st s2(1) by (simp add: finish_random_def)
    then show ?thesis using s2 eq by (simp add: fatal_def)
  qed (auto simp: fatal_def eq)
qed

theorem mac_conflict_undone_witness:
  "map_of (MacToPod sample1) ''02:03:04:05:06:07'' = Some ''pod'' \<and> map_of (NicToIP (sfam F4 sample1)) ''nic2'' = None \<and>
   (\<exists>s' err. getFamRandomAddress F4 [] ''pod2'' ''nic2'' (Some ''02:03:04:05:06:07'') [] True sample1 = (s', Inl err) \<and>
      SAvailable (sfam F4 s') = SAvailable (sfam F4 sample1))"
proof -
  have m: "map_of (MacToPod sample1) ''02:03:04:05:06:07'' = Some ''pod''" by code_simp
  have n: "map_of (NicToIP (sfam F4 sample1)) ''nic2'' = None" by code_simp
  have p: "CHR '','' \<notin> set ''pod2''" by simp
  show ?thesis using m n mac_conflict_undone [OF sample1_ok skips_ok_Nil p n _ m, of "[]"] by fastforce
qed







text \<open>
  \<open>NewSubnet\<close> of one or two networks succeeds: the subnet satisfies the invariant for the
  usable addresses of the networks, reserves what the entries exclude of them, has all the
  others available and no lease.\<close>

theorem NewSubnet_starts:
  assumes n: "nets_fit nets" and es: "\<forall>e\<in>set es. entry_ok e"
  shows "\<exists>s. NewSubnet draws name (nets_text nets) (map etext es) = Inr s \<and> sub_ok (nets_usable nets) s \<and>
    (\<forall>F. rlset (SReserved (sfam F s)) = eset F es \<inter> nets_usable nets F \<and>
         rlset (SAvailable (sfam F s)) = nets_usable nets F - eset F es \<and> NicToIP (sfam F s) = [])"
proof -
  obtain s where s: "NewSubnet draws name (nets_text nets) (map etext es) = Inr s" "reserved_ok (nets_usable nets) s"
    "\<forall>F. rlset (SReserved (sfam F s)) = eset F es \<inter> nets_usable nets F" using NewSubnet_total [OF assms] by blast
  have "(SV4 s)\<lparr>Gw := Gw (SV4 s)\<rparr> = SV4 s" "(SV6 s)\<lparr>Gw := Gw (SV6 s)\<rparr> = SV6 s" by simp_all
  then have ok: "sub_ok (nets_usable nets) s"
    using NewSubnet_ok(1) [OF n s(1,2), where ?g4.0 = "Gw (SV4 s)" and ?g6.0 = "Gw (SV6 s)"] by simp
  have e: "NicToIP (sfam F s) = [] \<and> SUsing (sfam F s) = []" for F
    using s(1) by (cases F) (auto simp: NewSubnet_def new_fam_def Let_def NewEmptyIPRangeList_def split: option.splits sum.splits prod.splits)
  have "rlset (SAvailable (sfam F s)) = nets_usable nets F - eset F es" for F
    using lists_okD(7) [OF sub_okD(2) [OF ok, of F]] s(3) e [of F] by auto
  with s ok e show ?thesis by blast
qed

theorem NewSubnet_starts_witness:
  "nets_fit (\<lambda>F. case F of F4 \<Rightarrow> Some (29, sample_net) | F6 \<Rightarrow> None) \<and>
   (\<exists>s. NewSubnet [] ''s'' ''10.0.0.0/29'' [''10.0.0.1''] = Inr s \<and> NicToIP (sfam F4 s) = [] \<and>
      rlset (SReserved (sfam F4 s)) = {ipv [10,0,0,1]} \<inter> usable F4 29 sample_net)"
proof -
  let ?n = "\<lambda>F. case F of F4 \<Rightarrow> Some (29, sample_net) | F6 \<Rightarrow> None"
  have "net_fit F k net" if "?n F = Some (k, net)" for F k net using that sample_fit by (cases F) simp_all
  moreover have "?n F4 \<noteq> None" by simp
  ultimately have n: "nets_fit ?n" unfolding nets_fit_def by blast
  have e: "\<forall>e\<in>set [(False, F4, [10,0,0,1], [10,0,0,1])]. entry_ok e" by code_simp
  have t: "nets_text ?n = ''10.0.0.0/29''" "map etext [(False, F4, [10,0,0,1], [10,0,0,1])] = [''10.0.0.1'']" by code_simp+
  have "nets_usable ?n F4 = usable F4 29 sample_net" "eset F4 [(False, F4, [10,0,0,1], [10,0,0,1])] = {ipv [10,0,0,1]}"
    by (simp_all add: nets_usable_def)
  then show ?thesis using n NewSubnet_starts [OF n e, of "[]" "''s''"] unfolding t by metis
qed

text \<open>C11.
  When the network of a family changes, its NICs keep exactly the addresses that are usable
  in the new network, the addresses in use are cut to it, the other family stays as it is,
  and the invariant holds for the new network.\<close>

theorem network_change_leases:
  assumes s: "sub_ok U s" and n: "net_fit F n net" and r: "rl_in F reserved" "rlset reserved \<subseteq> usable F n net"
  shows "\<exists>s'. change_fam F (net_string net) gw reserved s = Inr s' \<and> sub_ok (U(F := usable F n net)) s' \<and>
    (\<forall>nic ip. map_of (NicToIP (sfam F s')) nic = Some ip \<longleftrightarrow> map_of (NicToIP (sfam F s)) nic = Some ip \<and> ipv ip \<in> usable F n net) \<and>
    rlset (SUsing (sfam F s')) = rlset (SUsing (sfam F s)) \<inter> usable F n net \<and>
    rlset (SAvailable (sfam F s')) = usable F n net - rlset (SUsing (sfam F s)) - rlset reserved \<and> sfam (other F) s' = sfam (other F) s"
proof -
  obtain l where l: "usable_list (net_string net) = Inr l" "rl_in F l" "rlset l = usable F n net" using usable_list_net [OF n] .
  have "cidr_ok F (rlset l) (map_option snd (ParseCIDR (net_string net)))"
    using cidr_ok_net [OF n] ParseCIDR_net_string [of F n net] n l by (simp add: net_fit_def)
  from change_fam_ok [OF s l(1,2) r(1) _ this, of gw] r(2) l(3)
  obtain s' where s': "change_fam F (net_string net) gw reserved s = Inr s'" "sub_ok (U(F := usable F n net)) s'" by auto
  note d = lists_okD [OF sub_okD(2) [OF s, of F]] and le = leases_okD [OF sub_okD(3) [OF s, of F]]
  define u where "u = rl_Intersect (SUsing (sfam F s)) l"
  obtain f where f: "sfam F s' = drop_outside l f" "NicToIP f = NicToIP (sfam F s)" "SUsing f = u" "SReserved f = reserved"
    and other: "sfam (other F) s' = sfam (other F) s"
    using s'(1) l(1) by (auto simp: change_fam_def Let_def u_def split: option.splits prod.splits)
  have c: "rl_Contains l ip \<longleftrightarrow> ipv ip \<in> usable F n net" if "map_of (NicToIP (sfam F s)) nic = Some ip" for nic ip
    using rl.contains [OF l(2) le(2) [OF that]] l(3) by simp
  have "map_of (NicToIP (sfam F s')) nic = Some ip \<longleftrightarrow> map_of (NicToIP (sfam F s)) nic = Some ip \<and> ipv ip \<in> usable F n net" for nic ip
    using c by (auto simp: f drop_outside_def map_of_filter_fst [OF le(1)])
  moreover have "rlset (SUsing (sfam F s')) = rlset (SUsing (sfam F s)) \<inter> usable F n net" 
    using rl.elems_isect [OF d(4) l(2)] l(3) by (simp add: f drop_outside_def u_def)
  moreover have "SReserved (sfam F s') = reserved" by (simp add: f drop_outside_def)
  moreover have "rlset (SAvailable (sfam F s')) = usable F n net - rlset (SUsing (sfam F s')) - rlset (SReserved (sfam F s'))"
    using lists_okD(7) [OF sub_okD(2) [OF s'(2), of F]] by simp
  ultimately show ?thesis using s' other by auto
qed

theorem network_change_leases_witness:
  "map_of (NicToIP (sfam F4 sample1)) ''nic'' = Some [10,0,0,2] \<and>
   (\<exists>s'. change_fam F4 (net_string sample_net) ''10.0.0.1'' NewEmptyIPRangeList sample1 = Inr s' \<and>
      rlset (SUsing (sfam F4 s')) = rlset (SUsing (sfam F4 sample1)) \<inter> usable F4 29 sample_net)"
proof -
  have r: "rl_in F4 NewEmptyIPRangeList" "rlset NewEmptyIPRangeList \<subseteq> usable F4 29 sample_net"
    using rl.wf_empty [of F4] rl.elems_empty by simp_all
  show ?thesis using sample1_lease(1) network_change_leases [OF sample1_ok sample_fit r, of "''10.0.0.1''"] by blast
qed

text \<open>Under the invariant each usable address belongs to one pool.\<close>

lemma one_pool:
  assumes "sub_ok U s" "x \<in> U F"
  shows "\<exists>!n. \<exists>p. map_of (IPPools s) n = Some p \<and> x \<in> rlset (PIPs (pfam F p))"
  using pool_of_address [OF sub_okD(2) [OF assms(1)] assms(2)] by metis

definition pool_part :: "fam \<Rightarrow> string list \<Rightarrow> string list" where
  "pool_part F ips = (case F of F4 \<Rightarrow> fst | F6 \<Rightarrow> snd) (SplitIpsByProtocol ips)"

lemma make_pool_fam_ips: "make_pool_fam F name ips s = Inr p \<Longrightarrow> FCIDR (sfam F s) \<noteq> None \<Longrightarrow> NewIPRangeListFrom ips = Inr (PIPs p)"
  by (auto simp: make_pool_fam_def Let_def split: sum.splits option.splits)

lemma AddOrUpdateIPPool_pool:
  assumes "AddOrUpdateIPPool name ips s = (s', None)"
  obtains p where "map_of (IPPools s') name = Some p"
    "\<And>F. FCIDR (sfam F s) \<noteq> None \<Longrightarrow> NewIPRangeListFrom (pool_part F ips) = Inr (PIPs (pfam F p))"
proof -
  obtain v4 v6 where v: "SplitIpsByProtocol ips = (v4, v6)" by fastforce
  obtain p4 p6 where p: "make_pool_fam F4 name v4 s = Inr p4" "make_pool_fam F6 name v6 s = Inr p6"
    "map_of (IPPools s') name = Some \<lparr>PV4 = p4, PV6 = p6\<rparr>"
    using assms v by (auto simp: AddOrUpdateIPPool_def Let_def split: sum.splits option.splits)
  have "NewIPRangeListFrom (pool_part F ips) = Inr (PIPs (pfam F \<lparr>PV4 = p4, PV6 = p6\<rparr>))" if "FCIDR (sfam F s) \<noteq> None" for F
    using that make_pool_fam_ips [OF p(1)] make_pool_fam_ips [OF p(2)] v by (cases F) (simp_all add: pool_part_def)
  with p(3) show ?thesis using that by blast
qed

text \<open>C12.
  Making or changing an IP pool either fails and leaves the subnet as it was, or gives the
  pool the addresses named for it; the lists and leases of the subnet stay, every usable
  address belongs to exactly one pool, and the pool knows which of its addresses are in use,
  reserved and available.\<close>

theorem pool_update_partition:
  assumes s: "sub_ok U s" and name: "name \<noteq> []" and t: "pool_texts_ok ips s"
  shows "case AddOrUpdateIPPool name ips s of
      (s', Some err) \<Rightarrow> s' = s
    | (s', None) \<Rightarrow> sub_ok U s' \<and> (\<forall>F. sfam F s' = sfam F s) \<and>
        (\<forall>F. \<forall>x\<in>U F. \<exists>!n. \<exists>p. map_of (IPPools s') n = Some p \<and> x \<in> rlset (PIPs (pfam F p))) \<and>
        (\<exists>p. map_of (IPPools s') name = Some p \<and>
          (\<forall>F. (FCIDR (sfam F s) \<noteq> None \<longrightarrow> NewIPRangeListFrom (pool_part F ips) = Inr (PIPs (pfam F p))) \<and>
               rlset (PUsing (pfam F p)) = rlset (SUsing (sfam F s)) \<inter> rlset (PIPs (pfam F p)) \<and>
               rlset (PReserved (pfam F p)) = rlset (SReserved (sfam F s)) \<inter> rlset (PIPs (pfam F p)) \<and>
               rlset (PAvailable (pfam F p)) = rlset (SAvailable (sfam F s)) \<inter> rlset (PIPs (pfam F p))))"
proof -
  obtain s' e where r: "AddOrUpdateIPPool name ips s = (s', e)" by fastforce
  note ok = AddOrUpdateIPPool_ok [OF s name t, unfolded r fst_conv snd_conv]
  show ?thesis
  proof (cases e)
    case (Some err)
    then show ?thesis using ok(3) r by simp
  next
    case None
    then obtain p where p: "map_of (IPPools s') name = Some p"
      "\<And>F. FCIDR (sfam F s) \<noteq> None \<Longrightarrow> NewIPRangeListFrom (pool_part F ips) = Inr (PIPs (pfam F p))"
      using AddOrUpdateIPPool_pool r by blast
    have "rlset (PUsing (pfam F p)) = rlset (SUsing (sfam F s)) \<inter> rlset (PIPs (pfam F p)) \<and>
          rlset (PReserved (pfam F p)) = rlset (SReserved (sfam F s)) \<inter> rlset (PIPs (pfam F p)) \<and>
          rlset (PAvailable (pfam F p)) = rlset (SAvailable (sfam F s)) \<inter> rlset (PIPs (pfam F p))" for F
      using pool_okD(7-9) [OF pool_ok_of(1) [OF sub_okD(2) [OF ok(1), of F] p(1)]] lists_okD(7) [OF sub_okD(2) [OF s, of F]] ok(2) [of F] by auto
    then show ?thesis using r None ok(1,2) p one_pool [OF ok(1)] by auto
  qed
qed

lemma sample_pool_texts: "pool_texts_ok [''10.0.0.2..10.0.0.3''] sample1"
proof -
  have a: "NewIPRangeListFrom (fst (SplitIpsByProtocol [''10.0.0.2..10.0.0.3''])) = Inr [NewIPRange [10,0,0,2] [10,0,0,3]]" by code_simp
  have n: "FCIDR (sfam F6 sample1) = None" by code_simp
  have o: "rl_ok F4 [NewIPRange [10,0,0,2] [10,0,0,3]]" "ipmin F4 < ipv [10,0,0,2]" "ipv [10,0,0,3] < ipmax F4" by code_simp+
  then have i: "rl_in F4 [NewIPRange [10,0,0,2] [10,0,0,3]]" by (auto simp: rl_in_def inn_def rset_def)
  have "rl_in F l" if "FCIDR (sfam F sample1) \<noteq> None"
    "NewIPRangeListFrom ((case F of F4 \<Rightarrow> fst | F6 \<Rightarrow> snd) (SplitIpsByProtocol [''10.0.0.2..10.0.0.3''])) = Inr l" for F l
    using that a n i by (cases F) (simp_all del: sfam.simps)
  then show ?thesis unfolding pool_texts_ok_def by blast
qed

text \<open>A first pool cannot conflict with another.\<close>

lemma first_pool_made:
  assumes s: "sub_ok U s" and one: "map fst (IPPools s) = [[]]"
    and t: "\<And>F. FCIDR (sfam F s) \<noteq> None \<Longrightarrow> \<exists>l. NewIPRangeListFrom (pool_part F ips) = Inr l"
  shows "snd (AddOrUpdateIPPool name ips s) = None"
proof -
  obtain q where q: "IPPools s = [([], q)]" using one by (cases "IPPools s") auto
  have "\<exists>p. make_pool_fam F name (pool_part F ips) s = Inr p" for F
  proof (cases "FCIDR (sfam F s)")
    case None
    then show ?thesis by (simp add: make_pool_fam_def Let_def)
  next
    case (Some c)
    then obtain l u where "NewIPRangeListFrom (pool_part F ips) = Inr l" "usable_list (net_string c) = Inr u"
      using t [of F] sub_okD(4) [OF s, of F] by (auto simp: cidr_ok_def)
    then show ?thesis using Some q by (simp add: make_pool_fam_def Let_def pool_conflict_def)
  qed
  then obtain p4 p6 where "make_pool_fam F4 name (pool_part F4 ips) s = Inr p4" "make_pool_fam F6 name (pool_part F6 ips) s = Inr p6" by metis
  then show ?thesis using q by (simp add: AddOrUpdateIPPool_def pool_part_def split_beta Let_def)
qed

lemma sample_pool_made: "snd (AddOrUpdateIPPool ''pool'' [''10.0.0.2..10.0.0.3''] sample1) = None"
proof (rule first_pool_made [OF sample1_ok])
  show "map fst (IPPools sample1) = [[]]" by code_simp
  have a: "NewIPRangeListFrom (pool_part F4 [''10.0.0.2..10.0.0.3'']) = Inr [NewIPRange [10,0,0,2] [10,0,0,3]]" by code_simp
  have n: "FCIDR (sfam F6 sample1) = None" by code_simp
  show "\<exists>l. NewIPRangeListFrom (pool_part F [''10.0.0.2..10.0.0.3'']) = Inr l" if "FCIDR (sfam F sample1) \<noteq> None" for F
    using that a n by (cases F) (simp_all del: sfam.simps)
qed

theorem pool_update_partition_witness:
  "pool_texts_ok [''10.0.0.2..10.0.0.3''] sample1 \<and> snd (AddOrUpdateIPPool ''pool'' [''10.0.0.2..10.0.0.3''] sample1) = None \<and>
   (\<exists>p. map_of (IPPools (fst (AddOrUpdateIPPool ''pool'' [''10.0.0.2..10.0.0.3''] sample1))) ''pool'' = Some p \<and>
      rlset (PUsing (pfam F4 p)) = rlset (SUsing (sfam F4 sample1)) \<inter> rlset (PIPs (pfam F4 p)))"
proof -
  have "''pool'' \<noteq> []" by simp
  then show ?thesis
    using sample_pool_texts sample_pool_made pool_update_partition [OF sample1_ok _ sample_pool_texts, of "''pool''"]
    by (auto simp del: sfam.simps pfam.simps split: prod.splits)
qed

text \<open>Removing an IP pool always succeeds: the pool is gone, the default pool has its addresses
  beside its own, every usable address still belongs to exactly one pool, and the lists and
  leases of the subnet are as before.\<close>

theorem pool_removal_returns:
  assumes s: "sub_ok U s" and name: "name \<noteq> []" and p: "map_of (IPPools s) name = Some p" and d: "map_of (IPPools s) [] = Some d"
  shows "\<exists>s' d'. RemoveIPPool name s = Inr s' \<and> sub_ok U s' \<and> map_of (IPPools s') name = None \<and> map_of (IPPools s') [] = Some d' \<and>
    (\<forall>F. sfam F s' = sfam F s \<and> rlset (PIPs (pfam F d')) = rlset (PIPs (pfam F d)) \<union> rlset (PIPs (pfam F p)) \<and>
      (\<forall>x\<in>U F. \<exists>!n. \<exists>q. map_of (IPPools s') n = Some q \<and> x \<in> rlset (PIPs (pfam F q))))"
proof -
  obtain s' where s': "RemoveIPPool name s = Inr s'" "sub_ok U s'" "\<And>F. sfam F s' = sfam F s" "map_of (IPPools s') name = None"
    using RemoveIPPool_ok [OF s name] by metis
  define d' where "d' = \<lparr>PV4 = absorb_pool (PV4 d) (PV4 p), PV6 = absorb_pool (PV6 d) (PV6 p)\<rparr>"
  have "map_of (IPPools s') [] = Some d'" using s'(1) p d name by (auto simp: RemoveIPPool_def Let_def d'_def)
  moreover have "rlset (PIPs (pfam F d')) = rlset (PIPs (pfam F d)) \<union> rlset (PIPs (pfam F p))" for F
  proof -
    note l = sub_okD(2) [OF s, of F]
    have "pfam F d' = absorb_pool (pfam F d) (pfam F p)" by (cases F) (simp_all add: d'_def)
    moreover have "rl_in F (PIPs (pfam F d))" "rl_in F (PIPs (pfam F p))"
      using pool_okD(1) [OF pool_ok_of(1) [OF l d]] pool_okD(1) [OF pool_ok_of(1) [OF l p]] .
    ultimately show ?thesis using rl.elems_mrg [of F "PIPs (pfam F d)" "PIPs (pfam F p)"] by (simp add: absorb_pool_def)
  qed
  ultimately show ?thesis using s' one_pool [OF s'(2)] by blast
qed

theorem pool_removal_returns_witness:
  "\<exists>s d p. map_of (IPPools s) ''pool'' = Some p \<and> map_of (IPPools s) [] = Some d \<and>
   (\<exists>s' d'. RemoveIPPool ''pool'' s = Inr s' \<and> map_of (IPPools s') ''pool'' = None \<and> map_of (IPPools s') [] = Some d' \<and>
     rlset (PIPs (pfam F4 d')) = rlset (PIPs (pfam F4 d)) \<union> rlset (PIPs (pfam F4 p)))"
proof -
  let ?s = "fst (AddOrUpdateIPPool ''pool'' [''10.0.0.2..10.0.0.3''] sample1)"
  have "AddOrUpdateIPPool ''pool'' [''10.0.0.2..10.0.0.3''] sample1 = (?s, None)" using sample_pool_made by (simp add: prod_eq_iff)
  then obtain p where p: "map_of (IPPools ?s) ''pool'' = Some p" using AddOrUpdateIPPool_pool by metis
  have ok: "sub_ok sampleU ?s" by (rule AddOrUpdateIPPool_ok(1) [OF sample1_ok _ sample_pool_texts]) simp
  obtain d where d: "map_of (IPPools ?s) [] = Some d" using sub_okD(5) [OF ok] by blast
  show ?thesis using p d pool_removal_returns [OF ok _ p d] by blast
qed

text \<open>A NIC without a MAC address gets a random one as soon as one draw yields an address that
  no pod has and that is not the gateway's: the loop ends, the address is new to the subnet,
  differs from the gateway's, and is recorded for the NIC and the pod.\<close>

theorem random_mac_fresh:
  assumes "map_of (NicToMac s) nic = None" "buf \<in> set (rnd s)" "\<not> mhas (MacToPod s) (GenerateMac buf)" "GenerateMac buf \<noteq> GatewayMAC s"
  shows "\<exists>s' mac. GetRandomMac pod nic s = (s', Inr mac) \<and> \<not> mhas (MacToPod s) mac \<and> mac \<noteq> GatewayMAC s \<and>
    map_of (MacToPod s') = (map_of (MacToPod s))(mac \<mapsto> pod) \<and> map_of (NicToMac s') = (map_of (NicToMac s))(nic \<mapsto> mac)"
  using assms(1)
proof (cases rule: GetRandomMac_cases [where pod = pod])
  case none
  then show ?thesis using assms by auto
next
  case (mac b rest)
  then show ?thesis using GenerateMac_nonempty [of b] by auto
qed

theorem random_mac_fresh_witness:
  "map_of (NicToMac sample) ''nic'' = None \<and> (\<exists>s' mac. GetRandomMac ''pod'' ''nic'' sample = (s', Inr mac) \<and> \<not> mhas (MacToPod sample) mac)"
proof -
  have h: "map_of (NicToMac sample) ''nic'' = None" "[2,3,4,5,6,7] \<in> set (rnd sample)" "\<not> mhas (MacToPod sample) (GenerateMac [2,3,4,5,6,7])"
    "GenerateMac [2,3,4,5,6,7] \<noteq> GatewayMAC sample" by code_simp+
  show ?thesis using h(1) random_mac_fresh [OF h, of "''pod''"] by blast
qed

text \<open>
  Expanding the excluded addresses of a subnet clips them to its networks: for entries that are
  addresses or ranges and a list of networks the expansion succeeds, and the range lists the
  allocator builds from it hold exactly the named addresses that are usable in a network of
  their family.\<close>

theorem exclude_clipped:
  assumes "\<forall>e\<in>set es. entry_ok e" "\<forall>x\<in>set bs. block_ok x" "bs \<noteq> []"
  shows "\<exists>ips. ExpandExcludeIPs (map etext es) (join '','' (map btext bs)) = Inr ips \<and>
    (\<forall>F. \<exists>l. NewIPRangeListFrom ((case F of F4 \<Rightarrow> fst | F6 \<Rightarrow> snd) (SplitIpsByProtocol ips)) = Inr l \<and>
       rl_in F l \<and> rlset l = eset F es \<inter> bset F bs)"
proof -
  obtain rv where "ExpandExcludeIPs (map etext es) (join '','' (map btext bs)) = Inr (map etext rv)"
    "\<forall>e\<in>set rv. entry_in e" "\<And>G. eset G rv = eset G es \<inter> bset G bs" using ExpandExcludeIPs_spec [OF assms] by metis
  then show ?thesis using NewIPRangeListFrom_entries by metis
qed

theorem exclude_clipped_witness:
  "block_ok (F4, 29, sample_net) \<and> entry_ok (True, F4, [10,0,0,4], [10,0,1,9]) \<and>
   (\<exists>ips. ExpandExcludeIPs [''10.0.0.4..10.0.1.9''] ''10.0.0.0/29'' = Inr ips \<and>
      (\<exists>l. NewIPRangeListFrom (fst (SplitIpsByProtocol ips)) = Inr l \<and>
        rlset l = {ipv [10,0,0,4]..ipv [10,0,1,9]} \<inter> usable F4 29 sample_net))"
proof -
  let ?e = "(True, F4, [10,0,0,4], [10,0,1,9])" and ?b = "(F4, 29, sample_net)"
  have ok: "block_ok ?b" "entry_ok ?e" using sample_fit by (simp_all add: block_ok_def entry_ok_def)
  have t: "map etext [?e] = [''10.0.0.4..10.0.1.9'']" "join '','' (map btext [?b]) = ''10.0.0.0/29''" by code_simp+
  have s: "eset F4 [?e] = {ipv [10,0,0,4]..ipv [10,0,1,9]}" "bset F4 [?b] = usable F4 29 sample_net"
    by (simp_all del: atLeastAtMost_iff)
  have "\<exists>ips. ExpandExcludeIPs (map etext [?e]) (join '','' (map btext [?b])) = Inr ips \<and>
    (\<forall>F. \<exists>l. NewIPRangeListFrom ((case F of F4 \<Rightarrow> fst | F6 \<Rightarrow> snd) (SplitIpsByProtocol ips)) = Inr l \<and>
       rl_in F l \<and> rlset l = eset F [?e] \<inter> bset F [?b])"
    by (rule exclude_clipped) (use ok in simp_all)
  then obtain ips where i: "ExpandExcludeIPs (map etext [?e]) (join '','' (map btext [?b])) = Inr ips"
    "\<exists>l. NewIPRangeListFrom ((case F4 of F4 \<Rightarrow> fst | F6 \<Rightarrow> snd) (SplitIpsByProtocol ips)) = Inr l \<and>
       rl_in F4 l \<and> rlset l = eset F4 [?e] \<inter> bset F4 [?b]" by blast
  then have "\<exists>l. NewIPRangeListFrom (fst (SplitIpsByProtocol ips)) = Inr l \<and>
    rlset l = {ipv [10,0,0,4]..ipv [10,0,1,9]} \<inter> usable F4 29 sample_net" unfolding s fam.case by blast
  then show ?thesis using ok i(1) unfolding t by blast
qed

end
