(* ===== verification/IPAMProps.thy ===== *)
theory IPAMProps
  imports SubnetProps
begin

text \<open>
  The properties of the allocator as a whole, over the states its calls can reach.
\<close>

section \<open>A reachable state\<close>

lemma NewSubnet_shape:
  assumes "NewSubnet draws name cidrStr ex = Inr s" "parse_cidrs (split_char CHR '','' cidrStr) = Some cidrs"
    and "subnet_ranges (CheckProtocol cidrStr) cidrStr cidrs = Inr ((c4, l4), (c6, l6))"
  shows "s = \<lparr>Name = name, CIDR = cidrStr, Protocol = CheckProtocol cidrStr, SV4 = new_fam c4 l4 (SReserved (SV4 s)),
    SV6 = new_fam c6 l6 (SReserved (SV6 s)), NicToMac = [], MacToPod = [], PodToNicList = [], GatewayMAC = [],
    IPPools = [([], \<lparr>PV4 = new_pool_fam l4 (new_fam c4 l4 (SReserved (SV4 s))), PV6 = new_pool_fam l6 (new_fam c6 l6 (SReserved (SV6 s)))\<rparr>)],
    rnd = draws\<rparr>"
proof -
  have f: "SReserved (new_fam c l r) = r" for c l r by (simp add: new_fam_def Let_def)
  show ?thesis using assms by (auto simp: NewSubnet_def Let_def f split: sum.splits prod.splits)
qed

lemma sample_new:
  assumes es: "\<forall>e\<in>set es. entry_ok e" and F4: "eset F4 es \<inter> usable F4 29 sample_net = {ipv [10,0,0,1]}"
  shows "NewSubnet (rnd sample) ''subnet'' (net_string sample_net) (map etext es) = Inr sample"
proof -
  let ?n = "\<lambda>F. case F of F4 \<Rightarrow> Some (29, sample_net) | F6 \<Rightarrow> None"
  have "net_fit F k net" if "?n F = Some (k, net)" for F k net using that sample_fit by (cases F) simp_all
  moreover have "?n F4 \<noteq> None" by simp
  ultimately have n: "nets_fit ?n" unfolding nets_fit_def by blast
  have t: "nets_text ?n = net_string sample_net" "net_list ?n = [sample_net]" "nets_usable ?n F4 = usable F4 29 sample_net" "nets_usable ?n F6 = {}"
    by (simp_all add: nets_text_def net_texts_def net_list_def nets_usable_def)
  obtain s where s: "NewSubnet (rnd sample) ''subnet'' (net_string sample_net) (map etext es) = Inr s" "reserved_ok (nets_usable ?n) s"
    "\<forall>F. rlset (SReserved (sfam F s)) = eset F es \<inter> nets_usable ?n F"
    using NewSubnet_total [OF n es] unfolding t by blast
  obtain l where l: "usable_list (net_string sample_net) = Inr l" "rl_in F4 l" "rlset l = usable F4 29 sample_net"
    using usable_list_net [OF sample_fit] .
  have ll: "l = [NewIPRange [10,0,0,1] [10,0,0,6]]" using rl.wf_unique [OF l(2) sample_ips(1)] l(3) sample_ips(2) by simp
  have r: "rl_in F4 (SReserved (SV4 s))" "rl_in F6 (SReserved (SV6 s))"
    using s(2) [unfolded reserved_ok_def, rule_format, of F4] s(2) [unfolded reserved_ok_def, rule_format, of F6] by simp_all
  have "rlset (SReserved (SV4 s)) = rlset [NewIPRange [10,0,0,1] [10,0,0,1]]"
    using s(3) [rule_format, of F4] F4 t(3) by (simp add: rset_def)
  then have r4: "SReserved (SV4 s) = [NewIPRange [10,0,0,1] [10,0,0,1]]" using rl.wf_unique [OF r(1) sample_ips(3)] by simp
  have "rlset (SReserved (SV6 s)) = {}" using s(3) [rule_format, of F6] t(4) by simp
  then have r6: "SReserved (SV6 s) = NewEmptyIPRangeList" using rl.wf_unique [OF r(2) rl.wf_empty] rl.elems_empty by simp
  have p: "CheckProtocol (net_string sample_net) = ProtocolIPv4" using nets_protocol [OF n] t by simp
  have str: "net_string sample_net = ''10.0.0.0/29''" by code_simp
  have sr: "subnet_ranges (CheckProtocol (net_string sample_net)) (net_string sample_net) [sample_net] =
      Inr ((Some sample_net, [NewIPRange [10,0,0,1] [10,0,0,6]]), (None, NewEmptyIPRangeList))"
    using l(1) by (simp add: subnet_ranges_def p ll)
  have pc: "parse_cidrs (split_char CHR '','' (net_string sample_net)) = Some [sample_net]"
    using split_nets_text [OF n] parse_cidrs_texts [OF n] unfolding t by simp
  have e: "new_fam None NewEmptyIPRangeList NewEmptyIPRangeList = empty_fam" "new_pool_fam NewEmptyIPRangeList empty_fam = empty_pool_fam"
    by code_simp+
  have d: "rnd sample = [[2,3,4,5,6,7], [2,3,4,5,6,8]]" by (simp add: sample_def Let_def)
  have "s = sample"
    by (rule trans [OF NewSubnet_shape [OF s(1) pc sr, unfolded r4 r6 e p d str]]) (simp only: sample_def Let_def p [unfolded str])
  then show ?thesis using s(1) by simp
qed


definition sample_ipam :: IPAM where
  "sample_ipam = \<lparr>Subnets = [(''subnet'', sample)]\<rparr>"

definition sample_ipam1 :: IPAM where
  "sample_ipam1 = fst (IPAM_GetRandomAddressWithFamily ''pod'' ''nic'' None ''subnet'' [] [] [] True sample_ipam)"

lemma sample_reachable: "reachable sample_ipam" "reachable sample_ipam1"
proof -
  let ?n = "\<lambda>F. case F of F4 \<Rightarrow> Some (29, sample_net) | F6 \<Rightarrow> None"
  let ?e = "[(False, F4, [10,0,0,1], [10,0,0,1])]"
  have "net_fit F k net" if "?n F = Some (k, net)" for F k net using that sample_fit by (cases F) simp_all
  moreover have "?n F4 \<noteq> None" by simp
  ultimately have n: "nets_fit ?n" unfolding nets_fit_def by blast
  have t: "nets_text ?n = net_string sample_net" "net_list ?n = [sample_net]" by (simp_all add: nets_text_def net_texts_def net_list_def)
  have e: "\<forall>e\<in>set ?e. entry_ok e" by code_simp
  obtain rv where rv: "ExpandExcludeIPs (map etext ?e) (net_string sample_net) = Inr (map etext rv)" "\<forall>e\<in>set rv. entry_in e"
    "\<And>G. eset G rv = eset G ?e \<inter> nets_usable ?n G" using exclude_nets [OF n e] unfolding t by blast
  have one: "ipv [10,0,0,1] \<in> usable F4 29 sample_net" using sample_ips(4) by (simp add: rset_def)
  have "eset F4 rv \<inter> usable F4 29 sample_net = {ipv [10,0,0,1]}" using rv(3) [of F4] one by (auto simp: nets_usable_def)
  then have new: "NewSubnet (rnd sample) ''subnet'' (net_string sample_net) (map etext rv) = Inr sample"
    using rv(2) entry_in_ok by (intro sample_new) blast+
  have ne: "net_string sample_net \<noteq> []" "CheckProtocol (net_string sample_net) = ProtocolIPv4" using nets_protocol [OF n] t by code_simp+
  have pc: "parse_cidrs (split_char CHR '','' (net_string sample_net)) = Some [sample_net]"
    using split_nets_text [OF n] parse_cidrs_texts [OF n] unfolding t by simp
  have gw: "sample\<lparr>SV4 := (SV4 sample)\<lparr>Gw := []\<rparr>, SV6 := (SV6 sample)\<lparr>Gw := []\<rparr>\<rparr> = sample"
    by (simp add: sample_def Let_def new_fam_def empty_fam_def)
  have "AddOrUpdateSubnet (rnd sample) ''subnet'' (net_string sample_net) [] (map etext ?e) NewIPAM = (sample_ipam, None)"
    using ne pc rv(1) new gw
    by (simp add: AddOrUpdateSubnet_def Let_def subnet_parts_def protocol_distinct NewIPAM_def add_new_subnet_def set_subnet_def mput_def sample_ipam_def)
  then have "ipam_step NewIPAM (AddSubnet (rnd sample) ''subnet'' (net_string sample_net) [] (map etext ?e)) sample_ipam" by (rule add_subnet)
  moreover have "op_ok (AddSubnet (rnd sample) ''subnet'' (net_string sample_net) [] (map etext ?e)) NewIPAM"
    using n e t unfolding op_ok.simps cidr_text_ok_def exclude_ok_def by metis
  ultimately show r: "reachable sample_ipam" by (intro reachable.step [OF reachable.start])
  have "ipam_step sample_ipam (GetRandom ''pod'' ''nic'' None ''subnet'' [] [] []) sample_ipam1"
    unfolding sample_ipam1_def by (rule get_random) (rule prod.collapse [symmetric])
  moreover have "op_ok (GetRandom ''pod'' ''nic'' None ''subnet'' [] [] []) sample_ipam" by (simp add: pod_ok_def)
  ultimately show "reachable sample_ipam1" using r reachable.step by blast
qed

text \<open>The subnet of the sample state, with the address of its NIC.\<close>

lemma sample_ipam1_lease:
  obtains s where "map_of (Subnets sample_ipam1) ''subnet'' = Some s" "map_of (NicToIP (sfam F4 s)) ''nic'' = Some [10,0,0,2]"
proof -
  have "map_option (\<lambda>s. map_of (NicToIP (sfam F4 s)) ''nic'') (map_of (Subnets sample_ipam1) ''subnet'') = Some (Some [10,0,0,2])" by code_simp
  then show ?thesis using that by auto
qed

text \<open>
  The usable addresses of a subnet: none without a network, and otherwise those of the list
  from \<open>FirstIP\<close> to \<open>LastIP\<close> of the network, with which \<open>NewSubnet\<close> starts.\<close>

definition usable_addrs :: "fam \<Rightarrow> Subnet \<Rightarrow> nat set" where
  "usable_addrs F s =
     (case FCIDR (sfam F s) of
        None \<Rightarrow> {}
      | Some c \<Rightarrow> (case usable_list (net_string c) of Inl _ \<Rightarrow> {} | Inr l \<Rightarrow> rlset l))"

lemma usable_addrs_eq: "sub_ok U s \<Longrightarrow> usable_addrs F s = U F"
  by (drule sub_okD(4) [of _ _ F]) (auto simp: usable_addrs_def cidr_ok_def split: option.splits)

section \<open>Properties\<close>

text \<open>C1.
  No address is leased twice: in every state that calls with conflict checks can reach, two
  NICs of a subnet that have the same address are the same NIC. A leased address is in the
  list of addresses in use and in no list of available addresses, and some pod is recorded
  for it.\<close>

theorem no_address_leased_twice:
  assumes "reachable ipam" "map_of (Subnets ipam) name = Some s" "map_of (NicToIP (sfam F s)) nic = Some ip"
  shows "(\<forall>nic'. map_of (NicToIP (sfam F s)) nic' = Some ip \<longrightarrow> nic' = nic) \<and>
    rl_Contains (SUsing (sfam F s)) ip \<and> \<not> rl_Contains (SAvailable (sfam F s)) ip \<and>
    (\<forall>n p. map_of (IPPools s) n = Some p \<longrightarrow> \<not> rl_Contains (PAvailable (pfam F p)) ip \<and> \<not> rl_Contains (PFree (pfam F p)) ip) \<and>
    map_of (IPToPod (sfam F s)) (IP_String ip) \<noteq> None"
proof -
  obtain U where s: "sub_ok U s" using ipam_okD [OF reachable_ok [OF assms(1)] assms(2)] by blast
  note l = sub_okD(2) [OF s, of F]
  note d = lists_okD [OF l] and le = leases_okD [OF sub_okD(3) [OF s, of F]]
  note ip = le(2) [OF assms(3)] and x = le(3) [OF assms(3)]
  have "\<not> rl_Contains (PAvailable (pfam F p)) ip \<and> \<not> rl_Contains (PFree (pfam F p)) ip" if "map_of (IPPools s) n = Some p" for n p
  proof -
    note po = pool_okD [OF pool_ok_of(1) [OF l that]]
    show ?thesis using rl.contains [OF po(3) ip] rl.contains [OF po(2) ip] po(9,10) x by auto
  qed
  moreover have "rl_Contains (SUsing (sfam F s)) ip" "\<not> rl_Contains (SAvailable (sfam F s)) ip"
    using rl.contains [OF d(4) ip] rl.contains [OF d(3) ip] d(7) x by auto
  ultimately show ?thesis using le(4) [OF assms(3)] le(5) [OF assms(3)] by auto
qed

theorem no_address_leased_twice_witness:
  "\<exists>s. reachable sample_ipam1 \<and> map_of (Subnets sample_ipam1) ''subnet'' = Some s \<and>
    map_of (NicToIP (sfam F4 s)) ''nic'' = Some [10,0,0,2] \<and> rl_Contains (SUsing (sfam F4 s)) [10,0,0,2]"
proof -
  obtain s where s: "map_of (Subnets sample_ipam1) ''subnet'' = Some s" "map_of (NicToIP (sfam F4 s)) ''nic'' = Some [10,0,0,2]"
    by (rule sample_ipam1_lease)
  show ?thesis using s sample_reachable(2) no_address_leased_twice [OF sample_reachable(2) s] by blast
qed

text \<open>C2.
  In every reachable state the lists of a subnet are exact. The addresses in use and the reserved
  ones are usable, that is from the first to the last address of the network (a reserved address
  may be in use, when it was asked for by name); the available addresses are the usable ones
  that are neither in use nor reserved; each usable address belongs to
  exactly one pool; the lists of a pool are those of the subnet restricted to the pool; and
  what a pool has available is either still free or was released, never both.\<close>

theorem reachable_lists_exact:
  assumes "reachable ipam" "map_of (Subnets ipam) name = Some s"
  shows "(\<forall>F. rlset (SUsing (sfam F s)) \<subseteq> usable_addrs F s \<and> rlset (SReserved (sfam F s)) \<subseteq> usable_addrs F s \<and>
       rlset (SAvailable (sfam F s)) = usable_addrs F s - rlset (SUsing (sfam F s)) - rlset (SReserved (sfam F s)) \<and>
       (\<forall>c ip. FCIDR (sfam F s) = Some c \<and> ip_in F ip \<and> ipv ip \<in> usable_addrs F s \<longrightarrow> net_contains c ip) \<and>
       (\<forall>x\<in>usable_addrs F s. \<exists>!n. \<exists>p. map_of (IPPools s) n = Some p \<and> x \<in> rlset (PIPs (pfam F p)))) \<and>
     (\<forall>F n p. map_of (IPPools s) n = Some p \<longrightarrow>
       rlset (PUsing (pfam F p)) = rlset (SUsing (sfam F s)) \<inter> rlset (PIPs (pfam F p)) \<and>
       rlset (PReserved (pfam F p)) = rlset (SReserved (sfam F s)) \<inter> rlset (PIPs (pfam F p)) \<and>
       rlset (PAvailable (pfam F p)) = rlset (SAvailable (sfam F s)) \<inter> rlset (PIPs (pfam F p)) \<and>
       rlset (PFree (pfam F p)) \<union> rlset (PReleased (pfam F p)) = rlset (PAvailable (pfam F p)) \<and>
       rlset (PFree (pfam F p)) \<inter> rlset (PReleased (pfam F p)) = {})"
proof -
  obtain U where s: "sub_ok U s" using ipam_okD [OF reachable_ok [OF assms(1)] assms(2)] by blast
  note d = lists_okD [OF sub_okD(2) [OF s]]
  have c: "\<forall>c ip. FCIDR (sfam F s) = Some c \<and> ip_in F ip \<and> ipv ip \<in> U F \<longrightarrow> net_contains c ip" for F
    using sub_okD(4) [OF s, of F] by (cases "FCIDR (sfam F s)") (simp_all add: cidr_ok_def)
  have o: "\<forall>x\<in>U F. \<exists>!n. \<exists>p. map_of (IPPools s) n = Some p \<and> x \<in> rlset (PIPs (pfam F p))" for F
    using one_pool [OF s] by blast
  note subnet = d(6) d(5) d(7) c o
  note pool = pool_okD(7-11) [OF pool_ok_of(1) [OF sub_okD(2) [OF s]]]
  have av: "rlset (PAvailable (pfam F p)) = rlset (SAvailable (sfam F s)) \<inter> rlset (PIPs (pfam F p))" if "map_of (IPPools s) n = Some p" for F n p
    using pool(3) [OF that, of F] d(7) [of F] by blast
  show ?thesis unfolding usable_addrs_eq [OF s]
    by (intro conjI allI impI) (rule subnet subnet(4) [rule_format] | erule pool(1) pool(2) pool(4) pool(5) av conjI | blast intro: subnet(4) [rule_format])+
qed

theorem reachable_lists_exact_witness:
  "\<exists>s. reachable sample_ipam1 \<and> map_of (Subnets sample_ipam1) ''subnet'' = Some s \<and>
    usable_addrs F4 s \<noteq> {} \<and> rlset (SUsing (sfam F4 s)) \<noteq> {} \<and>
    rlset (SAvailable (sfam F4 s)) = usable_addrs F4 s - rlset (SUsing (sfam F4 s)) - rlset (SReserved (sfam F4 s))"
proof -
  obtain s where s: "map_of (Subnets sample_ipam1) ''subnet'' = Some s" "map_of (NicToIP (sfam F4 s)) ''nic'' = Some [10,0,0,2]"
    by (rule sample_ipam1_lease)
  obtain U where "sub_ok U s" using ipam_okD [OF reachable_ok [OF sample_reachable(2)] s(1)] by blast
  then have "ipv [10,0,0,2] \<in> rlset (SUsing (sfam F4 s))" using leases_okD(3) [OF sub_okD(3) s(2)] by blast
  moreover note reachable_lists_exact [OF sample_reachable(2) s(1), THEN conjunct1, rule_format, of F4]
  ultimately show ?thesis using s(1) sample_reachable(2) by (intro exI [of _ s] conjI) blast+
qed

text \<open>C23.
  In every reachable state a release returns, for a pod or for one NIC, in one subnet or in
  all: it never reads a missing network, and the state it leaves is reachable again.\<close>

theorem release_always_returns:
  assumes "reachable ipam"
  shows "(\<exists>ipam'. ReleaseAddressByPod pod subnet ipam = Inr ipam' \<and> reachable ipam') \<and>
    (\<exists>ipam'. ReleaseAddressByNic pod nic subnet ipam = Inr ipam' \<and> reachable ipam')"
proof -
  note i = reachable_ok [OF assms]
  obtain a b where a: "ReleaseAddressByPod pod subnet ipam = Inr a" and b: "ReleaseAddressByNic pod nic subnet ipam = Inr b"
    using release_in_ok [OF i, of "ReleaseAddress pod" subnet] release_in_ok [OF i, of "ReleaseAddressWithNicName pod nic" subnet]
      ReleaseAddress_ok ReleaseAddressWithNicName_ok
    unfolding ReleaseAddressByPod_def ReleaseAddressByNic_def by metis
  have "reachable a" by (rule reachable.step [OF assms _ release_pod [OF a]]) simp
  moreover have "reachable b" by (rule reachable.step [OF assms _ release_nic [OF b]]) simp
  ultimately show ?thesis using a b by blast
qed

theorem release_always_returns_witness:
  "reachable sample_ipam1 \<and> (\<exists>ipam'. ReleaseAddressByPod ''pod'' ''subnet'' sample_ipam1 = Inr ipam' \<and> reachable ipam')"
  using sample_reachable(2) release_always_returns [OF sample_reachable(2), of "''pod''" "''subnet''"] by blast

end
