(* ===== verification/ServiceCIDR.thy ===== *)
theory ServiceCIDR
  imports UtilNet
begin

text \<open>
  pkg/util/servicecidr_store.go: the merged set of Service CIDRs. The store is a record; a
  handler is a name, the debounce timer is a flag (\<open>AfterFunc\<close> sets it, its expiry runs
  \<open>fireOnChange\<close>), and SHA-256 is an argument of \<open>Hash\<close>. The lemmas show that the cached
  list is always the merge of the two sources, whatever the order of the map, and that the
  handlers are scheduled exactly when it changes.
\<close>

section \<open>The code\<close>

record condition =
  cond_type :: string
  cond_status :: string

record ServiceCIDRObject =
  spec_cidrs :: "string list"
  conditions :: "condition list"

fun ready_loop :: "string list \<Rightarrow> condition list \<Rightarrow> string list" where
  "ready_loop cidrs [] = []"
| "ready_loop cidrs (cond # conds) =
     (if cond_type cond = ''Ready'' then (if cond_status cond = ''True'' then cidrs else [])
      else ready_loop cidrs conds)"

definition ReadyServiceCIDRs :: "ServiceCIDRObject option \<Rightarrow> string list" where
  "ReadyServiceCIDRs sc =
     (case sc of None \<Rightarrow> [] | Some obj \<Rightarrow> ready_loop (spec_cidrs obj) (conditions obj))"

record ServiceCIDRStore =
  fallback :: "string list"
  fromAPI :: "(string, string list) gomap"
  handlers :: "string list"
  debounce :: bool
  cached :: "string list"

text \<open>The closure \<open>add\<close> of \<open>merged\<close>; \<open>seen\<close> has the elements of \<open>out\<close>.\<close>

definition add_cidr :: "string list \<Rightarrow> string \<Rightarrow> string list" where
  "add_cidr out cidr =
     (let c = TrimSpace cidr in
      if c = [] then out
      else if CheckProtocol c = [] then out
      else if c \<in> set out then out
      else out @ [c])"

definition merged :: "ServiceCIDRStore \<Rightarrow> string list" where
  "merged s =
     (let out = foldl (\<lambda>out (n, cidrs). foldl add_cidr out cidrs) [] (fromAPI s);
          out' = (if length out = 0 then foldl add_cidr out (fallback s) else out)
      in sort_strings out')"

definition NewServiceCIDRStore :: "string \<Rightarrow> ServiceCIDRStore" where
  "NewServiceCIDRStore flagValue =
     (let (v4, v6) = SplitStringIP flagValue;
          fb = (if v4 \<noteq> [] then [v4] else []) @ (if v6 \<noteq> [] then [v6] else []);
          s = \<lparr>fallback = fb, fromAPI = [], handlers = [], debounce = False, cached = []\<rparr>
      in s\<lparr>cached := merged s\<rparr>)"

definition AllCIDRs :: "ServiceCIDRStore \<Rightarrow> string list" where
  "AllCIDRs s = cached s"

definition byProtocol :: "string \<Rightarrow> ServiceCIDRStore \<Rightarrow> string list" where
  "byProtocol proto s = filter (\<lambda>cidr. CheckProtocol cidr = proto) (cached s)"

definition V4CIDRs :: "ServiceCIDRStore \<Rightarrow> string list" where
  "V4CIDRs s = byProtocol ProtocolIPv4 s"

definition V6CIDRs :: "ServiceCIDRStore \<Rightarrow> string list" where
  "V6CIDRs s = byProtocol ProtocolIPv6 s"

definition Hash :: "(bytes \<Rightarrow> bytes) \<Rightarrow> ServiceCIDRStore \<Rightarrow> string" where
  "Hash sha256 s =
     concat (map hex2 (sha256 (concat (map (\<lambda>cidr. map (\<lambda>c. of_char c) cidr @ [0]) (cached s)))))"

definition recomputeLocked :: "ServiceCIDRStore \<Rightarrow> ServiceCIDRStore \<times> bool" where
  "recomputeLocked s =
     (let nxt = merged s in if cached s = nxt then (s, False) else (s\<lparr>cached := nxt\<rparr>, True))"

definition scheduleFire :: "ServiceCIDRStore \<Rightarrow> ServiceCIDRStore" where
  "scheduleFire s = s\<lparr>debounce := True\<rparr>"

definition UpsertFromAPI :: "string \<Rightarrow> string list \<Rightarrow> ServiceCIDRStore \<Rightarrow> ServiceCIDRStore \<times> bool" where
  "UpsertFromAPI name cidrs s =
     (let cleaned = filter (\<lambda>c. c \<noteq> []) (map TrimSpace cidrs) in
      if mget0 (fromAPI s) name = cleaned then (s, False)
      else let (s1, changed) = recomputeLocked (s\<lparr>fromAPI := mput name cleaned (fromAPI s)\<rparr>)
           in (if changed then scheduleFire s1 else s1, changed))"

definition DeleteFromAPI :: "string \<Rightarrow> ServiceCIDRStore \<Rightarrow> ServiceCIDRStore \<times> bool" where
  "DeleteFromAPI name s =
     (if \<not> mhas (fromAPI s) name then (s, False)
      else let (s1, changed) = recomputeLocked (s\<lparr>fromAPI := mdel name (fromAPI s)\<rparr>)
           in (if changed then scheduleFire s1 else s1, changed))"

definition OnChange :: "string \<Rightarrow> ServiceCIDRStore \<Rightarrow> ServiceCIDRStore" where
  "OnChange h s = s\<lparr>handlers := handlers s @ [h]\<rparr>"

text \<open>The expiry of the timer: the handlers it starts.\<close>

definition fireOnChange :: "ServiceCIDRStore \<Rightarrow> ServiceCIDRStore \<times> string list" where
  "fireOnChange s = (s\<lparr>debounce := False\<rparr>, handlers s)"

section \<open>The merged list\<close>

text \<open>The entries that count: trimmed, not empty, with a protocol.\<close>

definition valid_cidrs :: "string list \<Rightarrow> string set" where
  "valid_cidrs cidrs = {TrimSpace c |c. c \<in> set cidrs \<and> TrimSpace c \<noteq> [] \<and> CheckProtocol (TrimSpace c) \<noteq> []}"

lemma valid_cidrs_simps [simp]:
  "valid_cidrs [] = {}"
  "valid_cidrs (c # cs) =
     (if TrimSpace c \<noteq> [] \<and> CheckProtocol (TrimSpace c) \<noteq> [] then {TrimSpace c} else {}) \<union> valid_cidrs cs"
  by (auto simp: valid_cidrs_def)

lemma valid_cidrs_append [simp]: "valid_cidrs (xs @ ys) = valid_cidrs xs \<union> valid_cidrs ys"
  by (auto simp: valid_cidrs_def)

lemma foldl_add_cidr:
  "distinct out \<Longrightarrow> distinct (foldl add_cidr out cidrs) \<and> set (foldl add_cidr out cidrs) = set out \<union> valid_cidrs cidrs"
proof (induction cidrs arbitrary: out)
  case (Cons c cs)
  have "distinct (add_cidr out c)" "set (add_cidr out c) = set out \<union> valid_cidrs [c]"
    using Cons.prems by (auto simp: add_cidr_def Let_def)
  with Cons.IH [of "add_cidr out c"] show ?case by auto
qed simp

definition api_cidrs :: "(string, string list) gomap \<Rightarrow> string set" where
  "api_cidrs m = (\<Union>(n, cidrs)\<in>set m. valid_cidrs cidrs)"

lemma foldl_add_api:
  "distinct out \<Longrightarrow> distinct (foldl (\<lambda>out (n, cidrs). foldl add_cidr out cidrs) out m) \<and>
     set (foldl (\<lambda>out (n, cidrs). foldl add_cidr out cidrs) out m) = set out \<union> api_cidrs m"
proof (induction m arbitrary: out)
  case (Cons p m)
  obtain n cidrs where p: "p = (n, cidrs)" by (cases p)
  show ?case
    using Cons.IH [of "foldl add_cidr out cidrs"] foldl_add_cidr [OF Cons.prems, of cidrs]
    by (auto simp: p api_cidrs_def)
qed (simp add: api_cidrs_def)

definition effective_cidrs :: "ServiceCIDRStore \<Rightarrow> string set" where
  "effective_cidrs s =
     (if api_cidrs (fromAPI s) = {} then valid_cidrs (fallback s) else api_cidrs (fromAPI s))"

lemma merged_spec:
  "distinct (merged s) \<and> sorted_wrt str_le (merged s) \<and> set (merged s) = effective_cidrs s"
proof -
  define out where "out = foldl (\<lambda>out (n, cidrs). foldl add_cidr out cidrs) [] (fromAPI s)"
  have out: "distinct out" "set out = api_cidrs (fromAPI s)"
    using foldl_add_api [of "[]" "fromAPI s"] by (simp_all add: out_def)
  have "length out = 0 \<longleftrightarrow> api_cidrs (fromAPI s) = {}" using out by (metis length_0_conv set_empty)
  then show ?thesis
    using out foldl_add_cidr [OF out(1), of "fallback s"]
    by (auto simp: merged_def Let_def effective_cidrs_def sorted_sort_strings simp flip: out_def)
qed

text \<open>A sorted list without repetition is determined by its elements.\<close>

lemma str_le_antisym: "str_le s t \<Longrightarrow> str_le t s \<Longrightarrow> s = t"
proof (induction s t rule: str_le.induct)
  case (1 t)
  then show ?case by (cases t) auto
qed (auto split: if_splits)

lemma sorted_strings_unique:
  "sorted_wrt str_le xs \<Longrightarrow> distinct xs \<Longrightarrow> sorted_wrt str_le ys \<Longrightarrow> distinct ys \<Longrightarrow> set xs = set ys \<Longrightarrow> xs = ys"
proof (induction xs arbitrary: ys)
  case (Cons x xs)
  then obtain y zs where ys: "ys = y # zs" by (cases ys) auto
  have "x = y"
    using Cons.prems ys str_le_antisym [of x y] by (metis list.set_intros(1) set_ConsD sorted_wrt.simps(2))
  moreover have "set xs = set zs" using Cons.prems ys \<open>x = y\<close> by auto
  ultimately show ?case using Cons ys by auto
qed simp

lemma merged_cong: "effective_cidrs s = effective_cidrs t \<Longrightarrow> merged s = merged t"
  using merged_spec [of s] merged_spec [of t] by (intro sorted_strings_unique) auto

section \<open>The cache\<close>

inductive store_reach :: "ServiceCIDRStore \<Rightarrow> bool" where
  new: "store_reach (NewServiceCIDRStore flagValue)"
| upsert: "store_reach s \<Longrightarrow> store_reach (fst (UpsertFromAPI name cidrs s))"
| del: "store_reach s \<Longrightarrow> store_reach (fst (DeleteFromAPI name s))"
| on_change: "store_reach s \<Longrightarrow> store_reach (OnChange h s)"
| fire: "store_reach s \<Longrightarrow> debounce s \<Longrightarrow> store_reach (fst (fireOnChange s))"

lemma merged_update [simp]:
  "merged (s\<lparr>cached := c\<rparr>) = merged s" "merged (s\<lparr>debounce := b\<rparr>) = merged s" "merged (s\<lparr>handlers := h\<rparr>) = merged s"
  by (simp_all add: merged_def Let_def)

lemma recomputeLocked_cached: "cached (fst (recomputeLocked s)) = merged (fst (recomputeLocked s))"
  by (simp add: recomputeLocked_def Let_def)

lemma store_step_cached:
  "cached s = merged s \<Longrightarrow> cached (fst (UpsertFromAPI name cidrs s)) = merged (fst (UpsertFromAPI name cidrs s))"
  "cached s = merged s \<Longrightarrow> cached (fst (DeleteFromAPI name s)) = merged (fst (DeleteFromAPI name s))"
  using recomputeLocked_cached
  by (auto simp: UpsertFromAPI_def DeleteFromAPI_def Let_def scheduleFire_def split: prod.splits)
    (metis fst_conv merged_update(2))+

lemma store_reach_cached: "store_reach s \<Longrightarrow> cached s = merged s"
proof (induction rule: store_reach.induct)
  case (new flagValue)
  have "cached (s\<lparr>cached := merged s\<rparr>) = merged (s\<lparr>cached := merged s\<rparr>)" for s :: ServiceCIDRStore by simp
  then show ?case unfolding NewServiceCIDRStore_def Let_def by (simp only: split_beta)
qed (simp_all add: store_step_cached OnChange_def fireOnChange_def)

text \<open>What an upsert or a delete does once it has changed the map.\<close>

lemma effective_update [simp]:
  "effective_cidrs (t\<lparr>cached := x\<rparr>) = effective_cidrs t" "effective_cidrs (t\<lparr>debounce := b\<rparr>) = effective_cidrs t"
  by (simp_all add: effective_cidrs_def)

lemma commit_api:
  assumes "cached s = merged s"
  defines "r m \<equiv> (case recomputeLocked (s\<lparr>fromAPI := m\<rparr>) of (s1, changed) \<Rightarrow> (if changed then scheduleFire s1 else s1, changed))"
  shows "(snd (r m) \<longleftrightarrow> effective_cidrs (fst (r m)) \<noteq> effective_cidrs s) \<and> debounce (fst (r m)) = (debounce s \<or> snd (r m))"
proof -
  have "merged s = merged (s\<lparr>fromAPI := m\<rparr>) \<longleftrightarrow> effective_cidrs s = effective_cidrs (s\<lparr>fromAPI := m\<rparr>)"
    using merged_cong [of s "s\<lparr>fromAPI := m\<rparr>"] merged_spec [of s] merged_spec [of "s\<lparr>fromAPI := m\<rparr>"] by auto
  then show ?thesis using assms(1) by (auto simp: r_def recomputeLocked_def scheduleFire_def Let_def)
qed

section \<open>Properties\<close>

text \<open>C40.
  In every reachable state of the store the CIDRs it serves are sorted, without repetition,
  and exactly the valid CIDRs of the ServiceCIDR objects, or those of the flag when the
  objects give none; so they do not depend on the order in which the objects are visited.\<close>

theorem AllCIDRs_effective:
  assumes "store_reach s"
  shows "distinct (AllCIDRs s) \<and> sorted_wrt str_le (AllCIDRs s) \<and> set (AllCIDRs s) = effective_cidrs s \<and>
    set (V4CIDRs s) = {c \<in> effective_cidrs s. CheckProtocol c = ProtocolIPv4} \<and>
    set (V6CIDRs s) = {c \<in> effective_cidrs s. CheckProtocol c = ProtocolIPv6}"
  using store_reach_cached [OF assms] merged_spec [of s]
  by (simp add: AllCIDRs_def V4CIDRs_def V6CIDRs_def byProtocol_def)

theorem AllCIDRs_effective_witness:
  "AllCIDRs (fst (UpsertFromAPI ''kubernetes'' [''10.96.0.0/12''] (NewServiceCIDRStore ''10.0.0.0/8''))) = [''10.96.0.0/12''] \<and>
   set (AllCIDRs (fst (UpsertFromAPI ''kubernetes'' [''10.96.0.0/12''] (NewServiceCIDRStore ''10.0.0.0/8''))))
   = effective_cidrs (fst (UpsertFromAPI ''kubernetes'' [''10.96.0.0/12''] (NewServiceCIDRStore ''10.0.0.0/8'')))"
proof -
  have r: "store_reach (fst (UpsertFromAPI ''kubernetes'' [''10.96.0.0/12''] (NewServiceCIDRStore ''10.0.0.0/8'')))"
    by (intro store_reach.intros)
  have "AllCIDRs (fst (UpsertFromAPI ''kubernetes'' [''10.96.0.0/12''] (NewServiceCIDRStore ''10.0.0.0/8''))) = [''10.96.0.0/12'']"
    by code_simp
  then show ?thesis using AllCIDRs_effective [OF r] by blast
qed

text \<open>From a reachable state, an upsert or a delete reports a change exactly when the set of
  effective CIDRs changes, and then, and only then, a round of handler calls is scheduled.\<close>

theorem change_reported:
  assumes "store_reach s" "r = UpsertFromAPI name cidrs s \<or> r = DeleteFromAPI name s"
  shows "(snd r \<longleftrightarrow> effective_cidrs (fst r) \<noteq> effective_cidrs s) \<and> debounce (fst r) = (debounce s \<or> snd r)"
proof -
  note c = commit_api [OF store_reach_cached [OF assms(1)]]
  from assms(2) show ?thesis
  proof
    assume "r = UpsertFromAPI name cidrs s"
    then show ?thesis
      using c [of "mput name (filter (\<lambda>c. c \<noteq> []) (map TrimSpace cidrs)) (fromAPI s)"]
      by (cases "mget0 (fromAPI s) name = filter (\<lambda>c. c \<noteq> []) (map TrimSpace cidrs)") (simp_all add: UpsertFromAPI_def Let_def)
  next
    assume "r = DeleteFromAPI name s"
    then show ?thesis
      using c [of "mdel name (fromAPI s)"]
      by (cases "mhas (fromAPI s) name") (simp_all add: DeleteFromAPI_def Let_def)
  qed
qed

theorem change_reported_witness:
  "snd (UpsertFromAPI ''x'' [''10.96.0.0/12''] (NewServiceCIDRStore ''10.0.0.0/8'')) \<and>
   effective_cidrs (fst (UpsertFromAPI ''x'' [''10.96.0.0/12''] (NewServiceCIDRStore ''10.0.0.0/8'')))
     \<noteq> effective_cidrs (NewServiceCIDRStore ''10.0.0.0/8'')"
proof -
  have "snd (UpsertFromAPI ''x'' [''10.96.0.0/12''] (NewServiceCIDRStore ''10.0.0.0/8''))" by code_simp
  then show ?thesis using change_reported [OF store_reach.new disjI1 [OF refl]] by blast
qed

end
