(* ===== verification/Supervisor.thy ===== *)
theory Supervisor
  imports NetText
begin

text \<open>
  The recovery supervisor of an OpenBFDD child, pkg/bfddsupervisor/recovery.go: one recovery
  episode per expected BFD session, an escalation of recovery actions with backoffs, a circuit
  breaker for sessions and one for restarts of the child process, the liveness and readiness
  it reports, and the state file that carries the episodes over a restart.

  A call of the supervisor is a function of its state and of an \<open>env\<close>, the answers the call gets
  from outside: the readings of the clock, the reply of \<open>control.Status\<close>, the results of the
  recovery action and of the writes of the state file. It returns the new state, the list of
  the calls it made to the outside in their order, and the error. \<open>reconcileMutex\<close> makes the
  calls of \<open>Reconcile\<close> and \<open>StartChild\<close> follow one another, so a run is a sequence of them.

  Instants are integers, nanoseconds after Go's zero \<open>time.Time\<close>, so \<open>IsZero\<close> is equality
  with 0. Counters start at 0 and only grow, so they are natural numbers. An error is its text.
\<close>

section \<open>Addresses of net/netip\<close>

text \<open>An address has its 16 bytes, its \<open>BitLen\<close> and its zone.\<close>

record Addr =
  abytes :: bytes
  abits :: nat
  azone :: string

definition ParseAddr :: "string \<Rightarrow> Addr option" where
  "ParseAddr s =
     (case find (\<lambda>c. c \<in> {CHR ''.'', CHR '':'', CHR ''%''}) s of
        None \<Rightarrow> None
      | Some c \<Rightarrow>
          if c = CHR ''%'' then None
          else if c = CHR ''.'' then
            map_option (\<lambda>fs. \<lparr>abytes = v4InV6Prefix @ map word_of_nat fs, abits = 32, azone = []\<rparr>) (parse_v4 s)
          else case cut ''%'' s of
              None \<Rightarrow> map_option (\<lambda>gs. \<lparr>abytes = groups_bytes gs, abits = 128, azone = []\<rparr>) (parse_v6 s)
            | Some (a, z) \<Rightarrow>
                if z = [] then None
                else map_option (\<lambda>gs. \<lparr>abytes = groups_bytes gs, abits = 128, azone = z\<rparr>) (parse_v6 a))"

definition Is4 :: "Addr \<Rightarrow> bool" where
  "Is4 a = (abits a = 32)"

text \<open>\<open>Addr.String\<close>: a mapped address keeps its prefix.\<close>

definition Addr_String :: "Addr \<Rightarrow> string" where
  "Addr_String a =
     (let z = (if azone a = [] then [] else ''%'' @ azone a) in
      if Is4 a then v4_string (drop 12 (abytes a))
      else if take 12 (abytes a) = v4InV6Prefix then ''::ffff:'' @ v4_string (drop 12 (abytes a)) @ z
      else v6_string (groups16 (abytes a)) @ z)"

section \<open>Data\<close>

type_synonym Time = int
type_synonym Duration = int

datatype SessionState = SessionUp | SessionDown | SessionInit | SessionAdminDown

datatype RecoveryPhase = RecoveryUp | RecoveryGrace | RecoveryBackoff | RecoveryCircuitOpen

datatype RecoveryAction = RecoveryNone | RecoveryReplay | RecoveryReset | RecoveryRestartChild

record SessionPair =
  Local :: string
  Remote :: string

record Session =
  ID :: "32 word"
  SLocal :: string
  SRemote :: string
  SState :: SessionState

record DaemonConfig =
  MinTXMilliseconds :: int
  MinRXMilliseconds :: int
  Multiplier :: int
  PeerIPs :: "string list"

record SupervisorConfig =
  Daemon :: DaemonConfig
  PodIPs :: "string list"
  GracePeriod :: Duration
  StablePeriod :: Duration
  Backoffs :: "Duration list"
  ChildBackoffs :: "Duration list"
  CircuitOpen :: Duration
  StatePath :: string

text \<open>The state of a session that is not reported is the empty string in Go, here \<open>None\<close>.\<close>

record SessionRecoveryStatus =
  EPair :: SessionPair
  EState :: "SessionState option"
  Phase :: RecoveryPhase
  Attempts :: nat
  LastAction :: RecoveryAction
  LastResult :: string
  NextRetry :: Time

record SupervisorStatus =
  Live :: bool
  Ready :: bool
  Sessions :: "SessionRecoveryStatus list"
  ControlFailures :: nat
  LastControlError :: string
  ChildRestarts :: nat
  ChildRecoveryAttempts :: nat
  ChildNextRetry :: Time
  ChildCircuitOpen :: bool

record recoveryEpisode = SessionRecoveryStatus +
  failingSince :: Time
  stableSince :: Time
  circuitUntil :: Time

record persistentEpisode =
  PStatus :: SessionRecoveryStatus
  PFailingSince :: Time
  PStableSince :: Time
  PCircuitUntil :: Time

record persistentState =
  PEpisodes :: "(string, persistentEpisode) gomap"
  PChildRestarts :: nat
  PChildRecoveryAttempts :: nat
  PChildNextRetry :: Time
  PChildCircuitUntil :: Time

record Supervisor =
  config :: SupervisorConfig
  expected :: "SessionPair list"
  episodes :: "(string, recoveryEpisode) gomap"
  status :: SupervisorStatus
  controlFailures :: nat
  childRecoveryAttempts :: nat
  childNextRetry :: Time
  childCircuitUntil :: Time
  childBootstrapAttempted :: bool
  inheritedCircuitUntil :: Time

text \<open>A pending action points to its episode by the key of the map.\<close>

record pendingRecoveryAction =
  pepisode :: "string option"
  ppair :: SessionPair
  paction :: RecoveryAction
  childHalfOpen :: bool

text \<open>The calls to the outside, and the answers a call gets.\<close>

datatype io = DoSave persistentState | DoConfigure DaemonConfig | DoReset SessionPair | DoRestart

record env =
  clock :: "nat \<Rightarrow> Time"
  running :: "nat \<Rightarrow> bool"
  control_status :: "string + Session list"
  action_result :: "string option"
  save_result :: "nat \<Rightarrow> string option"

section \<open>The circuit breaker of the child\<close>

definition IsZero :: "Time \<Rightarrow> bool" where
  "IsZero t = (t = 0)"

definition pairKey :: "SessionPair \<Rightarrow> string" where
  "pairKey pair = Local pair @ ''|'' @ Remote pair"

definition childCircuitOpenLocked :: "Time \<Rightarrow> Supervisor \<Rightarrow> bool" where
  "childCircuitOpenLocked now s = (\<not> IsZero (childCircuitUntil s) \<and> now < childCircuitUntil s)"

definition childHalfOpenDueLocked :: "Time \<Rightarrow> Supervisor \<Rightarrow> bool" where
  "childHalfOpenDueLocked now s =
     (childRecoveryAttempts s > length (ChildBackoffs (config s)) \<and>
      \<not> IsZero (childNextRetry s) \<and> \<not> now < childNextRetry s)"

definition childCircuitFailsLivenessLocked :: "Time \<Rightarrow> Supervisor \<Rightarrow> bool" where
  "childCircuitFailsLivenessLocked now s =
     (childCircuitOpenLocked now s \<and>
      (IsZero (inheritedCircuitUntil s) \<or> childCircuitUntil s \<noteq> inheritedCircuitUntil s))"

definition reserveChildRestartLocked :: "Time \<Rightarrow> Supervisor \<Rightarrow> Supervisor \<times> bool" where
  "reserveChildRestartLocked now s =
     (if \<not> IsZero (childNextRetry s) \<and> now < childNextRetry s then (s, False)
      else
        let n = childRecoveryAttempts s + 1; bs = ChildBackoffs (config s) in
        if n > length bs then
          let t = now + CircuitOpen (config s) in
          (s\<lparr>childRecoveryAttempts := n, childCircuitUntil := t, childNextRetry := t\<rparr>, True)
        else
          (s\<lparr>childRecoveryAttempts := n, childNextRetry := now + bs ! min (n - 1) (length bs - 1), childCircuitUntil := 0\<rparr>, True))"

section \<open>Liveness and the reported status\<close>

definition set_live :: "bool \<Rightarrow> Supervisor \<Rightarrow> Supervisor" where
  "set_live b s = s\<lparr>status := (status s)\<lparr>Live := b\<rparr>\<rparr>"

definition set_ready :: "bool \<Rightarrow> Supervisor \<Rightarrow> Supervisor" where
  "set_ready b s = s\<lparr>status := (status s)\<lparr>Ready := b\<rparr>\<rparr>"

definition updateLivenessLocked :: "Time \<Rightarrow> Supervisor \<Rightarrow> Supervisor" where
  "updateLivenessLocked now s = set_live (\<not> childCircuitFailsLivenessLocked now s) s"

definition updateChildRunningLivenessLocked :: "bool \<Rightarrow> Time \<Rightarrow> Supervisor \<Rightarrow> Supervisor" where
  "updateChildRunningLivenessLocked run now s = set_live (run \<and> \<not> childCircuitFailsLivenessLocked now s) s"

definition updateControlFailureLivenessLocked :: "bool \<Rightarrow> Time \<Rightarrow> Supervisor \<Rightarrow> Supervisor" where
  "updateControlFailureLivenessLocked run now s =
     (if run then updateLivenessLocked now s
      else if childCircuitFailsLivenessLocked now s then set_live False s
      else set_live (\<not> IsZero (childNextRetry s) \<and> now < childNextRetry s) s)"

text \<open>
  \<open>NewSupervisor\<close> makes an episode for every expected pair and none is ever deleted; the
  lookup without an entry does not occur.
\<close>

definition new_episode :: "SessionPair \<Rightarrow> recoveryEpisode" where
  "new_episode pair = \<lparr>EPair = pair, EState = None, Phase = RecoveryGrace, Attempts = 0, LastAction = RecoveryNone,
     LastResult = [], NextRetry = 0, failingSince = 0, stableSince = 0, circuitUntil = 0\<rparr>"

definition episode :: "Supervisor \<Rightarrow> SessionPair \<Rightarrow> recoveryEpisode" where
  "episode s pair = (case map_of (episodes s) (pairKey pair) of None \<Rightarrow> new_episode pair | Some e \<Rightarrow> e)"

definition set_episode :: "SessionPair \<Rightarrow> recoveryEpisode \<Rightarrow> Supervisor \<Rightarrow> Supervisor" where
  "set_episode pair e s = s\<lparr>episodes := mput (pairKey pair) e (episodes s)\<rparr>"

definition refreshStatusLocked :: "Time \<Rightarrow> Supervisor \<Rightarrow> Supervisor" where
  "refreshStatusLocked now s =
     s\<lparr>status := (status s)\<lparr>Sessions := map (\<lambda>pair. SessionRecoveryStatus.truncate (episode s pair)) (expected s),
        ChildRecoveryAttempts := childRecoveryAttempts s, ChildNextRetry := childNextRetry s,
        ChildCircuitOpen := childCircuitOpenLocked now s\<rparr>\<rparr>"

section \<open>One episode\<close>

definition markEpisodeUpLocked :: "SupervisorConfig \<Rightarrow> Time \<Rightarrow> SessionPair \<Rightarrow> recoveryEpisode \<Rightarrow> recoveryEpisode" where
  "markEpisodeUpLocked cfg now pair e0 =
     (let e = e0\<lparr>Phase := RecoveryUp\<rparr> in
      if IsZero (stableSince e) then e\<lparr>stableSince := now\<rparr>
      else if now < stableSince e + StablePeriod cfg then e
      else e\<lparr>EPair := pair, EState := Some SessionUp, Phase := RecoveryUp, Attempts := 0, LastAction := RecoveryNone,
             LastResult := [], NextRetry := 0, failingSince := 0, circuitUntil := 0\<rparr>)"

definition markEpisodeWaitingLocked :: "Time \<Rightarrow> recoveryEpisode \<Rightarrow> recoveryEpisode" where
  "markEpisodeWaitingLocked now e =
     (if \<not> IsZero (circuitUntil e) \<and> now < circuitUntil e then e\<lparr>Phase := RecoveryCircuitOpen\<rparr>
      else e\<lparr>Phase := RecoveryBackoff\<rparr>)"

definition selectRecoveryAction :: "SupervisorConfig \<Rightarrow> nat \<Rightarrow> bool \<Rightarrow> bool \<Rightarrow> RecoveryAction" where
  "selectRecoveryAction cfg attempts exists allUnhealthy =
     (if attempts \<ge> length (Backoffs cfg) \<or> attempts = 0 then RecoveryReplay
      else if attempts = 1 \<and> exists then RecoveryReset
      else if attempts = 1 \<and> allUnhealthy then RecoveryRestartChild
      else if attempts = 1 then RecoveryReplay
      else if attempts = 2 \<and> allUnhealthy then RecoveryRestartChild
      else if attempts = 2 \<and> exists then RecoveryReset
      else if attempts = 2 then RecoveryReplay
      else RecoveryNone)"

definition scheduleEpisodeActionLocked :: "SupervisorConfig \<Rightarrow> Time \<Rightarrow> RecoveryAction \<Rightarrow> recoveryEpisode \<Rightarrow> recoveryEpisode" where
  "scheduleEpisodeActionLocked cfg now action e =
     (let n = Attempts e + 1; bs = Backoffs cfg;
          e1 = e\<lparr>LastAction := action, LastResult := ''in_progress'', Attempts := n\<rparr> in
      if n > length bs then
        e1\<lparr>circuitUntil := now + CircuitOpen cfg, NextRetry := now + CircuitOpen cfg, Phase := RecoveryCircuitOpen\<rparr>
      else e1\<lparr>NextRetry := now + bs ! min (n - 1) (length bs - 1), Phase := RecoveryBackoff\<rparr>)"

text \<open>\<open>session\<close> is the observed session of the pair, \<open>None\<close> when there is none.\<close>

definition planEpisodeRecoveryLocked ::
  "Time \<Rightarrow> SessionPair \<Rightarrow> Session option \<Rightarrow> bool \<Rightarrow> Supervisor \<Rightarrow> Supervisor \<times> pendingRecoveryAction option" where
  "planEpisodeRecoveryLocked now pair session allUnhealthy s =
     (let cfg = config s; e = (episode s pair)\<lparr>EState := map_option SState session\<rparr> in
      if map_option SState session = Some SessionUp then (set_episode pair (markEpisodeUpLocked cfg now pair e) s, None)
      else
        let s1 = set_ready False s; e1 = e\<lparr>stableSince := 0\<rparr> in
        if IsZero (failingSince e1) then (set_episode pair (e1\<lparr>failingSince := now, Phase := RecoveryGrace\<rparr>) s1, None)
        else if now < failingSince e1 + GracePeriod cfg then (set_episode pair (e1\<lparr>Phase := RecoveryGrace\<rparr>) s1, None)
        else if \<not> IsZero (NextRetry e1) \<and> now < NextRetry e1 then (set_episode pair (markEpisodeWaitingLocked now e1) s1, None)
        else
          let action = selectRecoveryAction cfg (Attempts e1) (session \<noteq> None) allUnhealthy;
              (s2, reserved) = (if action = RecoveryRestartChild then reserveChildRestartLocked now s1 else (s1, True)) in
          if action = RecoveryNone then (set_episode pair e1 s1, None)
          else if \<not> reserved then
            (set_episode pair (markEpisodeWaitingLocked now (e1\<lparr>NextRetry := childNextRetry s2\<rparr>)) s2, None)
          else
            (set_episode pair (scheduleEpisodeActionLocked cfg now action e1) s2,
             Some \<lparr>pepisode = Some (pairKey pair), ppair = pair, paction = action, childHalfOpen = False\<rparr>))"

section \<open>A reconciliation\<close>

definition observed :: "Session list \<Rightarrow> (string, Session) gomap" where
  "observed sessions = foldl (\<lambda>m x. mput (pairKey \<lparr>Local = SLocal x, Remote = SRemote x\<rparr>) x m) [] sessions"

definition session_up :: "(string, Session) gomap \<Rightarrow> SessionPair \<Rightarrow> bool" where
  "session_up obs pair = (map_option SState (map_of obs (pairKey pair)) = Some SessionUp)"

fun plan_pairs ::
  "Time \<Rightarrow> (string, Session) gomap \<Rightarrow> bool \<Rightarrow> SessionPair list \<Rightarrow> Supervisor \<Rightarrow> Supervisor \<times> pendingRecoveryAction option" where
  "plan_pairs now obs allUnhealthy [] s = (s, None)"
| "plan_pairs now obs allUnhealthy (pair # pairs) s =
     (case planEpisodeRecoveryLocked now pair (map_of obs (pairKey pair)) allUnhealthy s of
        (s', Some pending) \<Rightarrow> (s', Some pending)
      | (s', None) \<Rightarrow> plan_pairs now obs allUnhealthy pairs s')"

definition allExpectedSessionsStableLocked :: "Time \<Rightarrow> Supervisor \<Rightarrow> bool" where
  "allExpectedSessionsStableLocked now s =
     list_all (\<lambda>pair. let e = episode s pair in
       EState e = Some SessionUp \<and> \<not> IsZero (stableSince e) \<and> \<not> now < stableSince e + StablePeriod (config s)) (expected s)"

definition persistentStateLocked :: "Supervisor \<Rightarrow> persistentState" where
  "persistentStateLocked s =
     \<lparr>PEpisodes = map (\<lambda>(key, e). (key, \<lparr>PStatus = SessionRecoveryStatus.truncate e, PFailingSince = failingSince e,
                      PStableSince = stableSince e, PCircuitUntil = circuitUntil e\<rparr>)) (episodes s),
      PChildRestarts = ChildRestarts (status s), PChildRecoveryAttempts = childRecoveryAttempts s,
      PChildNextRetry = childNextRetry s, PChildCircuitUntil = childCircuitUntil s\<rparr>"

text \<open>\<open>run\<close> is the answer of \<open>child.Running\<close> and \<open>t\<close> the second reading of the clock.\<close>

definition planSessionRecovery ::
  "Time \<Rightarrow> bool \<Rightarrow> Time \<Rightarrow> Session list \<Rightarrow> Supervisor \<Rightarrow> Supervisor \<times> pendingRecoveryAction option" where
  "planSessionRecovery now run t sessions s =
     (let obs = observed sessions;
          allUnhealthy = list_all (\<lambda>pair. \<not> session_up obs pair) (expected s);
          s1 = set_ready True s;
          (s2, pending) =
            (if allUnhealthy \<and> childHalfOpenDueLocked now s1 then
               (case reserveChildRestartLocked now (set_ready False s1) of
                  (s', True) \<Rightarrow> (s', Some \<lparr>pepisode = None, ppair = \<lparr>Local = [], Remote = []\<rparr>,
                                       paction = RecoveryRestartChild, childHalfOpen = True\<rparr>)
                | (s', False) \<Rightarrow> (s', None))
             else plan_pairs now obs allUnhealthy (expected s1) s1);
          s3 = (if \<not> allUnhealthy \<and> allExpectedSessionsStableLocked now s2
                then s2\<lparr>childRecoveryAttempts := 0, childNextRetry := 0, childCircuitUntil := 0, inheritedCircuitUntil := 0\<rparr>
                else s2)
      in (refreshStatusLocked t (updateChildRunningLivenessLocked run now s3), pending))"

definition saveState :: "Supervisor \<Rightarrow> string option \<Rightarrow> persistentState \<Rightarrow> io list \<times> string option" where
  "saveState s result state = (if StatePath (config s) = [] then ([], None) else ([DoSave state], result))"

text \<open>The call an action makes, with its result; \<open>RecoveryNone\<close> is the unknown action.\<close>

definition executeRecoveryAction :: "Supervisor \<Rightarrow> pendingRecoveryAction \<Rightarrow> string option \<Rightarrow> io list \<times> string option" where
  "executeRecoveryAction s pending result =
     (case paction pending of
        RecoveryReplay \<Rightarrow> ([DoConfigure (Daemon (config s))], result)
      | RecoveryReset \<Rightarrow> ([DoReset (ppair pending)], result)
      | RecoveryRestartChild \<Rightarrow> ([DoRestart], result)
      | RecoveryNone \<Rightarrow> ([], Some ''unknown BFD recovery action''))"

definition recordRecoveryResult ::
  "bool \<Rightarrow> Time \<Rightarrow> Time \<Rightarrow> pendingRecoveryAction \<Rightarrow> string option \<Rightarrow> Supervisor \<Rightarrow> Supervisor" where
  "recordRecoveryResult run t1 t2 pending actionErr s =
     (let text = (case actionErr of None \<Rightarrow> ''success'' | Some err \<Rightarrow> err);
          s1 = (case pepisode pending of
                  None \<Rightarrow> s
                | Some key \<Rightarrow> (case map_of (episodes s) key of
                     None \<Rightarrow> s
                   | Some e \<Rightarrow> s\<lparr>episodes := mput key (e\<lparr>LastResult := text\<rparr>) (episodes s)\<rparr>));
          s2 = (if actionErr = None \<and> paction pending = RecoveryRestartChild
                then s1\<lparr>status := (status s1)\<lparr>ChildRestarts := ChildRestarts (status s1) + 1\<rparr>\<rparr> else s1);
          s3 = (if paction pending = RecoveryRestartChild \<and> actionErr \<noteq> None then updateLivenessLocked t1 s2
                else updateChildRunningLivenessLocked run t1 s2)
      in refreshStatusLocked t2 s3)"

definition reconcileControlFailure :: "bool \<Rightarrow> Time \<Rightarrow> Time \<Rightarrow> string \<Rightarrow> Supervisor \<Rightarrow> Supervisor" where
  "reconcileControlFailure run now t statusErr s =
     (let n = controlFailures s + 1;
          s1 = s\<lparr>controlFailures := n,
                 status := (status s)\<lparr>ControlFailures := n, LastControlError := statusErr, Ready := False\<rparr>\<rparr>
      in refreshStatusLocked t (updateControlFailureLivenessLocked run now s1))"

text \<open>The errors of \<open>errors.Join\<close>, without the nil ones.\<close>

definition join_errors :: "string option list \<Rightarrow> string list" where
  "join_errors es = map the (filter (\<lambda>e. e \<noteq> None) es)"

definition action_text :: "RecoveryAction \<Rightarrow> string" where
  "action_text a = (case a of RecoveryNone \<Rightarrow> ''None'' | RecoveryReplay \<Rightarrow> ''ReplayConfiguration''
     | RecoveryReset \<Rightarrow> ''ResetSession'' | RecoveryRestartChild \<Rightarrow> ''RestartChild'')"

definition Reconcile :: "env \<Rightarrow> Supervisor \<Rightarrow> Supervisor \<times> io list \<times> string list" where
  "Reconcile v s =
     (let now = clock v 0 in
      case control_status v of
        Inl err \<Rightarrow> (reconcileControlFailure (running v 0) now (clock v 1) err s, [], [])
      | Inr sessions \<Rightarrow>
          let s1 = s\<lparr>controlFailures := 0, status := (status s)\<lparr>ControlFailures := 0, LastControlError := []\<rparr>\<rparr>;
              (s2, pending) = planSessionRecovery now (running v 0) (clock v 1) sessions s1;
              (io1, saveErr) = saveState s2 (save_result v 0) (persistentStateLocked s2)
          in case saveErr of
              Some err \<Rightarrow> (s2, io1, [err])
            | None \<Rightarrow>
                (case pending of
                   None \<Rightarrow> (s2, io1, [])
                 | Some p \<Rightarrow>
                     let (io2, actionErr) = executeRecoveryAction s2 p (action_result v);
                         s3 = recordRecoveryResult (running v 1) (clock v 2) (clock v 3) p actionErr s2;
                         (io3, saveErr2) = saveState s3 (save_result v 1) (persistentStateLocked s3);
                         wrapped = map_option (\<lambda>err.
                           (if childHalfOpen p then ''failed to half-open OpenBFDD child recovery circuit: ''
                            else ''failed to execute BFD recovery action '' @ action_text (paction p) @ '': '') @ err) actionErr
                     in (s3, io1 @ io2 @ io3, join_errors [saveErr2, wrapped])))"

section \<open>The first start of the child\<close>

definition StartChild :: "env \<Rightarrow> Supervisor \<Rightarrow> Supervisor \<times> io list \<times> string list" where
  "StartChild v s =
     (let now = clock v 0 in
      if childBootstrapAttempted s then (s, [], [])
      else
        let s1 = s\<lparr>childBootstrapAttempted := True\<rparr>;
            bootstrapHalfOpen = childHalfOpenDueLocked now s1;
            (io1, saveErr) = saveState s1 (save_result v 0) (persistentStateLocked s1)
        in case saveErr of
            Some err \<Rightarrow> (s1\<lparr>childBootstrapAttempted := False\<rparr>, io1, [err])
          | None \<Rightarrow>
              let startErr = action_result v;
                  s2 = (if startErr \<noteq> None \<and> \<not> childCircuitOpenLocked now s1 \<and>
                           (IsZero (childNextRetry s1) \<or> \<not> now < childNextRetry s1)
                        then fst (reserveChildRestartLocked now s1) else s1);
                  s3 = (if startErr = None \<and> bootstrapHalfOpen
                        then let s' = fst (reserveChildRestartLocked now s2) in s'\<lparr>inheritedCircuitUntil := childCircuitUntil s'\<rparr>
                        else s2);
                  s4 = (if startErr \<noteq> None then updateLivenessLocked now s3
                        else updateChildRunningLivenessLocked (running v 0) now s3);
                  s5 = refreshStatusLocked (clock v 1) (set_ready False s4);
                  (io3, saveErr2) = saveState s5 (save_result v 1) (persistentStateLocked s5)
              in (s5, io1 @ [DoRestart] @ io3,
                  case saveErr2 of
                    Some err \<Rightarrow> [err]
                  | None \<Rightarrow> (case startErr of None \<Rightarrow> [] | Some err \<Rightarrow> [''failed to start OpenBFDD child: '' @ err])))"

section \<open>Making a supervisor\<close>

fun parseAddresses :: "string list \<Rightarrow> string \<Rightarrow> string + Addr list" where
  "parseAddresses [] kind = Inr []"
| "parseAddresses (v # vs) kind =
     (case ParseAddr v of
        None \<Rightarrow> Inl (''invalid '' @ kind @ '' IP '' @ v)
      | Some a \<Rightarrow> (case parseAddresses vs kind of Inl err \<Rightarrow> Inl err | Inr as \<Rightarrow> Inr (a # as)))"

text \<open>The comparison of \<open>slices.SortFunc\<close>, and the sort by insertion: equal pairs are identical.\<close>

definition pair_le :: "SessionPair \<Rightarrow> SessionPair \<Rightarrow> bool" where
  "pair_le a b = (if Local a \<noteq> Local b then str_le (Local a) (Local b) else str_le (Remote a) (Remote b))"

fun insert_pair :: "SessionPair \<Rightarrow> SessionPair list \<Rightarrow> SessionPair list" where
  "insert_pair p [] = [p]"
| "insert_pair p (q # qs) = (if pair_le p q then p # q # qs else q # insert_pair p qs)"

definition expected_pairs :: "Addr list \<Rightarrow> Addr list \<Rightarrow> SessionPair list" where
  "expected_pairs podIPs peerIPs =
     concat (map (\<lambda>l. map (\<lambda>r. \<lparr>Local = Addr_String l, Remote = Addr_String r\<rparr>) (filter (\<lambda>r. Is4 l = Is4 r) peerIPs)) podIPs)"

text \<open>
  The state file: missing, unreadable, not decodable (with the result of renaming it), or read. Counters in it are natural numbers,
  as in the states the supervisor writes; a file with negative ones, which only another hand can write, is left out.
\<close>

datatype statefile = NoFile | ReadError string | Corrupt string "string option" | Decoded persistentState

definition restore_episode :: "(string \<times> persistentEpisode) \<Rightarrow> (string, recoveryEpisode) gomap \<Rightarrow> (string, recoveryEpisode) gomap" where
  "restore_episode kp m =
     (case kp of (key, saved) \<Rightarrow>
        (case map_of m key of
           None \<Rightarrow> m
         | Some e \<Rightarrow>
             if EPair (PStatus saved) \<noteq> EPair e then m
             else mput key (SessionRecoveryStatus.extend (PStatus saved)
                    (recoveryEpisode.fields (PFailingSince saved) (PStableSince saved) (PCircuitUntil saved))) m))"

definition loadState :: "statefile \<Rightarrow> Supervisor \<Rightarrow> string + Supervisor" where
  "loadState file s =
     (if StatePath (config s) = [] then Inr s
      else case file of
          NoFile \<Rightarrow> Inr s
        | ReadError err \<Rightarrow> Inl (''failed to read BFD recovery state: '' @ err)
        | Corrupt err (Some renameErr) \<Rightarrow> Inl (''failed to decode BFD recovery state: '' @ err @ [CHR 0x0A] @
              ''failed to isolate corrupt BFD recovery state: '' @ renameErr)
        | Corrupt err None \<Rightarrow> Inr s
        | Decoded state \<Rightarrow>
            Inr (s\<lparr>episodes := fold restore_episode (PEpisodes state) (episodes s),
                   status := (status s)\<lparr>ChildRestarts := PChildRestarts state\<rparr>,
                   childRecoveryAttempts := PChildRecoveryAttempts state,
                   childNextRetry := PChildNextRetry state, childCircuitUntil := PChildCircuitUntil state\<rparr>))"

definition zero_status :: SupervisorStatus where
  "zero_status = \<lparr>Live = False, Ready = False, Sessions = [], ControlFailures = 0, LastControlError = [], ChildRestarts = 0,
     ChildRecoveryAttempts = 0, ChildNextRetry = 0, ChildCircuitOpen = False\<rparr>"

text \<open>The part of \<open>NewSupervisor\<close> from the checks of the configuration to the new episodes.\<close>

definition new_state :: "SupervisorConfig \<Rightarrow> string + Supervisor" where
  "new_state config0 =
     (let cfg = (if ChildBackoffs config0 = [] then config0\<lparr>ChildBackoffs := Backoffs config0\<rparr> else config0) in
      if GracePeriod cfg \<le> 0 \<or> StablePeriod cfg \<le> 0 \<or> CircuitOpen cfg \<le> 0 \<or> Backoffs cfg = [] \<or> ChildBackoffs cfg = []
      then Inl ''invalid supervisor recovery timing''
      else case parseAddresses (PodIPs cfg) ''pod'' of
          Inl err \<Rightarrow> Inl err
        | Inr podIPs \<Rightarrow>
            (case parseAddresses (PeerIPs (Daemon cfg)) ''peer'' of
               Inl err \<Rightarrow> Inl err
             | Inr peerIPs \<Rightarrow>
                 let pairs = expected_pairs podIPs peerIPs in
                 if pairs = [] then Inl ''no same-family BFD session pairs''
                 else
                   let exp = foldr insert_pair pairs [] in
                   Inr \<lparr>config = cfg, expected = exp,
                        episodes = foldl (\<lambda>m pair. mput (pairKey pair) (new_episode pair) m) [] exp,
                        status = zero_status, controlFailures = 0, childRecoveryAttempts = 0, childNextRetry = 0,
                        childCircuitUntil = 0, childBootstrapAttempted = False, inheritedCircuitUntil = 0\<rparr>))"

text \<open>\<open>deps\<close> says that none of the control adapter, the child and the clock is nil.\<close>

definition NewSupervisor :: "SupervisorConfig \<Rightarrow> bool \<Rightarrow> statefile \<Rightarrow> (nat \<Rightarrow> Time) \<Rightarrow> string + Supervisor" where
  "NewSupervisor config0 deps file clk =
     (if \<not> deps then Inl ''supervisor dependencies must not be nil''
      else case new_state config0 of
          Inl err \<Rightarrow> Inl err
        | Inr s \<Rightarrow>
            (case loadState file s of
               Inl err \<Rightarrow> Inl err
             | Inr s1 \<Rightarrow>
                 let s2 = (if childCircuitOpenLocked (clk 0) s1
                           then s1\<lparr>inheritedCircuitUntil := childCircuitUntil s1\<rparr> else s1)
                 in Inr (refreshStatusLocked (clk 1) s2)))"

definition Supervisor_Status :: "Supervisor \<Rightarrow> SupervisorStatus" where
  "Supervisor_Status s = status s"

end
