(* ===== verification/SupervisorInv.thy ===== *)
theory SupervisorInv
  imports Supervisor
begin

text \<open>
  What one call of the recovery supervisor does: the cases of planning for one session, for
  all expected sessions and for a reconciliation, and the invariant \<open>sup_ok\<close> of a supervisor
  (valid timing, one episode per expected session).
\<close>

section \<open>Delays and the reservation of a restart\<close>

definition delay :: "Duration list \<Rightarrow> Duration \<Rightarrow> nat \<Rightarrow> Duration" where
  "delay bs open n = (if n > length bs then open else bs ! (n - 1))"

abbreviation child_delay :: "SupervisorConfig \<Rightarrow> nat \<Rightarrow> Duration" where
  "child_delay cfg \<equiv> delay (ChildBackoffs cfg) (CircuitOpen cfg)"

abbreviation pair_delay :: "SupervisorConfig \<Rightarrow> nat \<Rightarrow> Duration" where
  "pair_delay cfg \<equiv> delay (Backoffs cfg) (CircuitOpen cfg)"

definition restart_due :: "Time \<Rightarrow> Supervisor \<Rightarrow> bool" where
  "restart_due now s = (childNextRetry s = 0 \<or> childNextRetry s \<le> now)"

lemma reserve_cases:
  obtains (no) "reserveChildRestartLocked now s = (s, False)" "\<not> restart_due now s"
  | (yes) s' where "reserveChildRestartLocked now s = (s', True)" "restart_due now s"
      "childRecoveryAttempts s' = Suc (childRecoveryAttempts s)"
      "childNextRetry s' = now + child_delay (config s) (Suc (childRecoveryAttempts s))"
      "config s' = config s" "expected s' = expected s" "episodes s' = episodes s" "status s' = status s"
proof (cases "restart_due now s")
  case False
  then show ?thesis using no by (auto simp: reserveChildRestartLocked_def restart_due_def IsZero_def)
next
  case True
  obtain s' where s': "s' = fst (reserveChildRestartLocked now s)" by simp
  have "reserveChildRestartLocked now s = (s', True)" using True
    by (auto simp: s' reserveChildRestartLocked_def restart_due_def IsZero_def Let_def)
  moreover have "childRecoveryAttempts s' = Suc (childRecoveryAttempts s)"
    "childNextRetry s' = now + child_delay (config s) (Suc (childRecoveryAttempts s))"
    "config s' = config s" "expected s' = expected s" "episodes s' = episodes s" "status s' = status s"
    using True by (auto simp: s' reserveChildRestartLocked_def restart_due_def IsZero_def Let_def delay_def min_def intro: arg_cong)
  ultimately show ?thesis using yes True by blast
qed

lemma schedule_simps:
  "Attempts (scheduleEpisodeActionLocked cfg now a e) = Suc (Attempts e)"
  "NextRetry (scheduleEpisodeActionLocked cfg now a e) = now + pair_delay cfg (Suc (Attempts e))"
  "EPair (scheduleEpisodeActionLocked cfg now a e) = EPair e"
  "failingSince (scheduleEpisodeActionLocked cfg now a e) = failingSince e"
  "LastAction (scheduleEpisodeActionLocked cfg now a e) = a"
  by (auto simp: scheduleEpisodeActionLocked_def Let_def delay_def min_def intro: arg_cong)

section \<open>One episode\<close>

text \<open>What planning may change: the episode of the pair, the readiness and the child's breaker.\<close>

definition frame :: "string set \<Rightarrow> Supervisor \<Rightarrow> Supervisor \<Rightarrow> bool" where
  "frame K s s' = (config s' = config s \<and> expected s' = expected s \<and>
     dom (map_of (episodes s')) \<subseteq> K \<union> dom (map_of (episodes s)) \<and> dom (map_of (episodes s)) \<subseteq> dom (map_of (episodes s')) \<and>
     (mwf (episodes s) \<longrightarrow> mwf (episodes s')) \<and> (\<forall>k. k \<notin> K \<longrightarrow> map_of (episodes s') k = map_of (episodes s) k) \<and>
     (Ready (status s') \<longrightarrow> Ready (status s)) \<and> ChildRestarts (status s') = ChildRestarts (status s))"

lemma frame_refl [simp]: "frame K s s"
  by (simp add: frame_def)

lemma frame_trans: "frame K s s1 \<Longrightarrow> frame K s1 s2 \<Longrightarrow> frame K s s2"
  unfolding frame_def by (elim conjE, intro conjI) (simp_all, blast+)

lemma frame_set_episode: "pairKey p \<in> K \<Longrightarrow> frame K s (set_episode p e s)"
  by (auto simp: frame_def set_episode_def)

lemma frame_set_ready: "frame K s (set_ready False s)"
  by (simp add: frame_def set_ready_def)

lemma set_episode_lookup [simp]: "map_of (episodes (set_episode p e s)) (pairKey p) = Some e" "episode (set_episode p e s) p = e"
  by (simp_all add: set_episode_def episode_def)

lemma set_simps [simp]:
  "config (set_ready b s) = config s" "childNextRetry (set_ready b s) = childNextRetry s"
  "childRecoveryAttempts (set_ready b s) = childRecoveryAttempts s" "Ready (status (set_ready b s)) = b"
  "childNextRetry (set_episode p e s) = childNextRetry s" "childRecoveryAttempts (set_episode p e s) = childRecoveryAttempts s"
  "status (set_episode p e s) = status s" "episode (set_ready b s) p = episode s p" "restart_due now (set_ready b s) = restart_due now s"
  "expected (set_ready b s) = expected s"
  by (simp_all add: set_ready_def set_episode_def episode_def restart_due_def)

definition due :: "Time \<Rightarrow> SessionPair \<Rightarrow> Supervisor \<Rightarrow> bool" where
  "due now p s = (failingSince (episode s p) \<noteq> 0 \<and> failingSince (episode s p) + GracePeriod (config s) \<le> now \<and>
     (NextRetry (episode s p) = 0 \<or> NextRetry (episode s p) \<le> now))"

abbreviation up :: "Session option \<Rightarrow> bool" where
  "up x \<equiv> map_option SState x = Some SessionUp"

lemma planEpisode_cases:
  fixes now p x au s
  obtains (up) e where "planEpisodeRecoveryLocked now p x au s = (set_episode p e s, None)" "up x"
  | (quiet) e where "planEpisodeRecoveryLocked now p x au s = (set_episode p e (set_ready False s), None)" "\<not> up x"
      "due now p s \<Longrightarrow> selectRecoveryAction (config s) (Attempts (episode s p)) (x \<noteq> None) au = RecoveryNone \<or>
         selectRecoveryAction (config s) (Attempts (episode s p)) (x \<noteq> None) au = RecoveryRestartChild \<and> \<not> restart_due now s"
  | (act) a e s2 where "planEpisodeRecoveryLocked now p x au s =
        (set_episode p e s2, Some \<lparr>pepisode = Some (pairKey p), ppair = p, paction = a, childHalfOpen = False\<rparr>)"
      "\<not> up x" "due now p s" "a = selectRecoveryAction (config s) (Attempts (episode s p)) (x \<noteq> None) au" "a \<noteq> RecoveryNone"
      "Attempts e = Suc (Attempts (episode s p))" "NextRetry e = now + pair_delay (config s) (Attempts e)"
      "a \<noteq> RecoveryRestartChild \<Longrightarrow> s2 = set_ready False s"
      "a = RecoveryRestartChild \<Longrightarrow> restart_due now s \<and> reserveChildRestartLocked now (set_ready False s) = (s2, True)"
proof (cases "up x")
  case True
  then show ?thesis using up by (simp add: planEpisodeRecoveryLocked_def Let_def)
next
  case False
  define e1 where "e1 = (episode s p)\<lparr>EState := map_option SState x, stableSince := 0\<rparr>"
  have e1: "failingSince e1 = failingSince (episode s p)" "NextRetry e1 = NextRetry (episode s p)" "Attempts e1 = Attempts (episode s p)"
    by (simp_all add: e1_def)
  define a where "a = selectRecoveryAction (config s) (Attempts e1) (x \<noteq> None) au"
  show ?thesis
  proof (cases "due now p s")
    case d: False
    then have "\<exists>e. planEpisodeRecoveryLocked now p x au s = (set_episode p e (set_ready False s), None)"
      using False by (auto simp: planEpisodeRecoveryLocked_def Let_def due_def IsZero_def)
    then show ?thesis using quiet False d by metis
  next
    case d: True
    then have c: "\<not> IsZero (failingSince e1)" "\<not> now < failingSince e1 + GracePeriod (config s)"
      "\<not> (\<not> IsZero (NextRetry e1) \<and> now < NextRetry e1)" by (auto simp: due_def IsZero_def e1)
    have eq: "planEpisodeRecoveryLocked now p x au s =
      (let (s2, reserved) = (if a = RecoveryRestartChild then reserveChildRestartLocked now (set_ready False s) else (set_ready False s, True)) in
          if a = RecoveryNone then (set_episode p e1 (set_ready False s), None)
          else if \<not> reserved then
            (set_episode p (markEpisodeWaitingLocked now (e1\<lparr>NextRetry := childNextRetry s2\<rparr>)) s2, None)
          else
            (set_episode p (scheduleEpisodeActionLocked (config s) now a e1) s2,
             Some \<lparr>pepisode = Some (pairKey p), ppair = p, paction = a, childHalfOpen = False\<rparr>))"
      unfolding planEpisodeRecoveryLocked_def Let_def e1_def [symmetric] a_def [symmetric]
      if_not_P [OF False] if_not_P [OF c(1)] if_not_P [OF c(2)] if_not_P [OF c(3)] ..
    show ?thesis
    proof (cases "a \<noteq> RecoveryRestartChild")
      case True
      then have "planEpisodeRecoveryLocked now p x au s =
        (if a = RecoveryNone then (set_episode p e1 (set_ready False s), None)
         else (set_episode p (scheduleEpisodeActionLocked (config s) now a e1) (set_ready False s),
               Some \<lparr>pepisode = Some (pairKey p), ppair = p, paction = a, childHalfOpen = False\<rparr>))" using eq by simp
      then show ?thesis using True quiet [of e1] act [of "scheduleEpisodeActionLocked (config s) now a e1" "set_ready False s" a] False d
        by (cases "a = RecoveryNone") (simp_all add: schedule_simps a_def e1)
    next
      case r: False
      then have r: "a = RecoveryRestartChild" by simp
      show ?thesis
      proof (cases rule: reserve_cases [of now "set_ready False s"])
        case no
        then show ?thesis using eq quiet False d r unfolding a_def e1 by simp
      next
        case (yes s')
        then have "planEpisodeRecoveryLocked now p x au s = (set_episode p (scheduleEpisodeActionLocked (config s) now a e1) s',
          Some \<lparr>pepisode = Some (pairKey p), ppair = p, paction = a, childHalfOpen = False\<rparr>)" using eq r by simp
        then show ?thesis
          using act [of "scheduleEpisodeActionLocked (config s) now a e1" s' a] yes(1,2) False d r by (simp add: schedule_simps a_def e1)
      qed
    qed
  qed
qed


lemma frame_reserve: "reserveChildRestartLocked now s = (s', b) \<Longrightarrow> frame K s s'"
  by (cases rule: reserve_cases [of now s]) (auto simp: frame_def)

lemma planEpisode_frame:
  assumes "planEpisodeRecoveryLocked now p x au s = (s', pend)" "pairKey p \<in> K"
  shows "frame K s s'"
proof (cases rule: planEpisode_cases [of now p x au s])
  case (act a e s2)
  have "frame K (set_ready False s) s2"
    using act(8,9) frame_reserve by (cases "a = RecoveryRestartChild") auto
  then show ?thesis
    using frame_trans [OF frame_trans [OF frame_set_ready] frame_set_episode [OF assms(2)]] assms(1) act(1) by auto
qed (use assms frame_set_episode [OF assms(2)] frame_trans [OF frame_set_ready] in auto)

lemma planEpisode_pair:
  assumes "EPair (episode s p) = p"
  shows "EPair (episode (fst (planEpisodeRecoveryLocked now p x au s)) p) = p"
  using assms
  by (auto simp: planEpisodeRecoveryLocked_def Let_def markEpisodeUpLocked_def markEpisodeWaitingLocked_def schedule_simps
      split: prod.splits)

lemma frame_episode: "frame K s s' \<Longrightarrow> pairKey p \<notin> K \<Longrightarrow> episode s' p = episode s p"
  by (simp add: frame_def episode_def)

section \<open>The invariant\<close>

definition timing_ok :: "SupervisorConfig \<Rightarrow> bool" where
  "timing_ok cfg = (0 < GracePeriod cfg \<and> 0 < StablePeriod cfg \<and> 0 < CircuitOpen cfg \<and> Backoffs cfg \<noteq> [] \<and> ChildBackoffs cfg \<noteq> [])"

definition sup_ok :: "Supervisor \<Rightarrow> bool" where
  "sup_ok s = (timing_ok (config s) \<and> expected s \<noteq> [] \<and> distinct (map pairKey (expected s)) \<and> mwf (episodes s) \<and>
     dom (map_of (episodes s)) = pairKey ` set (expected s) \<and> (\<forall>p\<in>set (expected s). EPair (episode s p) = p))"

section \<open>The loop over the expected sessions\<close>

text \<open>The states after planning quiet sessions: the child's breaker is as before.\<close>

lemma plan_pairs_cases:
  assumes "distinct (map pairKey ps)" "plan_pairs now obs au ps s = (s', pend)"
  obtains (quiet) "pend = None" "frame (pairKey ` set ps) s s'" "childNextRetry s' = childNextRetry s"
      "childRecoveryAttempts s' = childRecoveryAttempts s" "Ready (status s') \<longleftrightarrow> Ready (status s) \<and> list_all (session_up obs) ps"
  | (act) pre p post s1 where "ps = pre @ p # post" "frame (pairKey ` set pre) s s1"
      "planEpisodeRecoveryLocked now p (map_of obs (pairKey p)) au s1 = (s', pend)" "pend \<noteq> None"
      "childNextRetry s1 = childNextRetry s" "childRecoveryAttempts s1 = childRecoveryAttempts s" "episode s1 p = episode s p"
proof -
  have "pend = None \<and> frame (pairKey ` set ps) s s' \<and> childNextRetry s' = childNextRetry s \<and>
      childRecoveryAttempts s' = childRecoveryAttempts s \<and> (Ready (status s') \<longleftrightarrow> Ready (status s) \<and> list_all (session_up obs) ps) \<or>
    (\<exists>pre p post s1. ps = pre @ p # post \<and> frame (pairKey ` set pre) s s1 \<and>
      planEpisodeRecoveryLocked now p (map_of obs (pairKey p)) au s1 = (s', pend) \<and> pend \<noteq> None \<and>
      childNextRetry s1 = childNextRetry s \<and> childRecoveryAttempts s1 = childRecoveryAttempts s \<and> episode s1 p = episode s p)"
    using assms
  proof (induction ps arbitrary: s)
    case (Cons p ps)
    let ?K = "pairKey ` set (p # ps)"
    obtain s2 r where r: "planEpisodeRecoveryLocked now p (map_of obs (pairKey p)) au s = (s2, r)" by fastforce
    have f: "frame {pairKey p} s s2" using planEpisode_frame [OF r] by simp
    show ?case
    proof (cases r)
      case (Some a)
      then have "s' = s2" "pend = r" using Cons.prems r by auto
      then show ?thesis using r Some by (intro disjI2 exI [of _ "[]"] exI [of _ p] exI [of _ ps] exI [of _ s]) auto
    next
      case None
      then have rest: "plan_pairs now obs au ps s2 = (s', pend)" using Cons.prems r by simp
      have c: "childNextRetry s2 = childNextRetry s" "childRecoveryAttempts s2 = childRecoveryAttempts s"
        "Ready (status s2) \<longleftrightarrow> Ready (status s) \<and> session_up obs p"
        by (cases rule: planEpisode_cases [of now p "map_of obs (pairKey p)" au s]; use r None in \<open>auto simp: session_up_def\<close>)+
      have "distinct (map pairKey ps)" using Cons.prems(1) by simp
      from Cons.IH [OF this rest] show ?thesis
      proof (elim disjE exE conjE)
        assume q: "pend = None" "frame (pairKey ` set ps) s2 s'" "childNextRetry s' = childNextRetry s2"
          "childRecoveryAttempts s' = childRecoveryAttempts s2" "Ready (status s') = (Ready (status s2) \<and> list_all (session_up obs) ps)"
        have "frame ?K s s2" "frame ?K s2 s'" using f q(2) by (auto simp: frame_def)
        then have "frame ?K s s'" by (rule frame_trans)
        then show ?thesis using q c by simp
      next
        fix pre q post s1
        assume q: "ps = pre @ q # post" "frame (pairKey ` set pre) s2 s1"
          "planEpisodeRecoveryLocked now q (map_of obs (pairKey q)) au s1 = (s', pend)" "pend \<noteq> None"
          "childNextRetry s1 = childNextRetry s2" "childRecoveryAttempts s1 = childRecoveryAttempts s2" "episode s1 q = episode s2 q"
        have "frame (pairKey ` set (p # pre)) s s2" "frame (pairKey ` set (p # pre)) s2 s1" using f q(2) by (auto simp: frame_def)
        then have "frame (pairKey ` set (p # pre)) s s1" by (rule frame_trans)
        moreover have "episode s2 q = episode s q" using frame_episode [OF f] Cons.prems(1) q(1) by auto
        ultimately show ?thesis using q c by (intro disjI2 exI [of _ "p # pre"] exI [of _ q] exI [of _ post] exI [of _ s1]) auto
      qed
    qed
  qed simp
  then show ?thesis using quiet act by blast
qed


section \<open>A reconciliation\<close>

lemma select_restart: "selectRecoveryAction cfg n x au = RecoveryRestartChild \<Longrightarrow> au"
  by (auto simp: selectRecoveryAction_def split: if_splits)

abbreviation all_down :: "Session list \<Rightarrow> Supervisor \<Rightarrow> bool" where
  "all_down sessions s \<equiv> list_all (\<lambda>p. \<not> session_up (observed sessions) p) (expected s)"

text \<open>The last steps of planning: the breaker may be reset, then the status is written.\<close>

lemma refresh_simps [simp]:
  "episodes (refreshStatusLocked t s) = episodes s" "config (refreshStatusLocked t s) = config s" "expected (refreshStatusLocked t s) = expected s"
  "childNextRetry (refreshStatusLocked t s) = childNextRetry s" "childRecoveryAttempts (refreshStatusLocked t s) = childRecoveryAttempts s"
  "Ready (status (refreshStatusLocked t s)) = Ready (status s)" "Live (status (refreshStatusLocked t s)) = Live (status s)"
  "ChildRestarts (status (refreshStatusLocked t s)) = ChildRestarts (status s)"
  "childCircuitUntil (refreshStatusLocked t s) = childCircuitUntil s" "episode (refreshStatusLocked t s) p = episode s p"
  by (simp_all add: refreshStatusLocked_def episode_def)

lemma live_simps [simp]:
  "episodes (set_live b s) = episodes s" "config (set_live b s) = config s" "expected (set_live b s) = expected s"
  "childNextRetry (set_live b s) = childNextRetry s" "childRecoveryAttempts (set_live b s) = childRecoveryAttempts s"
  "Ready (status (set_live b s)) = Ready (status s)" "Live (status (set_live b s)) = b" "episode (set_live b s) p = episode s p"
  "ChildRestarts (status (set_live b s)) = ChildRestarts (status s)" "childCircuitUntil (set_live b s) = childCircuitUntil s"
  by (simp_all add: set_live_def episode_def)

text \<open>What a pending action says about the plan that made it.\<close>

definition planned :: "Time \<Rightarrow> Session list \<Rightarrow> Supervisor \<Rightarrow> Supervisor \<Rightarrow> pendingRecoveryAction \<Rightarrow> bool" where
  "planned now sessions s s' p =
     ((paction p = RecoveryRestartChild \<longrightarrow>
         all_down sessions s \<and> restart_due now s \<and> childRecoveryAttempts s' = Suc (childRecoveryAttempts s) \<and>
         childNextRetry s' = now + child_delay (config s) (Suc (childRecoveryAttempts s))) \<and>
      (all_down sessions s \<and> paction p \<noteq> RecoveryRestartChild \<longrightarrow> childNextRetry s' = childNextRetry s \<and> childRecoveryAttempts s' = childRecoveryAttempts s) \<and>
      paction p \<noteq> RecoveryNone \<and> (pepisode p = None \<longrightarrow> paction p = RecoveryRestartChild) \<and>
      (\<forall>k. pepisode p = Some k \<longrightarrow> k = pairKey (ppair p) \<and> ppair p \<in> set (expected s) \<and>
         \<not> session_up (observed sessions) (ppair p) \<and> due now (ppair p) s \<and>
         (\<exists>e. map_of (episodes s') k = Some e \<and> Attempts e = Suc (Attempts (episode s (ppair p))) \<and>
              NextRetry e = now + pair_delay (config s) (Attempts e))))"

lemma frameD:
  assumes "frame K s s'"
  shows "config s' = config s" "expected s' = expected s" "Ready (status s') \<Longrightarrow> Ready (status s)"
  using assms by (simp_all add: frame_def)

lemma plan_act:
  assumes "planEpisodeRecoveryLocked now p (map_of (observed sessions) (pairKey p)) (all_down sessions s) s1 = (s', pend)" "pend \<noteq> None"
    and "frame K s s1" "childNextRetry s1 = childNextRetry s" "childRecoveryAttempts s1 = childRecoveryAttempts s"
      "episode s1 p = episode s p" "p \<in> set (expected s)"
  shows "\<exists>q. pend = Some q \<and> planned now sessions s s' q \<and> \<not> Ready (status s') \<and> pepisode q = Some (pairKey p) \<and> ppair q = p"
proof (cases rule: planEpisode_cases [of now p "map_of (observed sessions) (pairKey p)" "all_down sessions s" s1])
  case (act a e s2)
  have st: "s' = set_episode p e s2" and q: "pend = Some \<lparr>pepisode = Some (pairKey p), ppair = p, paction = a, childHalfOpen = False\<rparr>"
    using act(1) assms(1) by auto
  have cfg: "config s1 = config s" using frameD(1) [OF assms(3)] .
  have d: "due now p s" "restart_due now s1 = restart_due now s" using act(3) assms(4,6) cfg by (auto simp: due_def restart_due_def)
  have r: "a = RecoveryRestartChild \<Longrightarrow> all_down sessions s" using act(4) select_restart by metis
  have s2: "a \<noteq> RecoveryRestartChild \<Longrightarrow> \<not> Ready (status s2) \<and> childNextRetry s2 = childNextRetry s \<and> childRecoveryAttempts s2 = childRecoveryAttempts s"
    using act(8) assms(4,5) by simp
  have s2': "\<not> Ready (status s2) \<and> childRecoveryAttempts s2 = Suc (childRecoveryAttempts s) \<and>
      childNextRetry s2 = now + child_delay (config s) (Suc (childRecoveryAttempts s)) \<and> restart_due now s" if "a = RecoveryRestartChild"
  proof (cases rule: reserve_cases [of now "set_ready False s1"])
    case no
    then show ?thesis using act(9) that by simp
  next
    case (yes u)
    then have "u = s2" using act(9) that by simp
    then show ?thesis using yes(3,4,8) act(9) [OF that] d(2) cfg assms(5) by simp
  qed
  have e: "map_of (episodes (set_episode p e s2)) (pairKey p) = Some e" by simp
  have n: "\<not> session_up (observed sessions) p" using act(2) by (simp add: session_up_def)
  have "planned now sessions s s' \<lparr>pepisode = Some (pairKey p), ppair = p, paction = a, childHalfOpen = False\<rparr>"
    unfolding planned_def st using s2 s2' r act(5) d(1) n e act(6,7) assms(6,7) cfg by simp
  then show ?thesis using s2 s2' unfolding st q by auto
qed (use assms in auto)


lemma plan_pairs_pair:
  assumes "inj_on pairKey Q" "set ps \<subseteq> Q" "\<forall>p\<in>Q. EPair (episode s p) = p"
  shows "\<forall>p\<in>Q. EPair (episode (fst (plan_pairs now obs au ps s)) p) = p"
  using assms(2,3)
proof (induction ps arbitrary: s)
  case (Cons p ps)
  obtain s2 r where r: "planEpisodeRecoveryLocked now p (map_of obs (pairKey p)) au s = (s2, r)" by fastforce
  have "EPair (episode s2 q) = q" if "q \<in> Q" for q
  proof (cases "q = p")
    case True
    then show ?thesis using planEpisode_pair [of s p now "map_of obs (pairKey p)" au] r Cons.prems by auto
  next
    case False
    then have "pairKey q \<notin> {pairKey p}" using inj_onD [OF assms(1), of q p] that Cons.prems(1) by auto
    then show ?thesis using frame_episode [OF planEpisode_frame [OF r], of "{pairKey p}" q] Cons.prems(2) that by simp
  qed
  then show ?case using Cons.IH [of s2] Cons.prems(1) r by (cases r) auto
qed simp

lemma sup_okD:
  assumes "sup_ok s"
  shows "timing_ok (config s)" "expected s \<noteq> []" "distinct (map pairKey (expected s))" "mwf (episodes s)"
    "dom (map_of (episodes s)) = pairKey ` set (expected s)" "\<forall>p\<in>set (expected s). EPair (episode s p) = p"
  using assms by (auto simp: sup_ok_def)

lemma sup_ok_frame:
  assumes "sup_ok s" "frame (pairKey ` set (expected s)) s s'" "\<forall>p\<in>set (expected s). EPair (episode s' p) = p"
  shows "sup_ok s'"
proof -
  have "dom (map_of (episodes s')) = pairKey ` set (expected s')" "expected s' = expected s"
    using sup_okD(5) [OF assms(1)] assms(2) unfolding frame_def by auto
  then show ?thesis using sup_okD [OF assms(1)] assms(2,3) by (simp add: sup_ok_def frame_def)
qed

lemma sup_ok_cong: "sup_ok s \<Longrightarrow> config s' = config s \<Longrightarrow> expected s' = expected s \<Longrightarrow> episodes s' = episodes s \<Longrightarrow> sup_ok s'"
  by (simp add: sup_ok_def episode_def)

text \<open>The plan of a reconciliation, before the breaker is reset and the status written.\<close>

lemma plan_choice:
  assumes ok: "sup_ok s" and eq: "(if all_down sessions s \<and> childHalfOpenDueLocked now s then
               (case reserveChildRestartLocked now (set_ready False s) of
                  (s', True) \<Rightarrow> (s', Some \<lparr>pepisode = None, ppair = \<lparr>Local = [], Remote = []\<rparr>,
                                       paction = RecoveryRestartChild, childHalfOpen = True\<rparr>)
                | (s', False) \<Rightarrow> (s', None))
             else plan_pairs now (observed sessions) (all_down sessions s) (expected s) s) = (s', pend)"
    and r: "Ready (status s)"
  shows "sup_ok s' \<and> config s' = config s \<and> expected s' = expected s \<and>
    (Ready (status s') \<longleftrightarrow> list_all (session_up (observed sessions)) (expected s)) \<and>
    (case pend of None \<Rightarrow> childNextRetry s' = childNextRetry s \<and> childRecoveryAttempts s' = childRecoveryAttempts s
     | Some p \<Rightarrow> planned now sessions s s' p)"
proof (cases "all_down sessions s \<and> childHalfOpenDueLocked now s")
  case True
  then have d: "restart_due now s" by (auto simp: childHalfOpenDueLocked_def restart_due_def)
  have n: "\<not> list_all (session_up (observed sessions)) (expected s)" using True sup_okD(2) [OF ok] by (cases "expected s") auto
  show ?thesis
  proof (cases rule: reserve_cases [of now "set_ready False s"])
    case no
    then show ?thesis using d by simp
  next
    case (yes u)
    then have "s' = u" "pend = Some \<lparr>pepisode = None, ppair = \<lparr>Local = [], Remote = []\<rparr>, paction = RecoveryRestartChild, childHalfOpen = True\<rparr>"
      using eq True by auto
    then show ?thesis using yes(3-8) n d True sup_ok_cong [OF ok, of u] by (simp add: planned_def set_ready_def)
  qed
next
  case False
  have keys: "distinct (map pairKey (expected s))" "inj_on pairKey (set (expected s))" using sup_okD(3) [OF ok] by (auto simp: distinct_map)
  have run: "plan_pairs now (observed sessions) (all_down sessions s) (expected s) s = (s', pend)"
    using eq unfolding if_not_P [OF False] .
  have pairs: "\<forall>p\<in>set (expected s). EPair (episode s' p) = p"
    using plan_pairs_pair [OF keys(2) subset_refl sup_okD(6) [OF ok]] run by (metis fst_conv)
  show ?thesis using keys(1) run
  proof (cases rule: plan_pairs_cases)
    case quiet
    then show ?thesis using sup_ok_frame [OF ok quiet(2) pairs] frameD [OF quiet(2)] r by simp
  next
    case (act pre p post s1)
    have pin: "p \<in> set (expected s)" using act(1) by simp
    obtain q where q: "pend = Some q" "planned now sessions s s' q" "\<not> Ready (status s')" "ppair q = p" "pepisode q = Some (pairKey p)"
      using plan_act [OF act(3,4,2,5,6,7) pin] by blast
    have "frame (pairKey ` set (expected s)) s s1" using act(1,2) by (auto simp: frame_def)
    from frame_trans [OF this planEpisode_frame [OF act(3)]] have f: "frame (pairKey ` set (expected s)) s s'" using pin by simp
    have "\<not> session_up (observed sessions) p" using q(2,4,5) by (simp add: planned_def)
    then have "\<not> list_all (session_up (observed sessions)) (expected s)" using pin by (auto simp: list_all_iff)
    then show ?thesis using sup_ok_frame [OF ok f pairs] frameD [OF f] q by simp
  qed
qed


lemma plan_session:
  assumes ok: "sup_ok s" and eq: "planSessionRecovery now run t sessions s = (s', pend)"
  shows "sup_ok s'" "config s' = config s" "expected s' = expected s"
    "Ready (status s') \<longleftrightarrow> list_all (session_up (observed sessions)) (expected s)"
    "\<And>p. pend = Some p \<Longrightarrow> planned now sessions s s' p"
    "pend = None \<Longrightarrow> all_down sessions s \<Longrightarrow> childNextRetry s' = childNextRetry s \<and> childRecoveryAttempts s' = childRecoveryAttempts s"
    "Live (status s') \<Longrightarrow> run"
proof -
  have ok1: "sup_ok (set_ready True s)" using sup_ok_cong [OF ok] by (simp add: set_ready_def)
  obtain s2 pend' where c: "(if all_down sessions s \<and> childHalfOpenDueLocked now (set_ready True s) then
               (case reserveChildRestartLocked now (set_ready False (set_ready True s)) of
                  (s', True) \<Rightarrow> (s', Some \<lparr>pepisode = None, ppair = \<lparr>Local = [], Remote = []\<rparr>,
                                       paction = RecoveryRestartChild, childHalfOpen = True\<rparr>)
                | (s', False) \<Rightarrow> (s', None))
             else plan_pairs now (observed sessions) (all_down sessions s) (expected (set_ready True s)) (set_ready True s)) = (s2, pend')" by fastforce
  have "s' = refreshStatusLocked t (updateChildRunningLivenessLocked run now
       (if \<not> all_down sessions s \<and> allExpectedSessionsStableLocked now s2
                then s2\<lparr>childRecoveryAttempts := 0, childNextRetry := 0, childCircuitUntil := 0, inheritedCircuitUntil := 0\<rparr>
                else s2)) \<and> pend = pend'"
    using eq unfolding planSessionRecovery_def Let_def c by simp
  then have s': "s' = refreshStatusLocked t (updateChildRunningLivenessLocked run now
       (if \<not> all_down sessions s \<and> allExpectedSessionsStableLocked now s2
                then s2\<lparr>childRecoveryAttempts := 0, childNextRetry := 0, childCircuitUntil := 0, inheritedCircuitUntil := 0\<rparr>
                else s2))" and pend: "pend' = pend" by simp_all
  have f: "episodes s' = episodes s2" "config s' = config s2" "expected s' = expected s2" "Ready (status s') = Ready (status s2)"
    "all_down sessions s \<Longrightarrow> childNextRetry s' = childNextRetry s2 \<and> childRecoveryAttempts s' = childRecoveryAttempts s2" "Live (status s') \<Longrightarrow> run"
    by (auto simp: s' updateChildRunningLivenessLocked_def split: if_splits)
  note p = plan_choice [of "set_ready True s" sessions now s2 pend, OF ok1, unfolded set_simps, OF c [unfolded set_simps pend], simplified]
  have e: "expected (set_ready True s) = expected s" "config (set_ready True s) = config s" by simp_all
  show "sup_ok s'" using p f(1-3) sup_ok_cong [of s2 s'] by simp
  show "config s' = config s" "expected s' = expected s" "Ready (status s') \<longleftrightarrow> list_all (session_up (observed sessions)) (expected s)"
    using p f(2-4) by simp_all
  show "Live (status s') \<Longrightarrow> run" by (rule f(6))
  show "planned now sessions s s' q" if "pend = Some q" for q
  proof -
    have "planned now sessions (set_ready True s) s2 q" using p that by simp
    then show ?thesis using f(1,5) by (auto simp: planned_def due_def)
  qed
  show "pend = None \<Longrightarrow> all_down sessions s \<Longrightarrow> childNextRetry s' = childNextRetry s \<and> childRecoveryAttempts s' = childRecoveryAttempts s"
    using p f(5) by simp
qed

lemma record_result:
  assumes ok: "sup_ok s" and k: "\<And>k. pepisode p = Some k \<Longrightarrow> k \<in> pairKey ` set (expected s)"
  shows "sup_ok (recordRecoveryResult run t1 t2 p err s)" "config (recordRecoveryResult run t1 t2 p err s) = config s"
    "expected (recordRecoveryResult run t1 t2 p err s) = expected s"
    "childNextRetry (recordRecoveryResult run t1 t2 p err s) = childNextRetry s"
    "childRecoveryAttempts (recordRecoveryResult run t1 t2 p err s) = childRecoveryAttempts s"
    "Ready (status (recordRecoveryResult run t1 t2 p err s)) = Ready (status s)"
proof -
  define s1 where "s1 = (case pepisode p of
                  None \<Rightarrow> s
                | Some key \<Rightarrow> (case map_of (episodes s) key of
                     None \<Rightarrow> s
                   | Some e \<Rightarrow> s\<lparr>episodes := mput key (e\<lparr>LastResult := (case err of None \<Rightarrow> ''success'' | Some err \<Rightarrow> err)\<rparr>) (episodes s)\<rparr>))"
  define s2 where "s2 = (if err = None \<and> paction p = RecoveryRestartChild
    then s1\<lparr>status := (status s1)\<lparr>ChildRestarts := ChildRestarts (status s1) + 1\<rparr>\<rparr> else s1)"
  have "recordRecoveryResult run t1 t2 p err s = refreshStatusLocked t2
    (if paction p = RecoveryRestartChild \<and> err \<noteq> None then updateLivenessLocked t1 s2 else updateChildRunningLivenessLocked run t1 s2)"
    unfolding recordRecoveryResult_def Let_def s1_def [symmetric] s2_def [symmetric] ..
  then obtain b where r: "recordRecoveryResult run t1 t2 p err s = refreshStatusLocked t2 (set_live b s2)"
    unfolding updateLivenessLocked_def updateChildRunningLivenessLocked_def by (auto split: if_splits)
  have s2: "episodes s2 = episodes s1" "config s2 = config s1" "expected s2 = expected s1" "childNextRetry s2 = childNextRetry s1"
    "childRecoveryAttempts s2 = childRecoveryAttempts s1" "Ready (status s2) = Ready (status s1)" by (simp_all add: s2_def)
  have f: "frame (pairKey ` set (expected s)) s s1" using k by (auto simp: s1_def frame_def split: option.splits)
  have g: "childNextRetry s1 = childNextRetry s" "childRecoveryAttempts s1 = childRecoveryAttempts s" "status s1 = status s"
    by (auto simp: s1_def split: option.splits)
  have "EPair (episode s1 q) = EPair (episode s q)" for q by (auto simp: s1_def episode_def split: option.splits)
  then have "sup_ok s1" using sup_ok_frame [OF ok f] sup_okD(6) [OF ok] by simp
  then show "sup_ok (recordRecoveryResult run t1 t2 p err s)" using sup_ok_cong [of s1] r s2 by simp
  show "config (recordRecoveryResult run t1 t2 p err s) = config s" "expected (recordRecoveryResult run t1 t2 p err s) = expected s"
    "childNextRetry (recordRecoveryResult run t1 t2 p err s) = childNextRetry s"
    "childRecoveryAttempts (recordRecoveryResult run t1 t2 p err s) = childRecoveryAttempts s"
    "Ready (status (recordRecoveryResult run t1 t2 p err s)) = Ready (status s)"
    using r g s2 frameD [OF f] by simp_all
qed

end
