(* ===== verification/SupervisorProps.thy ===== *)
theory SupervisorProps
  imports SupervisorInv
begin

text \<open>
  Properties of the recovery supervisor. \<open>supervised\<close> are the states that calls reach. The
  theorems say when a recovery action is taken and that the attempt is on disk before the
  action starts, when the supervisor is ready, how far apart restarts of the child are, what
  the state file restores, and that a failing session is not forgotten.
\<close>


section \<open>When an action is taken\<close>

abbreviation now :: "env \<Rightarrow> Time" where
  "now v \<equiv> clock v 0"

lemma control_failure [simp]:
  "config (reconcileControlFailure run t0 t err s) = config s" "expected (reconcileControlFailure run t0 t err s) = expected s"
  "episodes (reconcileControlFailure run t0 t err s) = episodes s" "\<not> Ready (status (reconcileControlFailure run t0 t err s))"
  "childNextRetry (reconcileControlFailure run t0 t err s) = childNextRetry s"
  "childRecoveryAttempts (reconcileControlFailure run t0 t err s) = childRecoveryAttempts s"
  by (auto simp: reconcileControlFailure_def updateControlFailureLivenessLocked_def updateLivenessLocked_def Let_def)

lemma Reconcile_cases:
  assumes ok: "sup_ok s"
  obtains (failed) err where "control_status v = Inl err" "Reconcile v s = (reconcileControlFailure (running v 0) (now v) (clock v 1) err s, [], [])"
  | (planned) sessions s1 pend where "control_status v = Inr sessions"
      "planSessionRecovery (now v) (running v 0) (clock v 1) sessions
         (s\<lparr>controlFailures := 0, status := (status s)\<lparr>ControlFailures := 0, LastControlError := []\<rparr>\<rparr>) = (s1, pend)"
      "sup_ok s1" "config s1 = config s" "expected s1 = expected s"
      "Ready (status s1) \<longleftrightarrow> list_all (session_up (observed sessions)) (expected s)"
      "\<And>p. pend = Some p \<Longrightarrow> planned (now v) sessions s s1 p"
      "pend = None \<Longrightarrow> all_down sessions s \<Longrightarrow> childNextRetry s1 = childNextRetry s \<and> childRecoveryAttempts s1 = childRecoveryAttempts s"
      "Live (status s1) \<Longrightarrow> running v 0"
proof (cases "control_status v")
  case (Inl err)
  then show ?thesis using failed by (simp add: Reconcile_def)
next
  case (Inr sessions)
  let ?s = "s\<lparr>controlFailures := 0, status := (status s)\<lparr>ControlFailures := 0, LastControlError := []\<rparr>\<rparr>"
  obtain s1 pend where p: "planSessionRecovery (now v) (running v 0) (clock v 1) sessions ?s = (s1, pend)" by fastforce
  have "sup_ok ?s" using sup_ok_cong [OF ok] by simp
  note q = plan_session [OF this p]
  have "planned (now v) sessions s s1 x" if "pend = Some x" for x
  proof -
    have "episode ?s p = episode s p" for p by (simp add: episode_def)
    then show ?thesis using q(5) [OF that] by (simp add: planned_def restart_due_def due_def)
  qed
  then show ?thesis using planned [OF Inr p] q by simp
qed

lemma planned_key: "planned t sessions s s1 p \<Longrightarrow> expected s1 = expected s \<Longrightarrow> pepisode p = Some k \<Longrightarrow> k \<in> pairKey ` set (expected s1)"
  by (simp add: planned_def)

lemma Reconcile_planned:
  assumes "control_status v = Inr sessions"
    "planSessionRecovery (now v) (running v 0) (clock v 1) sessions
         (s\<lparr>controlFailures := 0, status := (status s)\<lparr>ControlFailures := 0, LastControlError := []\<rparr>\<rparr>) = (s1, pend)"
  shows "Reconcile v s =
    (let (io1, saveErr) = saveState s1 (save_result v 0) (persistentStateLocked s1)
     in case saveErr of
         Some err \<Rightarrow> (s1, io1, [err])
       | None \<Rightarrow>
           (case pend of
              None \<Rightarrow> (s1, io1, [])
            | Some p \<Rightarrow>
                let (io2, actionErr) = executeRecoveryAction s1 p (action_result v);
                    s3 = recordRecoveryResult (running v 1) (clock v 2) (clock v 3) p actionErr s1;
                    (io3, saveErr2) = saveState s3 (save_result v 1) (persistentStateLocked s3);
                    wrapped = map_option (\<lambda>err.
                      (if childHalfOpen p then ''failed to half-open OpenBFDD child recovery circuit: ''
                       else ''failed to execute BFD recovery action '' @ action_text (paction p) @ '': '') @ err) actionErr
                in (s3, io1 @ io2 @ io3, join_errors [saveErr2, wrapped])))"
  using assms unfolding Reconcile_def Let_def by simp

text \<open>The outcomes of a reconciliation whose plan is known: the state, and the calls.\<close>

lemma Reconcile_outcomes:
  assumes "control_status v = Inr sessions"
    "planSessionRecovery (now v) (running v 0) (clock v 1) sessions
         (s\<lparr>controlFailures := 0, status := (status s)\<lparr>ControlFailures := 0, LastControlError := []\<rparr>\<rparr>) = (s1, pend)"
  obtains (stopped) "pend = None \<or> StatePath (config s1) \<noteq> [] \<and> save_result v 0 \<noteq> None" "fst (Reconcile v s) = s1"
      "fst (snd (Reconcile v s)) = fst (saveState s1 (save_result v 0) (persistentStateLocked s1))"
  | (acted) p where "pend = Some p" "StatePath (config s1) = [] \<or> save_result v 0 = None"
      "fst (Reconcile v s) = recordRecoveryResult (running v 1) (clock v 2) (clock v 3) p (snd (executeRecoveryAction s1 p (action_result v))) s1"
      "fst (snd (Reconcile v s)) = fst (saveState s1 (save_result v 0) (persistentStateLocked s1)) @
         fst (executeRecoveryAction s1 p (action_result v)) @ fst (saveState (fst (Reconcile v s)) (save_result v 1) (persistentStateLocked (fst (Reconcile v s))))"
proof (cases "pend = None \<or> StatePath (config s1) \<noteq> [] \<and> save_result v 0 \<noteq> None")
  case True
  then have "fst (Reconcile v s) = s1 \<and> fst (snd (Reconcile v s)) = fst (saveState s1 (save_result v 0) (persistentStateLocked s1))"
    unfolding Reconcile_planned [OF assms] by (cases "save_result v 0") (auto simp: saveState_def)
  then show ?thesis using stopped True by simp
next
  case False
  then obtain p where p: "pend = Some p" by auto
  let ?e = "executeRecoveryAction s1 p (action_result v)"
  let ?s3 = "recordRecoveryResult (running v 1) (clock v 2) (clock v 3) p (snd ?e) s1"
  obtain io1 where s0: "saveState s1 (save_result v 0) (persistentStateLocked s1) = (io1, None)"
    using False p by (cases "StatePath (config s1) = []") (simp_all add: saveState_def)
  obtain io2 err where e: "?e = (io2, err)" by fastforce
  obtain io3 x where s3: "saveState ?s3 (save_result v 1) (persistentStateLocked ?s3) = (io3, x)" by fastforce
  have "fst (Reconcile v s) = ?s3 \<and> fst (snd (Reconcile v s)) = io1 @ io2 @ io3"
    unfolding Reconcile_planned [OF assms] s0 p using e s3 by (simp add: Let_def)
  then show ?thesis using acted [OF p] False p s0 e s3 by simp
qed


definition acts :: "io \<Rightarrow> bool" where
  "acts a = (case a of DoSave _ \<Rightarrow> False | _ \<Rightarrow> True)"

text \<open>C27.
  A recovery action is taken only when it is due, and is on disk before it starts. With a state
  file, a call that takes an action writes the state, takes this one action and writes the state
  again. The first write has succeeded and carries the attempt: the count is one higher and the
  next retry is moved into the future by the backoff of this attempt. A restart of the child is
  due when no expected session is up and its backoff has passed; any other action belongs to an
  expected session that is not up, has failed for the grace period, and whose backoff has passed.\<close>

theorem recovery_write_ahead:
  assumes ok: "sup_ok s" and path: "StatePath (config s) \<noteq> []" and a: "a \<in> set (fst (snd (Reconcile v s)))" "acts a"
  shows "\<exists>sessions st st'. control_status v = Inr sessions \<and> fst (snd (Reconcile v s)) = [DoSave st, a, DoSave st'] \<and> save_result v 0 = None \<and>
    (if a = DoRestart then
       (\<forall>p\<in>set (expected s). \<not> session_up (observed sessions) p) \<and> restart_due (now v) s \<and>
       PChildRecoveryAttempts st = Suc (childRecoveryAttempts s) \<and>
       PChildNextRetry st = now v + child_delay (config s) (Suc (childRecoveryAttempts s))
     else
       \<exists>p\<in>set (expected s). \<not> session_up (observed sessions) p \<and> due (now v) p s \<and> a \<in> {DoConfigure (Daemon (config s)), DoReset p} \<and>
         (\<exists>e. map_of (PEpisodes st) (pairKey p) = Some e \<and> Attempts (PStatus e) = Suc (Attempts (episode s p)) \<and>
              NextRetry (PStatus e) = now v + pair_delay (config s) (Suc (Attempts (episode s p)))))"
  using ok
proof (cases rule: Reconcile_cases [where v = v])
  case (failed err)
  then show ?thesis using a by simp
next
  case (planned sessions s1 pend)
  have sp: "StatePath (config s1) \<noteq> []" using path planned(4) by simp
  show ?thesis using planned(1,2)
  proof (cases rule: Reconcile_outcomes)
    case stopped
    then show ?thesis using a by (auto simp: saveState_def acts_def split: if_splits)
  next
    case (acted p)
    note pl = planned(7) [OF acted(1)]
    have cfg: "StatePath (config (fst (Reconcile v s))) \<noteq> []"
      using acted(3) record_result(2) [OF planned(3) planned_key [OF pl planned(5)]] sp by simp
    define st where "st = persistentStateLocked s1"
    define st' where "st' = persistentStateLocked (fst (Reconcile v s))"
    have ne: "paction p \<noteq> RecoveryNone" using pl by (simp add: planned_def)
    obtain b where b: "fst (executeRecoveryAction s1 p (action_result v)) = [b]" "acts b"
      and bi: "b = DoRestart \<longleftrightarrow> paction p = RecoveryRestartChild" "b \<noteq> DoRestart \<Longrightarrow> b \<in> {DoConfigure (Daemon (config s)), DoReset (ppair p)}"
      using ne planned(4) by (cases "paction p") (auto simp: executeRecoveryAction_def acts_def)
    have ios: "fst (snd (Reconcile v s)) = [DoSave st, b, DoSave st']"
      using acted(4) b(1) sp cfg by (simp add: saveState_def st_def st'_def)
    have ab: "a = b" using a ios by (auto simp: acts_def)
    have e: "\<exists>e. map_of (PEpisodes st) k = Some e \<and> PStatus e = SessionRecoveryStatus.truncate x" if "map_of (episodes s1) k = Some x" for k x
      using that by (auto simp: st_def persistentStateLocked_def map_of_map)
    have s0: "save_result v 0 = None" using acted(2) sp by simp
    show ?thesis
    proof (cases "a = DoRestart")
      case True
      then have "paction p = RecoveryRestartChild" using ab bi by simp
      then have "all_down sessions s" "restart_due (now v) s" "childRecoveryAttempts s1 = Suc (childRecoveryAttempts s)"
        "childNextRetry s1 = now v + child_delay (config s) (Suc (childRecoveryAttempts s))" using pl by (simp_all add: planned_def)
      then show ?thesis using True planned(1) ios ab s0 by (auto simp: st_def persistentStateLocked_def list_all_iff)
    next
      case False
      then have "paction p \<noteq> RecoveryRestartChild" using ab bi by simp
      then obtain k x where k: "pepisode p = Some k" "k = pairKey (ppair p)" "ppair p \<in> set (expected s)"
        "\<not> session_up (observed sessions) (ppair p)" "due (now v) (ppair p) s" "map_of (episodes s1) k = Some x"
        "Attempts x = Suc (Attempts (episode s (ppair p)))" "NextRetry x = now v + pair_delay (config s) (Attempts x)"
        using pl unfolding planned_def by blast
      then obtain e where "map_of (PEpisodes st) (pairKey (ppair p)) = Some e" "PStatus e = SessionRecoveryStatus.truncate x" using e by blast
      then have "\<exists>e. map_of (PEpisodes st) (pairKey (ppair p)) = Some e \<and> Attempts (PStatus e) = Suc (Attempts (episode s (ppair p))) \<and>
        NextRetry (PStatus e) = now v + pair_delay (config s) (Suc (Attempts (episode s (ppair p))))"
        using k(7,8) by (simp add: SessionRecoveryStatus.truncate_def)
      moreover have "a \<in> {DoConfigure (Daemon (config s)), DoReset (ppair p)}" using False bi(2) ab by simp
      moreover have "fst (snd (Reconcile v s)) = [DoSave st, a, DoSave st']" using ios ab by simp
      ultimately show ?thesis using k(3-5) planned(1) s0 unfolding if_not_P [OF False] by blast
    qed
  qed
qed

text \<open>The supervisor reports ready exactly when the control daemon answered and every expected session
  is up; without an answer it reports not ready.\<close>

theorem ready_iff_all_up:
  assumes ok: "sup_ok s"
  shows "Ready (status (fst (Reconcile v s))) \<longleftrightarrow>
    (\<exists>sessions. control_status v = Inr sessions \<and> (\<forall>p\<in>set (expected s). session_up (observed sessions) p))"
  using ok
proof (cases rule: Reconcile_cases [where v = v])
  case (failed err)
  then show ?thesis by simp
next
  case (planned sessions s1 pend)
  show ?thesis using planned(1,2)
  proof (cases rule: Reconcile_outcomes)
    case stopped
    then show ?thesis using planned(1,6) by (auto simp: list_all_iff)
  next
    case (acted p)
    show ?thesis using planned(1,6) acted(3) record_result(6) [OF planned(3) planned_key [OF planned(7) [OF acted(1)] planned(5)]]
      by (auto simp: list_all_iff)
  qed
qed

section \<open>Reachable states\<close>

lemma Reconcile_ok:
  assumes "sup_ok s"
  shows "sup_ok (fst (Reconcile v s)) \<and> config (fst (Reconcile v s)) = config s \<and> expected (fst (Reconcile v s)) = expected s"
  using assms
proof (cases rule: Reconcile_cases [where v = v])
  case (failed err)
  then show ?thesis using sup_ok_cong [OF assms] by simp
next
  case (planned sessions s1 pend)
  show ?thesis using planned(1,2)
  proof (cases rule: Reconcile_outcomes)
    case stopped
    then show ?thesis using planned(3-5) by simp
  next
    case (acted p)
    then show ?thesis using record_result [OF planned(3) planned_key [OF planned(7) [OF acted(1)] planned(5)]] planned(4,5) by simp
  qed
qed

lemma reserve_keeps: "config (fst (reserveChildRestartLocked t s)) = config s" "expected (fst (reserveChildRestartLocked t s)) = expected s"
  "episodes (fst (reserveChildRestartLocked t s)) = episodes s"
  by (cases rule: reserve_cases [of t s]; simp)+

lemma update_keeps [simp]:
  "config (updateLivenessLocked t s) = config s" "config (updateChildRunningLivenessLocked run t s) = config s"
  "expected (updateLivenessLocked t s) = expected s" "expected (updateChildRunningLivenessLocked run t s) = expected s"
  "episodes (updateLivenessLocked t s) = episodes s" "episodes (updateChildRunningLivenessLocked run t s) = episodes s"
  "episodes (set_ready b s) = episodes s"
  by (simp_all add: updateLivenessLocked_def updateChildRunningLivenessLocked_def set_ready_def)

lemma StartChild_keeps: "config (fst (StartChild v s)) = config s" "expected (fst (StartChild v s)) = expected s"
  "episodes (fst (StartChild v s)) = episodes s"
  unfolding StartChild_def Let_def saveState_def split_def
  by (cases "save_result v 0"; simp add: reserve_keeps)+

lemma insert_pairs_Nil [simp]: "foldr insert_pair ps [] = [] \<longleftrightarrow> ps = []"
proof -
  have "length (insert_pair p qs) = Suc (length qs)" for p qs by (induction qs) auto
  then have "length (foldr insert_pair ps []) = length ps" by (induction ps) auto
  then show ?thesis by (metis length_0_conv)
qed

inductive supervised :: "SupervisorConfig \<Rightarrow> Supervisor \<Rightarrow> bool" for cfg where
  start: "NewSupervisor cfg True f clk = Inr s \<Longrightarrow> distinct (map pairKey (expected s)) \<Longrightarrow> supervised cfg s"
| reconcile: "supervised cfg s \<Longrightarrow> supervised cfg (fst (Reconcile v s))"
| bootstrap: "supervised cfg s \<Longrightarrow> supervised cfg (fst (StartChild v s))"

text \<open>The episodes a supervisor starts with.\<close>

lemma new_episodes:
  "k \<notin> pairKey ` set ps \<Longrightarrow> map_of (foldl (\<lambda>m pair. mput (pairKey pair) (new_episode pair) m) m ps) k = map_of m k"
  "mwf m \<Longrightarrow> mwf (foldl (\<lambda>m pair. mput (pairKey pair) (new_episode pair) m) m ps)"
  by (induction ps rule: rev_induct) auto

lemma new_episodes_distinct:
  assumes "distinct (map pairKey ps)" "p \<in> set ps"
  shows "map_of (foldl (\<lambda>m pair. mput (pairKey pair) (new_episode pair) m) [] ps) (pairKey p) = Some (new_episode p)"
  using assms by (induction ps rule: rev_induct) (auto simp: image_iff)

lemma new_state_ok:
  assumes "new_state cfg = Inr s0" "distinct (map pairKey (expected s0))"
  shows "sup_ok s0 \<and> (\<forall>p\<in>set (expected s0). map_of (episodes s0) (pairKey p) = Some (new_episode p))"
proof -
  let ?m = "\<lambda>ps. foldl (\<lambda>m pair. mput (pairKey pair) (new_episode pair) m) [] ps"
  have e: "episodes s0 = ?m (expected s0)" "timing_ok (config s0)" "expected s0 \<noteq> []"
    using assms(1) by (auto simp: new_state_def timing_ok_def Let_def split: if_splits sum.splits)
  have m: "\<forall>p\<in>set (expected s0). map_of (episodes s0) (pairKey p) = Some (new_episode p)"
    using new_episodes_distinct [OF assms(2)] e(1) by simp
  have "map_of (episodes s0) k = None" if "k \<notin> pairKey ` set (expected s0)" for k
    using that unfolding e(1) by (simp add: new_episodes(1))
  then have "dom (map_of (episodes s0)) = pairKey ` set (expected s0)" using m by (metis (no_types, lifting) domIff domI imageE subsetI subset_antisym)
  then show ?thesis using m e assms(2) new_episodes(2) [of "[]" "expected s0"] by (simp add: sup_ok_def episode_def new_episode_def)
qed


text \<open>Restoring episodes from the state file.\<close>

definition restored :: "persistentEpisode \<Rightarrow> recoveryEpisode" where
  "restored saved = SessionRecoveryStatus.extend (PStatus saved)
     (recoveryEpisode.fields (PFailingSince saved) (PStableSince saved) (PCircuitUntil saved))"

lemma EPair_restored [simp]: "EPair (restored x) = EPair (PStatus x)"
  by (simp add: restored_def SessionRecoveryStatus.extend_def)

lemma restore_one:
  "map_of (restore_episode (k, x) m) j =
     (if j = k then (case map_of m k of None \<Rightarrow> None | Some e \<Rightarrow> Some (if EPair (PStatus x) = EPair e then restored x else e)) else map_of m j)"
  "dom (map_of (restore_episode (k, x) m)) = dom (map_of m)" "mwf m \<Longrightarrow> mwf (restore_episode (k, x) m)"
  by (auto simp: restore_episode_def restored_def split: option.splits if_splits)

lemma restore_all:
  "dom (map_of (fold restore_episode l m)) = dom (map_of m) \<and> (mwf m \<longrightarrow> mwf (fold restore_episode l m)) \<and>
   (\<forall>k e. map_of m k = Some e \<longrightarrow> (\<exists>e'. map_of (fold restore_episode l m) k = Some e' \<and> EPair e' = EPair e))"
proof (induction l arbitrary: m)
  case (Cons kx l)
  obtain k x where kx: "kx = (k, x)" by fastforce
  have "\<exists>e'. map_of (restore_episode kx m) j = Some e' \<and> EPair e' = EPair e" if "map_of m j = Some e" for j e
    using that by (auto simp: kx restore_one)
  then show ?case using Cons.IH [of "restore_episode kx m"] restore_one(2,3) [where k = k and x = x and m = m] kx by (simp, metis)
qed simp

lemma restore_lookup:
  assumes "distinct (map fst l)" "map_of l k = Some x" "map_of m k = Some e" "EPair (PStatus x) = EPair e"
  shows "map_of (fold restore_episode l m) k = Some (restored x)"
  using assms
proof (induction l arbitrary: m e)
  case (Cons jy l)
  obtain j y where jy: "jy = (j, y)" by fastforce
  have keep: "map_of (fold restore_episode l m') k = map_of m' k" if "k \<notin> fst ` set l" for m'
    using that by (induction l arbitrary: m') (auto simp: restore_one)
  show ?case
  proof (cases "j = k")
    case True
    then have "y = x" "k \<notin> fst ` set l" using Cons.prems jy by auto
    then show ?thesis using Cons.prems(3,4) keep True by (simp add: jy restore_one)
  next
    case False
    then show ?thesis using Cons.IH [of "restore_episode jy m" e] Cons.prems by (simp add: jy restore_one)
  qed
qed simp

lemma loadState_ok:
  assumes "sup_ok s0" "loadState f s0 = Inr s"
  shows "sup_ok s \<and> config s = config s0 \<and> expected s = expected s0"
proof -
  have c: "config s = config s0" "expected s = expected s0" "episodes s = episodes s0 \<or> (\<exists>l. episodes s = fold restore_episode l (episodes s0))"
    using assms(2) by (auto simp: loadState_def split: if_splits statefile.splits option.splits)
  have "EPair (episode s p) = p" if p: "p \<in> set (expected s0)" for p
  proof -
    obtain e where e: "map_of (episodes s0) (pairKey p) = Some e" using sup_okD(5) [OF assms(1)] p by fastforce
    then have "EPair e = p" using sup_okD(6) [OF assms(1)] p by (auto simp: episode_def)
    moreover have "\<exists>e'. map_of (episodes s) (pairKey p) = Some e' \<and> EPair e' = EPair e" using c(3) e restore_all [where m = "episodes s0"] by metis
    ultimately show ?thesis by (auto simp: episode_def)
  qed
  moreover have "dom (map_of (episodes s)) = dom (map_of (episodes s0))" "mwf (episodes s)"
    using c(3) restore_all [where m = "episodes s0"] sup_okD(4) [OF assms(1)] by metis+
  ultimately show ?thesis using sup_okD [OF assms(1)] c(1,2) by (simp add: sup_ok_def)
qed

lemma NewSupervisor_ok:
  assumes "NewSupervisor cfg True f clk = Inr s" "distinct (map pairKey (expected s))"
  obtains s0 s1 where "new_state cfg = Inr s0" "loadState f s0 = Inr s1" "sup_ok s" "config s = config s0" "expected s = expected s0"
    "episodes s = episodes s1"
proof -
  obtain s0 s1 where s: "new_state cfg = Inr s0" "loadState f s0 = Inr s1"
    "config s = config s1" "expected s = expected s1" "episodes s = episodes s1"
    using assms(1) by (auto simp: NewSupervisor_def Let_def split: sum.splits if_splits)
  have "expected s1 = expected s0" using s(2) by (auto simp: loadState_def split: if_splits statefile.splits option.splits)
  then have "sup_ok s0" using new_state_ok [OF s(1)] assms(2) s(4) by simp
  note l = loadState_ok [OF this s(2)]
  then have "sup_ok s" using sup_ok_cong [of s1 s] s(3-5) by simp
  then show ?thesis using that [OF s(1,2)] l s(3-5) by simp
qed

lemma supervised_ok:
  assumes "supervised cfg s"
  shows "\<exists>s0. new_state cfg = Inr s0 \<and> sup_ok s0 \<and> sup_ok s \<and> config s = config s0 \<and> expected s = expected s0"
  using assms
proof induction
  case (start f clk s)
  then obtain s0 s1 where "new_state cfg = Inr s0" "sup_ok s" "config s = config s0" "expected s = expected s0" by (rule NewSupervisor_ok)
  then show ?case using new_state_ok [of cfg s0] start(2) by simp
next
  case (reconcile s v)
  then show ?case using Reconcile_ok by metis
next
  case (bootstrap s v)
  then show ?case using StartChild_keeps sup_ok_cong by metis
qed

section \<open>The state file\<close>

lemma restored_episode:
  "restored \<lparr>PStatus = SessionRecoveryStatus.truncate e, PFailingSince = failingSince e, PStableSince = stableSince e, PCircuitUntil = circuitUntil e\<rparr> = e"
  by (cases e) (simp add: restored_def SessionRecoveryStatus.truncate_def SessionRecoveryStatus.extend_def recoveryEpisode.fields_def)

text \<open>C29.
  A restart of the supervisor loses nothing the recovery depends on: for a supervisor that a
  configuration with a state file reaches, starting again from the state it last wrote succeeds
  and gives the same episodes, the same attempts, the same next retry and open circuit of the
  child and the same count of restarts. Only an open circuit it has inherited no longer counts
  against its liveness.\<close>

theorem state_file_roundtrip:
  assumes s: "supervised cfg s" and path: "StatePath cfg \<noteq> []"
  shows "\<exists>s1. NewSupervisor cfg True (Decoded (persistentStateLocked s)) clk = Inr s1 \<and> expected s1 = expected s \<and>
    map_of (episodes s1) = map_of (episodes s) \<and> childRecoveryAttempts s1 = childRecoveryAttempts s \<and>
    childNextRetry s1 = childNextRetry s \<and> childCircuitUntil s1 = childCircuitUntil s \<and>
    ChildRestarts (status s1) = ChildRestarts (status s) \<and> \<not> childCircuitFailsLivenessLocked (clk 0) s1"
proof -
  obtain s0 where s0: "new_state cfg = Inr s0" "sup_ok s0" "sup_ok s" "config s = config s0" "expected s = expected s0"
    using supervised_ok [OF s] by blast
  have p0: "StatePath (config s0) \<noteq> []" using s0(1) path by (auto simp: new_state_def Let_def split: if_splits sum.splits)
  let ?st = "persistentStateLocked s"
  define m where "m = fold restore_episode (PEpisodes ?st) (episodes s0)"
  have "map_of m k = map_of (episodes s) k" for k
  proof (cases "k \<in> pairKey ` set (expected s)")
    case False
    then show ?thesis using restore_all [of "PEpisodes ?st" "episodes s0"] sup_okD(5) [OF s0(2)] sup_okD(5) [OF s0(3)] s0(5)
      unfolding m_def by (metis domIff)
  next
    case True
    then obtain p where p: "p \<in> set (expected s)" "k = pairKey p" by blast
    obtain e where e: "map_of (episodes s) k = Some e" using sup_okD(5) [OF s0(3)] True by fastforce
    obtain e0 where e0: "map_of (episodes s0) k = Some e0" using sup_okD(5) [OF s0(2)] True s0(5) by fastforce
    have "EPair e = p" "EPair e0 = p" using e e0 p sup_okD(6) [OF s0(2)] sup_okD(6) [OF s0(3)] s0(5) by (auto simp: episode_def)
    moreover have "distinct (map fst (PEpisodes ?st))" using sup_okD(4) [OF s0(3)]
      by (simp add: persistentStateLocked_def mwf_def comp_def case_prod_beta)
    moreover have "map_of (PEpisodes ?st) k = Some \<lparr>PStatus = SessionRecoveryStatus.truncate e, PFailingSince = failingSince e,
        PStableSince = stableSince e, PCircuitUntil = circuitUntil e\<rparr>" using e by (simp add: persistentStateLocked_def map_of_map)
    moreover have "EPair (SessionRecoveryStatus.truncate e) = EPair e" by (simp add: SessionRecoveryStatus.truncate_def)
    ultimately have "map_of m k = Some (restored \<lparr>PStatus = SessionRecoveryStatus.truncate e, PFailingSince = failingSince e,
        PStableSince = stableSince e, PCircuitUntil = circuitUntil e\<rparr>)"
      unfolding m_def using restore_lookup [OF _ _ e0] by simp
    then show ?thesis unfolding restored_episode e .
  qed
  then have m: "map_of m = map_of (episodes s)" by blast
  let ?s1 = "s0\<lparr>episodes := m, status := (status s0)\<lparr>ChildRestarts := PChildRestarts ?st\<rparr>,
    childRecoveryAttempts := PChildRecoveryAttempts ?st, childNextRetry := PChildNextRetry ?st, childCircuitUntil := PChildCircuitUntil ?st\<rparr>"
  have l: "loadState (Decoded ?st) s0 = Inr ?s1" using p0 by (simp add: loadState_def m_def)
  have n: "NewSupervisor cfg True (Decoded ?st) clk = Inr (refreshStatusLocked (clk 1)
     (if childCircuitOpenLocked (clk 0) ?s1 then ?s1\<lparr>inheritedCircuitUntil := childCircuitUntil ?s1\<rparr> else ?s1))"
    unfolding NewSupervisor_def s0(1) by (simp add: l)
  show ?thesis unfolding n
    using s0(5) m by (simp add: persistentStateLocked_def childCircuitFailsLivenessLocked_def childCircuitOpenLocked_def IsZero_def refreshStatusLocked_def)
qed

section \<open>Restarts of the child\<close>

text \<open>The restarts of a run of reconciliations: when, and the number of the attempt.\<close>

fun restarts :: "env list \<Rightarrow> Supervisor \<Rightarrow> (Time \<times> nat) list" where
  "restarts [] s = []"
| "restarts (v # vs) s =
     (let (s', ios, _) = Reconcile v s in
      (if DoRestart \<in> set ios then [(now v, childRecoveryAttempts s')] else []) @ restarts vs s')"

definition no_session_up :: "Supervisor \<Rightarrow> env \<Rightarrow> bool" where
  "no_session_up s v = (case control_status v of Inl _ \<Rightarrow> True | Inr sessions \<Rightarrow> all_down sessions s)"

lemma Reconcile_child:
  assumes ok: "sup_ok s" and down: "no_session_up s v"
  obtains (same) "childNextRetry (fst (Reconcile v s)) = childNextRetry s" "childRecoveryAttempts (fst (Reconcile v s)) = childRecoveryAttempts s"
      "DoRestart \<notin> set (fst (snd (Reconcile v s)))"
  | (reserved) "restart_due (now v) s" "childRecoveryAttempts (fst (Reconcile v s)) = Suc (childRecoveryAttempts s)"
      "childNextRetry (fst (Reconcile v s)) = now v + child_delay (config s) (Suc (childRecoveryAttempts s))"
  using ok
proof (cases rule: Reconcile_cases [where v = v])
  case (failed err)
  then show ?thesis using same by simp
next
  case (planned sessions s1 pend)
  have ad: "all_down sessions s" using down planned(1) by (simp add: no_session_up_def)
  have child: "childNextRetry (fst (Reconcile v s)) = childNextRetry s1 \<and> childRecoveryAttempts (fst (Reconcile v s)) = childRecoveryAttempts s1"
    using planned(1,2)
  proof (cases rule: Reconcile_outcomes)
    case (acted p)
    then show ?thesis using record_result(4,5) [OF planned(3) planned_key [OF planned(7) [OF acted(1)] planned(5)]] by simp
  qed simp
  have restart: "\<exists>p. pend = Some p \<and> paction p = RecoveryRestartChild" if r: "DoRestart \<in> set (fst (snd (Reconcile v s)))"
    using planned(1,2)
  proof (cases rule: Reconcile_outcomes)
    case stopped
    then show ?thesis using r by (auto simp: saveState_def split: if_splits)
  next
    case (acted p)
    have "DoRestart \<notin> set (fst (saveState x y z))" for x y z by (simp add: saveState_def)
    then have "DoRestart \<in> set (fst (executeRecoveryAction s1 p (action_result v)))" using acted(4) r by simp
    then show ?thesis using acted(1) by (auto simp: executeRecoveryAction_def split: RecoveryAction.splits)
  qed
  show ?thesis
  proof (cases "\<exists>p. pend = Some p \<and> paction p = RecoveryRestartChild")
    case True
    then obtain p where "pend = Some p" "paction p = RecoveryRestartChild" by blast
    then show ?thesis using reserved child planned(7) by (simp add: planned_def)
  next
    case False
    have "childNextRetry s1 = childNextRetry s \<and> childRecoveryAttempts s1 = childRecoveryAttempts s"
      using planned(7,8) ad False by (cases pend) (auto simp: planned_def)
    then show ?thesis using same child restart False by auto
  qed
qed

definition delays_ok :: "SupervisorConfig \<Rightarrow> bool" where
  "delays_ok cfg = (list_all (\<lambda>d. 0 \<le> d) (ChildBackoffs cfg) \<and> 0 < CircuitOpen cfg)"

lemma child_delay_nonneg: "delays_ok cfg \<Longrightarrow> 0 \<le> child_delay cfg (Suc n)"
  by (auto simp: delays_ok_def delay_def list_all_length)

lemma restarts_later:
  assumes "sup_ok s" "delays_ok (config s)" "list_all (no_session_up s) vs" "list_all (\<lambda>v. 0 < now v) vs" "sorted (map now vs)"
    and "(u, m) \<in> set (restarts vs s)"
  shows "childRecoveryAttempts s < m \<and> childNextRetry s \<le> u"
  using assms
proof (induction vs arbitrary: s)
  case (Cons v vs)
  obtain s' ios errs where r: "Reconcile v s = (s', ios, errs)" by (metis prod_cases3)
  have ok': "sup_ok s'" "config s' = config s" "expected s' = expected s" using Reconcile_ok [OF Cons.prems(1), of v] r by auto
  have nu: "no_session_up s' = no_session_up s" using ok'(3) by (auto simp: no_session_up_def fun_eq_iff split: sum.splits)
  have u: "now v \<le> u"
  proof -
    have "\<exists>w\<in>set vs. u = now w" if "(u, m) \<in> set (restarts vs x)" for x
      using that by (induction vs arbitrary: x) (auto split: prod.splits if_splits)
    then show ?thesis using Cons.prems(5,6) r by (auto split: if_splits)
  qed
  have IH: "(u, m) \<in> set (restarts vs s') \<Longrightarrow> childRecoveryAttempts s' < m \<and> childNextRetry s' \<le> u"
    using Cons.IH [OF ok'(1)] Cons.prems ok'(2) nu by simp
  have pos: "0 < now v" "no_session_up s v" using Cons.prems by simp_all
  from Cons.prems(1) pos(2) show ?case
  proof (cases rule: Reconcile_child)
    case same
    then show ?thesis using IH Cons.prems(6) r by simp
  next
    case reserved
    have d: "0 \<le> child_delay (config s) (Suc (childRecoveryAttempts s))" using child_delay_nonneg Cons.prems(2) by blast
    have "childNextRetry s \<le> now v" using reserved(1) pos(1) by (auto simp: restart_due_def)
    then show ?thesis using IH reserved(2,3) Cons.prems(6) r d u by (auto split: if_splits)
  qed
qed simp

text \<open>C28.
  While no expected session comes up, restarts of the child keep their distance: in a run of
  reconciliations at times that do not go back, the attempts are numbered upwards and after the
  restart with number n the next one is not before the backoff of n has passed, which is the
  n-th of the configured ones and, once these are used up, the time the circuit stays open.\<close>

theorem restart_spacing:
  assumes "sup_ok s" "delays_ok (config s)" "list_all (no_session_up s) vs" "list_all (\<lambda>v. 0 < now v) vs" "sorted (map now vs)"
  shows "sorted_wrt (\<lambda>(t, n) (u, m). n < m \<and> t + child_delay (config s) n \<le> u) (restarts vs s)"
  using assms
proof (induction vs arbitrary: s)
  case (Cons v vs)
  obtain s' ios errs where r: "Reconcile v s = (s', ios, errs)" by (metis prod_cases3)
  have ok': "sup_ok s'" "config s' = config s" "expected s' = expected s" using Reconcile_ok [OF Cons.prems(1), of v] r by auto
  have nu: "no_session_up s' = no_session_up s" using ok'(3) by (auto simp: no_session_up_def fun_eq_iff split: sum.splits)
  have prem: "sup_ok s'" "delays_ok (config s')" "list_all (no_session_up s') vs" "list_all (\<lambda>v. 0 < now v) vs" "sorted (map now vs)"
    using ok' nu Cons.prems by simp_all
  have IH: "sorted_wrt (\<lambda>(t, n) (u, m). n < m \<and> t + child_delay (config s) n \<le> u) (restarts vs s')" using Cons.IH [OF prem] ok'(2) by simp
  show ?case
  proof (cases "DoRestart \<in> set ios")
    case False
    then show ?thesis using IH r by simp
  next
    case True
    have "no_session_up s v" using Cons.prems by simp
    from Cons.prems(1) this have "childRecoveryAttempts s' = Suc (childRecoveryAttempts s) \<and> childNextRetry s' = now v + child_delay (config s) (childRecoveryAttempts s')"
      by (cases rule: Reconcile_child) (use True r in simp_all)
    then have "childRecoveryAttempts s' < m \<and> now v + child_delay (config s) (childRecoveryAttempts s') \<le> u" if "(u, m) \<in> set (restarts vs s')" for u m
      using restarts_later [OF prem that] by simp
    then show ?thesis using IH r True by auto
  qed
qed simp

section \<open>Failing sessions are not forgotten\<close>

lemma plan_pairs_quiet:
  assumes "distinct (map pairKey ps)" "plan_pairs t obs au ps s = (s', None)" "p \<in> set ps"
  shows "\<exists>s1. snd (planEpisodeRecoveryLocked t p (map_of obs (pairKey p)) au s1) = None \<and> episode s1 p = episode s p \<and>
    childNextRetry s1 = childNextRetry s \<and> config s1 = config s"
  using assms
proof (induction ps arbitrary: s)
  case (Cons q ps)
  obtain s2 r where r: "planEpisodeRecoveryLocked t q (map_of obs (pairKey q)) au s = (s2, r)" by fastforce
  have none: "r = None" using Cons.prems(2) r by (cases r) auto
  show ?case
  proof (cases "p = q")
    case True
    then show ?thesis using r none by (intro exI [of _ s]) simp
  next
    case False
    then have p: "p \<in> set ps" using Cons.prems(3) by simp
    then have p2: "pairKey p \<noteq> pairKey q" using Cons.prems(1) by (metis distinct.simps(2) image_eqI list.set_map list.simps(9))
    have "plan_pairs t obs au ps s2 = (s', None)" "distinct (map pairKey ps)" using Cons.prems(1,2) r none by simp_all
    from Cons.IH [OF this(2,1) p] obtain s1 where s1: "snd (planEpisodeRecoveryLocked t p (map_of obs (pairKey p)) au s1) = None"
      "episode s1 p = episode s2 p" "childNextRetry s1 = childNextRetry s2" "config s1 = config s2" by blast
    have f: "frame {pairKey q} s s2" using planEpisode_frame [OF r] by simp
    have "childNextRetry s2 = childNextRetry s"
      by (cases rule: planEpisode_cases [of t q "map_of obs (pairKey q)" au s]) (use r none in auto)
    then show ?thesis using s1 frame_episode [OF f, of p] p2 frameD(1) [OF f] by auto
  qed
qed simp

lemma select_acts: "length (Backoffs cfg) \<le> 3 \<Longrightarrow> selectRecoveryAction cfg n x au \<noteq> RecoveryNone"
  by (auto simp: selectRecoveryAction_def)

lemma plan_due:
  assumes ok: "sup_ok s" and few: "length (Backoffs (config s)) \<le> 3" and p: "p \<in> set (expected s)"
    and d: "\<not> session_up (observed sessions) p" "due t p s"
    and pl: "planSessionRecovery t run t1 sessions s = (s', None)"
  shows "all_down sessions s \<and> \<not> restart_due t s"
proof -
  let ?s = "set_ready True s"
  have nh: "\<not> (all_down sessions s \<and> childHalfOpenDueLocked t ?s)"
  proof
    assume h: "all_down sessions s \<and> childHalfOpenDueLocked t ?s"
    then have "restart_due t (set_ready False ?s)" by (auto simp: childHalfOpenDueLocked_def restart_due_def)
    then obtain u where "reserveChildRestartLocked t (set_ready False ?s) = (u, True)"
      by (cases rule: reserve_cases [of t "set_ready False ?s"]) auto
    then show False using pl h by (simp add: planSessionRecovery_def Let_def)
  qed
  have "\<exists>s2. plan_pairs t (observed sessions) (all_down sessions s) (expected s) ?s = (s2, None)"
    using pl unfolding planSessionRecovery_def Let_def if_not_P [OF nh] by (auto split: prod.splits)
  then obtain s1 where s1: "snd (planEpisodeRecoveryLocked t p (map_of (observed sessions) (pairKey p)) (all_down sessions s) s1) = None"
    "episode s1 p = episode s p" "childNextRetry s1 = childNextRetry s" "config s1 = config s"
    using plan_pairs_quiet [OF sup_okD(3) [OF ok] _ p] by fastforce
  have d1: "due t p s1" "restart_due t s1 = restart_due t s" using d(2) s1 by (simp_all add: due_def restart_due_def)
  show ?thesis
  proof (cases rule: planEpisode_cases [of t p "map_of (observed sessions) (pairKey p)" "all_down sessions s" s1])
    case (up e)
    then show ?thesis using d(1) by (simp add: session_up_def)
  next
    case (quiet e)
    let ?a = "selectRecoveryAction (config s1) (Attempts (episode s1 p)) (map_of (observed sessions) (pairKey p) \<noteq> None) (all_down sessions s)"
    have "?a \<noteq> RecoveryNone" using select_acts few s1(4) by simp
    then have a: "?a = RecoveryRestartChild" "\<not> restart_due t s1" using quiet(3) [OF d1(1)] by auto
    then show ?thesis using select_restart [OF a(1)] d1(2) by simp
  next
    case (act a e s2)
    then show ?thesis using s1(1) by simp
  qed
qed

text \<open>C30.
  A failing session is not forgotten: with at most three backoffs, a reconciliation that gets an
  answer from the daemon and can write its state takes a recovery action whenever some expected
  session is not up, has failed for the grace period and has waited out its backoff. The one
  exception is the restart of the child, which may still have to wait while no session is up.\<close>

theorem due_session_acts:
  assumes ok: "sup_ok s" and few: "length (Backoffs (config s)) \<le> 3" and v: "control_status v = Inr sessions" "save_result v 0 = None"
    and p: "p \<in> set (expected s)" "\<not> session_up (observed sessions) p" "due (now v) p s"
  shows "(\<exists>a\<in>set (fst (snd (Reconcile v s))). acts a) \<or> all_down sessions s \<and> \<not> restart_due (now v) s"
  using ok
proof (cases rule: Reconcile_cases [where v = v])
  case (failed err)
  then show ?thesis using v by simp
next
  case (planned ss s1 pend)
  let ?s = "s\<lparr>controlFailures := 0, status := (status s)\<lparr>ControlFailures := 0, LastControlError := []\<rparr>\<rparr>"
  have ss: "ss = sessions" using planned(1) v(1) by simp
  show ?thesis using planned(1,2)
  proof (cases rule: Reconcile_outcomes)
    case stopped
    then have none: "pend = None" using v(2) by simp
    have "sup_ok ?s" "due (now v) p ?s" using sup_ok_cong [OF ok] p(3) by (simp_all add: due_def episode_def)
    then show ?thesis using plan_due [of ?s p sessions "now v"] planned(2) none few p(1,2) ss by (simp add: restart_due_def)
  next
    case (acted q)
    then have "paction q \<noteq> RecoveryNone" using planned(7) by (simp add: planned_def)
    then have "\<exists>a\<in>set (fst (executeRecoveryAction s1 q (action_result v))). acts a"
      by (cases "paction q") (simp_all add: executeRecoveryAction_def acts_def)
    then show ?thesis using acted(4) by auto
  qed
qed

text \<open>
  With more than three backoffs the escalation has a gap: after the third attempt, and before
  the attempts have reached the number of backoffs, no action is selected, the attempts are not
  counted on, and the session is never acted on again while it stays down.
\<close>

theorem recovery_stalls:
  assumes "3 \<le> Attempts (episode s p)" "Attempts (episode s p) < length (Backoffs (config s))" "\<not> up x"
  shows "snd (planEpisodeRecoveryLocked t p x au s) = None \<and>
    Attempts (episode (fst (planEpisodeRecoveryLocked t p x au s)) p) = Attempts (episode s p)"
  using assms
  by (auto simp: planEpisodeRecoveryLocked_def Let_def selectRecoveryAction_def markEpisodeWaitingLocked_def split: if_splits)

section \<open>A concrete supervisor\<close>

definition sample_cfg :: SupervisorConfig where
  "sample_cfg = \<lparr>Daemon = \<lparr>MinTXMilliseconds = 300, MinRXMilliseconds = 300, Multiplier = 3, PeerIPs = [''10.0.0.1'', ''fd00::1'']\<rparr>,
     PodIPs = [''10.0.0.2''], GracePeriod = 30, StablePeriod = 60, Backoffs = [60, 300, 1800], ChildBackoffs = [5, 15, 30],
     CircuitOpen = 3600, StatePath = ''/run/state.json''\<rparr>"

definition sample_pair :: SessionPair where
  "sample_pair = \<lparr>Local = ''10.0.0.2'', Remote = ''10.0.0.1''\<rparr>"

text \<open>The session has been failing since 100 and has had one attempt.\<close>

definition sample_sup :: Supervisor where
  "sample_sup = \<lparr>config = sample_cfg, expected = [sample_pair],
     episodes = [(''10.0.0.2|10.0.0.1'', (new_episode sample_pair)\<lparr>failingSince := 100, Attempts := 1, NextRetry := 190\<rparr>)],
     status = zero_status, controlFailures = 0, childRecoveryAttempts = 0, childNextRetry = 0, childCircuitUntil = 0,
     childBootstrapAttempted = True, inheritedCircuitUntil = 0\<rparr>"

definition sample_env :: "Time \<Rightarrow> env" where
  "sample_env t = \<lparr>clock = (\<lambda>i. t), running = (\<lambda>i. True), control_status = Inr [], action_result = None, save_result = (\<lambda>i. None)\<rparr>"

lemma sample_sup_ok: "sup_ok sample_sup"
proof -
  have "dom (map_of (episodes sample_sup)) = {''10.0.0.2|10.0.0.1''}" by (simp add: sample_sup_def)
  moreover have "pairKey ` set (expected sample_sup) = {''10.0.0.2|10.0.0.1''}" by code_simp
  moreover have "timing_ok (config sample_sup)" "distinct (map pairKey (expected sample_sup))" "mwf (episodes sample_sup)"
    "EPair (episode sample_sup sample_pair) = sample_pair" "expected sample_sup = [sample_pair]" by code_simp+
  ultimately show ?thesis by (simp add: sup_ok_def)
qed

theorem recovery_write_ahead_witness:
  "DoRestart \<in> set (fst (snd (Reconcile (sample_env 200) sample_sup))) \<and>
   (\<exists>st st'. fst (snd (Reconcile (sample_env 200) sample_sup)) = [DoSave st, DoRestart, DoSave st'] \<and>
      PChildRecoveryAttempts st = 1 \<and> PChildNextRetry st = 205)"
proof -
  have p: "StatePath (config sample_sup) \<noteq> []" by code_simp
  have r: "DoRestart \<in> set (fst (snd (Reconcile (sample_env 200) sample_sup)))" by code_simp
  have a: "acts DoRestart" by (simp add: acts_def)
  have c: "childRecoveryAttempts sample_sup = 0" "now (sample_env 200) + child_delay (config sample_sup) (Suc 0) = 205" by code_simp+
  show ?thesis using recovery_write_ahead [OF sample_sup_ok p r a] r c by auto
qed

theorem ready_iff_all_up_witness:
  "sup_ok sample_sup \<and> \<not> Ready (status (fst (Reconcile (sample_env 200) sample_sup)))"
proof -
  have "control_status (sample_env 200) = Inr []" "\<not> session_up (observed []) sample_pair" "sample_pair \<in> set (expected sample_sup)" by code_simp+
  then show ?thesis using ready_iff_all_up [OF sample_sup_ok, of "sample_env 200"] sample_sup_ok by auto
qed

theorem due_session_acts_witness:
  "due 200 sample_pair sample_sup \<and> (\<exists>a\<in>set (fst (snd (Reconcile (sample_env 200) sample_sup))). acts a)"
proof -
  have c: "length (Backoffs (config sample_sup)) \<le> 3" "control_status (sample_env 200) = Inr []" "save_result (sample_env 200) 0 = None"
    "sample_pair \<in> set (expected sample_sup)" "\<not> session_up (observed []) sample_pair" "due (now (sample_env 200)) sample_pair sample_sup"
    "restart_due (now (sample_env 200)) sample_sup" by code_simp+
  have "due 200 sample_pair sample_sup" by code_simp
  then show ?thesis using due_session_acts [OF sample_sup_ok c(1-6)] c(7) by simp
qed

theorem restart_spacing_witness:
  "sup_ok sample_sup \<and> restarts [sample_env 200, sample_env 203, sample_env 500, sample_env 2400] sample_sup = [(200, 1), (500, 2)] \<and>
   sorted_wrt (\<lambda>(t, n) (u, m). n < m \<and> t + child_delay (config sample_sup) n \<le> u)
     (restarts [sample_env 200, sample_env 203, sample_env 500, sample_env 2400] sample_sup)"
proof -
  let ?vs = "[sample_env 200, sample_env 203, sample_env 500, sample_env 2400]"
  have c: "delays_ok (config sample_sup)" "list_all (no_session_up sample_sup) ?vs" "list_all (\<lambda>v. 0 < now v) ?vs" "sorted (map now ?vs)"
    by code_simp+
  have "restarts ?vs sample_sup = [(200, 1), (500, 2)]" by code_simp
  then show ?thesis using restart_spacing [OF sample_sup_ok c] sample_sup_ok by simp
qed

theorem state_file_roundtrip_witness:
  "\<exists>s s1. supervised sample_cfg s \<and> NewSupervisor sample_cfg True (Decoded (persistentStateLocked s)) (\<lambda>i. 7) = Inr s1 \<and>
     map_of (episodes s1) = map_of (episodes s)"
proof -
  obtain s where s: "NewSupervisor sample_cfg True NoFile (\<lambda>i. 5) = Inr s" "distinct (map pairKey (expected s))"
  proof -
    have "case NewSupervisor sample_cfg True NoFile (\<lambda>i. 5) of Inl _ \<Rightarrow> False | Inr s \<Rightarrow> distinct (map pairKey (expected s))" by code_simp
    then show ?thesis using that by (auto split: sum.splits)
  qed
  have p: "StatePath sample_cfg \<noteq> []" by code_simp
  have sup: "supervised sample_cfg s" by (rule supervised.start [OF s])
  show ?thesis using state_file_roundtrip [OF sup p, of "\<lambda>i. 7"] sup by blast
qed

end
