(* ===== verification/BfddControl.thy ===== *)
theory BfddControl
  imports Supervisor UtilText
begin

text \<open>
  The client of bfdd-control, pkg/bfddsupervisor/control.go: reading the status of the sessions,
  resetting a session and configuring the daemon, and the start of the managed child of
  managed_child.go.

  The command itself is a parameter \<open>exec\<close>: it takes the state of the world and the arguments and
  returns the new state, whether the deadline passed, the error of the command and its output.
  An error is a text that begins like the one of the source; quoted values are left out.
\<close>

section \<open>Texts\<close>

text \<open>\<open>strings.Fields\<close> for texts in ASCII.\<close>

function Fields :: "string \<Rightarrow> string list" where
  "Fields s =
     (let r = dropWhile is_space s in
      if r = [] then [] else takeWhile (\<lambda>c. \<not> is_space c) r # Fields (dropWhile (\<lambda>c. \<not> is_space c) r))"
  by auto
termination
proof (relation "measure length")
  show "wf (measure (length :: string \<Rightarrow> nat))" by simp
  fix s r :: string
  assume r: "r = dropWhile is_space s" "r \<noteq> []"
  then have "\<not> is_space (hd r)" by (metis hd_dropWhile)
  then have "length (dropWhile (\<lambda>c. \<not> is_space c) r) < length r" using r(2) by (cases r) (simp_all add: le_imp_less_Suc length_dropWhile_le)
  then show "(dropWhile (\<lambda>c. \<not> is_space c) r, s) \<in> measure length"
    using length_dropWhile_le [of is_space s] r(1) by simp
qed

declare Fields.simps [simp del]

text \<open>\<open>strconv.ParseUint\<close> with base 10 and 32 bits.\<close>

definition ParseUint32 :: "string \<Rightarrow> 32 word option" where
  "ParseUint32 s = (if s \<noteq> [] \<and> list_all is_digit s \<and> dec_val s < 2 ^ 32 then Some (word_of_nat (dec_val s)) else None)"

definition parse_state :: "string \<Rightarrow> SessionState option" where
  "parse_state s =
     (if s = ''Up'' then Some SessionUp else if s = ''Down'' then Some SessionDown
      else if s = ''Init'' then Some SessionInit else if s = ''AdminDown'' then Some SessionAdminDown else None)"

section \<open>The status of the sessions\<close>

text \<open>The fields of a line: a later field of the same name replaces an earlier one.\<close>

record status_fields =
  fid :: string
  flocal :: string
  fremote :: string
  fstate :: string

definition read_field :: "status_fields \<Rightarrow> string \<Rightarrow> status_fields" where
  "read_field f field =
     (if prefix ''id='' field then f\<lparr>fid := TrimPrefix field ''id=''\<rparr>
      else if prefix ''local='' field then f\<lparr>flocal := TrimPrefix field ''local=''\<rparr>
      else if prefix ''remote='' field then f\<lparr>fremote := TrimPrefix field ''remote=''\<rparr>
      else if prefix ''state='' field then f\<lparr>fstate := TrimPrefix field ''state=''\<rparr>
      else f)"

definition parse_session :: "string \<Rightarrow> string + Session" where
  "parse_session line =
     (let f = foldl read_field \<lparr>fid = [], flocal = [], fremote = [], fstate = []\<rparr> (Fields line) in
      case (ParseAddr (flocal f), ParseAddr (fremote f), ParseUint32 (fid f)) of
        (Some l, Some r, Some i) \<Rightarrow>
          if fstate f = [] then Inl ''invalid bfdd session status line''
          else (case parse_state (fstate f) of
              None \<Rightarrow> Inl ''invalid BFD session state''
            | Some st \<Rightarrow> Inr \<lparr>ID = i, SLocal = Addr_String l, SRemote = Addr_String r, SState = st\<rparr>)
      | _ \<Rightarrow> Inl ''invalid bfdd session status line'')"

fun parse_sessions :: "string list \<Rightarrow> string + Session list" where
  "parse_sessions [] = Inr []"
| "parse_sessions (line # lines) =
     (let trimmed = TrimSpace line in
      if trimmed = [] \<or> prefix ''Session '' trimmed then parse_sessions lines
      else case parse_session line of
          Inl err \<Rightarrow> Inl err
        | Inr x \<Rightarrow> (case parse_sessions lines of Inl err \<Rightarrow> Inl err | Inr xs \<Rightarrow> Inr (x # xs)))"

definition parse_status :: "string \<Rightarrow> string + Session list" where
  "parse_status output =
     (let lines = split_char (CHR 0x0A) (TrimSpace output); head = lines ! 0 in
      if length lines = 0 \<or> \<not> prefix ''There are '' head \<or> \<not> suffix '' sessions:'' head then Inl ''unexpected bfdd status response''
      else
        let (n, ok) = Atoi_val (TrimSuffix (TrimPrefix head ''There are '') '' sessions:'') in
        if \<not> ok \<or> n < 0 then Inl ''invalid bfdd session count''
        else case parse_sessions (tl lines) of
            Inl err \<Rightarrow> Inl err
          | Inr sessions \<Rightarrow>
              if int (length sessions) \<noteq> n then Inl ''bfdd reported another number of sessions'' else Inr sessions)"

section \<open>Running the control command\<close>

type_synonym 'w command = "'w \<Rightarrow> string list \<Rightarrow> 'w \<times> bool \<times> string option \<times> string"

definition run_rejections :: "string list" where
  "run_rejections = [''Unable to complete '', ''Unknown command '', ''No session '', ''Failed to '', ''Must '']"

definition ControlClient_run :: "'w command \<Rightarrow> string list \<Rightarrow> 'w \<Rightarrow> 'w \<times> (string + string)" where
  "ControlClient_run exec args w =
     (case exec w args of
        (w', timedout, err, output) \<Rightarrow>
          let response = TrimSpace output in
          (w', if timedout then Inl ''bfdd-control timed out''
               else case err of
                   Some e \<Rightarrow> Inl (''bfdd-control failed: '' @ e)
                 | None \<Rightarrow>
                     if list_ex (\<lambda>line. list_ex (\<lambda>p. prefix p line) run_rejections) (split_char (CHR 0x0A) response)
                     then Inl ''bfdd-control rejected'' else Inr response))"

definition ControlClient_Status :: "'w command \<Rightarrow> 'w \<Rightarrow> 'w \<times> (string + Session list)" where
  "ControlClient_Status exec w =
     (case ControlClient_run exec [''status''] w of
        (w', Inl err) \<Rightarrow> (w', Inl err)
      | (w', Inr output) \<Rightarrow> (w', parse_status output))"

definition normalizePair :: "SessionPair \<Rightarrow> string + SessionPair" where
  "normalizePair pair =
     (case ParseAddr (Local pair) of
        None \<Rightarrow> Inl ''invalid local BFD IP''
      | Some l \<Rightarrow>
          (case ParseAddr (Remote pair) of
             None \<Rightarrow> Inl ''invalid remote BFD IP''
           | Some r \<Rightarrow>
               if Is4 l \<noteq> Is4 r then Inl ''BFD address family mismatch''
               else Inr \<lparr>Local = Addr_String l, Remote = Addr_String r\<rparr>))"

definition is_session :: "SessionPair \<Rightarrow> Session \<Rightarrow> bool" where
  "is_session pair x = (SLocal x = Local pair \<and> SRemote x = Remote pair)"

definition ControlClient_Reset :: "'w command \<Rightarrow> SessionPair \<Rightarrow> 'w \<Rightarrow> 'w \<times> string option" where
  "ControlClient_Reset exec pair w =
     (case normalizePair pair of
        Inl err \<Rightarrow> (w, Some err)
      | Inr np \<Rightarrow>
          (case ControlClient_Status exec w of
             (w1, Inl err) \<Rightarrow> (w1, Some err)
           | (w1, Inr before) \<Rightarrow>
               let previousID = (case find (is_session np) before of None \<Rightarrow> 0 | Some x \<Rightarrow> ID x) in
               if previousID = 0 then (w1, Some ''BFD session does not exist'')
               else case ControlClient_run exec [''session'', ''local'', Local np, ''remote'', Remote np, ''reset''] w1 of
                   (w2, Inl err) \<Rightarrow> (w2, Some err)
                 | (w2, Inr response) \<Rightarrow>
                     if \<not> prefix ''Attempting to reset session(s).'' response then (w2, Some ''unexpected bfdd reset response'')
                     else case ControlClient_Status exec w2 of
                         (w3, Inl err) \<Rightarrow> (w3, Some err)
                       | (w3, Inr after) \<Rightarrow>
                           (w3, if list_ex (\<lambda>x. is_session np x \<and> ID x = previousID) after
                                then Some ''BFD session did not reset'' else None)))"

section \<open>Configuring the daemon\<close>

fun allow_commands :: "string list \<Rightarrow> string + (string list \<times> string) list" where
  "allow_commands [] = Inr []"
| "allow_commands (peer # peers) =
     (case ParseAddr peer of
        None \<Rightarrow> Inl ''invalid BFD peer IP''
      | Some a \<Rightarrow>
          (case allow_commands peers of
             Inl err \<Rightarrow> Inl err
           | Inr cs \<Rightarrow> Inr (([''allow'', Addr_String a], ''Allowing connections from '' @ Addr_String a) # cs)))"

definition configure_commands :: "DaemonConfig \<Rightarrow> string + (string list \<times> string) list" where
  "configure_commands cfg =
     (if MinTXMilliseconds cfg \<le> 0 \<or> MinRXMilliseconds cfg \<le> 0 then Inl ''invalid BFD intervals''
      else if Multiplier cfg < 1 \<or> Multiplier cfg > 255 then Inl ''invalid BFD multiplier''
      else case allow_commands (PeerIPs cfg) of
          Inl err \<Rightarrow> Inl err
        | Inr cs \<Rightarrow>
            Inr ([([''session'', ''new'', ''set'', ''mintx'', Itoa (MinTXMilliseconds cfg), ''ms''], ''Attempting to set mintx to ''),
                  ([''session'', ''new'', ''set'', ''minrx'', Itoa (MinRXMilliseconds cfg), ''ms''], ''Attempting to set minrx to ''),
                  ([''session'', ''new'', ''set'', ''multi'', Itoa (Multiplier cfg)], ''Attempting to set multi to '')] @ cs @
                 [([''log'', ''type'', ''command'', ''no''], ''Log type command set to no'')]))"

fun run_commands :: "'w command \<Rightarrow> (string list \<times> string) list \<Rightarrow> 'w \<Rightarrow> 'w \<times> string option" where
  "run_commands exec [] w = (w, None)"
| "run_commands exec ((args, want) # cs) w =
     (case ControlClient_run exec args w of
        (w', Inl err) \<Rightarrow> (w', Some err)
      | (w', Inr response) \<Rightarrow>
          if \<not> prefix want response then (w', Some ''unexpected bfdd-control response'') else run_commands exec cs w')"

definition ControlClient_Configure :: "'w command \<Rightarrow> DaemonConfig \<Rightarrow> 'w \<Rightarrow> 'w \<times> string option" where
  "ControlClient_Configure exec cfg w =
     (case configure_commands cfg of Inl err \<Rightarrow> (w, Some err) | Inr cs \<Rightarrow> run_commands exec cs w)"

section \<open>The managed child\<close>

text \<open>
  The process: starting, restarting and stopping change the world and may fail. \<open>ticks\<close> is the
  number of ticks of the 200 ms ticker that fire before the start timeout ends.
\<close>

record 'w process =
  process_Start :: "'w \<Rightarrow> 'w \<times> string option"
  process_Restart :: "'w \<Rightarrow> 'w \<times> string option"
  process_Stop :: "'w \<Rightarrow> 'w \<times> string option"

fun waitAndConfigure :: "'w command \<Rightarrow> DaemonConfig \<Rightarrow> nat \<Rightarrow> 'w \<Rightarrow> 'w \<times> string option" where
  "waitAndConfigure exec cfg ticks w =
     (case ControlClient_Status exec w of
        (w1, Inr _) \<Rightarrow>
          (case ControlClient_Configure exec cfg w1 of
             (w2, Some err) \<Rightarrow> (w2, Some (''failed to configure OpenBFDD: '' @ err))
           | (w2, None) \<Rightarrow> (w2, None))
      | (w1, Inl err) \<Rightarrow>
          (case ticks of
             0 \<Rightarrow> (w1, Some (''OpenBFDD control did not become ready: '' @ err))
           | Suc k \<Rightarrow> waitAndConfigure exec cfg k w1))"

declare waitAndConfigure.simps [simp del]

definition stopAfterStartFailure :: "'w process \<Rightarrow> string \<Rightarrow> 'w \<Rightarrow> 'w \<times> string list" where
  "stopAfterStartFailure p startErr w =
     (case process_Stop p w of
        (w', Some err) \<Rightarrow> (w', [startErr, ''failed to stop OpenBFDD after start failure: '' @ err])
      | (w', None) \<Rightarrow> (w', [startErr]))"

definition bring_up :: "('w \<Rightarrow> 'w \<times> string option) \<Rightarrow> 'w process \<Rightarrow> 'w command \<Rightarrow> DaemonConfig \<Rightarrow> nat \<Rightarrow> 'w \<Rightarrow> 'w \<times> string list" where
  "bring_up starter p exec cfg ticks w =
     (case starter w of
        (w1, Some err) \<Rightarrow> (w1, [err])
      | (w1, None) \<Rightarrow>
          (case waitAndConfigure exec cfg ticks w1 of
             (w2, Some err) \<Rightarrow> stopAfterStartFailure p err w2
           | (w2, None) \<Rightarrow> (w2, [])))"

definition ManagedChild_Start :: "'w process \<Rightarrow> 'w command \<Rightarrow> DaemonConfig \<Rightarrow> nat \<Rightarrow> 'w \<Rightarrow> 'w \<times> string list" where
  "ManagedChild_Start p = bring_up (process_Start p) p"

definition ManagedChild_Restart :: "'w process \<Rightarrow> 'w command \<Rightarrow> DaemonConfig \<Rightarrow> nat \<Rightarrow> 'w \<Rightarrow> 'w \<times> string list" where
  "ManagedChild_Restart p = bring_up (process_Restart p) p"

definition ManagedChild_Stop :: "'w process \<Rightarrow> 'w \<Rightarrow> 'w \<times> string option" where
  "ManagedChild_Stop p = process_Stop p"

end
