(* ===== verification/BfddControlProps.thy ===== *)
theory BfddControlProps
  imports BfddControl IP
begin

text \<open>
  Properties of the control client and of the managed child: the report of bfdd-control is read
  completely, a successful reset has been verified, and a child is configured or stopped.
\<close>


section \<open>Reading a report\<close>

definition wordy :: "string \<Rightarrow> bool" where
  "wordy w = (w \<noteq> [] \<and> list_all (\<lambda>c. \<not> is_space c) w)"

lemma wordy_append: "wordy a \<Longrightarrow> list_all (\<lambda>c. \<not> is_space c) b \<Longrightarrow> wordy (a @ b)"
  by (simp add: wordy_def)

lemma Fields_space: "is_space c \<Longrightarrow> Fields (c # s) = Fields s"
  by (subst (1 2) Fields.simps) simp

lemma Fields_word:
  assumes "wordy w" "is_space c"
  shows "Fields (w @ c # s) = w # Fields s" "Fields w = [w]"
proof -
  obtain a v where w: "w = a # v" using assms(1) by (cases w) (auto simp: wordy_def)
  have nw: "\<not> is_space a" "\<And>x. x \<in> set v \<Longrightarrow> \<not> is_space x" using assms(1) w by (auto simp: wordy_def list_all_iff)
  have t: "takeWhile (\<lambda>c. \<not> is_space c) (w @ c # s) = w" "dropWhile (\<lambda>c. \<not> is_space c) (w @ c # s) = c # s"
    using nw assms(2) by (auto simp: w takeWhile_append dropWhile_append)
  have d: "dropWhile is_space (w @ c # s) = w @ c # s" "dropWhile is_space w = w" using nw(1) by (simp_all add: w)
  show "Fields (w @ c # s) = w # Fields s"
    by (subst Fields.simps) (use t d Fields_space [OF assms(2), of s] w in \<open>simp add: Let_def\<close>)
  have "takeWhile (\<lambda>c. \<not> is_space c) w = w" "dropWhile (\<lambda>c. \<not> is_space c) w = []" using nw by (auto simp: w)
  moreover have "Fields [] = []" by (subst Fields.simps) simp
  ultimately show "Fields w = [w]" by (subst Fields.simps) (use d w in \<open>simp add: Let_def\<close>)
qed

lemma space_char [simp]: "is_space (CHR '' '')" "is_space (CHR 0x0A)"
  by (simp_all add: is_space_def)

text \<open>An address text that the client prints as it reads it.\<close>

definition addr_text :: "string \<Rightarrow> bool" where
  "addr_text t = (list_all (\<lambda>c. \<not> is_space c) t \<and> (\<exists>a. ParseAddr t = Some a \<and> Addr_String a = t))"

definition state_text :: "SessionState \<Rightarrow> string" where
  "state_text st = (case st of SessionUp \<Rightarrow> ''Up'' | SessionDown \<Rightarrow> ''Down'' | SessionInit \<Rightarrow> ''Init'' | SessionAdminDown \<Rightarrow> ''AdminDown'')"

definition session_line :: "Session \<Rightarrow> string" where
  "session_line x = '' id='' @ dec (unat (ID x)) @ '' local='' @ SLocal x @ '' (p) remote='' @ SRemote x @ '' state='' @ state_text (SState x)"

fun report_lines :: "nat \<Rightarrow> Session list \<Rightarrow> string list" where
  "report_lines n [] = []"
| "report_lines n (x # xs) = (''Session '' @ dec n) # session_line x # report_lines (Suc n) xs"

text \<open>The answer of bfdd-control to \<open>status\<close>.\<close>

definition report :: "Session list \<Rightarrow> string" where
  "report xs = join [CHR 0x0A] ((''There are '' @ dec (length xs) @ '' sessions:'') # report_lines 1 xs)"

lemma digit_not_space: "is_digit c \<Longrightarrow> \<not> is_space c"
  by (auto simp: is_digit_def is_space_def)

lemma dec_no_space: "list_all (\<lambda>c. \<not> is_space c) (dec n)"
  using dec_digits [of n] digit_not_space by (auto simp: list_all_iff)

lemma state_text_ok: "parse_state (state_text st) = Some st" "wordy (state_text st)"
  by (cases st; simp add: parse_state_def state_text_def wordy_def is_space_def)+

lemma ParseUint32_dec: "ParseUint32 (dec (unat (i :: 32 word))) = Some i"
  using unsigned_less [of i, where ?'a = nat] by (simp add: ParseUint32_def dec_digits)

lemma Atoi_dec: "int n < 2 ^ 63 \<Longrightarrow> Atoi_val (dec n) = (int n, True)"
proof -
  assume n: "int n < 2 ^ 63"
  have "is_digit (hd (dec n))" using dec_digits [of n] dec_nonempty [of n] by (cases "dec n") auto
  then have "hd (dec n) \<noteq> CHR ''-''" "hd (dec n) \<noteq> CHR ''+''" by (auto simp: is_digit_def)
  then show ?thesis using n by (simp add: Atoi_val_def dec_digits)
qed

lemma wordy_field: "list_all (\<lambda>c. \<not> is_space c) b \<Longrightarrow> wordy (''id='' @ b)" "list_all (\<lambda>c. \<not> is_space c) b \<Longrightarrow> wordy (''local='' @ b)"
  "list_all (\<lambda>c. \<not> is_space c) b \<Longrightarrow> wordy (''remote='' @ b)" "list_all (\<lambda>c. \<not> is_space c) b \<Longrightarrow> wordy (''state='' @ b)" "wordy ''(p)''"
  by (simp_all add: wordy_def is_space_def)

lemma Fields_line:
  assumes "addr_text (SLocal x)" "addr_text (SRemote x)"
  shows "Fields (session_line x) = [''id='' @ dec (unat (ID x)), ''local='' @ SLocal x, ''(p)'', ''remote='' @ SRemote x, ''state='' @ state_text (SState x)]"
proof -
  have l: "session_line x = CHR '' '' # (''id='' @ dec (unat (ID x))) @ CHR '' '' # (''local='' @ SLocal x) @ CHR '' '' # ''(p)'' @ CHR '' '' #
    (''remote='' @ SRemote x) @ CHR '' '' # (''state='' @ state_text (SState x))" by (simp add: session_line_def)
  have w: "wordy (''id='' @ dec (unat (ID x)))" "wordy (''local='' @ SLocal x)" "wordy (''remote='' @ SRemote x)" "wordy (''state='' @ state_text (SState x))"
    using assms state_text_ok(2) [of "SState x"] by (intro wordy_field; simp add: dec_no_space addr_text_def wordy_def)+
  show ?thesis unfolding l Fields_space [OF space_char(1)] Fields_word(1) [OF w(1) space_char(1)] Fields_word(1) [OF w(2) space_char(1)]
    Fields_word(1) [OF wordy_field(5) space_char(1)] Fields_word(1) [OF w(3) space_char(1)] Fields_word(2) [OF w(4) space_char(1)] ..
qed

lemma parse_session_line:
  assumes "addr_text (SLocal x)" "addr_text (SRemote x)"
  shows "parse_session (session_line x) = Inr x"
proof -
  obtain a b where ab: "ParseAddr (SLocal x) = Some a" "Addr_String a = SLocal x" "ParseAddr (SRemote x) = Some b" "Addr_String b = SRemote x"
    using assms by (auto simp: addr_text_def)
  have "foldl read_field \<lparr>fid = [], flocal = [], fremote = [], fstate = []\<rparr> (Fields (session_line x)) =
    \<lparr>fid = dec (unat (ID x)), flocal = SLocal x, fremote = SRemote x, fstate = state_text (SState x)\<rparr>"
    unfolding Fields_line [OF assms] by (simp add: read_field_def TrimPrefix_def)
  then show ?thesis using ab ParseUint32_dec [of "ID x"] state_text_ok [of "SState x"]
    by (cases x) (simp add: parse_session_def Let_def wordy_def)
qed


lemma TrimSpace_id: "s \<noteq> [] \<Longrightarrow> \<not> is_space (hd s) \<Longrightarrow> \<not> is_space (last s) \<Longrightarrow> TrimSpace s = s"
proof -
  assume s: "s \<noteq> []" "\<not> is_space (hd s)" "\<not> is_space (last s)"
  have "dropWhile is_space s = s" using s(1,2) by (cases s) simp_all
  moreover have "dropWhile is_space (rev s) = rev s" using s(1,3) by (cases s rule: rev_cases) simp_all
  ultimately show ?thesis by (simp add: TrimSpace_def)
qed

lemma TrimSpace_line:
  assumes "addr_text (SLocal x)" "addr_text (SRemote x)"
  shows "TrimSpace (session_line x) \<noteq> [] \<and> \<not> prefix ''Session '' (TrimSpace (session_line x))"
proof -
  define r where "r = ''d='' @ dec (unat (ID x)) @ '' local='' @ SLocal x @ '' (p) remote='' @ SRemote x @ '' state='' @ state_text (SState x)"
  have "\<not> is_space (last (state_text (SState x)))" "state_text (SState x) \<noteq> []" using state_text_ok(2) [of "SState x"] by (auto simp: wordy_def list_all_iff)
  then have last: "\<not> is_space (last (CHR ''i'' # r))" by (simp add: r_def)
  have line: "session_line x = CHR '' '' # CHR ''i'' # r" by (simp add: session_line_def r_def)
  have "TrimSpace (session_line x) = TrimSpace (CHR ''i'' # r)" unfolding line TrimSpace_def by simp
  also have "\<dots> = CHR ''i'' # r" using last by (intro TrimSpace_id) (simp_all add: is_space_def)
  finally show ?thesis by simp
qed

lemma TrimSpace_header: "prefix ''Session '' (TrimSpace (''Session '' @ dec n))"
proof -
  have "\<not> is_space (last (dec n))" using dec_no_space [of n] dec_nonempty [of n] by (metis last_in_set list_all_iff)
  then have "TrimSpace (''Session '' @ dec n) = ''Session '' @ dec n" by (intro TrimSpace_id) (simp_all add: is_space_def)
  then show ?thesis by simp
qed

definition readable :: "Session \<Rightarrow> bool" where
  "readable x = (addr_text (SLocal x) \<and> addr_text (SRemote x))"

lemma parse_report_lines: "\<forall>x\<in>set xs. readable x \<Longrightarrow> parse_sessions (report_lines n xs) = Inr xs"
  by (induction n xs rule: report_lines.induct)
    (simp_all add: TrimSpace_header [simplified] TrimSpace_line parse_session_line readable_def Let_def)

lemma report_lines_newline: "\<forall>x\<in>set xs. readable x \<Longrightarrow> l \<in> set (report_lines n xs) \<Longrightarrow> CHR 0x0A \<notin> set l"
proof (induction n xs rule: report_lines.induct)
  case (2 n x xs)
  have d: "CHR 0x0A \<notin> set (dec k)" for k using dec_no_space [of k] by (auto simp: list_all_iff is_space_def)
  have "CHR 0x0A \<notin> set (SLocal x)" "CHR 0x0A \<notin> set (SRemote x)" "CHR 0x0A \<notin> set (state_text (SState x))"
    using 2(2) state_text_ok(2) [of "SState x"] space_char(2) by (auto simp: readable_def addr_text_def wordy_def list_all_iff)
  then have "CHR 0x0A \<notin> set (session_line x)" "CHR 0x0A \<notin> set (''Session '' @ dec n)" using d by (simp_all add: session_line_def)
  then show ?case using 2 by auto
qed simp

lemma last_report: "\<forall>x\<in>set xs. readable x \<Longrightarrow> xs \<noteq> [] \<Longrightarrow> \<not> is_space (last (join [CHR 0x0A] (report_lines n xs)))"
proof (induction n xs rule: report_lines.induct)
  case (2 n x xs)
  have w: "\<not> is_space (last (state_text (SState x)))" "state_text (SState x) \<noteq> []" using state_text_ok(2) [of "SState x"] by (auto simp: wordy_def list_all_iff)
  have l: "session_line x \<noteq> []" "last (session_line x) = last (state_text (SState x))" using w(2) by (simp_all add: session_line_def)
  show ?case
  proof (cases xs)
    case Nil
    then show ?thesis using w l by simp
  next
    case (Cons y ys)
    then have ne: "report_lines (Suc n) xs \<noteq> []" by simp
    have "\<not> is_space (last (join [CHR 0x0A] (report_lines (Suc n) xs)))" using 2 Cons by simp
    moreover have "join [CHR 0x0A] (report_lines (Suc n) xs) \<noteq> []" using Cons by (cases ys) (simp_all add: join_Cons)
    ultimately show ?thesis using ne by (simp add: join_Cons)
  qed
qed simp

text \<open>Addresses of both families are written in this way.\<close>

lemma cut_percent: "CHR ''%'' \<notin> set s \<Longrightarrow> cut ''%'' s = None"
  by (simp add: cut_char_None)

lemma ParseAddr_parse_addr:
  assumes "CHR ''%'' \<notin> set s"
  shows "ParseAddr s = map_option (\<lambda>(b, n). \<lparr>abytes = b, abits = n, azone = []\<rparr>) (parse_addr s)"
proof -
  have "find (\<lambda>c. c \<in> {CHR ''.'', CHR '':'', CHR ''%''}) s = find (\<lambda>c. c = CHR ''.'' \<or> c = CHR '':'') s"
    using assms by (intro find_cong) auto
  moreover have "c = CHR ''.'' \<or> c = CHR '':''" if "find (\<lambda>c. c = CHR ''.'' \<or> c = CHR '':'') s = Some c" for c
    using that by (auto simp: find_Some_iff)
  ultimately show ?thesis unfolding ParseAddr_def parse_addr_def cut_percent [OF assms] using assms
    by (cases "find (\<lambda>c. c = CHR ''.'' \<or> c = CHR '':'') s") (auto simp: option.map_comp comp_def)
qed

lemma addr_text_ip:
  assumes "ipok F a"
  shows "addr_text (ip_string a)"
proof -
  have v: "ip_valid a" by (rule ipok_valid [OF assms])
  have c: "\<not> is_space c \<and> c \<noteq> CHR ''%''" if "c \<in> set (ip_string a)" for c
    using ip_string_chars [OF v that] by (auto simp: is_hex_def is_digit_def is_space_def)
  have p: "ParseAddr (ip_string a) = Some \<lparr>abytes = ip_to16 a, abits = (if ip_to4 a \<noteq> [] then 32 else 128), azone = []\<rparr>"
  proof -
    have "CHR ''%'' \<notin> set (ip_string a)" using c by blast
    then show ?thesis using ParseAddr_parse_addr [of "ip_string a"] parse_addr_ip_string [OF v] by simp
  qed
  have "Addr_String \<lparr>abytes = ip_to16 a, abits = (if ip_to4 a \<noteq> [] then 32 else 128), azone = []\<rparr> = ip_string a"
  proof (cases F)
    case F4
    then have "length a = 4" "ip_to4 a = a" "ip_to16 a = v4InV6Prefix @ a" using assms by (auto simp: ip_to4_def ip_to16_def)
    moreover have "length v4InV6Prefix = 12" by (simp add: v4InV6Prefix_def)
    ultimately show ?thesis by (auto simp: Addr_String_def Is4_def ip_string_def)
  next
    case F6
    then have a: "length a = 16" "ip_to4 a = []" "ip_to16 a = a" using assms ipok_F6_to4 [of a] by (auto simp: ip_to16_def)
    then have "take 12 a \<noteq> v4InV6Prefix" by (auto simp: ip_to4_def split: if_splits)
    then show ?thesis using a by (auto simp: Addr_String_def Is4_def ip_string_def Let_def)
  qed
  then show ?thesis using p c by (auto simp: addr_text_def list_all_iff)
qed

text \<open>C36.
  The client reads the report of the daemon: for any sessions whose addresses are written in the
  canonical way, the text bfdd-control prints for them is parsed into exactly these sessions, in
  their order.\<close>

theorem status_reads_report:
  assumes xs: "\<forall>x\<in>set xs. readable x" and n: "int (length xs) < 2 ^ 63"
  shows "parse_status (report xs) = Inr xs"
proof -
  define head where "head = ''There are '' @ dec (length xs) @ '' sessions:''"
  have head: "prefix ''There are '' head" "suffix '' sessions:'' head" "CHR 0x0A \<notin> set head"
    "TrimSuffix (TrimPrefix head ''There are '') '' sessions:'' = dec (length xs)"
    using dec_no_space [of "length xs"] space_char(2) by (auto simp: head_def TrimPrefix_def TrimSuffix_def suffix_def list_all_iff)
  have r: "report xs = join [CHR 0x0A] (head # report_lines 1 xs)" by (simp add: report_def head_def)
  have sp: "split_char (CHR 0x0A) (report xs) = head # report_lines 1 xs"
    unfolding r by (rule split_char_join) (use head(3) report_lines_newline [OF xs] in auto)
  have "TrimSpace (report xs) = report xs"
  proof (rule TrimSpace_id)
    obtain t where "report xs = head @ t" unfolding r by (cases "report_lines 1 xs") auto
    moreover obtain u where "head = CHR ''T'' # u" by (simp add: head_def)
    ultimately show "report xs \<noteq> []" "\<not> is_space (hd (report xs))" by (simp_all add: is_space_def)
    show "\<not> is_space (last (report xs))"
    proof (cases xs)
      case Nil
      then have "report xs = head" unfolding r by simp
      then show ?thesis by (simp add: is_space_def head_def)
    next
      case (Cons y ys)
      then have "join [CHR 0x0A] (report_lines 1 xs) \<noteq> []" "report_lines 1 xs \<noteq> []" by (cases ys; simp add: join_Cons)+
      then show ?thesis using last_report [OF xs, of 1] Cons unfolding r by (simp add: join_Cons)
    qed
  qed
  then show ?thesis using sp head Atoi_dec [OF n] parse_report_lines [OF xs, of 1] by (simp add: parse_status_def Let_def)
qed

theorem status_reads_report_witness:
  "\<exists>xs. length xs = 2 \<and> parse_status (report xs) = Inr xs \<and> SState (xs ! 1) = SessionDown"
proof -
  let ?a = "\<lparr>ID = 1, SLocal = ip_string [10,16,0,2], SRemote = ip_string [10,255,255,255], SState = SessionUp\<rparr>"
  let ?b = "\<lparr>ID = 2, SLocal = ip_string [253,0,0,0,0,0,0,0,0,0,0,0,0,0,0,2], SRemote = ip_string [253,0,0,0,0,0,0,0,0,0,0,0,0,0,0,1], SState = SessionDown\<rparr>"
  have i: "ipok F4 [10,16,0,2]" "ipok F4 [10,255,255,255]" "ipok F6 [253,0,0,0,0,0,0,0,0,0,0,0,0,0,0,2]" "ipok F6 [253,0,0,0,0,0,0,0,0,0,0,0,0,0,0,1]"
    by code_simp+
  have "readable ?a" "readable ?b" using i [THEN addr_text_ip] by (simp_all add: readable_def)
  then have r: "\<forall>x\<in>set [?a, ?b]. readable x" by simp
  have "int (length [?a, ?b]) < 2 ^ 63" by simp
  from status_reads_report [OF r this] show ?thesis by (intro exI [of _ "[?a, ?b]"]) simp
qed

section \<open>Resetting a session\<close>

text \<open>
  A reset that reports success was one: the session existed with an identifier before, the daemon
  accepted the command, and afterwards no session of the pair has that identifier.
\<close>

theorem reset_verified:
  assumes "ControlClient_Reset exec pair w = (w', None)"
  shows "\<exists>np w1 earlier x w2 response later. normalizePair pair = Inr np \<and> ControlClient_Status exec w = (w1, Inr earlier) \<and>
    find (is_session np) earlier = Some x \<and> ID x \<noteq> 0 \<and>
    ControlClient_run exec [''session'', ''local'', Local np, ''remote'', Remote np, ''reset''] w1 = (w2, Inr response) \<and>
    ControlClient_Status exec w2 = (w', Inr later) \<and> (\<forall>y\<in>set later. is_session np y \<longrightarrow> ID y \<noteq> ID x)"
  using assms
  by (auto simp: ControlClient_Reset_def Let_def list_ex_iff split: sum.splits prod.splits option.splits if_splits)

section \<open>Bringing up the child\<close>

lemma waitAndConfigure_None:
  "waitAndConfigure exec cfg ticks w = (w', None) \<Longrightarrow>
     \<exists>w1 w2 sessions. ControlClient_Status exec w1 = (w2, Inr sessions) \<and> ControlClient_Configure exec cfg w2 = (w', None)"
proof (induction ticks arbitrary: w)
  case 0
  then show ?case by (subst (asm) waitAndConfigure.simps) (auto split: prod.splits sum.splits option.splits)
next
  case (Suc k)
  from Suc.prems show ?case using Suc.IH
    by (subst (asm) waitAndConfigure.simps) (auto split: prod.splits sum.splits option.splits)
qed

text \<open>C37.
  A child that was started is configured or stopped: bringing it up reports success only after the
  daemon has answered a status request and accepted every command of the configuration, and an
  error after the process has begun to run means that the process was told to stop.\<close>

theorem child_up_or_stopped:
  "case bring_up starter p exec cfg ticks w of
     (w', []) \<Rightarrow> (\<exists>w1 w2 w3 sessions. starter w = (w1, None) \<and> ControlClient_Status exec w2 = (w3, Inr sessions) \<and>
                    ControlClient_Configure exec cfg w3 = (w', None))
   | (w', e # es) \<Rightarrow> starter w = (w', Some e) \<or>
        (\<exists>w1 w2 r. starter w = (w1, None) \<and> waitAndConfigure exec cfg ticks w1 = (w2, Some e) \<and> process_Stop p w2 = (w', r))"
proof -
  obtain w1 r where s: "starter w = (w1, r)" by fastforce
  obtain w2 q where c: "waitAndConfigure exec cfg ticks w1 = (w2, q)" by fastforce
  obtain w3 t where st: "process_Stop p w2 = (w3, t)" by fastforce
  show ?thesis
    using s c st waitAndConfigure_None [of exec cfg ticks w1 w2]
    by (cases r; cases q; cases t) (auto simp: bring_up_def stopAfterStartFailure_def)
qed

end
