(* ===== verification/Validate.thy ===== *)
theory Validate
  imports UtilNet
begin

text \<open>
  The checks of subnets, pods and VPCs before the controller accepts them, pkg/util/validator.go.
  A check returns the first error, the check of a pod all of them. The texts of the errors name
  the check and leave the quoted values out. \<open>ContainsUppercase\<close> is that of ASCII texts, and the
  environment variable with the address of the API server is an argument.
\<close>

section \<open>Data\<close>

text \<open>The fields of a subnet that the checks read.\<close>

record NatOutgoingPolicyRule =
  SrcIPs :: string
  DstIPs :: string

record SubnetSpec =
  spName :: string
  spVpc :: string
  spProtocol :: string
  spCIDRBlock :: string
  spGateway :: string
  spExcludeIps :: "string list"
  spGatewayType :: string
  spNatOutgoing :: bool
  spExternalEgressGateway :: string
  spPolicyRoutingTableID :: "32 word"
  spMtu :: "32 word"
  spAllowSubnets :: "string list"
  spVlan :: string
  spVips :: "string list"
  spLogicalGateway :: bool
  spNatOutgoingPolicyRules :: "NatOutgoingPolicyRule list"
  spU2OInterconnectionIP :: string
  spU2OInterconnection :: bool
  spOverlayOnlyRouting :: bool

definition GWDistributedType :: string where "GWDistributedType = ''distributed''"
definition GWCentralizedType :: string where "GWCentralizedType = ''centralized''"
definition DefaultVpc :: string where "DefaultVpc = ''ovn-cluster''"
definition IPv6MinMTU :: "32 word" where "IPv6MinMTU = 1280"

definition ContainsUppercase :: "string \<Rightarrow> bool" where
  "ContainsUppercase s = list_ex (\<lambda>c. 65 \<le> (of_char c :: nat) \<and> of_char c \<le> (90 :: nat)) s"

text \<open>Checks in a row, and a check of every element: the first error counts.\<close>

fun first_error :: "error option list \<Rightarrow> error option" where
  "first_error [] = None"
| "first_error (Some e # es) = Some e"
| "first_error (None # es) = first_error es"

lemma first_error_None [simp]: "first_error es = None \<longleftrightarrow> (\<forall>e\<in>set es. e = None)"
  by (induction es rule: first_error.induct) auto

definition check :: "bool \<Rightarrow> string \<Rightarrow> error option" where
  "check bad msg = (if bad then Some (ErrFmt msg) else None)"

definition upper :: "string \<Rightarrow> error option" where
  "upper s = check (ContainsUppercase s) ''can not contain upper case''"

section \<open>Networks and gateways\<close>

definition broadcast_pair :: "string \<Rightarrow> string \<Rightarrow> error option" where
  "broadcast_pair cidrBlock ipAddr =
     (if CheckProtocol cidrBlock \<noteq> CheckProtocol ipAddr then None
      else case ParseCIDR cidrBlock of
          None \<Rightarrow> None
        | Some (_, network) \<Rightarrow>
            if AddressCountBigInt network = 1 then Some (ErrFmt ''subnet is configured with /32 or /128 netmask'')
            else
              let ipStr = IPToString ipAddr in
              if CheckProtocol cidrBlock = ProtocolIPv4 \<and> SubnetBroadcast cidrBlock = Inr ipStr then Some (ErrFmt ''is the broadcast ip in cidr'')
              else if SubnetNumber cidrBlock = ipStr then Some (ErrFmt ''is the network number ip in cidr'')
              else None)"

definition ValidateNetworkBroadcast :: "string \<Rightarrow> string \<Rightarrow> error option" where
  "ValidateNetworkBroadcast cidr ip =
     (if cidr = [] \<or> ip = [] then None
      else first_error (concat (map (\<lambda>cidrBlock. map (broadcast_pair cidrBlock) (split_char CHR '','' ip)) (split_char CHR '','' cidr))))"

definition validateMacOnlySubnet :: "SubnetSpec \<Rightarrow> error option" where
  "validateMacOnlySubnet s =
     first_error [check (spGateway s \<noteq> []) ''gateway must be empty for underlay subnet'',
                  check (spExcludeIps s \<noteq> []) ''excludeIps must be empty for underlay subnet'']"

definition validateSubnetCIDR :: "SubnetSpec \<Rightarrow> error option" where
  "validateSubnetCIDR s =
     first_error
       [if spGateway s \<noteq> [] then
          first_error [upper (spGateway s),
                       check (\<not> CIDRContainIP (spCIDRBlock s) (spGateway s)) ''gateway is not in cidr'',
                       ValidateNetworkBroadcast (spCIDRBlock s) (spGateway s)]
        else None,
        CIDRGlobalUnicast (spCIDRBlock s),
        check (CheckProtocol (spCIDRBlock s) = []) ''CIDRBlock format error'']"

definition validate_block :: "string \<Rightarrow> error option" where
  "validate_block cidr =
     (case InvalidSpecialCIDR cidr of
        Some e \<Rightarrow> Some e
      | None \<Rightarrow> (case ParseCIDR cidr of None \<Rightarrow> Some (ErrFmt ''subnet cidr is invalid'') | Some (_, network) \<Rightarrow> InvalidNetworkMask network))"

definition validateSubnetCIDRBlocks :: "SubnetSpec \<Rightarrow> error option" where
  "validateSubnetCIDRBlocks s =
     first_error (map (\<lambda>cidr. first_error [upper (spCIDRBlock s), validate_block cidr]) (split_char CHR '','' (spCIDRBlock s)))"

section \<open>The rules of NAT\<close>

text \<open>The loop over the items with the last protocol seen.\<close>

fun nat_items :: "string \<Rightarrow> string list \<Rightarrow> error + string" where
  "nat_items lastProtocol [] = Inr lastProtocol"
| "nat_items lastProtocol (item # items) =
     (let consistent = (\<lambda>t. lastProtocol = [] \<or> lastProtocol = CheckProtocol t) in
      case ParseCIDR item of
        Some (_, ipCidr) \<Rightarrow>
          if \<not> consistent (net_string ipCidr) then Inl (ErrFmt ''match ips protocol is not consistent'')
          else nat_items (CheckProtocol (net_string ipCidr)) items
      | None \<Rightarrow>
          if IsValidIP item then
            (if \<not> consistent item then Inl (ErrFmt ''match ips protocol is not consistent'') else nat_items (CheckProtocol item) items)
          else Inl (ErrFmt ''match ips is not ip or ipcidr''))"

definition validateNatOutgoingPolicyRuleIPs :: "string \<Rightarrow> error + string" where
  "validateNatOutgoingPolicyRuleIPs matchIPStr =
     (let t = TrimSpace matchIPStr in
      if t = [] then Inl (ErrFmt ''IPStr should not be empty'') else nat_items [] (split_char CHR '','' t))"

definition nat_side :: "string \<Rightarrow> error + string" where
  "nat_side ips = (if ips \<noteq> [] then validateNatOutgoingPolicyRuleIPs ips else Inr [])"

definition validate_rule :: "NatOutgoingPolicyRule \<Rightarrow> error option" where
  "validate_rule rule =
     (case nat_side (SrcIPs rule) of
        Inl e \<Rightarrow> Some e
      | Inr srcProtocol \<Rightarrow>
          (case nat_side (DstIPs rule) of
             Inl e \<Rightarrow> Some e
           | Inr dstProtocol \<Rightarrow>
               check (srcProtocol \<noteq> [] \<and> dstProtocol \<noteq> [] \<and> srcProtocol \<noteq> dstProtocol) ''Match.SrcIPS protocol not equal to Match.DstIPs protocol''))"

definition validateNatOutgoingPolicyRules :: "SubnetSpec \<Rightarrow> error option" where
  "validateNatOutgoingPolicyRules s = first_error (map validate_rule (spNatOutgoingPolicyRules s))"

section \<open>A subnet\<close>

definition validate_exclude :: "string \<Rightarrow> error option" where
  "validate_exclude ipr =
     (case upper ipr of
        Some e \<Rightarrow> Some e
      | None \<Rightarrow>
          let ips = split ''..'' ipr in
          if length ips > 2 then Some (ErrFmt ''in excludeIps is not a valid ip range'')
          else if length ips = 1 then check (ParseIP (ips ! 0) = []) ''in excludeIps is not a valid address''
          else if length ips = 2 then
            first_error (map (\<lambda>ip. check (ParseIP ip = []) ''in excludeIps is not a valid address'') ips @
                         [check (IP2BigInt (ips ! 0) > IP2BigInt (ips ! 1)) ''in excludeIps is not a valid ip range''])
          else None)"

definition validate_egress :: "bool \<Rightarrow> SubnetSpec \<Rightarrow> error option" where
  "validate_egress macOnly s =
     (let egw = spExternalEgressGateway s; ips = split_char CHR '','' egw in
      if egw = [] then None
      else first_error
        ([check (spNatOutgoing s) ''conflict configuration: natOutgoing and externalEgressGateway'', upper egw,
          check (length ips > 2) ''invalid external egress gateway configuration''] @
         map (\<lambda>ip. check (ParseIP ip = []) ''in externalEgressGateway is not a valid address'') ips @
         [check (\<not> macOnly \<and> CheckProtocol egw \<noteq> CheckProtocol (spCIDRBlock s) \<and> CheckProtocol (spCIDRBlock s) \<noteq> ProtocolDual)
            ''invalid external egress gateway configuration: address family is conflict with CIDR'']))"

definition validate_vips :: "bool \<Rightarrow> SubnetSpec \<Rightarrow> error option" where
  "validate_vips macOnly s =
     (if spVips s = [] then None
      else if macOnly then Some (ErrFmt ''vips are not supported for underlay subnet without cidrBlock'')
      else first_error (map (\<lambda>vip. first_error [upper vip,
             check (\<not> CIDRContainIP (spCIDRBlock s) vip) ''vip conflicts with subnet cidr'']) (spVips s)))"

definition same_address :: "string \<Rightarrow> string \<Rightarrow> bool" where
  "same_address a b = (ParseIP a \<noteq> [] \<and> ParseIP b \<noteq> [] \<and> ip_equal (ParseIP a) (ParseIP b))"

definition validate_u2o :: "bool \<Rightarrow> SubnetSpec \<Rightarrow> error option" where
  "validate_u2o macOnly s =
     (let u2o = spU2OInterconnectionIP s in
      if u2o = [] then None
      else if macOnly then Some (ErrFmt ''u2oInterconnectionIP is not supported for underlay subnet without cidrBlock'')
      else first_error
        [upper u2o, check (\<not> CIDRContainIP (spCIDRBlock s) u2o) ''u2oInterconnectionIP is not in subnet cidr'',
         let (gatewayV4, gatewayV6) = SplitStringIP (spGateway s); (u2oV4, u2oV6) = SplitStringIP u2o in
         check (same_address u2oV4 gatewayV4 \<or> same_address u2oV6 gatewayV6) ''u2oInterconnectionIP conflicts with subnet gateway''])"

definition ValidateSubnet :: "string \<Rightarrow> SubnetSpec \<Rightarrow> error option" where
  "ValidateSubnet k8sAPIServer s =
     (let macOnly = (spVlan s \<noteq> [] \<and> spCIDRBlock s = []) in
      first_error
        ([if macOnly then validateMacOnlySubnet s else validateSubnetCIDR s] @
         map validate_exclude (spExcludeIps s) @
         [if macOnly then None else validateSubnetCIDRBlocks s] @
         map (\<lambda>cidr. first_error [upper cidr, check (ParseCIDR cidr = None) ''in allowSubnets is not a valid address'']) (spAllowSubnets s) @
         [check (spGatewayType s \<noteq> [] \<and> spGatewayType s \<noteq> GWDistributedType \<and> spGatewayType s \<noteq> GWCentralizedType) ''is not a valid gateway type'',
          check (spProtocol s \<noteq> [] \<and> spProtocol s \<noteq> ProtocolIPv4 \<and> spProtocol s \<noteq> ProtocolIPv6 \<and> spProtocol s \<noteq> ProtocolDual \<and>
                 spProtocol s \<noteq> ProtocolMac) ''is not a valid protocol type'',
          check (0 < spMtu s \<and> spMtu s < IPv6MinMTU \<and>
                 (CheckProtocol (spCIDRBlock s) = ProtocolIPv6 \<or> CheckProtocol (spCIDRBlock s) = ProtocolDual)) ''mtu is below the IPv6 minimum'',
          check (spVpc s = spName s) ''subnet and vpc cannot have the same name'',
          check (\<not> macOnly \<and> spVpc s = DefaultVpc \<and> k8sAPIServer \<noteq> [] \<and> CIDRContainIP (spCIDRBlock s) k8sAPIServer)
            ''subnet cidr conflicts with k8s apiserver svc ip'',
          validate_egress macOnly s, validate_vips macOnly s,
          check (spLogicalGateway s \<and> spU2OInterconnection s) ''logicalGateway and u2oInterconnection can't be opened at the same time'',
          check (spOverlayOnlyRouting s \<and> \<not> spU2OInterconnection s) ''u2oFeatures.overlayOnlyRouting can only be enabled when u2OInterconnection is true'',
          check (spOverlayOnlyRouting s \<and> spVlan s = []) ''u2oFeatures.overlayOnlyRouting can only be enabled on underlay subnets'',
          validateNatOutgoingPolicyRules s,
          validate_u2o macOnly s]))"

definition conflict_with :: "SubnetSpec \<Rightarrow> SubnetSpec \<Rightarrow> error option" where
  "conflict_with subnet sub =
     (if spVpc sub \<noteq> spVpc subnet \<or> spVlan sub \<noteq> spVlan subnet \<or> spName sub = spName subnet then None
      else first_error
        [check (spCIDRBlock subnet \<noteq> [] \<and> spCIDRBlock sub \<noteq> [] \<and> CIDROverlap (spCIDRBlock sub) (spCIDRBlock subnet)) ''subnet cidr is conflict with subnet'',
         check (spExternalEgressGateway subnet \<noteq> [] \<and> spExternalEgressGateway sub \<noteq> [] \<and>
                spPolicyRoutingTableID subnet = spPolicyRoutingTableID sub) ''subnet policy routing table ID is conflict with subnet''])"

definition ValidateCidrConflict :: "SubnetSpec \<Rightarrow> SubnetSpec list \<Rightarrow> error option" where
  "ValidateCidrConflict subnet subnetList = first_error (map (conflict_with subnet) subnetList)"

section \<open>A VPC\<close>

datatype RoutePolicy = PolicyUnset | PolicySrc | PolicyDst | PolicyOther string

datatype PolicyRouteAction = PolicyRouteActionAllow | PolicyRouteActionDrop | PolicyRouteActionReroute | PolicyRouteActionOther string

record StaticRoute =
  rtPolicy :: RoutePolicy
  rtCIDR :: string
  rtNextHopIP :: string

record PolicyRoute =
  prAction :: PolicyRouteAction
  prNextHopIP :: string

record VpcSpec =
  vpStaticRoutes :: "StaticRoute list"
  vpPolicyRoutes :: "PolicyRoute list"
  vpPeeringLocalConnectIPs :: "string list"

definition validate_route :: "StaticRoute \<Rightarrow> error option" where
  "validate_route item =
     first_error
       [check (case rtPolicy item of PolicyOther _ \<Rightarrow> True | _ \<Rightarrow> False) ''unknown policy type'',
        if str_contains (rtCIDR item) ''/'' then check (ParseCIDR (rtCIDR item) = None) ''invalid cidr''
        else check (ParseIP (rtCIDR item) = []) ''invalid IP'',
        check (ParseIP (rtNextHopIP item) = []) ''invalid next hop IP'']"

definition validate_policy :: "PolicyRoute \<Rightarrow> error option" where
  "validate_policy item =
     (case prAction item of
        PolicyRouteActionOther _ \<Rightarrow> Some (ErrFmt ''unknown policy action'')
      | PolicyRouteActionReroute \<Rightarrow>
          first_error (map (\<lambda>ip. check (ParseIP ip = []) ''invalid next hop ips'') (split_char CHR '','' (prNextHopIP item)))
      | _ \<Rightarrow> None)"

definition ValidateVpc :: "VpcSpec \<Rightarrow> error option" where
  "ValidateVpc vpc =
     first_error (map validate_route (vpStaticRoutes vpc) @ map validate_policy (vpPolicyRoutes vpc) @
       map (\<lambda>c. check (CheckCidrs c \<noteq> None) ''invalid cidr'') (vpPeeringLocalConnectIPs vpc))"

section \<open>A pod\<close>

definition IPAddressAnnotation :: string where "IPAddressAnnotation = ''ovn.kubernetes.io/ip_address''"
definition IPFamilyAnnotation :: string where "IPFamilyAnnotation = ''ovn.kubernetes.io/ip_family''"
definition MacAddressAnnotation :: string where "MacAddressAnnotation = ''ovn.kubernetes.io/mac_address''"
definition CidrAnnotation :: string where "CidrAnnotation = ''ovn.kubernetes.io/cidr''"
definition IPPoolAnnotation :: string where "IPPoolAnnotation = ''ovn.kubernetes.io/ip_pool''"

text \<open>\<open>net.ParseMAC\<close> accepts: 6, 8 or 20 bytes as pairs of digits after colons or hyphens, or as fours after dots.\<close>

definition mac_groups :: "char \<Rightarrow> nat \<Rightarrow> string \<Rightarrow> bool" where
  "mac_groups sep k s = list_all (\<lambda>g. length g = k \<and> list_all is_hex g) (split_char sep s)"

definition ParseMAC_ok :: "string \<Rightarrow> bool" where
  "ParseMAC_ok s =
     (length s \<ge> 14 \<and>
      (if s ! 2 = CHR '':'' \<or> s ! 2 = CHR ''-'' then
         mac_groups (s ! 2) 2 s \<and> length (split_char (s ! 2) s) \<in> {6, 8, 20}
       else s ! 4 = CHR ''.'' \<and> mac_groups (CHR ''.'') 4 s \<and> length (split_char (CHR ''.'') s) \<in> {3, 4, 10}))"

definition isIPFamilyAnnotationKey :: "string \<Rightarrow> bool" where
  "isIPFamilyAnnotationKey key = (key = IPFamilyAnnotation \<or> suffix ''.kubernetes.io/ip_family'' key)"

definition ipAddressAnnotationKeyForIPFamily :: "string \<Rightarrow> string" where
  "ipAddressAnnotationKeyForIPFamily key =
     (if key = IPFamilyAnnotation then IPAddressAnnotation else TrimSuffix key ''/ip_family'' @ ''/ip_address'')"

definition ipAddressAnnotationKeysForIPFamily :: "string \<Rightarrow> string list" where
  "ipAddressAnnotationKeysForIPFamily key =
     (let keys = [ipAddressAnnotationKeyForIPFamily key] in
      if \<not> suffix ''.kubernetes.io/ip_family'' key then keys
      else
        let parts = split_char CHR ''.'' (TrimSuffix key ''.kubernetes.io/ip_family'') in
        if length parts > 3 \<and> parts ! 2 = OvnProvider
        then keys @ [parts ! 0 @ ''.'' @ parts ! 1 @ ''.kubernetes.io/ip_address.'' @ last parts]
        else keys)"

definition ipAddressAnnotationsForIPFamily :: "(string, string) gomap \<Rightarrow> string \<Rightarrow> string list" where
  "ipAddressAnnotationsForIPFamily annotations key =
     (let ks = ipAddressAnnotationKeysForIPFamily key in
      map snd (filter (\<lambda>(k, v). v \<noteq> [] \<and> list_ex (\<lambda>ipKey. k = ipKey \<or> prefix (ipKey @ ''.'') k) ks) annotations))"

definition family_errors :: "(string, string) gomap \<Rightarrow> string \<times> string \<Rightarrow> error list" where
  "family_errors annotations kv =
     (case kv of (key, family) \<Rightarrow>
        if \<not> isIPFamilyAnnotationKey key \<or> family = [] then []
        else if family \<noteq> ToLower ProtocolIPv4 \<and> family \<noteq> ToLower ProtocolIPv6 then [ErrFmt ''is not a valid ip_family'']
        else concat (map (\<lambda>ipAddress.
               concat (map (\<lambda>ip. if CheckProtocol ip \<noteq> NormalizeIPFamily family then [ErrFmt ''does not match ip_family''] else [])
                 (split_char CHR '','' ipAddress)))
             (ipAddressAnnotationsForIPFamily annotations key)))"

definition address_errors :: "string \<Rightarrow> string \<Rightarrow> error list" where
  "address_errors cidrStr ip =
     (if (if str_contains ip ''/'' then ParseCIDR ip = None else ParseIP ip = []) then [ErrFmt ''is not a valid ip_address'']
      else if cidrStr = [] then []
      else if CheckCidrs cidrStr \<noteq> None then [ErrFmt ''invalid cidr'']
      else if \<not> CIDRContainIP cidrStr ip then [ErrFmt ''not in cidr'']
      else [])"

text \<open>The loop over the addresses of one item of the pool: the errors, and whether the item was found.\<close>

fun pool_item :: "string \<Rightarrow> string list \<Rightarrow> error list \<times> bool" where
  "pool_item cidrStr [] = ([], False)"
| "pool_item cidrStr (ip # ips) =
     (let e = (if ParseIP (TrimSpace ip) = [] then [ErrFmt ''in ip_pool is not a valid address''] else []) in
      if cidrStr = [] \<or> CIDRContainIP cidrStr ip then (e, True)
      else let (es, found) = pool_item cidrStr ips in (e @ es, found))"

definition pool_errors :: "string \<Rightarrow> string \<Rightarrow> error list" where
  "pool_errors cidrStr ipPool =
     (if ipPool \<noteq> [] \<and> (CHR '';'' \<in> set ipPool \<or> CHR '','' \<in> set ipPool \<or> ParseIP ipPool \<noteq> []) then
        concat (map (\<lambda>ips. let (es, found) = pool_item cidrStr (split_char CHR '','' ips) in
                        es @ (if \<not> found then [ErrFmt ''not in cidr''] else [])) (split_char CHR '';'' ipPool))
      else [])"

definition bandwidthSuffixes :: "string list" where
  "bandwidthSuffixes = [''.kubernetes.io/ingress_rate'', ''.kubernetes.io/egress_rate'', ''.kubernetes.io/ingress_burst'', ''.kubernetes.io/egress_burst'']"

definition bandwidth_errors :: "string \<times> string \<Rightarrow> error list" where
  "bandwidth_errors kv =
     (case kv of (k, v) \<Rightarrow>
        if v = [] \<or> \<not> list_ex (\<lambda>s. suffix s k) bandwidthSuffixes then []
        else let (n, ok) = Atoi_val v in if \<not> ok \<or> n < 0 then [ErrFmt ''is not a valid bandwidth''] else [])"

text \<open>The errors of \<open>utilerrors.NewAggregate\<close>; without any the result is nil.\<close>

definition ValidatePodNetwork :: "(string, string) gomap \<Rightarrow> error list" where
  "ValidatePodNetwork annotations =
     (let cidrStr = mget0 annotations CidrAnnotation;
          ipAddress = mget0 annotations IPAddressAnnotation;
          mac = mget0 annotations MacAddressAnnotation
      in concat (map (family_errors annotations) annotations) @
         (if ipAddress \<noteq> [] then concat (map (address_errors cidrStr) (split_char CHR '','' ipAddress)) else []) @
         (if mac \<noteq> [] \<and> \<not> ParseMAC_ok mac then [ErrFmt ''is not a valid mac_address''] else []) @
         pool_errors cidrStr (mget0 annotations IPPoolAnnotation) @
         concat (map bandwidth_errors annotations))"

end
