(* ===== verification/SubnetFormat.thy ===== *)
theory SubnetFormat
  imports Validate Exclude
begin

text \<open>
  How the subnet controller completes the specification of a subnet before it is validated and
  given to the allocator: the formatting functions of pkg/controller/subnet.go. Go leaves the order
  of a \<open>range\<close> over a map open; \<open>filterRepeatIPRange\<close> ranges over the map it changes, in two nested
  loops, so its orders are arguments: \<open>ks\<close> is the order of the outer loop and \<open>js ka\<close> the order of
  the inner loop that belongs to the key \<open>ka\<close>. A deleted key is not visited any more, and no key is
  added.
\<close>

section \<open>The code\<close>

text \<open>A subnet object: the fields the checks read and the ones only the formatting needs.\<close>

record SubnetObj = SubnetSpec +
  spProvider :: string
  spDefault :: bool
  spEnableLb :: "bool option"

record FormatConfig =
  cfClusterRouter :: string
  cfNodeSwitch :: string
  cfDefaultLogicalSwitch :: string
  cfEnableLb :: bool
  cfNetworkType :: string

text \<open>
  The body of the inner loop. Pointers are compared by value: under \<open>ka\<close> the map holds \<open>a\<close> or,
  after the deletion, nothing.
\<close>

definition merge_pair :: "string \<Rightarrow> IPRange \<Rightarrow> (string, IPRange) gomap \<Rightarrow> string \<Rightarrow> (string, IPRange) gomap" where
  "merge_pair ka a m kb =
     (case map_of m kb of
        None \<Rightarrow> m
      | Some b \<Rightarrow>
          if ka = kb \<and> a = b then m
          else if IP_LessThan (rend b) (rstart a) \<or> IP_GreaterThan (rstart b) (rend a) then m
          else if (IP_Equal (rstart a) (rstart b) \<or> IP_GreaterThan (rstart a) (rstart b)) \<and>
                  (IP_Equal (rend a) (rend b) \<or> IP_LessThan (rend a) (rend b))
          then mdel ka m
          else if (IP_Equal (rstart a) (rstart b) \<or> IP_GreaterThan (rstart a) (rstart b)) \<and>
                  IP_GreaterThan (rend a) (rend b)
          then mput kb (NewIPRange (rstart b) (rend a)) (mdel ka m)
          else if (IP_Equal (rend a) (rend b) \<or> IP_LessThan (rend a) (rend b)) \<and>
                  IP_LessThan (rstart a) (rstart b)
          then mput kb (NewIPRange (rstart a) (rend b)) (mdel ka m)
          else mdel ka (mput kb a m))"

definition filterRepeatIPRange ::
  "string list \<Rightarrow> (string \<Rightarrow> string list) \<Rightarrow> (string, IPRange) gomap \<Rightarrow> (string, IPRange) gomap" where
  "filterRepeatIPRange ks js mapIPs =
     foldl (\<lambda>m ka. case map_of m ka of None \<Rightarrow> m | Some a \<Rightarrow> foldl (merge_pair ka a) m (js ka)) mapIPs ks"

text \<open>The errors of \<open>NewIP\<close> are dropped: the address is then nil.\<close>

definition entry_ip :: "string \<Rightarrow> IP" where
  "entry_ip s = (case NewIP s of Inl _ \<Rightarrow> [] | Inr ip \<Rightarrow> ip)"

definition entry_range :: "string \<Rightarrow> IPRange" where
  "entry_range excludeIP =
     (let ips = split ''..'' excludeIP; s = entry_ip (ips ! 0)
      in NewIPRange s (if length ips \<noteq> 1 then entry_ip (ips ! 1) else s))"

definition exclude_map :: "string list \<Rightarrow> (string, IPRange) gomap" where
  "exclude_map excludeIps =
     foldl (\<lambda>m excludeIP. if \<not> mhas m excludeIP then mput excludeIP (entry_range excludeIP) m else m) [] excludeIps"

definition range_entry :: "IPRange \<Rightarrow> string" where
  "range_entry v =
     (if IP_Equal (rstart v) (rend v) then IP_String (rstart v)
      else IP_String (rstart v) @ ''..'' @ IP_String (rend v))"

text \<open>The orders of the loops are given for the keys of the map that is built.\<close>

type_synonym orders = "string list \<times> (string \<Rightarrow> string list)"

definition formatExcludeIPRanges :: "orders \<Rightarrow> SubnetObj \<Rightarrow> SubnetObj" where
  "formatExcludeIPRanges ord subnet =
     (let newMap = filterRepeatIPRange (fst ord) (snd ord) (exclude_map (spExcludeIps subnet));
          excludeIPs = sort_strings (map (\<lambda>(k, v). range_entry v) newMap)
      in if spExcludeIps subnet \<noteq> excludeIPs then subnet\<lparr>spExcludeIps := excludeIPs\<rparr> else subnet)"

fun add_gateways :: "string list \<Rightarrow> SubnetObj \<Rightarrow> SubnetObj" where
  "add_gateways [] subnet = subnet"
| "add_gateways (gw # gws) subnet =
     (if list_ex (\<lambda>excludeIP. ContainsIPs excludeIP gw) (spExcludeIps subnet) then add_gateways gws subnet
      else add_gateways gws (subnet\<lparr>spExcludeIps := sort_strings (spExcludeIps subnet @ [gw])\<rparr>))"

definition formatExcludeIPs :: "orders \<Rightarrow> SubnetObj \<Rightarrow> SubnetObj" where
  "formatExcludeIPs ord subnet =
     (let excludeIPs = sort_strings (split_char CHR '','' (spGateway subnet)) in
      if spExcludeIps subnet = [] then subnet\<lparr>spExcludeIps := excludeIPs\<rparr>
      else add_gateways excludeIPs (formatExcludeIPRanges ord subnet))"

fun format_cidrs :: "string list \<Rightarrow> string list \<Rightarrow> error + string list" where
  "format_cidrs cidrBlocks [] = Inr cidrBlocks"
| "format_cidrs cidrBlocks (cidr # cidrs) =
     (case ParseCIDR cidr of
        None \<Rightarrow> Inl (ErrFmt (''subnet cidr '' @ cidr @ '' is invalid''))
      | Some (_, ipNet) \<Rightarrow> format_cidrs (cidrBlocks @ [net_string ipNet]) cidrs)"

definition formatCIDR :: "SubnetObj \<Rightarrow> error + SubnetObj" where
  "formatCIDR subnet =
     (case format_cidrs [] (split_char CHR '','' (spCIDRBlock subnet)) of
        Inl err \<Rightarrow> Inl err
      | Inr cidrBlocks \<Rightarrow> Inr (subnet\<lparr>spCIDRBlock := join '','' cidrBlocks\<rparr>))"

definition formatGateway :: "SubnetObj \<Rightarrow> error + SubnetObj" where
  "formatGateway subnet =
     (case (if spGateway subnet = [] then GetGwByCidr (spCIDRBlock subnet)
            else if spProtocol subnet = ProtocolDual \<and>
                    CheckProtocol (spGateway subnet) \<noteq> CheckProtocol (spCIDRBlock subnet)
            then AppendGwByCidr (spGateway subnet) (spCIDRBlock subnet)
            else Inr (spGateway subnet)) of
        Inl err \<Rightarrow> Inl err
      | Inr gw \<Rightarrow> Inr (subnet\<lparr>spGateway := gw\<rparr>))"

definition formatAddress :: "orders \<Rightarrow> SubnetObj \<Rightarrow> error + SubnetObj" where
  "formatAddress ord subnet =
     (case (if spCIDRBlock subnet \<noteq> []
            then (case formatCIDR subnet of
                    Inl err \<Rightarrow> Inl err
                  | Inr subnet \<Rightarrow>
                      (case formatGateway subnet of
                         Inl err \<Rightarrow> Inl err
                       | Inr subnet \<Rightarrow> Inr (formatExcludeIPs ord subnet)))
            else Inr subnet) of
        Inl err \<Rightarrow> Inl err
      | Inr subnet \<Rightarrow>
          Inr (subnet\<lparr>spProtocol :=
                 if spVlan subnet \<noteq> [] \<and> spCIDRBlock subnet = [] then ProtocolMac
                 else CheckProtocol (spCIDRBlock subnet)\<rparr>))"

definition isOvnSubnet :: "SubnetObj \<Rightarrow> bool" where
  "isOvnSubnet subnet = IsOvnProvider (spProvider subnet)"

text \<open>The defaults of \<open>formatSubnet\<close>, in its order.\<close>

definition format_vpc :: "FormatConfig \<Rightarrow> SubnetObj \<Rightarrow> SubnetObj" where
  "format_vpc c s =
     (let s = (if spProvider s = [] then s\<lparr>spProvider := OvnProvider\<rparr> else s) in
      if spVpc s = [] \<and> isOvnSubnet s then s\<lparr>spVpc := cfClusterRouter c\<rparr> else s)"

definition format_default_vpc :: "FormatConfig \<Rightarrow> SubnetObj \<Rightarrow> SubnetObj" where
  "format_default_vpc c s =
     (if spVpc s = cfClusterRouter c \<and> spName s \<noteq> cfNodeSwitch c then
        let s = (if spGatewayType s = [] then s\<lparr>spGatewayType := GWDistributedType\<rparr> else s)
        in if spDefault s \<and> spName s \<noteq> cfDefaultLogicalSwitch c then s\<lparr>spDefault := False\<rparr> else s
      else s)"

definition format_lb :: "FormatConfig \<Rightarrow> SubnetObj \<Rightarrow> SubnetObj" where
  "format_lb c s =
     (let s = (if spEnableLb s = None \<and> spName s \<noteq> cfNodeSwitch c then s\<lparr>spEnableLb := Some (cfEnableLb c)\<rparr> else s)
      in if spEnableLb s \<noteq> None \<and> spName s = cfNodeSwitch c then s\<lparr>spEnableLb := None\<rparr> else s)"

definition format_u2o :: "SubnetObj \<Rightarrow> SubnetObj" where
  "format_u2o s =
     (let s = (if spU2OInterconnectionIP s \<noteq> [] \<and> \<not> spU2OInterconnection s then s\<lparr>spU2OInterconnectionIP := []\<rparr> else s)
      in if spVlan s = [] \<and> spU2OInterconnection s then s\<lparr>spU2OInterconnection := False\<rparr> else s)"

text \<open>
  \<open>update\<close> stands for the API server: the stored object, or an error. The second result says whether
  the object was written.
\<close>

definition formatSubnet ::
  "FormatConfig \<Rightarrow> (SubnetObj \<Rightarrow> error + SubnetObj) \<Rightarrow> orders \<Rightarrow> SubnetObj \<Rightarrow> error + (SubnetObj \<times> bool)" where
  "formatSubnet c update ord subnet =
     (case formatAddress ord subnet of
        Inl err \<Rightarrow> Inl err
      | Inr s \<Rightarrow>
          let newSubnet = format_u2o (format_lb c (format_default_vpc c (format_vpc c s))) in
          if newSubnet \<noteq> subnet then
            (case update newSubnet of Inl err \<Rightarrow> Inl err | Inr ret \<Rightarrow> Inr (ret, True))
          else Inr (subnet, False))"

section \<open>Merging ranges\<close>

text \<open>Well-formed ranges of one family, and the ranges of a map.\<close>

definition ranges_ok :: "(string, IPRange) gomap \<Rightarrow> bool" where
  "ranges_ok m = (\<forall>k r. map_of m k = Some r \<longrightarrow> (\<exists>F. rok F r))"

definition cover :: "(string, IPRange) gomap \<Rightarrow> nat set" where
  "cover m = {x. \<exists>k r. map_of m k = Some r \<and> x \<in> rset r}"

text \<open>Ranges of different families have no address in common.\<close>

lemma rok_same_fam: "rok F r \<Longrightarrow> rok G q \<Longrightarrow> x \<in> rset r \<Longrightarrow> x \<in> rset q \<Longrightarrow> F = G"
  using rset_bounds [of F r x] rset_bounds [of G q x] by (cases F; cases G) (auto simp: v4base_def)

lemma merge_pair_step:
  assumes ok: "ranges_ok m" "rok F a" and ka: "map_of m ka = None \<or> map_of m ka = Some a"
  shows "(merge_pair ka a m kb = m \<and> (\<forall>b. map_of m kb = Some b \<longrightarrow> kb = ka \<or> rset a \<inter> rset b = {})) \<or>
    (\<exists>b r. kb \<noteq> ka \<and> map_of m kb = Some b \<and> rset a \<inter> rset b \<noteq> {} \<and> rok F r \<and> rset r = rset a \<union> rset b \<and>
       map_of (merge_pair ka a m kb) = (map_of m)(ka := None, kb \<mapsto> r))"
proof (cases "\<exists>b. map_of m kb = Some b \<and> kb \<noteq> ka")
  case False
  then show ?thesis using ka by (auto simp: merge_pair_def)
next
  case True
  then obtain b where b: "map_of m kb = Some b" "kb \<noteq> ka" by blast
  then obtain G where G: "rok G b" using ok(1) by (auto simp: ranges_ok_def)
  note v = ipok_valid [OF rok_D(1) [OF ok(2)]] ipok_valid [OF rok_D(2) [OF ok(2)]] ipok_valid [OF rok_D(1) [OF G]] ipok_valid [OF rok_D(2) [OF G]]
  note c = v [THEN IP_LessThan_ipv] v [THEN IP_GreaterThan_ipv] v [THEN IP_Equal_ipv]
  note le = rok_D(3) [OF ok(2)] rok_D(3) [OF G]
  show ?thesis
  proof (cases "rset a \<inter> rset b = {}")
    case True
    then have "ipv (rend b) < ipv (rstart a) \<or> ipv (rend a) < ipv (rstart b)"
      using le by (fastforce simp: rset_def not_less disjoint_iff)
    then have "merge_pair ka a m kb = m" using b v by (auto simp: merge_pair_def c)
    then show ?thesis using True b by simp
  next
    case False
    then have GF: "G = F" using rok_same_fam [OF ok(2) G] by blast
    have o: "\<not> ipv (rend b) < ipv (rstart a)" "\<not> ipv (rend a) < ipv (rstart b)" using False by (auto simp: rset_def)
    have "\<exists>r. rok F r \<and> rset r = rset a \<union> rset b \<and> map_of (merge_pair ka a m kb) = (map_of m)(ka := None, kb \<mapsto> r)"
    proof -
      have rb: "rok F b" using G GF by simp
      consider (inside) "ipv (rstart b) \<le> ipv (rstart a)" "ipv (rend a) \<le> ipv (rend b)"
        | (right) "ipv (rstart b) \<le> ipv (rstart a)" "ipv (rend b) < ipv (rend a)"
        | (left) "ipv (rstart a) < ipv (rstart b)" "ipv (rend a) \<le> ipv (rend b)"
        | (outside) "ipv (rstart a) < ipv (rstart b)" "ipv (rend b) < ipv (rend a)" by linarith
      then show ?thesis
      proof cases
        case inside
        then show ?thesis using b o v rb le by (intro exI [of _ b]) (auto simp: merge_pair_def c rset_def fun_eq_iff)
      next
        case right
        then show ?thesis using b o v rb le ok(2)
          by (intro exI [of _ "NewIPRange (rstart b) (rend a)"]) (auto simp: merge_pair_def c rset_def rok_def fun_eq_iff)
      next
        case left
        then show ?thesis using b o v rb le ok(2)
          by (intro exI [of _ "NewIPRange (rstart a) (rend b)"]) (auto simp: merge_pair_def c rset_def rok_def fun_eq_iff)
      next
        case outside
        then show ?thesis using b o v rb le ok(2) by (intro exI [of _ a]) (auto simp: merge_pair_def c rset_def fun_eq_iff)
      qed
    qed
    then show ?thesis using b False by blast
  qed
qed


text \<open>One inner loop: the range is left alone, or it moves into every range it overlaps.\<close>

definition absorbed :: "string \<Rightarrow> IPRange \<Rightarrow> string list \<Rightarrow> (string, IPRange) gomap \<Rightarrow> (string, IPRange) gomap \<Rightarrow> bool" where
  "absorbed ka a js m m' =
     (ranges_ok m' \<and>
      (m' = m \<and> (\<forall>k\<in>set js. \<forall>b. map_of m k = Some b \<longrightarrow> k = ka \<or> rset a \<inter> rset b = {}) \<or>
       map_of m' ka = None \<and> rset a \<subseteq> cover m') \<and>
      (\<forall>k. k \<noteq> ka \<longrightarrow>
         (map_of m k = None \<and> map_of m' k = None \<or>
          (\<exists>r r'. map_of m k = Some r \<and> map_of m' k = Some r' \<and>
             (r' = r \<or> rset a \<inter> rset r \<noteq> {} \<and> rset r' = rset a \<union> rset r)))))"

lemma inner_absorbed:
  assumes "ranges_ok m" "rok F a" "map_of m ka = Some a"
  shows "absorbed ka a js m (foldl (merge_pair ka a) m js)"
proof (induction js rule: rev_induct)
  case Nil
  then show ?case using assms(1) by (auto simp: absorbed_def)
next
  case (snoc kb js)
  define m1 where "m1 = foldl (merge_pair ka a) m js"
  have ok: "ranges_ok m1" and ka: "map_of m1 ka = None \<or> map_of m1 ka = Some a"
    using snoc assms(3) by (auto simp: absorbed_def m1_def)
  define m2 where "m2 = merge_pair ka a m1 kb"
  consider (same) "m2 = m1" "\<And>b. map_of m1 kb = Some b \<Longrightarrow> kb = ka \<or> rset a \<inter> rset b = {}"
    | (moved) b r where "kb \<noteq> ka" "map_of m1 kb = Some b" "rset a \<inter> rset b \<noteq> {}" "rok F r" "rset r = rset a \<union> rset b"
        "map_of m2 = (map_of m1)(ka := None, kb \<mapsto> r)"
    using merge_pair_step [OF ok assms(2) ka, of kb] unfolding m2_def by blast
  then have "absorbed ka a (js @ [kb]) m m2"
  proof cases
    case same
    then show ?thesis using snoc unfolding absorbed_def m1_def [symmetric] by auto
  next
    case moved
    have "ranges_ok m2" using ok moved by (auto simp: ranges_ok_def)
    moreover have "map_of m2 ka = None" "rset a \<subseteq> cover m2" using moved by (auto simp: cover_def)
    moreover have "map_of m k = None \<and> map_of m2 k = None \<or>
          (\<exists>r r'. map_of m k = Some r \<and> map_of m2 k = Some r' \<and>
             (r' = r \<or> rset a \<inter> rset r \<noteq> {} \<and> rset r' = rset a \<union> rset r))" if "k \<noteq> ka" for k
    proof -
      have i: "map_of m k = None \<and> map_of m1 k = None \<or>
          (\<exists>r r'. map_of m k = Some r \<and> map_of m1 k = Some r' \<and>
             (r' = r \<or> rset a \<inter> rset r \<noteq> {} \<and> rset r' = rset a \<union> rset r))"
        using snoc that unfolding absorbed_def m1_def [symmetric] by blast
      then show ?thesis using moved that by (cases "k = kb") auto
    qed
    ultimately show ?thesis unfolding absorbed_def by blast
  qed
  then show ?case by (simp add: m1_def m2_def)
qed

lemma absorbed_cases:
  assumes "absorbed ka a js m m'"
  obtains (same) "m' = m" "\<And>k b. k \<in> set js \<Longrightarrow> map_of m k = Some b \<Longrightarrow> k \<noteq> ka \<Longrightarrow> rset a \<inter> rset b = {}"
    | (moved) "map_of m' ka = None" "rset a \<subseteq> cover m'"
proof -
  have "m' = m \<and> (\<forall>k\<in>set js. \<forall>b. map_of m k = Some b \<longrightarrow> k = ka \<or> rset a \<inter> rset b = {}) \<or>
    map_of m' ka = None \<and> rset a \<subseteq> cover m'" using assms unfolding absorbed_def by (elim conjE)
  then show thesis
  proof (elim disjE conjE)
    assume "m' = m" "\<forall>k\<in>set js. \<forall>b. map_of m k = Some b \<longrightarrow> k = ka \<or> rset a \<inter> rset b = {}"
    then show thesis by (intro same) auto
  qed (rule moved)
qed

lemma absorbed_key:
  assumes "absorbed ka a js m m'" "k \<noteq> ka"
  obtains (none) "map_of m k = None" "map_of m' k = None"
    | (some) r r' where "map_of m k = Some r" "map_of m' k = Some r'" "r' = r \<or> rset a \<inter> rset r \<noteq> {} \<and> rset r' = rset a \<union> rset r"
proof -
  have "map_of m k = None \<and> map_of m' k = None \<or>
    (\<exists>r r'. map_of m k = Some r \<and> map_of m' k = Some r' \<and> (r' = r \<or> rset a \<inter> rset r \<noteq> {} \<and> rset r' = rset a \<union> rset r))"
    using assms unfolding absorbed_def by (elim conjE) (drule spec, erule mp)
  then show thesis using none some by (elim disjE exE conjE) (assumption | blast)+
qed

lemma coverI: "map_of m k = Some r \<Longrightarrow> rset r \<subseteq> cover m"
  by (auto simp: cover_def)

lemma cover_subI: "(\<And>k r. map_of m k = Some r \<Longrightarrow> rset r \<subseteq> X) \<Longrightarrow> cover m \<subseteq> X"
  by (auto simp: cover_def)

lemma absorbed_cover:
  assumes ab: "absorbed ka a js m m'" and ka: "map_of m ka = Some a"
  shows "cover m' = cover m"
  using ab
proof (cases rule: absorbed_cases)
  case moved
  have "rset r' \<subseteq> cover m" if k: "map_of m' k = Some r'" for k r'
  proof -
    have "k \<noteq> ka" using k moved by auto
    from ab this show ?thesis by (cases rule: absorbed_key) (use k coverI [OF ka] coverI [of m k] in auto)
  qed
  moreover have "rset r \<subseteq> cover m'" if k: "map_of m k = Some r" for k r
  proof (cases "k = ka")
    case False
    from ab this show ?thesis by (cases rule: absorbed_key) (use k coverI [of m' k] in auto)
  qed (use k ka moved in simp)
  ultimately show ?thesis by (intro equalityI cover_subI)
qed simp

text \<open>The keys visited by the outer loop hold ranges that overlap no other.\<close>

definition apart :: "string set \<Rightarrow> (string, IPRange) gomap \<Rightarrow> bool" where
  "apart P m = (\<forall>k k' r r'. k \<in> P \<and> k \<noteq> k' \<and> map_of m k = Some r \<and> map_of m k' = Some r' \<longrightarrow> rset r \<inter> rset r' = {})"

lemma absorbed_apart:
  assumes s: "absorbed ka a js m m'" "map_of m ka = Some a" and P: "apart P m" and js: "dom (map_of m) \<subseteq> set js"
  shows "apart (insert ka P) m'"
  unfolding apart_def
proof (intro allI impI, elim conjE)
  fix k k' r r' assume k: "k \<in> insert ka P" "k \<noteq> k'" "map_of m' k = Some r" "map_of m' k' = Some r'"
  from s(1) show "rset r \<inter> rset r' = {}"
  proof (cases rule: absorbed_cases)
    case same
    have d: "rset a \<inter> rset b = {}" if "map_of m k = Some b" "k \<noteq> ka" for k b
      using same(2) [OF _ that] js that(1) by auto
    show ?thesis
    proof (cases "k = ka")
      case True
      then show ?thesis using d [of k' r'] k s(2) unfolding same(1) by auto
    next
      case False
      then show ?thesis using P k unfolding same(1) apart_def by blast
    qed
  next
    case moved
    then have n: "k \<noteq> ka" "k' \<noteq> ka" "k \<in> P" using k by auto
    obtain q where q: "map_of m k = Some q" "r = q \<or> rset a \<inter> rset q \<noteq> {}"
      using s(1) n(1) by (cases rule: absorbed_key) (use k in auto)
    obtain q' where q': "map_of m k' = Some q'" "rset r' \<subseteq> rset a \<union> rset q'"
      using s(1) n(2) by (cases rule: absorbed_key) (use k in auto)
    have "rset q \<inter> rset a = {}" "rset q \<inter> rset q' = {}" using P n k(2) q(1) q'(1) s(2) unfolding apart_def by blast+
    then show ?thesis using q q' by blast
  qed
qed

lemma apart_insert_None: "apart P m \<Longrightarrow> map_of m k = None \<Longrightarrow> apart (insert k P) m"
  unfolding apart_def by (metis insertE option.distinct(1))

lemma filter_loop:
  assumes "ranges_ok m" "\<forall>ka\<in>set ks. dom (map_of m) \<subseteq> set (js ka)"
  shows "ranges_ok (filterRepeatIPRange ks js m) \<and> cover (filterRepeatIPRange ks js m) = cover m \<and>
    dom (map_of (filterRepeatIPRange ks js m)) \<subseteq> dom (map_of m) \<and> apart (set ks) (filterRepeatIPRange ks js m)"
  using assms
proof (induction ks rule: rev_induct)
  case Nil
  then show ?case by (simp add: filterRepeatIPRange_def apart_def)
next
  case (snoc ka ks)
  define m1 where "m1 = filterRepeatIPRange ks js m"
  have m1: "ranges_ok m1" "cover m1 = cover m" "dom (map_of m1) \<subseteq> dom (map_of m)" "apart (set ks) m1"
    using snoc by (auto simp: m1_def)
  have r: "filterRepeatIPRange (ks @ [ka]) js m = (case map_of m1 ka of None \<Rightarrow> m1 | Some a \<Rightarrow> foldl (merge_pair ka a) m1 (js ka))"
    unfolding m1_def filterRepeatIPRange_def by simp
  show ?case
  proof (cases "map_of m1 ka")
    case None
    then show ?thesis using m1 r apart_insert_None [OF m1(4) None] by simp
  next
    case (Some a)
    then obtain F where "rok F a" using m1(1) by (auto simp: ranges_ok_def)
    from inner_absorbed [OF m1(1) this Some]
    have ab: "absorbed ka a (js ka) m1 (filterRepeatIPRange (ks @ [ka]) js m)" using r Some by simp
    moreover have "dom (map_of m1) \<subseteq> set (js ka)" using m1(3) snoc.prems by auto
    moreover have "dom (map_of (filterRepeatIPRange (ks @ [ka]) js m)) \<subseteq> dom (map_of m1)"
    proof
      fix k assume "k \<in> dom (map_of (filterRepeatIPRange (ks @ [ka]) js m))"
      then show "k \<in> dom (map_of m1)" using ab Some unfolding absorbed_def by (cases "k = ka") auto
    qed
    ultimately show ?thesis
      using absorbed_cover [OF ab Some] absorbed_apart [OF ab Some m1(4)] m1(2,3) unfolding absorbed_def by auto
  qed
qed

text \<open>Ranges that overlap no other stay as they are.\<close>

lemma merge_pair_id:
  assumes "ranges_ok m" "apart UNIV m" "map_of m ka = Some a"
  shows "merge_pair ka a m kb = m"
proof -
  obtain F where "rok F a" using assms by (auto simp: ranges_ok_def)
  from merge_pair_step [OF assms(1) this, of ka kb] assms(2,3) show ?thesis unfolding apart_def by blast
qed

lemma filter_id:
  assumes "ranges_ok m" "apart UNIV m"
  shows "filterRepeatIPRange ks js m = m"
proof -
  have "foldl (merge_pair ka a) m xs = m" if "map_of m ka = Some a" for ka a xs
    by (induction xs) (simp_all add: merge_pair_id [OF assms that])
  then have "(case map_of m ka of None \<Rightarrow> m | Some a \<Rightarrow> foldl (merge_pair ka a) m (js ka)) = m" for ka
    by (simp split: option.split)
  then show ?thesis unfolding filterRepeatIPRange_def by (induction ks) simp_all
qed

section \<open>Lists of entries\<close>

text \<open>An entry whose first address is not greater than its last, and the ranges a list of texts stands for.\<close>

definition span :: "entry \<Rightarrow> bool" where
  "span e = (case e of (r, F, a, b) \<Rightarrow> ipok F a \<and> ipok F b \<and> ipv a \<le> ipv b \<and> (\<not> r \<longrightarrow> a = b))"

definition erange :: "entry \<Rightarrow> IPRange" where
  "erange e = (case e of (r, F, a, b) \<Rightarrow> NewIPRange a b)"

definition texts_ok :: "string list \<Rightarrow> bool" where
  "texts_ok ts = (\<forall>t\<in>set ts. \<exists>e. span e \<and> t = etext e)"

definition tcover :: "string list \<Rightarrow> nat set" where
  "tcover ts = (\<Union>t\<in>set ts. rset (entry_range t))"

definition tapart :: "string list \<Rightarrow> bool" where
  "tapart ts = (\<forall>t\<in>set ts. \<forall>u\<in>set ts. t \<noteq> u \<longrightarrow> rset (entry_range t) \<inter> rset (entry_range u) = {})"

lemma entry_ip_String: "ipok F a \<Longrightarrow> entry_ip (ip_string a) = a"
  using NewIP_String [of F a] by (simp add: entry_ip_def IP_String_def)

lemma split_single:
  assumes "ipok F a"
  shows "split ''..'' (ip_string a) = [ip_string a]"
  using cut_dots_None [OF single_dots_ip_string [OF ipok_valid [OF assms]]] by (simp add: split.simps(2))

lemma split_pair:
  assumes "ipok F a" "ipok F b"
  shows "split ''..'' (ip_string a @ ''..'' @ ip_string b) = [ip_string a, ip_string b]"
  using split_dots [OF single_dots_ip_string [OF ipok_valid [OF assms(1)]] single_dots_ip_string [OF ipok_valid [OF assms(2)]]] by simp

lemma entry_range_etext:
  assumes "span e"
  shows "entry_range (etext e) = erange e" "\<exists>F. rok F (erange e)"
proof -
  obtain r F a b where e: "e = (r, F, a, b)" by (cases e)
  have ok: "ipok F a" "ipok F b" "ipv a \<le> ipv b" "\<not> r \<longrightarrow> a = b" using assms by (simp_all add: e span_def)
  show "entry_range (etext e) = erange e"
    using ok split_single [OF ok(1)] split_pair [OF ok(1,2)] entry_ip_String [OF ok(1)] entry_ip_String [OF ok(2)]
    by (cases r) (simp_all add: e etext_def erange_def entry_range_def Let_def)
  show "\<exists>F. rok F (erange e)" using ok by (auto simp: e erange_def rok_def)
qed

text \<open>The entry the controller writes for a range.\<close>

definition rentry :: "fam \<Rightarrow> IPRange \<Rightarrow> entry" where
  "rentry F r = (ipv (rstart r) \<noteq> ipv (rend r), F, rstart r, rend r)"

lemma rentry:
  assumes "rok F r"
  shows "span (rentry F r)" "range_entry r = etext (rentry F r)" "erange (rentry F r) = r"
proof -
  have ok: "ipok F (rstart r)" "ipok F (rend r)" "ipv (rstart r) \<le> ipv (rend r)" using assms by (simp_all add: rok_def)
  show "span (rentry F r)" using ok ipok_inj [OF ok(1,2)] by (auto simp: span_def rentry_def)
  show "range_entry r = etext (rentry F r)"
    using IP_Equal_ipv [OF ipok_valid [OF ok(1)] ipok_valid [OF ok(2)]] by (simp add: range_entry_def rentry_def etext_def IP_String_def)
  show "erange (rentry F r) = r" by (simp add: rentry_def erange_def NewIPRange_def)
qed

lemma entry_range_entry: "rok F r \<Longrightarrow> entry_range (range_entry r) = r"
  using rentry [of F r] entry_range_etext by metis

section \<open>The map of the entries\<close>

lemma exclude_map_snoc:
  "exclude_map (ts @ [t]) = (if mhas (exclude_map ts) t then exclude_map ts else mput t (entry_range t) (exclude_map ts))"
  by (simp add: exclude_map_def)

lemma exclude_map_of: "map_of (exclude_map ts) k = (if k \<in> set ts then Some (entry_range k) else None)"
proof (induction ts rule: rev_induct)
  case (snoc t ts)
  then show ?case by (auto simp: exclude_map_snoc mhas_def split: if_splits)
qed (simp add: exclude_map_def)

lemma mwf_exclude_map: "mwf (exclude_map ts)"
proof (induction ts rule: rev_induct)
  case (snoc t ts)
  then show ?case by (simp add: exclude_map_snoc)
qed (simp add: exclude_map_def)

lemma mput_new: "k \<notin> fst ` set m \<Longrightarrow> mput k v m = m @ [(k, v)]"
  by (induction m) (auto simp: mput_def)

lemma exclude_map_distinct: "distinct ts \<Longrightarrow> exclude_map ts = map (\<lambda>t. (t, entry_range t)) ts"
proof (induction ts rule: rev_induct)
  case (snoc t ts)
  then have i: "exclude_map ts = map (\<lambda>t. (t, entry_range t)) ts" "t \<notin> set ts" by auto
  then have "\<not> mhas (exclude_map ts) t" using exclude_map_of [of ts t] by (simp add: mhas_def)
  then show ?case using i mput_new [of t "exclude_map ts"] by (simp add: exclude_map_snoc image_image)
qed (simp add: exclude_map_def)

lemma exclude_map_ranges:
  assumes "texts_ok ts"
  shows "ranges_ok (exclude_map ts)" "cover (exclude_map ts) = tcover ts"
proof -
  have "\<exists>F. rok F (entry_range t)" if "t \<in> set ts" for t
    using assms that entry_range_etext by (auto simp: texts_ok_def)
  then show "ranges_ok (exclude_map ts)" by (simp add: ranges_ok_def exclude_map_of)
  show "cover (exclude_map ts) = tcover ts" by (auto simp: cover_def tcover_def exclude_map_of)
qed

lemma apart_exclude_map: "tapart ts \<Longrightarrow> apart UNIV (exclude_map ts)"
  unfolding tapart_def apart_def exclude_map_of by (simp split: if_splits)

lemma mwf_merge_pair: "mwf m \<Longrightarrow> mwf (merge_pair ka a m kb)"
  by (simp add: merge_pair_def split: option.split)

lemma mwf_filter: "mwf m \<Longrightarrow> mwf (filterRepeatIPRange ks js m)"
proof -
  have "mwf m \<Longrightarrow> mwf (foldl (merge_pair ka a) m xs)" for ka a xs and m :: "(string, IPRange) gomap"
    by (induction xs arbitrary: m) (simp_all add: mwf_merge_pair)
  then have step: "mwf m \<Longrightarrow> mwf (case map_of m ka of None \<Rightarrow> m | Some a \<Rightarrow> foldl (merge_pair ka a) m (js ka))" for ka m
    by (simp split: option.split)
  show "mwf m \<Longrightarrow> mwf (filterRepeatIPRange ks js m)"
    unfolding filterRepeatIPRange_def by (induction ks arbitrary: m) (simp_all add: step)
qed

text \<open>A \<open>range\<close> loop visits every key: the orders name at least the keys of the map.\<close>

definition orders_ok :: "orders \<Rightarrow> string list \<Rightarrow> bool" where
  "orders_ok ord ts = (set ts \<subseteq> set (fst ord) \<and> (\<forall>k. set ts \<subseteq> set (snd ord k)))"

lemma insert_string_least: "\<forall>t\<in>set ts. str_le s t \<Longrightarrow> insert_string s ts = s # ts"
  by (cases ts) auto

lemma sort_strings_id: "sorted_wrt str_le ts \<Longrightarrow> sort_strings ts = ts"
  by (induction ts) (simp_all add: sort_strings_def insert_string_least)

definition normal_entries :: "orders \<Rightarrow> string list \<Rightarrow> string list" where
  "normal_entries ord ts = sort_strings (map (\<lambda>(k, v). range_entry v) (filterRepeatIPRange (fst ord) (snd ord) (exclude_map ts)))"

lemma formatExcludeIPRanges_eq: "formatExcludeIPRanges ord s = s\<lparr>spExcludeIps := normal_entries ord (spExcludeIps s)\<rparr>"
  by (simp add: formatExcludeIPRanges_def normal_entries_def Let_def)

text \<open>Disjoint ranges, each written once in its shortest form, in order.\<close>

definition normal_texts :: "string list \<Rightarrow> bool" where
  "normal_texts ts = (tapart ts \<and> distinct ts \<and> sorted_wrt str_le ts \<and> (\<forall>t\<in>set ts. \<exists>F r. rok F r \<and> t = range_entry r))"

lemma normal_texts_ok: "normal_texts ts \<Longrightarrow> texts_ok ts"
  using rentry(1,2) unfolding normal_texts_def texts_ok_def by metis

lemma normal_entries_spec:
  assumes ts: "texts_ok ts" and ord: "orders_ok ord ts"
  shows "normal_texts (normal_entries ord ts)" "tcover (normal_entries ord ts) = tcover ts"
proof -
  define m where "m = filterRepeatIPRange (fst ord) (snd ord) (exclude_map ts)"
  define R where "R = normal_entries ord ts"
  have wf: "mwf m" unfolding m_def by (rule mwf_filter [OF mwf_exclude_map])
  have d: "dom (map_of (exclude_map ts)) = set ts" by (auto simp: exclude_map_of dom_def)
  have js: "\<forall>ka\<in>set (fst ord). dom (map_of (exclude_map ts)) \<subseteq> set (snd ord ka)" using ord d by (simp add: orders_ok_def)
  note f = filter_loop [OF exclude_map_ranges(1) [OF ts] js, folded m_def]
  have ap: "apart UNIV m"
  proof -
    have "k \<in> set (fst ord)" if "map_of m k = Some r" for k r
      using f d ord that unfolding orders_ok_def by blast
    then show ?thesis using f unfolding apart_def by blast
  qed
  have set: "set R = {t. \<exists>k r. map_of m k = Some r \<and> t = range_entry r}"
    using mwf_map_of_iff [OF wf] by (force simp: R_def normal_entries_def m_def [symmetric])
  have rng: "\<exists>F. rok F r" if "map_of m k = Some r" for k r using f that by (auto simp: ranges_ok_def)
  have er: "entry_range (range_entry r) = r" if "map_of m k = Some r" for k r using rng [OF that] entry_range_entry by blast
  have 1: "\<forall>t\<in>set R. \<exists>F r. rok F r \<and> t = range_entry r" unfolding set using rng by blast
  have "tcover R = cover m" unfolding tcover_def cover_def set using er by (auto; metis)
  then have 2: "tcover R = tcover ts" using f exclude_map_ranges(2) [OF ts] by simp
  have key: "k = k'" if "map_of m k = Some r" "map_of m k' = Some r'" "range_entry r = range_entry r'" for k k' r r'
  proof (rule ccontr)
    assume "k \<noteq> k'"
    then have "rset r \<inter> rset r' = {}" using ap that unfolding apart_def by blast
    moreover have "r = r'" using er that by metis
    moreover have "rset r \<noteq> {}" using rng [OF that(1)] by (auto simp: rset_def rok_def)
    ultimately show False by simp
  qed
  have 3: "tapart R"
    unfolding tapart_def
  proof (intro ballI impI)
    fix t u assume "t \<in> set R" "u \<in> set R" "t \<noteq> u"
    then obtain k r k' r' where k: "map_of m k = Some r" "t = range_entry r" "map_of m k' = Some r'" "u = range_entry r'"
      unfolding set by auto
    then have "k \<noteq> k'" using \<open>t \<noteq> u\<close> by auto
    with k show "rset (entry_range t) \<inter> rset (entry_range u) = {}" using ap er [OF k(1)] er [OF k(3)] unfolding apart_def by auto
  qed
  have "inj_on (\<lambda>(k, v). range_entry v) (set m)" using key mwf_map_of_iff [OF wf] unfolding inj_on_def
    by (auto; metis option.inject)
  moreover have "distinct m" using wf by (simp add: mwf_def distinct_map)
  ultimately have 4: "distinct R" by (simp add: R_def normal_entries_def m_def [symmetric] distinct_map)
  have 5: "sorted_wrt str_le R" by (simp add: R_def normal_entries_def sorted_sort_strings)
  show "normal_texts (normal_entries ord ts)" "tcover (normal_entries ord ts) = tcover ts"
    using 1 2 3 4 5 by (simp_all add: normal_texts_def R_def)
qed

text \<open>Entries in this form stay as they are, whatever the orders.\<close>

lemma normal_entries_id:
  assumes "normal_texts ts"
  shows "normal_entries ord ts = ts"
proof -
  have ok: "texts_ok ts" by (rule normal_texts_ok [OF assms])
  have "filterRepeatIPRange (fst ord) (snd ord) (exclude_map ts) = exclude_map ts"
    using assms filter_id [OF exclude_map_ranges(1) [OF ok] apart_exclude_map] by (simp add: normal_texts_def)
  moreover have "map (\<lambda>(k, v). range_entry v) (exclude_map ts) = ts"
    using assms entry_range_entry by (subst exclude_map_distinct) (auto simp: normal_texts_def intro!: map_idI)
  ultimately show ?thesis using assms by (simp add: normal_entries_def sort_strings_id normal_texts_def)
qed

end
