(* ===== verification/ValidateProps.thy ===== *)
theory ValidateProps
  imports Validate SubnetProps
begin

text \<open>
  Properties of the checks of validator.go: an accepted gateway is an address the allocator calls
  usable, the conflict check decides whether networks share an address, and the annotations of an
  accepted pod are consistent.
\<close>


lemma check_None [simp]: "check bad msg = None \<longleftrightarrow> \<not> bad"
  by (simp add: check_def)

lemma text_nonempty: "ipok F a \<Longrightarrow> ip_string a \<noteq> []" "net_ok F n net \<Longrightarrow> net_string net \<noteq> []"
  using CheckProtocol_ip [of F a] CheckProtocol_net [of F n net] by (cases F; auto simp: CheckProtocol_def protocol_defs)+

section \<open>Gateways\<close>

lemma IPToString_ip:
  assumes "ipok F a"
  shows "IPToString (ip_string a) = ip_string a"
proof -
  have v: "ip_valid a" using assms by (rule ipok_valid)
  have "ParseCIDR (ip_string a) = None" using ip_string_no_slash [OF v] cut_char_None [of "CHR ''/''" "ip_string a"] by (simp add: ParseCIDR_def del: cut_char_None)
  moreover have "ParseIP (ip_string a) = ip_to16 a" by (rule ParseIP_ip_string [OF v])
  moreover have "ip_to16 a \<noteq> []" "ip_string (ip_to16 a) = ip_string a"
    using v ip_to16_length [of a] by (auto simp: ip_valid_def ip_string_def ip_to16_def ip_to4_def)
  ultimately show ?thesis by (simp add: IPToString_def)
qed

lemma gateway_check:
  assumes f: "net_fit F4 n net" and a: "ipok F4 a"
  shows "CIDRContainIP (net_string net) (ip_string a) \<and> ValidateNetworkBroadcast (net_string net) (ip_string a) = None \<longleftrightarrow>
    ipv a \<in> usable F4 n net"
proof -
  have n: "net_ok F4 n net" "n + 1 < fbits F4" using f by (auto simp: net_fit_def)
  obtain bc where bc: "SubnetBroadcast (net_string net) = Inr bc"
    "CIDRContainIP (net_string net) (ip_string a) \<and> ip_string a \<noteq> SubnetNumber (net_string net) \<and> ip_string a \<noteq> bc \<longleftrightarrow> ipv a \<in> usable F4 n net"
    using exclude_ip_test [OF f a] by metis
  have v: "ip_valid a" using a by (rule ipok_valid)
  have sp: "split_char CHR '','' (net_string net) = [net_string net]" "split_char CHR '','' (ip_string a) = [ip_string a]"
    using net_string_no_comma [OF n(1)] ip_string_no_comma [OF v] by (simp_all add: split_char_none)
  have ne: "net_string net \<noteq> []" "ip_string a \<noteq> []" using text_nonempty n(1) a by blast+
  have big: "AddressCountBigInt net \<noteq> 1"
  proof -
    have "2 \<le> fbits F4 - n" using n(2) by simp
    then have "(2 :: int) ^ 2 \<le> 2 ^ (fbits F4 - n)" by (intro power_increasing) simp_all
    then show ?thesis using net_mask_size [OF n(1)] by (auto simp: AddressCountBigInt_def Let_def)
  qed
  have "ValidateNetworkBroadcast (net_string net) (ip_string a) = None \<longleftrightarrow> ip_string a \<noteq> SubnetNumber (net_string net) \<and> ip_string a \<noteq> bc"
    using ne sp ParseCIDR_net_string [OF n(1)] big bc(1) IPToString_ip [OF a] CheckProtocol_net [OF n(1)] CheckProtocol_ip [OF a]
    by (auto simp: ValidateNetworkBroadcast_def broadcast_pair_def Let_def)
  then show ?thesis using bc(2) by blast
qed

text \<open>C24.
  An accepted subnet fits the allocator: when \<open>ValidateSubnet\<close> accepts a subnet with an IPv4 network
  of at least four addresses and a gateway, the gateway is one of the addresses the allocator calls
  usable, neither the network number nor the broadcast address; the virtual addresses lie in the
  network, the subnet is not named like its VPC, and in the default VPC the network does not hold
  the address of the API server.\<close>

theorem accepted_gateway_usable:
  assumes v: "ValidateSubnet api s = None" and net: "spCIDRBlock s = net_string net" "net_fit F4 n net"
    and gw: "spGateway s = ip_string a" "ipok F4 a"
  shows "ipv a \<in> usable F4 n net \<and> spVpc s \<noteq> spName s \<and>
    (\<forall>b. ip_string b \<in> set (spVips s) \<and> ipok F4 b \<longrightarrow> ipv b \<in> netset F4 n net) \<and>
    (spVpc s = DefaultVpc \<longrightarrow> (\<forall>b. api = ip_string b \<and> ipok F4 b \<longrightarrow> ipv b \<notin> netset F4 n net))"
proof -
  have nk: "net_ok F4 n net" using net(2) by (simp add: net_fit_def)
  have ne: "net_string net \<noteq> []" "ip_string a \<noteq> []" using text_nonempty nk gw(2) by blast+
  have "validateSubnetCIDR s = None" and vips: "validate_vips False s = None" and names: "spVpc s \<noteq> spName s"
    and srv: "spVpc s = DefaultVpc \<longrightarrow> api = [] \<or> \<not> CIDRContainIP (net_string net) api"
    using v net(1) ne(1) unfolding ValidateSubnet_def by auto
  then have "CIDRContainIP (net_string net) (ip_string a)" "ValidateNetworkBroadcast (net_string net) (ip_string a) = None"
    using gw(1) ne net(1) by (auto simp: validateSubnetCIDR_def)
  then have u: "ipv a \<in> usable F4 n net" using gateway_check [OF net(2) gw(2)] by blast
  have "CIDRContainIP (net_string net) x" if "x \<in> set (spVips s)" for x
    using vips that net(1) by (auto simp: validate_vips_def split: if_splits)
  then have "ipv b \<in> netset F4 n net" if "ip_string b \<in> set (spVips s)" "ipok F4 b" for b
    using that CIDRContainIP_net [OF nk that(2)] by blast
  moreover have "ipv b \<notin> netset F4 n net" if "spVpc s = DefaultVpc" "api = ip_string b" "ipok F4 b" for b
  proof -
    have "ip_string b \<noteq> []" using text_nonempty(1) [OF that(3)] .
    then show ?thesis using srv that CIDRContainIP_net [OF nk that(3)] by auto
  qed
  ultimately show ?thesis using u names by blast
qed

theorem accepted_gateway_usable_witness:
  "\<exists>s. ValidateSubnet ''10.96.0.1'' s = None \<and> spGateway s = ''10.0.0.1'' \<and> spCIDRBlock s = ''10.0.0.0/29'' \<and>
     ipv [10,0,0,1] \<in> usable F4 29 sample_net"
proof -
  define s where "s = \<lparr>spName = ''net1'', spVpc = ''ovn-cluster'', spProtocol = ''IPv4'', spCIDRBlock = ''10.0.0.0/29'', spGateway = ''10.0.0.1'',
    spExcludeIps = [''10.0.0.2..10.0.0.3''], spGatewayType = ''distributed'', spNatOutgoing = True, spExternalEgressGateway = [],
    spPolicyRoutingTableID = 0, spMtu = 1400, spAllowSubnets = [], spVlan = [], spVips = [''10.0.0.5''], spLogicalGateway = False,
    spNatOutgoingPolicyRules = [], spU2OInterconnectionIP = [], spU2OInterconnection = False, spOverlayOnlyRouting = False\<rparr>"
  have v: "ValidateSubnet ''10.96.0.1'' s = None" unfolding s_def by code_simp
  have t: "net_string sample_net = ''10.0.0.0/29''" "ip_string [10,0,0,1] = ''10.0.0.1''" by code_simp+
  have c: "spCIDRBlock s = net_string sample_net" "spGateway s = ip_string [10,0,0,1]" using t by (simp_all add: s_def)
  have a: "ipok F4 [10,0,0,1]" by simp
  show ?thesis using accepted_gateway_usable [OF v c(1) sample_fit c(2) a] v c unfolding t by blast
qed

section \<open>Conflicts of networks\<close>

text \<open>A network as it may be written: the family, an address of it and the length of the prefix.\<close>

type_synonym written = "fam \<times> bytes \<times> nat"

definition wtext :: "written \<Rightarrow> string" where
  "wtext x = (case x of (F, a, n) \<Rightarrow> cidr_text a n)"

definition written_ok :: "written \<Rightarrow> bool" where
  "written_ok x = (case x of (F, a, n) \<Rightarrow> text_ok F a n)"

definition waddrs :: "fam \<Rightarrow> written list \<Rightarrow> nat set" where
  "waddrs G xs = (\<Union>(F, a, n)\<in>set xs. if F = G then text_addrs F (cidr_text a n) else {})"

lemma waddrs_simps [simp]: "waddrs G [] = {}"
  "waddrs G ((F, a, n) # xs) = (if F = G then text_addrs F (cidr_text a n) else {}) \<union> waddrs G xs"
  by (auto simp: waddrs_def)

lemma overlap_pair:
  assumes "text_ok F a n" "text_ok G b m"
  shows "overlap_inner (cidr_text a n) (cidr_text b m # bs) =
    (if F = G \<and> text_addrs F (cidr_text a n) \<inter> text_addrs G (cidr_text b m) \<noteq> {} then Some True else overlap_inner (cidr_text a n) bs)"
proof -
  have "ipok F a" "ipok G b" using assms by (auto simp: text_ok_def)
  then have sp: "split_char CHR '','' (cidr_text a n) = [cidr_text a n]" "split_char CHR '','' (cidr_text b m) = [cidr_text b m]"
    and pr: "CheckProtocol (cidr_text a n) = fproto F" "CheckProtocol (cidr_text b m) = fproto G"
    using cidr_text_no_comma CheckProtocol_cidr_text by (simp_all add: split_char_none)
  have one: "overlap_outer [cidr_text a n] [cidr_text b m] \<longleftrightarrow> F = G \<and> text_addrs F (cidr_text a n) \<inter> text_addrs G (cidr_text b m) \<noteq> {}"
    using CIDROverlap_iff [OF assms] by (simp add: CIDROverlap_def sp)
  show ?thesis
  proof (cases "F = G")
    case False
    then show ?thesis using pr by (simp add: fproto_inj)
  next
    case True
    then show ?thesis using one pr ParseCIDR_cidr_text [OF assms(1)] ParseCIDR_cidr_text [OF assms(2)]
      by (auto split: if_splits)
  qed
qed

lemma wtext_triple [simp]: "wtext (F, a, n) = cidr_text a n"
  by (simp add: wtext_def)

lemma overlap_inner_list:
  assumes "text_ok F a n" "\<forall>y\<in>set ys. written_ok y"
  shows "overlap_inner (cidr_text a n) (map wtext ys) = (if text_addrs F (cidr_text a n) \<inter> waddrs F ys \<noteq> {} then Some True else None)"
  using assms(2)
proof (induction ys)
  case (Cons y ys)
  obtain G b m where y: "y = (G, b, m)" by (cases y)
  then have "text_ok G b m" using Cons.prems by (simp add: written_ok_def)
  note p = overlap_pair [OF assms(1) this, of "map wtext ys"]
  show ?case unfolding y list.map wtext_triple p
    using Cons.IH Cons.prems by (auto simp: Int_Un_distrib simp del: overlap_inner.simps)
qed simp

lemma overlap_outer_list:
  assumes "\<forall>x\<in>set xs. written_ok x" "\<forall>y\<in>set ys. written_ok y"
  shows "overlap_outer (map wtext xs) (map wtext ys) \<longleftrightarrow> (\<exists>G. waddrs G xs \<inter> waddrs G ys \<noteq> {})"
  using assms(1)
proof (induction xs)
  case (Cons x xs)
  obtain F a n where x: "x = (F, a, n)" by (cases x)
  then have t: "text_ok F a n" using Cons.prems by (simp add: written_ok_def)
  have e: "overlap_outer (map wtext (x # xs)) (map wtext ys) \<longleftrightarrow>
    text_addrs F (cidr_text a n) \<inter> waddrs F ys \<noteq> {} \<or> (\<exists>G. waddrs G xs \<inter> waddrs G ys \<noteq> {})"
    using Cons.IH Cons.prems overlap_inner_list [OF t assms(2)] by (simp add: x)
  have "waddrs G (x # xs) \<inter> waddrs G ys \<noteq> {} \<longleftrightarrow> F = G \<and> text_addrs F (cidr_text a n) \<inter> waddrs F ys \<noteq> {} \<or> waddrs G xs \<inter> waddrs G ys \<noteq> {}" for G
    by (cases "F = G") (auto simp: x Int_Un_distrib2)
  then show ?case using e by blast
qed simp

lemma CIDROverlap_lists:
  assumes "\<forall>x\<in>set xs. written_ok x" "\<forall>y\<in>set ys. written_ok y" "xs \<noteq> []" "ys \<noteq> []"
  shows "CIDROverlap (join '','' (map wtext xs)) (join '','' (map wtext ys)) \<longleftrightarrow> (\<exists>G. waddrs G xs \<inter> waddrs G ys \<noteq> {})"
proof -
  have c: "CHR '','' \<notin> set (wtext x)" if "written_ok x" for x
    using that cidr_text_no_comma by (auto simp: written_ok_def wtext_def text_ok_def split: prod.splits)
  have "split_char CHR '','' (join '','' (map wtext zs)) = map wtext zs" if "\<forall>z\<in>set zs. written_ok z" "zs \<noteq> []" for zs
    using that c by (intro split_char_join) auto
  then show ?thesis using assms overlap_outer_list [OF assms(1,2)] by (simp add: CIDROverlap_def)
qed

lemma wtext_nonempty: "xs \<noteq> [] \<Longrightarrow> join '','' (map wtext xs) \<noteq> []"
  by (cases xs; cases "tl xs") (auto simp: wtext_def cidr_text_def join_Cons split: prod.splits)

text \<open>C25.
  \<open>ValidateCidrConflict\<close> accepts a subnet exactly when, in its VPC and VLAN, its networks share no
  address with those of any other subnet and no other subnet with an external egress gateway uses
  its policy routing table. Each subnet may have one network or one of each family.\<close>

theorem conflict_free_iff:
  assumes "\<forall>x\<in>set (nets s). written_ok x" "nets s \<noteq> []" "spCIDRBlock s = join '','' (map wtext (nets s))"
    and "\<forall>t\<in>set ts. (\<forall>x\<in>set (nets t). written_ok x) \<and> nets t \<noteq> [] \<and> spCIDRBlock t = join '','' (map wtext (nets t))"
  shows "ValidateCidrConflict s ts = None \<longleftrightarrow>
    (\<forall>t\<in>set ts. spVpc t = spVpc s \<and> spVlan t = spVlan s \<and> spName t \<noteq> spName s \<longrightarrow>
       (\<forall>G. waddrs G (nets t) \<inter> waddrs G (nets s) = {}) \<and>
       \<not> (spExternalEgressGateway s \<noteq> [] \<and> spExternalEgressGateway t \<noteq> [] \<and> spPolicyRoutingTableID s = spPolicyRoutingTableID t))"
proof -
  have "conflict_with s t = None \<longleftrightarrow> (spVpc t = spVpc s \<and> spVlan t = spVlan s \<and> spName t \<noteq> spName s \<longrightarrow>
       (\<forall>G. waddrs G (nets t) \<inter> waddrs G (nets s) = {}) \<and>
       \<not> (spExternalEgressGateway s \<noteq> [] \<and> spExternalEgressGateway t \<noteq> [] \<and> spPolicyRoutingTableID s = spPolicyRoutingTableID t))"
    if t: "t \<in> set ts" for t
  proof -
    have o: "CIDROverlap (spCIDRBlock t) (spCIDRBlock s) \<longleftrightarrow> (\<exists>G. waddrs G (nets t) \<inter> waddrs G (nets s) \<noteq> {})"
      using CIDROverlap_lists [of "nets t" "nets s"] assms t by simp
    have "spCIDRBlock s \<noteq> []" "spCIDRBlock t \<noteq> []" using assms t wtext_nonempty by simp_all
    then show ?thesis by (auto simp: conflict_with_def o)
  qed
  then show ?thesis by (simp add: ValidateCidrConflict_def)
qed

definition sample_spec :: "string \<Rightarrow> string \<Rightarrow> SubnetSpec" where
  "sample_spec name cidr = \<lparr>spName = name, spVpc = ''ovn-cluster'', spProtocol = ''IPv4'', spCIDRBlock = cidr, spGateway = [],
    spExcludeIps = [], spGatewayType = [], spNatOutgoing = False, spExternalEgressGateway = [],
    spPolicyRoutingTableID = 0, spMtu = 0, spAllowSubnets = [], spVlan = [], spVips = [], spLogicalGateway = False,
    spNatOutgoingPolicyRules = [], spU2OInterconnectionIP = [], spU2OInterconnection = False, spOverlayOnlyRouting = False\<rparr>"

definition sample_nets :: "SubnetSpec \<Rightarrow> written list" where
  "sample_nets s = (if spName s = ''a'' then [(F4, [10,0,3,7], 24)] else [(F4, [10,0,4,0], 24)])"

lemma waddrs_one: "waddrs F [(F, a, n)] = text_addrs F (cidr_text a n)"
  by simp

theorem conflict_free_iff_witness:
  "ValidateCidrConflict (sample_spec ''a'' ''10.0.3.7/24'') [sample_spec ''b'' ''10.0.4.0/24''] = None \<and>
   ValidateCidrConflict (sample_spec ''a'' ''10.0.3.7/24'') [sample_spec ''b'' ''10.0.0.1/16''] \<noteq> None \<and>
   text_addrs F4 ''10.0.4.0/24'' \<inter> text_addrs F4 ''10.0.3.7/24'' = {}"
proof -
  let ?s = "sample_spec ''a'' ''10.0.3.7/24''" and ?t = "sample_spec ''b'' ''10.0.4.0/24''"
  have ok: "\<forall>x\<in>set (sample_nets ?s). written_ok x" "sample_nets ?s \<noteq> []" "spCIDRBlock ?s = join '','' (map wtext (sample_nets ?s))" by code_simp+
  have ok': "\<forall>t\<in>set [?t]. (\<forall>x\<in>set (sample_nets t). written_ok x) \<and> sample_nets t \<noteq> [] \<and> spCIDRBlock t = join '','' (map wtext (sample_nets t))" by code_simp
  have v: "ValidateCidrConflict ?s [?t] = None" by code_simp
  have v2: "ValidateCidrConflict ?s [sample_spec ''b'' ''10.0.0.1/16''] \<noteq> None" by code_simp
  have same: "spVpc ?t = spVpc ?s" "spVlan ?t = spVlan ?s" "spName ?t \<noteq> spName ?s" by code_simp+
  have w: "sample_nets ?s = [(F4, [10,0,3,7], 24)]" "sample_nets ?t = [(F4, [10,0,4,0], 24)]" by code_simp+
  have t: "cidr_text [10,0,3,7] 24 = ''10.0.3.7/24''" "cidr_text [10,0,4,0] 24 = ''10.0.4.0/24''" by code_simp+
  have "waddrs F4 (sample_nets ?t) \<inter> waddrs F4 (sample_nets ?s) = {}"
    using iffD1 [OF conflict_free_iff [where nets = sample_nets, OF ok ok'] v] same by (meson list.set_intros(1))
  then have "text_addrs F4 ''10.0.4.0/24'' \<inter> text_addrs F4 ''10.0.3.7/24'' = {}" unfolding w waddrs_one t .
  then show ?thesis by (intro conjI v v2)
qed

section \<open>Pods\<close>

lemma mget0_in: "mget0 m k \<noteq> [] \<Longrightarrow> (k, mget0 m k) \<in> set m"
  by (rule map_of_SomeD, erule mget0_nonempty)

text \<open>C26.
  The annotations of an accepted pod are consistent: a static address lies in the network written
  beside it and has its family, an address family that is asked for is the one of the static
  address, the MAC address is one, and every rate and burst is a number that is not negative.\<close>

theorem accepted_pod_consistent:
  assumes v: "ValidatePodNetwork ann = []" and ip: "mget0 ann IPAddressAnnotation = ip_string a" "ipok F a"
    and net: "mget0 ann CidrAnnotation = net_string net" "net_ok G n net"
  shows "F = G \<and> ipv a \<in> netset G n net \<and>
    (mget0 ann IPFamilyAnnotation \<noteq> [] \<longrightarrow> NormalizeIPFamily (mget0 ann IPFamilyAnnotation) = fproto F) \<and>
    (mget0 ann MacAddressAnnotation \<noteq> [] \<longrightarrow> ParseMAC_ok (mget0 ann MacAddressAnnotation)) \<and>
    (\<forall>k x. (k, x) \<in> set ann \<and> x \<noteq> [] \<and> (\<exists>s\<in>set bandwidthSuffixes. suffix s k) \<longrightarrow> snd (Atoi_val x) \<and> 0 \<le> fst (Atoi_val x))"
proof -
  have ne: "ip_string a \<noteq> []" "net_string net \<noteq> []" using text_nonempty net(2) ip(2) by blast+
  have sp: "split_char CHR '','' (ip_string a) = [ip_string a]" using ip_string_no_comma [OF ipok_valid [OF ip(2)]] by (rule split_char_none)
  have fam: "\<forall>x\<in>set ann. family_errors ann x = []" and adr: "address_errors (net_string net) (ip_string a) = []"
    and mac: "mget0 ann MacAddressAnnotation \<noteq> [] \<longrightarrow> ParseMAC_ok (mget0 ann MacAddressAnnotation)"
    and bw: "\<forall>x\<in>set ann. bandwidth_errors x = []"
    using v ne(1) sp unfolding ValidatePodNetwork_def Let_def ip(1) net(1) by (auto split: if_splits)
  have "CIDRContainIP (net_string net) (ip_string a)" using adr ne(2) by (auto simp: address_errors_def split: if_splits)
  then have c: "F = G" "ipv a \<in> netset G n net" using CIDRContainIP_net [OF net(2) ip(2)] by auto
  have f: "NormalizeIPFamily x = fproto F" if x: "mget0 ann IPFamilyAnnotation = x" "x \<noteq> []" for x
  proof -
    have "(IPFamilyAnnotation, x) \<in> set ann" "(IPAddressAnnotation, ip_string a) \<in> set ann"
      using mget0_in [of ann IPFamilyAnnotation] mget0_in [of ann IPAddressAnnotation] x ip(1) ne(1) by auto
    then have e: "family_errors ann (IPFamilyAnnotation, x) = []" and i: "ip_string a \<in> set (ipAddressAnnotationsForIPFamily ann IPFamilyAnnotation)"
      using fam ne(1) by (auto simp: ipAddressAnnotationsForIPFamily_def ipAddressAnnotationKeysForIPFamily_def
          ipAddressAnnotationKeyForIPFamily_def Let_def intro!: image_eqI [where x = "(IPAddressAnnotation, ip_string a)"])
    have "CheckProtocol (ip_string a) = NormalizeIPFamily x"
    proof (rule ccontr)
      assume "CheckProtocol (ip_string a) \<noteq> NormalizeIPFamily x"
      then have "family_errors ann (IPFamilyAnnotation, x) \<noteq> []"
        using i x(2) sp by (auto simp: family_errors_def isIPFamilyAnnotationKey_def intro!: bexI [of _ "ip_string a"])
      then show False using e by simp
    qed
    then show ?thesis using CheckProtocol_ip [OF ip(2)] by simp
  qed
  have "snd (Atoi_val x) \<and> 0 \<le> fst (Atoi_val x)" if "(k, x) \<in> set ann" "x \<noteq> []" "\<exists>s\<in>set bandwidthSuffixes. suffix s k" for k x
  proof -
    have "bandwidth_errors (k, x) = []" using bw that(1) by blast
    then show ?thesis using that(2,3) by (cases "Atoi_val x") (auto simp: bandwidth_errors_def list_ex_iff split: if_splits)
  qed
  then show ?thesis using c f mac by blast
qed

theorem accepted_pod_consistent_witness:
  "ValidatePodNetwork [(IPAddressAnnotation, ''10.0.0.3''), (CidrAnnotation, ''10.0.0.0/29''), (IPFamilyAnnotation, ''ipv4''),
     (''ovn.kubernetes.io/ingress_rate'', ''10'')] = [] \<and> ipv [10,0,0,3] \<in> netset F4 29 sample_net"
proof -
  let ?ann = "[(IPAddressAnnotation, ''10.0.0.3''), (CidrAnnotation, ''10.0.0.0/29''), (IPFamilyAnnotation, ''ipv4''), (''ovn.kubernetes.io/ingress_rate'', ''10'')]"
  have v: "ValidatePodNetwork ?ann = []" by code_simp
  have t: "mget0 ?ann IPAddressAnnotation = ip_string [10,0,0,3]" "mget0 ?ann CidrAnnotation = net_string sample_net" by code_simp+
  have a: "ipok F4 [10,0,0,3]" by simp
  have n: "net_ok F4 29 sample_net" using sample_fit by (simp add: net_fit_def)
  show ?thesis using accepted_pod_consistent [OF v t(1) a t(2) n] v by simp
qed

end
