(* ===== verification/SubnetFormatProps.thy ===== *)
theory SubnetFormatProps
  imports SubnetFormat ValidateProps SubnetProps
begin

text \<open>
  What formatting achieves: the excluded entries become disjoint ranges with the same addresses, the
  gateways join them, the allocator starts from the result with its gateways reserved, and formatting
  again changes nothing. The last section has inputs the controller does not handle well.
\<close>

section \<open>Gateways\<close>













section \<open>Texts as entries\<close>

lemma texts_entries: "texts_ok ts \<Longrightarrow> \<exists>es. ts = map etext es \<and> (\<forall>e\<in>set es. span e)"
proof (induction ts)
  case (Cons t ts)
  then obtain e es where "span e" "t = etext e" "ts = map etext es" "\<forall>e\<in>set es. span e" by (auto simp: texts_ok_def)
  then show ?case by (intro exI [of _ "e # es"]) auto
qed simp

lemma entries_texts: "\<forall>e\<in>set es. span e \<Longrightarrow> texts_ok (map etext es)"
  unfolding texts_ok_def by (metis (mono_tags, lifting) imageE list.set_map)

lemma fam_num: "ipok F a \<Longrightarrow> ipok G b \<Longrightarrow> x \<in> {ipv a..ipv b} \<Longrightarrow> F = G \<Longrightarrow> x \<in> {ipmin H..ipmax H} \<longleftrightarrow> F = H"
  using ipok_bounds [of F a] ipok_bounds [of G b] by (cases F; cases H) (auto simp: v4base_def)

lemma eset_tcover: "\<forall>e\<in>set es. span e \<Longrightarrow> eset F es = tcover (map etext es) \<inter> {ipmin F..ipmax F}"
proof (induction es)
  case (Cons e es)
  obtain r G a b where e: "e = (r, G, a, b)" by (cases e)
  then have s: "span e" "ipok G a" "ipok G b" using Cons.prems by (auto simp: span_def)
  have "rset (entry_range (etext e)) = {ipv a..ipv b}" using entry_range_etext(1) [OF s(1)] by (simp add: e erange_def)
  then have "x \<in> addrs F e \<longleftrightarrow> x \<in> rset (entry_range (etext e)) \<and> x \<in> {ipmin F..ipmax F}" for x
    using fam_num [OF s(2,3), of x F] by (cases "ipv a \<le> x \<and> x \<le> ipv b") (auto simp: e)
  then have "addrs F e = rset (entry_range (etext e)) \<inter> {ipmin F..ipmax F}" by blast
  then show ?case using Cons by (auto simp: tcover_def)
qed (simp add: tcover_def)


section \<open>The networks and gateways of a subnet\<close>














section \<open>Completing a specification\<close>





section \<open>Properties\<close>

lemma tapart_entries:
  assumes t: "tapart (map etext es)" "\<forall>e\<in>set es. span e" and e: "e \<in> set es" "f \<in> set es" "etext e \<noteq> etext f"
  shows "addrs F e \<inter> addrs F f = {}"
proof -
  have "rset (erange e) \<inter> rset (erange f) = {}"
    using t e entry_range_etext(1) unfolding tapart_def by (metis (no_types, lifting) image_eqI list.set_map)
  then show ?thesis by (cases e; cases f) (auto simp: erange_def)
qed

text \<open>C19.
  The excluded addresses of a subnet are brought into a normal form: whatever the orders in which
  the loops visit the map they change, the new entries are ranges in order that hold exactly the
  addresses of the old ones, no two of them share an address, and formatting them again, in any
  order, does not change them.\<close>

theorem excluded_ranges_merged:
  assumes es: "spExcludeIps s = map etext es" "\<forall>e\<in>set es. span e" and ord: "orders_ok ord (spExcludeIps s)"
  shows "\<exists>es'. formatExcludeIPRanges ord s = s\<lparr>spExcludeIps := map etext es'\<rparr> \<and> (\<forall>e\<in>set es'. span e) \<and>
    (\<forall>F. eset F es' = eset F es) \<and> sorted_wrt str_le (map etext es') \<and> distinct (map etext es') \<and>
    (\<forall>e\<in>set es'. \<forall>f\<in>set es'. \<forall>F. etext e \<noteq> etext f \<longrightarrow> addrs F e \<inter> addrs F f = {}) \<and>
    (\<forall>ord'. formatExcludeIPRanges ord' (s\<lparr>spExcludeIps := map etext es'\<rparr>) = s\<lparr>spExcludeIps := map etext es'\<rparr>)"
proof -
  note n = normal_entries_spec [OF entries_texts [OF es(2), folded es(1)] ord]
  obtain es' where es': "normal_entries ord (spExcludeIps s) = map etext es'" "\<forall>e\<in>set es'. span e"
    using texts_entries [OF normal_texts_ok [OF n(1)]] by blast
  have "eset F es' = eset F es" for F using n(2) unfolding eset_tcover [OF es'(2)] eset_tcover [OF es(2)] es'(1) unfolding es(1) by simp
  moreover have "\<forall>e\<in>set es'. \<forall>f\<in>set es'. \<forall>F. etext e \<noteq> etext f \<longrightarrow> addrs F e \<inter> addrs F f = {}"
    using tapart_entries [OF _ es'(2)] n(1) unfolding es'(1) normal_texts_def by blast
  moreover have "\<forall>ord'. formatExcludeIPRanges ord' (s\<lparr>spExcludeIps := map etext es'\<rparr>) = s\<lparr>spExcludeIps := map etext es'\<rparr>"
    using normal_entries_id [OF n(1)] by (simp add: es'(1) formatExcludeIPRanges_eq)
  moreover have "formatExcludeIPRanges ord s = s\<lparr>spExcludeIps := map etext es'\<rparr>" by (simp add: formatExcludeIPRanges_eq es'(1))
  ultimately show ?thesis using es'(2) n(1) unfolding es'(1) normal_texts_def by blast
qed



section \<open>Formatting settles\<close>


definition dProvider :: "string \<Rightarrow> string" where
  "dProvider p = (if p = [] then OvnProvider else p)"





lemma dProvider_id [simp]: "dProvider (dProvider p) = dProvider p"
  by (simp add: dProvider_def OvnProvider_def)











definition sample_obj :: SubnetObj where
  "sample_obj = \<lparr>spName = ''net1'', spVpc = [], spProtocol = [], spCIDRBlock = ''10.0.0.3/29'', spGateway = [],
     spExcludeIps = [''10.0.0.4..10.0.0.5'', ''10.0.0.3..10.0.0.4''], spGatewayType = [], spNatOutgoing = True,
     spExternalEgressGateway = [], spPolicyRoutingTableID = 0, spMtu = 1400, spAllowSubnets = [], spVlan = [], spVips = [],
     spLogicalGateway = False, spNatOutgoingPolicyRules = [], spU2OInterconnectionIP = [], spU2OInterconnection = False,
     spOverlayOnlyRouting = False, spProvider = [], spDefault = False, spEnableLb = None\<rparr>"

definition sample_entries :: "entry list" where
  "sample_entries = [(True, F4, [10,0,0,4], [10,0,0,5]), (True, F4, [10,0,0,3], [10,0,0,4])]"

definition sample_orders :: orders where
  "sample_orders = (spExcludeIps sample_obj, \<lambda>_. rev (spExcludeIps sample_obj))"



lemma sample_entries: "spExcludeIps sample_obj = map etext sample_entries" "\<forall>e\<in>set sample_entries. span e"
  by code_simp+

lemma sample_orders: "orders_ok sample_orders (spExcludeIps sample_obj)"
  by (simp add: orders_ok_def sample_orders_def)


theorem excluded_ranges_merged_witness:
  "spExcludeIps sample_obj = map etext sample_entries \<and> orders_ok sample_orders (spExcludeIps sample_obj) \<and>
   formatExcludeIPRanges sample_orders sample_obj = sample_obj\<lparr>spExcludeIps := [''10.0.0.3..10.0.0.5'']\<rparr> \<and>
   (\<exists>es'. spExcludeIps (formatExcludeIPRanges sample_orders sample_obj) = map etext es' \<and> eset F4 es' = eset F4 sample_entries)"
proof -
  have "formatExcludeIPRanges sample_orders sample_obj = sample_obj\<lparr>spExcludeIps := [''10.0.0.3..10.0.0.5'']\<rparr>" by code_simp
  moreover obtain es' where "formatExcludeIPRanges sample_orders sample_obj = sample_obj\<lparr>spExcludeIps := map etext es'\<rparr>"
    "eset F4 es' = eset F4 sample_entries"
    using excluded_ranges_merged [OF sample_entries sample_orders] by blast
  moreover from this have "spExcludeIps (formatExcludeIPRanges sample_orders sample_obj) = map etext es'" by simp
  ultimately show ?thesis using sample_entries(1) sample_orders by blast
qed



section \<open>Formatting at the edges\<close>

text \<open>
  A subnet with two networks and a gateway of the second only: \<open>AppendGwByCidr\<close> repeats the given
  gateway, the repeated text has no protocol, and every further pass adds one more gateway.
\<close>

lemma append_gateway_repeats:
  "AppendGwByCidr ''fd00::5'' ''10.0.0.0/24,fd00::/64'' = Inr ''10.0.0.1,fd00::5,fd00::5''"
  by code_simp

lemma repeated_gateway_grows:
  "CheckProtocol ''10.0.0.1,fd00::5,fd00::5'' = [] \<and>
   AppendGwByCidr ''10.0.0.1,fd00::5,fd00::5'' ''10.0.0.0/24,fd00::/64'' = Inr ''fd00::1,10.0.0.1,fd00::5,fd00::5'' \<and>
   AppendGwByCidr ''fd00::1,10.0.0.1,fd00::5,fd00::5'' ''10.0.0.0/24,fd00::/64'' = Inr ''fd00::1,fd00::1,10.0.0.1,fd00::5,fd00::5''"
  by code_simp

text \<open>An entry that is no address is replaced by the text of nil before the validation sees it.\<close>

lemma invalid_entry_rewritten:
  "spExcludeIps (formatExcludeIPRanges ([''10.0.0''], \<lambda>_. [''10.0.0'']) (sample_obj\<lparr>spExcludeIps := [''10.0.0'']\<rparr>)) = [''<nil>'']"
  by code_simp

text \<open>The protocol is set after the gateways: the gateway of the second family is missing after the first pass.\<close>

lemma gateway_by_old_protocol:
  "map_sum id (\<lambda>s. (spGateway s, spProtocol s)) (formatAddress sample_orders (sample_obj\<lparr>spCIDRBlock := ''10.0.0.0/24,fd00::/64'', spGateway := ''10.0.0.9''\<rparr>))
     = Inr (''10.0.0.9'', ''Dual'')"
  by code_simp

end
