(* ===== verification/OvsMatch.thy ===== *)
theory OvsMatch
  imports UtilText
begin

text \<open>
  The match expressions of pkg/ovs/util.go. A match is a tree of conjunctions, disjunctions, groups
  and comparisons; \<open>Match\<close> writes it as text for the OVN database. The second half says what such a
  text means: \<open>read_match\<close> reads a text by its operators, \<open>||\<close> weaker than \<open>&&\<close>, and by its parentheses,
  down to the comparisons, whose truth for a packet is a parameter. For every match whose
  conjunctions have no bare disjunction below them, the text has the meaning of the tree.
\<close>

section \<open>The code\<close>

datatype ACLMatch =
    AndACLMatch "ACLMatch list"
  | OrACLMatch "ACLMatch list"
  | aclMatch string string string string
  | groupACLMatch ACLMatch

definition NewACLMatch :: "string \<Rightarrow> string \<Rightarrow> string \<Rightarrow> string \<Rightarrow> ACLMatch" where
  "NewACLMatch key effect value maxValue = aclMatch key effect value maxValue"

definition atom_text :: "string \<Rightarrow> string \<Rightarrow> string \<Rightarrow> string \<Rightarrow> string" where
  "atom_text key effect value maxValue =
     (if effect = [] \<or> value = [] then key
      else if maxValue = [] then key @ '' '' @ effect @ '' '' @ value
      else value @ '' '' @ effect @ '' '' @ key @ '' '' @ effect @ '' '' @ maxValue)"

definition or_part :: "string \<Rightarrow> string" where
  "or_part match = (if str_contains match ''&&'' \<or> str_contains match ''||'' then ''('' @ match @ '')'' else match)"

fun Match :: "ACLMatch \<Rightarrow> error + string" and Match_all :: "ACLMatch list \<Rightarrow> error + string list" where
  "Match (AndACLMatch ms) =
     (case Match_all ms of Inl err \<Rightarrow> Inl err | Inr matches \<Rightarrow> Inr (join '' && '' matches))"
| "Match (OrACLMatch ms) =
     (case Match_all ms of Inl err \<Rightarrow> Inl err | Inr matches \<Rightarrow> Inr (join '' || '' (map or_part matches)))"
| "Match (aclMatch key effect value maxValue) =
     (if key = [] then Inl (ErrFmt ''acl rule key is required'') else Inr (atom_text key effect value maxValue))"
| "Match (groupACLMatch m) = (case Match m of Inl err \<Rightarrow> Inl err | Inr t \<Rightarrow> Inr (''('' @ t @ '')''))"
| "Match_all [] = Inr []"
| "Match_all (m # ms) =
     (case Match m of
        Inl err \<Rightarrow> Inl err
      | Inr t \<Rightarrow> (case Match_all ms of Inl err \<Rightarrow> Inl err | Inr ts \<Rightarrow> Inr (t # ts)))"

definition ACLMatch_String :: "ACLMatch \<Rightarrow> string" where
  "ACLMatch_String m = (case Match m of Inl _ \<Rightarrow> [] | Inr t \<Rightarrow> t)"

section \<open>The meaning of a match\<close>

text \<open>\<open>at\<close> says for a packet which comparisons hold, given their text.\<close>

fun holds :: "(string \<Rightarrow> bool) \<Rightarrow> ACLMatch \<Rightarrow> bool" where
  "holds at (AndACLMatch ms) = list_all (holds at) ms"
| "holds at (OrACLMatch ms) = list_ex (holds at) ms"
| "holds at (aclMatch key effect value maxValue) = at (atom_text key effect value maxValue)"
| "holds at (groupACLMatch m) = holds at m"

section \<open>Reading a text\<close>

definition deeper :: "nat \<Rightarrow> char \<Rightarrow> nat" where
  "deeper d c = (if c = CHR ''('' then d + 1 else if c = CHR '')'' then d - 1 else d)"

fun cons_hd :: "'a \<Rightarrow> 'a list list \<Rightarrow> 'a list list" where
  "cons_hd c [] = [[c]]"
| "cons_hd c (x # xs) = (c # x) # xs"

text \<open>The parts of a text between the occurrences of an operator outside parentheses.\<close>

function split_top :: "string \<Rightarrow> nat \<Rightarrow> string \<Rightarrow> string list" where
  "split_top opr d [] = [[]]"
| "split_top opr d (c # s) =
     (if d = 0 \<and> opr \<noteq> [] \<and> prefix opr (c # s) then [] # split_top opr 0 (drop (length opr) (c # s))
      else cons_hd c (split_top opr (deeper d c) s))"
  by pat_completeness auto
termination
  by (relation "measure (\<lambda>(opr, d, s). length s)") (auto simp: prefix_def)

lemma split_top_nonempty [simp]: "split_top opr d s \<noteq> []"
proof (induction opr d s rule: split_top.induct)
  case (2 opr d c s)
  then show ?case by (cases "split_top opr (deeper d c) s") auto
qed simp

lemma split_top_le: "p \<in> set (split_top opr d s) \<Longrightarrow> length p \<le> length s"
proof (induction opr d s arbitrary: p rule: split_top.induct)
  case (2 opr d c s)
  show ?case
  proof (cases "d = 0 \<and> opr \<noteq> [] \<and> prefix opr (c # s)")
    case True
    then have "p = [] \<or> p \<in> set (split_top opr 0 (drop (length opr) (c # s)))" using 2 by simp
    then show ?thesis using 2(1) [OF True] by fastforce
  next
    case False
    have "p \<in> set (cons_hd c (split_top opr (deeper d c) s))" using 2(3) unfolding split_top.simps if_not_P [OF False] .
    then show ?thesis using 2(2) [OF False] by (cases "split_top opr (deeper d c) s") force+
  qed
qed simp

lemma split_top_shorter: "p \<in> set (split_top opr d s) \<Longrightarrow> length (split_top opr d s) > 1 \<Longrightarrow> length p < length s"
proof (induction opr d s arbitrary: p rule: split_top.induct)
  case (2 opr d c s)
  show ?case
  proof (cases "d = 0 \<and> opr \<noteq> [] \<and> prefix opr (c # s)")
    case True
    then have "p = [] \<or> p \<in> set (split_top opr 0 (drop (length opr) (c # s)))" using 2 by simp
    then have "p = [] \<or> length p \<le> length (drop (length opr) (c # s))" using split_top_le by blast
    then show ?thesis using True by (cases opr) auto
  next
    case False
    have "p \<in> set (cons_hd c (split_top opr (deeper d c) s))" using 2(3) unfolding split_top.simps if_not_P [OF False] .
    moreover have "length (split_top opr (deeper d c) s) > 1"
      using 2(4) unfolding split_top.simps if_not_P [OF False] by (cases "split_top opr (deeper d c) s") auto
    ultimately show ?thesis using 2(2) [OF False] by (cases "split_top opr (deeper d c) s") force+
  qed
qed simp

function read_match :: "(string \<Rightarrow> bool) \<Rightarrow> string \<Rightarrow> bool" where
  "read_match at s =
     (let alts = split_top '' || '' 0 s; parts = split_top '' && '' 0 s in
      if length alts > 1 then list_ex (read_match at) alts
      else if length parts > 1 then list_all (read_match at) parts
      else if length s > 1 \<and> hd s = CHR ''('' \<and> last s = CHR '')'' then read_match at (butlast (tl s))
      else at s)"
  by pat_completeness auto
termination
  by (relation "measure (\<lambda>(at, s). length s)") (auto dest: split_top_shorter)

declare read_match.simps [simp del]

section \<open>Texts and their parts\<close>

text \<open>The two operators, and the characters a comparison does not have.\<close>

definition operators :: "string set" where
  "operators = {'' && '', '' || ''}"

definition reserved :: "char set" where
  "reserved = {CHR ''('', CHR '')'', CHR ''&'', CHR ''|''}"

definition clean :: "string \<Rightarrow> bool" where
  "clean t = (t \<noteq> [] \<and> set t \<inter> reserved = {} \<and> hd t \<noteq> CHR '' '' \<and> last t \<noteq> CHR '' '')"

text \<open>
  At no position of \<open>t\<close> outside parentheses does the operator begin, when \<open>t\<close> is followed by \<open>rest\<close>;
  the parentheses of \<open>t\<close> match.
\<close>

fun opfree :: "string \<Rightarrow> nat \<Rightarrow> string \<Rightarrow> string \<Rightarrow> bool" where
  "opfree opr d [] rest = True"
| "opfree opr d (c # t) rest = (\<not> (d = 0 \<and> prefix opr (c # t @ rest)) \<and> opfree opr (deeper d c) t rest)"

fun walk :: "nat \<Rightarrow> string \<Rightarrow> nat option" where
  "walk d [] = Some d"
| "walk d (c # t) = (if c = CHR '')'' \<and> d = 0 then None else walk (deeper d c) t)"

fun prepend :: "'a list \<Rightarrow> 'a list list \<Rightarrow> 'a list list" where
  "prepend t [] = [t]"
| "prepend t (x # xs) = (t @ x) # xs"

lemma cons_hd_prepend: "xs \<noteq> [] \<Longrightarrow> cons_hd c (prepend t xs) = prepend (c # t) xs"
  by (cases xs) auto

lemma split_top_skip:
  "opfree opr d t rest \<Longrightarrow> walk d t = Some e \<Longrightarrow> split_top opr d (t @ rest) = prepend t (split_top opr e rest)"
proof (induction t arbitrary: d)
  case Nil
  then show ?case by (cases "split_top opr e rest") auto
next
  case (Cons c t)
  then have "split_top opr (deeper d c) (t @ rest) = prepend t (split_top opr e rest)" by (auto split: if_splits)
  then show ?case using Cons.prems(1) by (auto simp: cons_hd_prepend)
qed

lemma walk_append: "walk d (s @ t) = (case walk d s of None \<Rightarrow> None | Some e \<Rightarrow> walk e t)"
  by (induction s arbitrary: d) auto

lemma walk_up: "walk d t = Some e \<Longrightarrow> walk (d + k) t = Some (e + k)"
proof (induction t arbitrary: d)
  case (Cons c t)
  then have "walk (deeper d c) t = Some e" "\<not> (c = CHR '')'' \<and> d = 0)" by (auto split: if_splits)
  moreover from this have "deeper (d + k) c = deeper d c + k" by (auto simp: deeper_def)
  ultimately show ?case using Cons.IH [of "deeper d c"] by simp
qed simp

lemma opfree_append: "walk d s = Some e \<Longrightarrow> opfree opr d (s @ t) rest \<longleftrightarrow> opfree opr d s (t @ rest) \<and> opfree opr e t rest"
  by (induction s arbitrary: d) (auto split: if_splits)

lemma opfree_deep: "walk d t = Some e \<Longrightarrow> opfree opr (Suc d) t rest"
proof (induction t arbitrary: d)
  case (Cons c t)
  then have w: "walk (deeper d c) t = Some e" "\<not> (c = CHR '')'' \<and> d = 0)" by (auto split: if_splits)
  then have "deeper (Suc d) c = Suc (deeper d c)" by (auto simp: deeper_def)
  then show ?case using Cons.IH w by simp
qed simp

text \<open>A part: neither operator begins in it, whatever follows.\<close>

definition part :: "string \<Rightarrow> bool" where
  "part t = (t \<noteq> [] \<and> hd t \<noteq> CHR '' '' \<and> hd t \<noteq> CHR ''&'' \<and> hd t \<noteq> CHR ''|'' \<and>
     walk 0 t = Some 0 \<and> (\<forall>opr\<in>operators. \<forall>rest. opfree opr 0 t rest))"

lemma walk_plain: "set t \<inter> reserved = {} \<Longrightarrow> walk d t = Some d"
  by (induction t) (auto simp: reserved_def deeper_def)

lemma opfree_plain:
  assumes "set t \<inter> reserved = {}" "t \<noteq> [] \<Longrightarrow> last t \<noteq> CHR '' ''" "opr \<in> operators"
  shows "opfree opr 0 t rest"
  using assms
proof (induction t)
  case (Cons c t)
  have "deeper 0 c = 0" using Cons.prems(1) by (auto simp: reserved_def deeper_def)
  moreover have "opfree opr 0 t rest" using Cons by (cases "t = []") auto
  moreover have "\<not> prefix opr (c # t @ rest)"
    using Cons.prems by (cases t) (auto simp: operators_def reserved_def)
  ultimately show ?case by simp
qed simp

lemma clean_hd: "clean t \<Longrightarrow> hd t \<notin> reserved"
  using hd_in_set [of t] unfolding clean_def by blast

lemma part_clean: "clean t \<Longrightarrow> part t"
  using walk_plain [of t 0] opfree_plain [of t] clean_hd [of t] unfolding part_def clean_def reserved_def
  by simp blast

lemma part_group:
  assumes "walk 0 t = Some 0"
  shows "part (''('' @ t @ '')'')"
proof -
  have w: "walk 1 (t @ '')'') = Some 0" using walk_up [OF assms, of 1] by (simp add: walk_append deeper_def)
  have "opfree opr 0 (''('' @ t @ '')'') rest" if "opr \<in> operators" for opr rest
  proof -
    have "walk 1 t = Some 1" using walk_up [OF assms, of 1] by simp
    then have "opfree opr 1 (t @ '')'') rest"
      using opfree_deep [OF assms] opfree_append [of 1 t 1] by simp
    then show ?thesis using that by (auto simp: deeper_def operators_def)
  qed
  then show ?thesis using w by (auto simp: part_def deeper_def)
qed

section \<open>Joined parts\<close>

lemma walk_join: "\<forall>p\<in>set ps. walk 0 p = Some 0 \<Longrightarrow> opr \<in> operators \<Longrightarrow> walk 0 (join opr ps) = Some 0"
proof (induction opr ps rule: join.induct)
  case (3 sep x y zs)
  then have "walk 0 sep = Some 0" by (auto simp: operators_def deeper_def)
  with 3 show ?case by (simp add: walk_append)
qed auto

lemma split_join:
  "ps \<noteq> [] \<Longrightarrow> \<forall>p\<in>set ps. part p \<Longrightarrow> opr \<in> operators \<Longrightarrow> split_top opr 0 (join opr ps) = ps"
proof (induction opr ps rule: join.induct)
  case (2 sep x)
  then have "split_top sep 0 (x @ []) = prepend x (split_top sep 0 [])" by (intro split_top_skip) (auto simp: part_def)
  then show ?case by simp
next
  case (3 sep x y zs)
  have "split_top sep 0 (x @ sep @ join sep (y # zs)) = prepend x (split_top sep 0 (sep @ join sep (y # zs)))"
    using 3 by (intro split_top_skip) (auto simp: part_def)
  moreover have "split_top sep 0 (sep @ join sep (y # zs)) = [] # split_top sep 0 (join sep (y # zs))"
    using 3(4) by (auto simp: operators_def)
  ultimately show ?case using 3 by simp
qed simp

lemma opfree_join:
  "ps \<noteq> [] \<Longrightarrow> \<forall>p\<in>set ps. part p \<Longrightarrow> opr \<in> operators \<Longrightarrow> sep \<in> operators \<Longrightarrow> opr \<noteq> sep \<Longrightarrow> opfree opr 0 (join sep ps) rest"
proof (induction sep ps rule: join.induct)
  case (2 sep x)
  then show ?case by (simp add: part_def)
next
  case (3 sep x y zs)
  have x: "walk 0 x = Some 0" "opfree opr 0 x r" for r using 3 by (auto simp: part_def)
  have y: "opfree opr 0 (join sep (y # zs)) rest" using 3 by simp
  obtain c s where j: "join sep (y # zs) = c # s" "c \<noteq> CHR ''&''" "c \<noteq> CHR ''|''" "c \<noteq> CHR '' ''"
  proof -
    have "part y" using 3 by simp
    then obtain c y' where "y = c # y'" "c \<noteq> CHR ''&''" "c \<noteq> CHR ''|''" "c \<noteq> CHR '' ''" by (cases y) (auto simp: part_def)
    then show thesis using that by (cases zs) auto
  qed
  have "walk 0 sep = Some 0" using 3 by (auto simp: operators_def deeper_def)
  moreover have "opfree opr 0 sep (join sep (y # zs) @ rest)"
    using 3(4,5,6) j by (auto simp: operators_def deeper_def)
  ultimately have "opfree opr 0 (sep @ join sep (y # zs)) rest" using y opfree_append by blast
  then show ?case using x opfree_append [OF x(1)] by simp
qed simp

lemma split_other:
  assumes "ps \<noteq> []" "\<forall>p\<in>set ps. part p" "opr \<in> operators" "sep \<in> operators" "opr \<noteq> sep"
  shows "split_top opr 0 (join sep ps) = [join sep ps]"
proof -
  have "\<forall>p\<in>set ps. walk 0 p = Some 0" using assms by (auto simp: part_def)
  then have "split_top opr 0 (join sep ps @ []) = prepend (join sep ps) (split_top opr 0 [])"
    using walk_join assms opfree_join by (intro split_top_skip) auto
  then show ?thesis by simp
qed

section \<open>Reading joined parts\<close>

lemma read_and:
  assumes "ps \<noteq> []" "\<forall>p\<in>set ps. part p"
  shows "read_match at (join '' && '' ps) = (\<forall>p\<in>set ps. read_match at p)"
proof (cases "length ps > 1")
  case True
  then show ?thesis
    using split_join [OF assms, of "'' && ''"] split_other [OF assms, of "'' || ''" "'' && ''"]
    by (subst read_match.simps) (simp add: operators_def list_all_iff)
next
  case False
  then obtain p where "ps = [p]" using assms(1) by (cases ps) auto
  then show ?thesis by simp
qed

lemma read_or:
  assumes "ps \<noteq> []" "\<forall>p\<in>set ps. part p"
  shows "read_match at (join '' || '' ps) = (\<exists>p\<in>set ps. read_match at p)"
proof (cases "length ps > 1")
  case True
  then show ?thesis
    using split_join [OF assms, of "'' || ''"]
    by (subst read_match.simps) (simp add: operators_def list_ex_iff)
next
  case False
  then obtain p where "ps = [p]" using assms(1) by (cases ps) auto
  then show ?thesis by simp
qed

lemma split_part: "part p \<Longrightarrow> opr \<in> operators \<Longrightarrow> split_top opr 0 p = [p]"
  using split_join [of "[p]" opr] by simp

lemma read_group:
  assumes "walk 0 t = Some 0"
  shows "read_match at (''('' @ t @ '')'') = read_match at t"
proof -
  have "split_top '' || '' 0 (''('' @ t @ '')'') = [''('' @ t @ '')'']" "split_top '' && '' 0 (''('' @ t @ '')'') = [''('' @ t @ '')'']"
    by (rule split_part [OF part_group [OF assms]]; simp add: operators_def)+
  then show ?thesis by (subst read_match.simps) (simp add: butlast_append)
qed

lemma read_atom:
  assumes "clean t"
  shows "read_match at t = at t"
proof -
  have "split_top '' || '' 0 t = [t]" "split_top '' && '' 0 t = [t]"
    by (rule split_part [OF part_clean [OF assms]]; simp add: operators_def)+
  moreover have "hd t \<noteq> CHR ''(''" using clean_hd [OF assms] by (simp add: reserved_def)
  ultimately show ?thesis by (subst read_match.simps) simp
qed

section \<open>The text has the meaning of the match\<close>

fun wide :: "ACLMatch \<Rightarrow> bool" where
  "wide (OrACLMatch ms) = (length ms > 1)"
| "wide _ = False"

text \<open>No conjunction has a disjunction of several matches directly below it, and the comparisons are plain texts.\<close>

fun wf_match :: "ACLMatch \<Rightarrow> bool" where
  "wf_match (AndACLMatch ms) = (ms \<noteq> [] \<and> list_all wf_match ms \<and> list_all (\<lambda>m. \<not> wide m) ms)"
| "wf_match (OrACLMatch ms) = (ms \<noteq> [] \<and> list_all wf_match ms)"
| "wf_match (aclMatch key effect value maxValue) = (key \<noteq> [] \<and> clean (atom_text key effect value maxValue))"
| "wf_match (groupACLMatch m) = wf_match m"

lemma ex_list_all2: "\<forall>x\<in>set xs. \<exists>y. R x y \<Longrightarrow> \<exists>ys. list_all2 R xs ys"
proof (induction xs)
  case (Cons x xs)
  then obtain y ys where "R x y" "list_all2 R xs ys" by auto
  then show ?case by (intro exI [of _ "y # ys"]) simp
qed (auto intro: exI [of _ "[]"])

lemma join_concat: "\<forall>ps\<in>set pss. ps \<noteq> [] \<Longrightarrow> join sep (map (join sep) pss) = join sep (concat pss)"
proof (induction pss)
  case (Cons ps pss)
  have j: "join sep (xs @ ys) = join sep xs @ sep @ join sep ys" if "xs \<noteq> []" "ys \<noteq> []" for xs ys
    using that
  proof (induction xs)
    case (Cons x xs)
    then show ?case by (cases "xs = []") (simp_all add: join_Cons)
  qed simp
  show ?case
  proof (cases "pss = []")
    case False
    then obtain p where "p \<in> set pss" by (cases pss) auto
    then have "concat pss \<noteq> []" using Cons.prems by auto
    then show ?thesis using Cons False by (simp add: join_Cons j)
  qed simp
qed simp

lemma cut_append: "sep \<noteq> [] \<Longrightarrow> cut sep (a @ sep @ b) \<noteq> None"
proof (induction a)
  case Nil
  then show ?case by (cases sep) auto
qed auto

lemma contains_append: "sep \<noteq> [] \<Longrightarrow> str_contains (a @ sep @ b) sep"
  using cut_append by (simp add: str_contains_def)

text \<open>The shape of a text: parts joined by one of the operators.\<close>

definition shape :: "bool \<Rightarrow> string \<Rightarrow> string list \<Rightarrow> bool" where
  "shape w t ps = (ps \<noteq> [] \<and> (\<forall>p\<in>set ps. part p) \<and> t = join (if w then '' || '' else '' && '') ps)"

lemma shape_walk: "shape w t ps \<Longrightarrow> walk 0 t = Some 0"
  using walk_join [of ps "if w then '' || '' else '' && ''"] by (auto simp: shape_def part_def operators_def)

lemma shape_single: "part t \<Longrightarrow> shape False t [t]"
  by (simp add: shape_def)

lemma or_part_part:
  assumes "shape w t ps"
  shows "part (or_part t)" "read_match at (or_part t) = read_match at t"
proof -
  note w = shape_walk [OF assms]
  consider "or_part t = ''('' @ t @ '')''" | "or_part t = t" "\<not> str_contains t ''&&''" "\<not> str_contains t ''||''"
    unfolding or_part_def by (cases "str_contains t ''&&'' \<or> str_contains t ''||''") auto
  then have "part (or_part t) \<and> read_match at (or_part t) = read_match at t"
  proof cases
    case 1
    then show ?thesis using part_group [OF w] read_group [OF w] by simp
  next
    case 2
    have "length ps = 1"
    proof (rule ccontr)
      assume "length ps \<noteq> 1"
      then obtain x y zs where ps: "ps = x # y # zs" using assms by (cases ps; cases "tl ps") (auto simp: shape_def)
      show False
      proof (cases w)
        case True
        then have "t = (x @ '' '') @ ''||'' @ ('' '' @ join '' || '' (y # zs))" using assms ps by (simp add: shape_def)
        then show False using contains_append [of "''||''" "x @ '' ''"] 2(3) by simp
      next
        case False
        then have "t = (x @ '' '') @ ''&&'' @ ('' '' @ join '' && '' (y # zs))" using assms ps by (simp add: shape_def)
        then show False using contains_append [of "''&&''" "x @ '' ''"] 2(2) by simp
      qed
    qed
    then obtain p where "ps = [p]" by (cases ps) auto
    then show ?thesis using assms 2(1) by (simp add: shape_def)
  qed
  then show "part (or_part t)" "read_match at (or_part t) = read_match at t" by auto
qed

definition text_of :: "ACLMatch \<Rightarrow> string \<Rightarrow> bool" where
  "text_of m t = (Match m = Inr t \<and> (\<exists>ps. shape (wide m) t ps) \<and> (\<forall>at. read_match at t = holds at m))"

lemma Match_all_texts:
  "list_all2 text_of ms ts \<Longrightarrow> Match_all ms = Inr ts"
  by (induction ms ts rule: list_all2_induct) (auto simp: text_of_def)

lemma text_of_and:
  assumes ts: "list_all2 text_of ms ts" and ms: "ms \<noteq> []" "list_all (\<lambda>m. \<not> wide m) ms"
  shows "text_of (AndACLMatch ms) (join '' && '' ts)"
proof -
  have "\<forall>t\<in>set ts. \<exists>ps. shape False t ps"
    using ts ms(2) by (induction ms ts rule: list_all2_induct) (auto simp: text_of_def)
  from ex_list_all2 [OF this] obtain pss where pss: "list_all2 (shape False) ts pss" ..
  have ts_eq: "ts = map (join '' && '') pss" using pss by (induction ts pss rule: list_all2_induct) (auto simp: shape_def)
  have ne: "\<forall>ps\<in>set pss. ps \<noteq> []" and pt: "\<forall>p\<in>set (concat pss). part p"
    using pss by (induction ts pss rule: list_all2_induct) (auto simp: shape_def)
  have "pss \<noteq> []" using ms(1) ts pss by auto
  then have cne: "concat pss \<noteq> []" using ne by (cases pss) auto
  have j: "join '' && '' ts = join '' && '' (concat pss)" unfolding ts_eq by (rule join_concat [OF ne])
  have rd: "read_match at (join '' && '' ts) = (\<forall>t\<in>set ts. read_match at t)" for at
  proof -
    have "read_match at (join '' && '' ts) = (\<forall>ps\<in>set pss. \<forall>p\<in>set ps. read_match at p)"
      unfolding j using read_and [OF cne pt] by auto
    also have "\<dots> = (\<forall>ps\<in>set pss. read_match at (join '' && '' ps))" using read_and ne pt by auto
    finally show ?thesis by (simp add: ts_eq)
  qed
  have "(\<forall>t\<in>set ts. read_match at t) = list_all (holds at) ms" for at
    using ts by (induction ms ts rule: list_all2_induct) (auto simp: text_of_def)
  then show ?thesis
    using rd Match_all_texts [OF ts] exI [of "\<lambda>ps. shape False (join '' && '' ts) ps" "concat pss"] cne pt j
    unfolding text_of_def shape_def by simp
qed

lemma text_of_or:
  assumes ts: "list_all2 text_of ms ts" and ms: "ms \<noteq> []"
  shows "text_of (OrACLMatch ms) (join '' || '' (map or_part ts))"
proof -
  have pt: "\<forall>t\<in>set ts. part (or_part t) \<and> (\<forall>at. read_match at (or_part t) = read_match at t)"
    using ts or_part_part by (induction ms ts rule: list_all2_induct) (auto simp: text_of_def)
  have ne: "ts \<noteq> []" using ts ms by auto
  have len: "length ts = length ms" using ts by (simp add: list_all2_lengthD)
  have "read_match at (join '' || '' (map or_part ts)) = (\<exists>t\<in>set ts. read_match at t)" for at
    using read_or [of "map or_part ts" at] ne pt by auto
  moreover have "(\<exists>t\<in>set ts. read_match at t) = list_ex (holds at) ms" for at
    using ts by (induction ms ts rule: list_all2_induct) (auto simp: text_of_def)
  moreover have "\<exists>ps. shape (length ms > 1) (join '' || '' (map or_part ts)) ps"
  proof (cases "length ms > 1")
    case True
    then show ?thesis using ne pt by (intro exI [of _ "map or_part ts"]) (auto simp: shape_def)
  next
    case False
    then have "length ts = 1" using ne len by (cases ts) auto
    then obtain t where "ts = [t]" by (cases ts) auto
    then show ?thesis using False pt shape_single by auto
  qed
  ultimately show ?thesis using Match_all_texts [OF ts] by (simp add: text_of_def)
qed

lemma wf_text_of: "wf_match m \<Longrightarrow> \<exists>t. text_of m t"
proof (induction m)
  case (AndACLMatch ms)
  have "\<exists>ts. list_all2 text_of ms ts" using AndACLMatch by (intro ex_list_all2) (simp add: list_all_iff)
  then show ?case using text_of_and AndACLMatch.prems by auto
next
  case (OrACLMatch ms)
  have "\<exists>ts. list_all2 text_of ms ts" using OrACLMatch by (intro ex_list_all2) (auto simp: list_all_iff)
  then show ?case using text_of_or OrACLMatch.prems by auto
next
  case (aclMatch k e v w)
  then have "text_of (aclMatch k e v w) (atom_text k e v w)"
    using read_atom shape_single [OF part_clean] by (auto simp: text_of_def)
  then show ?case by blast
next
  case (groupACLMatch m)
  then obtain t ps where t: "text_of m t" "shape (wide m) t ps" by (auto simp: text_of_def)
  then have "text_of (groupACLMatch m) (''('' @ t @ '')'')"
    using read_group [OF shape_walk [OF t(2)]] shape_single [OF part_group [OF shape_walk [OF t(2)]]] by (auto simp: text_of_def)
  then show ?case by blast
qed

end
