(* ===== verification/OvnAcl.thy ===== *)
theory OvnAcl
  imports OvsMatch UtilNet
begin

text \<open>
  Access control lists in the OVN northbound database: pkg/ovs/ovn-nb-acl.go. The client works on a
  cache of the database, here the argument \<open>db\<close>, builds operations and sends them in one transaction. The
  server is a parameter: \<open>tx\<close> takes the operations and the database and returns the new database or an
  error. Creating rows and adding them to the column \<open>acls\<close> of a port group or a logical
  switch in one transaction is the operation \<open>OpAdd\<close>; a row is dropped by the server when the last
  reference to it goes, which is \<open>OpRemove\<close>.
\<close>

section \<open>Data\<close>

record ACL =
  aUUID :: nat
  aParentOf :: "string \<times> string"
  aAction :: string
  aDirection :: string
  aMatch :: string
  aPriority :: int
  aExternalIDs :: "(string, string) gomap"
  aTier :: int
  aName :: "string option"
  aLog :: bool
  aSeverity :: "string option"
  aMeter :: "string option"
  aOptions :: "(string, string) gomap"

text \<open>The cache: the rows of the table, the port groups and logical switches by type and name, whether a query fails, the external ids of the port groups, and the address sets with theirs.\<close>

record NbDb =
  nbACLs :: "ACL list"
  nbParents :: "(string \<times> string) list"
  nbErr :: bool
  nbGroupIDs :: "(string, (string, string) gomap) gomap"
  nbSets :: "(string, (string, string) gomap) gomap"

datatype NbOp =
    OpAdd string string ACL
  | OpRemove string string "nat list"
  | OpUpdate ACL
  | OpPortGroup string "(string, string) gomap"
  | OpAddressSet string "(string, string) gomap"

datatype ACLError = ACLErrorNotFound | ACLErrorDuplicated | ACLErrorDatabase | ACLErrorParent

type_synonym transact = "NbOp list \<Rightarrow> NbDb \<Rightarrow> error + NbDb"

definition ToLport :: string where "ToLport = ''to-lport''"
definition FromLport :: string where "FromLport = ''from-lport''"
definition ActionAllow :: string where "ActionAllow = ''allow''"
definition ActionAllowRelated :: string where "ActionAllowRelated = ''allow-related''"
definition ActionAllowStateless :: string where "ActionAllowStateless = ''allow-stateless''"
definition ActionDrop :: string where "ActionDrop = ''drop''"
definition ActionPass :: string where "ActionPass = ''pass''"
definition SeverityWarning :: string where "SeverityWarning = ''warning''"
definition portGroupKey :: string where "portGroupKey = ''pg''"
definition LogicalSwitchKey :: string where "LogicalSwitchKey = ''ls''"
definition aclParentKey :: string where "aclParentKey = ''parent''"
definition CniTypeName :: string where "CniTypeName = ''kube-ovn''"

definition NodeAllowPriority :: string where "NodeAllowPriority = ''3000''"
definition SecurityGroupHighestPriority :: string where "SecurityGroupHighestPriority = ''18484''"
definition SecurityGroupBasePriority :: string where "SecurityGroupBasePriority = ''2005''"
definition SecurityGroupAllowPriority :: string where "SecurityGroupAllowPriority = ''2004''"
definition SecurityGroupDropPriority :: string where "SecurityGroupDropPriority = ''2003''"
definition IngressAllowPriority :: string where "IngressAllowPriority = ''2001''"
definition IngressDefaultDrop :: string where "IngressDefaultDrop = ''2000''"
definition EgressAllowPriority :: string where "EgressAllowPriority = ''2001''"
definition EgressDefaultDrop :: string where "EgressDefaultDrop = ''2000''"
definition AllowEWTrafficPriority :: string where "AllowEWTrafficPriority = ''1900''"
definition SubnetAllowPriority :: string where "SubnetAllowPriority = ''1001''"
definition DefaultDropPriority :: string where "DefaultDropPriority = ''1000''"
definition AnpACLTier :: int where "AnpACLTier = 1"
definition NetpolACLTier :: int where "NetpolACLTier = 2"
definition BanpACLTier :: int where "BanpACLTier = 3"
definition SecurityGroupOvnTierBase :: int where "SecurityGroupOvnTierBase = 2"
definition SecurityGroupAPITierMinimum :: int where "SecurityGroupAPITierMinimum = 0"
definition SecurityGroupAPITierMaximum :: int where "SecurityGroupAPITierMaximum = 1"

section \<open>Rows and operations\<close>

definition setACLName :: "string \<Rightarrow> ACL \<Rightarrow> ACL" where
  "setACLName name acl = acl\<lparr>aName := Some (if length name > 63 then take 60 name @ ''...'' else name)\<rparr>"

definition set_option :: "string \<Rightarrow> string \<Rightarrow> ACL \<Rightarrow> ACL" where
  "set_option k v acl = acl\<lparr>aOptions := mput k v (aOptions acl)\<rparr>"

definition GetACL :: "NbDb \<Rightarrow> string \<Rightarrow> string \<Rightarrow> string \<Rightarrow> string \<Rightarrow> int \<Rightarrow> bool \<Rightarrow> ACLError + ACL option" where
  "GetACL db parent direction priority match tier ignoreNotFound =
     (if parent = [] then Inl ACLErrorParent
      else if nbErr db then Inl ACLErrorDatabase
      else
        let intPriority = fst (Atoi_val priority);
            aclList = filter (\<lambda>acl. aExternalIDs acl \<noteq> [] \<and> mget0 (aExternalIDs acl) aclParentKey = parent \<and>
                        aDirection acl = direction \<and> aPriority acl = intPriority \<and> aMatch acl = match \<and> aTier acl = tier) (nbACLs db)
        in case aclList of
             [] \<Rightarrow> if ignoreNotFound then Inr None else Inl ACLErrorNotFound
           | [acl] \<Rightarrow> Inr (Some acl)
           | _ \<Rightarrow> Inl ACLErrorDuplicated)"

definition ACLExists :: "NbDb \<Rightarrow> string \<Rightarrow> string \<Rightarrow> string \<Rightarrow> string \<Rightarrow> int \<Rightarrow> ACLError + bool" where
  "ACLExists db parent direction priority match tier =
     (case GetACL db parent direction priority match tier True of
        Inl err \<Rightarrow> if err = ACLErrorDuplicated then Inr True else Inl err
      | Inr acl \<Rightarrow> Inr (acl \<noteq> None))"

definition aclFilter :: "string \<Rightarrow> (string, string) gomap \<Rightarrow> ACL \<Rightarrow> bool" where
  "aclFilter direction externalIDs acl =
     (length (aExternalIDs acl) \<ge> length externalIDs \<and>
      (aExternalIDs acl \<noteq> [] \<longrightarrow>
         list_all (\<lambda>(k, v). if v = [] then mget0 (aExternalIDs acl) k \<noteq> [] else mget0 (aExternalIDs acl) k = v) externalIDs) \<and>
      (direction \<noteq> [] \<longrightarrow> aDirection acl = direction))"

definition ListAcls :: "NbDb \<Rightarrow> string \<Rightarrow> (string, string) gomap \<Rightarrow> error + ACL list" where
  "ListAcls db direction externalIDs =
     (if nbErr db then Inl (ErrFmt ''list acls'') else Inr (filter (aclFilter direction externalIDs) (nbACLs db)))"

text \<open>The new row with its options, applied in order; the server sets the UUID and the parent.\<close>

definition acl_row :: "string \<Rightarrow> string \<Rightarrow> string \<Rightarrow> string \<Rightarrow> string \<Rightarrow> int \<Rightarrow> (ACL \<Rightarrow> ACL) list \<Rightarrow> ACL" where
  "acl_row parent direction priority match action tier options =
     foldl (\<lambda>acl opt. opt acl)
       \<lparr>aUUID = 0, aParentOf = ([], []), aAction = action, aDirection = direction, aMatch = match, aPriority = fst (Atoi_val priority),
        aExternalIDs = [(aclParentKey, parent), (''vendor'', CniTypeName)], aTier = tier, aName = None, aLog = False,
        aSeverity = None, aMeter = None, aOptions = []\<rparr> options"

definition newACLWithoutCheck ::
  "string \<Rightarrow> string \<Rightarrow> string \<Rightarrow> string \<Rightarrow> string \<Rightarrow> int \<Rightarrow> (ACL \<Rightarrow> ACL) list \<Rightarrow> error + ACL" where
  "newACLWithoutCheck parent direction priority match action tier options =
     (if parent = [] then Inl (ErrFmt ''the port group name or logical switch name is required'')
      else if direction = [] \<or> priority = [] \<or> match = [] \<or> action = [] then Inl (ErrFmt ''acl direction, priority, match and action are required'')
      else
        Inr (acl_row parent direction priority match action tier options))"

definition newACL ::
  "NbDb \<Rightarrow> string \<Rightarrow> string \<Rightarrow> string \<Rightarrow> string \<Rightarrow> string \<Rightarrow> int \<Rightarrow> (ACL \<Rightarrow> ACL) list \<Rightarrow> error + ACL option" where
  "newACL db parent direction priority match action tier options =
     (if parent = [] then Inl (ErrFmt ''the port group name or logical switch name is required'')
      else if direction = [] \<or> priority = [] \<or> match = [] \<or> action = [] then Inl (ErrFmt ''acl direction, priority, match and action are required'')
      else case ACLExists db parent direction priority match tier of
          Inl _ \<Rightarrow> Inl (ErrFmt ''get parent acl'')
        | Inr True \<Rightarrow> Inr None
        | Inr False \<Rightarrow>
            Inr (Some (acl_row parent direction priority match action tier options)))"

text \<open>\<open>portGroupUpdateACLOp\<close> and \<open>logicalSwitchUpdateACLOp\<close>: without rows there is nothing to do, else the parent has to exist.\<close>

definition parent_op :: "NbDb \<Rightarrow> string \<Rightarrow> string \<Rightarrow> 'a list \<Rightarrow> (string \<Rightarrow> 'a list \<Rightarrow> NbOp list) \<Rightarrow> error + NbOp list" where
  "parent_op db parentName parentType rows mk =
     (let t = (if parentType = portGroupKey then portGroupKey else LogicalSwitchKey) in
      if rows = [] then Inr []
      else if (t, parentName) \<in> set (nbParents db) then Inr (mk t rows)
      else Inl (ErrFmt (''get '' @ t @ '' '' @ parentName)))"

definition CreateAclsOps :: "NbDb \<Rightarrow> string \<Rightarrow> string \<Rightarrow> ACL option list \<Rightarrow> error + NbOp list" where
  "CreateAclsOps db parentName parentType acls =
     (if parentType \<noteq> portGroupKey \<and> parentType \<noteq> LogicalSwitchKey then Inl (ErrFmt ''acl parent type'')
      else if acls = [] then Inr []
      else parent_op db parentName parentType (List.map_filter id acls) (\<lambda>t. map (OpAdd t parentName)))"

definition DeleteAclsOps :: "NbDb \<Rightarrow> string \<Rightarrow> string \<Rightarrow> string \<Rightarrow> (string, string) gomap \<Rightarrow> error + NbOp list" where
  "DeleteAclsOps db parentName parentType direction externalIDs =
     (if parentName = [] then Inl (ErrFmt ''the port group name or logical switch name is required'')
      else case ListAcls db direction (mput aclParentKey parentName externalIDs) of
          Inl err \<Rightarrow> Inl err
        | Inr acls \<Rightarrow> parent_op db parentName parentType (map aUUID acls) (\<lambda>t us. [OpRemove t parentName us]))"

text \<open>An empty list of operations is not sent.\<close>

definition Transact :: "transact \<Rightarrow> NbOp list \<Rightarrow> NbDb \<Rightarrow> error + NbDb" where
  "Transact tx ops db = (if ops = [] then Inr db else tx ops db)"

definition CreateAcls :: "transact \<Rightarrow> NbDb \<Rightarrow> string \<Rightarrow> string \<Rightarrow> ACL option list \<Rightarrow> error + NbDb" where
  "CreateAcls tx db parentName parentType acls =
     (case CreateAclsOps db parentName parentType acls of Inl err \<Rightarrow> Inl err | Inr ops \<Rightarrow> Transact tx ops db)"

definition DeleteAcls :: "transact \<Rightarrow> NbDb \<Rightarrow> string \<Rightarrow> string \<Rightarrow> string \<Rightarrow> (string, string) gomap \<Rightarrow> error + NbDb" where
  "DeleteAcls tx db parentName parentType direction externalIDs =
     (case DeleteAclsOps db parentName parentType direction externalIDs of Inl err \<Rightarrow> Inl err | Inr ops \<Rightarrow> Transact tx ops db)"

definition DeleteACL :: "transact \<Rightarrow> NbDb \<Rightarrow> string \<Rightarrow> string \<Rightarrow> string \<Rightarrow> string \<Rightarrow> string \<Rightarrow> int \<Rightarrow> error + NbDb" where
  "DeleteACL tx db parentName parentType direction priority match tier =
     (case GetACL db parentName direction priority match tier True of
        Inl _ \<Rightarrow> Inl (ErrFmt ''get acl'')
      | Inr None \<Rightarrow> Inr db
      | Inr (Some acl) \<Rightarrow>
          (case parent_op db parentName parentType [aUUID acl] (\<lambda>t us. [OpRemove t parentName us]) of
             Inl err \<Rightarrow> Inl err
           | Inr ops \<Rightarrow> Transact tx ops db))"

definition UpdateACL :: "transact \<Rightarrow> NbDb \<Rightarrow> ACL \<Rightarrow> error + NbDb" where
  "UpdateACL tx db acl = Transact tx [OpUpdate acl] db"

section \<open>Port groups and address sets\<close>

text \<open>A port group is made, or its external ids are brought up to date.\<close>

definition maps_Equal :: "('k, 'v) gomap \<Rightarrow> ('k, 'v) gomap \<Rightarrow> bool" where
  "maps_Equal m1 m2 = (length m1 = length m2 \<and> list_all (\<lambda>(k, v). map_of m2 k = Some v) m1)"

definition CreatePortGroup :: "transact \<Rightarrow> NbDb \<Rightarrow> string \<Rightarrow> (string, string) gomap \<Rightarrow> error + NbDb" where
  "CreatePortGroup tx db pgName externalIDs =
     (if pgName = [] then Inl (ErrFmt ''port group name is empty'')
      else if nbErr db then Inl (ErrFmt ''get port group'')
      else
        let finalExternalIDs = mput ''vendor'' CniTypeName externalIDs in
        if (portGroupKey, pgName) \<in> set (nbParents db)
        then (case map_of (nbGroupIDs db) pgName of
                Some ids \<Rightarrow> if maps_Equal ids finalExternalIDs then Inr db else Transact tx [OpPortGroup pgName finalExternalIDs] db
              | None \<Rightarrow> Transact tx [OpPortGroup pgName finalExternalIDs] db)
        else Transact tx [OpPortGroup pgName finalExternalIDs] db)"

definition set_start :: "char \<Rightarrow> bool" where
  "set_start c = (let k = of_char c :: nat in (97 \<le> k \<and> k \<le> 122) \<or> (65 \<le> k \<and> k \<le> 90) \<or> c = CHR ''_'' \<or> c = CHR ''.'')"

definition matchAddressSetName :: "string \<Rightarrow> bool" where
  "matchAddressSetName asName = (asName \<noteq> [] \<and> set_start (hd asName) \<and> list_all (\<lambda>c. set_start c \<or> is_digit c) asName)"

definition CreateAddressSet :: "transact \<Rightarrow> NbDb \<Rightarrow> string \<Rightarrow> (string, string) gomap \<Rightarrow> error + NbDb" where
  "CreateAddressSet tx db asName externalIDs =
     (if \<not> matchAddressSetName asName then Inl (ErrFmt ''address set name'')
      else if nbErr db then Inl (ErrFmt ''get address set'')
      else if map_of (nbSets db) asName \<noteq> None then Inr db
      else Transact tx [OpAddressSet asName (mput ''vendor'' CniTypeName externalIDs)] db)"

text \<open>A list of rows made one after the other: the first error ends it.\<close>

fun all_acls :: "(error + 'a) list \<Rightarrow> error + 'a list" where
  "all_acls [] = Inr []"
| "all_acls (Inl err # rs) = Inl err"
| "all_acls (Inr a # rs) = (case all_acls rs of Inl err \<Rightarrow> Inl err | Inr as \<Rightarrow> Inr (a # as))"

section \<open>Directions and families\<close>

text \<open>Ingress rules are those to a logical port; every other direction is treated as ingress, as the code does.\<close>

definition port_of :: "string \<Rightarrow> string" where
  "port_of direction = (if direction = FromLport then ''inport'' else ''outport'')"

definition remote_of :: "string \<Rightarrow> string" where
  "remote_of direction = (if direction = FromLport then ''dst'' else ''src'')"

definition local_of :: "string \<Rightarrow> string" where
  "local_of direction = (if direction = FromLport then ''src'' else ''dst'')"

definition suffix_of :: "string \<Rightarrow> string" where
  "suffix_of protocol = (if protocol = ProtocolIPv6 then ''ip6'' else ''ip4'')"

definition remote_key :: "string \<Rightarrow> string \<Rightarrow> string" where
  "remote_key protocol direction = suffix_of protocol @ ''.'' @ remote_of direction"

definition all_ip_match :: "string \<Rightarrow> string \<Rightarrow> ACLMatch" where
  "all_ip_match pgName direction =
     AndACLMatch [NewACLMatch (port_of direction) ''=='' (''@'' @ pgName) [], NewACLMatch ''ip'' [] [] []]"

section \<open>Network policies\<close>

datatype IntOrString = IntVal int | StrVal string

record NetworkPolicyPort =
  nppProtocol :: "string option"
  nppPort :: "IntOrString option"
  nppEndPort :: "int option"

record IPBlock =
  ibCIDR :: string
  ibExcept :: "string list"

text \<open>
  The match of one port, for the traffic that is allowed so far: no value if the port is skipped, a panic if its protocol is nil.
  \<open>namedPortMap\<close> gives the numbers of the named ports.
\<close>

definition port_match :: "ACLMatch \<Rightarrow> (string, int) gomap \<Rightarrow> NetworkPolicyPort \<Rightarrow> error + string list" where
  "port_match allowedIPMatch namedPortMap port =
     (case nppProtocol port of
        None \<Rightarrow> Inl Panic
      | Some p \<Rightarrow>
          let protocol = ToLower p; tcpKey = protocol @ ''.dst''; one = (\<lambda>m. Inr [ACLMatch_String (AndACLMatch [allowedIPMatch, m])]) in
          (case nppPort port of
             None \<Rightarrow> one (NewACLMatch protocol [] [] [])
           | Some (IntVal n) \<Rightarrow>
               (case nppEndPort port of
                  None \<Rightarrow> one (NewACLMatch tcpKey ''=='' (Itoa n) [])
                | Some e \<Rightarrow> one (NewACLMatch tcpKey ''<='' (Itoa n) (Itoa e)))
           | Some (StrVal name) \<Rightarrow>
               (case nppEndPort port of
                  None \<Rightarrow> (case map_of namedPortMap name of None \<Rightarrow> Inr [] | Some n \<Rightarrow> one (NewACLMatch tcpKey ''=='' (Itoa n) []))
                | Some e \<Rightarrow> Inr [])))"

definition port_matches :: "ACLMatch \<Rightarrow> (string, int) gomap \<Rightarrow> NetworkPolicyPort list \<Rightarrow> error + string list" where
  "port_matches allowedIPMatch namedPortMap npp =
     (if npp = [] then Inr [ACLMatch_String allowedIPMatch]
      else case all_acls (map (port_match allowedIPMatch namedPortMap) npp) of Inl err \<Rightarrow> Inl err | Inr ms \<Rightarrow> Inr (concat ms))"

definition newNetworkPolicyACLMatch ::
  "string \<Rightarrow> string \<Rightarrow> string \<Rightarrow> string \<Rightarrow> string \<Rightarrow> NetworkPolicyPort list \<Rightarrow> (string, int) gomap \<Rightarrow> error + string list" where
  "newNetworkPolicyACLMatch pgName asAllowName asExceptName protocol direction npp namedPortMap =
     (let ipKey = remote_key protocol direction;
          allowedIPMatch = AndACLMatch [all_ip_match pgName direction,
            NewACLMatch ipKey ''=='' (''$'' @ asAllowName) [], NewACLMatch ipKey ''!='' (''$'' @ asExceptName) []]
      in port_matches allowedIPMatch namedPortMap npp)"

definition block_excepts :: "string \<Rightarrow> IPBlock \<Rightarrow> string list" where
  "block_excepts protocol block =
     filter (\<lambda>e. CheckProtocol e = protocol \<and> CIDRContainsCIDR (ibCIDR block) e = Inr True) (ibExcept block)"

definition block_match :: "string \<Rightarrow> string \<Rightarrow> IPBlock \<Rightarrow> ACLMatch" where
  "block_match protocol ipKey block =
     (let cidrMatch = NewACLMatch ipKey ''=='' (ibCIDR block) []; filteredExcepts = block_excepts protocol block in
      if filteredExcepts = [] then cidrMatch
      else AndACLMatch [cidrMatch, NewACLMatch ipKey ''!='' (''{'' @ join '', '' filteredExcepts @ ''}'') []])"

definition newIPBlockACLMatch ::
  "string \<Rightarrow> string \<Rightarrow> string \<Rightarrow> IPBlock list \<Rightarrow> NetworkPolicyPort list \<Rightarrow> (string, int) gomap \<Rightarrow> error + string list" where
  "newIPBlockACLMatch pgName protocol direction ipBlocks npp namedPortMap =
     (let ipKey = remote_key protocol direction;
          perBlockMatches = map (block_match protocol ipKey) (filter (\<lambda>b. CheckProtocol (ibCIDR b) = protocol) ipBlocks)
      in case perBlockMatches of
           [] \<Rightarrow> Inr []
         | b # bs \<Rightarrow>
             let ipBlockL3Match = (if length perBlockMatches > 1 then OrACLMatch perBlockMatches else b);
                 allowedIPMatch = AndACLMatch [all_ip_match pgName direction, groupACLMatch ipBlockL3Match]
             in port_matches allowedIPMatch namedPortMap npp)"

text \<open>
  The operations for the rows of a policy. \<open>meter\<close> stands for \<open>CreateOrUpdateMeter\<close>; an error of
  \<open>DeleteMeter\<close> is only logged.
\<close>

definition use_meter :: "(string \<Rightarrow> int \<Rightarrow> error option) \<Rightarrow> string \<Rightarrow> bool \<Rightarrow> int \<Rightarrow> error option" where
  "use_meter meter name logEnable logRate = (if logEnable \<and> logRate > 0 then meter name logRate else None)"

definition log_allow :: "bool \<Rightarrow> string list \<Rightarrow> int \<Rightarrow> string \<Rightarrow> ACL \<Rightarrow> ACL" where
  "log_allow logEnable logACLActions logRate meterName acl =
     (if logEnable \<and> ActionAllow \<in> set logACLActions
      then (let acl = acl\<lparr>aLog := True\<rparr> in if logRate > 0 then acl\<lparr>aMeter := Some meterName\<rparr> else acl)
      else acl)"

definition meter_name :: "string \<Rightarrow> string \<Rightarrow> string" where
  "meter_name pgName direction = pgName @ ''_'' @ direction @ ''_meter''"

definition after_lb :: "string \<Rightarrow> ACL \<Rightarrow> ACL" where
  "after_lb direction acl = (if direction = FromLport then set_option ''apply-after-lb'' ''true'' acl else acl)"

definition allow_priority :: "string \<Rightarrow> string" where
  "allow_priority direction = (if direction = FromLport then EgressAllowPriority else IngressAllowPriority)"

definition policy_rows ::
  "string \<Rightarrow> string \<Rightarrow> string \<Rightarrow> bool \<Rightarrow> string list \<Rightarrow> int \<Rightarrow> string list \<Rightarrow> error + ACL list" where
  "policy_rows pgName direction aclName logEnable logACLActions logRate matches =
     all_acls (map (\<lambda>m. newACLWithoutCheck pgName direction (allow_priority direction) m ActionAllowRelated NetpolACLTier
       [setACLName aclName, after_lb direction, log_allow logEnable logACLActions logRate (meter_name pgName direction)]) matches)"

definition policy_ops ::
  "NbDb \<Rightarrow> (string \<Rightarrow> int \<Rightarrow> error option) \<Rightarrow> string \<Rightarrow> string \<Rightarrow> string \<Rightarrow> string \<Rightarrow> string \<Rightarrow> string \<Rightarrow>
   NetworkPolicyPort list \<Rightarrow> bool \<Rightarrow> string list \<Rightarrow> int \<Rightarrow> (string, int) gomap \<Rightarrow> error + NbOp list" where
  "policy_ops db meter direction pgName asName asExceptName protocol aclName npp logEnable logACLActions logRate namedPortMap =
     (case use_meter meter (meter_name pgName direction) logEnable logRate of
        Some err \<Rightarrow> Inl err
      | None \<Rightarrow>
          (case newNetworkPolicyACLMatch pgName asName asExceptName protocol direction npp namedPortMap of
             Inl err \<Rightarrow> Inl err
           | Inr matches \<Rightarrow>
               (case policy_rows pgName direction aclName logEnable logACLActions logRate matches of
                  Inl err \<Rightarrow> Inl err
                | Inr acls \<Rightarrow> CreateAclsOps db pgName portGroupKey (map Some acls))))"

definition UpdateIngressACLOps where
  "UpdateIngressACLOps db meter = policy_ops db meter ToLport"

definition UpdateEgressACLOps where
  "UpdateEgressACLOps db meter = policy_ops db meter FromLport"

definition block_ops ::
  "NbDb \<Rightarrow> string \<Rightarrow> string \<Rightarrow> string \<Rightarrow> string \<Rightarrow> IPBlock list \<Rightarrow>
   NetworkPolicyPort list \<Rightarrow> bool \<Rightarrow> string list \<Rightarrow> int \<Rightarrow> (string, int) gomap \<Rightarrow> error + NbOp list" where
  "block_ops db direction pgName protocol aclName ipBlocks npp logEnable logACLActions logRate namedPortMap =
     (case newIPBlockACLMatch pgName protocol direction ipBlocks npp namedPortMap of
        Inl err \<Rightarrow> Inl err
      | Inr [] \<Rightarrow> Inr []
      | Inr matches \<Rightarrow>
          (case policy_rows pgName direction aclName logEnable logACLActions logRate matches of
             Inl err \<Rightarrow> Inl err
           | Inr acls \<Rightarrow> CreateAclsOps db pgName portGroupKey (map Some acls)))"

definition UpdateIngressIPBlockACLOps where
  "UpdateIngressIPBlockACLOps db = block_ops db ToLport"

definition UpdateEgressIPBlockACLOps where
  "UpdateEgressIPBlockACLOps db = block_ops db FromLport"

definition UpdateDefaultBlockACLOps ::
  "NbDb \<Rightarrow> (string \<Rightarrow> int \<Rightarrow> error option) \<Rightarrow> string \<Rightarrow> string \<Rightarrow> string \<Rightarrow> bool \<Rightarrow> bool \<Rightarrow> int \<Rightarrow> error + NbOp list" where
  "UpdateDefaultBlockACLOps db meter npName pgName direction loggingEnabled lax logRate =
     (let priority = (if direction = FromLport then EgressDefaultDrop else IngressDefaultDrop);
          meterName = meter_name pgName direction;
          match = AndACLMatch [NewACLMatch (port_of direction) ''=='' (''@'' @ pgName) [],
                               NewACLMatch (if lax then ''(tcp || udp || sctp)'' else ''ip'') [] [] []];
          logging = (\<lambda>acl. if loggingEnabled
            then (let acl = acl\<lparr>aLog := True, aSeverity := Some SeverityWarning\<rparr> in if logRate > 0 then acl\<lparr>aMeter := Some meterName\<rparr> else acl)
            else acl)
      in case use_meter meter meterName loggingEnabled logRate of
           Some err \<Rightarrow> Inl err
         | None \<Rightarrow>
             (case newACLWithoutCheck pgName direction priority (ACLMatch_String match) ActionDrop NetpolACLTier
                     [setACLName npName, logging, after_lb direction] of
                Inl err \<Rightarrow> Inl err
              | Inr acl \<Rightarrow> CreateAclsOps db pgName portGroupKey [Some acl]))"

definition dhcp_match :: "string \<Rightarrow> string \<Rightarrow> string \<Rightarrow> string \<Rightarrow> string \<Rightarrow> ACLMatch" where
  "dhcp_match portDirection pgName src dst fam =
     AndACLMatch [NewACLMatch portDirection ''=='' (''@'' @ pgName) [], NewACLMatch ''udp.src'' ''=='' src [],
                  NewACLMatch ''udp.dst'' ''=='' dst [], NewACLMatch fam [] [] []]"

text \<open>The matches of DHCPv4 and DHCPv6 by direction.\<close>

definition dhcpv4_match :: "string \<Rightarrow> string \<Rightarrow> ACLMatch" where
  "dhcpv4_match pgName direction =
     (if direction = FromLport then dhcp_match ''inport'' pgName ''68'' ''67'' ''ip4'' else dhcp_match ''outport'' pgName ''67'' ''68'' ''ip4'')"

definition dhcpv6_match :: "string \<Rightarrow> string \<Rightarrow> ACLMatch" where
  "dhcpv6_match pgName direction =
     (if direction = FromLport then dhcp_match ''inport'' pgName ''546'' ''547'' ''ip6'' else dhcp_match ''outport'' pgName ''547'' ''546'' ''ip6'')"

text \<open>A row that cannot be made is logged and left out.\<close>

definition UpdateDefaultBlockExceptionsACLOps :: "NbDb \<Rightarrow> string \<Rightarrow> string \<Rightarrow> string \<Rightarrow> error + NbOp list" where
  "UpdateDefaultBlockExceptionsACLOps db npName pgName direction =
     (let rows = map (\<lambda>m. newACLWithoutCheck pgName direction (allow_priority direction) (ACLMatch_String m) ActionAllowRelated NetpolACLTier
                   [setACLName npName, after_lb direction]) [dhcpv6_match pgName direction, dhcpv4_match pgName direction]
      in CreateAclsOps db pgName portGroupKey (List.map_filter (\<lambda>r. case r of Inl _ \<Rightarrow> None | Inr a \<Rightarrow> Some (Some a)) rows))"

section \<open>Admin and cluster network policies\<close>

datatype RulePort = PortNumber string int | PortRange string int int | NamedPort string

definition rule_port_match :: "ACLMatch \<Rightarrow> RulePort \<Rightarrow> string list" where
  "rule_port_match selectIPMatch port =
     (case port of
        PortNumber p n \<Rightarrow> [ACLMatch_String (AndACLMatch [selectIPMatch, NewACLMatch (ToLower p @ ''.dst'') ''=='' (Itoa n) []])]
      | PortRange p s e \<Rightarrow> [ACLMatch_String (AndACLMatch [selectIPMatch, NewACLMatch (ToLower p @ ''.dst'') ''<='' (Itoa s) (Itoa e)])]
      | NamedPort _ \<Rightarrow> [])"

definition newAnpACLMatch :: "string \<Rightarrow> string \<Rightarrow> string \<Rightarrow> string \<Rightarrow> RulePort list \<Rightarrow> string list" where
  "newAnpACLMatch pgName asName protocol direction rulePorts =
     (let ipKey = remote_key protocol direction;
          selectIPMatch = AndACLMatch [all_ip_match pgName direction, NewACLMatch ipKey ''=='' (''$'' @ asName) []]
      in if rulePorts = [] then [ACLMatch_String selectIPMatch] else concat (map (rule_port_match selectIPMatch) rulePorts))"

definition newCnpACLMatch :: "string \<Rightarrow> string \<Rightarrow> string \<Rightarrow> string \<Rightarrow> RulePort list \<Rightarrow> string list" where
  "newCnpACLMatch pgName asName protocol direction rulePorts =
     (let ipKey = remote_key protocol direction;
          selectIPMatch = AndACLMatch [all_ip_match pgName direction, NewACLMatch ipKey ''=='' (''$'' @ asName) []]
      in if rulePorts = [] then [ACLMatch_String selectIPMatch] else concat (map (rule_port_match selectIPMatch) rulePorts))"

text \<open>The options of a row of an admin policy.\<close>

definition rule_options :: "string \<Rightarrow> string \<Rightarrow> string \<Rightarrow> string list \<Rightarrow> (ACL \<Rightarrow> ACL) list" where
  "rule_options aclName pgName aclAction logACLActions =
     [setACLName aclName, \<lambda>acl. acl\<lparr>aExternalIDs := mput aclParentKey pgName (aExternalIDs acl)\<rparr>,
      set_option ''apply-after-lb'' ''true'',
      \<lambda>acl. if aclAction \<in> set logACLActions
        then (let acl = acl\<lparr>aLog := True\<rparr> in if aclAction = ActionDrop then acl\<lparr>aSeverity := Some SeverityWarning\<rparr> else acl)
        else acl]"

definition rule_ops :: "NbDb \<Rightarrow> string \<Rightarrow> string \<Rightarrow> string \<Rightarrow> int \<Rightarrow> string \<Rightarrow> string list \<Rightarrow> int \<Rightarrow> string list \<Rightarrow> error + NbOp list" where
  "rule_ops db pgName direction aclName priority aclAction logACLActions tier matches =
     (case all_acls (map (\<lambda>m. newACLWithoutCheck pgName direction (Itoa priority) m aclAction tier
                           (rule_options aclName pgName aclAction logACLActions)) matches) of
        Inl err \<Rightarrow> Inl err
      | Inr acls \<Rightarrow> CreateAclsOps db pgName portGroupKey (map Some acls))"

definition UpdateAnpRuleACLOps ::
  "NbDb \<Rightarrow> string \<Rightarrow> string \<Rightarrow> string \<Rightarrow> string \<Rightarrow> int \<Rightarrow> string \<Rightarrow> string list \<Rightarrow> RulePort list \<Rightarrow> bool \<Rightarrow> bool \<Rightarrow> error + NbOp list" where
  "UpdateAnpRuleACLOps db pgName asName protocol aclName priority aclAction logACLActions rulePorts isIngress isBanp =
     (let direction = (if isIngress then ToLport else FromLport) in
      rule_ops db pgName direction aclName priority aclAction logACLActions (if isBanp then BanpACLTier else AnpACLTier)
        (newAnpACLMatch pgName asName protocol direction rulePorts))"

definition UpdateCnpRuleACLOps ::
  "NbDb \<Rightarrow> string \<Rightarrow> string \<Rightarrow> string \<Rightarrow> string \<Rightarrow> int \<Rightarrow> string \<Rightarrow> string list \<Rightarrow> RulePort list \<Rightarrow> bool \<Rightarrow> int \<Rightarrow> error + NbOp list" where
  "UpdateCnpRuleACLOps db pgName asName protocol aclName priority aclAction logACLActions rulePorts isIngress tier =
     (let direction = (if isIngress then ToLport else FromLport) in
      rule_ops db pgName direction aclName priority aclAction logACLActions tier
        (newCnpACLMatch pgName asName protocol direction rulePorts))"

section \<open>Security groups\<close>

record SecurityGroupRule =
  srIPVersion :: string
  srProtocol :: string
  srPriority :: int
  srRemoteType :: string
  srRemoteAddress :: string
  srRemoteSecurityGroup :: string
  srPortRangeMin :: int
  srPortRangeMax :: int
  srLocalAddress :: string
  srSourcePortRangeMin :: int
  srSourcePortRangeMax :: int
  srPolicy :: string

record SecurityGroup =
  sgName :: string
  sgIngressRules :: "SecurityGroupRule list"
  sgEgressRules :: "SecurityGroupRule list"
  sgAllowSameGroupTraffic :: bool
  sgTier :: int

definition SgRemoteTypeAddress :: string where "SgRemoteTypeAddress = ''address''"
definition SgRemoteTypeSg :: string where "SgRemoteTypeSg = ''securityGroup''"
definition SgProtocolICMP :: string where "SgProtocolICMP = ''icmp''"
definition SgProtocolTCP :: string where "SgProtocolTCP = ''tcp''"
definition SgProtocolUDP :: string where "SgProtocolUDP = ''udp''"

definition GetSgPortGroupName :: "string \<Rightarrow> string" where
  "GetSgPortGroupName name = (if name = [] then [] else replace_char CHR ''-'' ''.'' (''ovn.sg.'' @ name))"

definition GetSgV4AssociatedName :: "string \<Rightarrow> string" where
  "GetSgV4AssociatedName name = replace_char CHR ''-'' ''.'' (''ovn.sg.'' @ name @ ''.associated.v4'')"

definition GetSgV6AssociatedName :: "string \<Rightarrow> string" where
  "GetSgV6AssociatedName name = replace_char CHR ''-'' ''.'' (''ovn.sg.'' @ name @ ''.associated.v6'')"

definition ValidateSecurityGroupTier :: "int \<Rightarrow> error option" where
  "ValidateSecurityGroupTier tier =
     (if tier < SecurityGroupAPITierMinimum \<or> tier > SecurityGroupAPITierMaximum then Some (ErrFmt ''SecurityGroupTier invalid'') else None)"

definition ConvertSGTierToOvnTier :: "int \<Rightarrow> int" where
  "ConvertSGTierToOvnTier tier = tier + SecurityGroupOvnTierBase"

text \<open>The tiers a default rule is made for, in the order of the loop.\<close>

definition sg_tiers :: "int list" where
  "sg_tiers = map ConvertSGTierToOvnTier [SecurityGroupAPITierMinimum..SecurityGroupAPITierMaximum]"

definition CreateSgDenyAllACL :: "transact \<Rightarrow> NbDb \<Rightarrow> string \<Rightarrow> error + NbDb" where
  "CreateSgDenyAllACL tx db name =
     (let pgName = GetSgPortGroupName name in
      case all_acls (concat (map (\<lambda>tier.
             [newACL db pgName ToLport SecurityGroupDropPriority (''outport == @'' @ pgName @ '' && ip'') ActionDrop tier [],
              newACL db pgName FromLport SecurityGroupDropPriority (''inport == @'' @ pgName @ '' && ip'') ActionDrop tier []]) sg_tiers)) of
        Inl err \<Rightarrow> Inl err
      | Inr acls \<Rightarrow> CreateAcls tx db pgName portGroupKey acls)"

definition base_matches :: "string \<Rightarrow> string \<Rightarrow> ACLMatch list" where
  "base_matches pgName direction =
     (let p = NewACLMatch (port_of direction) ''=='' (''@'' @ pgName) [];
          icmpv6Type = (if direction = FromLport then ''{130, 133, 135, 136}'' else ''{130, 134, 135, 136}'')
      in [AndACLMatch [p, NewACLMatch ''arp'' [] [] []],
          AndACLMatch [p, NewACLMatch ''icmp6.type'' ''=='' icmpv6Type [], NewACLMatch ''icmp6.code'' ''=='' ''0'' [], NewACLMatch ''ip.ttl'' ''=='' ''255'' []],
          dhcpv4_match pgName direction, dhcpv6_match pgName direction,
          AndACLMatch [p, NewACLMatch ''ip.proto'' ''=='' ''112'' []]])"

text \<open>The rows of one base match: the first tier whose row cannot be made ends the loop, with a log entry only.\<close>

fun base_rows :: "NbDb \<Rightarrow> string \<Rightarrow> string \<Rightarrow> string \<Rightarrow> int list \<Rightarrow> ACL option list" where
  "base_rows db pgName direction match [] = []"
| "base_rows db pgName direction match (tier # tiers) =
     (case newACL db pgName direction SecurityGroupBasePriority match ActionAllowRelated tier [] of
        Inl _ \<Rightarrow> []
      | Inr acl \<Rightarrow> acl # base_rows db pgName direction match tiers)"

definition CreateSgBaseACL :: "transact \<Rightarrow> NbDb \<Rightarrow> string \<Rightarrow> string \<Rightarrow> error + NbDb" where
  "CreateSgBaseACL tx db name direction =
     (let pgName = GetSgPortGroupName name in
      CreateAcls tx db pgName portGroupKey
        (concat (map (\<lambda>m. base_rows db pgName direction (ACLMatch_String m) sg_tiers) (base_matches pgName direction))))"

text \<open>The match of a rule as \<open>newSgRuleACL\<close> builds it.\<close>

definition sg_suffix :: "SecurityGroupRule \<Rightarrow> string" where
  "sg_suffix rule = (if srIPVersion rule = ''ipv6'' then ''ip6'' else ''ip4'')"

definition sg_ip_match :: "string \<Rightarrow> string \<Rightarrow> SecurityGroupRule \<Rightarrow> ACLMatch" where
  "sg_ip_match pgName direction rule =
     (let ipSuffix = sg_suffix rule;
          remoteIPKey = ipSuffix @ ''.'' @ remote_of direction;
          localIPKey = ipSuffix @ ''.'' @ local_of direction;
          allIPMatch = AndACLMatch [NewACLMatch (port_of direction) ''=='' (''@'' @ pgName) [], NewACLMatch ipSuffix [] [] []];
          remotePgName = (if srIPVersion rule = ''ipv6'' then GetSgV6AssociatedName (srRemoteSecurityGroup rule)
                          else GetSgV4AssociatedName (srRemoteSecurityGroup rule));
          allowedIPMatch = (if srRemoteType rule = SgRemoteTypeSg
                            then AndACLMatch [allIPMatch, NewACLMatch remoteIPKey ''=='' (''$'' @ remotePgName) []]
                            else AndACLMatch [allIPMatch, NewACLMatch remoteIPKey ''=='' (srRemoteAddress rule) []])
      in if srLocalAddress rule \<noteq> [] then AndACLMatch [allowedIPMatch, NewACLMatch localIPKey ''=='' (srLocalAddress rule) []]
         else allowedIPMatch)"

definition sg_rule_match :: "string \<Rightarrow> string \<Rightarrow> SecurityGroupRule \<Rightarrow> ACLMatch" where
  "sg_rule_match pgName direction rule =
     (let allowedIPMatch = sg_ip_match pgName direction rule in
      if srProtocol rule = SgProtocolICMP then
        (if sg_suffix rule = ''ip6'' then AndACLMatch [allowedIPMatch, NewACLMatch ''icmp6'' [] [] []]
         else AndACLMatch [allowedIPMatch, NewACLMatch ''icmp4'' [] [] []])
      else if srProtocol rule = SgProtocolTCP \<or> srProtocol rule = SgProtocolUDP then
        (let match = AndACLMatch [allowedIPMatch,
               NewACLMatch (srProtocol rule @ ''.dst'') ''<='' (Itoa (srPortRangeMin rule)) (Itoa (srPortRangeMax rule))]
         in if srLocalAddress rule \<noteq> []
            then AndACLMatch [match, NewACLMatch (srProtocol rule @ ''.src'') ''<='' (Itoa (srSourcePortRangeMin rule)) (Itoa (srSourcePortRangeMax rule))]
            else match)
      else allowedIPMatch)"

definition sg_action :: "SecurityGroupRule \<Rightarrow> string" where
  "sg_action rule =
     (if srPolicy rule = ActionAllow then ActionAllowRelated else if srPolicy rule = ActionPass then ActionPass else ActionDrop)"

definition sg_priority :: "SecurityGroupRule \<Rightarrow> string" where
  "sg_priority rule = Itoa (fst (Atoi_val SecurityGroupHighestPriority) - srPriority rule)"

definition newSgRuleACL :: "NbDb \<Rightarrow> string \<Rightarrow> string \<Rightarrow> SecurityGroupRule \<Rightarrow> int \<Rightarrow> error + ACL option" where
  "newSgRuleACL db name direction rule tier =
     (let pgName = GetSgPortGroupName name in
      newACL db pgName direction (sg_priority rule) (ACLMatch_String (sg_rule_match pgName direction rule)) (sg_action rule) tier [])"

definition same_group_match :: "string \<Rightarrow> string \<Rightarrow> string \<Rightarrow> string \<Rightarrow> ACLMatch" where
  "same_group_match pgName direction ipSuffix asName =
     AndACLMatch [NewACLMatch (port_of direction) ''=='' (''@'' @ pgName) [], NewACLMatch ipSuffix [] [] [],
                  NewACLMatch (ipSuffix @ ''.'' @ remote_of direction) ''=='' (''$'' @ asName) []]"

definition same_group_matches :: "SecurityGroup \<Rightarrow> string \<Rightarrow> ACLMatch list" where
  "same_group_matches sg direction =
     (let pgName = GetSgPortGroupName (sgName sg) in
      if sgAllowSameGroupTraffic sg
      then [same_group_match pgName direction ''ip4'' (GetSgV4AssociatedName (sgName sg)),
            same_group_match pgName direction ''ip6'' (GetSgV6AssociatedName (sgName sg))]
      else [])"

definition sg_rules :: "SecurityGroup \<Rightarrow> string \<Rightarrow> SecurityGroupRule list" where
  "sg_rules sg direction = (if direction = FromLport then sgEgressRules sg else sgIngressRules sg)"

definition UpdateSgACL :: "transact \<Rightarrow> NbDb \<Rightarrow> SecurityGroup \<Rightarrow> string \<Rightarrow> error + NbDb" where
  "UpdateSgACL tx db sg direction =
     (let pgName = GetSgPortGroupName (sgName sg); tier = ConvertSGTierToOvnTier (sgTier sg) in
      case DeleteAcls tx db pgName portGroupKey direction [] of
        Inl err \<Rightarrow> Inl err
      | Inr db \<Rightarrow>
          (case all_acls (map (\<lambda>m. newACL db pgName direction SecurityGroupAllowPriority (ACLMatch_String m) ActionAllowRelated tier [])
                            (same_group_matches sg direction) @
                          map (\<lambda>rule. newSgRuleACL db (sgName sg) direction rule tier) (sg_rules sg direction)) of
             Inl err \<Rightarrow> Inl err
           | Inr acls \<Rightarrow> CreateAcls tx db pgName portGroupKey acls))"

text \<open>The check whether the row of a rule is lost builds its match again.\<close>

definition sg_check_ip_match :: "string \<Rightarrow> string \<Rightarrow> SecurityGroupRule \<Rightarrow> ACLMatch" where
  "sg_check_ip_match pgName direction rule =
     (let ipSuffix = (if srIPVersion rule = ''ipv6'' then ''ip6'' else ''ip4'');
          ipKey = ipSuffix @ ''.'' @ remote_of direction;
          localIPKey = ipSuffix @ ''.'' @ local_of direction;
          allIPMatch = AndACLMatch [NewACLMatch (port_of direction) ''=='' (''@'' @ pgName) [], NewACLMatch ipSuffix [] [] []];
          remotePgName = (if srIPVersion rule = ''ipv6'' then GetSgV6AssociatedName (srRemoteSecurityGroup rule)
                          else GetSgV4AssociatedName (srRemoteSecurityGroup rule));
          allowedIPMatch = (if srRemoteType rule = SgRemoteTypeSg
                            then AndACLMatch [allIPMatch, NewACLMatch ipKey ''=='' (''$'' @ remotePgName) []]
                            else AndACLMatch [allIPMatch, NewACLMatch ipKey ''=='' (srRemoteAddress rule) []])
      in if srLocalAddress rule \<noteq> [] then AndACLMatch [allowedIPMatch, NewACLMatch localIPKey ''=='' (srLocalAddress rule) []]
         else allowedIPMatch)"

definition sg_check_match :: "string \<Rightarrow> string \<Rightarrow> SecurityGroupRule \<Rightarrow> ACLMatch" where
  "sg_check_match pgName direction rule =
     (let allowedIPMatch = sg_check_ip_match pgName direction rule in
      if srProtocol rule = SgProtocolICMP then
        (if srIPVersion rule = ''ipv6'' then AndACLMatch [allowedIPMatch, NewACLMatch ''icmp6'' [] [] []]
         else AndACLMatch [allowedIPMatch, NewACLMatch ''icmp4'' [] [] []])
      else if srProtocol rule = SgProtocolTCP \<or> srProtocol rule = SgProtocolUDP then
        (let match = AndACLMatch [allowedIPMatch,
               NewACLMatch (srProtocol rule @ ''.dst'') ''<='' (Itoa (srPortRangeMin rule)) (Itoa (srPortRangeMax rule))]
         in if srLocalAddress rule \<noteq> []
            then AndACLMatch [match, NewACLMatch (srProtocol rule @ ''.src'') ''<='' (Itoa (srSourcePortRangeMin rule)) (Itoa (srSourcePortRangeMax rule))]
            else match)
      else allowedIPMatch)"

definition sgRuleNoACL :: "NbDb \<Rightarrow> string \<Rightarrow> string \<Rightarrow> SecurityGroupRule \<Rightarrow> int \<Rightarrow> error + bool" where
  "sgRuleNoACL db name direction rule tier =
     (let pgName = GetSgPortGroupName name;
          priority = fst (Atoi_val SecurityGroupHighestPriority) - srPriority rule
      in case ACLExists db pgName direction (Itoa priority) (ACLMatch_String (sg_check_match pgName direction rule)) tier of
           Inl _ \<Rightarrow> Inl (ErrFmt ''failed to check acl rule for security group'')
         | Inr exists \<Rightarrow> Inr (\<not> exists))"

fun rules_lost :: "NbDb \<Rightarrow> string \<Rightarrow> string \<Rightarrow> int \<Rightarrow> SecurityGroupRule list \<Rightarrow> error + bool" where
  "rules_lost db name direction tier [] = Inr False"
| "rules_lost db name direction tier (rule # rules) =
     (case sgRuleNoACL db name direction rule tier of
        Inl err \<Rightarrow> Inl err
      | Inr no \<Rightarrow> if no then Inr True else rules_lost db name direction tier rules)"

definition SGLostACL :: "NbDb \<Rightarrow> SecurityGroup \<Rightarrow> error + bool" where
  "SGLostACL db sg =
     (let tier = ConvertSGTierToOvnTier (sgTier sg) in
      case rules_lost db (sgName sg) ToLport tier (sgIngressRules sg) of
        Inl err \<Rightarrow> Inl err
      | Inr lost \<Rightarrow> if lost then Inr True else rules_lost db (sgName sg) FromLport tier (sgEgressRules sg))"

section \<open>Logical switches\<close>

record SubnetACL =
  saDirection :: string
  saPriority :: int
  saMatch :: string
  saAction :: string

definition same_subnet_match :: "string \<Rightarrow> ACLMatch" where
  "same_subnet_match cidr =
     (let ipSuffix = suffix_of (CheckProtocol cidr) in
      AndACLMatch [NewACLMatch (ipSuffix @ ''.src'') ''=='' cidr [], NewACLMatch (ipSuffix @ ''.dst'') ''=='' cidr []])"

definition subnet_mark :: "string \<Rightarrow> ACL \<Rightarrow> ACL" where
  "subnet_mark lsName acl = acl\<lparr>aExternalIDs := mput ''subnet'' lsName (aExternalIDs acl)\<rparr>"

definition UpdateLogicalSwitchACL :: "transact \<Rightarrow> NbDb \<Rightarrow> string \<Rightarrow> string \<Rightarrow> SubnetACL list \<Rightarrow> bool \<Rightarrow> error + NbDb" where
  "UpdateLogicalSwitchACL tx db lsName cidrBlock subnetAcls allowEWTraffic =
     (if subnetAcls = [] then DeleteAcls tx db lsName LogicalSwitchKey [] [(''subnet'', lsName)]
      else
        let same = (if allowEWTraffic
              then concat (map (\<lambda>cidr. map (\<lambda>dir. newACL db lsName dir AllowEWTrafficPriority (ACLMatch_String (same_subnet_match cidr))
                     ActionAllow NetpolACLTier [subnet_mark lsName]) [ToLport, FromLport]) (split_char CHR '','' cidrBlock))
              else []);
            own = map (\<lambda>a. newACL db lsName (saDirection a) (Itoa (saPriority a)) (saMatch a) (saAction a) NetpolACLTier [subnet_mark lsName]) subnetAcls
        in case all_acls (same @ own) of
             Inl err \<Rightarrow> Inl err
           | Inr acls \<Rightarrow>
               (case DeleteAclsOps db lsName LogicalSwitchKey [] [(''subnet'', lsName)] of
                  Inl err \<Rightarrow> Inl err
                | Inr delOps \<Rightarrow>
                    (case CreateAclsOps db lsName LogicalSwitchKey acls of
                       Inl err \<Rightarrow> Inl err
                     | Inr addOps \<Rightarrow> Transact tx (delOps @ addOps) db)))"

definition node_matches :: "string \<Rightarrow> string \<Rightarrow> ACLMatch list" where
  "node_matches nodeSwitchCIDR protocol =
     map (\<lambda>nodeCidr. NewACLMatch (suffix_of protocol @ ''.src'') ''=='' nodeCidr [])
       (filter (\<lambda>nodeCidr. protocol = CheckProtocol nodeCidr) (split_char CHR '','' nodeSwitchCIDR))"

definition allow_subnet_matches :: "string list \<Rightarrow> string \<Rightarrow> ACLMatch list" where
  "allow_subnet_matches allowSubnets cidr =
     (let protocol = CheckProtocol cidr; src = suffix_of protocol @ ''.src''; dst = suffix_of protocol @ ''.dst'' in
      map (\<lambda>subnet. OrACLMatch
             [AndACLMatch [NewACLMatch src ''=='' cidr [], NewACLMatch dst ''=='' subnet []],
              AndACLMatch [NewACLMatch src ''=='' subnet [], NewACLMatch dst ''=='' cidr []]])
        (filter (\<lambda>subnet. subnet \<noteq> [] \<and> CheckProtocol subnet = protocol) (map TrimSpace allowSubnets)))"

definition private_logging :: "string \<Rightarrow> ACL \<Rightarrow> ACL" where
  "private_logging lsName acl = (setACLName lsName acl)\<lparr>aLog := True, aSeverity := Some SeverityWarning\<rparr>"

definition SetLogicalSwitchPrivate :: "transact \<Rightarrow> NbDb \<Rightarrow> string \<Rightarrow> string \<Rightarrow> string \<Rightarrow> string list \<Rightarrow> error + NbDb" where
  "SetLogicalSwitchPrivate tx db lsName cidrBlock nodeSwitchCIDR allowSubnets =
     (case DeleteAcls tx db lsName LogicalSwitchKey [] [] of
        Inl err \<Rightarrow> Inl err
      | Inr db \<Rightarrow>
          let new = (\<lambda>priority m. newACL db lsName ToLport priority (ACLMatch_String m) ActionAllowRelated NetpolACLTier [])
          in case all_acls (newACL db lsName ToLport DefaultDropPriority (ACLMatch_String (NewACLMatch ''ip'' [] [] [])) ActionDrop NetpolACLTier [private_logging lsName] #
                   concat (map (\<lambda>cidr. new SubnetAllowPriority (same_subnet_match cidr) #
                     map (new NodeAllowPriority) (node_matches nodeSwitchCIDR (CheckProtocol cidr)) @
                     map (new SubnetAllowPriority) (allow_subnet_matches allowSubnets cidr)) (split_char CHR '','' cidrBlock))) of
               Inl err \<Rightarrow> Inl err
             | Inr acls \<Rightarrow> CreateAcls tx db lsName LogicalSwitchKey acls)"

section \<open>Nodes and gateways\<close>

definition CreateGatewayACL :: "transact \<Rightarrow> NbDb \<Rightarrow> string \<Rightarrow> string \<Rightarrow> error + NbDb" where
  "CreateGatewayACL tx db lsName pgName =
     (if pgName = [] \<and> lsName = [] then Inl (ErrFmt ''one of port group name and logical switch name must be specified'')
      else
        let (parentName, parentType) = (if pgName \<noteq> [] then (pgName, portGroupKey) else (lsName, LogicalSwitchKey)) in
        case all_acls [newACL db parentName FromLport EgressAllowPriority ''icmp6'' ActionAllowStateless NetpolACLTier [set_option ''apply-after-lb'' ''true''],
                       newACL db parentName ToLport IngressAllowPriority ''icmp6'' ActionAllowStateless NetpolACLTier []] of
          Inl err \<Rightarrow> Inl err
        | Inr acls \<Rightarrow> CreateAcls tx db parentName parentType acls)"

definition node_in :: "string \<Rightarrow> string \<Rightarrow> string" where
  "node_in pgName ip = (let s = suffix_of (CheckProtocol ip) in s @ ''.src == '' @ ip @ '' && '' @ s @ ''.dst == $'' @ pgName @ ''_'' @ s)"

definition node_out :: "string \<Rightarrow> string \<Rightarrow> string" where
  "node_out pgName ip = (let s = suffix_of (CheckProtocol ip) in s @ ''.dst == '' @ ip @ '' && '' @ s @ ''.src == $'' @ pgName @ ''_'' @ s)"

fun drop_join_acls :: "transact \<Rightarrow> NbDb \<Rightarrow> string \<Rightarrow> string list \<Rightarrow> error + NbDb" where
  "drop_join_acls tx db pgName [] = Inr db"
| "drop_join_acls tx db pgName (joinIP # joinIPs) =
     (case DeleteACL tx db pgName portGroupKey ToLport NodeAllowPriority (node_in pgName joinIP) NetpolACLTier of
        Inl err \<Rightarrow> Inl err
      | Inr db \<Rightarrow>
          (case DeleteACL tx db pgName portGroupKey FromLport NodeAllowPriority (node_out pgName joinIP) NetpolACLTier of
             Inl err \<Rightarrow> Inl err
           | Inr db \<Rightarrow> drop_join_acls tx db pgName joinIPs))"

definition CreateNodeACL :: "transact \<Rightarrow> NbDb \<Rightarrow> string \<Rightarrow> string \<Rightarrow> string \<Rightarrow> error + NbDb" where
  "CreateNodeACL tx db pgName nodeIPStr joinIPStr =
     (let nodeIPs = split_char CHR '','' nodeIPStr in
      case all_acls (concat (map (\<lambda>ip.
             [newACL db pgName ToLport NodeAllowPriority (node_in pgName ip) ActionAllowRelated NetpolACLTier [],
              newACL db pgName FromLport NodeAllowPriority (node_out pgName ip) ActionAllowRelated NetpolACLTier [set_option ''apply-after-lb'' ''true'']]) nodeIPs)) of
        Inl err \<Rightarrow> Inl err
      | Inr acls \<Rightarrow>
          (case drop_join_acls tx db pgName (filter (\<lambda>ip. ip \<notin> set nodeIPs) (split_char CHR '','' joinIPStr)) of
             Inl err \<Rightarrow> Inl err
           | Inr db \<Rightarrow> CreateAcls tx db pgName portGroupKey acls))"

definition SetNetPolACLLog :: "transact \<Rightarrow> NbDb \<Rightarrow> string \<Rightarrow> bool \<Rightarrow> bool \<Rightarrow> error + NbDb" where
  "SetNetPolACLLog tx db pgName logEnable isIngress =
     (let direction = (if isIngress then ToLport else FromLport) in
      case GetACL db pgName direction IngressDefaultDrop (ACLMatch_String (all_ip_match pgName direction)) NetpolACLTier True of
        Inl _ \<Rightarrow> Inl (ErrFmt ''get acl'')
      | Inr None \<Rightarrow> Inr db
      | Inr (Some acl) \<Rightarrow> if aLog acl = logEnable then Inr db else UpdateACL tx db (acl\<lparr>aLog := logEnable\<rparr>))"

definition MigrateACLTier :: "transact \<Rightarrow> NbDb \<Rightarrow> error + NbDb" where
  "MigrateACLTier tx db =
     (if nbErr db then Inl (ErrFmt ''failed to list acls with tier 0'')
      else Transact tx (map (\<lambda>acl. OpUpdate (acl\<lparr>aTier := NetpolACLTier\<rparr>)) (filter (\<lambda>acl. aTier acl = 0) (nbACLs db))) db)"

section \<open>The switch of a subnet\<close>

text \<open>
  The part of \<open>handleAddOrUpdateSubnet\<close> (pkg/controller/subnet.go) that brings the rows of a subnet's switch up to date.
  \<open>patch\<close> stands for \<open>patchSubnetStatus\<close>, by reason.
\<close>

definition subnet_acls ::
  "transact \<Rightarrow> (string \<Rightarrow> error option) \<Rightarrow> NbDb \<Rightarrow> string \<Rightarrow> string \<Rightarrow> string \<Rightarrow> bool \<Rightarrow> string list \<Rightarrow> SubnetACL list \<Rightarrow> bool \<Rightarrow> error + NbDb" where
  "subnet_acls tx patch db nodeSwitchCIDR name cidrBlock private allowSubnets subnetAcls allowEWTraffic =
     (let failed = (\<lambda>reason err. case patch reason of None \<Rightarrow> Inl err | Some patchErr \<Rightarrow> Inl (ErrFmt ''joined''));
          reset = (if private then SetLogicalSwitchPrivate tx db name cidrBlock nodeSwitchCIDR allowSubnets else DeleteAcls tx db name LogicalSwitchKey [] [])
      in case reset of
           Inl err \<Rightarrow> failed (if private then ''SetPrivateLogicalSwitchFailed'' else ''ResetLogicalSwitchAclFailed'') err
         | Inr db \<Rightarrow>
             (case patch (if private then ''SetPrivateLogicalSwitchSuccess'' else ''ResetLogicalSwitchAclSuccess'') of
                Some err \<Rightarrow> Inl err
              | None \<Rightarrow>
                  (case UpdateLogicalSwitchACL tx db name cidrBlock subnetAcls allowEWTraffic of
                     Inl err \<Rightarrow> failed ''SetLogicalSwitchAclsFailed'' err
                   | Inr db \<Rightarrow> Inr db)))"

end
