(* ===== verification/SecurityGroupSync.thy ===== *)
theory SecurityGroupSync
  imports OvnAcl Validate
begin

text \<open>
  The handler of security groups: \<open>validateSgRule\<close> and \<open>handleAddOrUpdateSg\<close> of
  pkg/controller/security_group.go. The group and its status come from the lister; the digest of a list of rules and the existence of a group are
  parameters. The result is the last status the handler sends, with the database after it or an error;
  \<open>denyPorts\<close> is the outcome of \<open>updateDenyAllSgPorts\<close>.
\<close>

section \<open>The code\<close>

record SgStatus =
  ssPortGroup :: string
  ssAllowSameGroupTraffic :: bool
  ssIngressMd5 :: string
  ssEgressMd5 :: string
  ssIngressLastSyncSuccess :: bool
  ssEgressLastSyncSuccess :: bool

definition DenyAllSecurityGroup :: string where "DenyAllSecurityGroup = ''kubeovn_deny_all''"
definition sgKey :: string where "sgKey = ''sg''"
definition SecurityGroupPriorityMin :: int where "SecurityGroupPriorityMin = 1"
definition SecurityGroupPriorityMax :: int where "SecurityGroupPriorityMax = 16384"

definition address_bad :: "string \<Rightarrow> bool" where
  "address_bad a = (if str_contains a ''/'' then CheckCidrs a \<noteq> None else \<not> IsValidIP a)"

definition port_range_bad :: "int \<Rightarrow> int \<Rightarrow> bool" where
  "port_range_bad lo hi = (lo < 1 \<or> lo > 65535 \<or> hi < 1 \<or> hi > 65535)"

text \<open>The error of one rule, the first that the code finds.\<close>

definition sg_rule_error :: "(string \<Rightarrow> bool) \<Rightarrow> int \<Rightarrow> SecurityGroupRule \<Rightarrow> error option" where
  "sg_rule_error sgExists tier rule =
     (if srIPVersion rule \<noteq> ''ipv4'' \<and> srIPVersion rule \<noteq> ''ipv6'' then Some (ErrFmt ''IPVersion'')
      else if srPriority rule < SecurityGroupPriorityMin \<or> srPriority rule > SecurityGroupPriorityMax then Some (ErrFmt ''priority'')
      else if tier = SecurityGroupAPITierMaximum \<and> srPolicy rule = ActionPass then Some (ErrFmt ''policy pass'')
      else if srRemoteType rule = SgRemoteTypeAddress \<and> address_bad (srRemoteAddress rule) then Some (ErrFmt ''invalid remote address'')
      else if srRemoteType rule = SgRemoteTypeSg \<and> \<not> sgExists (srRemoteSecurityGroup rule) then Some (ErrFmt ''failed to get remote sg'')
      else if srRemoteType rule \<noteq> SgRemoteTypeAddress \<and> srRemoteType rule \<noteq> SgRemoteTypeSg then Some (ErrFmt ''not support sgRemoteType'')
      else if srLocalAddress rule \<noteq> [] \<and> address_bad (srLocalAddress rule) then Some (ErrFmt ''invalid local address'')
      else if srProtocol rule = SgProtocolTCP \<or> srProtocol rule = SgProtocolUDP then
        (if port_range_bad (srPortRangeMin rule) (srPortRangeMax rule) then Some (ErrFmt ''portRange is out of range'')
         else if srPortRangeMin rule > srPortRangeMax rule then Some (ErrFmt ''portRange err'')
         else if srLocalAddress rule \<noteq> [] \<and> port_range_bad (srSourcePortRangeMin rule) (srSourcePortRangeMax rule) then Some (ErrFmt ''sourcePortRange is out of range'')
         else if srLocalAddress rule \<noteq> [] \<and> srSourcePortRangeMin rule > srSourcePortRangeMax rule then Some (ErrFmt ''sourcePortRange err'')
         else None)
      else None)"

definition validateSgRule :: "(string \<Rightarrow> bool) \<Rightarrow> SecurityGroup \<Rightarrow> error option" where
  "validateSgRule sgExists sg =
     (case ValidateSecurityGroupTier (sgTier sg) of
        Some err \<Rightarrow> Some err
      | None \<Rightarrow> first_error (map (sg_rule_error sgExists (sgTier sg)) (sgIngressRules sg @ sgEgressRules sg)))"

definition st_ok :: "SgStatus \<Rightarrow> string \<Rightarrow> bool" where
  "st_ok st direction = (if direction = FromLport then ssEgressLastSyncSuccess st else ssIngressLastSyncSuccess st)"

definition st_md5 :: "SgStatus \<Rightarrow> string \<Rightarrow> string" where
  "st_md5 st direction = (if direction = FromLport then ssEgressMd5 st else ssIngressMd5 st)"

definition set_st :: "string \<Rightarrow> string \<Rightarrow> SgStatus \<Rightarrow> SgStatus" where
  "set_st direction md5 st =
     (if direction = FromLport then st\<lparr>ssEgressMd5 := md5, ssEgressLastSyncSuccess := True\<rparr> else st\<lparr>ssIngressMd5 := md5, ssIngressLastSyncSuccess := True\<rparr>)"

definition set_failed :: "string \<Rightarrow> SgStatus \<Rightarrow> SgStatus" where
  "set_failed direction st = (if direction = FromLport then st\<lparr>ssEgressLastSyncSuccess := False\<rparr> else st\<lparr>ssIngressLastSyncSuccess := False\<rparr>)"

text \<open>Whether the rows of a direction have to be made anew, and the digest to be stored.\<close>

definition need_update :: "(SecurityGroupRule list \<Rightarrow> string) \<Rightarrow> bool \<Rightarrow> SgStatus \<Rightarrow> SecurityGroup \<Rightarrow> string \<Rightarrow> bool" where
  "need_update md5 force st sg direction =
     (force \<or> \<not> st_ok st direction \<or> md5 (sg_rules sg direction) \<noteq> st_md5 st direction \<or> ssAllowSameGroupTraffic st \<noteq> sgAllowSameGroupTraffic sg)"

definition new_md5 :: "(SecurityGroupRule list \<Rightarrow> string) \<Rightarrow> bool \<Rightarrow> SecurityGroup \<Rightarrow> string \<Rightarrow> string" where
  "new_md5 md5 force sg direction = (if force then [] else md5 (sg_rules sg direction))"

definition update_direction ::
  "transact \<Rightarrow> SecurityGroup \<Rightarrow> string \<Rightarrow> string \<Rightarrow> bool \<Rightarrow> NbDb \<Rightarrow> SgStatus \<Rightarrow> (error \<times> SgStatus) + (NbDb \<times> SgStatus)" where
  "update_direction tx sg direction md5 need db st =
     (if \<not> need then Inr (db, st)
      else case UpdateSgACL tx db sg direction of
          Inl err \<Rightarrow> Inl (err, set_failed direction st)
        | Inr db \<Rightarrow>
            (case CreateSgBaseACL tx db (sgName sg) direction of
               Inl err \<Rightarrow> Inl (err, st)
             | Inr db \<Rightarrow> Inr (db, set_st direction md5 st)))"

text \<open>The port group and the two address sets.\<close>

definition sg_objects :: "transact \<Rightarrow> NbDb \<Rightarrow> SecurityGroup \<Rightarrow> error + NbDb" where
  "sg_objects tx db sg =
     (case CreatePortGroup tx db (GetSgPortGroupName (sgName sg)) [(''type'', ''security_group''), (sgKey, sgName sg)] of
        Inl err \<Rightarrow> Inl err
      | Inr db \<Rightarrow>
          (case CreateAddressSet tx db (GetSgV4AssociatedName (sgName sg)) [(sgKey, sgName sg)] of
             Inl err \<Rightarrow> Inl err
           | Inr db \<Rightarrow> CreateAddressSet tx db (GetSgV6AssociatedName (sgName sg)) [(sgKey, sgName sg)]))"

definition handleAddOrUpdateSg ::
  "transact \<Rightarrow> (SecurityGroupRule list \<Rightarrow> string) \<Rightarrow> (string \<Rightarrow> bool) \<Rightarrow> error option \<Rightarrow> (error + SecurityGroup option) \<Rightarrow> string \<Rightarrow> bool \<Rightarrow> NbDb \<Rightarrow> SgStatus \<Rightarrow>
   (error \<times> SgStatus) + (NbDb \<times> SgStatus)" where
  "handleAddOrUpdateSg tx md5 sgExists denyPorts cachedSg key force db st =
     (case if key = DenyAllSecurityGroup then denyPorts else None of
        Some err \<Rightarrow> Inl (err, st)
      | None \<Rightarrow>
          (case cachedSg of
             Inl err \<Rightarrow> Inl (err, st)
           | Inr None \<Rightarrow> Inr (db, st)
           | Inr (Some sg) \<Rightarrow>
               (case validateSgRule sgExists sg of
                  Some err \<Rightarrow> Inl (err, st)
                | None \<Rightarrow>
                    (case sg_objects tx db sg of
                       Inl err \<Rightarrow> Inl (err, st)
                     | Inr db \<Rightarrow>
                         (case update_direction tx sg ToLport (new_md5 md5 force sg ToLport) (need_update md5 force st sg ToLport) db st of
                            Inl e \<Rightarrow> Inl e
                          | Inr (db, st1) \<Rightarrow>
                              (case update_direction tx sg FromLport (new_md5 md5 force sg FromLport) (need_update md5 force st sg FromLport) db st1 of
                                 Inl e \<Rightarrow> Inl e
                               | Inr (db, st2) \<Rightarrow>
                                   Inr (db, st2\<lparr>ssPortGroup := GetSgPortGroupName (sgName sg), ssAllowSameGroupTraffic := sgAllowSameGroupTraffic sg\<rparr>)))))))"

end
