(* ===== verification/NbServer.thy ===== *)
theory NbServer
  imports OvnAcl
begin

text \<open>
  The northbound database server. The client's operations are its interface: \<open>nb_step\<close> says what each does, and a
  transaction that succeeds runs them in order. With that, what listing, deleting and creating
  rows through the client does to the database.
\<close>

section \<open>The server\<close>

text \<open>
  What the documentation of the database says of the operations: a row that is added gets a UUID no row has and
  hangs on its parent, rows removed from a parent go, an updated row replaces the row with its UUID, a port group or an address set has the external ids it is given. A
  transaction that succeeds has done all its operations in order.
\<close>

inductive nb_step :: "NbOp \<Rightarrow> NbDb \<Rightarrow> NbDb \<Rightarrow> bool" where
  add: "u \<notin> aUUID ` set (nbACLs db) \<Longrightarrow> nb_step (OpAdd t n a) db (db\<lparr>nbACLs := nbACLs db @ [a\<lparr>aUUID := u, aParentOf := (t, n)\<rparr>]\<rparr>)"
| remove: "nb_step (OpRemove t n us) db (db\<lparr>nbACLs := filter (\<lambda>a. \<not> (aUUID a \<in> set us \<and> aParentOf a = (t, n))) (nbACLs db)\<rparr>)"
| update: "nb_step (OpUpdate a) db (db\<lparr>nbACLs := map (\<lambda>b. if aUUID b = aUUID a then a else b) (nbACLs db)\<rparr>)"
| group: "nb_step (OpPortGroup n ids) db (db\<lparr>nbParents := List.insert (portGroupKey, n) (nbParents db), nbGroupIDs := mput n ids (nbGroupIDs db)\<rparr>)"
| address: "nb_step (OpAddressSet n ids) db (db\<lparr>nbSets := mput n ids (nbSets db)\<rparr>)"

inductive_cases nb_groupE: "nb_step (OpPortGroup n ids) db db'"
inductive_cases nb_addressE: "nb_step (OpAddressSet n ids) db db'"
inductive_cases nb_addE: "nb_step (OpAdd t n a) db db'"
inductive_cases nb_removeE: "nb_step (OpRemove t n us) db db'"
inductive_cases nb_updateE: "nb_step (OpUpdate a) db db'"

inductive nb_run :: "NbOp list \<Rightarrow> NbDb \<Rightarrow> NbDb \<Rightarrow> bool" where
  ran: "nb_run [] db db"
| more: "nb_step x db db1 \<Longrightarrow> nb_run xs db1 db2 \<Longrightarrow> nb_run (x # xs) db db2"

inductive_cases nb_run_NilE [elim!]: "nb_run [] db db'"
inductive_cases nb_run_ConsE [elim!]: "nb_run (x # xs) db db'"

definition nb_server :: "transact \<Rightarrow> bool" where
  "nb_server tx = (\<forall>ops db db'. tx ops db = Inr db' \<longrightarrow> nb_run ops db db')"

text \<open>A row without what the server adds, and the parent its external ids name.\<close>

definition core :: "ACL \<Rightarrow> ACL" where
  "core a = a\<lparr>aUUID := 0, aParentOf := ([], [])\<rparr>"

definition owner :: "ACL \<Rightarrow> string" where
  "owner a = mget0 (aExternalIDs a) aclParentKey"

text \<open>The rows of a parent are those that name it: the client finds all of them, and no others. UUIDs are unique.\<close>

definition tidy :: "NbDb \<Rightarrow> string \<Rightarrow> string \<Rightarrow> bool" where
  "tidy db t n = (distinct (map aUUID (nbACLs db)) \<and> (\<forall>a\<in>set (nbACLs db). owner a = n \<longleftrightarrow> aParentOf a = (t, n)))"

lemma core_simps [simp]:
  "aAction (core a) = aAction a" "aDirection (core a) = aDirection a" "aMatch (core a) = aMatch a" "aPriority (core a) = aPriority a"
  "aTier (core a) = aTier a" "aExternalIDs (core a) = aExternalIDs a" "aUUID (core a) = 0" "aParentOf (core a) = ([], [])"
  by (simp_all add: core_def)

lemma core_stored [simp]: "core (a\<lparr>aUUID := u, aParentOf := p\<rparr>) = core a"
  by (simp add: core_def)

lemma owner_core [simp]: "owner (core a) = owner a"
  by (simp add: owner_def)

lemma owner_cong: "core a = core b \<Longrightarrow> owner a = owner b"
  by (metis owner_core)

lemma nb_run_add:
  "nb_run (map (OpAdd t n) rows @ rest) db db' \<Longrightarrow> tidy db t n \<Longrightarrow> \<forall>a\<in>set rows. owner a = n \<Longrightarrow>
   \<exists>new. map core new = map core rows \<and> tidy (db\<lparr>nbACLs := nbACLs db @ new\<rparr>) t n \<and> nb_run rest (db\<lparr>nbACLs := nbACLs db @ new\<rparr>) db'"
proof (induction rows arbitrary: db)
  case Nil
  then show ?case by (intro exI [of _ "[]"]) simp
next
  case (Cons a rows)
  then obtain db1 where s: "nb_step (OpAdd t n a) db db1" "nb_run (map (OpAdd t n) rows @ rest) db1 db'" by auto
  from s(1) obtain u where u: "u \<notin> aUUID ` set (nbACLs db)" "db1 = db\<lparr>nbACLs := nbACLs db @ [a\<lparr>aUUID := u, aParentOf := (t, n)\<rparr>]\<rparr>" by (auto elim: nb_addE)
  let ?b = "a\<lparr>aUUID := u, aParentOf := (t, n)\<rparr>"
  have "owner ?b = n" using Cons.prems(3) owner_cong [of ?b a] by simp
  then have "tidy db1 t n" using Cons.prems(2) u by (auto simp: tidy_def)
  with Cons.IH [OF s(2)] Cons.prems(3) obtain new where
    "map core new = map core rows" "tidy (db1\<lparr>nbACLs := nbACLs db1 @ new\<rparr>) t n" "nb_run rest (db1\<lparr>nbACLs := nbACLs db1 @ new\<rparr>) db'" by auto
  then show ?case using u(2) by (intro exI [of _ "?b # new"]) simp
qed

lemma Transact_run: "nb_server tx \<Longrightarrow> Transact tx ops db = Inr db' \<Longrightarrow> nb_run ops db db'"
  by (auto simp: nb_server_def Transact_def nb_run.intros split: if_splits)

section \<open>Listing, deleting and creating rows\<close>

lemma aclFilter_own: "n \<noteq> [] \<Longrightarrow> aclFilter d [(aclParentKey, n)] a \<longleftrightarrow> owner a = n \<and> (d = [] \<or> aDirection a = d)"
  by (cases "aExternalIDs a") (auto simp: aclFilter_def owner_def mget0_def)

lemma aclFilter_owner: "n \<noteq> [] \<Longrightarrow> aclFilter d (mput aclParentKey n ext) a \<Longrightarrow> owner a = n"
proof -
  assume n: "n \<noteq> []" and f: "aclFilter d (mput aclParentKey n ext) a"
  have mem: "(aclParentKey, n) \<in> set (mput aclParentKey n ext)" using map_of_SomeD [of "mput aclParentKey n ext" aclParentKey n] by simp
  then have "mput aclParentKey n ext \<noteq> []" by auto
  then have "aExternalIDs a \<noteq> []" using f by (cases "aExternalIDs a") (auto simp: aclFilter_def)
  then show ?thesis using f mem n by (auto simp: aclFilter_def owner_def list_all_iff split: if_splits)
qed

definition kind_ok :: "string \<Rightarrow> bool" where
  "kind_ok t = (t = portGroupKey \<or> t = LogicalSwitchKey)"

lemma keys_differ [simp]: "portGroupKey \<noteq> LogicalSwitchKey" "LogicalSwitchKey \<noteq> portGroupKey"
  by (simp_all add: portGroupKey_def LogicalSwitchKey_def)

lemma tidy_filter: "tidy db t n \<Longrightarrow> tidy (db\<lparr>nbACLs := filter P (nbACLs db)\<rparr>) t n"
  by (auto simp: tidy_def distinct_map_filter)

text \<open>Removing the listed rows of a parent keeps exactly the rows that are not listed.\<close>

lemma remove_listed:
  assumes "tidy db t n" "n \<noteq> []"
  shows "filter (\<lambda>a. \<not> (aUUID a \<in> set (map aUUID (filter (aclFilter d (mput aclParentKey n ext)) (nbACLs db))) \<and> aParentOf a = (t, n))) (nbACLs db) =
    filter (\<lambda>a. \<not> aclFilter d (mput aclParentKey n ext) a) (nbACLs db)"
proof (rule filter_cong)
  fix a assume a: "a \<in> set (nbACLs db)"
  have "inj_on aUUID (set (nbACLs db))" using assms(1) by (simp add: tidy_def distinct_map)
  then have "aUUID a \<in> aUUID ` {b \<in> set (nbACLs db). aclFilter d (mput aclParentKey n ext) b} \<longleftrightarrow> aclFilter d (mput aclParentKey n ext) a"
    using a by (auto dest: inj_onD)
  then show "(\<not> (aUUID a \<in> set (map aUUID (filter (aclFilter d (mput aclParentKey n ext)) (nbACLs db))) \<and> aParentOf a = (t, n))) =
    (\<not> aclFilter d (mput aclParentKey n ext) a)"
    using a assms aclFilter_owner [of n d ext a] by (auto simp: tidy_def)
qed simp

lemma DeleteAclsOps_run:
  assumes t: "kind_ok t" "n \<noteq> []" "tidy db t n" and o: "DeleteAclsOps db n t d ext = Inr ops" and r: "nb_run (ops @ rest) db db'"
  shows "nb_run rest (db\<lparr>nbACLs := filter (\<lambda>a. \<not> aclFilter d (mput aclParentKey n ext) a) (nbACLs db)\<rparr>) db'"
proof -
  let ?us = "map aUUID (filter (aclFilter d (mput aclParentKey n ext)) (nbACLs db))"
  consider "?us = []" "ops = []" | "ops = [OpRemove t n ?us]"
    using o t by (auto simp: DeleteAclsOps_def ListAcls_def parent_op_def kind_ok_def Let_def split: if_splits)
  then show ?thesis
  proof cases
    case 1
    then have "filter (\<lambda>a. \<not> aclFilter d (mput aclParentKey n ext) a) (nbACLs db) = nbACLs db"
      by (auto simp: filter_id_conv filter_empty_conv)
    then show ?thesis using r 1 by simp
  next
    case 2
    then show ?thesis using r remove_listed [OF t(3,2), of d ext] by (auto elim!: nb_removeE)
  qed
qed

lemma CreateAclsOps_ops: "kind_ok t \<Longrightarrow> CreateAclsOps db n t acls = Inr ops \<Longrightarrow> ops = map (OpAdd t n) (List.map_filter id acls)"
  by (auto simp: CreateAclsOps_def parent_op_def kind_ok_def Let_def split: if_splits)

lemma DeleteAcls_rows:
  assumes "nb_server tx" "kind_ok t" "n \<noteq> []" "tidy db t n" "DeleteAcls tx db n t d ext = Inr db'"
  shows "db' = db\<lparr>nbACLs := filter (\<lambda>a. \<not> aclFilter d (mput aclParentKey n ext) a) (nbACLs db)\<rparr>"
proof -
  obtain ops where o: "DeleteAclsOps db n t d ext = Inr ops" "Transact tx ops db = Inr db'"
    using assms(5) by (auto simp: DeleteAcls_def split: sum.splits)
  have "nb_run (ops @ []) db db'" using Transact_run [OF assms(1) o(2)] by simp
  from DeleteAclsOps_run [OF assms(2,3,4) o(1) this] show ?thesis by auto
qed

lemma CreateAcls_rows:
  assumes "nb_server tx" "kind_ok t" "tidy db t n" "\<forall>a. Some a \<in> set acls \<longrightarrow> owner a = n" "CreateAcls tx db n t acls = Inr db'"
  shows "\<exists>new. db' = db\<lparr>nbACLs := nbACLs db @ new\<rparr> \<and> map core new = map core (List.map_filter id acls) \<and> tidy db' t n"
proof -
  obtain ops where o: "CreateAclsOps db n t acls = Inr ops" "Transact tx ops db = Inr db'"
    using assms(5) by (auto simp: CreateAcls_def split: sum.splits)
  have "\<forall>a\<in>set (List.map_filter id acls). owner a = n" using assms(4) by (auto simp: map_filter_def)
  moreover have "nb_run (map (OpAdd t n) (List.map_filter id acls) @ []) db db'"
    using Transact_run [OF assms(1) o(2)] CreateAclsOps_ops [OF assms(2) o(1)] by simp
  ultimately show ?thesis using nb_run_add [of t n "List.map_filter id acls" "[]" db db'] assms(3) by auto
qed

definition never_fails :: "transact \<Rightarrow> bool" where
  "never_fails tx = (\<forall>ops db. \<exists>db'. tx ops db = Inr db')"

lemma Transact_succeeds: "never_fails tx \<Longrightarrow> \<exists>db'. Transact tx ops db = Inr db'"
  by (simp add: never_fails_def Transact_def)

lemma CreateAcls_succeeds: "never_fails tx \<Longrightarrow> kind_ok t \<Longrightarrow> (t, n) \<in> set (nbParents db) \<Longrightarrow> \<exists>db'. CreateAcls tx db n t acls = Inr db'"
  using Transact_succeeds by (auto simp: CreateAcls_def CreateAclsOps_def parent_op_def kind_ok_def Let_def)

lemma DeleteAcls_succeeds:
  "never_fails tx \<Longrightarrow> kind_ok t \<Longrightarrow> (t, n) \<in> set (nbParents db) \<Longrightarrow> n \<noteq> [] \<Longrightarrow> \<not> nbErr db \<Longrightarrow> \<exists>db'. DeleteAcls tx db n t d ext = Inr db'"
  using Transact_succeeds by (auto simp: DeleteAcls_def DeleteAclsOps_def ListAcls_def parent_op_def kind_ok_def Let_def)

text \<open>A server that carries out every operation, with the next number as UUID.\<close>

fun nb_exec :: "NbOp \<Rightarrow> NbDb \<Rightarrow> NbDb" where
  "nb_exec (OpAdd t n a) db = db\<lparr>nbACLs := nbACLs db @ [a\<lparr>aUUID := Suc (Max (insert 0 (aUUID ` set (nbACLs db)))), aParentOf := (t, n)\<rparr>]\<rparr>"
| "nb_exec (OpRemove t n us) db = db\<lparr>nbACLs := filter (\<lambda>a. \<not> (aUUID a \<in> set us \<and> aParentOf a = (t, n))) (nbACLs db)\<rparr>"
| "nb_exec (OpUpdate a) db = db\<lparr>nbACLs := map (\<lambda>b. if aUUID b = aUUID a then a else b) (nbACLs db)\<rparr>"
| "nb_exec (OpPortGroup n ids) db = db\<lparr>nbParents := List.insert (portGroupKey, n) (nbParents db), nbGroupIDs := mput n ids (nbGroupIDs db)\<rparr>"
| "nb_exec (OpAddressSet n ids) db = db\<lparr>nbSets := mput n ids (nbSets db)\<rparr>"

definition nb_do :: transact where
  "nb_do ops db = Inr (fold nb_exec ops db)"

lemma nb_exec_step: "nb_step x db (nb_exec x db)"
proof (cases x)
  case (OpAdd t n a)
  have "Suc (Max (insert 0 (aUUID ` set (nbACLs db)))) \<notin> aUUID ` set (nbACLs db)"
    by (metis Max_ge Suc_n_not_le_n finite_imageI finite_insert insertCI List.finite_set)
  then show ?thesis unfolding OpAdd nb_exec.simps by (rule nb_step.add)
next
  case (OpRemove t n us)
  then show ?thesis unfolding OpRemove nb_exec.simps by (intro nb_step.remove)
next
  case (OpUpdate a)
  then show ?thesis unfolding OpUpdate nb_exec.simps by (intro nb_step.update)
next
  case (OpPortGroup n ids)
  then show ?thesis unfolding OpPortGroup nb_exec.simps by (intro nb_step.group)
next
  case (OpAddressSet n ids)
  then show ?thesis unfolding OpAddressSet nb_exec.simps by (intro nb_step.address)
qed

lemma nb_exec_run: "nb_run xs db (fold nb_exec xs db)"
  by (induction xs arbitrary: db) (auto intro: nb_run.intros nb_exec_step)

lemma nb_do_server: "nb_server nb_do" "never_fails nb_do"
  using nb_exec_run by (auto simp: nb_server_def never_fails_def nb_do_def)

end
