(* ===== verification/OvnAclProps.thy ===== *)
theory OvnAclProps
  imports OvnAcl
begin

text \<open>
  What the rows of network policies match. The texts of the code's matches are plain, so that every match reads as its tree
  says; with that the rows of a policy match exactly the traffic it names.
\<close>

section \<open>Plain texts\<close>

definition plain :: "string \<Rightarrow> bool" where
  "plain s = (s \<noteq> [] \<and> set s \<inter> (reserved \<union> {CHR '' ''}) = {})"

text \<open>A text without reserved characters that does not end with a space: the values of comparisons.\<close>

definition closed :: "string \<Rightarrow> bool" where
  "closed s = (s \<noteq> [] \<and> set s \<inter> reserved = {} \<and> last s \<noteq> CHR '' '')"

lemma plain_closed: "plain s \<Longrightarrow> closed s"
  by (auto simp: plain_def closed_def dest: last_in_set)

lemma plain_append: "plain (s @ t) \<longleftrightarrow> (s \<noteq> [] \<or> t \<noteq> []) \<and> (s = [] \<or> plain s) \<and> (t = [] \<or> plain t)"
  by (auto simp: plain_def)

lemma plain_Cons: "plain (c # s) \<longleftrightarrow> c \<notin> reserved \<and> c \<noteq> CHR '' '' \<and> (s = [] \<or> plain s)"
  by (auto simp: plain_def)

lemma plain_Nil [simp]: "\<not> plain []"
  by (simp add: plain_def)

lemmas plain_simps = plain_append plain_Cons reserved_def

lemma clean_plain: "plain s \<Longrightarrow> clean s"
  by (auto simp: plain_def clean_def dest: last_in_set hd_in_set)

lemma clean_concat: "plain k \<Longrightarrow> set s \<inter> reserved = {} \<Longrightarrow> closed t \<Longrightarrow> clean (k @ s @ t)"
  by (auto simp: clean_def plain_def closed_def dest: hd_in_set)

lemma clean_compare: "plain k \<Longrightarrow> plain e \<Longrightarrow> closed v \<Longrightarrow> clean (atom_text k e v [])"
  using clean_concat [of k "'' '' @ e @ '' ''" v] by (simp add: atom_text_def plain_def closed_def reserved_def)

lemma clean_range: "plain k \<Longrightarrow> plain e \<Longrightarrow> plain v \<Longrightarrow> plain w \<Longrightarrow> clean (atom_text k e v w)"
  using clean_concat [of v "'' '' @ e @ '' '' @ k @ '' '' @ e @ '' ''" w] plain_closed [of w]
  by (simp add: atom_text_def plain_def closed_def reserved_def)

lemma clean_key: "plain k \<Longrightarrow> clean (atom_text k [] v w)"
  by (simp add: atom_text_def clean_plain)

lemma wf_compare: "plain k \<Longrightarrow> plain e \<Longrightarrow> closed v \<Longrightarrow> wf_match (NewACLMatch k e v [])"
  using clean_compare [of k e v] by (simp add: NewACLMatch_def plain_def)

lemma wf_range: "plain k \<Longrightarrow> plain e \<Longrightarrow> plain v \<Longrightarrow> plain w \<Longrightarrow> wf_match (NewACLMatch k e v w)"
  using clean_range [of k e v w] by (simp add: NewACLMatch_def plain_def)

lemma wf_key: "plain k \<Longrightarrow> wf_match (NewACLMatch k [] [] [])"
  using clean_key [of k] by (simp add: NewACLMatch_def plain_def)

lemma not_wide_new [simp]: "\<not> wide (NewACLMatch k e v w)"
  by (simp add: NewACLMatch_def)

lemma plain_dec: "plain (dec n)"
proof -
  have "c \<notin> set (dec n)" if "c \<in> {CHR ''('', CHR '')'', CHR ''&'', CHR ''|'', CHR '' ''}" for c
    by (rule dec_not_in) (use that in \<open>auto simp: is_digit_def\<close>)
  then show ?thesis by (auto simp: plain_def reserved_def)
qed

lemma plain_Itoa: "plain (Itoa n)"
  using plain_dec by (simp add: Itoa_def plain_simps)

lemma plain_replace: "plain s \<Longrightarrow> plain t \<Longrightarrow> plain (replace_char c t s)"
  by (induction s) (auto simp: replace_char_def plain_simps plain_append)

lemma Atoi_Itoa: "0 \<le> n \<Longrightarrow> n < 2 ^ 63 \<Longrightarrow> fst (Atoi_val (Itoa n)) = n"
  by (cases "dec (nat n)") (use dec_digits [of "nat n"] dec_val_dec [of "nat n"] dec_nonempty [of "nat n"] in \<open>auto simp: Atoi_val_def Itoa_def Let_def is_digit_def\<close>)

text \<open>The texts of the code.\<close>

lemma plain_consts [simp]:
  "plain (port_of d)" "plain (suffix_of p)" "plain (remote_of d)" "plain (local_of d)"
  by (auto simp: port_of_def suffix_of_def remote_of_def local_of_def plain_simps)

section \<open>Reading the texts of matches\<close>

lemma String_text: "text_of m t \<Longrightarrow> ACLMatch_String m = t"
  by (simp add: text_of_def ACLMatch_String_def)

lemma read_String: "wf_match m \<Longrightarrow> read_match at (ACLMatch_String m) = holds at m"
  using wf_text_of [of m] String_text by (auto simp: text_of_def)

lemma String_nonempty: "wf_match m \<Longrightarrow> ACLMatch_String m \<noteq> []"
proof -
  assume "wf_match m"
  then obtain t ps where t: "text_of m t" "shape (wide m) t ps" using wf_text_of unfolding text_of_def by metis
  then obtain p qs where p: "ps = p # qs" "p \<noteq> []" by (cases ps) (auto simp: shape_def part_def)
  then have "t \<noteq> []" using t(2) by (cases qs) (auto simp: shape_def)
  then show ?thesis using String_text [OF t(1)] by simp
qed

lemma wf_And: "ms \<noteq> [] \<Longrightarrow> \<forall>m\<in>set ms. wf_match m \<and> \<not> wide m \<Longrightarrow> wf_match (AndACLMatch ms)"
  by (simp add: list_all_iff)

lemmas wf_intros = wf_compare wf_range wf_key plain_closed plain_simps plain_Itoa

lemma wf_all_ip: "plain pg \<Longrightarrow> wf_match (all_ip_match pg d) \<and> \<not> wide (all_ip_match pg d)"
  by (simp add: all_ip_match_def wf_intros)

lemma wf_dhcp: "plain pg \<Longrightarrow> plain p \<Longrightarrow> plain s \<Longrightarrow> plain d \<Longrightarrow> plain f \<Longrightarrow> wf_match (dhcp_match p pg s d f)"
  by (simp add: dhcp_match_def wf_intros)

lemma closed_types [simp]: "closed ''{130, 133, 135, 136}''" "closed ''{130, 134, 135, 136}''"
  by (simp_all add: closed_def reserved_def)

lemma wf_base: "plain pg \<Longrightarrow> m \<in> set (base_matches pg d) \<Longrightarrow> wf_match m"
  by (auto simp: base_matches_def dhcpv4_match_def dhcpv6_match_def wf_dhcp wf_intros Let_def split: if_splits)

lemma wf_same_group: "plain pg \<Longrightarrow> plain as \<Longrightarrow> plain f \<Longrightarrow> wf_match (same_group_match pg d f as)"
  by (simp add: same_group_match_def wf_intros)

lemma wf_port: "wf_match m \<Longrightarrow> \<not> wide m \<Longrightarrow> wf_match x \<Longrightarrow> \<not> wide x \<Longrightarrow> wf_match (AndACLMatch [m, x])"
  by simp

section \<open>The text of a match\<close>

text \<open>
  C13. The text of a match means what the match means: reading it by its operators and parentheses, down to its
  comparisons, gives the truth of the tree, for every truth of the comparisons. It holds for every match
  without empty conjunctions and disjunctions in which no conjunction has a disjunction of several
  matches directly below it and every comparison is a text without operators and
  parentheses; lemma \<open>bare_or_misread\<close> shows that the text of other matches can mean something else.\<close>

theorem match_text_reads:
  assumes "wf_match m"
  shows "\<exists>t. Match m = Inr t \<and> ACLMatch_String m = t \<and> t \<noteq> [] \<and> (\<forall>at. read_match at t = holds at m)"
  using wf_text_of [OF assms] String_nonempty [OF assms] unfolding text_of_def ACLMatch_String_def by auto

theorem match_text_reads_witness:
  "\<exists>t. Match (AndACLMatch [NewACLMatch ''ip4'' [] [] [], groupACLMatch (OrACLMatch [NewACLMatch ''tcp'' [] [] [], NewACLMatch ''udp'' [] [] []])]) = Inr t \<and>
     ACLMatch_String (AndACLMatch [NewACLMatch ''ip4'' [] [] [], groupACLMatch (OrACLMatch [NewACLMatch ''tcp'' [] [] [], NewACLMatch ''udp'' [] [] []])]) = t \<and> t \<noteq> [] \<and>
     (\<forall>at. read_match at t = holds at (AndACLMatch [NewACLMatch ''ip4'' [] [] [], groupACLMatch (OrACLMatch [NewACLMatch ''tcp'' [] [] [], NewACLMatch ''udp'' [] [] []])]))"
  by (rule match_text_reads) (simp add: wf_intros)

text \<open>
  Without the group the text of such a match means something else: it holds for a packet that
  passes the last comparison only, where the match does not. The rule that blocks only some
  protocols writes their disjunction with its parentheses as one key; its text reads as meant.\<close>

lemma bare_or_misread:
  defines "m \<equiv> AndACLMatch [NewACLMatch ''ip4'' [] [] [], OrACLMatch [NewACLMatch ''tcp'' [] [] [], NewACLMatch ''udp'' [] [] []]]"
  shows "read_match (\<lambda>t. t = ''udp'') (ACLMatch_String m)" "\<not> holds (\<lambda>t. t = ''udp'') m"
  unfolding m_def by code_simp+

lemma default_block_reads:
  assumes "plain pg"
  shows "read_match at (ACLMatch_String (AndACLMatch [NewACLMatch (port_of d) ''=='' (''@'' @ pg) [],
      NewACLMatch (if lax then ''(tcp || udp || sctp)'' else ''ip'') [] [] []])) =
    (at (port_of d @ '' == @'' @ pg) \<and> (if lax then at ''tcp'' \<or> at ''udp'' \<or> at ''sctp'' else at ''ip''))"
proof -
  let ?p = "NewACLMatch (port_of d) ''=='' (''@'' @ pg) []" and ?k = "\<lambda>k. NewACLMatch k [] [] []"
  have p: "wf_match ?p" "\<not> wide ?p" "holds at ?p = at (port_of d @ '' == @'' @ pg)"
    using assms by (simp_all add: wf_intros) (simp add: NewACLMatch_def atom_text_def)+
  have "ACLMatch_String (AndACLMatch [?p, ?k ''(tcp || udp || sctp)'']) =
      ACLMatch_String (AndACLMatch [?p, groupACLMatch (OrACLMatch [?k ''tcp'', ?k ''udp'', ?k ''sctp''])])"
    by (simp add: ACLMatch_String_def NewACLMatch_def atom_text_def or_part_def str_contains_def)
  moreover have "wf_match (AndACLMatch [?p, groupACLMatch (OrACLMatch [?k ''tcp'', ?k ''udp'', ?k ''sctp''])])" "wf_match (AndACLMatch [?p, ?k ''ip''])"
    using p by (simp_all add: wf_intros)
  ultimately show ?thesis using p(3) read_String by (auto simp: NewACLMatch_def atom_text_def)
qed

section \<open>What the rows of a network policy match\<close>

text \<open>The packets a port of a policy admits, in terms of the comparisons of the database.\<close>

definition port_hits :: "(string \<Rightarrow> bool) \<Rightarrow> (string, int) gomap \<Rightarrow> NetworkPolicyPort \<Rightarrow> bool" where
  "port_hits at namedPortMap port =
     (case nppProtocol port of
        None \<Rightarrow> False
      | Some p \<Rightarrow>
          let one = (\<lambda>n. at (ToLower p @ ''.dst == '' @ Itoa n)) in
          (case nppPort port of
             None \<Rightarrow> at (ToLower p)
           | Some (IntVal n) \<Rightarrow>
               (case nppEndPort port of None \<Rightarrow> one n | Some e \<Rightarrow> at (Itoa n @ '' <= '' @ ToLower p @ ''.dst <= '' @ Itoa e))
           | Some (StrVal name) \<Rightarrow>
               (case (nppEndPort port, map_of namedPortMap name) of (None, Some n) \<Rightarrow> one n | _ \<Rightarrow> False)))"

definition port_ok :: "NetworkPolicyPort \<Rightarrow> bool" where
  "port_ok port = (case nppProtocol port of None \<Rightarrow> False | Some p \<Rightarrow> plain (ToLower p))"

lemma all_acls_map:
  "\<forall>x\<in>set xs. \<exists>y. f x = Inr y \<and> P x y \<Longrightarrow> \<exists>ys. all_acls (map f xs) = Inr ys \<and> list_all2 P xs ys"
proof (induction xs)
  case (Cons x xs)
  then obtain y ys where "f x = Inr y" "P x y" "all_acls (map f xs) = Inr ys" "list_all2 P xs ys" by auto
  then show ?case by (intro exI [of _ "y # ys"]) simp
qed (auto intro: exI [of _ "[]"])

lemma dst_plain: "plain p \<Longrightarrow> plain (p @ ''.dst'')"
  by (simp add: plain_simps)

lemma atom_texts:
  "k \<noteq> [] \<Longrightarrow> v \<noteq> [] \<Longrightarrow> holds at (NewACLMatch k ''=='' v []) = at (k @ '' == '' @ v)"
  "k \<noteq> [] \<Longrightarrow> v \<noteq> [] \<Longrightarrow> holds at (NewACLMatch k ''!='' v []) = at (k @ '' != '' @ v)"
  "k \<noteq> [] \<Longrightarrow> v \<noteq> [] \<Longrightarrow> w \<noteq> [] \<Longrightarrow> holds at (NewACLMatch k ''<='' v w) = at (v @ '' <= '' @ k @ '' <= '' @ w)"
  "holds at (NewACLMatch k [] [] []) = at k"
  by (simp_all add: NewACLMatch_def atom_text_def)

lemma port_of_nonempty [simp]: "port_of d \<noteq> []"
  by (simp add: port_of_def)

lemma Itoa_nonempty [simp]: "Itoa n \<noteq> []"
  using plain_Itoa [of n] by auto

lemma port_match_reads:
  assumes m: "wf_match m" "\<not> wide m" and p: "port_ok port"
  shows "\<exists>ts. port_match m npm port = Inr ts \<and> (\<forall>at. (\<exists>t\<in>set ts. read_match at t) = (holds at m \<and> port_hits at npm port))"
proof -
  obtain q where q: "nppProtocol port = Some q" "plain (ToLower q)" using p by (auto simp: port_ok_def split: option.splits)
  have ne: "ToLower q \<noteq> []" using q(2) by auto
  have w: "wf_match (NewACLMatch (ToLower q) [] [] [])" "wf_match (NewACLMatch (ToLower q @ ''.dst'') ''=='' (Itoa n) [])"
    "wf_match (NewACLMatch (ToLower q @ ''.dst'') ''<='' (Itoa n) (Itoa e))" for n e
    using q(2) dst_plain [OF q(2)] by (simp_all add: wf_intros)
  have r: "read_match at (ACLMatch_String (AndACLMatch [m, x])) = (holds at m \<and> holds at x)" if "wf_match x" "\<not> wide x" for at x
    using read_String [OF wf_port [OF m that]] by simp
  show ?thesis
    using q ne r [OF w(1)] r [OF w(2)] r [OF w(3)]
    by (auto simp: port_match_def port_hits_def Let_def atom_texts split: option.split IntOrString.split)
qed

lemma port_matches_read:
  assumes m: "wf_match m" "\<not> wide m" and npp: "\<forall>p\<in>set npp. port_ok p"
  shows "\<exists>ts. port_matches m npm npp = Inr ts \<and>
    (\<forall>at. (\<exists>t\<in>set ts. read_match at t) = (holds at m \<and> (npp = [] \<or> (\<exists>p\<in>set npp. port_hits at npm p))))"
proof (cases "npp = []")
  case True
  then show ?thesis using read_String [OF m(1)] by (simp add: port_matches_def)
next
  case False
  have "\<forall>p\<in>set npp. \<exists>ts. port_match m npm p = Inr ts \<and> (\<forall>at. (\<exists>t\<in>set ts. read_match at t) = (holds at m \<and> port_hits at npm p))"
    using port_match_reads [OF m] npp by blast
  from all_acls_map [OF this] obtain tss where tss: "all_acls (map (port_match m npm) npp) = Inr tss"
    "list_all2 (\<lambda>p ts. \<forall>at. (\<exists>t\<in>set ts. read_match at t) = (holds at m \<and> port_hits at npm p)) npp tss" by blast
  have "(\<exists>t\<in>set (concat tss). read_match at t) = (\<exists>p\<in>set npp. holds at m \<and> port_hits at npm p)" for at
    using tss(2) by (induction npp tss rule: list_all2_induct) (auto simp: bex_Un)
  then show ?thesis using tss(1) False by (auto simp: port_matches_def)
qed

text \<open>
  C14. The rows of a network policy match exactly the traffic it allows: to or from a port of the
  group, IP, from the allowed addresses but not from the excepted ones, and on one of the ports if
  any are given; a named port nobody declares and a range with a named port admit nothing. The matches are read as text,
  whatever the truth of the single comparisons. A port without protocol panics.\<close>

theorem network_policy_acls:
  assumes t: "plain pgName" "plain asAllowName" "plain asExceptName" and npp: "\<forall>p\<in>set npp. port_ok p"
  shows "\<exists>ts. newNetworkPolicyACLMatch pgName asAllowName asExceptName protocol direction npp namedPortMap = Inr ts \<and>
    (\<forall>at. (\<exists>t\<in>set ts. read_match at t) \<longleftrightarrow>
       at (port_of direction @ '' == @'' @ pgName) \<and> at ''ip'' \<and> at (remote_key protocol direction @ '' == $'' @ asAllowName) \<and> at (remote_key protocol direction @ '' != $'' @ asExceptName) \<and>
       (npp = [] \<or> (\<exists>p\<in>set npp. port_hits at namedPortMap p)))"
proof -
  define key where "key = remote_key protocol direction"
  have k: "plain key" by (simp add: key_def remote_key_def plain_simps)
  let ?m = "AndACLMatch [all_ip_match pgName direction, NewACLMatch key ''=='' (''$'' @ asAllowName) [], NewACLMatch key ''!='' (''$'' @ asExceptName) []]"
  have w: "wf_match ?m" "\<not> wide ?m" using wf_all_ip [OF t(1), of direction] t k by (simp_all add: wf_intros)
  have "port_of direction \<noteq> []" "key \<noteq> []" using k by auto
  then have "holds at ?m = (at (port_of direction @ '' == @'' @ pgName) \<and> at ''ip'' \<and> at (key @ '' == $'' @ asAllowName) \<and> at (key @ '' != $'' @ asExceptName))" for at
    by (simp add: all_ip_match_def atom_texts)
  then show ?thesis
    using port_matches_read [OF w npp, of namedPortMap]
    unfolding newNetworkPolicyACLMatch_def Let_def key_def by simp
qed

theorem network_policy_acls_witness:
  "\<exists>ts. newNetworkPolicyACLMatch ''np'' ''np.in.v4'' ''np.ex.v4'' ''IPv4'' ToLport [\<lparr>nppProtocol = Some ''TCP'', nppPort = Some (StrVal ''http''), nppEndPort = None\<rparr>] [(''http'', 8080)] = Inr ts \<and>
    (\<forall>at. (\<exists>t\<in>set ts. read_match at t) \<longleftrightarrow>
       at (port_of ToLport @ '' == @'' @ ''np'') \<and> at ''ip'' \<and> at (remote_key ''IPv4'' ToLport @ '' == $'' @ ''np.in.v4'') \<and> at (remote_key ''IPv4'' ToLport @ '' != $'' @ ''np.ex.v4'') \<and>
       ([\<lparr>nppProtocol = Some ''TCP'', nppPort = Some (StrVal ''http''), nppEndPort = None\<rparr>] = [] \<or>
        (\<exists>p\<in>set [\<lparr>nppProtocol = Some ''TCP'', nppPort = Some (StrVal ''http''), nppEndPort = None\<rparr>]. port_hits at [(''http'', 8080)] p)))"
proof -
  have "ToLower ''TCP'' = ''tcp''" by code_simp
  then have "port_ok \<lparr>nppProtocol = Some ''TCP'', nppPort = Some (StrVal ''http''), nppEndPort = None\<rparr>" by (simp add: port_ok_def plain_simps)
  then show ?thesis by (intro network_policy_acls) (simp_all add: plain_simps)
qed

text \<open>What a block of addresses stands for.\<close>

definition block_hits :: "(string \<Rightarrow> bool) \<Rightarrow> string \<Rightarrow> string \<Rightarrow> IPBlock \<Rightarrow> bool" where
  "block_hits at protocol key b =
     (at (key @ '' == '' @ ibCIDR b) \<and> (block_excepts protocol b \<noteq> [] \<longrightarrow> at (key @ '' != {'' @ join '', '' (block_excepts protocol b) @ ''}'')))"

lemma closed_list:
  assumes "\<forall>x\<in>set xs. plain x"
  shows "closed (''{'' @ join '', '' xs @ ''}'')"
proof -
  have "set (join '', '' xs) \<inter> reserved = {}" using assms
    by (induction "'', ''" xs rule: join.induct) (auto simp: plain_def reserved_def)
  then show ?thesis by (auto simp: closed_def reserved_def)
qed

lemma block_match_ok:
  assumes k: "plain key" and b: "plain (ibCIDR b)" "\<forall>e\<in>set (ibExcept b). plain e"
  shows "wf_match (block_match protocol key b)" "\<not> wide (block_match protocol key b)" "holds at (block_match protocol key b) = block_hits at protocol key b"
proof -
  have e: "closed (''{'' @ join '', '' (block_excepts protocol b) @ ''}'')" by (rule closed_list) (use b in \<open>auto simp: block_excepts_def\<close>)
  have ne: "key \<noteq> []" "ibCIDR b \<noteq> []" using k b by auto
  show "wf_match (block_match protocol key b)" "\<not> wide (block_match protocol key b)" "holds at (block_match protocol key b) = block_hits at protocol key b"
    using k b e ne by (auto simp: block_match_def block_hits_def Let_def atom_texts wf_intros)
qed

lemma blocks_match_ok:
  assumes bs: "\<forall>b\<in>set (c # bs). wf_match (f b) \<and> \<not> wide (f b)"
  shows "wf_match (if length (c # bs) > 1 then OrACLMatch (map f (c # bs)) else f c)"
    "holds at (if length (c # bs) > 1 then OrACLMatch (map f (c # bs)) else f c) = (\<exists>b\<in>set (c # bs). holds at (f b))"
  using bs by (auto simp: list_all_iff list_ex_iff)

text \<open>
  The rows for address blocks match exactly the traffic of one of the blocks of the family whose
  exceptions inside the block do not hold it: the exceptions of one block do not reach into
  another.\<close>

theorem ip_block_acls:
  assumes pg: "plain pgName" and bl: "\<forall>b\<in>set ipBlocks. plain (ibCIDR b) \<and> (\<forall>e\<in>set (ibExcept b). plain e)"
    and npp: "\<forall>p\<in>set npp. port_ok p"
  shows "\<exists>ts. newIPBlockACLMatch pgName protocol direction ipBlocks npp namedPortMap = Inr ts \<and>
    (\<forall>at. (\<exists>t\<in>set ts. read_match at t) \<longleftrightarrow>
       at (port_of direction @ '' == @'' @ pgName) \<and> at ''ip'' \<and>
       (\<exists>b\<in>set ipBlocks. CheckProtocol (ibCIDR b) = protocol \<and> block_hits at protocol (remote_key protocol direction) b) \<and>
       (npp = [] \<or> (\<exists>p\<in>set npp. port_hits at namedPortMap p)))"
proof -
  define key where "key = remote_key protocol direction"
  have k: "plain key" by (simp_all add: key_def remote_key_def plain_simps)
  define bs where "bs = filter (\<lambda>b. CheckProtocol (ibCIDR b) = protocol) ipBlocks"
  have bm: "\<forall>b\<in>set bs. wf_match (block_match protocol key b) \<and> \<not> wide (block_match protocol key b) \<and> (\<forall>at. holds at (block_match protocol key b) = block_hits at protocol key b)"
    using block_match_ok [OF k] bl by (auto simp: bs_def)
  show ?thesis
  proof (cases bs)
    case Nil
    then have "\<not> (\<exists>b\<in>set ipBlocks. CheckProtocol (ibCIDR b) = protocol)" by (auto simp: bs_def filter_empty_conv)
    then show ?thesis using Nil by (auto simp: newIPBlockACLMatch_def bs_def Let_def)
  next
    case (Cons b cs)
    define l3 where "l3 = (if length bs > 1 then OrACLMatch (map (block_match protocol key) bs) else block_match protocol key b)"
    let ?m = "AndACLMatch [all_ip_match pgName direction, groupACLMatch l3]"
    have l3: "wf_match l3" "\<And>at. holds at l3 = (\<exists>x\<in>set bs. block_hits at protocol key x)"
      using blocks_match_ok [of b cs "block_match protocol key"] bm unfolding l3_def Cons by auto
    have w: "wf_match ?m" "\<not> wide ?m" using wf_all_ip [OF pg, of direction] l3(1) by simp_all
    have "holds at ?m = (at (port_of direction @ '' == @'' @ pgName) \<and> at ''ip'' \<and> (\<exists>b\<in>set ipBlocks. CheckProtocol (ibCIDR b) = protocol \<and> block_hits at protocol key b))" for at
      using l3(2) by (auto simp: all_ip_match_def atom_texts bs_def)
    moreover have "newIPBlockACLMatch pgName protocol direction ipBlocks npp namedPortMap = port_matches ?m namedPortMap npp"
      using Cons by (simp add: newIPBlockACLMatch_def Let_def key_def [symmetric] bs_def [symmetric] l3_def)
    ultimately show ?thesis using port_matches_read [OF w npp, of namedPortMap] unfolding key_def by auto
  qed
qed

theorem ip_block_acls_witness:
  "\<exists>ts. newIPBlockACLMatch ''np'' ''IPv4'' ToLport [\<lparr>ibCIDR = ''10.0.0.0/8'', ibExcept = [''10.1.0.0/16'']\<rparr>] [] [] = Inr ts \<and>
    (\<forall>at. (\<exists>t\<in>set ts. read_match at t) \<longleftrightarrow>
       at (port_of ToLport @ '' == @'' @ ''np'') \<and> at ''ip'' \<and>
       (\<exists>b\<in>set [\<lparr>ibCIDR = ''10.0.0.0/8'', ibExcept = [''10.1.0.0/16'']\<rparr>]. CheckProtocol (ibCIDR b) = ''IPv4'' \<and> block_hits at ''IPv4'' (remote_key ''IPv4'' ToLport) b) \<and>
       (([] :: NetworkPolicyPort list) = [] \<or> (\<exists>p\<in>set []. port_hits at [] p)))"
  by (rule ip_block_acls) (simp_all add: plain_simps)

end
