(* ===== verification/SecurityGroupProps.thy ===== *)
theory SecurityGroupProps
  imports NbServer OvnAclProps
begin

text \<open>
  Security groups: the rows that an update makes, and how they decide on a packet.
\<close>

section \<open>Making rows\<close>

lemma acl_row_simps [simp]:
  "aAction (acl_row p d pr m act tier []) = act" "aDirection (acl_row p d pr m act tier []) = d" "aMatch (acl_row p d pr m act tier []) = m"
  "aPriority (acl_row p d pr m act tier []) = fst (Atoi_val pr)" "aTier (acl_row p d pr m act tier []) = tier" "owner (acl_row p d pr m act tier []) = p"
  by (simp_all add: acl_row_def owner_def mget0_def)

text \<open>A row is made unless the cache has one of the parent with its direction, priority, match and tier.\<close>

definition has_row :: "NbDb \<Rightarrow> string \<Rightarrow> string \<Rightarrow> int \<Rightarrow> string \<Rightarrow> int \<Rightarrow> bool" where
  "has_row db p d pr m tier = (\<exists>a\<in>set (nbACLs db). owner a = p \<and> aDirection a = d \<and> aPriority a = pr \<and> aMatch a = m \<and> aTier a = tier)"

lemma ACLExists_iff:
  assumes "p \<noteq> []" "\<not> nbErr db"
  shows "ACLExists db p d pr m tier = Inr (has_row db p d (fst (Atoi_val pr)) m tier)"
proof -
  define L where "L = filter (\<lambda>acl. aExternalIDs acl \<noteq> [] \<and> mget0 (aExternalIDs acl) aclParentKey = p \<and> aDirection acl = d \<and>
     aPriority acl = fst (Atoi_val pr) \<and> aMatch acl = m \<and> aTier acl = tier) (nbACLs db)"
  have ext: "mget0 (aExternalIDs a) aclParentKey = p \<Longrightarrow> aExternalIDs a \<noteq> []" for a using assms(1) by (auto simp: mget0_def)
  have L: "(L = []) = (\<not> has_row db p d (fst (Atoi_val pr)) m tier)"
    using ext unfolding L_def filter_empty_conv has_row_def owner_def by blast
  have "ACLExists db p d pr m tier = Inr (L \<noteq> [])"
    using assms by (cases L; cases "tl L") (simp_all add: ACLExists_def GetACL_def Let_def L_def [symmetric])
  then show ?thesis using L by simp
qed

lemma newACL_val:
  "p \<noteq> [] \<Longrightarrow> d \<noteq> [] \<Longrightarrow> pr \<noteq> [] \<Longrightarrow> m \<noteq> [] \<Longrightarrow> act \<noteq> [] \<Longrightarrow> \<not> nbErr db \<Longrightarrow>
   newACL db p d pr m act tier opts = Inr (if has_row db p d (fst (Atoi_val pr)) m tier then None else Some (acl_row p d pr m act tier opts))"
  by (simp add: newACL_def ACLExists_iff)

definition fresh_for :: "NbDb \<Rightarrow> string \<Rightarrow> string \<Rightarrow> int \<Rightarrow> bool" where
  "fresh_for db p d pr = (\<not> nbErr db \<and> (\<forall>a\<in>set (nbACLs db). owner a = p \<and> aDirection a = d \<longrightarrow> aPriority a \<noteq> pr))"

lemma newACL_fresh:
  "p \<noteq> [] \<Longrightarrow> d \<noteq> [] \<Longrightarrow> pr \<noteq> [] \<Longrightarrow> m \<noteq> [] \<Longrightarrow> act \<noteq> [] \<Longrightarrow> fresh_for db p d (fst (Atoi_val pr)) \<Longrightarrow>
   newACL db p d pr m act tier opts = Inr (Some (acl_row p d pr m act tier opts))"
  by (auto simp: newACL_val fresh_for_def has_row_def)

lemma all_acls_Inr: "all_acls (map Inr xs) = Inr xs"
  by (induction xs) auto

lemma all_acls_rows: "\<forall>x\<in>set xs. f x = Inr (g x) \<Longrightarrow> all_acls (map f xs) = Inr (map g xs)"
  using all_acls_Inr [of "map g xs"] by (metis (no_types, lifting) list.map_comp map_cong o_apply)

lemma map_filter_Some [simp]: "List.map_filter id (map Some xs) = xs"
  by (induction xs) (auto simp: map_filter_def)

section \<open>The rows of a security group\<close>

definition rule_plain :: "SecurityGroupRule \<Rightarrow> bool" where
  "rule_plain r = ((if srRemoteType r = SgRemoteTypeSg then plain (srRemoteSecurityGroup r) else plain (srRemoteAddress r)) \<and>
     (srLocalAddress r = [] \<or> plain (srLocalAddress r)))"

text \<open>The texts of a group and its rules, priorities and tier, as the validation demands them.\<close>

definition sg_ok :: "SecurityGroup \<Rightarrow> bool" where
  "sg_ok sg =
     (plain (sgName sg) \<and> ValidateSecurityGroupTier (sgTier sg) = None \<and>
      (\<forall>r\<in>set (sgIngressRules sg) \<union> set (sgEgressRules sg).
         1 \<le> srPriority r \<and> srPriority r \<le> 16384 \<and> rule_plain r))"

lemma plain_names:
  "plain name \<Longrightarrow> plain (GetSgPortGroupName name)" "plain name \<Longrightarrow> plain (GetSgV4AssociatedName name)" "plain name \<Longrightarrow> plain (GetSgV6AssociatedName name)"
  by (auto simp: GetSgPortGroupName_def GetSgV4AssociatedName_def GetSgV6AssociatedName_def plain_simps intro!: plain_replace)

text \<open>The traffic a rule is about.\<close>

definition sg_rule_hits :: "(string \<Rightarrow> bool) \<Rightarrow> string \<Rightarrow> string \<Rightarrow> SecurityGroupRule \<Rightarrow> bool" where
  "sg_rule_hits at pgName direction rule =
     (let v6 = (srIPVersion rule = ''ipv6''); fam = (if v6 then ''ip6'' else ''ip4'');
          remote = (if srRemoteType rule = SgRemoteTypeSg
                    then ''$'' @ (if v6 then GetSgV6AssociatedName else GetSgV4AssociatedName) (srRemoteSecurityGroup rule)
                    else srRemoteAddress rule)
      in at (port_of direction @ '' == @'' @ pgName) \<and> at fam \<and>
         at (fam @ ''.'' @ remote_of direction @ '' == '' @ remote) \<and>
         (srLocalAddress rule \<noteq> [] \<longrightarrow> at (fam @ ''.'' @ local_of direction @ '' == '' @ srLocalAddress rule)) \<and>
         (srProtocol rule = SgProtocolICMP \<longrightarrow> at (if v6 then ''icmp6'' else ''icmp4'')) \<and>
         (srProtocol rule \<in> {SgProtocolTCP, SgProtocolUDP} \<longrightarrow>
            at (Itoa (srPortRangeMin rule) @ '' <= '' @ srProtocol rule @ ''.dst <= '' @ Itoa (srPortRangeMax rule)) \<and>
            (srLocalAddress rule \<noteq> [] \<longrightarrow>
               at (Itoa (srSourcePortRangeMin rule) @ '' <= '' @ srProtocol rule @ ''.src <= '' @ Itoa (srSourcePortRangeMax rule)))))"

lemma suffix_plain [simp]: "plain (sg_suffix r)" "sg_suffix r \<noteq> []"
  by (simp_all add: sg_suffix_def plain_simps)

lemma plain_nonempty: "plain s \<Longrightarrow> s \<noteq> []"
  by auto

lemma of_nonempty [simp]: "remote_of d \<noteq> []" "local_of d \<noteq> []"
  by (simp_all add: remote_of_def local_of_def)

lemma ip_match_ok:
  assumes "plain pg" "rule_plain r"
  shows "wf_match (sg_ip_match pg d r) \<and> \<not> wide (sg_ip_match pg d r)"
  using assms plain_names(2,3) [of "srRemoteSecurityGroup r"]
  by (auto simp: sg_ip_match_def Let_def rule_plain_def wf_intros)

lemma protocols_plain [simp]: "plain SgProtocolTCP" "plain SgProtocolUDP" "plain SgProtocolICMP"
  by (simp_all add: SgProtocolTCP_def SgProtocolUDP_def SgProtocolICMP_def plain_simps)

lemma rule_match_ok:
  assumes "plain pg" "rule_plain r"
  shows "wf_match (sg_rule_match pg d r)"
  using ip_match_ok [OF assms, of d] by (auto simp: sg_rule_match_def Let_def wf_intros)

lemma ip_match_hits:
  assumes "rule_plain r"
  shows "holds at (sg_ip_match pg d r) \<longleftrightarrow>
    (let v6 = (srIPVersion r = ''ipv6''); fam = (if v6 then ''ip6'' else ''ip4'');
          remote = (if srRemoteType r = SgRemoteTypeSg
                    then ''$'' @ (if v6 then GetSgV6AssociatedName else GetSgV4AssociatedName) (srRemoteSecurityGroup r)
                    else srRemoteAddress r)
      in at (port_of d @ '' == @'' @ pg) \<and> at fam \<and>
         at (fam @ ''.'' @ remote_of d @ '' == '' @ remote) \<and>
         (srLocalAddress r \<noteq> [] \<longrightarrow> at (fam @ ''.'' @ local_of d @ '' == '' @ srLocalAddress r)))"
proof (cases "srRemoteType r = SgRemoteTypeSg")
  case True
  then show ?thesis by (auto simp: sg_ip_match_def sg_suffix_def Let_def atom_texts)
next
  case False
  then have "srRemoteAddress r \<noteq> []" using assms by (auto simp: rule_plain_def)
  with False show ?thesis by (auto simp: sg_ip_match_def sg_suffix_def Let_def atom_texts)
qed

lemma rule_match_hits:
  assumes "rule_plain r"
  shows "holds at (sg_rule_match pg d r) \<longleftrightarrow> sg_rule_hits at pg d r"
  using ip_match_hits [OF assms, of at pg d]
  by (auto simp: sg_rule_match_def sg_rule_hits_def Let_def atom_texts sg_suffix_def SgProtocolTCP_def SgProtocolUDP_def SgProtocolICMP_def)

text \<open>The rows in the database after an update, in the order they are made.\<close>

definition sg_rule_rows :: "SecurityGroup \<Rightarrow> string \<Rightarrow> ACL list" where
  "sg_rule_rows sg d = map (\<lambda>r. acl_row (GetSgPortGroupName (sgName sg)) d (sg_priority r)
      (ACLMatch_String (sg_rule_match (GetSgPortGroupName (sgName sg)) d r)) (sg_action r) (ConvertSGTierToOvnTier (sgTier sg)) []) (sg_rules sg d)"

definition sg_same_rows :: "SecurityGroup \<Rightarrow> string \<Rightarrow> ACL list" where
  "sg_same_rows sg d = map (\<lambda>m. acl_row (GetSgPortGroupName (sgName sg)) d SecurityGroupAllowPriority
      (ACLMatch_String m) ActionAllowRelated (ConvertSGTierToOvnTier (sgTier sg)) []) (same_group_matches sg d)"

definition sg_base_rows :: "SecurityGroup \<Rightarrow> string \<Rightarrow> ACL list" where
  "sg_base_rows sg d = concat (map (\<lambda>m. map (\<lambda>tier. acl_row (GetSgPortGroupName (sgName sg)) d SecurityGroupBasePriority
      (ACLMatch_String m) ActionAllowRelated tier []) sg_tiers) (base_matches (GetSgPortGroupName (sgName sg)) d))"

lemma priorities:
  "fst (Atoi_val SecurityGroupHighestPriority) = 18484" "fst (Atoi_val SecurityGroupBasePriority) = 2005" "fst (Atoi_val SecurityGroupAllowPriority) = 2004"
  by code_simp+

lemma sg_priority_val: "1 \<le> srPriority r \<Longrightarrow> srPriority r \<le> 16384 \<Longrightarrow> fst (Atoi_val (sg_priority r)) = 18484 - srPriority r"
  by (simp add: sg_priority_def priorities Atoi_Itoa)

lemma texts_nonempty [simp]:
  "SecurityGroupAllowPriority \<noteq> []" "SecurityGroupBasePriority \<noteq> []" "ActionAllowRelated \<noteq> []" "sg_action r \<noteq> []" "sg_priority r \<noteq> []"
  by (simp_all add: SecurityGroupAllowPriority_def SecurityGroupBasePriority_def ActionAllowRelated_def sg_action_def ActionPass_def ActionDrop_def sg_priority_def)

section \<open>An update of a security group\<close>

lemma sg_tiers_eq: "sg_tiers = [2, 3]"
  by code_simp

lemma sg_tier: "sg_ok sg \<Longrightarrow> ConvertSGTierToOvnTier (sgTier sg) \<in> set sg_tiers"
  by (auto simp: sg_ok_def ValidateSecurityGroupTier_def SecurityGroupAPITierMinimum_def SecurityGroupAPITierMaximum_def
      ConvertSGTierToOvnTier_def SecurityGroupOvnTierBase_def sg_tiers_eq split: if_splits)

lemma sg_ok_rule: "sg_ok sg \<Longrightarrow> r \<in> set (sg_rules sg d) \<Longrightarrow> 1 \<le> srPriority r \<and> srPriority r \<le> 16384 \<and> rule_plain r"
  by (auto simp: sg_ok_def sg_rules_def split: if_splits)

lemma sg_ok_name: "sg_ok sg \<Longrightarrow> plain (GetSgPortGroupName (sgName sg))"
  by (simp add: sg_ok_def plain_names)

lemma same_ok: "sg_ok sg \<Longrightarrow> m \<in> set (same_group_matches sg d) \<Longrightarrow> wf_match m"
  using plain_names [of "sgName sg"] by (auto simp: same_group_matches_def sg_ok_def Let_def plain_simps intro!: wf_same_group split: if_splits)

text \<open>Without rows of the group in the cache, all the rows of an update are made.\<close>

lemma sg_rows_made:
  assumes ok: "sg_ok sg" "d \<noteq> []" and f: "\<forall>pr. fresh_for db (GetSgPortGroupName (sgName sg)) d pr"
  shows "all_acls (map (\<lambda>m. newACL db (GetSgPortGroupName (sgName sg)) d SecurityGroupAllowPriority (ACLMatch_String m) ActionAllowRelated
        (ConvertSGTierToOvnTier (sgTier sg)) []) (same_group_matches sg d) @
      map (\<lambda>r. newSgRuleACL db (sgName sg) d r (ConvertSGTierToOvnTier (sgTier sg))) (sg_rules sg d)) =
    Inr (map Some (sg_same_rows sg d @ sg_rule_rows sg d))"
proof -
  let ?pg = "GetSgPortGroupName (sgName sg)" and ?tier = "ConvertSGTierToOvnTier (sgTier sg)"
  have pg: "plain ?pg" "?pg \<noteq> []" using sg_ok_name [OF ok(1)] by auto
  have same: "newACL db ?pg d SecurityGroupAllowPriority (ACLMatch_String m) ActionAllowRelated ?tier [] =
    Inr (Some (acl_row ?pg d SecurityGroupAllowPriority (ACLMatch_String m) ActionAllowRelated ?tier []))" if "m \<in> set (same_group_matches sg d)" for m
    using pg ok(2) f String_nonempty [OF same_ok [OF ok(1) that]] by (intro newACL_fresh) auto
  have rule: "newSgRuleACL db (sgName sg) d r ?tier =
    Inr (Some (acl_row ?pg d (sg_priority r) (ACLMatch_String (sg_rule_match ?pg d r)) (sg_action r) ?tier []))" if "r \<in> set (sg_rules sg d)" for r
    unfolding newSgRuleACL_def Let_def
    using pg ok(2) f String_nonempty [OF rule_match_ok [OF pg(1)]] sg_ok_rule [OF ok(1) that] by (intro newACL_fresh) auto
  have app: "all_acls (map Inr xs @ map Inr ys) = Inr (xs @ ys)" for xs ys :: "ACL option list"
    using all_acls_Inr [of "xs @ ys"] by simp
  show ?thesis
    unfolding sg_same_rows_def sg_rule_rows_def map_append map_map o_def
    by (subst app [symmetric]) (use same rule in \<open>simp cong: map_cong\<close>)
qed

lemma base_rows_made:
  "p \<noteq> [] \<Longrightarrow> d \<noteq> [] \<Longrightarrow> m \<noteq> [] \<Longrightarrow> fresh_for db p d 2005 \<Longrightarrow>
   base_rows db p d m tiers = map (\<lambda>tier. Some (acl_row p d SecurityGroupBasePriority m ActionAllowRelated tier [])) tiers"
  by (induction tiers) (auto simp: newACL_fresh priorities)

lemma base_acls_made:
  assumes "sg_ok sg" "d \<noteq> []" "fresh_for db (GetSgPortGroupName (sgName sg)) d 2005"
  shows "concat (map (\<lambda>m. base_rows db (GetSgPortGroupName (sgName sg)) d (ACLMatch_String m) sg_tiers) (base_matches (GetSgPortGroupName (sgName sg)) d)) =
    map Some (sg_base_rows sg d)"
proof -
  let ?pg = "GetSgPortGroupName (sgName sg)"
  have pg: "plain ?pg" "?pg \<noteq> []" using sg_ok_name [OF assms(1)] by auto
  have "base_rows db ?pg d (ACLMatch_String m) sg_tiers =
    map Some (map (\<lambda>tier. acl_row ?pg d SecurityGroupBasePriority (ACLMatch_String m) ActionAllowRelated tier []) sg_tiers)"
    if "m \<in> set (base_matches ?pg d)" for m
    using base_rows_made [OF pg(2) assms(2) String_nonempty [OF wf_base [OF pg(1) that]] assms(3)] by simp
  then show ?thesis by (simp add: sg_base_rows_def map_concat cong: map_cong)
qed

section \<open>The verdict\<close>

text \<open>The actions of the rows of a parent that decide on a packet: those that match it, with the highest priority, at a tier.\<close>

definition top_actions :: "ACL set \<Rightarrow> string set" where
  "top_actions A = aAction ` {a \<in> A. \<forall>b\<in>A. aPriority b \<le> aPriority a}"

definition matching :: "(string \<Rightarrow> bool) \<Rightarrow> string \<Rightarrow> int \<Rightarrow> ACL \<Rightarrow> bool" where
  "matching at d tier a = (aDirection a = d \<and> aTier a = tier \<and> read_match at (aMatch a))"

definition verdict :: "(string \<Rightarrow> bool) \<Rightarrow> NbDb \<Rightarrow> string \<Rightarrow> string \<Rightarrow> string \<Rightarrow> int \<Rightarrow> string set" where
  "verdict at db t n d tier = top_actions (set (filter (\<lambda>a. aParentOf a = (t, n) \<and> matching at d tier a) (nbACLs db)))"

lemma top_actions_core: "top_actions (core ` A) = top_actions A"
proof -
  have "{a \<in> core ` A. \<forall>b\<in>core ` A. aPriority b \<le> aPriority a} = core ` {a \<in> A. \<forall>b\<in>A. aPriority b \<le> aPriority a}" by auto
  then show ?thesis by (simp add: top_actions_def image_image)
qed

lemma matching_core [simp]: "matching at d tier (core a) = matching at d tier a"
  by (simp add: matching_def)

text \<open>The verdict depends on the rows of the parent up to what the server adds.\<close>

lemma image_matching: "core ` {a \<in> A. matching at d tier a} = {a \<in> core ` A. matching at d tier a}"
  by auto

lemma verdict_rows:
  assumes "tidy db t n" "core ` {a \<in> set (nbACLs db). owner a = n \<and> aDirection a = d} = core ` set rows"
  shows "verdict at db t n d tier = top_actions {a \<in> set rows. matching at d tier a}"
proof -
  define own where "own = {a \<in> set (nbACLs db). owner a = n \<and> aDirection a = d}"
  have "{a \<in> set (nbACLs db). aParentOf a = (t, n) \<and> matching at d tier a} = {a \<in> own. matching at d tier a}"
    using assms(1) unfolding own_def tidy_def matching_def by blast
  moreover have "core ` {a \<in> own. matching at d tier a} = core ` {a \<in> set rows. matching at d tier a}"
    using assms(2) unfolding image_matching own_def by simp
  ultimately show ?thesis unfolding verdict_def set_filter by (metis top_actions_core)
qed

lemma owner_rows: "a \<in> set (sg_same_rows sg d @ sg_rule_rows sg d @ sg_base_rows sg d) \<Longrightarrow> owner a = GetSgPortGroupName (sgName sg) \<and> aDirection a = d"
  by (auto simp: sg_same_rows_def sg_rule_rows_def sg_base_rows_def)

definition others :: "NbDb \<Rightarrow> string \<Rightarrow> string \<Rightarrow> ACL list" where
  "others db n d = filter (\<lambda>a. \<not> (owner a = n \<and> aDirection a = d)) (nbACLs db)"

lemma fresh_others: "\<not> nbErr db \<Longrightarrow> fresh_for (db\<lparr>nbACLs := others db n d\<rparr>) n d pr"
  by (auto simp: fresh_for_def others_def)

lemma CreateAcls_made:
  assumes "nb_server tx" "kind_ok t" "tidy db t n" "\<forall>a\<in>set rows. owner a = n" "CreateAcls tx db n t (map Some rows) = Inr db'"
  shows "\<exists>new. db' = db\<lparr>nbACLs := nbACLs db @ new\<rparr> \<and> map core new = map core rows \<and> tidy db' t n"
  using CreateAcls_rows [OF assms(1-3) _ assms(5)] assms(4) unfolding map_filter_Some by auto

lemma UpdateSgACL_rows:
  assumes tx: "nb_server tx" and ok: "sg_ok sg" "d \<noteq> []" and db: "tidy db portGroupKey pg" "\<not> nbErr db" and pg: "pg = GetSgPortGroupName (sgName sg)"
    and u: "UpdateSgACL tx db sg d = Inr db1"
  shows "\<exists>new. db1 = db\<lparr>nbACLs := others db pg d @ new\<rparr> \<and> map core new = map core (sg_same_rows sg d @ sg_rule_rows sg d) \<and> tidy db1 portGroupKey pg"
proof -
  have ne: "pg \<noteq> []" using sg_ok_name [OF ok(1)] pg by auto
  have k: "kind_ok portGroupKey" by (simp add: kind_ok_def)
  obtain db0 where d0: "DeleteAcls tx db pg portGroupKey d [] = Inr db0" using u pg by (auto simp: UpdateSgACL_def Let_def split: sum.splits)
  have m: "mput aclParentKey pg [] = [(aclParentKey, pg)]" by (simp add: mput_def)
  have e0: "db0 = db\<lparr>nbACLs := others db pg d\<rparr>"
    using DeleteAcls_rows [OF tx k ne db(1) d0] aclFilter_own [OF ne, of d] ok(2) by (simp add: m others_def)
  then have t0: "tidy db0 portGroupKey pg" using tidy_filter [OF db(1)] by (simp add: others_def)
  have "\<forall>pr. fresh_for db0 pg d pr" using fresh_others [OF db(2)] e0 by simp
  from sg_rows_made [OF ok this [unfolded pg]] have "CreateAcls tx db0 pg portGroupKey (map Some (sg_same_rows sg d @ sg_rule_rows sg d)) = Inr db1"
    using u d0 pg by (simp add: UpdateSgACL_def Let_def)
  moreover have "\<forall>a\<in>set (sg_same_rows sg d @ sg_rule_rows sg d). owner a = pg" using owner_rows [of _ sg d] pg by auto
  ultimately obtain new where "db1 = db0\<lparr>nbACLs := nbACLs db0 @ new\<rparr>"
    "map core new = map core (sg_same_rows sg d @ sg_rule_rows sg d)" "tidy db1 portGroupKey pg" using CreateAcls_made [OF tx k t0] by blast
  then show ?thesis using e0 by auto
qed

lemma base_ACL_rows:
  assumes tx: "nb_server tx" and ok: "sg_ok sg" "d \<noteq> []" and db: "tidy db portGroupKey pg" "fresh_for db pg d 2005" and pg: "pg = GetSgPortGroupName (sgName sg)"
    and u: "CreateSgBaseACL tx db (sgName sg) d = Inr db1"
  shows "\<exists>new. db1 = db\<lparr>nbACLs := nbACLs db @ new\<rparr> \<and> map core new = map core (sg_base_rows sg d) \<and> tidy db1 portGroupKey pg"
proof -
  have "CreateAcls tx db pg portGroupKey (map Some (sg_base_rows sg d)) = Inr db1"
    using u base_acls_made [OF ok db(2) [unfolded pg]] pg by (simp add: CreateSgBaseACL_def Let_def)
  moreover have "\<forall>a\<in>set (sg_base_rows sg d). owner a = pg" using owner_rows [of _ sg d] pg by auto
  ultimately show ?thesis using CreateAcls_made [OF tx _ db(1)] by (simp add: kind_ok_def)
qed

text \<open>After the rules no row has the priority of the base rows.\<close>

lemma rule_rows_priority: "sg_ok sg \<Longrightarrow> a \<in> set (sg_rule_rows sg d) \<Longrightarrow> 2100 \<le> aPriority a"
  using sg_ok_rule [of sg _ d] sg_priority_val by (auto simp: sg_rule_rows_def)

lemma fresh_after_rules:
  assumes ok: "sg_ok sg" "\<not> nbErr db" and new: "map core new = map core (sg_same_rows sg d @ sg_rule_rows sg d)"
  shows "fresh_for (db\<lparr>nbACLs := others db pg d @ new\<rparr>) pg d 2005"
proof -
  have "aPriority a \<noteq> 2005" if "a \<in> set new" for a
  proof -
    have "core a \<in> core ` set (sg_same_rows sg d @ sg_rule_rows sg d)" using that new by (metis image_eqI image_set)
    then obtain b where b: "core a = core b" "b \<in> set (sg_same_rows sg d) \<or> b \<in> set (sg_rule_rows sg d)" by auto
    then have "aPriority b \<noteq> 2005" using rule_rows_priority [OF ok(1)] by (fastforce simp: sg_same_rows_def priorities)
    then show ?thesis using b(1) by (metis core_simps(4))
  qed
  then show ?thesis using ok(2) by (auto simp: fresh_for_def others_def)
qed

text \<open>The rows of the direction after both calls, and nothing else has changed.\<close>

lemma sg_rows_after:
  assumes tx: "nb_server tx" and ok: "sg_ok sg" "d \<noteq> []" and db: "tidy db portGroupKey pg" "\<not> nbErr db" and pg: "pg = GetSgPortGroupName (sgName sg)"
    and u: "UpdateSgACL tx db sg d = Inr db1" and b: "CreateSgBaseACL tx db1 (sgName sg) d = Inr db2"
  shows "tidy db2 portGroupKey pg \<and> others db2 pg d = others db pg d \<and>
    core ` {a \<in> set (nbACLs db2). owner a = pg \<and> aDirection a = d} = core ` set (sg_same_rows sg d @ sg_rule_rows sg d @ sg_base_rows sg d)"
proof -
  from UpdateSgACL_rows [OF tx ok db pg u] obtain new where n: "db1 = db\<lparr>nbACLs := others db pg d @ new\<rparr>"
    "map core new = map core (sg_same_rows sg d @ sg_rule_rows sg d)" "tidy db1 portGroupKey pg" by blast
  have "fresh_for db1 pg d 2005" using fresh_after_rules [OF ok(1) db(2) n(2)] n(1) by simp
  from base_ACL_rows [OF tx ok n(3) this pg b] obtain base where s: "db2 = db1\<lparr>nbACLs := nbACLs db1 @ base\<rparr>"
    "map core base = map core (sg_base_rows sg d)" "tidy db2 portGroupKey pg" by blast
  have all: "nbACLs db2 = others db pg d @ new @ base" using n(1) s(1) by simp
  have cs: "core ` set (new @ base) = core ` set (sg_same_rows sg d @ sg_rule_rows sg d @ sg_base_rows sg d)"
    using arg_cong [OF n(2), of set] arg_cong [OF s(2), of set] by (simp add: image_Un Un_assoc)
  have own: "owner a = pg \<and> aDirection a = d" if "a \<in> set (new @ base)" for a
  proof -
    have "core a \<in> core ` set (sg_same_rows sg d @ sg_rule_rows sg d @ sg_base_rows sg d)" using that cs by blast
    then obtain b where "core a = core b" "owner b = pg \<and> aDirection b = d" using owner_rows [of _ sg d] pg by blast
    then show ?thesis by (metis core_simps(2) owner_core)
  qed
  have "{a \<in> set (nbACLs db2). owner a = pg \<and> aDirection a = d} = set (new @ base)"
    using own by (auto simp: all others_def)
  moreover have "others db2 pg d = others db pg d"
    using own by (auto simp: others_def all filter_empty_conv)
  ultimately show ?thesis using s(3) cs by simp
qed

lemma top_actions_split:
  assumes lt: "\<forall>a\<in>A. \<forall>b\<in>B. aPriority b < aPriority a"
  shows "top_actions (A \<union> B) = (if A = {} then top_actions B else top_actions A)"
proof (cases "A = {}")
  case False
  then obtain a0 where a0: "a0 \<in> A" by blast
  have "x \<in> A" if "x \<in> A \<union> B" "\<forall>b\<in>A \<union> B. aPriority b \<le> aPriority x" for x
    using that lt a0 by (metis Un_iff not_le)
  moreover have "aPriority b \<le> aPriority x" if "x \<in> A" "b \<in> B" for x b
    using that lt by (simp add: less_imp_le)
  ultimately have "{a \<in> A \<union> B. \<forall>b\<in>A \<union> B. aPriority b \<le> aPriority a} = {a \<in> A. \<forall>b\<in>A. aPriority b \<le> aPriority a}"
    by blast
  then show ?thesis using False by (simp add: top_actions_def)
qed simp

lemma top_actions_level: "\<forall>a\<in>A. aPriority a = p \<Longrightarrow> top_actions A = aAction ` A"
proof -
  assume "\<forall>a\<in>A. aPriority a = p"
  then have "{a \<in> A. \<forall>b\<in>A. aPriority b \<le> aPriority a} = A" by auto
  then show ?thesis by (simp add: top_actions_def)
qed

text \<open>The base traffic every group lets through, and the traffic inside the group.\<close>

definition base_hits :: "(string \<Rightarrow> bool) \<Rightarrow> string \<Rightarrow> string \<Rightarrow> bool" where
  "base_hits at pg d =
     (let ingress = (d \<noteq> FromLport) in
      at (port_of d @ '' == @'' @ pg) \<and>
      (at ''arp'' \<or>
       at (''icmp6.type == '' @ (if ingress then ''{130, 134, 135, 136}'' else ''{130, 133, 135, 136}'')) \<and> at ''icmp6.code == 0'' \<and> at ''ip.ttl == 255'' \<or>
       (if ingress then at ''udp.src == 67'' \<and> at ''udp.dst == 68'' else at ''udp.src == 68'' \<and> at ''udp.dst == 67'') \<and> at ''ip4'' \<or>
       (if ingress then at ''udp.src == 547'' \<and> at ''udp.dst == 546'' else at ''udp.src == 546'' \<and> at ''udp.dst == 547'') \<and> at ''ip6'' \<or>
       at ''ip.proto == 112''))"

definition same_hits :: "(string \<Rightarrow> bool) \<Rightarrow> SecurityGroup \<Rightarrow> string \<Rightarrow> bool" where
  "same_hits at sg d =
     (sgAllowSameGroupTraffic sg \<and> at (port_of d @ '' == @'' @ GetSgPortGroupName (sgName sg)) \<and>
      (at ''ip4'' \<and> at (''ip4.'' @ remote_of d @ '' == $'' @ GetSgV4AssociatedName (sgName sg)) \<or>
       at ''ip6'' \<and> at (''ip6.'' @ remote_of d @ '' == $'' @ GetSgV6AssociatedName (sgName sg))))"

lemma base_hits_holds: "(\<exists>m\<in>set (base_matches pg d). holds at m) \<longleftrightarrow> base_hits at pg d"
  by (auto simp: base_matches_def base_hits_def dhcpv4_match_def dhcpv6_match_def dhcp_match_def Let_def atom_texts port_of_def)

lemma same_hits_holds: "(\<exists>m\<in>set (same_group_matches sg d). holds at m) \<longleftrightarrow> same_hits at sg d"
  by (auto simp: same_group_matches_def same_group_match_def same_hits_def Let_def atom_texts)

lemma image_sel: "{y \<in> f ` A. P y} = f ` {x \<in> A. P (f x)}"
  by blast

text \<open>What the rows of each kind say about a packet.\<close>

lemma rule_rows_matching:
  assumes ok: "sg_ok sg"
  shows "{a \<in> set (sg_rule_rows sg d). matching at d tier a} =
    (if tier = ConvertSGTierToOvnTier (sgTier sg)
     then (\<lambda>r. acl_row (GetSgPortGroupName (sgName sg)) d (sg_priority r) (ACLMatch_String (sg_rule_match (GetSgPortGroupName (sgName sg)) d r)) (sg_action r) tier []) `
       {r \<in> set (sg_rules sg d). sg_rule_hits at (GetSgPortGroupName (sgName sg)) d r}
     else {})"
proof -
  have "read_match at (ACLMatch_String (sg_rule_match (GetSgPortGroupName (sgName sg)) d r)) = sg_rule_hits at (GetSgPortGroupName (sgName sg)) d r"
    if "r \<in> set (sg_rules sg d)" for r
    using sg_ok_rule [OF ok that] rule_match_hits read_String [OF rule_match_ok [OF sg_ok_name [OF ok]]] by simp
  then have "{r \<in> set (sg_rules sg d). read_match at (ACLMatch_String (sg_rule_match (GetSgPortGroupName (sgName sg)) d r))} =
    {r \<in> set (sg_rules sg d). sg_rule_hits at (GetSgPortGroupName (sgName sg)) d r}" by blast
  then show ?thesis by (simp add: sg_rule_rows_def image_sel matching_def)
qed

lemma same_rows_matching:
  assumes ok: "sg_ok sg"
  shows "aAction ` {a \<in> set (sg_same_rows sg d). matching at d tier a} =
    (if tier = ConvertSGTierToOvnTier (sgTier sg) \<and> same_hits at sg d then {ActionAllowRelated} else {})"
proof -
  have "{m \<in> set (same_group_matches sg d). read_match at (ACLMatch_String m)} = {m \<in> set (same_group_matches sg d). holds at m}"
    using read_String [OF same_ok [OF ok]] by blast
  then have "aAction ` {a \<in> set (sg_same_rows sg d). matching at d tier a} =
    (if tier = ConvertSGTierToOvnTier (sgTier sg) then (\<lambda>m. ActionAllowRelated) ` {m \<in> set (same_group_matches sg d). holds at m} else {})"
    by (simp add: sg_same_rows_def image_sel matching_def image_image)
  then show ?thesis unfolding same_hits_holds [symmetric] by (auto simp: image_constant_conv)
qed

lemma base_rows_set: "set (sg_base_rows sg d) = (\<lambda>(m, t). acl_row (GetSgPortGroupName (sgName sg)) d SecurityGroupBasePriority (ACLMatch_String m) ActionAllowRelated t []) `
    (set (base_matches (GetSgPortGroupName (sgName sg)) d) \<times> set sg_tiers)"
  by (auto simp: sg_base_rows_def)

lemma base_rows_matching:
  assumes ok: "sg_ok sg"
  shows "aAction ` {a \<in> set (sg_base_rows sg d). matching at d tier a} =
    (if tier \<in> set sg_tiers \<and> base_hits at (GetSgPortGroupName (sgName sg)) d then {ActionAllowRelated} else {})"
proof -
  let ?M = "set (base_matches (GetSgPortGroupName (sgName sg)) d)"
  have "aAction ` {a \<in> set (sg_base_rows sg d). matching at d tier a} =
    (\<lambda>x. ActionAllowRelated) ` {x \<in> ?M \<times> set sg_tiers. snd x = tier \<and> read_match at (ACLMatch_String (fst x))}"
    by (simp add: base_rows_set image_sel matching_def image_image case_prod_beta)
  also have "{x \<in> ?M \<times> set sg_tiers. snd x = tier \<and> read_match at (ACLMatch_String (fst x))} = {m \<in> ?M. holds at m} \<times> ({tier} \<inter> set sg_tiers)"
    using read_String [OF wf_base [OF sg_ok_name [OF ok]]] by auto
  finally show ?thesis unfolding base_hits_holds [symmetric] by (auto simp: image_constant_conv)
qed

text \<open>The rules that decide: those with the least priority number among the rules that fit.\<close>

definition deciding :: "SecurityGroupRule set \<Rightarrow> SecurityGroupRule set" where
  "deciding R = {r \<in> R. \<forall>s\<in>R. srPriority r \<le> srPriority s}"

lemma top_rules:
  assumes ok: "sg_ok sg" and R: "R \<subseteq> set (sg_rules sg d)"
  shows "top_actions ((\<lambda>r. acl_row p d (sg_priority r) (m r) (sg_action r) tier []) ` R) = sg_action ` deciding R"
proof -
  have pr: "fst (Atoi_val (sg_priority r)) = 18484 - srPriority r" if "r \<in> R" for r
    using R that sg_ok_rule [OF ok, of r d] sg_priority_val [of r] by blast
  have "{a \<in> (\<lambda>r. acl_row p d (sg_priority r) (m r) (sg_action r) tier []) ` R. \<forall>b\<in>(\<lambda>r. acl_row p d (sg_priority r) (m r) (sg_action r) tier []) ` R. aPriority b \<le> aPriority a} =
    (\<lambda>r. acl_row p d (sg_priority r) (m r) (sg_action r) tier []) ` deciding R"
    using pr by (auto simp: deciding_def)
  then show ?thesis by (simp add: top_actions_def image_image)
qed

definition sg_decision :: "(string \<Rightarrow> bool) \<Rightarrow> SecurityGroup \<Rightarrow> string \<Rightarrow> int \<Rightarrow> string set" where
  "sg_decision at sg d tier =
     (let pg = GetSgPortGroupName (sgName sg); own = (tier = ConvertSGTierToOvnTier (sgTier sg));
          fit = {r \<in> set (sg_rules sg d). own \<and> sg_rule_hits at pg d r}
      in if fit \<noteq> {} then sg_action ` deciding fit
         else if tier \<in> set sg_tiers \<and> base_hits at pg d then {ActionAllowRelated}
         else if own \<and> same_hits at sg d then {ActionAllowRelated} else {})"

lemma rows_decide:
  assumes ok: "sg_ok sg"
  shows "top_actions {a \<in> set (sg_same_rows sg d @ sg_rule_rows sg d @ sg_base_rows sg d). matching at d tier a} = sg_decision at sg d tier"
proof -
  let ?pg = "GetSgPortGroupName (sgName sg)"
  define S B R where "S = {a \<in> set (sg_same_rows sg d). matching at d tier a}" and "B = {a \<in> set (sg_base_rows sg d). matching at d tier a}"
    and "R = {a \<in> set (sg_rule_rows sg d). matching at d tier a}"
  define fit where "fit = {r \<in> set (sg_rules sg d). tier = ConvertSGTierToOvnTier (sgTier sg) \<and> sg_rule_hits at ?pg d r}"
  have S: "\<forall>a\<in>S. aPriority a = 2004" and B: "\<forall>a\<in>B. aPriority a = 2005" and R: "\<forall>a\<in>R. 2100 \<le> aPriority a"
    using rule_rows_priority [OF ok] by (auto simp: S_def B_def R_def sg_same_rows_def sg_base_rows_def priorities)
  have Rfit: "R = (\<lambda>r. acl_row ?pg d (sg_priority r) (ACLMatch_String (sg_rule_match ?pg d r)) (sg_action r) tier []) ` fit"
    unfolding R_def fit_def rule_rows_matching [OF ok] by auto
  have "{a \<in> set (sg_same_rows sg d @ sg_rule_rows sg d @ sg_base_rows sg d). matching at d tier a} = R \<union> (B \<union> S)"
    by (auto simp: S_def B_def R_def)
  moreover have "top_actions (R \<union> (B \<union> S)) = (if R = {} then if B = {} then top_actions S else top_actions B else top_actions R)"
  proof -
    have "\<forall>a\<in>R. \<forall>b\<in>B \<union> S. aPriority b < aPriority a" "\<forall>a\<in>B. \<forall>b\<in>S. aPriority b < aPriority a" using S B R by force+
    then show ?thesis by (simp add: top_actions_split)
  qed
  moreover have "top_actions R = sg_action ` deciding fit" unfolding Rfit by (rule top_rules [OF ok]) (auto simp: fit_def)
  moreover have "top_actions B = (if tier \<in> set sg_tiers \<and> base_hits at ?pg d then {ActionAllowRelated} else {})"
    "top_actions S = (if tier = ConvertSGTierToOvnTier (sgTier sg) \<and> same_hits at sg d then {ActionAllowRelated} else {})"
    using top_actions_level [OF B] top_actions_level [OF S] base_rows_matching [OF ok] same_rows_matching [OF ok] by (simp_all add: B_def S_def)
  moreover have "B = {} \<longleftrightarrow> \<not> (tier \<in> set sg_tiers \<and> base_hits at ?pg d)"
    using base_rows_matching [OF ok, of d at tier] image_is_empty [of aAction B] unfolding B_def [symmetric] by (simp split: if_splits)
  ultimately show ?thesis using Rfit unfolding sg_decision_def Let_def fit_def [symmetric] by simp
qed

lemma UpdateSgACL_succeeds:
  assumes tx: "nb_server tx" "never_fails tx" and ok: "sg_ok sg" "d \<noteq> []" and db: "tidy db portGroupKey pg" "\<not> nbErr db" "(portGroupKey, pg) \<in> set (nbParents db)"
    and pg: "pg = GetSgPortGroupName (sgName sg)"
  shows "\<exists>db1. UpdateSgACL tx db sg d = Inr db1"
proof -
  have ne: "pg \<noteq> []" using sg_ok_name [OF ok(1)] pg by auto
  have k: "kind_ok portGroupKey" by (simp add: kind_ok_def)
  obtain db0 where d0: "DeleteAcls tx db pg portGroupKey d [] = Inr db0" using DeleteAcls_succeeds [OF tx(2) k db(3) ne db(2)] by blast
  have "mput aclParentKey pg [] = [(aclParentKey, pg)]" by (simp add: mput_def)
  then have e0: "db0 = db\<lparr>nbACLs := others db pg d\<rparr>"
    using DeleteAcls_rows [OF tx(1) k ne db(1) d0] aclFilter_own [OF ne, of d] ok(2) by (simp add: others_def)
  then have "\<forall>pr. fresh_for db0 pg d pr" using fresh_others [OF db(2)] by simp
  from sg_rows_made [OF ok this [unfolded pg]] d0 have "UpdateSgACL tx db sg d = CreateAcls tx db0 pg portGroupKey (map Some (sg_same_rows sg d @ sg_rule_rows sg d))"
    by (simp add: UpdateSgACL_def Let_def pg)
  then show ?thesis using CreateAcls_succeeds [OF tx(2) k, of pg db0] db(3) e0 by simp
qed

text \<open>
  C4. After an update of a security group in one direction, its rows decide on a packet as the group says: among the
  rules that fit the packet those with the least priority number decide, by their action, at the tier
  of the group; without such a rule the base traffic (ARP, neighbour discovery, DHCP, VRRP) is
  allowed at every tier, and the traffic of the same group if the group allows it; on the rest the group
  has no verdict. The rows of other parents and of the other direction stay. If the server carries out
  what it is sent and the port group exists, both calls succeed. The texts of the
  rows are read, whatever the truth of the single comparisons.\<close>

theorem security_group_decides:
  assumes tx: "nb_server tx" "never_fails tx" and ok: "sg_ok sg" "d \<in> {ToLport, FromLport}"
    and db: "tidy db portGroupKey pg" "\<not> nbErr db" "(portGroupKey, pg) \<in> set (nbParents db)" and pg: "pg = GetSgPortGroupName (sgName sg)"
  shows "\<exists>db1 db2. UpdateSgACL tx db sg d = Inr db1 \<and> CreateSgBaseACL tx db1 (sgName sg) d = Inr db2 \<and>
    others db2 pg d = others db pg d \<and> (\<forall>at tier. verdict at db2 portGroupKey pg d tier = sg_decision at sg d tier)"
proof -
  have d: "d \<noteq> []" using ok(2) by (auto simp: ToLport_def FromLport_def)
  obtain db1 where u: "UpdateSgACL tx db sg d = Inr db1" using UpdateSgACL_succeeds [OF tx ok(1) d db pg] by blast
  obtain new where "db1 = db\<lparr>nbACLs := others db pg d @ new\<rparr>" using UpdateSgACL_rows [OF tx(1) ok(1) d db(1,2) pg u] by blast
  then have "(portGroupKey, pg) \<in> set (nbParents db1)" using db(3) by simp
  then obtain db2 where b: "CreateSgBaseACL tx db1 (sgName sg) d = Inr db2"
    using CreateAcls_succeeds [OF tx(2), of portGroupKey pg db1] pg by (auto simp: CreateSgBaseACL_def kind_ok_def Let_def)
  note after = sg_rows_after [OF tx(1) ok(1) d db(1,2) pg u b]
  have "verdict at db2 portGroupKey pg d tier = sg_decision at sg d tier" for at tier
    by (rule trans [OF verdict_rows rows_decide [OF ok(1)]]) (use after in blast)+
  then show ?thesis using u b after by blast
qed

section \<open>Lost rows\<close>

lemma checks_same: "sg_check_match pg d r = sg_rule_match pg d r"
  by (simp add: sg_check_match_def sg_rule_match_def sg_check_ip_match_def sg_ip_match_def sg_suffix_def Let_def)

lemma sgRuleNoACL_iff:
  assumes "\<not> nbErr db" "sg_ok sg" "d \<noteq> []" "r \<in> set (sg_rules sg d)"
  shows "sgRuleNoACL db (sgName sg) d r tier = Inr (newSgRuleACL db (sgName sg) d r tier \<noteq> Inr None)"
proof -
  let ?pg = "GetSgPortGroupName (sgName sg)"
  have pg: "plain ?pg" "?pg \<noteq> []" using sg_ok_name [OF assms(2)] by auto
  have "ACLMatch_String (sg_rule_match ?pg d r) \<noteq> []" using String_nonempty rule_match_ok [OF pg(1)] sg_ok_rule [OF assms(2,4)] by blast
  then show ?thesis using pg assms(1,3) texts_nonempty(5) [of r]
    by (simp add: sgRuleNoACL_def newSgRuleACL_def newACL_val ACLExists_iff checks_same Let_def sg_priority_def)
qed

lemma rules_lost_iff:
  "\<not> nbErr db \<Longrightarrow> sg_ok sg \<Longrightarrow> d \<noteq> [] \<Longrightarrow> set rules \<subseteq> set (sg_rules sg d) \<Longrightarrow>
   rules_lost db (sgName sg) d tier rules = Inr (\<exists>r\<in>set rules. newSgRuleACL db (sgName sg) d r tier \<noteq> Inr None)"
  by (induction rules) (auto simp: sgRuleNoACL_iff)

definition sample_sg :: SecurityGroup where
  "sample_sg = \<lparr>sgName = ''web'', sgIngressRules = [\<lparr>srIPVersion = ''ipv4'', srProtocol = ''tcp'', srPriority = 5, srRemoteType = ''address'',
     srRemoteAddress = ''10.0.0.0/8'', srRemoteSecurityGroup = [], srPortRangeMin = 80, srPortRangeMax = 80, srLocalAddress = [],
     srSourcePortRangeMin = 0, srSourcePortRangeMax = 0, srPolicy = ''allow''\<rparr>], sgEgressRules = [], sgAllowSameGroupTraffic = True, sgTier = 0\<rparr>"

lemma sample_sg_ok: "sg_ok sample_sg"
  by (simp add: sg_ok_def sample_sg_def ValidateSecurityGroupTier_def SecurityGroupAPITierMinimum_def SecurityGroupAPITierMaximum_def
      rule_plain_def SgRemoteTypeSg_def plain_simps)

text \<open>
  A security group has lost a rule, for the check, exactly when making the row of one of its rules again would
  give a row: the match that the check builds on its own is the match of the row, with its
  priority and tier.\<close>

theorem lost_rows_found:
  assumes "\<not> nbErr db" "sg_ok sg"
  shows "SGLostACL db sg = Inr (\<exists>d\<in>{ToLport, FromLport}. \<exists>r\<in>set (sg_rules sg d). newSgRuleACL db (sgName sg) d r (ConvertSGTierToOvnTier (sgTier sg)) \<noteq> Inr None)"
proof -
  have "ToLport \<noteq> []" "FromLport \<noteq> []" "ToLport \<noteq> FromLport" by (simp_all add: ToLport_def FromLport_def)
  then show ?thesis
    using rules_lost_iff [OF assms, of ToLport "sgIngressRules sg"] rules_lost_iff [OF assms, of FromLport "sgEgressRules sg"]
    by (simp add: SGLostACL_def Let_def sg_rules_def)
qed

theorem security_group_decides_witness:
  "\<exists>db1 db2. UpdateSgACL nb_do \<lparr>nbACLs = [], nbParents = [(portGroupKey, GetSgPortGroupName ''web'')], nbErr = False, nbGroupIDs = [], nbSets = []\<rparr> sample_sg ToLport = Inr db1 \<and>
     CreateSgBaseACL nb_do db1 (sgName sample_sg) ToLport = Inr db2 \<and>
     others db2 (GetSgPortGroupName ''web'') ToLport = [] \<and>
     (\<forall>at tier. verdict at db2 portGroupKey (GetSgPortGroupName ''web'') ToLport tier = sg_decision at sample_sg ToLport tier)"
proof -
  let ?db = "\<lparr>nbACLs = [], nbParents = [(portGroupKey, GetSgPortGroupName ''web'')], nbErr = False, nbGroupIDs = [], nbSets = []\<rparr>"
  have pre: "ToLport \<in> {ToLport, FromLport}" "tidy ?db portGroupKey (GetSgPortGroupName ''web'')" "\<not> nbErr ?db"
    "(portGroupKey, GetSgPortGroupName ''web'') \<in> set (nbParents ?db)" "GetSgPortGroupName ''web'' = GetSgPortGroupName (sgName sample_sg)"
    "others ?db (GetSgPortGroupName ''web'') ToLport = []"
    by (simp_all add: tidy_def others_def sample_sg_def)
  show ?thesis using security_group_decides [OF nb_do_server sample_sg_ok pre(1-5)] unfolding pre(6) .
qed

theorem lost_rows_found_witness:
  "SGLostACL \<lparr>nbACLs = [], nbParents = [], nbErr = False, nbGroupIDs = [], nbSets = []\<rparr> sample_sg =
   Inr (\<exists>d\<in>{ToLport, FromLport}. \<exists>r\<in>set (sg_rules sample_sg d).
     newSgRuleACL \<lparr>nbACLs = [], nbParents = [], nbErr = False, nbGroupIDs = [], nbSets = []\<rparr> (sgName sample_sg) d r (ConvertSGTierToOvnTier (sgTier sample_sg)) \<noteq> Inr None)"
  using lost_rows_found [of "\<lparr>nbACLs = [], nbParents = [], nbErr = False, nbGroupIDs = [], nbSets = []\<rparr>", OF _ sample_sg_ok] by simp

end
