(* ===== verification/SwitchAclProps.thy ===== *)
theory SwitchAclProps
  imports SecurityGroupProps
begin

text \<open>
  The rows of logical switches: private switches, the rules of a subnet, and the pass over a subnet that resets and updates them.
\<close>

section \<open>Private switches\<close>

definition others_of :: "NbDb \<Rightarrow> string \<Rightarrow> ACL list" where
  "others_of db n = filter (\<lambda>a. owner a \<noteq> n) (nbACLs db)"

lemma DeleteAcls_all:
  assumes "nb_server tx" "kind_ok t" "n \<noteq> []" "tidy db t n" "DeleteAcls tx db n t [] [] = Inr db'"
  shows "db' = db\<lparr>nbACLs := others_of db n\<rparr>" "tidy db' t n"
proof -
  have "mput aclParentKey n [] = [(aclParentKey, n)]" by (simp add: mput_def)
  then show e: "db' = db\<lparr>nbACLs := others_of db n\<rparr>" using DeleteAcls_rows [OF assms] aclFilter_own [OF assms(3), of "[]"] by (simp add: others_of_def)
  show "tidy db' t n" unfolding e others_of_def by (rule tidy_filter [OF assms(4)])
qed

lemma no_own_rows [simp]: "\<not> has_row (db\<lparr>nbACLs := others_of db n\<rparr>) n d pr m tier"
  by (auto simp: has_row_def others_of_def)

text \<open>The matches of a private switch with their priorities, and its rows.\<close>

definition private_allows :: "string \<Rightarrow> string \<Rightarrow> string list \<Rightarrow> (string \<times> ACLMatch) list" where
  "private_allows cidrBlock nodeSwitchCIDR allowSubnets =
     concat (map (\<lambda>cidr. (SubnetAllowPriority, same_subnet_match cidr) #
       map (Pair NodeAllowPriority) (node_matches nodeSwitchCIDR (CheckProtocol cidr)) @
       map (Pair SubnetAllowPriority) (allow_subnet_matches allowSubnets cidr)) (split_char CHR '','' cidrBlock))"

definition private_drop :: "string \<Rightarrow> ACL" where
  "private_drop lsName = acl_row lsName ToLport DefaultDropPriority (ACLMatch_String (NewACLMatch ''ip'' [] [] [])) ActionDrop NetpolACLTier [private_logging lsName]"

definition private_rows :: "string \<Rightarrow> string \<Rightarrow> string \<Rightarrow> string list \<Rightarrow> ACL list" where
  "private_rows lsName cidrBlock nodeSwitchCIDR allowSubnets = private_drop lsName #
     map (\<lambda>(pr, m). acl_row lsName ToLport pr (ACLMatch_String m) ActionAllowRelated NetpolACLTier []) (private_allows cidrBlock nodeSwitchCIDR allowSubnets)"

lemma atom_nonempty: "k \<noteq> [] \<Longrightarrow> atom_text k e v w \<noteq> []"
  by (simp add: atom_text_def)

lemma String_atom: "k \<noteq> [] \<Longrightarrow> ACLMatch_String (NewACLMatch k e v w) \<noteq> []"
  by (simp add: ACLMatch_String_def NewACLMatch_def atom_nonempty)

lemma suffix_nonempty [simp]: "suffix_of p \<noteq> []"
  by (simp add: suffix_of_def)

lemma private_nonempty: "(pr, m) \<in> set (private_allows cidrBlock nodeSwitchCIDR allowSubnets) \<Longrightarrow> pr \<noteq> [] \<and> ACLMatch_String m \<noteq> []"
  by (auto simp: private_allows_def same_subnet_match_def node_matches_def allow_subnet_matches_def ACLMatch_String_def NewACLMatch_def
      atom_nonempty or_part_def Let_def SubnetAllowPriority_def NodeAllowPriority_def)

lemma switch_texts [simp]: "ToLport \<noteq> []" "FromLport \<noteq> []" "DefaultDropPriority \<noteq> []" "ActionDrop \<noteq> []" "ActionAllow \<noteq> []" "AllowEWTrafficPriority \<noteq> []" "ToLport \<noteq> FromLport" "FromLport \<noteq> ToLport"
  by (simp_all add: ToLport_def FromLport_def DefaultDropPriority_def ActionDrop_def ActionAllow_def AllowEWTrafficPriority_def)

lemma private_made:
  assumes "ls \<noteq> []" "\<not> nbErr db" "db0 = db\<lparr>nbACLs := others_of db ls\<rparr>"
  shows "all_acls (newACL db0 ls ToLport DefaultDropPriority (ACLMatch_String (NewACLMatch ''ip'' [] [] [])) ActionDrop NetpolACLTier [private_logging ls] #
     concat (map (\<lambda>cidr. newACL db0 ls ToLport SubnetAllowPriority (ACLMatch_String (same_subnet_match cidr)) ActionAllowRelated NetpolACLTier [] #
       map (\<lambda>m. newACL db0 ls ToLport NodeAllowPriority (ACLMatch_String m) ActionAllowRelated NetpolACLTier []) (node_matches nodeSwitchCIDR (CheckProtocol cidr)) @
       map (\<lambda>m. newACL db0 ls ToLport SubnetAllowPriority (ACLMatch_String m) ActionAllowRelated NetpolACLTier []) (allow_subnet_matches allowSubnets cidr)) (split_char CHR '','' cidrBlock))) =
    Inr (map Some (private_rows ls cidrBlock nodeSwitchCIDR allowSubnets))" (is "all_acls (?d # ?c) = _")
proof -
  define new where "new = (\<lambda>(pr, m). newACL db0 ls ToLport pr (ACLMatch_String m) ActionAllowRelated NetpolACLTier [])"
  define row where "row = (\<lambda>(pr, m). acl_row ls ToLport pr (ACLMatch_String m) ActionAllowRelated NetpolACLTier [])"
  have "?c = map new (private_allows cidrBlock nodeSwitchCIDR allowSubnets)"
    by (simp add: private_allows_def new_def map_concat o_def)
  moreover have "\<forall>x\<in>set (private_allows cidrBlock nodeSwitchCIDR allowSubnets). new x = Inr (Some (row x))"
    using assms private_nonempty by (auto simp: new_def row_def newACL_val)
  ultimately have "all_acls ?c = Inr (map (\<lambda>x. Some (row x)) (private_allows cidrBlock nodeSwitchCIDR allowSubnets))"
    using all_acls_rows [of _ new "\<lambda>x. Some (row x)"] by simp
  moreover have "?d = Inr (Some (private_drop ls))" using assms by (simp add: private_drop_def newACL_val String_atom)
  ultimately show ?thesis by (simp add: private_rows_def row_def o_def)
qed

lemma drop_row [simp]:
  "owner (private_drop ls) = ls" "aDirection (private_drop ls) = ToLport" "aAction (private_drop ls) = ActionDrop" "aTier (private_drop ls) = NetpolACLTier"
  "aPriority (private_drop ls) = 1000" "aMatch (private_drop ls) = ''ip''"
proof -
  have "fst (Atoi_val DefaultDropPriority) = 1000" "ACLMatch_String (NewACLMatch ''ip'' [] [] []) = ''ip''" by code_simp+
  then show "owner (private_drop ls) = ls" "aDirection (private_drop ls) = ToLport" "aAction (private_drop ls) = ActionDrop" "aTier (private_drop ls) = NetpolACLTier"
    "aPriority (private_drop ls) = 1000" "aMatch (private_drop ls) = ''ip''"
    by (simp_all add: private_drop_def acl_row_def private_logging_def setACLName_def owner_def mget0_def)
qed

lemma private_rows_own: "a \<in> set (private_rows ls c n al) \<Longrightarrow> owner a = ls \<and> aDirection a = ToLport"
  by (auto simp: private_rows_def)

lemma private_switch_rows:
  assumes tx: "nb_server tx" and db: "tidy db LogicalSwitchKey ls" "\<not> nbErr db" "ls \<noteq> []"
    and u: "SetLogicalSwitchPrivate tx db ls cidrBlock nodeSwitchCIDR allowSubnets = Inr db1"
  shows "\<exists>new. db1 = db\<lparr>nbACLs := others_of db ls @ new\<rparr> \<and> map core new = map core (private_rows ls cidrBlock nodeSwitchCIDR allowSubnets) \<and> tidy db1 LogicalSwitchKey ls"
proof -
  have k: "kind_ok LogicalSwitchKey" by (simp add: kind_ok_def)
  obtain db0 where d0: "DeleteAcls tx db ls LogicalSwitchKey [] [] = Inr db0" using u by (auto simp: SetLogicalSwitchPrivate_def split: sum.splits)
  note e0 = DeleteAcls_all [OF tx k db(3,1) d0]
  have "CreateAcls tx db0 ls LogicalSwitchKey (map Some (private_rows ls cidrBlock nodeSwitchCIDR allowSubnets)) = Inr db1"
    using u unfolding SetLogicalSwitchPrivate_def d0 sum.case Let_def private_made [OF db(3,2) e0(1)] .
  moreover have "\<forall>a\<in>set (private_rows ls cidrBlock nodeSwitchCIDR allowSubnets). owner a = ls" using private_rows_own by blast
  ultimately obtain new where "db1 = db0\<lparr>nbACLs := nbACLs db0 @ new\<rparr>"
    "map core new = map core (private_rows ls cidrBlock nodeSwitchCIDR allowSubnets)" "tidy db1 LogicalSwitchKey ls" using CreateAcls_made [OF tx k e0(2)] by blast
  then show ?thesis using e0(1) by auto
qed

text \<open>The traffic a private switch lets in.\<close>

definition private_hits :: "(string \<Rightarrow> bool) \<Rightarrow> string \<Rightarrow> string \<Rightarrow> string list \<Rightarrow> bool" where
  "private_hits at cidrBlock nodeSwitchCIDR allowSubnets =
     (\<exists>cidr\<in>set (split_char CHR '','' cidrBlock).
        let fam = suffix_of (CheckProtocol cidr); src = (\<lambda>x. at (fam @ ''.src == '' @ x)); dst = (\<lambda>x. at (fam @ ''.dst == '' @ x)) in
        src cidr \<and> dst cidr \<or>
        (\<exists>node\<in>set (split_char CHR '','' nodeSwitchCIDR). CheckProtocol cidr = CheckProtocol node \<and> src node) \<or>
        (\<exists>subnet\<in>set (map TrimSpace allowSubnets). subnet \<noteq> [] \<and> CheckProtocol subnet = CheckProtocol cidr \<and>
           (src cidr \<and> dst subnet \<or> src subnet \<and> dst cidr)))"

definition private_ok :: "string \<Rightarrow> string \<Rightarrow> string list \<Rightarrow> bool" where
  "private_ok cidrBlock nodeSwitchCIDR allowSubnets =
     (list_all plain (split_char CHR '','' cidrBlock) \<and> list_all plain (split_char CHR '','' nodeSwitchCIDR) \<and>
      list_all (\<lambda>s. TrimSpace s = [] \<or> plain (TrimSpace s)) allowSubnets)"

lemma wf_same_subnet: "plain c \<Longrightarrow> wf_match (same_subnet_match c)"
  by (simp add: same_subnet_match_def Let_def wf_intros)

lemma wf_node: "list_all plain (split_char CHR '','' n) \<Longrightarrow> m \<in> set (node_matches n p) \<Longrightarrow> wf_match m"
  by (auto simp: node_matches_def list_all_iff wf_intros)

lemma wf_allow: "list_all (\<lambda>s. TrimSpace s = [] \<or> plain (TrimSpace s)) al \<Longrightarrow> plain c \<Longrightarrow> m \<in> set (allow_subnet_matches al c) \<Longrightarrow> wf_match m"
  by (auto simp: allow_subnet_matches_def Let_def list_all_iff wf_intros)

lemma wf_private: "private_ok c n al \<Longrightarrow> (pr, m) \<in> set (private_allows c n al) \<Longrightarrow> wf_match m"
  using wf_same_subnet wf_node wf_allow unfolding private_ok_def private_allows_def by (fastforce simp: list_all_iff)

lemma same_subnet_holds: "c \<noteq> [] \<Longrightarrow> holds at (same_subnet_match c) \<longleftrightarrow> at (suffix_of (CheckProtocol c) @ ''.src == '' @ c) \<and> at (suffix_of (CheckProtocol c) @ ''.dst == '' @ c)"
  by (simp add: same_subnet_match_def Let_def atom_texts)

lemma node_holds:
  assumes "list_all plain (split_char CHR '','' n)"
  shows "(\<exists>m\<in>set (node_matches n p). holds at m) \<longleftrightarrow> (\<exists>node\<in>set (split_char CHR '','' n). p = CheckProtocol node \<and> at (suffix_of p @ ''.src == '' @ node))"
proof -
  have "node \<noteq> []" if "node \<in> set (split_char CHR '','' n)" for node using assms that by (auto simp: list_all_iff)
  then show ?thesis by (auto simp: node_matches_def atom_texts)
qed

lemma allow_holds:
  assumes "c \<noteq> []"
  shows "(\<exists>m\<in>set (allow_subnet_matches al c). holds at m) \<longleftrightarrow>
    (\<exists>s\<in>set (map TrimSpace al). s \<noteq> [] \<and> CheckProtocol s = CheckProtocol c \<and>
       (at (suffix_of (CheckProtocol c) @ ''.src == '' @ c) \<and> at (suffix_of (CheckProtocol c) @ ''.dst == '' @ s) \<or>
        at (suffix_of (CheckProtocol c) @ ''.src == '' @ s) \<and> at (suffix_of (CheckProtocol c) @ ''.dst == '' @ c)))"
  using assms by (auto simp: allow_subnet_matches_def Let_def atom_texts)

lemma private_hits_holds:
  assumes ok: "private_ok c n al"
  shows "(\<exists>(pr, m)\<in>set (private_allows c n al). holds at m) \<longleftrightarrow> private_hits at c n al"
proof -
  have ne: "x \<noteq> []" if "x \<in> set (split_char CHR '','' c)" for x using ok that by (auto simp: private_ok_def list_all_iff)
  have nodes: "list_all plain (split_char CHR '','' n)" using ok by (simp add: private_ok_def)
  have "(\<exists>(pr, m)\<in>set (private_allows c n al). holds at m) \<longleftrightarrow> (\<exists>x\<in>set (split_char CHR '','' c).
      holds at (same_subnet_match x) \<or> (\<exists>m\<in>set (node_matches n (CheckProtocol x)). holds at m) \<or> (\<exists>m\<in>set (allow_subnet_matches al x). holds at m))"
    by (auto simp: private_allows_def)
  also have "\<dots> \<longleftrightarrow> private_hits at c n al"
    unfolding private_hits_def Let_def node_holds [OF nodes] using same_subnet_holds [OF ne] allow_holds [OF ne] by (intro bex_cong) simp_all
  finally show ?thesis .
qed

lemma top_exists: "finite A \<Longrightarrow> A \<noteq> {} \<Longrightarrow> \<exists>a\<in>A. \<forall>b\<in>A. aPriority b \<le> aPriority a"
  using Max_in [of "aPriority ` A"] Max_ge [of "aPriority ` A"] by fastforce

lemma top_actions_single: "finite A \<Longrightarrow> A \<noteq> {} \<Longrightarrow> aAction ` A \<subseteq> {x} \<Longrightarrow> top_actions A = {x}"
  using top_exists [of A] unfolding top_actions_def by blast

lemma private_decides:
  assumes ok: "private_ok c n al"
  shows "top_actions {a \<in> set (private_rows ls c n al). matching at ToLport NetpolACLTier a} =
    (if private_hits at c n al then {ActionAllowRelated} else if at ''ip'' then {ActionDrop} else {})"
proof -
  define A where "A = {a \<in> set (map (\<lambda>(pr, m). acl_row ls ToLport pr (ACLMatch_String m) ActionAllowRelated NetpolACLTier []) (private_allows c n al)). matching at ToLport NetpolACLTier a}"
  define D where "D = {a \<in> {private_drop ls}. matching at ToLport NetpolACLTier a}"
  have rd: "read_match at ''ip'' = at ''ip''" by (rule read_atom) (simp add: clean_def reserved_def)
  have D: "D = (if at ''ip'' then {private_drop ls} else {})" by (auto simp: D_def matching_def rd)
  have A: "A = (\<lambda>(pr, m). acl_row ls ToLport pr (ACLMatch_String m) ActionAllowRelated NetpolACLTier []) ` {(pr, m) \<in> set (private_allows c n al). holds at m}"
    using read_String [OF wf_private [OF ok]] unfolding A_def set_map image_sel by (intro image_cong) (auto simp: matching_def)
  have "fst (Atoi_val SubnetAllowPriority) = 1001" "fst (Atoi_val NodeAllowPriority) = 3000" by code_simp+
  then have pr: "\<forall>a\<in>A. \<forall>b\<in>D. aPriority b < aPriority a" unfolding A D by (auto simp: private_allows_def)
  have act: "aAction ` A \<subseteq> {ActionAllowRelated}" unfolding A by auto
  have ne: "A = {} \<longleftrightarrow> \<not> private_hits at c n al" unfolding A private_hits_holds [OF ok, symmetric] by auto
  have top: "top_actions A = {ActionAllowRelated}" if "A \<noteq> {}"
    by (rule top_actions_single [OF _ that act]) (simp add: A_def)
  have "{a \<in> set (private_rows ls c n al). matching at ToLport NetpolACLTier a} = A \<union> D"
    by (auto simp: private_rows_def A_def D_def)
  then show ?thesis using top_actions_split [OF pr] ne top D by (auto simp: top_actions_def)
qed

lemma SetLogicalSwitchPrivate_succeeds:
  assumes tx: "nb_server tx" "never_fails tx" and db: "tidy db LogicalSwitchKey ls" "\<not> nbErr db" "ls \<noteq> []" "(LogicalSwitchKey, ls) \<in> set (nbParents db)"
  shows "\<exists>db1. SetLogicalSwitchPrivate tx db ls cidrBlock nodeSwitchCIDR allowSubnets = Inr db1"
proof -
  have k: "kind_ok LogicalSwitchKey" by (simp add: kind_ok_def)
  obtain db0 where d0: "DeleteAcls tx db ls LogicalSwitchKey [] [] = Inr db0" using DeleteAcls_succeeds [OF tx(2) k db(4,3,2)] by blast
  note e0 = DeleteAcls_all [OF tx(1) k db(3,1) d0]
  show ?thesis
    unfolding SetLogicalSwitchPrivate_def d0 sum.case Let_def private_made [OF db(3,2) e0(1)]
    using CreateAcls_succeeds [OF tx(2) k] db(4) e0(1) by simp
qed

text \<open>Rows added for a parent whose earlier rows are gone are its rows.\<close>

lemma own_rows_added:
  assumes "map core new = map core rows" "\<forall>a\<in>set rows. owner a = n"
  shows "filter (\<lambda>a. owner a = n) (others_of db n @ new) = new" "others_of (db\<lparr>nbACLs := others_of db n @ new\<rparr>) n = others_of db n"
proof -
  have "owner a = n" if "a \<in> set new" for a
  proof -
    have "core a \<in> core ` set rows" using assms(1) that by (metis image_eqI image_set)
    then obtain b where "b \<in> set rows" "core a = core b" by blast
    then show ?thesis using assms(2) owner_cong [of a b] by simp
  qed
  then show "filter (\<lambda>a. owner a = n) (others_of db n @ new) = new" "others_of (db\<lparr>nbACLs := others_of db n @ new\<rparr>) n = others_of db n"
    by (auto simp: others_of_def filter_empty_conv filter_id_conv)
qed

text \<open>
  C5. A private switch lets into its ports exactly the traffic inside one of its networks, from the node networks of the
  same family, and between one of its networks and an allowed network of the same family in
  either direction; the other IP traffic is dropped. The call replaces all rows of the switch and
  no other rows, and it succeeds if the server carries out what it is sent.\<close>

theorem private_switch_isolates:
  assumes tx: "nb_server tx" "never_fails tx" and db: "tidy db LogicalSwitchKey lsName" "\<not> nbErr db" "lsName \<noteq> []" "(LogicalSwitchKey, lsName) \<in> set (nbParents db)"
    and ok: "private_ok cidrBlock nodeSwitchCIDR allowSubnets"
  shows "\<exists>db1. SetLogicalSwitchPrivate tx db lsName cidrBlock nodeSwitchCIDR allowSubnets = Inr db1 \<and> others_of db1 lsName = others_of db lsName \<and>
    (\<forall>at. verdict at db1 LogicalSwitchKey lsName ToLport NetpolACLTier =
       (if private_hits at cidrBlock nodeSwitchCIDR allowSubnets then {ActionAllowRelated} else if at ''ip'' then {ActionDrop} else {}))"
proof -
  let ?rows = "private_rows lsName cidrBlock nodeSwitchCIDR allowSubnets"
  obtain db1 where u: "SetLogicalSwitchPrivate tx db lsName cidrBlock nodeSwitchCIDR allowSubnets = Inr db1"
    using SetLogicalSwitchPrivate_succeeds [OF tx db] by blast
  obtain new where n: "db1 = db\<lparr>nbACLs := others_of db lsName @ new\<rparr>" "map core new = map core ?rows" "tidy db1 LogicalSwitchKey lsName"
    using private_switch_rows [OF tx(1) db(1-3) u] by blast
  have own: "\<forall>a\<in>set ?rows. owner a = lsName" using private_rows_own by blast
  note r = own_rows_added [OF n(2) own, of db]
  have "core a \<in> core ` set ?rows" if "a \<in> set new" for a using n(2) that by (metis image_eqI image_set)
  then have "\<forall>a\<in>set new. aDirection a = ToLport" using private_rows_own by (metis core_simps(2) imageE)
  then have "{a \<in> set (nbACLs db1). owner a = lsName \<and> aDirection a = ToLport} = set new"
    using arg_cong [OF r(1), of set] n(1) by auto
  then have "core ` {a \<in> set (nbACLs db1). owner a = lsName \<and> aDirection a = ToLport} = core ` set ?rows"
    using n(2) by (metis image_set)
  from verdict_rows [OF n(3) this] show ?thesis using u r(2) n(1) private_decides [OF ok] by simp
qed

section \<open>The rules of a subnet\<close>

text \<open>The rows \<open>UpdateLogicalSwitchACL\<close> is to make, as direction, priority, match and action.\<close>

definition switch_specs :: "string \<Rightarrow> SubnetACL list \<Rightarrow> bool \<Rightarrow> (string \<times> string \<times> string \<times> string) list" where
  "switch_specs cidrBlock subnetAcls allowEWTraffic =
     (if subnetAcls = [] then []
      else (if allowEWTraffic
            then concat (map (\<lambda>cidr. map (\<lambda>dir. (dir, AllowEWTrafficPriority, ACLMatch_String (same_subnet_match cidr), ActionAllow)) [ToLport, FromLport])
                   (split_char CHR '','' cidrBlock))
            else []) @ map (\<lambda>a. (saDirection a, Itoa (saPriority a), saMatch a, saAction a)) subnetAcls)"

definition switch_row :: "string \<Rightarrow> string \<times> string \<times> string \<times> string \<Rightarrow> ACL" where
  "switch_row ls = (\<lambda>(d, pr, m, act). acl_row ls d pr m act NetpolACLTier [subnet_mark ls])"

definition acl_fields :: "SubnetACL \<Rightarrow> bool" where
  "acl_fields a = (saDirection a \<noteq> [] \<and> saMatch a \<noteq> [] \<and> saAction a \<noteq> [])"

text \<open>The key by which the client tells whether a row exists.\<close>

definition like :: "ACL \<Rightarrow> ACL \<Rightarrow> bool" where
  "like a b = (aDirection b = aDirection a \<and> aPriority b = aPriority a \<and> aMatch b = aMatch a \<and> aTier b = aTier a)"

definition spec_ok :: "string \<times> string \<times> string \<times> string \<Rightarrow> bool" where
  "spec_ok = (\<lambda>(d, pr, m, act). d \<noteq> [] \<and> pr \<noteq> [] \<and> m \<noteq> [] \<and> act \<noteq> [])"

lemma switch_specs_ok: "list_all acl_fields subnetAcls \<Longrightarrow> list_all spec_ok (switch_specs cidrBlock subnetAcls ew)"
  by (auto simp: switch_specs_def list_all_iff acl_fields_def spec_ok_def ACLMatch_String_def same_subnet_match_def NewACLMatch_def atom_nonempty Let_def)

lemma switch_row_simps:
  "owner (switch_row ls s) = ls" "aDirection (switch_row ls s) = fst s" "aPriority (switch_row ls s) = fst (Atoi_val (fst (snd s)))"
  "aMatch (switch_row ls s) = fst (snd (snd s))" "aTier (switch_row ls s) = NetpolACLTier" "mget0 (aExternalIDs (switch_row ls s)) ''subnet'' = ls"
  by (simp_all add: switch_row_def acl_row_def subnet_mark_def owner_def aclParentKey_def mget0_def split: prod.split)

lemma switch_made:
  assumes "ls \<noteq> []" "\<not> nbErr db" "list_all spec_ok specs"
  shows "all_acls (map (\<lambda>(d, pr, m, act). newACL db ls d pr m act NetpolACLTier [subnet_mark ls]) specs) =
    Inr (map (\<lambda>s. if \<exists>b\<in>set (nbACLs db). owner b = ls \<and> like (switch_row ls s) b then None else Some (switch_row ls s)) specs)"
proof (rule all_acls_rows, rule ballI)
  fix s assume "s \<in> set specs"
  then obtain d pr m act where s: "s = (d, pr, m, act)" "d \<noteq> []" "pr \<noteq> []" "m \<noteq> []" "act \<noteq> []"
    using assms(3) by (cases s) (auto simp: list_all_iff spec_ok_def)
  have "has_row db ls d (fst (Atoi_val pr)) m NetpolACLTier \<longleftrightarrow> (\<exists>b\<in>set (nbACLs db). owner b = ls \<and> like (switch_row ls s) b)"
    by (simp add: has_row_def like_def switch_row_simps s(1))
  then show "(case s of (d, pr, m, act) \<Rightarrow> newACL db ls d pr m act NetpolACLTier [subnet_mark ls]) =
      Inr (if \<exists>b\<in>set (nbACLs db). owner b = ls \<and> like (switch_row ls s) b then None else Some (switch_row ls s))"
    using s assms(1,2) by (simp add: newACL_val switch_row_def)
qed

lemma map_filter_if: "List.map_filter id (map (\<lambda>x. if P x then None else Some (f x)) xs) = map f (filter (\<lambda>x. \<not> P x) xs)"
  by (induction xs) (auto simp: map_filter_def)

definition unmarked :: "NbDb \<Rightarrow> string \<Rightarrow> bool" where
  "unmarked db ls = (\<forall>a\<in>set (nbACLs db). owner a = ls \<longrightarrow> mget0 (aExternalIDs a) ''subnet'' \<noteq> ls)"

lemma marked_keys [simp]: "aclParentKey \<noteq> ''subnet''" "''subnet'' \<noteq> aclParentKey"
  by (simp_all add: aclParentKey_def)

lemma aclFilter_marked:
  assumes "ls \<noteq> []"
  shows "aclFilter [] (mput aclParentKey ls [(''subnet'', ls)]) a \<longleftrightarrow> owner a = ls \<and> mget0 (aExternalIDs a) ''subnet'' = ls"
proof -
  have m: "mput aclParentKey ls [(''subnet'', ls)] = [(''subnet'', ls), (aclParentKey, ls)]" by (simp add: mput_def)
  have "length (aExternalIDs a) \<ge> 2" if "owner a = ls" "mget0 (aExternalIDs a) ''subnet'' = ls"
  proof -
    have "(aclParentKey, ls) \<in> set (aExternalIDs a)" "(''subnet'', ls) \<in> set (aExternalIDs a)"
      using that assms by (auto simp: owner_def mget0_def split: option.splits dest: map_of_SomeD)
    then show ?thesis using marked_keys by (cases "aExternalIDs a"; cases "tl (aExternalIDs a)") auto
  qed
  then show ?thesis using assms unfolding m by (cases "aExternalIDs a") (auto simp: aclFilter_def owner_def)
qed

lemma switch_news:
  assumes "subnetAcls \<noteq> []"
  shows "(if allowEWTraffic
       then concat (map (\<lambda>cidr. map (\<lambda>dir. newACL db ls dir AllowEWTrafficPriority (ACLMatch_String (same_subnet_match cidr)) ActionAllow NetpolACLTier [subnet_mark ls]) [ToLport, FromLport])
         (split_char CHR '','' cidrBlock)) else []) @
     map (\<lambda>a. newACL db ls (saDirection a) (Itoa (saPriority a)) (saMatch a) (saAction a) NetpolACLTier [subnet_mark ls]) subnetAcls =
     map (\<lambda>(d, pr, m, act). newACL db ls d pr m act NetpolACLTier [subnet_mark ls]) (switch_specs cidrBlock subnetAcls allowEWTraffic)"
  using assms by (simp add: switch_specs_def map_concat o_def)

text \<open>The operations of an update, whatever rows the switch has.\<close>

lemma UpdateLogicalSwitchACL_ops:
  assumes "subnetAcls \<noteq> []" "ls \<noteq> []" "\<not> nbErr db" "list_all acl_fields subnetAcls"
  shows "UpdateLogicalSwitchACL tx db ls cidrBlock subnetAcls ew =
    (case DeleteAclsOps db ls LogicalSwitchKey [] [(''subnet'', ls)] of
       Inl err \<Rightarrow> Inl err
     | Inr delOps \<Rightarrow>
         (case CreateAclsOps db ls LogicalSwitchKey (map (\<lambda>s. if \<exists>b\<in>set (nbACLs db). owner b = ls \<and> like (switch_row ls s) b then None else Some (switch_row ls s)) (switch_specs cidrBlock subnetAcls ew)) of
            Inl err \<Rightarrow> Inl err
          | Inr addOps \<Rightarrow> Transact tx (delOps @ addOps) db))"
  using switch_made [OF assms(2,3) switch_specs_ok [OF assms(4)], of cidrBlock ew] assms(1)
  unfolding UpdateLogicalSwitchACL_def Let_def switch_news [OF assms(1)] by simp

definition new_rows :: "NbDb \<Rightarrow> string \<Rightarrow> string \<Rightarrow> SubnetACL list \<Rightarrow> bool \<Rightarrow> ACL list" where
  "new_rows db ls cidrBlock subnetAcls ew = map (switch_row ls)
     (filter (\<lambda>s. \<not> (\<exists>b\<in>set (nbACLs db). owner b = ls \<and> like (switch_row ls s) b)) (switch_specs cidrBlock subnetAcls ew))"

lemma UpdateLogicalSwitchACL_rows:
  assumes tx: "nb_server tx" and db: "tidy db LogicalSwitchKey ls" "\<not> nbErr db" "ls \<noteq> []" "unmarked db ls" and f: "list_all acl_fields subnetAcls"
    and u: "UpdateLogicalSwitchACL tx db ls cidrBlock subnetAcls ew = Inr db1"
  shows "\<exists>new. db1 = db\<lparr>nbACLs := nbACLs db @ new\<rparr> \<and> map core new = map core (new_rows db ls cidrBlock subnetAcls ew) \<and> tidy db1 LogicalSwitchKey ls"
proof -
  have k: "kind_ok LogicalSwitchKey" by (simp add: kind_ok_def)
  have none: "filter (\<lambda>a. \<not> aclFilter [] (mput aclParentKey ls [(''subnet'', ls)]) a) (nbACLs db) = nbACLs db"
    using db(4) by (auto simp: filter_id_conv aclFilter_marked [OF db(3)] unmarked_def)
  have own: "\<forall>a\<in>set (new_rows db ls cidrBlock subnetAcls ew). owner a = ls" by (auto simp: new_rows_def switch_row_simps)
  show ?thesis
  proof (cases "subnetAcls = []")
    case True
    then have "DeleteAcls tx db ls LogicalSwitchKey [] [(''subnet'', ls)] = Inr db1" using u by (simp add: UpdateLogicalSwitchACL_def)
    from DeleteAcls_rows [OF tx k db(3,1) this] have "db1 = db" using none by simp
    then show ?thesis using True db(1) by (intro exI [of _ "[]"]) (simp add: new_rows_def switch_specs_def)
  next
    case False
    let ?acls = "map (\<lambda>s. if \<exists>b\<in>set (nbACLs db). owner b = ls \<and> like (switch_row ls s) b then None else Some (switch_row ls s)) (switch_specs cidrBlock subnetAcls ew)"
    obtain delOps addOps where o: "DeleteAclsOps db ls LogicalSwitchKey [] [(''subnet'', ls)] = Inr delOps" "CreateAclsOps db ls LogicalSwitchKey ?acls = Inr addOps"
      "Transact tx (delOps @ addOps) db = Inr db1"
      using u unfolding UpdateLogicalSwitchACL_ops [OF False db(3,2) f] by (auto split: sum.splits)
    have "nb_run addOps db db1" using DeleteAclsOps_run [OF k db(3,1) o(1) Transact_run [OF tx o(3)]] none by simp
    then have "nb_run (map (OpAdd LogicalSwitchKey ls) (new_rows db ls cidrBlock subnetAcls ew) @ []) db db1"
      using CreateAclsOps_ops [OF k o(2)] by (simp add: new_rows_def map_filter_if)
    from nb_run_add [OF this db(1) own] show ?thesis by auto
  qed
qed

text \<open>The rows a switch is to have: its private rows and the rules of the subnet, less the rules that a private row stands in for.\<close>

definition reset_rows :: "bool \<Rightarrow> string \<Rightarrow> string \<Rightarrow> string \<Rightarrow> string list \<Rightarrow> ACL list" where
  "reset_rows private name cidrBlock nodeSwitchCIDR allowSubnets = (if private then private_rows name cidrBlock nodeSwitchCIDR allowSubnets else [])"

definition subnet_rows :: "string \<Rightarrow> string \<Rightarrow> string \<Rightarrow> bool \<Rightarrow> string list \<Rightarrow> SubnetACL list \<Rightarrow> bool \<Rightarrow> ACL list" where
  "subnet_rows nodeSwitchCIDR name cidrBlock private allowSubnets subnetAcls allowEWTraffic =
     (let own = reset_rows private name cidrBlock nodeSwitchCIDR allowSubnets in
      own @ filter (\<lambda>a. \<not> list_ex (like a) own) (map (switch_row name) (switch_specs cidrBlock subnetAcls allowEWTraffic)))"

lemma core_eqD:
  assumes "core a = core b"
  shows "aDirection a = aDirection b" "aMatch a = aMatch b" "aPriority a = aPriority b" "aTier a = aTier b" "aExternalIDs a = aExternalIDs b"
  using arg_cong [OF assms, of aDirection] arg_cong [OF assms, of aMatch] arg_cong [OF assms, of aPriority] arg_cong [OF assms, of aTier] arg_cong [OF assms, of aExternalIDs]
  by simp_all

lemma like_core: "core b = core c \<Longrightarrow> like a b = like a c"
  using core_eqD [of b c] by (simp add: like_def)

lemma private_unmarked: "a \<in> set (private_rows ls c n al) \<Longrightarrow> mget0 (aExternalIDs a) ''subnet'' = []"
  by (auto simp: private_rows_def private_drop_def acl_row_def private_logging_def setACLName_def mget0_def aclParentKey_def)

lemma reset_step:
  assumes tx: "nb_server tx" "never_fails tx" and db: "tidy db LogicalSwitchKey ls" "\<not> nbErr db" "ls \<noteq> []" "(LogicalSwitchKey, ls) \<in> set (nbParents db)"
  shows "\<exists>db0 new. (if private then SetLogicalSwitchPrivate tx db ls c n al else DeleteAcls tx db ls LogicalSwitchKey [] []) = Inr db0 \<and>
    db0 = db\<lparr>nbACLs := others_of db ls @ new\<rparr> \<and> map core new = map core (reset_rows private ls c n al) \<and> tidy db0 LogicalSwitchKey ls"
proof (cases "private")
  case True
  then show ?thesis using SetLogicalSwitchPrivate_succeeds [OF tx db, of c n al] private_switch_rows [OF tx(1) db(1-3), of c n al] by (force simp: reset_rows_def)
next
  case False
  have k: "kind_ok LogicalSwitchKey" by (simp add: kind_ok_def)
  obtain db0 where d0: "DeleteAcls tx db ls LogicalSwitchKey [] [] = Inr db0" using DeleteAcls_succeeds [OF tx(2) k db(4,3,2)] by blast
  note e0 = DeleteAcls_all [OF tx(1) k db(3,1) d0]
  show ?thesis using False d0 e0 by (auto simp: reset_rows_def)
qed

lemma reset_owner: "a \<in> set (reset_rows private ls c n al) \<Longrightarrow> owner a = ls"
  using private_rows_own by (auto simp: reset_rows_def split: if_splits)

lemma core_ex: "map core new = map core rows \<Longrightarrow> (\<And>a b. core a = core b \<Longrightarrow> P a = P b) \<Longrightarrow> list_ex P new = list_ex P rows"
proof (induction new arbitrary: rows)
  case (Cons a new)
  from Cons.prems(1) obtain b rs where "rows = b # rs" "core a = core b" "map core new = map core rs" by (cases rows) auto
  moreover have "P a = P b" by (rule Cons.prems(2)) fact
  moreover have "list_ex P new = list_ex P rs" by (rule Cons.IH [OF _ Cons.prems(2)]) fact+
  ultimately show ?case by simp
qed simp

text \<open>After the reset a rule clashes with a row of the switch exactly when it clashes with a row of the reset, and no row has the mark.\<close>

lemma after_reset:
  assumes new: "map core new = map core (reset_rows private ls c n al)" and ls: "ls \<noteq> []"
  shows "(\<exists>b\<in>set (others_of db ls @ new). owner b = ls \<and> like a b) = list_ex (like a) (reset_rows private ls c n al)"
    "unmarked (db\<lparr>nbACLs := others_of db ls @ new\<rparr>) ls"
proof -
  have own: "\<forall>a\<in>set (reset_rows private ls c n al). owner a = ls" using reset_owner by blast
  have fn: "filter (\<lambda>a. owner a = ls) (others_of db ls @ new) = new" by (rule own_rows_added(1) [OF new own])
  then have fs: "{b \<in> set (others_of db ls @ new). owner b = ls} = set new" by (metis set_filter)
  have "(\<exists>b\<in>set (others_of db ls @ new). owner b = ls \<and> like a b) = list_ex (like a) new" using fs unfolding list_ex_iff by blast
  then show "(\<exists>b\<in>set (others_of db ls @ new). owner b = ls \<and> like a b) = list_ex (like a) (reset_rows private ls c n al)"
    using core_ex [OF new, of "like a"] like_core by blast
  have "list_ex (\<lambda>b. mget0 (aExternalIDs b) ''subnet'' = ls) new = list_ex (\<lambda>b. mget0 (aExternalIDs b) ''subnet'' = ls) (reset_rows private ls c n al)"
    by (rule core_ex [OF new], drule core_eqD(5)) simp
  also have "\<dots> = False" using private_unmarked [of _ ls c n al] ls by (force simp: list_ex_iff reset_rows_def)
  finally show "unmarked (db\<lparr>nbACLs := others_of db ls @ new\<rparr>) ls" using fs unfolding unmarked_def list_ex_iff by force
qed

lemma update_succeeds:
  assumes tx: "never_fails tx" and db: "\<not> nbErr db" "ls \<noteq> []" "(LogicalSwitchKey, ls) \<in> set (nbParents db)" and f: "list_all acl_fields subnetAcls"
  shows "\<exists>db1. UpdateLogicalSwitchACL tx db ls c subnetAcls ew = Inr db1"
proof (cases "subnetAcls = []")
  case True
  then show ?thesis using DeleteAcls_succeeds [OF tx _ db(3,2,1)] by (simp add: UpdateLogicalSwitchACL_def kind_ok_def)
next
  case False
  then show ?thesis unfolding UpdateLogicalSwitchACL_ops [OF False db(2,1) f] using db Transact_succeeds [OF tx]
    by (simp add: DeleteAclsOps_def ListAcls_def CreateAclsOps_def parent_op_def Let_def)
qed

text \<open>
  C22. The pass over a subnet leaves its switch with exactly the rows the subnet asks for, whatever rows it had: the rows of a
  private switch if it is private, then the rows for traffic inside the networks if it has rules and allows it, and its own
  rules in their order, less those that coincide with a private row in direction, priority, match and tier. The rows of others stay. Running the pass again
  changes nothing but UUIDs.\<close>

theorem subnet_acls_exact:
  assumes tx: "nb_server tx" "never_fails tx" "\<forall>r. patch r = None"
    and db: "tidy db LogicalSwitchKey name" "\<not> nbErr db" "name \<noteq> []" "(LogicalSwitchKey, name) \<in> set (nbParents db)" and f: "list_all acl_fields subnetAcls"
  shows "\<exists>db1. subnet_acls tx patch db nodeSwitchCIDR name cidrBlock private allowSubnets subnetAcls allowEWTraffic = Inr db1 \<and>
    others_of db1 name = others_of db name \<and>
    map core (filter (\<lambda>a. owner a = name) (nbACLs db1)) = map core (subnet_rows nodeSwitchCIDR name cidrBlock private allowSubnets subnetAcls allowEWTraffic) \<and>
    tidy db1 LogicalSwitchKey name \<and> nbParents db1 = nbParents db \<and> nbErr db1 = nbErr db"
proof -
  let ?own = "reset_rows private name cidrBlock nodeSwitchCIDR allowSubnets"
  obtain db0 new where r: "(if private then SetLogicalSwitchPrivate tx db name cidrBlock nodeSwitchCIDR allowSubnets else DeleteAcls tx db name LogicalSwitchKey [] []) = Inr db0"
    "db0 = db\<lparr>nbACLs := others_of db name @ new\<rparr>" "map core new = map core ?own" "tidy db0 LogicalSwitchKey name"
    using reset_step [OF tx(1,2) db] by blast
  have b: "\<not> nbErr db0" "(LogicalSwitchKey, name) \<in> set (nbParents db0)" "unmarked db0 name" using db r(2) after_reset(2) [OF r(3) db(3)] by auto
  obtain db1 where u: "UpdateLogicalSwitchACL tx db0 name cidrBlock subnetAcls allowEWTraffic = Inr db1"
    using update_succeeds [OF tx(2) b(1) db(3) b(2) f] by blast
  from UpdateLogicalSwitchACL_rows [OF tx(1) r(4) b(1) db(3) b(3) f u] obtain more where
    m: "db1 = db0\<lparr>nbACLs := nbACLs db0 @ more\<rparr>" "map core more = map core (new_rows db0 name cidrBlock subnetAcls allowEWTraffic)" "tidy db1 LogicalSwitchKey name" by blast
  have all: "nbACLs db1 = others_of db name @ (new @ more)" using m(1) r(2) by simp
  have nr: "new_rows db0 name cidrBlock subnetAcls allowEWTraffic = filter (\<lambda>a. \<not> list_ex (like a) ?own) (map (switch_row name) (switch_specs cidrBlock subnetAcls allowEWTraffic))"
    unfolding new_rows_def r(2) filter_map o_def using after_reset(1) [OF r(3) db(3), of db] by simp
  have rows: "map core (new @ more) = map core (subnet_rows nodeSwitchCIDR name cidrBlock private allowSubnets subnetAcls allowEWTraffic)"
    using r(3) m(2) unfolding nr by (simp add: subnet_rows_def Let_def)
  have own: "\<forall>a\<in>set (subnet_rows nodeSwitchCIDR name cidrBlock private allowSubnets subnetAcls allowEWTraffic). owner a = name"
    using reset_owner by (auto simp: subnet_rows_def Let_def switch_row_simps)
  have "subnet_acls tx patch db nodeSwitchCIDR name cidrBlock private allowSubnets subnetAcls allowEWTraffic = Inr db1"
    using r(1) u tx(3) by (simp add: subnet_acls_def)
  then show ?thesis using own_rows_added [OF rows own, of db] rows all m(1,3) r(2) by (simp add: others_of_def)
qed

text \<open>
  Without the reset before it, an update repeated with the same rules takes them away: the rows exist when it looks, so
  none is made anew, and the same transaction removes them. The pass over a subnet always resets first.
\<close>

lemma core_mem:
  assumes "map core new = map core rows" "b \<in> set rows"
  shows "\<exists>a\<in>set new. core a = core b"
proof -
  have "core b \<in> core ` set new" using assms by (metis image_eqI image_set)
  then show ?thesis by (metis imageE)
qed

lemma rows_present:
  assumes db1: "nbACLs db1 = nbACLs db @ new" and new: "map core new = map core (new_rows db ls c acls ew)" and s: "s \<in> set (switch_specs c acls ew)"
  shows "\<exists>b\<in>set (nbACLs db1). owner b = ls \<and> like (switch_row ls s) b"
proof (cases "\<exists>b\<in>set (nbACLs db). owner b = ls \<and> like (switch_row ls s) b")
  case True
  then show ?thesis using db1 by auto
next
  case False
  then have "switch_row ls s \<in> set (new_rows db ls c acls ew)" using s by (auto simp: new_rows_def)
  then obtain a where a: "a \<in> set new" "core a = core (switch_row ls s)" using core_mem [OF new] by blast
  have "owner a = ls" using owner_cong [OF a(2)] by (simp add: switch_row_simps)
  moreover have "like (switch_row ls s) a" using core_eqD [OF a(2)] by (simp add: like_def)
  ultimately show ?thesis using a(1) db1 by auto
qed

theorem update_again_drops:
  assumes tx: "nb_server tx" and db: "tidy db LogicalSwitchKey ls" "\<not> nbErr db" "ls \<noteq> []" "unmarked db ls" and f: "list_all acl_fields acls" "acls \<noteq> []"
    and u: "UpdateLogicalSwitchACL tx db ls c acls ew = Inr db1" "UpdateLogicalSwitchACL tx db1 ls c acls ew = Inr db2"
  shows "nbACLs db2 = nbACLs db"
proof -
  have k: "kind_ok LogicalSwitchKey" by (simp add: kind_ok_def)
  obtain new where n: "db1 = db\<lparr>nbACLs := nbACLs db @ new\<rparr>" "map core new = map core (new_rows db ls c acls ew)" "tidy db1 LogicalSwitchKey ls"
    using UpdateLogicalSwitchACL_rows [OF tx db f(1) u(1)] by blast
  have "\<not> nbErr db1" using db(2) n(1) by simp
  note ops = UpdateLogicalSwitchACL_ops [OF f(2) db(3) this f(1), of tx c ew]
  have e1: "nbACLs db1 = nbACLs db @ new" using n(1) by simp
  have none: "map (\<lambda>s. if \<exists>b\<in>set (nbACLs db1). owner b = ls \<and> like (switch_row ls s) b then None else Some (switch_row ls s)) (switch_specs c acls ew) = map (\<lambda>s. None) (switch_specs c acls ew)"
    using rows_present [OF e1 n(2)] by simp
  have "List.map_filter id (map (\<lambda>s. None) xs) = ([] :: ACL list)" for xs :: "(string \<times> string \<times> string \<times> string) list" by (induction xs) (auto simp: map_filter_def)
  then have "CreateAclsOps db1 ls LogicalSwitchKey (map (\<lambda>s. None) (switch_specs c acls ew)) = Inr []"
    by (simp add: CreateAclsOps_def parent_op_def Let_def)
  then obtain delOps where d: "DeleteAclsOps db1 ls LogicalSwitchKey [] [(''subnet'', ls)] = Inr delOps" "Transact tx (delOps @ []) db1 = Inr db2"
    using u(2) unfolding ops none by (auto split: sum.splits)
  have "db2 = db1\<lparr>nbACLs := filter (\<lambda>a. \<not> aclFilter [] (mput aclParentKey ls [(''subnet'', ls)]) a) (nbACLs db1)\<rparr>"
    using DeleteAclsOps_run [OF k db(3) n(3) d(1) Transact_run [OF tx d(2)]] by auto
  moreover have "mget0 (aExternalIDs a) ''subnet'' = ls \<and> owner a = ls" if in_new: "a \<in> set new" for a
  proof -
    obtain b where "b \<in> set (new_rows db ls c acls ew)" "core b = core a" using core_mem [OF n(2) [symmetric] in_new] by blast
    moreover from this(1) have "mget0 (aExternalIDs b) ''subnet'' = ls" "owner b = ls" by (auto simp: new_rows_def switch_row_simps)
    ultimately show ?thesis using core_eqD(5) [of b a] owner_cong [of b a] by simp
  qed
  ultimately show ?thesis using db(4) by (auto simp: e1 aclFilter_marked [OF db(3)] unmarked_def filter_id_conv filter_empty_conv)
qed

text \<open>Inputs at which the theorems apply.\<close>

definition sample_nb :: NbDb where
  "sample_nb = \<lparr>nbACLs = [], nbParents = [(LogicalSwitchKey, ''net1'')], nbErr = False, nbGroupIDs = [], nbSets = []\<rparr>"

lemma sample_nb_ok: "tidy sample_nb LogicalSwitchKey ''net1''" "\<not> nbErr sample_nb" "''net1'' \<noteq> []" "(LogicalSwitchKey, ''net1'') \<in> set (nbParents sample_nb)"
  by (simp_all add: sample_nb_def tidy_def)

lemma sample_private: "private_ok ''10.16.0.0/16'' ''100.64.0.0/16'' ['' 10.17.0.0/16'']"
proof -
  have "split_char CHR '','' ''10.16.0.0/16'' = [''10.16.0.0/16'']" "split_char CHR '','' ''100.64.0.0/16'' = [''100.64.0.0/16'']" "TrimSpace '' 10.17.0.0/16'' = ''10.17.0.0/16''"
    by code_simp+
  then show ?thesis by (simp add: private_ok_def plain_simps)
qed

theorem private_switch_isolates_witness:
  "\<exists>db1. SetLogicalSwitchPrivate nb_do sample_nb ''net1'' ''10.16.0.0/16'' ''100.64.0.0/16'' ['' 10.17.0.0/16''] = Inr db1 \<and>
    others_of db1 ''net1'' = others_of sample_nb ''net1'' \<and>
    (\<forall>at. verdict at db1 LogicalSwitchKey ''net1'' ToLport NetpolACLTier =
       (if private_hits at ''10.16.0.0/16'' ''100.64.0.0/16'' ['' 10.17.0.0/16''] then {ActionAllowRelated} else if at ''ip'' then {ActionDrop} else {}))"
  by (rule private_switch_isolates [OF nb_do_server sample_nb_ok sample_private])

definition sample_acls :: "SubnetACL list" where
  "sample_acls = [\<lparr>saDirection = ToLport, saPriority = 1111, saMatch = ''ip4.src == 192.168.111.5'', saAction = ActionDrop\<rparr>]"

lemma sample_acls_ok: "list_all acl_fields sample_acls"
  by (simp add: sample_acls_def acl_fields_def)

theorem subnet_acls_exact_witness:
  "\<exists>db1. subnet_acls nb_do (\<lambda>r. None) sample_nb ''100.64.0.0/16'' ''net1'' ''10.16.0.0/16'' True [] sample_acls True = Inr db1 \<and>
    others_of db1 ''net1'' = others_of sample_nb ''net1'' \<and>
    map core (filter (\<lambda>a. owner a = ''net1'') (nbACLs db1)) = map core (subnet_rows ''100.64.0.0/16'' ''net1'' ''10.16.0.0/16'' True [] sample_acls True) \<and>
    tidy db1 LogicalSwitchKey ''net1'' \<and> nbParents db1 = nbParents sample_nb \<and> nbErr db1 = nbErr sample_nb"
  by (rule subnet_acls_exact [OF nb_do_server _ sample_nb_ok sample_acls_ok]) simp

end
