(* ===== verification/SecurityGroupSyncProps.thy ===== *)
theory SecurityGroupSyncProps
  imports SecurityGroupSync SwitchAclProps
begin

text \<open>
  The handler of security groups keeps the rows in step with the group, as far as the status it keeps can tell.
\<close>

section \<open>The rows follow the group\<close>

definition rows_of :: "NbDb \<Rightarrow> string \<Rightarrow> string \<Rightarrow> ACL set" where
  "rows_of db n d = {a \<in> set (nbACLs db). owner a = n \<and> aDirection a = d}"

definition shows_rules :: "NbDb \<Rightarrow> SecurityGroup \<Rightarrow> string \<Rightarrow> bool" where
  "shows_rules db sg d = (core ` rows_of db (GetSgPortGroupName (sgName sg)) d = core ` set (sg_same_rows sg d @ sg_rule_rows sg d @ sg_base_rows sg d))"

definition with_rules :: "SecurityGroup \<Rightarrow> string \<Rightarrow> SecurityGroupRule list \<Rightarrow> bool \<Rightarrow> SecurityGroup" where
  "with_rules sg d rules same = (if d = FromLport then sg\<lparr>sgEgressRules := rules\<rparr> else sg\<lparr>sgIngressRules := rules\<rparr>)\<lparr>sgAllowSameGroupTraffic := same\<rparr>"

text \<open>
  The status is in step with the database, when the rules synced last are \<open>synced\<close>: a direction that it calls synced has the
  digest of those rules, and their rows at the tier of the group.
\<close>

definition in_step :: "(SecurityGroupRule list \<Rightarrow> string) \<Rightarrow> NbDb \<Rightarrow> SgStatus \<Rightarrow> SecurityGroup \<Rightarrow> (string \<Rightarrow> SecurityGroupRule list) \<Rightarrow> bool" where
  "in_step md5 db st sg synced = (\<forall>d\<in>{ToLport, FromLport}. st_ok st d \<and> st_md5 st d \<noteq> [] \<longrightarrow>
     md5 (synced d) = st_md5 st d \<and> shows_rules db (with_rules sg d (synced d) (ssAllowSameGroupTraffic st)) d)"

lemma with_own_rules: "with_rules sg d (sg_rules sg d) (sgAllowSameGroupTraffic sg) = sg"
  by (simp add: with_rules_def sg_rules_def)

lemma rows_of_kept: "others db1 n d = others db n d \<Longrightarrow> e \<noteq> d \<Longrightarrow> rows_of db1 n e = rows_of db n e"
proof -
  assume o: "others db1 n d = others db n d" and e: "e \<noteq> d"
  have "rows_of x n e = {a \<in> set (others x n d). owner a = n \<and> aDirection a = e}" for x using e by (auto simp: rows_of_def others_def)
  then show ?thesis using o by simp
qed

lemma shows_rules_kept:
  assumes "others db1 (GetSgPortGroupName (sgName sg)) d = others db (GetSgPortGroupName (sgName sg)) d" "e \<noteq> d"
  shows "shows_rules db1 sg e = shows_rules db sg e"
  unfolding shows_rules_def rows_of_kept [OF assms] ..

lemma shows_rules_decides:
  "sg_ok sg \<Longrightarrow> tidy db portGroupKey (GetSgPortGroupName (sgName sg)) \<Longrightarrow> shows_rules db sg d \<Longrightarrow>
   verdict at db portGroupKey (GetSgPortGroupName (sgName sg)) d tier = sg_decision at sg d tier"
  unfolding shows_rules_def rows_of_def by (rule trans [OF verdict_rows rows_decide])

text \<open>The database in a state the handler can work with.\<close>

definition ready :: "NbDb \<Rightarrow> SecurityGroup \<Rightarrow> bool" where
  "ready db sg = (tidy db portGroupKey (GetSgPortGroupName (sgName sg)) \<and> \<not> nbErr db \<and> (portGroupKey, GetSgPortGroupName (sgName sg)) \<in> set (nbParents db))"

lemma update_direction_ok:
  assumes tx: "nb_server tx" "never_fails tx" and ok: "sg_ok sg" "d \<in> {ToLport, FromLport}" and db: "ready db sg" and no: "\<not> need \<Longrightarrow> shows_rules db sg d"
  shows "\<exists>db1. update_direction tx sg d m need db st = Inr (db1, if need then set_st d m st else st) \<and> ready db1 sg \<and>
    others db1 (GetSgPortGroupName (sgName sg)) d = others db (GetSgPortGroupName (sgName sg)) d \<and> shows_rules db1 sg d"
proof (cases need)
  case False
  then show ?thesis using no db by (simp add: update_direction_def)
next
  case True
  let ?pg = "GetSgPortGroupName (sgName sg)"
  have d: "d \<noteq> []" using ok(2) by (auto simp: ToLport_def FromLport_def)
  have db': "tidy db portGroupKey ?pg" "\<not> nbErr db" "(portGroupKey, ?pg) \<in> set (nbParents db)" using db by (auto simp: ready_def)
  obtain db1 where u: "UpdateSgACL tx db sg d = Inr db1" using UpdateSgACL_succeeds [OF tx ok(1) d db' refl] by blast
  obtain new where n: "db1 = db\<lparr>nbACLs := others db ?pg d @ new\<rparr>" "map core new = map core (sg_same_rows sg d @ sg_rule_rows sg d)" "tidy db1 portGroupKey ?pg"
    using UpdateSgACL_rows [OF tx(1) ok(1) d db'(1,2) refl u] by blast
  have pg1: "(portGroupKey, ?pg) \<in> set (nbParents db1)" using db'(3) n(1) by simp
  then obtain db2 where b: "CreateSgBaseACL tx db1 (sgName sg) d = Inr db2"
    using CreateAcls_succeeds [OF tx(2), of portGroupKey ?pg db1] by (auto simp: CreateSgBaseACL_def kind_ok_def Let_def)
  have "fresh_for db1 ?pg d 2005" using fresh_after_rules [OF ok(1) db'(2) n(2)] n(1) by simp
  from base_ACL_rows [OF tx(1) ok(1) d n(3) this refl b] obtain base where "db2 = db1\<lparr>nbACLs := nbACLs db1 @ base\<rparr>" by blast
  then have "\<not> nbErr db2" "(portGroupKey, ?pg) \<in> set (nbParents db2)" using pg1 db'(2) n(1) by simp_all
  then show ?thesis using True u b sg_rows_after [OF tx(1) ok(1) d db'(1,2) refl u b]
    by (simp add: update_direction_def ready_def shows_rules_def rows_of_def)
qed

section \<open>Groups and sets\<close>

definition same_rows :: "NbDb \<Rightarrow> NbDb \<Rightarrow> bool" where
  "same_rows db db' = (nbACLs db' = nbACLs db \<and> nbErr db' = nbErr db \<and> set (nbParents db) \<subseteq> set (nbParents db'))"

lemma same_rows_trans: "same_rows a b \<Longrightarrow> same_rows b c \<Longrightarrow> same_rows a c"
  by (auto simp: same_rows_def)

lemma group_run: "nb_server tx \<Longrightarrow> Transact tx [OpPortGroup n ids] db = Inr db' \<Longrightarrow> same_rows db db' \<and> (portGroupKey, n) \<in> set (nbParents db')"
  by (drule Transact_run, assumption) (auto simp: same_rows_def elim!: nb_groupE)

lemma address_run: "nb_server tx \<Longrightarrow> Transact tx [OpAddressSet n ids] db = Inr db' \<Longrightarrow> same_rows db db'"
  by (drule Transact_run, assumption) (auto simp: same_rows_def elim!: nb_addressE)

lemma CreatePortGroup_ok:
  assumes "nb_server tx" "never_fails tx" "\<not> nbErr db" "n \<noteq> []"
  shows "\<exists>db'. CreatePortGroup tx db n ids = Inr db' \<and> same_rows db db' \<and> (portGroupKey, n) \<in> set (nbParents db')"
proof -
  have t: "\<exists>db'. Transact tx [OpPortGroup n x] db = Inr db' \<and> same_rows db db' \<and> (portGroupKey, n) \<in> set (nbParents db')" for x
    using Transact_succeeds [OF assms(2)] group_run [OF assms(1)] by blast
  show ?thesis using assms(3,4) t by (auto simp: CreatePortGroup_def Let_def same_rows_def split: option.splits)
qed

lemma CreateAddressSet_ok:
  "nb_server tx \<Longrightarrow> never_fails tx \<Longrightarrow> \<not> nbErr db \<Longrightarrow> matchAddressSetName n \<Longrightarrow> \<exists>db'. CreateAddressSet tx db n ids = Inr db' \<and> same_rows db db'"
  using Transact_succeeds address_run by (fastforce simp: CreateAddressSet_def same_rows_def)

lemma sg_objects_ok:
  assumes tx: "nb_server tx" "never_fails tx" and sg: "sg_ok sg" "matchAddressSetName (GetSgV4AssociatedName (sgName sg))" "matchAddressSetName (GetSgV6AssociatedName (sgName sg))"
    and db: "\<not> nbErr db"
  shows "\<exists>db'. sg_objects tx db sg = Inr db' \<and> same_rows db db' \<and> (portGroupKey, GetSgPortGroupName (sgName sg)) \<in> set (nbParents db')"
proof -
  have ne: "GetSgPortGroupName (sgName sg) \<noteq> []" using sg_ok_name [OF sg(1)] by auto
  obtain d1 where a: "CreatePortGroup tx db (GetSgPortGroupName (sgName sg)) [(''type'', ''security_group''), (sgKey, sgName sg)] = Inr d1" "same_rows db d1"
    "(portGroupKey, GetSgPortGroupName (sgName sg)) \<in> set (nbParents d1)" using CreatePortGroup_ok [OF tx db ne] by blast
  have e1: "\<not> nbErr d1" using a(2) db by (simp add: same_rows_def)
  then obtain d2 where b: "CreateAddressSet tx d1 (GetSgV4AssociatedName (sgName sg)) [(sgKey, sgName sg)] = Inr d2" "same_rows d1 d2"
    using CreateAddressSet_ok [OF tx e1 sg(2)] by blast
  have e2: "\<not> nbErr d2" using b(2) e1 by (simp add: same_rows_def)
  then obtain d3 where c: "CreateAddressSet tx d2 (GetSgV6AssociatedName (sgName sg)) [(sgKey, sgName sg)] = Inr d3" "same_rows d2 d3"
    using CreateAddressSet_ok [OF tx e2 sg(3)] by blast
  have "same_rows db d3" using a(2) b(2) c(2) same_rows_trans by blast
  then show ?thesis using a b c by (auto simp: sg_objects_def same_rows_def)
qed

section \<open>Validated groups\<close>

definition sg_texts :: "SecurityGroup \<Rightarrow> bool" where
  "sg_texts sg = (plain (sgName sg) \<and> matchAddressSetName (GetSgV4AssociatedName (sgName sg)) \<and> matchAddressSetName (GetSgV6AssociatedName (sgName sg)) \<and>
     list_all rule_plain (sgIngressRules sg @ sgEgressRules sg))"

lemma validated:
  assumes "validateSgRule sgExists sg = None" "sg_texts sg"
  shows "sg_ok sg"
proof -
  have t: "ValidateSecurityGroupTier (sgTier sg) = None" and r: "\<forall>r\<in>set (sgIngressRules sg @ sgEgressRules sg). sg_rule_error sgExists (sgTier sg) r = None"
    using assms(1) by (auto simp: validateSgRule_def split: option.splits)
  have "1 \<le> srPriority r \<and> srPriority r \<le> 16384" if "sg_rule_error sgExists (sgTier sg) r = None" for r
    using that by (auto simp: sg_rule_error_def SecurityGroupPriorityMin_def SecurityGroupPriorityMax_def split: if_splits)
  then show ?thesis using t r assms(2) by (auto simp: sg_ok_def sg_texts_def list_all_iff)
qed

lemma rows_same: "same_rows db db' \<Longrightarrow> shows_rules db' sg d = shows_rules db sg d" "same_rows db db' \<Longrightarrow> tidy db' t n = tidy db t n" "same_rows db db' \<Longrightarrow> others db' n d = others db n d"
  by (simp_all add: same_rows_def shows_rules_def rows_of_def tidy_def others_def)

text \<open>No two of the lists of rules at hand have the same digest, and no digest is empty.\<close>

definition digests :: "(SecurityGroupRule list \<Rightarrow> string) \<Rightarrow> SecurityGroup \<Rightarrow> (string \<Rightarrow> SecurityGroupRule list) \<Rightarrow> bool" where
  "digests md5 sg synced = (\<forall>d\<in>{ToLport, FromLport}. md5 (sg_rules sg d) \<noteq> [] \<and> (md5 (synced d) = md5 (sg_rules sg d) \<longrightarrow> synced d = sg_rules sg d))"

lemma not_needed:
  assumes md5: "digests md5 sg synced" and i: "force \<or> in_step md5 db st sg synced" and d: "d \<in> {ToLport, FromLport}" and no: "\<not> need_update md5 force st sg d"
  shows "shows_rules db sg d" "st_md5 st d = md5 (sg_rules sg d)"
proof -
  have n: "st_ok st d" "st_md5 st d = md5 (sg_rules sg d)" "ssAllowSameGroupTraffic st = sgAllowSameGroupTraffic sg" using no by (auto simp: need_update_def)
  have m: "md5 (sg_rules sg d) \<noteq> []" "md5 (synced d) = md5 (sg_rules sg d) \<Longrightarrow> synced d = sg_rules sg d" using bspec [OF md5 [unfolded digests_def] d] by blast+
  have "md5 (synced d) = st_md5 st d" "shows_rules db (with_rules sg d (synced d) (ssAllowSameGroupTraffic st)) d"
    using i no d n(1,2) m(1) by (auto simp: need_update_def in_step_def)
  moreover from this(1) have "synced d = sg_rules sg d" using n(2) m(2) by simp
  ultimately show "shows_rules db sg d" "st_md5 st d = md5 (sg_rules sg d)" using n(2,3) with_own_rules by simp_all
qed

lemma st_simps:
  "st_ok (set_st d m st) d" "st_md5 (set_st d m st) d = m"
  "e \<noteq> d \<Longrightarrow> d \<in> {ToLport, FromLport} \<Longrightarrow> e \<in> {ToLport, FromLport} \<Longrightarrow> st_ok (set_st d m st) e = st_ok st e \<and> st_md5 (set_st d m st) e = st_md5 st e"
  by (auto simp: st_ok_def st_md5_def set_st_def)

lemma in_step_from:
  assumes "\<forall>d\<in>{ToLport, FromLport}. shows_rules db sg d \<and> st_md5 st d \<in> {[], md5 (sg_rules sg d)}" "ssAllowSameGroupTraffic st = sgAllowSameGroupTraffic sg"
  shows "in_step md5 db st sg (sg_rules sg)"
  unfolding in_step_def
proof (intro ballI impI)
  fix d assume d: "d \<in> {ToLport, FromLport}" "st_ok st d \<and> st_md5 st d \<noteq> []"
  then have "md5 (sg_rules sg d) = st_md5 st d" "shows_rules db sg d" using assms(1) by auto
  then show "md5 (sg_rules sg d) = st_md5 st d \<and> shows_rules db (with_rules sg d (sg_rules sg d) (ssAllowSameGroupTraffic st)) d"
    using with_own_rules [of sg d] assms(2) by simp
qed

definition other_rows :: "NbDb \<Rightarrow> string \<Rightarrow> ACL list" where
  "other_rows db n = filter (\<lambda>a. \<not> (owner a = n \<and> aDirection a \<in> {ToLport, FromLport})) (nbACLs db)"

lemma other_rows_kept: "others db1 n d = others db n d \<Longrightarrow> d \<in> {ToLport, FromLport} \<Longrightarrow> other_rows db1 n = other_rows db n"
proof -
  assume o: "others db1 n d = others db n d" and d: "d \<in> {ToLport, FromLport}"
  have "other_rows x n = filter (\<lambda>a. \<not> (owner a = n \<and> aDirection a \<in> {ToLport, FromLport})) (others x n d)" for x
    unfolding other_rows_def others_def filter_filter by (rule filter_cong) (use d in auto)
  then show ?thesis using o by simp
qed

text \<open>
  C6. The handler of a security group keeps the database in step with the group, as long as the tier of the group has not
  changed since its last update: if before it each direction the status calls synced has the digest and the rows of the rules
  synced last, at the tier the group has now, or if the update is forced, then after it the rows of both directions decide as
  the group says, the rows of others stay, and the status is in step again, also where a direction was left out because its
  digest is unchanged. It succeeds for every group that passes the validation. The digest has to tell the rules synced
  last from the new ones; it does not cover the tier, so a change of the tier alone is excluded (lemma \<open>tier_change_missed\<close>).\<close>

theorem security_group_in_step:
  assumes tx: "nb_server tx" "never_fails tx" and md5: "digests md5 sg synced"
    and sg: "validateSgRule sgExists sg = None" "sg_texts sg" and deny: "denyPorts = None"
    and db: "tidy db portGroupKey pg" "\<not> nbErr db" and pg: "pg = GetSgPortGroupName (sgName sg)" and i: "force \<or> in_step md5 db st sg synced"
  shows "\<exists>db' st'. handleAddOrUpdateSg tx md5 sgExists denyPorts (Inr (Some sg)) (sgName sg) force db st = Inr (db', st') \<and>
    in_step md5 db' st' sg (sg_rules sg) \<and> other_rows db' pg = other_rows db pg \<and>
    (\<forall>d\<in>{ToLport, FromLport}. \<forall>at tier. verdict at db' portGroupKey pg d tier = sg_decision at sg d tier)"
proof -
  note ok = validated [OF sg]
  have names: "matchAddressSetName (GetSgV4AssociatedName (sgName sg))" "matchAddressSetName (GetSgV6AssociatedName (sgName sg))" using sg(2) by (auto simp: sg_texts_def)
  obtain d0 where o: "sg_objects tx db sg = Inr d0" "same_rows db d0" "(portGroupKey, pg) \<in> set (nbParents d0)" using sg_objects_ok [OF tx ok names db(2)] pg by blast
  have r0: "ready d0 sg" using o(2,3) db pg by (auto simp: ready_def rows_same same_rows_def tidy_def)
  define nt nf where "nt = need_update md5 force st sg ToLport" and "nf = need_update md5 force st sg FromLport"
  define mt mf where "mt = new_md5 md5 force sg ToLport" and "mf = new_md5 md5 force sg FromLport"
  define s1 where "s1 = (if nt then set_st ToLport mt st else st)"
  define s2 where "s2 = (if nf then set_st FromLport mf s1 else s1)"
  have dirs: "ToLport \<in> {ToLport, FromLport}" "FromLport \<in> {ToLport, FromLport}" by simp_all
  have kept: "\<not> nt \<Longrightarrow> shows_rules d0 sg ToLport" "\<not> nf \<Longrightarrow> shows_rules d0 sg FromLport"
    using not_needed(1) [OF md5 i dirs(1)] not_needed(1) [OF md5 i dirs(2)] rows_same(1) [OF o(2)] by (auto simp: nt_def nf_def)
  obtain d1 where a: "update_direction tx sg ToLport mt nt d0 st = Inr (d1, s1)" "ready d1 sg" "others d1 pg ToLport = others d0 pg ToLport" "shows_rules d1 sg ToLport"
    using update_direction_ok [OF tx ok dirs(1) r0, where need = nt and m = mt and st = st] kept(1) pg unfolding s1_def by blast
  have "\<not> nf \<Longrightarrow> shows_rules d1 sg FromLport" using kept(2) shows_rules_kept [OF a(3) [unfolded pg], of FromLport] by simp
  then obtain d2 where b: "update_direction tx sg FromLport mf nf d1 s1 = Inr (d2, s2)" "ready d2 sg" "others d2 pg FromLport = others d1 pg FromLport" "shows_rules d2 sg FromLport"
    using update_direction_ok [OF tx ok dirs(2) a(2), where need = nf and m = mf and st = s1] pg unfolding s2_def by blast
  have all: "shows_rules d2 sg d" if "d \<in> {ToLport, FromLport}" for d using that b(4) a(4) shows_rules_kept [OF b(3) [unfolded pg], of ToLport] by auto
  define st' where "st' = s2\<lparr>ssPortGroup := pg, ssAllowSameGroupTraffic := sgAllowSameGroupTraffic sg\<rparr>"
  have st_md5: "st_md5 st' d = st_md5 s2 d" for d by (simp add: st'_def st_md5_def)
  have "st_md5 s2 d \<in> {[], md5 (sg_rules sg d)}" if "d \<in> {ToLport, FromLport}" for d
    using that not_needed(2) [OF md5 i dirs(1)] not_needed(2) [OF md5 i dirs(2)]
    by (auto simp: s2_def s1_def nt_def nf_def mt_def mf_def new_md5_def st_simps)
  moreover have "ssAllowSameGroupTraffic st' = sgAllowSameGroupTraffic sg" by (simp add: st'_def)
  ultimately have "in_step md5 d2 st' sg (sg_rules sg)" using all st_md5 by (intro in_step_from) auto
  moreover have "handleAddOrUpdateSg tx md5 sgExists denyPorts (Inr (Some sg)) (sgName sg) force db st = Inr (d2, st')"
    using o(1) a(1) b(1) sg(1) deny by (simp add: handleAddOrUpdateSg_def nt_def nf_def mt_def mf_def st'_def pg)
  moreover have "other_rows d2 pg = other_rows db pg"
    using other_rows_kept [OF b(3)] other_rows_kept [OF a(3)] o(2) by (simp add: other_rows_def same_rows_def)
  moreover have "tidy d2 portGroupKey pg" using b(2) by (simp add: ready_def pg)
  ultimately show ?thesis using shows_rules_decides [OF ok] all pg by blast
qed

text \<open>
  What the status does not know: a change of the tier alone is not acted on. A group in step whose tier changes keeps its rows at the
  old tier until something else forces an update.
\<close>

lemma tier_change_missed:
  assumes md5: "\<forall>d\<in>{ToLport, FromLport}. \<not> need_update md5 False st sg d" and v: "validateSgRule sgExists (sg\<lparr>sgTier := t\<rparr>) = None"
    and o: "sg_objects tx db (sg\<lparr>sgTier := t\<rparr>) = Inr db'" and deny: "denyPorts = None"
  shows "handleAddOrUpdateSg tx md5 sgExists denyPorts (Inr (Some (sg\<lparr>sgTier := t\<rparr>))) (sgName sg) False db st =
    Inr (db', st\<lparr>ssPortGroup := GetSgPortGroupName (sgName sg), ssAllowSameGroupTraffic := sgAllowSameGroupTraffic sg\<rparr>)"
proof -
  have "need_update md5 False st (sg\<lparr>sgTier := t\<rparr>) d = need_update md5 False st sg d" for d by (simp add: need_update_def sg_rules_def)
  then show ?thesis using md5 v o deny by (simp add: handleAddOrUpdateSg_def update_direction_def)
qed

definition sample_status :: SgStatus where
  "sample_status = \<lparr>ssPortGroup = [], ssAllowSameGroupTraffic = False, ssIngressMd5 = [], ssEgressMd5 = [], ssIngressLastSyncSuccess = False, ssEgressLastSyncSuccess = False\<rparr>"

lemma sample_texts: "sg_texts sample_sg" "validateSgRule (\<lambda>n. True) sample_sg = None"
proof -
  have "matchAddressSetName (GetSgV4AssociatedName (sgName sample_sg))" "matchAddressSetName (GetSgV6AssociatedName (sgName sample_sg))" by code_simp+
  then show "sg_texts sample_sg" using sample_sg_ok by (auto simp: sg_texts_def sg_ok_def list_all_iff)
  show "validateSgRule (\<lambda>n. True) sample_sg = None" by code_simp
qed

theorem security_group_in_step_witness:
  "\<exists>db' st'. handleAddOrUpdateSg nb_do (\<lambda>rs. if rs = [] then ''d41d'' else ''a1f0'') (\<lambda>n. True) None (Inr (Some sample_sg)) (sgName sample_sg) False sample_nb sample_status = Inr (db', st') \<and>
    in_step (\<lambda>rs. if rs = [] then ''d41d'' else ''a1f0'') db' st' sample_sg (sg_rules sample_sg) \<and>
    other_rows db' (GetSgPortGroupName (sgName sample_sg)) = other_rows sample_nb (GetSgPortGroupName (sgName sample_sg)) \<and>
    (\<forall>d\<in>{ToLport, FromLport}. \<forall>at tier. verdict at db' portGroupKey (GetSgPortGroupName (sgName sample_sg)) d tier = sg_decision at sample_sg d tier)"
  by (rule security_group_in_step [OF nb_do_server _ sample_texts(2,1) refl _ _ refl, where synced = "\<lambda>d. []"])
    (auto simp: digests_def sg_rules_def sample_sg_def tidy_def sample_nb_def in_step_def st_ok_def sample_status_def)

end
