(* ===== verification/OvsUtil.thy ===== *)
theory OvsUtil
  imports UtilNet
begin

text \<open>
  The rest of pkg/ovs/util.go: port names, the options of router advertisements and of DHCP, and the
  limiter for calls to the database. A \<open>range\<close> over a map visits the list that models it in its order.
\<close>

section \<open>Names\<close>

definition PodNameToPortName :: "string \<Rightarrow> string \<Rightarrow> string \<Rightarrow> string" where
  "PodNameToPortName pod namespace provider =
     (if provider = OvnProvider then pod @ ''.'' @ namespace else pod @ ''.'' @ namespace @ ''.'' @ provider)"

definition GetLocalnetName :: "string \<Rightarrow> string" where
  "GetLocalnetName subnet = ''localnet.'' @ subnet"

definition trimCommandOutput :: "string \<Rightarrow> string" where
  "trimCommandOutput raw =
     (let q = (\<lambda>c. c = CHR 0x22); s = TrimSpace raw in rev (dropWhile q (rev (dropWhile q s))))"

definition LogicalRouterPortName :: "string \<Rightarrow> string \<Rightarrow> string" where
  "LogicalRouterPortName lr ls = lr @ ''-'' @ ls"

definition LogicalSwitchPortName :: "string \<Rightarrow> string \<Rightarrow> string" where
  "LogicalSwitchPortName lr ls = ls @ ''-'' @ lr"

section \<open>Options\<close>

text \<open>One option of a list: a key and a value, both given; others are skipped.\<close>

definition add_option :: "(string \<Rightarrow> string \<Rightarrow> string) \<Rightarrow> (string, string) gomap \<Rightarrow> string \<Rightarrow> (string, string) gomap" where
  "add_option conv opts option =
     (case split_char CHR ''='' option of
        [k, v] \<Rightarrow> if k = [] \<or> v = [] then opts else mput k (conv k v) opts
      | _ \<Rightarrow> opts)"

definition parseIpv6RaConfigs :: "string \<Rightarrow> (string, string) gomap" where
  "parseIpv6RaConfigs raw =
     (if raw = [] then [(''address_mode'', ''dhcpv6_stateful''), (''max_interval'', ''30''), (''min_interval'', ''5''), (''send_periodic'', ''true'')]
      else foldl (add_option (\<lambda>k v. v)) [] (split_char CHR '','' (replace_char CHR '' '' [] raw)))"

text \<open>A network without a slash panics at the index of the second part.\<close>

fun getIpv6Prefix :: "string list \<Rightarrow> error + string list" where
  "getIpv6Prefix [] = Inr []"
| "getIpv6Prefix (network # networks) =
     (if CheckProtocol network = ProtocolIPv6 then
        (case split_char CHR ''/'' network of
           a # p # rest \<Rightarrow> (case getIpv6Prefix networks of Inl err \<Rightarrow> Inl err | Inr ps \<Rightarrow> Inr (p # ps))
         | _ \<Rightarrow> Inl Panic)
      else getIpv6Prefix networks)"

definition parseDHCPOptions :: "string \<Rightarrow> (string, string) gomap" where
  "parseDHCPOptions raw =
     (if raw = [] then []
      else foldl (add_option (\<lambda>k v. if k = ''dns_server'' then replace_char CHR '';'' '','' v else v)) []
             (split_char CHR '','' (replace_char CHR '' '' [] raw)))"

definition format_option :: "string \<times> string \<Rightarrow> string" where
  "format_option = (\<lambda>(k, v). k @ ''='' @ (if k = ''dns_server'' then replace_char CHR '','' '';'' v else v))"

definition formatDHCPOptions :: "(string, string) gomap \<Rightarrow> string" where
  "formatDHCPOptions options = join '','' (map format_option options)"

text \<open>The value an option has by default; an option without one is not set.\<close>

definition v4_default :: "string \<Rightarrow> string \<Rightarrow> int \<Rightarrow> string \<Rightarrow> string option" where
  "v4_default gateway mac mtu opt =
     (if opt = ''lease_time'' then Some ''3600'' else if opt = ''router'' then Some gateway else if opt = ''server_id'' then Some ''169.254.0.254''
      else if opt = ''server_mac'' then Some mac else if opt = ''mtu'' then Some (Itoa mtu) else None)"

definition v6_default :: "string \<Rightarrow> string \<Rightarrow> string option" where
  "v6_default mac opt = (if opt = ''server_id'' then Some mac else None)"

definition set_default :: "(string \<Rightarrow> string option) \<Rightarrow> (string, string) gomap \<Rightarrow> string \<Rightarrow> (string, string) gomap" where
  "set_default dflt opts opt = (if map_of opts opt = None then (case dflt opt of None \<Rightarrow> opts | Some v \<Rightarrow> mput opt v opts) else opts)"

definition buildDHCPv4Options :: "string \<Rightarrow> string \<Rightarrow> string \<Rightarrow> int \<Rightarrow> string list \<Rightarrow> (string, string) gomap" where
  "buildDHCPv4Options options gateway mac mtu necessaryOptions =
     (if options = [] then [(''lease_time'', ''3600''), (''router'', gateway), (''server_id'', ''169.254.0.254''), (''server_mac'', mac), (''mtu'', Itoa mtu)]
      else foldl (set_default (v4_default gateway mac mtu)) (parseDHCPOptions options) necessaryOptions)"

definition buildDHCPv6Options :: "string \<Rightarrow> string \<Rightarrow> string list \<Rightarrow> (string, string) gomap" where
  "buildDHCPv6Options options mac necessaryOptions =
     (if options = [] then [(''server_id'', mac)]
      else foldl (set_default (v6_default mac)) (parseDHCPOptions options) necessaryOptions)"

section \<open>The limiter\<close>

record Limiter =
  lLimit :: "32 word"
  lCurrent :: "32 word"

definition Limit :: "Limiter \<Rightarrow> 32 word" where "Limit l = lLimit l"
definition Current :: "Limiter \<Rightarrow> 32 word" where "Current l = lCurrent l"
definition Limiter_Update :: "32 word \<Rightarrow> Limiter \<Rightarrow> Limiter" where "Limiter_Update limit l = l\<lparr>lLimit := limit\<rparr>"

text \<open>
  One turn of the loop of \<open>Wait\<close> looks whether the call may go on; the count goes up in a second, separate step.
  Limit and count are \<open>int32\<close>: they are compared as signed numbers, and the count wraps around. A limit of zero is none.
\<close>

definition wait_passes :: "Limiter \<Rightarrow> bool" where
  "wait_passes l = (lLimit l = 0 \<or> lCurrent l <s lLimit l)"

definition wait_enter :: "Limiter \<Rightarrow> Limiter" where
  "wait_enter l = l\<lparr>lCurrent := lCurrent l + 1\<rparr>"

definition Limiter_Done :: "Limiter \<Rightarrow> Limiter" where
  "Limiter_Done l = l\<lparr>lCurrent := lCurrent l - 1\<rparr>"

text \<open>
  \<open>Wait\<close> of one caller on its own: \<open>turns\<close> are the states of the limiter at the turns of its loop, with
  whether the context is done; the loop ends with an error, or with the turn at which it passes. Without such a turn it goes on.
\<close>

fun Wait :: "(bool \<times> Limiter) list \<Rightarrow> (error + Limiter) option" where
  "Wait [] = None"
| "Wait ((cancelled, l) # turns) =
     (if cancelled then Some (Inl (ErrFmt ''context canceled by timeout'')) else if wait_passes l then Some (Inr (wait_enter l)) else Wait turns)"

text \<open>Callers of the limiter between them: a caller is outside, past the check, or counted.\<close>

datatype caller = Outside | Passed | Counted

definition callers :: "(nat \<Rightarrow> caller) \<Rightarrow> caller \<Rightarrow> nat set" where
  "callers ph x = {g. ph g = x}"

text \<open>
  At most \<open>p\<close> callers are past the check and not yet counted. The limit may be changed at any time; a step that
  passes the check shows the limit it passed under.
\<close>

inductive lim_step :: "nat \<Rightarrow> Limiter \<times> (nat \<Rightarrow> caller) \<Rightarrow> 32 word set \<Rightarrow> Limiter \<times> (nat \<Rightarrow> caller) \<Rightarrow> bool" for p where
  pass: "ph g = Outside \<Longrightarrow> wait_passes l \<Longrightarrow> card (callers ph Passed) < p \<Longrightarrow> lim_step p (l, ph) {Limit l} (l, ph(g := Passed))"
| enter: "ph g = Passed \<Longrightarrow> lim_step p (l, ph) {} (wait_enter l, ph(g := Counted))"
| leave: "ph g = Counted \<Longrightarrow> lim_step p (l, ph) {} (Limiter_Done l, ph(g := Outside))"
| update: "lim_step p (l, ph) {} (Limiter_Update limit l, ph)"

text \<open>A run from the limiter as it is made, with the limits its callers have passed under.\<close>

inductive lim_reach :: "nat \<Rightarrow> 32 word set \<Rightarrow> Limiter \<times> (nat \<Rightarrow> caller) \<Rightarrow> bool" for p where
  start: "lim_reach p {} (\<lparr>lLimit = 0, lCurrent = 0\<rparr>, \<lambda>g. Outside)"
| step: "lim_reach p Ls s \<Longrightarrow> lim_step p s L s' \<Longrightarrow> lim_reach p (Ls \<union> L) s'"

section \<open>Options read back\<close>

text \<open>Options whose text can be read back.\<close>

definition option_ok :: "string \<times> string \<Rightarrow> bool" where
  "option_ok = (\<lambda>(k, v). k \<noteq> [] \<and> v \<noteq> [] \<and> set k \<inter> {CHR '' '', CHR '','', CHR ''=''} = {} \<and> set v \<inter> {CHR '' '', CHR ''=''} = {} \<and>
     (if k = ''dns_server'' then CHR '';'' \<notin> set v else CHR '','' \<notin> set v))"

lemma replace_not_in: "c \<notin> set s \<Longrightarrow> replace_char c t s = s"
  by (induction s) (auto simp: replace_char_def)

lemma replace_set: "set (replace_char c [d] s) = (if c \<in> set s then insert d (set s - {c}) else set s)"
  by (induction s) (auto simp: replace_char_def)

lemma replace_back: "d \<notin> set s \<Longrightarrow> replace_char d [c] (replace_char c [d] s) = s"
  by (induction s) (auto simp: replace_char_def)

lemma replace_nonempty: "s \<noteq> [] \<Longrightarrow> replace_char c [d] s \<noteq> []"
  by (cases s) (auto simp: replace_char_def)

lemma option_value:
  assumes "option_ok (k, v)" "w = (if k = ''dns_server'' then replace_char CHR '','' '';'' v else v)"
  shows "w \<noteq> []" "CHR '' '' \<notin> set w" "CHR '','' \<notin> set w" "CHR ''='' \<notin> set w" "(if k = ''dns_server'' then replace_char CHR '';'' '','' w else w) = v"
  using assms replace_nonempty [of v] replace_back [of "CHR '';''" v "CHR '',''"] by (auto simp: option_ok_def replace_set)

lemma add_option_format:
  assumes "option_ok (k, v)" "map_of opts k = None"
  shows "add_option (\<lambda>k v. if k = ''dns_server'' then replace_char CHR '';'' '','' v else v) opts (format_option (k, v)) = opts @ [(k, v)]"
proof -
  define w where "w = (if k = ''dns_server'' then replace_char CHR '','' '';'' v else v)"
  note w = option_value [OF assms(1) w_def]
  have k: "k \<noteq> []" "CHR ''='' \<notin> set k" using assms(1) by (auto simp: option_ok_def)
  have "split_char CHR ''='' (k @ CHR ''='' # w) = [k, w]" using k w by (simp add: str_simps)
  moreover have "mput k v opts = opts @ [(k, v)]" using assms(2) unfolding mput_def
    by (induction opts) (auto split: if_splits)
  ultimately show ?thesis using k w by (simp add: add_option_def format_option_def w_def [symmetric])
qed

lemma add_options:
  "list_all option_ok m \<Longrightarrow> distinct (map fst (opts @ m)) \<Longrightarrow>
   foldl (add_option (\<lambda>k v. if k = ''dns_server'' then replace_char CHR '';'' '','' v else v)) opts (map format_option m) = opts @ m"
proof (induction m arbitrary: opts)
  case (Cons x m)
  obtain k v where x: "x = (k, v)" by fastforce
  then have "map_of opts k = None" using Cons.prems(2) by (auto simp: map_of_eq_None_iff)
  then show ?case using Cons add_option_format [of k v opts] x by simp
qed simp

lemma format_chars:
  assumes "option_ok x"
  shows "CHR '' '' \<notin> set (format_option x)" "CHR '','' \<notin> set (format_option x)" "format_option x \<noteq> []"
proof -
  obtain k v where x: "x = (k, v)" by fastforce
  show "CHR '' '' \<notin> set (format_option x)" "CHR '','' \<notin> set (format_option x)" "format_option x \<noteq> []"
    using assms option_value [OF assms [unfolded x] refl] unfolding x by (auto simp: format_option_def option_ok_def)
qed

lemma join_chars: "c \<notin> set sep \<Longrightarrow> \<forall>x\<in>set xs. c \<notin> set x \<Longrightarrow> c \<notin> set (join sep xs)"
  by (induction sep xs rule: join.induct) auto

text \<open>
  DHCP options that are written and read again are the same options, in the same order; the commas
  between name servers, written as semicolons, come back. Only keys and values with characters of the text format are excluded.\<close>

theorem dhcp_options_roundtrip:
  assumes "list_all option_ok m" "distinct (map fst m)"
  shows "parseDHCPOptions (formatDHCPOptions m) = m"
proof (cases "m = []")
  case True
  then show ?thesis by (simp add: parseDHCPOptions_def formatDHCPOptions_def)
next
  case False
  have ok: "\<forall>x\<in>set (map format_option m). CHR '' '' \<notin> set x \<and> CHR '','' \<notin> set x \<and> x \<noteq> []" using assms(1) format_chars by (auto simp: list_all_iff)
  have ne: "formatDHCPOptions m \<noteq> []" using False ok unfolding formatDHCPOptions_def by (cases m; cases "tl m") auto
  have "CHR '' '' \<notin> set (formatDHCPOptions m)" unfolding formatDHCPOptions_def by (rule join_chars) (use ok in auto)
  then have "replace_char CHR '' '' [] (formatDHCPOptions m) = formatDHCPOptions m" by (rule replace_not_in)
  moreover have "split_char CHR '','' (formatDHCPOptions m) = map format_option m"
    unfolding formatDHCPOptions_def using False ok by (intro split_char_join) auto
  ultimately show ?thesis using ne add_options [OF assms(1), of "[]"] assms(2) by (simp add: parseDHCPOptions_def)
qed

theorem dhcp_options_roundtrip_witness:
  "parseDHCPOptions (formatDHCPOptions [(''dns_server'', ''{8.8.8.8,8.8.4.4}''), (''mtu'', ''1500'')]) = [(''dns_server'', ''{8.8.8.8,8.8.4.4}''), (''mtu'', ''1500'')]"
  by (rule dhcp_options_roundtrip) (simp_all add: option_ok_def)

text \<open>Every necessary option that has a default is there, and an option that is given keeps its value.\<close>

lemma set_default_kept: "map_of opts k = Some v \<Longrightarrow> map_of (foldl (set_default dflt) opts needed) k = Some v"
proof (induction needed arbitrary: opts)
  case (Cons o' needed)
  have "map_of (set_default dflt opts o') k = Some v" using Cons.prems by (auto simp: set_default_def split: option.splits)
  then show ?case using Cons.IH by simp
qed simp

lemma set_default_present:
  "k \<in> set needed \<Longrightarrow> dflt k = Some v \<Longrightarrow> map_of opts k = None \<Longrightarrow> map_of (foldl (set_default dflt) opts needed) k = Some v"
proof (induction needed arbitrary: opts)
  case (Cons o' needed)
  show ?case
  proof (cases "o' = k")
    case True
    then have "map_of (set_default dflt opts o') k = Some v" using Cons.prems by (simp add: set_default_def)
    then show ?thesis using set_default_kept by simp
  next
    case False
    then have "map_of (set_default dflt opts o') k = None" using Cons.prems by (simp add: set_default_def split: option.split)
    then show ?thesis using Cons False by simp
  qed
qed simp

lemma v4_options_complete:
  assumes "opt \<in> set necessaryOptions" "v4_default gateway mac mtu opt = Some v" "options \<noteq> []"
  shows "map_of (buildDHCPv4Options options gateway mac mtu necessaryOptions) opt =
    Some (case map_of (parseDHCPOptions options) opt of None \<Rightarrow> v | Some given \<Rightarrow> given)"
  using assms set_default_present [of opt necessaryOptions] set_default_kept by (auto simp: buildDHCPv4Options_def split: option.split)

section \<open>How far the limiter lets the count go\<close>

lemma caller_sets: "callers (ph(g := x)) y = (if x = y then insert g (callers ph y) else callers ph y - {g})"
  by (auto simp: callers_def)

lemma callers_start [simp]: "callers (\<lambda>g. Outside) Passed = {}" "callers (\<lambda>g. Outside) Counted = {}"
  by (simp_all add: callers_def)

lemma sint_count: "int n < 2 ^ 31 \<Longrightarrow> sint (of_nat n :: 32 word) = int n"
  by (simp add: signed_of_nat signed_take_bit_int_eq_self)

text \<open>The count is the number of callers let in, modulo its width.\<close>

definition lim_counts :: "Limiter \<times> (nat \<Rightarrow> caller) \<Rightarrow> bool" where
  "lim_counts = (\<lambda>(l, ph). finite (callers ph Passed) \<and> finite (callers ph Counted) \<and> lCurrent l = of_nat (card (callers ph Counted)))"

lemma lim_step_counts:
  assumes "lim_step p s L s'" "lim_counts s"
  shows "lim_counts s'"
  using assms(1)
proof cases
  case (pass ph g l)
  then have "g \<notin> callers ph Counted" by (auto simp: callers_def)
  then show ?thesis using pass assms(2) by (simp add: lim_counts_def caller_sets)
next
  case (enter ph g l)
  then have "g \<notin> callers ph Counted" by (auto simp: callers_def)
  then show ?thesis using enter assms(2) by (simp add: lim_counts_def caller_sets wait_enter_def)
next
  case (leave ph g l)
  then have "g \<in> callers ph Counted" by (auto simp: callers_def)
  moreover from this have "Suc (card (callers ph Counted - {g})) = card (callers ph Counted)"
    using assms(2) leave(1) by (intro card_Suc_Diff1) (simp_all add: lim_counts_def)
  ultimately show ?thesis using leave assms(2) by (simp add: lim_counts_def caller_sets Limiter_Done_def)
next
  case (update l ph limit)
  then show ?thesis using assms(2) by (simp add: lim_counts_def Limiter_Update_def)
qed

text \<open>The callers past the check, counted or not, when all of them passed under limits up to \<open>M\<close>.\<close>

definition lim_bounded :: "nat \<Rightarrow> int \<Rightarrow> (nat \<Rightarrow> caller) \<Rightarrow> bool" where
  "lim_bounded p M ph = (int (card (callers ph Counted)) + int (card (callers ph Passed)) \<le> M - 1 + int p)"

lemma lim_step_bounded:
  assumes "lim_step p (l, ph) L (l', ph')" "lim_counts (l, ph)" "lim_bounded p M ph" "M + int p \<le> 2 ^ 31" "\<forall>x\<in>L. 0 < sint x \<and> sint x \<le> M"
  shows "lim_bounded p M ph'"
  using assms(1)
proof cases
  case (pass g)
  have f: "finite (callers ph Passed)" "lCurrent l = of_nat (card (callers ph Counted))" using assms(2) by (simp_all add: lim_counts_def)
  have g: "g \<notin> callers ph Passed" "g \<notin> callers ph Counted" using pass by (auto simp: callers_def)
  have lim: "0 < sint (lLimit l)" "sint (lLimit l) \<le> M" using assms(5) pass by (simp_all add: Limit_def)
  have "int (card (callers ph Counted)) < 2 ^ 31" using assms(3,4) by (simp add: lim_bounded_def)
  then have "sint (lCurrent l) = int (card (callers ph Counted))" unfolding f(2) by (rule sint_count)
  moreover have "lLimit l \<noteq> 0" using lim(1) by auto
  ultimately have "int (card (callers ph Counted)) < M" using pass lim(2) by (auto simp: wait_passes_def word_sless_alt)
  then show ?thesis using pass f(1) g by (simp add: lim_bounded_def caller_sets)
next
  case (enter g)
  then have g: "g \<in> callers ph Passed" "g \<notin> callers ph Counted" by (auto simp: callers_def)
  moreover from this have "Suc (card (callers ph Passed - {g})) = card (callers ph Passed)"
    using assms(2) by (intro card_Suc_Diff1) (simp_all add: lim_counts_def)
  ultimately show ?thesis using enter assms(2,3) by (simp add: lim_bounded_def lim_counts_def caller_sets)
next
  case (leave g)
  then have g: "g \<notin> callers ph Passed" "g \<in> callers ph Counted" by (auto simp: callers_def)
  moreover from this have "Suc (card (callers ph Counted - {g})) = card (callers ph Counted)"
    using assms(2) by (intro card_Suc_Diff1) (simp_all add: lim_counts_def)
  ultimately show ?thesis using leave assms(2,3) by (simp add: lim_bounded_def caller_sets)
qed (use assms(3) in simp)

lemma lim_reach_ok:
  "lim_reach p Ls s \<Longrightarrow> lim_counts s \<and> (0 < M \<longrightarrow> M + int p \<le> 2 ^ 31 \<longrightarrow> (\<forall>x\<in>Ls. 0 < sint x \<and> sint x \<le> M) \<longrightarrow> lim_bounded p M (snd s))"
proof (induction rule: lim_reach.induct)
  case start
  then show ?case by (simp add: lim_counts_def lim_bounded_def)
next
  case (step Ls s L s')
  obtain l ph l' ph' where s: "s = (l, ph)" "s' = (l', ph')" by fastforce
  show ?case using step.IH lim_step_counts [OF step.hyps(2)] lim_step_bounded [OF step.hyps(2) [unfolded s]] unfolding s by auto
qed

text \<open>
  C31. Through any calls of the limiter of the callers and any changes of its limit, the count of the limiter is
  the number of callers it has let in, modulo \<open>2 ^ 32\<close>. If every caller passed the check under a positive limit of at most
  \<open>M\<close>, and \<open>M\<close> together with the number \<open>p\<close> of callers that are between the check and the count at a time
  fits 31 bits, then the count, read as a signed number, is exactly that number and exceeds \<open>M\<close> by less than \<open>p\<close>: with one at a time
  the limit holds. A limit of zero is no limit, and nothing but the first part is said of callers that passed under it.\<close>

theorem limiter_bound:
  assumes "lim_reach p Ls (l, ph)"
  shows "Current l = of_nat (card (callers ph Counted)) \<and>
    ((\<forall>L\<in>Ls. 0 < sint L \<and> sint L \<le> M) \<and> 0 < M \<and> 0 < p \<and> M + int p \<le> 2 ^ 31 \<longrightarrow>
      sint (Current l) = int (card (callers ph Counted)) \<and> sint (Current l) \<le> M + int p - 1)"
proof -
  have c: "Current l = of_nat (card (callers ph Counted))" using lim_reach_ok [OF assms] by (simp add: lim_counts_def Current_def)
  show ?thesis
  proof (intro conjI [OF c] impI)
    assume a: "(\<forall>L\<in>Ls. 0 < sint L \<and> sint L \<le> M) \<and> 0 < M \<and> 0 < p \<and> M + int p \<le> 2 ^ 31"
    then have b: "int (card (callers ph Counted)) \<le> M + int p - 1" using lim_reach_ok [OF assms, of M] by (simp add: lim_bounded_def)
    then have "sint (Current l) = int (card (callers ph Counted))" unfolding c using a by (intro sint_count) simp
    then show "sint (Current l) = int (card (callers ph Counted)) \<and> sint (Current l) \<le> M + int p - 1" using b by simp
  qed
qed

text \<open>The bound is reached: with two callers past the check the count is above the limit.\<close>

definition two_counted :: "nat \<Rightarrow> caller" where
  "two_counted = (\<lambda>g. Outside)(0 := Counted, 1 := Counted)"

lemma limiter_overshoot: "lim_reach 2 {1} (\<lparr>lLimit = 1, lCurrent = 2\<rparr>, two_counted)"
proof -
  let ?o = "\<lambda>g. Outside"
  let ?l = "\<lambda>c. \<lparr>lLimit = 1, lCurrent = c\<rparr>"
  have p: "wait_passes (?l 0)" by code_simp
  have n: "lim_reach 2 {} (?l 0, ?o)"
    using lim_reach.step [OF lim_reach.start lim_step.update [where limit = 1]] by (simp add: Limiter_Update_def)
  have "lim_step 2 (?l 0, ?o) {1} (?l 0, ?o(0 := Passed))" using lim_step.pass [OF _ p, of ?o 0 2] by (simp add: Limit_def)
  from lim_reach.step [OF n this] have a: "lim_reach 2 {1} (?l 0, ?o(0 := Passed))" by simp
  have "lim_step 2 (?l 0, ?o(0 := Passed)) {1} (?l 0, ?o(0 := Passed, 1 := Passed))"
    using lim_step.pass [OF _ p, of "?o(0 := Passed)" 1 2] by (simp add: Limit_def caller_sets)
  from lim_reach.step [OF a this] have b: "lim_reach 2 {1} (?l 0, ?o(0 := Passed, 1 := Passed))" by simp
  have "lim_step 2 (?l 0, ?o(0 := Passed, 1 := Passed)) {} (?l 1, ?o(0 := Passed, 1 := Passed, 0 := Counted))"
    using lim_step.enter [of "?o(0 := Passed, 1 := Passed)" 0 2 "?l 0"] by (simp add: wait_enter_def)
  from lim_reach.step [OF b this] have c: "lim_reach 2 {1} (?l 1, ?o(0 := Passed, 1 := Passed, 0 := Counted))" by simp
  have "lim_step 2 (?l 1, ?o(0 := Passed, 1 := Passed, 0 := Counted)) {} (?l 2, ?o(0 := Passed, 1 := Passed, 0 := Counted, 1 := Counted))"
    using lim_step.enter [of "?o(0 := Passed, 1 := Passed, 0 := Counted)" 1 2 "?l 1"] by (simp add: wait_enter_def)
  from lim_reach.step [OF c this] have "lim_reach 2 {1} (?l 2, ?o(0 := Passed, 1 := Passed, 0 := Counted, 1 := Counted))" by simp
  moreover have "?o(0 := Passed, 1 := Passed, 0 := Counted, 1 := Counted) = two_counted" by (auto simp: two_counted_def)
  ultimately show ?thesis by simp
qed

theorem limiter_bound_witness:
  "card (callers two_counted Counted) = 2 \<and> Current \<lparr>lLimit = 1, lCurrent = 2\<rparr> = of_nat (card (callers two_counted Counted)) \<and>
   sint (Current \<lparr>lLimit = 1, lCurrent = 2\<rparr>) = int (card (callers two_counted Counted)) \<and>
   sint (Current \<lparr>lLimit = 1, lCurrent = 2\<rparr>) \<le> 1 + int 2 - 1"
proof -
  have "card (callers two_counted Counted) = 2" by (simp add: two_counted_def caller_sets)
  then show ?thesis using limiter_bound [OF limiter_overshoot, of 1] by simp
qed

end
