(* ===== verification/ObserverFlow.thy ===== *)
theory ObserverFlow
  imports BfddControl
begin

text \<open>
  The records and the log filters of the egress gateway observer: flow.go and filter.go of pkg/vegobserver, one
  definition per function, with the prefixes of package \<open>netip\<close>. A flow is what the
  connection tracking library delivers.
\<close>

section \<open>Prefixes\<close>

text \<open>\<open>netip.Prefix\<close> with \<open>ParsePrefix\<close>, \<open>Masked\<close> and \<open>Contains\<close> of the standard library. A prefix has no zone.\<close>

record Prefix =
  pAddr :: Addr
  pBits :: nat

definition last_cut :: "char \<Rightarrow> string \<Rightarrow> (string \<times> string) option" where
  "last_cut c s = map_option (\<lambda>(b, a). (rev a, rev b)) (cut [c] (rev s))"

definition ParsePrefix :: "string \<Rightarrow> Prefix option" where
  "ParsePrefix s =
     (case last_cut CHR ''/'' s of
        None \<Rightarrow> None
      | Some (a, b) \<Rightarrow>
          (case ParseAddr a of
             None \<Rightarrow> None
           | Some ip \<Rightarrow>
               if azone ip \<noteq> [] then None
               else if length b > 1 \<and> \<not> (is_digit (hd b) \<and> hd b \<noteq> CHR ''0'') then None
               else let (n, ok) = Atoi_val b in
                 if \<not> ok \<or> n < 0 \<or> n > int (abits ip) then None else Some \<lparr>pAddr = ip, pBits = nat n\<rparr>))"

definition Masked :: "Prefix \<Rightarrow> Prefix" where
  "Masked p =
     (let a = pAddr p; n = be_nat (abytes a) in
      p\<lparr>pAddr := a\<lparr>abytes := be_fixed 16 (n - n mod 2 ^ (abits a - pBits p))\<rparr>\<rparr>)"

definition Contains :: "Prefix \<Rightarrow> Addr \<Rightarrow> bool" where
  "Contains p ip =
     (azone ip = [] \<and> abits (pAddr p) = abits ip \<and>
      be_nat (abytes (pAddr p)) div 2 ^ (abits ip - pBits p) = be_nat (abytes ip) div 2 ^ (abits ip - pBits p))"

section \<open>Flows and records\<close>

text \<open>What the connection tracking library delivers: the two answers of \<open>Status\<close> are fields, and every flow has its addresses.\<close>

record IPTuple =
  SourceAddress :: Addr
  DestinationAddress :: Addr

record ProtoTuple =
  ProtocolNo :: "8 word"
  protoSourcePort :: "16 word"
  protoDestinationPort :: "16 word"

record Tuple =
  tIP :: IPTuple
  tProto :: ProtoTuple

record Counter =
  Packets :: "64 word"
  Bytes :: "64 word"

record Flow =
  flowID :: "32 word"
  flowZone :: "16 word"
  SrcNAT :: bool
  DstNAT :: bool
  TupleOrig :: Tuple
  TupleReply :: Tuple
  CountersOrig :: Counter
  CountersReply :: Counter

type_synonym flowKey = "16 word \<times> 32 word"

record flowTuple =
  SourceIP :: string
  SourcePort :: "16 word"
  DestinationIP :: string
  DestinationPort :: "16 word"

record flowCounters =
  OriginalPackets :: "64 word"
  OriginalBytes :: "64 word"
  ReplyPackets :: "64 word"
  ReplyBytes :: "64 word"

record flowRecord =
  rTimestamp :: nat
  rEvent :: string
  ConntrackID :: "32 word"
  rZone :: "16 word"
  rNamespace :: string
  rName :: string
  rPod :: string
  rNode :: string
  AddressFamily :: string
  rProtocol :: string
  ProtocolNumber :: "8 word"
  NatType :: "string list"
  Original :: flowTuple
  Translated :: flowTuple
  rCounters :: "flowCounters option"

record observerIdentity =
  idNamespace :: string
  idName :: string
  idPod :: string
  idNode :: string

definition identity_labels :: "observerIdentity \<Rightarrow> string list" where
  "identity_labels i = [idNamespace i, idName i, idPod i, idNode i]"

definition ObservabilityNatTypeSNAT :: string where "ObservabilityNatTypeSNAT = ''snat''"
definition ObservabilityNatTypeDNAT :: string where "ObservabilityNatTypeDNAT = ''dnat''"
definition ObservabilityNatTypeSNATDNAT :: string where "ObservabilityNatTypeSNATDNAT = ''snat_dnat''"
definition ObservabilityAddressFamilyIPv4 :: string where "ObservabilityAddressFamilyIPv4 = ''ipv4''"
definition ObservabilityAddressFamilyIPv6 :: string where "ObservabilityAddressFamilyIPv6 = ''ipv6''"

definition protocolName :: "8 word \<Rightarrow> string" where
  "protocolName number =
     (if number = 6 then ''tcp'' else if number = 17 then ''udp'' else if number = 132 then ''sctp''
      else if number = 1 then ''icmp'' else if number = 58 then ''icmpv6'' else ''other'')"

definition accountingAvailable :: "Flow \<Rightarrow> bool" where
  "accountingAvailable flow =
     (Packets (CountersOrig flow) \<noteq> 0 \<or> Bytes (CountersOrig flow) \<noteq> 0 \<or>
      Packets (CountersReply flow) \<noteq> 0 \<or> Bytes (CountersReply flow) \<noteq> 0)"

definition countersFromFlow :: "Flow \<Rightarrow> flowCounters option" where
  "countersFromFlow flow =
     (if \<not> accountingAvailable flow then None
      else Some \<lparr>OriginalPackets = Packets (CountersOrig flow), OriginalBytes = Bytes (CountersOrig flow),
                 ReplyPackets = Packets (CountersReply flow), ReplyBytes = Bytes (CountersReply flow)\<rparr>)"

text \<open>An index into an empty slice panics.\<close>

definition metricNatType :: "string list \<Rightarrow> error + string" where
  "metricNatType natTypes =
     (if length natTypes = 2 then Inr ObservabilityNatTypeSNATDNAT
      else case natTypes of [] \<Rightarrow> Inl Panic | t # _ \<Rightarrow> Inr t)"

definition original_of :: "Flow \<Rightarrow> flowTuple" where
  "original_of flow =
     \<lparr>SourceIP = Addr_String (SourceAddress (tIP (TupleOrig flow))), SourcePort = protoSourcePort (tProto (TupleOrig flow)),
      DestinationIP = Addr_String (DestinationAddress (tIP (TupleOrig flow))), DestinationPort = protoDestinationPort (tProto (TupleOrig flow))\<rparr>"

definition translated_of :: "Flow \<Rightarrow> flowTuple" where
  "translated_of flow =
     \<lparr>SourceIP = Addr_String (DestinationAddress (tIP (TupleReply flow))), SourcePort = protoDestinationPort (tProto (TupleReply flow)),
      DestinationIP = Addr_String (SourceAddress (tIP (TupleReply flow))), DestinationPort = protoSourcePort (tProto (TupleReply flow))\<rparr>"

text \<open>The time of the clock is the argument \<open>stamp\<close>. A flow without translation has no record; the event is set later.\<close>

definition recordFromFlow :: "Flow option \<Rightarrow> nat \<Rightarrow> observerIdentity \<Rightarrow> flowRecord option" where
  "recordFromFlow f stamp identity =
     (case f of
        None \<Rightarrow> None
      | Some flow \<Rightarrow>
          let original = original_of flow; translated = translated_of flow;
              natTypes =
                (if SrcNAT flow \<or> SourceIP original \<noteq> SourceIP translated \<or> SourcePort original \<noteq> SourcePort translated
                 then [ObservabilityNatTypeSNAT] else []) @
                (if DstNAT flow \<or> DestinationIP original \<noteq> DestinationIP translated \<or> DestinationPort original \<noteq> DestinationPort translated
                 then [ObservabilityNatTypeDNAT] else [])
          in if natTypes = [] then None
             else Some
               \<lparr>rTimestamp = stamp, rEvent = [], ConntrackID = flowID flow, rZone = flowZone flow,
                rNamespace = idNamespace identity, rName = idName identity, rPod = idPod identity, rNode = idNode identity,
                AddressFamily = (if Is4 (SourceAddress (tIP (TupleOrig flow))) then ObservabilityAddressFamilyIPv4 else ObservabilityAddressFamilyIPv6),
                rProtocol = protocolName (ProtocolNo (tProto (TupleOrig flow))), ProtocolNumber = ProtocolNo (tProto (TupleOrig flow)),
                NatType = sort_strings natTypes, Original = original, Translated = translated, rCounters = countersFromFlow flow\<rparr>)"

section \<open>Filters\<close>

text \<open>The rules as they are configured. Ports of a range are signed 32 bit numbers.\<close>

record VpcEgressGatewayPortRange =
  rangeStart :: "32 word"
  rangeEnd :: "32 word"

record VpcEgressGatewayConntrackTupleFilter =
  SourceCIDRs :: "string list"
  DestinationCIDRs :: "string list"
  SourcePorts :: "VpcEgressGatewayPortRange list"
  DestinationPorts :: "VpcEgressGatewayPortRange list"

record VpcEgressGatewayConntrackLogFilter =
  AddressFamilies :: "string list"
  Protocols :: "string list"
  NatTypes :: "string list"
  fOriginal :: VpcEgressGatewayConntrackTupleFilter
  fTranslated :: VpcEgressGatewayConntrackTupleFilter

record VpcEgressGatewayConntrackLogFilters =
  Include :: "VpcEgressGatewayConntrackLogFilter list"
  Exclude :: "VpcEgressGatewayConntrackLogFilter list"

text \<open>The compiled rules; a set of strings is its list without repetitions, in any order.\<close>

record compiledTuple =
  sourceCIDRs :: "Prefix list"
  destinationCIDRs :: "Prefix list"
  sourcePorts :: "VpcEgressGatewayPortRange list"
  destinationPorts :: "VpcEgressGatewayPortRange list"

record compiledRule =
  addressFamilies :: "string list"
  protocols :: "string list"
  natTypeSet :: "string list"
  original :: compiledTuple
  translated :: compiledTuple

record compiledFilters =
  includeRules :: "compiledRule list"
  excludeRules :: "compiledRule list"

definition stringSet :: "string list \<Rightarrow> string list" where
  "stringSet values = remdups values"

definition matchesString :: "string list \<Rightarrow> string \<Rightarrow> bool" where
  "matchesString vals v = (length vals = 0 \<or> v \<in> set vals)"

fun compileCIDRs :: "string \<Rightarrow> string list \<Rightarrow> error + Prefix list" where
  "compileCIDRs kind [] = Inr []"
| "compileCIDRs kind (raw # raws) =
     (case ParsePrefix raw of
        None \<Rightarrow> Inl (ErrFmt (''invalid '' @ kind @ '' CIDR''))
      | Some p \<Rightarrow> (case compileCIDRs kind raws of Inl err \<Rightarrow> Inl err | Inr ps \<Rightarrow> Inr (Masked p # ps)))"

definition compileTuple :: "VpcEgressGatewayConntrackTupleFilter \<Rightarrow> error + compiledTuple" where
  "compileTuple t =
     (case compileCIDRs ''source'' (SourceCIDRs t) of
        Inl err \<Rightarrow> Inl err
      | Inr src \<Rightarrow>
          (case compileCIDRs ''destination'' (DestinationCIDRs t) of
             Inl err \<Rightarrow> Inl err
           | Inr dst \<Rightarrow> Inr \<lparr>sourceCIDRs = src, destinationCIDRs = dst, sourcePorts = SourcePorts t, destinationPorts = DestinationPorts t\<rparr>))"

fun compileRules :: "VpcEgressGatewayConntrackLogFilter list \<Rightarrow> error + compiledRule list" where
  "compileRules [] = Inr []"
| "compileRules (rule # rules) =
     (case compileTuple (fOriginal rule) of
        Inl err \<Rightarrow> Inl err
      | Inr orig \<Rightarrow>
          (case compileTuple (fTranslated rule) of
             Inl err \<Rightarrow> Inl err
           | Inr transl \<Rightarrow>
               (case compileRules rules of
                  Inl err \<Rightarrow> Inl err
                | Inr rs \<Rightarrow>
                    Inr (\<lparr>addressFamilies = stringSet (AddressFamilies rule), protocols = stringSet (Protocols rule),
                          natTypeSet = stringSet (NatTypes rule), original = orig, translated = transl\<rparr> # rs))))"

definition compileFilters :: "VpcEgressGatewayConntrackLogFilters \<Rightarrow> error + compiledFilters" where
  "compileFilters filters =
     (case compileRules (Include filters) of
        Inl err \<Rightarrow> Inl err
      | Inr inc \<Rightarrow>
          (case compileRules (Exclude filters) of
             Inl err \<Rightarrow> Inl err
           | Inr exc \<Rightarrow> Inr \<lparr>includeRules = inc, excludeRules = exc\<rparr>))"

definition matchCIDRs :: "Prefix list \<Rightarrow> Addr \<Rightarrow> bool" where
  "matchCIDRs nets address = (length nets = 0 \<or> list_ex (\<lambda>p. Contains p address) nets)"

text \<open>\<open>int32(port)\<close> of an unsigned port is not negative; the comparison is signed.\<close>

definition matchPorts :: "VpcEgressGatewayPortRange list \<Rightarrow> 16 word \<Rightarrow> bool" where
  "matchPorts ranges port =
     (length ranges = 0 \<or>
      list_ex (\<lambda>r. sint (ucast port :: 32 word) \<ge> sint (rangeStart r) \<and> sint (ucast port :: 32 word) \<le> sint (rangeEnd r)) ranges)"

definition matchAddress :: "Prefix list \<Rightarrow> string \<Rightarrow> bool" where
  "matchAddress nets text =
     (length nets \<noteq> 0 \<longrightarrow> (case ParseAddr text of None \<Rightarrow> False | Some address \<Rightarrow> matchCIDRs nets address))"

definition compiledTuple_match :: "compiledTuple \<Rightarrow> flowTuple \<Rightarrow> bool" where
  "compiledTuple_match t v =
     (matchAddress (sourceCIDRs t) (SourceIP v) \<and> matchAddress (destinationCIDRs t) (DestinationIP v) \<and>
      matchPorts (sourcePorts t) (SourcePort v) \<and> matchPorts (destinationPorts t) (DestinationPort v))"

definition matchNatTypes :: "string list \<Rightarrow> string list \<Rightarrow> error + bool" where
  "matchNatTypes sel natTypes =
     (if length sel = 0 then Inr True
      else case metricNatType natTypes of
          Inl err \<Rightarrow> Inl err
        | Inr t \<Rightarrow> Inr (list_ex (\<lambda>n. n \<in> set sel) natTypes \<or> t \<in> set sel))"

definition compiledRule_match :: "compiledRule \<Rightarrow> flowRecord \<Rightarrow> error + bool" where
  "compiledRule_match rule r =
     (if \<not> matchesString (addressFamilies rule) (AddressFamily r) \<or> \<not> matchesString (protocols rule) (rProtocol r) then Inr False
      else case matchNatTypes (natTypeSet rule) (NatType r) of
          Inl err \<Rightarrow> Inl err
        | Inr m \<Rightarrow> Inr (m \<and> compiledTuple_match (original rule) (Original r) \<and> compiledTuple_match (translated rule) (Translated r)))"

fun any_match :: "compiledRule list \<Rightarrow> flowRecord \<Rightarrow> error + bool" where
  "any_match [] r = Inr False"
| "any_match (rule # rules) r =
     (case compiledRule_match rule r of Inl err \<Rightarrow> Inl err | Inr m \<Rightarrow> if m then Inr True else any_match rules r)"

definition compiledFilters_match :: "compiledFilters \<Rightarrow> flowRecord \<Rightarrow> error + bool" where
  "compiledFilters_match filters r =
     (case any_match (excludeRules filters) r of
        Inl err \<Rightarrow> Inl err
      | Inr excluded \<Rightarrow>
          if excluded then Inr False
          else if length (includeRules filters) = 0 then Inr True
          else any_match (includeRules filters) r)"

end
