(* ===== verification/ObserverCollector.thy ===== *)
theory ObserverCollector
  imports ObserverFlow
begin

text \<open>
  The collector of the egress gateway observer: conntrack_collector.go, config.go and the reloading in runner.go of
  pkg/vegobserver. The cache of flows with its order list, the events, the sessions, the log queue and the reloads; what is done to the
  metrics is a list of calls. A panic is the error \<open>Panic\<close>.
\<close>

section \<open>Configuration\<close>

record VpcEgressGatewayConntrackLogRateLimit =
  RecordsPerSecond :: "32 word"
  Burst :: "32 word"

record VpcEgressGatewayConntrackLog =
  logEnabled :: bool
  logEvents :: "string list"
  logRateLimit :: VpcEgressGatewayConntrackLogRateLimit
  logFilters :: VpcEgressGatewayConntrackLogFilters

text \<open>The fields of the observability configuration that the observer reads.\<close>

record Config =
  cfgNamespace :: string
  cfgName :: string
  cfgExternalNetwork :: string
  interfaceMetricsEnabled :: bool
  conntrackMetricsEnabled :: bool
  conntrackLog :: VpcEgressGatewayConntrackLog

definition DefaultCacheCapacity :: nat where "DefaultCacheCapacity = 65536"
definition DefaultLogQueue :: nat where "DefaultLogQueue = 4096"

definition identity_matches :: "observerIdentity \<Rightarrow> Config \<Rightarrow> bool" where
  "identity_matches i cfg = (cfgNamespace cfg = idNamespace i \<and> cfgName cfg = idName i)"

text \<open>The file read and decoded is the argument: an error of either, or the configuration.\<close>

definition loadConfig :: "error + Config \<Rightarrow> error + Config" where
  "loadConfig file =
     (case file of
        Inl err \<Rightarrow> Inl err
      | Inr cfg \<Rightarrow>
          if cfgNamespace cfg = [] \<or> cfgName cfg = [] \<or> cfgExternalNetwork cfg = []
          then Inl (ErrFmt ''observer config requires namespace, name and externalNetwork'')
          else Inr cfg)"

definition conntrackEnabled :: "Config \<Rightarrow> bool" where
  "conntrackEnabled cfg = (conntrackMetricsEnabled cfg \<or> logEnabled (conntrackLog cfg))"

text \<open>The rate and the burst a limiter is made with; the limiter itself is a library.\<close>

definition newLimiter :: "VpcEgressGatewayConntrackLogRateLimit \<Rightarrow> 32 word \<times> 32 word" where
  "newLimiter cfg =
     (if sint (RecordsPerSecond cfg) > 0 then RecordsPerSecond cfg else 100, if sint (Burst cfg) > 0 then Burst cfg else 1000)"

record runtimeSettings =
  rsConfig :: Config
  rsFilters :: compiledFilters
  rsLimiter :: "32 word \<times> 32 word"

section \<open>Metrics\<close>

text \<open>
  The metrics are a library; what the observer does to them is the list of its calls, with the
  labels. A number added is a whole number that a \<open>float64\<close> has: \<open>float64_of\<close> is the conversion of an unsigned
  number, which keeps 53 bits and rounds to the nearest such number, and to the even one of two.
\<close>

datatype metric =
    CollectorUp | ConfigReloads | ConntrackEvents | Errors | CacheEntries | CacheCapacity | CacheEvictions | LogRecords | LogDrops
  | Accounting | ActiveFlows | StartedFlows | EndedFlows | PacketsTotal | BytesTotal | InterfaceCounter string

datatype mcall = MInc metric "string list" | MDec metric "string list" | MAdd metric "string list" nat | MSet metric "string list" nat | MReset metric

fun float_shift :: "nat \<Rightarrow> nat" where
  "float_shift n = (if n < 2 ^ 53 then 0 else Suc (float_shift (n div 2)))"

declare float_shift.simps [simp del]

definition float64_of :: "nat \<Rightarrow> nat" where
  "float64_of n =
     (let k = float_shift n; q = n div 2 ^ k; r = n mod 2 ^ k in
      (if 2 * r > 2 ^ k \<or> 2 * r = 2 ^ k \<and> odd q then q + 1 else q) * 2 ^ k)"

definition counterDelta :: "64 word \<Rightarrow> 64 word \<Rightarrow> nat" where
  "counterDelta previous current =
     (if current \<ge> previous then float64_of (unat (current - previous)) else float64_of (unat current))"

section \<open>The collector\<close>

text \<open>
  The elements of \<open>container/list\<close> are numbers, \<open>order\<close> lists them with their values from front to back. The log queue
  is a channel with a buffer of \<open>DefaultLogQueue\<close> records.
\<close>

record cacheEntry =
  ceRecord :: flowRecord
  ceFlow :: Flow
  ceElement :: nat
  observedStart :: bool

record collector =
  identity :: observerIdentity
  cache :: "(flowKey, cacheEntry) gomap"
  order :: "(nat \<times> flowKey) list"
  nextElement :: nat
  logQueue :: "flowRecord list"
  calls :: "mcall list"

definition call :: "mcall \<Rightarrow> collector \<Rightarrow> collector" where
  "call m c = c\<lparr>calls := calls c @ [m]\<rparr>"

definition newConntrackCollector :: "observerIdentity \<Rightarrow> collector" where
  "newConntrackCollector i =
     call (MSet CacheCapacity (identity_labels i) DefaultCacheCapacity)
       \<lparr>identity = i, cache = [], order = [], nextElement = 0, logQueue = [], calls = []\<rparr>"

definition PushBack :: "flowKey \<Rightarrow> collector \<Rightarrow> collector" where
  "PushBack key c = c\<lparr>order := order c @ [(nextElement c, key)], nextElement := Suc (nextElement c)\<rparr>"

definition MoveToBack :: "nat \<Rightarrow> collector \<Rightarrow> collector" where
  "MoveToBack e c = c\<lparr>order := filter (\<lambda>x. fst x \<noteq> e) (order c) @ filter (\<lambda>x. fst x = e) (order c)\<rparr>"

definition RemoveElement :: "nat \<Rightarrow> collector \<Rightarrow> collector" where
  "RemoveElement e c = c\<lparr>order := filter (\<lambda>x. fst x \<noteq> e) (order c)\<rparr>"

definition flow_key :: "Flow \<Rightarrow> flowKey" where
  "flow_key flow = (flowZone flow, flowID flow)"

definition metrics_on :: "runtimeSettings option \<Rightarrow> bool" where
  "metrics_on settings = (case settings of None \<Rightarrow> False | Some s \<Rightarrow> conntrackMetricsEnabled (rsConfig s))"

definition flowLabels :: "observerIdentity \<Rightarrow> flowRecord \<Rightarrow> error + string list" where
  "flowLabels i r =
     (case metricNatType (NatType r) of
        Inl err \<Rightarrow> Inl err
      | Inr t \<Rightarrow> Inr (identity_labels i @ [AddressFamily r, rProtocol r, t]))"

text \<open>One call with the labels of a record.\<close>

definition flow_call :: "(string list \<Rightarrow> mcall) \<Rightarrow> flowRecord \<Rightarrow> collector \<Rightarrow> error + collector" where
  "flow_call m r c = (case flowLabels (identity c) r of Inl err \<Rightarrow> Inl err | Inr labels \<Rightarrow> Inr (call (m labels) c))"

definition and_then :: "error + 'a \<Rightarrow> ('a \<Rightarrow> error + 'b) \<Rightarrow> error + 'b" where
  "and_then x f = (case x of Inl err \<Rightarrow> Inl err | Inr a \<Rightarrow> f a)"

definition addCountersLocked :: "Flow option \<Rightarrow> Flow \<Rightarrow> flowRecord \<Rightarrow> collector \<Rightarrow> error + collector" where
  "addCountersLocked previous current r c =
     (if \<not> accountingAvailable current then Inr c
      else
        let c1 = call (MSet Accounting (identity_labels (identity c)) 1) c;
            zero = \<lparr>Packets = 0, Bytes = 0\<rparr>;
            old1 = (case previous of None \<Rightarrow> zero | Some p \<Rightarrow> CountersOrig p);
            old2 = (case previous of None \<Rightarrow> zero | Some p \<Rightarrow> CountersReply p)
        in case flowLabels (identity c) r of
             Inl err \<Rightarrow> Inl err
           | Inr labels \<Rightarrow>
               Inr (c1\<lparr>calls := calls c1 @
                 [MAdd PacketsTotal (labels @ [''original'']) (counterDelta (Packets old1) (Packets (CountersOrig current))),
                  MAdd BytesTotal (labels @ [''original'']) (counterDelta (Bytes old1) (Bytes (CountersOrig current))),
                  MAdd PacketsTotal (labels @ [''reply'']) (counterDelta (Packets old2) (Packets (CountersReply current))),
                  MAdd BytesTotal (labels @ [''reply'']) (counterDelta (Bytes old2) (Bytes (CountersReply current)))]\<rparr>))"

text \<open>\<open>settings\<close> is what the load inside returns; it may differ from the one of the caller.\<close>

definition evictOldest :: "runtimeSettings option \<Rightarrow> collector \<Rightarrow> error + collector" where
  "evictOldest settings c =
     (case order c of
        [] \<Rightarrow> Inl Panic
      | (oldest, oldKey) # _ \<Rightarrow>
          and_then
            (if metrics_on settings
             then (case map_of (cache c) oldKey of None \<Rightarrow> Inl Panic | Some oldEntry \<Rightarrow> flow_call (MDec ActiveFlows) (ceRecord oldEntry) c)
             else Inr c)
            (\<lambda>c. Inr (call (MInc CacheEvictions (identity_labels (identity c))) (RemoveElement oldest (c\<lparr>cache := mdel oldKey (cache c)\<rparr>)))))"

definition insertLocked :: "Flow \<Rightarrow> flowRecord \<Rightarrow> bool \<Rightarrow> runtimeSettings option \<Rightarrow> collector \<Rightarrow> error + collector" where
  "insertLocked flow r started settings c =
     (let key = flow_key flow in
      case map_of (cache c) key of
        Some existing \<Rightarrow> Inr (MoveToBack (ceElement existing) (c\<lparr>cache := mput key (existing\<lparr>ceFlow := flow, ceRecord := r\<rparr>) (cache c)\<rparr>))
      | None \<Rightarrow>
          and_then (if length (cache c) \<ge> DefaultCacheCapacity then evictOldest settings c else Inr c)
            (\<lambda>c. Inr ((PushBack key c)\<lparr>cache := mput key \<lparr>ceRecord = r, ceFlow = flow, ceElement = nextElement c, observedStart = started\<rparr> (cache c)\<rparr>)))"

definition eventEnabled :: "string list \<Rightarrow> string \<Rightarrow> bool" where
  "eventEnabled events event = (length events = 0 \<or> event \<in> set events)"

text \<open>The answer of the limiter is \<open>allow\<close>.\<close>

definition enqueueLogLocked :: "flowRecord \<Rightarrow> string \<Rightarrow> runtimeSettings \<Rightarrow> bool \<Rightarrow> collector \<Rightarrow> error + collector" where
  "enqueueLogLocked r event settings allow c =
     (let logConfig = conntrackLog (rsConfig settings) in
      if \<not> logEnabled logConfig \<or> \<not> eventEnabled (logEvents logConfig) event then Inr c
      else
        let r' = r\<lparr>rEvent := event\<rparr> in
        and_then (compiledFilters_match (rsFilters settings) r')
          (\<lambda>m. Inr
            (if \<not> m then c
             else if \<not> allow then call (MInc LogDrops (identity_labels (identity c) @ [''rate_limit''])) c
             else if length (logQueue c) < DefaultLogQueue then c\<lparr>logQueue := logQueue c @ [r']\<rparr>
             else call (MInc LogDrops (identity_labels (identity c) @ [''queue_full''])) c)))"

definition resetLocked :: "collector \<Rightarrow> collector" where
  "resetLocked c =
     call (MReset ActiveFlows) (call (MSet Accounting (identity_labels (identity c)) 0)
       (call (MSet CacheEntries (identity_labels (identity c)) 0) (c\<lparr>cache := [], order := []\<rparr>)))"

definition resetDomainMetrics :: "collector \<Rightarrow> collector" where
  "resetDomainMetrics c =
     call (MSet Accounting (identity_labels (identity c)) 0)
       (foldl (\<lambda>c m. call (MReset m) c) c [ActiveFlows, StartedFlows, EndedFlows, PacketsTotal, BytesTotal])"

text \<open>
  The dump: each flow comes with the reading of the clock and with the settings its insertion loads.
\<close>

fun initialize_flows :: "runtimeSettings option \<Rightarrow> (Flow \<times> nat \<times> runtimeSettings option) list \<Rightarrow> collector \<Rightarrow> error + collector" where
  "initialize_flows settings [] c = Inr c"
| "initialize_flows settings ((flow, stamp, s1) # flows) c =
     (case recordFromFlow (Some flow) stamp (identity c) of
        None \<Rightarrow> initialize_flows settings flows c
      | Some r \<Rightarrow>
          and_then
            (and_then (insertLocked flow r False s1 c)
              (\<lambda>c. if metrics_on settings
                   then and_then (flow_call (MInc ActiveFlows) r c) (addCountersLocked None flow r)
                   else Inr c))
            (initialize_flows settings flows))"

definition set_entries :: "collector \<Rightarrow> collector" where
  "set_entries c = call (MSet CacheEntries (identity_labels (identity c)) (length (cache c))) c"

definition initialize :: "runtimeSettings option \<Rightarrow> (Flow \<times> nat \<times> runtimeSettings option) list \<Rightarrow> collector \<Rightarrow> error + collector" where
  "initialize settings flows c = and_then (initialize_flows settings flows (resetLocked c)) (\<lambda>c. Inr (set_entries c))"

datatype EventType = EventNew | EventUpdate | EventDestroy | EventOther

record Event =
  evType :: EventType
  evFlow :: "Flow option"

text \<open>The branches of \<open>processEvent\<close>: a flow that is new or updated, and one that ends.\<close>

definition flow_seen :: "EventType \<Rightarrow> Flow \<Rightarrow> flowRecord \<Rightarrow> runtimeSettings \<Rightarrow> runtimeSettings option \<Rightarrow> bool \<Rightarrow> collector \<Rightarrow> error + collector" where
  "flow_seen t flow r settings s1 allow c =
     (let key = flow_key flow; entry = map_of (cache c) key; on = metrics_on (Some settings); isnew = (t = EventNew) in
      and_then
        (case entry of
           None \<Rightarrow>
             and_then (insertLocked flow r isnew s1 c)
               (\<lambda>c. if on then and_then (flow_call (MInc ActiveFlows) r c) (addCountersLocked None flow r) else Inr c)
         | Some e \<Rightarrow>
             and_then (if on then addCountersLocked (Some (ceFlow e)) flow r c else Inr c)
               (\<lambda>c. Inr (MoveToBack (ceElement e) (c\<lparr>cache := mput key (e\<lparr>ceFlow := flow, ceRecord := r\<rparr>) (cache c)\<rparr>))))
        (\<lambda>c. let c = call (MInc ConntrackEvents (identity_labels (identity c) @ [if isnew then ''new'' else ''update''])) c;
                 starts = (isnew \<and> (case entry of None \<Rightarrow> True | Some e \<Rightarrow> \<not> observedStart e)) in
             if starts then
               let c = (case entry of
                          None \<Rightarrow> c
                        | Some e \<Rightarrow> c\<lparr>cache := mput key (e\<lparr>ceFlow := flow, ceRecord := r, observedStart := True\<rparr>) (cache c)\<rparr>) in
               and_then (if on then flow_call (MInc StartedFlows) r c else Inr c) (enqueueLogLocked r ''start'' settings allow)
             else Inr c))"

definition flow_ended :: "Flow \<Rightarrow> flowRecord \<Rightarrow> runtimeSettings \<Rightarrow> bool \<Rightarrow> collector \<Rightarrow> error + collector" where
  "flow_ended flow r settings allow c =
     (let key = flow_key flow; entry = map_of (cache c) key; on = metrics_on (Some settings);
          c = call (MInc ConntrackEvents (identity_labels (identity c) @ [''end''])) c in
      and_then
        (case entry of
           None \<Rightarrow> Inr c
         | Some e \<Rightarrow>
             and_then (if on then and_then (addCountersLocked (Some (ceFlow e)) flow r c) (flow_call (MDec ActiveFlows) (ceRecord e)) else Inr c)
               (\<lambda>c. Inr ((RemoveElement (ceElement e) c)\<lparr>cache := mdel key (cache c)\<rparr>)))
        (\<lambda>c. and_then (if on then flow_call (MInc EndedFlows) r c else Inr c) (enqueueLogLocked r ''end'' settings allow)))"

definition processEvent :: "Event \<Rightarrow> nat \<Rightarrow> runtimeSettings option \<Rightarrow> runtimeSettings option \<Rightarrow> bool \<Rightarrow> collector \<Rightarrow> error + collector" where
  "processEvent event stamp settings s1 allow c =
     (case evFlow event of
        None \<Rightarrow> Inr c
      | Some flow \<Rightarrow>
          (case recordFromFlow (Some flow) stamp (identity c) of
             None \<Rightarrow> Inr c
           | Some r \<Rightarrow>
               (case settings of
                  None \<Rightarrow> Inr c
                | Some s \<Rightarrow>
                    and_then
                      (case evType event of
                         EventDestroy \<Rightarrow> flow_ended flow r s allow c
                       | EventOther \<Rightarrow> Inr c
                       | t \<Rightarrow> flow_seen t flow r s s1 allow c)
                      (\<lambda>c. Inr (set_entries c)))))"

definition collector_clear :: "collector \<Rightarrow> collector" where
  "collector_clear c = resetLocked c"

text \<open>One record taken from the queue by the writer; \<open>ok\<close> says whether it was written.\<close>

definition writeFlowLogs :: "bool \<Rightarrow> collector \<Rightarrow> collector" where
  "writeFlowLogs ok c =
     (case logQueue c of
        [] \<Rightarrow> c
      | r # rs \<Rightarrow>
          call (if ok then MInc LogRecords (identity_labels (identity c) @ [rEvent r]) else MInc LogDrops (identity_labels (identity c) @ [''write_error'']))
            (c\<lparr>logQueue := rs\<rparr>))"

section \<open>Sessions\<close>

definition writeDiagnostic :: "string \<Rightarrow> bool \<Rightarrow> collector \<Rightarrow> collector" where
  "writeDiagnostic kind ok c = (if ok then c else call (MInc Errors (identity_labels (identity c) @ [kind, ''diagnostic_write''])) c)"

text \<open>What the loop of a session receives: the end of the context, a tick with the settings loaded, an error of the stream, an event.\<close>

datatype input =
    CtxDone
  | Tick "runtimeSettings option"
  | ErrorValue "string option"
  | ErrorsClosed
  | EventValue Event nat "runtimeSettings option" "runtimeSettings option" bool
  | EventsClosed

text \<open>A session that has returned has its errors, joined; without further input it waits.\<close>

datatype outcome = Returned "string list" | Waiting

definition session_over :: "bool \<Rightarrow> runtimeSettings option \<Rightarrow> bool" where
  "session_over initialMetricsEnabled settings =
     (case settings of
        None \<Rightarrow> True
      | Some s \<Rightarrow> \<not> conntrackEnabled (rsConfig s) \<or> conntrackMetricsEnabled (rsConfig s) \<noteq> initialMetricsEnabled)"

fun session_loop :: "bool \<Rightarrow> input list \<Rightarrow> collector \<Rightarrow> error + (collector \<times> outcome)" where
  "session_loop on [] c = Inr (c, Waiting)"
| "session_loop on (CtxDone # is) c = Inr (c, Returned [])"
| "session_loop on (Tick settings # is) c =
     (if session_over on settings then Inr (collector_clear (if on then resetDomainMetrics c else c), Returned []) else session_loop on is c)"
| "session_loop on (ErrorsClosed # is) c = Inr (c, Returned [''conntrack event stream closed''])"
| "session_loop on (ErrorValue err # is) c =
     (case err of Some e \<Rightarrow> Inr (c, Returned [''receive conntrack event: '' @ e]) | None \<Rightarrow> session_loop on is c)"
| "session_loop on (EventsClosed # is) c = Inr (c, Returned [''conntrack event channel closed''])"
| "session_loop on (EventValue event stamp settings s1 allow # is) c =
     (case processEvent event stamp settings s1 allow c of Inl err \<Rightarrow> Inl err | Inr c' \<Rightarrow> session_loop on is c')"

text \<open>The answers of the connection during a session, and the settings loaded by \<open>initialize\<close> and after it.\<close>

record sessionEnv =
  seDial :: "string option"
  seReadBuffer :: bool
  seDiagnostic :: bool
  seListen :: "string option"
  seDumpDial :: "string option"
  seDump :: "string + (Flow \<times> nat \<times> runtimeSettings option) list"
  seDumpClose :: "string option"
  seInitSettings :: "runtimeSettings option"
  seSettings :: "runtimeSettings option"
  seClose :: "string option"

definition after_dump :: "sessionEnv \<Rightarrow> input list \<Rightarrow> collector \<Rightarrow> error + (collector \<times> outcome)" where
  "after_dump env inputs c =
     (case seDump env of
        Inl e \<Rightarrow> Inr (c, Returned [''dump conntrack table: '' @ e])
      | Inr flows \<Rightarrow>
          (case seDumpClose env of
             Some e \<Rightarrow> Inr (c, Returned [''close conntrack dump netlink: '' @ e])
           | None \<Rightarrow>
               and_then (initialize (seInitSettings env) flows c)
                 (\<lambda>c. case seSettings env of
                    None \<Rightarrow> Inl Panic
                  | Some s \<Rightarrow>
                      session_loop (conntrackMetricsEnabled (rsConfig s)) inputs
                        (call (MSet CollectorUp (identity_labels (identity c) @ [''conntrack'']) 1) c))))"

definition close_session :: "sessionEnv \<Rightarrow> collector \<times> outcome \<Rightarrow> collector \<times> outcome" where
  "close_session env r =
     (case r of
        (c, Waiting) \<Rightarrow> (c, Waiting)
      | (c, Returned errs) \<Rightarrow> (c, Returned (errs @ (case seClose env of None \<Rightarrow> [] | Some e \<Rightarrow> [''close conntrack event netlink: '' @ e]))))"

definition runSession :: "sessionEnv \<Rightarrow> input list \<Rightarrow> collector \<Rightarrow> error + (collector \<times> outcome)" where
  "runSession env inputs c =
     (case seDial env of
        Some e \<Rightarrow> Inr (c, Returned [''dial conntrack event netlink: '' @ e])
      | None \<Rightarrow>
          let c = (if seReadBuffer env then c
                   else writeDiagnostic ''conntrack'' (seDiagnostic env)
                     (call (MInc Errors (identity_labels (identity c) @ [''conntrack'', ''set_read_buffer''])) c)) in
          and_then
            (case seListen env of
               Some e \<Rightarrow> Inr (c, Returned [''subscribe to conntrack events: '' @ e])
             | None \<Rightarrow>
                 (case seDumpDial env of
                    Some e \<Rightarrow> Inr (c, Returned [''dial conntrack dump netlink: '' @ e])
                  | None \<Rightarrow> after_dump env inputs c))
            (\<lambda>r. Inr (close_session env r)))"

text \<open>One round of \<open>run\<close>: the settings loaded, whether the context has ended when the session returns. The flag says whether the loop waits before the next round.\<close>

definition run_round :: "runtimeSettings option \<Rightarrow> sessionEnv \<Rightarrow> input list \<Rightarrow> bool \<Rightarrow> bool \<Rightarrow> collector \<Rightarrow> error + (collector \<times> bool)" where
  "run_round settings env inputs ctxEnded diag c =
     (case settings of
        None \<Rightarrow> Inr (call (MSet CollectorUp (identity_labels (identity c) @ [''conntrack'']) 0) c, True)
      | Some s \<Rightarrow>
          if \<not> conntrackEnabled (rsConfig s)
          then Inr (call (MSet CollectorUp (identity_labels (identity c) @ [''conntrack'']) 0) c, True)
          else and_then (runSession env inputs c)
            (\<lambda>(c, out). Inr
              (case out of
                 Returned errs \<Rightarrow>
                   if errs \<noteq> [] \<and> \<not> ctxEnded
                   then (call (MSet CollectorUp (identity_labels (identity c) @ [''conntrack'']) 0)
                           (call (MInc Errors (identity_labels (identity c) @ [''conntrack'', ''session''])) (writeDiagnostic ''conntrack'' diag c)), True)
                   else (c, False)
               | Waiting \<Rightarrow> (c, False))))"

section \<open>Reloading the configuration\<close>

text \<open>The digest of a configuration is a parameter, with the value of a failed start.\<close>

record 'h reloader =
  rlSettings :: runtimeSettings
  rlHash :: 'h
  rlCalls :: "mcall list"

definition settings_for :: "Config \<Rightarrow> error + runtimeSettings" where
  "settings_for cfg =
     (case compileFilters (logFilters (conntrackLog cfg)) of
        Inl err \<Rightarrow> Inl err
      | Inr filters \<Rightarrow> Inr \<lparr>rsConfig = cfg, rsFilters = filters, rsLimiter = newLimiter (logRateLimit (conntrackLog cfg))\<rparr>)"

definition reload_error :: "observerIdentity \<Rightarrow> bool \<Rightarrow> 'h reloader \<Rightarrow> 'h reloader" where
  "reload_error i diag s =
     s\<lparr>rlCalls := rlCalls s @ [MInc ConfigReloads (identity_labels i @ [''error''])] @
        (if diag then [] else [MInc Errors (identity_labels i @ [''config'', ''diagnostic_write''])])\<rparr>"

text \<open>The start of \<open>Run\<close>: the first configuration, its filters, and the identity of the gateway.\<close>

definition run_start :: "error + Config \<Rightarrow> string \<Rightarrow> string \<Rightarrow> error + (observerIdentity \<times> runtimeSettings \<times> mcall list)" where
  "run_start file pod node =
     (case loadConfig file of
        Inl err \<Rightarrow> Inl err
      | Inr cfg \<Rightarrow>
          (case settings_for cfg of
             Inl err \<Rightarrow> Inl err
           | Inr s \<Rightarrow>
               let i = \<lparr>idNamespace = cfgNamespace cfg, idName = cfgName cfg, idPod = pod, idNode = node\<rparr> in
               Inr (i, s, [MInc ConfigReloads (identity_labels i @ [''success''])])))"

definition reload_start :: "(Config \<Rightarrow> error + 'h) \<Rightarrow> 'h \<Rightarrow> observerIdentity \<Rightarrow> bool \<Rightarrow> runtimeSettings \<Rightarrow> mcall list \<Rightarrow> 'h reloader" where
  "reload_start configHash zero i diag s cs =
     (case configHash (rsConfig s) of
        Inl err \<Rightarrow> reload_error i diag \<lparr>rlSettings = s, rlHash = zero, rlCalls = cs\<rparr>
      | Inr h \<Rightarrow> \<lparr>rlSettings = s, rlHash = h, rlCalls = cs\<rparr>)"

definition reload_tick :: "(Config \<Rightarrow> error + 'h) \<Rightarrow> observerIdentity \<Rightarrow> bool \<Rightarrow> error + Config \<Rightarrow> 'h reloader \<Rightarrow> 'h reloader" where
  "reload_tick configHash i diag file s =
     (case loadConfig file of
        Inl err \<Rightarrow> reload_error i diag s
      | Inr cfg \<Rightarrow>
          (case configHash cfg of
             Inl err \<Rightarrow> reload_error i diag s
           | Inr h \<Rightarrow>
               if h = rlHash s then s
               else if \<not> identity_matches i cfg then reload_error i diag s
               else (case settings_for cfg of
                       Inl err \<Rightarrow> reload_error i diag s
                     | Inr st \<Rightarrow> s\<lparr>rlSettings := st, rlHash := h, rlCalls := rlCalls s @ [MInc ConfigReloads (identity_labels i @ [''success''])]\<rparr>)))"

end
