(* ===== verification/ObserverCollectorInv.thy ===== *)
theory ObserverCollectorInv
  imports ObserverCollector
begin

text \<open>
  The invariant of the collector: the cache and its order list agree, and every operation keeps that, says
  what it does to the order, and by how much the gauge of active flows and the cache drift apart.
\<close>

section \<open>The invariant of the collector\<close>

definition record_ok :: "flowRecord \<Rightarrow> bool" where
  "record_ok r = (NatType r \<noteq> [])"

definition keys :: "collector \<Rightarrow> flowKey list" where
  "keys c = map snd (order c)"

definition cache_ok :: "collector \<Rightarrow> bool" where
  "cache_ok c =
     (mwf (cache c) \<and> distinct (map fst (order c)) \<and> distinct (keys c) \<and>
      (\<forall>x\<in>set (order c). fst x < nextElement c) \<and>
      (\<forall>x k. (x, k) \<in> set (order c) \<longleftrightarrow> (\<exists>e. map_of (cache c) k = Some e \<and> ceElement e = x)) \<and>
      (\<forall>k e. map_of (cache c) k = Some e \<longrightarrow> record_ok (ceRecord e) \<and> flow_key (ceFlow e) = k))"

definition collector_ok :: "collector \<Rightarrow> bool" where
  "collector_ok c = (cache_ok c \<and> length (cache c) \<le> DefaultCacheCapacity \<and> length (logQueue c) \<le> DefaultLogQueue)"

lemma and_then_simps [simp]: "and_then (Inr a) f = f a" "and_then (Inl err) f = Inl err"
  by (simp_all add: and_then_def)

lemma and_then_Inr: "and_then x f = Inr b \<longleftrightarrow> (\<exists>a. x = Inr a \<and> f a = Inr b)"
  by (cases x) auto

lemma recordFromFlow_ok: "recordFromFlow f stamp i = Some r \<Longrightarrow> record_ok r"
proof -
  have s: "sort_strings xs = [] \<longleftrightarrow> xs = []" for xs by (metis length_0_conv length_sort_strings)
  show "recordFromFlow f stamp i = Some r \<Longrightarrow> record_ok r"
    by (auto simp: recordFromFlow_def record_ok_def Let_def s split: option.splits if_splits)
qed

lemma flowLabels_ok: "record_ok r \<Longrightarrow> \<exists>ls. flowLabels i r = Inr ls"
  by (cases "NatType r") (auto simp: flowLabels_def metricNatType_def record_ok_def)

definition labels_of :: "observerIdentity \<Rightarrow> flowRecord \<Rightarrow> string list" where
  "labels_of i r = (case flowLabels i r of Inr ls \<Rightarrow> ls | Inl _ \<Rightarrow> [])"

lemma flowLabels_of: "record_ok r \<Longrightarrow> flowLabels i r = Inr (labels_of i r)"
  using flowLabels_ok [of r i] by (auto simp: labels_of_def)

lemma flow_call_ok: "record_ok r \<Longrightarrow> flow_call m r c = Inr (call (m (labels_of (identity c) r)) c)"
  by (simp add: flow_call_def flowLabels_of)

text \<open>A state with other calls, or another queue.\<close>

lemma call_simps [simp]:
  "identity (call m c) = identity c" "cache (call m c) = cache c" "order (call m c) = order c" "nextElement (call m c) = nextElement c"
  "logQueue (call m c) = logQueue c" "calls (call m c) = calls c @ [m]" "keys (call m c) = keys c"
  by (simp_all add: call_def keys_def)

text \<open>The part of the state the cache is about.\<close>

definition same_cache :: "collector \<Rightarrow> collector \<Rightarrow> bool" where
  "same_cache c c' = (identity c' = identity c \<and> cache c' = cache c \<and> order c' = order c \<and> nextElement c' = nextElement c)"

lemma same_cache_refl [simp]: "same_cache c c" "same_cache c (call m c)" "same_cache c (c\<lparr>logQueue := q\<rparr>)" "same_cache c (c\<lparr>calls := cs\<rparr>)"
  by (simp_all add: same_cache_def)

lemma same_cache_trans: "same_cache a b \<Longrightarrow> same_cache b c \<Longrightarrow> same_cache a c"
  by (simp add: same_cache_def)

lemma same_cache_ok: "same_cache c c' \<Longrightarrow> cache_ok c' = cache_ok c \<and> keys c' = keys c"
  by (auto simp: same_cache_def cache_ok_def keys_def)

lemma addCounters_ok:
  "record_ok r \<Longrightarrow> \<exists>c'. addCountersLocked p f r c = Inr c' \<and> same_cache c c' \<and> logQueue c' = logQueue c \<and>
     (\<exists>cs. calls c' = calls c @ cs \<and> (\<forall>m\<in>set cs. (\<exists>l w. m = MAdd PacketsTotal l w \<or> m = MAdd BytesTotal l w \<or> m = MSet Accounting l 1)))"
  by (auto simp: addCountersLocked_def flowLabels_of Let_def same_cache_def)

lemma enqueue_ok:
  assumes "compiledFilters_match (rsFilters s) (r\<lparr>rEvent := e\<rparr>) = Inr m" "length (logQueue c) \<le> DefaultLogQueue"
  shows "\<exists>c'. enqueueLogLocked r e s allow c = Inr c' \<and> same_cache c c' \<and> length (logQueue c') \<le> DefaultLogQueue \<and>
     (\<exists>cs. calls c' = calls c @ cs \<and> (\<forall>m\<in>set cs. \<exists>l. m = MInc LogDrops l))"
  using assms by (auto simp: enqueueLogLocked_def Let_def same_cache_def DefaultLogQueue_def)

text \<open>Filters never panic on a record with a translation.\<close>

lemma compiledRule_total: "record_ok r \<Longrightarrow> \<exists>m. compiledRule_match rule r = Inr m"
  by (cases "NatType r") (auto simp: compiledRule_match_def matchNatTypes_def metricNatType_def record_ok_def)

lemma any_match_total: "record_ok r \<Longrightarrow> \<exists>m. any_match rules r = Inr m"
proof (induction rules)
  case (Cons rule rules)
  then show ?case using compiledRule_total [of r rule] by auto
qed (rule exI [of _ False], simp)

lemma filters_total: "record_ok r \<Longrightarrow> \<exists>m. compiledFilters_match fs r = Inr m"
  using any_match_total [of r "excludeRules fs"] any_match_total [of r "includeRules fs"] by (auto simp: compiledFilters_match_def)

lemma record_ok_event [simp]: "record_ok (r\<lparr>rEvent := e\<rparr>) = record_ok r"
  by (simp add: record_ok_def)

section \<open>The order list\<close>

lemma cache_okD:
  assumes "cache_ok c"
  shows "mwf (cache c)" "distinct (map fst (order c))" "distinct (keys c)" "\<And>x. x \<in> set (order c) \<Longrightarrow> fst x < nextElement c"
    "\<And>x k. (x, k) \<in> set (order c) \<longleftrightarrow> (\<exists>e. map_of (cache c) k = Some e \<and> ceElement e = x)"
    "\<And>k e. map_of (cache c) k = Some e \<Longrightarrow> record_ok (ceRecord e) \<and> flow_key (ceFlow e) = k"
  using assms unfolding cache_ok_def by blast+

lemma keys_mem: "k \<in> set (keys c) \<longleftrightarrow> (\<exists>x. (x, k) \<in> set (order c))"
proof
  assume "k \<in> set (keys c)"
  then show "\<exists>x. (x, k) \<in> set (order c)" unfolding keys_def set_map by (metis imageE prod.collapse)
next
  assume "\<exists>x. (x, k) \<in> set (order c)"
  then show "k \<in> set (keys c)" unfolding keys_def set_map by (metis image_eqI snd_conv)
qed

lemma keys_cache: "cache_ok c \<Longrightarrow> k \<in> set (keys c) \<longleftrightarrow> map_of (cache c) k \<noteq> None"
  unfolding keys_mem by (metis cache_okD(5) not_Some_eq)

lemma keys_length: "cache_ok c \<Longrightarrow> length (keys c) = length (cache c)"
proof -
  assume ok: "cache_ok c"
  have "set (keys c) = set (map fst (cache c))"
  proof (rule set_eqI)
    fix k
    show "k \<in> set (keys c) \<longleftrightarrow> k \<in> set (map fst (cache c))" using keys_cache [OF ok, of k] map_of_eq_None_iff [of "cache c" k] by simp
  qed
  moreover have "distinct (keys c)" "distinct (map fst (cache c))" using cache_okD(1,3) [OF ok] by (auto simp: mwf_def)
  ultimately show ?thesis by (metis distinct_card length_map)
qed

text \<open>The element of an entry is where its key is.\<close>

lemma filter_element:
  assumes "cache_ok c" "map_of (cache c) k = Some e"
  shows "filter (\<lambda>x. fst x = ceElement e) (order c) = [(ceElement e, k)]"
    "map snd (filter (\<lambda>x. fst x \<noteq> ceElement e) (order c)) = remove1 k (keys c)"
proof -
  have mem: "(ceElement e, k) \<in> set (order c)" using cache_okD(5) [OF assms(1)] assms(2) by blast
  then obtain xs ys where s: "order c = xs @ (ceElement e, k) # ys" by (meson split_list)
  note d = cache_okD(2,3) [OF assms(1)]
  have no: "ceElement e \<notin> fst ` set xs" "ceElement e \<notin> fst ` set ys" "k \<notin> set (map snd xs)" using d by (auto simp: s keys_def)
  have f: "filter (\<lambda>x. fst x = ceElement e) xs = []" "filter (\<lambda>x. fst x = ceElement e) ys = []"
    "filter (\<lambda>x. fst x \<noteq> ceElement e) xs = xs" "filter (\<lambda>x. fst x \<noteq> ceElement e) ys = ys"
    using no by (force simp: filter_empty_conv filter_id_conv)+
  show "filter (\<lambda>x. fst x = ceElement e) (order c) = [(ceElement e, k)]" by (simp add: s f)
  show "map snd (filter (\<lambda>x. fst x \<noteq> ceElement e) (order c)) = remove1 k (keys c)"
    using no by (simp add: s f keys_def remove1_append)
qed


lemma length_mput: "mwf m \<Longrightarrow> length (mput k v m) = (if map_of m k = None then Suc (length m) else length m)"
  unfolding mput_def by (induction m) (auto simp: mwf_def)

lemma length_mdel: "mwf m \<Longrightarrow> map_of m k \<noteq> None \<Longrightarrow> Suc (length (mdel k m)) = length m"
proof (induction m)
  case (Cons p m)
  show ?case
  proof (cases "fst p = k")
    case True
    then have "map_of m k = None" using Cons.prems(1) by (cases p) (auto simp: mwf_def map_of_eq_None_iff)
    then have "mdel k m = m" by (force simp: mdel_def AList.delete_eq filter_id_conv map_of_eq_None_iff)
    then show ?thesis using True by (cases p) (simp add: mdel_def)
  next
    case False
    then show ?thesis using Cons by (cases p) (simp add: mdel_def mwf_def)
  qed
qed simp

text \<open>An entry is changed but keeps its element.\<close>

lemma entry_update:
  assumes ok: "cache_ok c" and e: "map_of (cache c) k = Some e" "ceElement e' = ceElement e" "record_ok (ceRecord e')" "flow_key (ceFlow e') = k"
  shows "cache_ok (c\<lparr>cache := mput k e' (cache c)\<rparr>)" "keys (c\<lparr>cache := mput k e' (cache c)\<rparr>) = keys c" "length (mput k e' (cache c)) = length (cache c)"
proof -
  have "(\<exists>y. ((map_of (cache c))(k \<mapsto> e')) j = Some y \<and> ceElement y = x) \<longleftrightarrow> (\<exists>y. map_of (cache c) j = Some y \<and> ceElement y = x)" for x j
    using e by auto
  then show "cache_ok (c\<lparr>cache := mput k e' (cache c)\<rparr>)"
    using cache_okD [OF ok] e unfolding cache_ok_def by (simp add: keys_def del: split_paired_All)
  show "keys (c\<lparr>cache := mput k e' (cache c)\<rparr>) = keys c" by (simp add: keys_def)
  show "length (mput k e' (cache c)) = length (cache c)" using length_mput [OF cache_okD(1) [OF ok], of k] e(1) by simp
qed

lemma MoveToBack_ok:
  assumes ok: "cache_ok c" and e: "map_of (cache c) k = Some e"
  shows "cache_ok (MoveToBack (ceElement e) c)" "keys (MoveToBack (ceElement e) c) = remove1 k (keys c) @ [k]"
proof -
  let ?c = "MoveToBack (ceElement e) c"
  have perm: "set (order ?c) = set (order c)" by (auto simp: MoveToBack_def)
  show k: "keys ?c = remove1 k (keys c) @ [k]" using filter_element [OF assms] by (simp add: MoveToBack_def keys_def)
  have "distinct (map fst (order ?c))" using cache_okD(2) [OF ok] by (auto simp: MoveToBack_def distinct_map_filter)
  moreover have "distinct (keys ?c)" unfolding k using cache_okD(3) [OF ok] by simp
  moreover have "cache ?c = cache c" "nextElement ?c = nextElement c" by (simp_all add: MoveToBack_def)
  ultimately show "cache_ok ?c" using cache_okD [OF ok] perm unfolding cache_ok_def by simp
qed

lemma remove_ok:
  assumes ok: "cache_ok c" and e: "map_of (cache c) k = Some e"
  shows "cache_ok ((RemoveElement (ceElement e) c)\<lparr>cache := mdel k (cache c)\<rparr>)" (is "cache_ok ?c")
    "keys ((RemoveElement (ceElement e) c)\<lparr>cache := mdel k (cache c)\<rparr>) = remove1 k (keys c)"
    "Suc (length (mdel k (cache c))) = length (cache c)"
proof -
  show k: "keys ?c = remove1 k (keys c)" using filter_element [OF assms] by (simp add: RemoveElement_def keys_def)
  show "Suc (length (mdel k (cache c))) = length (cache c)" using length_mdel [OF cache_okD(1) [OF ok], of k] e by simp
  have mem: "(x, j) \<in> set (order ?c) \<longleftrightarrow> (\<exists>y. map_of (cache ?c) j = Some y \<and> ceElement y = x)" for x j
  proof -
    have "(x, j) \<in> set (order ?c) \<longleftrightarrow> (x, j) \<in> set (order c) \<and> x \<noteq> ceElement e" by (auto simp: RemoveElement_def)
    also have "\<dots> \<longleftrightarrow> (x, j) \<in> set (order c) \<and> j \<noteq> k"
    proof -
      have "(ceElement e, k) \<in> set (order c)" using cache_okD(5) [OF ok] e by blast
      then show ?thesis using cache_okD(2) [OF ok] cache_okD(5) [OF ok] e by (metis eq_key_imp_eq_value option.inject)
    qed
    finally show ?thesis using cache_okD(5) [OF ok] by (auto simp del: split_paired_Ex)
  qed
  have "distinct (map fst (order ?c))" using cache_okD(2) [OF ok] by (auto simp: RemoveElement_def distinct_map_filter)
  moreover have "distinct (keys ?c)" unfolding k using cache_okD(3) [OF ok] by simp
  moreover have "\<forall>x\<in>set (order ?c). fst x < nextElement ?c" using cache_okD(4) [OF ok] by (auto simp: RemoveElement_def)
  moreover have "map_of (cache ?c) j = Some y \<longrightarrow> record_ok (ceRecord y) \<and> flow_key (ceFlow y) = j" for j y
    using cache_okD(6) [OF ok, of j y] by (cases "j = k") simp_all
  ultimately show "cache_ok ?c" using cache_okD(1) [OF ok] mem unfolding cache_ok_def by (simp del: split_paired_All)
qed

lemma push_ok:
  assumes ok: "cache_ok c" and e: "map_of (cache c) k = None" "ceElement e = nextElement c" "record_ok (ceRecord e)" "flow_key (ceFlow e) = k"
  shows "cache_ok ((PushBack k c)\<lparr>cache := mput k e (cache c)\<rparr>)" (is "cache_ok ?c")
    "keys ((PushBack k c)\<lparr>cache := mput k e (cache c)\<rparr>) = keys c @ [k]" "length (mput k e (cache c)) = Suc (length (cache c))"
proof -
  show k: "keys ?c = keys c @ [k]" by (simp add: PushBack_def keys_def)
  show "length (mput k e (cache c)) = Suc (length (cache c))" using length_mput [OF cache_okD(1) [OF ok], of k] e(1) by simp
  have nk: "k \<notin> set (keys c)" using keys_cache [OF ok] e(1) by simp
  have mem: "(x, j) \<in> set (order ?c) \<longleftrightarrow> (\<exists>y. map_of (cache ?c) j = Some y \<and> ceElement y = x)" for x j
    using cache_okD(5) [OF ok, of x j] e by (cases "j = k") (auto simp: PushBack_def simp del: split_paired_Ex)
  have "nextElement c \<notin> fst ` set (order c)" using cache_okD(4) [OF ok] by fastforce
  then have "distinct (map fst (order ?c))" using cache_okD(2) [OF ok] by (simp add: PushBack_def)
  moreover have "distinct (keys ?c)" unfolding k using cache_okD(3) [OF ok] nk by simp
  moreover have "\<forall>x\<in>set (order ?c). fst x < nextElement ?c" using cache_okD(4) [OF ok] by (auto simp: PushBack_def less_SucI)
  moreover have "map_of (cache ?c) j = Some y \<longrightarrow> record_ok (ceRecord y) \<and> flow_key (ceFlow y) = j" for j y
    using cache_okD(6) [OF ok, of j y] e by (cases "j = k") auto
  ultimately show "cache_ok ?c" using cache_okD(1) [OF ok] mem unfolding cache_ok_def by (simp del: split_paired_All)
qed


section \<open>The gauge of active flows\<close>

text \<open>What a gauge shows after a list of calls: the library adds and subtracts one, and a reset forgets all labels.\<close>

fun gauge_step :: "string list \<Rightarrow> mcall \<Rightarrow> int \<Rightarrow> int" where
  "gauge_step l (MInc ActiveFlows l') n = (if l' = l then n + 1 else n)"
| "gauge_step l (MDec ActiveFlows l') n = (if l' = l then n - 1 else n)"
| "gauge_step l (MReset ActiveFlows) n = 0"
| "gauge_step l m n = n"

definition gauge :: "mcall list \<Rightarrow> string list \<Rightarrow> int" where
  "gauge cs l = fold (gauge_step l) cs 0"

definition neutral :: "mcall \<Rightarrow> bool" where
  "neutral m = (\<forall>l n. gauge_step l m n = n)"

lemma neutral_simps [simp]:
  "neutral (MInc ConntrackEvents l)" "neutral (MInc CacheEvictions l)" "neutral (MInc LogDrops l)" "neutral (MInc StartedFlows l)" "neutral (MInc EndedFlows l)"
  "neutral (MAdd x l w)" "neutral (MSet x l n)" "neutral (MInc LogRecords l)" "neutral (MInc Errors l)"
  by (simp_all add: neutral_def)

lemma gauge_append: "gauge (cs @ ds) l = fold (gauge_step l) ds (gauge cs l)"
  by (simp add: gauge_def)

lemma gauge_neutral: "\<forall>m\<in>set ds. neutral m \<Longrightarrow> gauge (cs @ ds) l = gauge cs l"
proof -
  have "\<forall>m\<in>set ds. neutral m \<Longrightarrow> fold (gauge_step l) ds n = n" for n by (induction ds) (auto simp: neutral_def)
  then show "\<forall>m\<in>set ds. neutral m \<Longrightarrow> gauge (cs @ ds) l = gauge cs l" by (simp add: gauge_append)
qed

definition cached :: "collector \<Rightarrow> string list \<Rightarrow> int" where
  "cached c l = int (length (filter (\<lambda>p. labels_of (identity c) (ceRecord (snd p)) = l) (cache c)))"

definition drift :: "collector \<Rightarrow> string list \<Rightarrow> int" where
  "drift c l = gauge (calls c) l - cached c l"

lemma count_mput:
  "mwf m \<Longrightarrow> int (length (filter (\<lambda>p. P (snd p)) (mput k v m))) =
     int (length (filter (\<lambda>p. P (snd p)) m)) + (if P v then 1 else 0) - (case map_of m k of None \<Rightarrow> 0 | Some w \<Rightarrow> if P w then 1 else 0)"
proof (induction m)
  case Nil
  then show ?case by (simp add: mput_def)
next
  case (Cons p m)
  obtain j w where p: "p = (j, w)" by (cases p)
  have m: "mwf m" using Cons.prems by (simp add: mwf_def p)
  show ?case using Cons.IH [OF m] by (cases "j = k") (simp_all add: p mput_def split: option.splits)
qed

lemma count_mdel:
  "mwf m \<Longrightarrow> int (length (filter (\<lambda>p. P (snd p)) (mdel k m))) =
     int (length (filter (\<lambda>p. P (snd p)) m)) - (case map_of m k of None \<Rightarrow> 0 | Some w \<Rightarrow> if P w then 1 else 0)"
proof (induction m)
  case Nil
  then show ?case by (simp add: mdel_def)
next
  case (Cons p m)
  obtain j w where p: "p = (j, w)" by (cases p)
  have m: "mwf m" "j \<notin> fst ` set m" using Cons.prems by (simp_all add: mwf_def p)
  show ?case
  proof (cases "j = k")
    case True
    then have "map_of m k = None" using m(2) by (simp add: map_of_eq_None_iff)
    then show ?thesis using Cons.IH [OF m(1)] True by (simp add: p mdel_def)
  next
    case False
    then show ?thesis using Cons.IH [OF m(1)] by (simp add: p mdel_def)
  qed
qed

definition has_label :: "collector \<Rightarrow> flowRecord \<Rightarrow> string list \<Rightarrow> int" where
  "has_label c r l = (if labels_of (identity c) r = l then 1 else 0)"

lemma cached_mput:
  "mwf (cache c) \<Longrightarrow> identity c' = identity c \<Longrightarrow> cache c' = mput k e (cache c) \<Longrightarrow>
     cached c' l = cached c l + has_label c (ceRecord e) l - (case map_of (cache c) k of None \<Rightarrow> 0 | Some w \<Rightarrow> has_label c (ceRecord w) l)"
  using count_mput [of "cache c" "\<lambda>e. labels_of (identity c) (ceRecord e) = l" k e] by (simp add: cached_def has_label_def split: option.splits)

lemma cached_mdel:
  "mwf (cache c) \<Longrightarrow> identity c' = identity c \<Longrightarrow> cache c' = mdel k (cache c) \<Longrightarrow>
     cached c' l = cached c l - (case map_of (cache c) k of None \<Rightarrow> 0 | Some w \<Rightarrow> has_label c (ceRecord w) l)"
  using count_mdel [of "cache c" "\<lambda>e. labels_of (identity c) (ceRecord e) = l" k] by (simp add: cached_def has_label_def split: option.splits)

lemma cached_same: "same_cache c c' \<Longrightarrow> cached c' l = cached c l"
  by (simp add: cached_def same_cache_def)

section \<open>Every operation keeps the invariant\<close>

text \<open>The reference: the keys from the least to the most recently seen one.\<close>

definition lru_seen :: "nat \<Rightarrow> 'k \<Rightarrow> 'k list \<Rightarrow> 'k list" where
  "lru_seen cap k ks = (if k \<in> set ks then remove1 k ks @ [k] else (if length ks \<ge> cap then tl ks else ks) @ [k])"

text \<open>What an operation gives: the invariant, the keys it leaves, and what it adds to the difference between the gauge and the cache while metrics are on.\<close>

definition result :: "collector \<Rightarrow> collector \<Rightarrow> flowKey list \<Rightarrow> bool \<Rightarrow> (string list \<Rightarrow> int) \<Rightarrow> bool" where
  "result c c' ks on d = (collector_ok c' \<and> identity c' = identity c \<and> keys c' = ks \<and> (on \<longrightarrow> (\<forall>l. drift c' l = drift c l + d l)))"

lemma drift_call: "neutral m \<Longrightarrow> drift (call m c) l = drift c l"
  using gauge_neutral [of "[m]" "calls c" l] by (simp add: drift_def cached_def)

lemma drift_same: "same_cache c c' \<Longrightarrow> calls c' = calls c @ cs \<Longrightarrow> \<forall>m\<in>set cs. neutral m \<Longrightarrow> drift c' l = drift c l"
  using gauge_neutral [of cs "calls c" l] cached_same [of c c' l] by (simp add: drift_def)

lemma has_label_identity: "identity c' = identity c \<Longrightarrow> has_label c' r l = has_label c r l"
  by (simp add: has_label_def)

lemma drift_inc: "drift (call (MInc ActiveFlows (labels_of (identity c) r)) c) l = drift c l + has_label c r l"
  by (simp add: drift_def cached_def gauge_append has_label_def)

lemma drift_dec: "drift (call (MDec ActiveFlows (labels_of (identity c) r)) c) l = drift c l - has_label c r l"
  by (simp add: drift_def cached_def gauge_append has_label_def)

lemma evict_ok:
  assumes ok: "cache_ok c" and ne: "cache c \<noteq> []"
  shows "\<exists>c'. evictOldest s c = Inr c' \<and> cache_ok c' \<and> keys c' = tl (keys c) \<and> Suc (length (cache c')) = length (cache c) \<and>
    identity c' = identity c \<and> logQueue c' = logQueue c \<and> (map_of (cache c) j = None \<longrightarrow> map_of (cache c') j = None) \<and>
    (metrics_on s \<longrightarrow> (\<forall>l. drift c' l = drift c l))"
proof -
  have "length (keys c) = length (cache c)" by (rule keys_length [OF ok])
  then have "order c \<noteq> []" using ne by (auto simp: keys_def)
  then obtain x k xs where o: "order c = (x, k) # xs" by (metis list.exhaust prod.exhaust)
  then have "(x, k) \<in> set (order c)" by simp
  then obtain e where e: "map_of (cache c) k = Some e" "ceElement e = x" using cache_okD(5) [OF ok] by blast
  have r: "record_ok (ceRecord e)" using cache_okD(6) [OF ok e(1)] by simp
  define c1 where "c1 = (if metrics_on s then call (MDec ActiveFlows (labels_of (identity c) (ceRecord e))) c else c)"
  let ?c = "(RemoveElement (ceElement e) c1)\<lparr>cache := mdel k (cache c1)\<rparr>"
  have sc: "same_cache c c1" "logQueue c1 = logQueue c" by (simp_all add: c1_def)
  have ok1: "cache_ok c1" "map_of (cache c1) k = Some e" "keys c1 = keys c" "cache c1 = cache c" using ok e same_cache_ok [OF sc(1)] sc(1) by (simp_all add: same_cache_def)
  have "evictOldest s c = Inr (call (MInc CacheEvictions (identity_labels (identity c))) ?c)"
    using e r o by (simp add: evictOldest_def flow_call_ok c1_def RemoveElement_def)
  moreover have "keys ?c = tl (keys c)" using remove_ok(2) [OF ok1(1,2)] ok1(3) o by (simp add: keys_def)
  moreover have "drift ?c l = drift c l" if "metrics_on s" for l
  proof -
    have "drift c1 l = drift c l - has_label c (ceRecord e) l" using that drift_dec [of c "ceRecord e" l] by (simp add: c1_def)
    moreover have "cached ?c l = cached c1 l - has_label c1 (ceRecord e) l"
      using cached_mdel [OF cache_okD(1) [OF ok1(1)], of ?c k l] ok1(2) by (simp add: RemoveElement_def)
    moreover have "calls ?c = calls c1" by (simp add: RemoveElement_def)
    ultimately show ?thesis using has_label_identity [of c1 c] sc(1) by (simp add: drift_def same_cache_def)
  qed
  moreover have "identity ?c = identity c" "logQueue ?c = logQueue c" using sc by (simp_all add: RemoveElement_def same_cache_def)
  moreover have "cache_ok (call m ?c) = cache_ok ?c" for m using same_cache_ok [of ?c "call m ?c"] by simp
  ultimately show ?thesis using remove_ok(1,3) [OF ok1(1,2)] ok1(4) drift_call by (intro exI) auto
qed

lemma insert_new_ok:
  assumes ok: "collector_ok c" and n: "map_of (cache c) (flow_key f) = None" and r: "record_ok r"
  shows "\<exists>c'. insertLocked f r st s c = Inr c' \<and> result c c' (lru_seen DefaultCacheCapacity (flow_key f) (keys c)) (metrics_on s) (\<lambda>l. - has_label c r l)"
proof -
  let ?k = "flow_key f"
  have co: "cache_ok c" using ok by (simp add: collector_ok_def)
  have nk: "?k \<notin> set (keys c)" using keys_cache [OF co] n by simp
  have kl: "length (keys c) = length (cache c)" by (rule keys_length [OF co])
  obtain c1 where c1: "(if length (cache c) \<ge> DefaultCacheCapacity then evictOldest s c else Inr c) = Inr c1" "cache_ok c1"
    "keys c1 = (if length (cache c) \<ge> DefaultCacheCapacity then tl (keys c) else keys c)" "length (cache c1) < DefaultCacheCapacity"
    "identity c1 = identity c" "logQueue c1 = logQueue c" "map_of (cache c1) ?k = None" "metrics_on s \<longrightarrow> (\<forall>l. drift c1 l = drift c l)"
  proof (cases "length (cache c) \<ge> DefaultCacheCapacity")
    case True
    then have "cache c \<noteq> []" by (auto simp: DefaultCacheCapacity_def)
    from evict_ok [OF co this, of s ?k] obtain c' where c': "evictOldest s c = Inr c'" "cache_ok c'" "keys c' = tl (keys c)"
      "Suc (length (cache c')) = length (cache c)" "identity c' = identity c" "logQueue c' = logQueue c" "map_of (cache c') ?k = None"
      "metrics_on s \<longrightarrow> (\<forall>l. drift c' l = drift c l)" using n by blast
    then show ?thesis using True ok that [of c'] by (simp add: collector_ok_def)
  qed (use co n that in auto)
  let ?e = "\<lparr>ceRecord = r, ceFlow = f, ceElement = nextElement c1, observedStart = st\<rparr>"
  let ?c = "(PushBack ?k c1)\<lparr>cache := mput ?k ?e (cache c1)\<rparr>"
  note p = push_ok [OF c1(2,7), of ?e]
  have "insertLocked f r st s c = Inr ?c" using c1(1) n by (simp add: insertLocked_def Let_def)
  moreover have "drift ?c l = drift c l - has_label c r l" if "metrics_on s" for l
  proof -
    have "cached ?c l = cached c1 l + has_label c1 r l"
      using cached_mput [OF cache_okD(1) [OF c1(2)], of ?c ?k ?e l] c1(7) by (simp add: PushBack_def)
    moreover have "calls ?c = calls c1" by (simp add: PushBack_def)
    ultimately show ?thesis using that c1(8) has_label_identity [OF c1(5)] by (simp add: drift_def)
  qed
  moreover have "keys ?c = lru_seen DefaultCacheCapacity ?k (keys c)" using p(2) r c1(3) nk kl by (simp add: lru_seen_def)
  moreover have "collector_ok ?c" using p r c1(4,6) ok by (simp add: collector_ok_def PushBack_def)
  moreover have "identity ?c = identity c" using c1(5) by (simp add: PushBack_def)
  ultimately show ?thesis by (auto simp: result_def)
qed

lemma touch_ok:
  assumes ok: "collector_ok c" and e: "map_of (cache c) (flow_key f) = Some e" and r: "record_ok r"
  shows "result c (MoveToBack (ceElement e) (c\<lparr>cache := mput (flow_key f) (e\<lparr>ceFlow := f, ceRecord := r\<rparr>) (cache c)\<rparr>))
    (lru_seen DefaultCacheCapacity (flow_key f) (keys c)) True (\<lambda>l. has_label c (ceRecord e) l - has_label c r l)"
proof -
  let ?k = "flow_key f" and ?e = "e\<lparr>ceFlow := f, ceRecord := r\<rparr>"
  let ?c1 = "c\<lparr>cache := mput ?k ?e (cache c)\<rparr>"
  let ?c = "MoveToBack (ceElement e) ?c1"
  have co: "cache_ok c" using ok by (simp add: collector_ok_def)
  note u = entry_update [OF co e, of ?e]
  have c1: "cache_ok ?c1" "map_of (cache ?c1) ?k = Some ?e" "keys ?c1 = keys c" using u r by simp_all
  have m: "cache_ok ?c" "keys ?c = remove1 ?k (keys c) @ [?k]" using MoveToBack_ok [OF c1(1,2)] c1(3) by simp_all
  have s: "cache ?c = mput ?k ?e (cache c)" "identity ?c = identity c" "calls ?c = calls c" "logQueue ?c = logQueue c" by (simp_all add: MoveToBack_def)
  have "?k \<in> set (keys c)" using keys_cache [OF co] e by simp
  then have "keys ?c = lru_seen DefaultCacheCapacity ?k (keys c)" using m(2) by (simp add: lru_seen_def)
  moreover have "drift ?c l = drift c l + (has_label c (ceRecord e) l - has_label c r l)" for l
    using cached_mput [OF cache_okD(1) [OF co] s(2,1), of l] e s(3) by (simp add: drift_def)
  moreover have "collector_ok ?c" using m(1) u(3) r s ok by (simp add: collector_ok_def)
  ultimately show ?thesis using s(2) by (simp add: result_def)
qed

text \<open>Calls that leave the gauge alone, and the log queue.\<close>

lemma result_same:
  assumes "result c c1 ks on d" "same_cache c1 c2" "calls c2 = calls c1 @ cs" "\<forall>m\<in>set cs. neutral m" "length (logQueue c2) \<le> DefaultLogQueue"
  shows "result c c2 ks on d"
  using assms drift_same [OF assms(2,3,4)] same_cache_ok [OF assms(2)] by (auto simp: result_def collector_ok_def same_cache_def)

lemma result_call: "result c c1 ks on d \<Longrightarrow> neutral m \<Longrightarrow> result c (call m c1) ks on d"
  by (rule result_same [of _ c1 _ _ _ _ "[m]"]) (auto simp: result_def collector_ok_def)

lemma result_counters:
  assumes "result c c1 ks on d" "record_ok r"
  shows "\<exists>c2. addCountersLocked p f r c1 = Inr c2 \<and> result c c2 ks on d \<and> same_cache c1 c2 \<and> logQueue c2 = logQueue c1"
proof -
  obtain c2 cs where c2: "addCountersLocked p f r c1 = Inr c2" "same_cache c1 c2" "logQueue c2 = logQueue c1" "calls c2 = calls c1 @ cs"
    "\<forall>m\<in>set cs. (\<exists>l w. m = MAdd PacketsTotal l w \<or> m = MAdd BytesTotal l w \<or> m = MSet Accounting l 1)"
    using addCounters_ok [OF assms(2), of p f c1] by auto
  have "\<forall>m\<in>set cs. neutral m" using c2(5) by auto
  then show ?thesis using c2 result_same [OF assms(1) c2(2,4)] assms(1) by (auto simp: result_def collector_ok_def)
qed

lemma result_enqueue:
  assumes "result c c1 ks on d" "record_ok r"
  shows "\<exists>c2. enqueueLogLocked r e s allow c1 = Inr c2 \<and> result c c2 ks on d"
proof -
  obtain m where m: "compiledFilters_match (rsFilters s) (r\<lparr>rEvent := e\<rparr>) = Inr m" using filters_total [of "r\<lparr>rEvent := e\<rparr>"] assms(2) by auto
  have q: "length (logQueue c1) \<le> DefaultLogQueue" using assms(1) by (simp add: result_def collector_ok_def)
  obtain c2 cs where c2: "enqueueLogLocked r e s allow c1 = Inr c2" "same_cache c1 c2" "length (logQueue c2) \<le> DefaultLogQueue"
    "calls c2 = calls c1 @ cs" "\<forall>m\<in>set cs. \<exists>l. m = MInc LogDrops l"
    using enqueue_ok [OF m q, of allow] by auto
  have "\<forall>m\<in>set cs. neutral m" using c2(5) by auto
  then show ?thesis using c2 result_same [OF assms(1) c2(2,4)] by auto
qed

lemma result_inc:
  "result c c1 ks on d \<Longrightarrow> record_ok r \<Longrightarrow> \<exists>c2. flow_call (MInc ActiveFlows) r c1 = Inr c2 \<and> result c c2 ks on (\<lambda>l. d l + has_label c r l)"
  using drift_inc [of c1 r] has_label_identity [of c1 c] same_cache_ok [of c1 "call m c1" for m]
  by (auto simp: flow_call_ok result_def collector_ok_def)

lemma result_started:
  assumes "result c c1 ks on d" "record_ok r"
  shows "\<exists>c2. (if b then flow_call (MInc StartedFlows) r c1 else Inr c1) = Inr c2 \<and> result c c2 ks on d"
    "\<exists>c2. (if b then flow_call (MInc EndedFlows) r c1 else Inr c1) = Inr c2 \<and> result c c2 ks on d"
  using result_call [OF assms(1)] assms by (auto simp: flow_call_ok)

text \<open>Marking an entry as started changes neither its place nor its labels.\<close>

lemma result_mark:
  assumes "result c c1 ks on d" "map_of (cache c1) k = Some e"
  shows "result c (c1\<lparr>cache := mput k (e\<lparr>observedStart := True\<rparr>) (cache c1)\<rparr>) ks on d"
proof -
  let ?c = "c1\<lparr>cache := mput k (e\<lparr>observedStart := True\<rparr>) (cache c1)\<rparr>"
  have co: "cache_ok c1" using assms(1) by (simp add: result_def collector_ok_def)
  note u = entry_update [OF co assms(2), of "e\<lparr>observedStart := True\<rparr>"]
  have "record_ok (ceRecord e) \<and> flow_key (ceFlow e) = k" using cache_okD(6) [OF co assms(2)] .
  then have "cache_ok ?c" "keys ?c = keys c1" "length (cache ?c) = length (cache c1)" using u by simp_all
  moreover have "drift ?c l = drift c1 l" for l
    using cached_mput [OF cache_okD(1) [OF co], of ?c k _ l] assms(2) by (simp add: drift_def has_label_def)
  ultimately show ?thesis using assms(1) by (simp add: result_def collector_ok_def)
qed

definition label_change :: "collector \<Rightarrow> flowKey \<Rightarrow> flowRecord \<Rightarrow> string list \<Rightarrow> int" where
  "label_change c k r l = (case map_of (cache c) k of None \<Rightarrow> 0 | Some e \<Rightarrow> has_label c (ceRecord e) l - has_label c r l)"

lemma flow_seen_ok:
  assumes ok: "collector_ok c" and r: "record_ok r"
  shows "\<exists>c'. flow_seen t f r s s1 allow c = Inr c' \<and>
    result c c' (lru_seen DefaultCacheCapacity (flow_key f) (keys c)) (metrics_on (Some s) \<and> metrics_on s1) (label_change c (flow_key f) r)"
proof -
  let ?k = "flow_key f" and ?on = "metrics_on (Some s) \<and> metrics_on s1" and ?d = "label_change c (flow_key f) r"
  let ?ks = "lru_seen DefaultCacheCapacity ?k (keys c)"
  let ?ev = "\<lambda>c. call (MInc ConntrackEvents (identity_labels (identity c) @ [if t = EventNew then ''new'' else ''update''])) c"
  have finish: "\<exists>c'. and_then (if metrics_on (Some s) then flow_call (MInc StartedFlows) r c1 else Inr c1) (enqueueLogLocked r ''start'' s allow) = Inr c' \<and> result c c' ?ks ?on ?d"
    if "result c c1 ?ks ?on ?d" for c1
    using result_started(1) [OF that r, of "metrics_on (Some s)"] result_enqueue [OF _ r, of c _ ?ks ?on ?d "''start''" s allow] by fastforce
  show ?thesis
  proof (cases "map_of (cache c) ?k")
    case None
    obtain c1 where c1: "insertLocked f r (t = EventNew) s1 c = Inr c1" "result c c1 ?ks (metrics_on s1) (\<lambda>l. - has_label c r l)"
      using insert_new_ok [OF ok None r] by blast
    obtain c2 where c2: "(if metrics_on (Some s) then and_then (flow_call (MInc ActiveFlows) r c1) (addCountersLocked None f r) else Inr c1) = Inr c2"
      "result c c2 ?ks ?on ?d"
    proof (cases "metrics_on (Some s)")
      case True
      obtain c2 where i: "flow_call (MInc ActiveFlows) r c1 = Inr c2" "result c c2 ?ks (metrics_on s1) (\<lambda>l. - has_label c r l + has_label c r l)"
        using result_inc [OF c1(2) r] by blast
      obtain c3 where "addCountersLocked None f r c2 = Inr c3" "result c c3 ?ks (metrics_on s1) (\<lambda>l. - has_label c r l + has_label c r l)"
        using result_counters [OF i(2) r] by blast
      then show ?thesis using that [of c3] True i(1) None by (simp add: label_change_def result_def)
    next
      case False
      then show ?thesis using that [of c1] c1(2) by (simp add: result_def)
    qed
    have ev: "result c (?ev c2) ?ks ?on ?d" by (rule result_call [OF c2(2)]) simp
    show ?thesis
    proof (cases "t = EventNew")
      case True
      then show ?thesis using None c1(1) c2(1) finish [OF ev] by (simp add: flow_seen_def Let_def split del: if_split cong del: if_weak_cong)
    next
      case False
      then show ?thesis using None c1(1) c2(1) ev by (simp add: flow_seen_def Let_def split del: if_split cong del: if_weak_cong)
    qed
  next
    case (Some e)
    obtain c1 where c1: "(if metrics_on (Some s) then addCountersLocked (Some (ceFlow e)) f r c else Inr c) = Inr c1"
      "same_cache c c1" "logQueue c1 = logQueue c" "result c c1 (keys c) True (\<lambda>l. 0)"
      using result_counters [of c c "keys c" True "\<lambda>l. 0" r "Some (ceFlow e)" f] ok r by (cases "metrics_on (Some s)") (auto simp: result_def)
    have ok1: "collector_ok c1" using c1(4) by (simp add: result_def)
    have e1: "map_of (cache c1) ?k = Some e" using Some c1(2) by (simp add: same_cache_def)
    let ?c2 = "MoveToBack (ceElement e) (c1\<lparr>cache := mput ?k (e\<lparr>ceFlow := f, ceRecord := r\<rparr>) (cache c1)\<rparr>)"
    have t: "result c1 ?c2 (lru_seen DefaultCacheCapacity ?k (keys c1)) True (\<lambda>l. has_label c1 (ceRecord e) l - has_label c1 r l)" by (rule touch_ok [OF ok1 e1 r])
    then have c2: "result c ?c2 ?ks ?on ?d"
      using c1(4) has_label_identity [of c1 c] Some by (simp add: result_def label_change_def)
    have ev: "result c (?ev ?c2) ?ks ?on ?d" by (rule result_call [OF c2]) simp
    have m: "map_of (cache (?ev ?c2)) ?k = Some (e\<lparr>ceFlow := f, ceRecord := r\<rparr>)" by (simp add: MoveToBack_def)
    have mark: "result c ((?ev ?c2)\<lparr>cache := mput ?k (e\<lparr>ceFlow := f, ceRecord := r, observedStart := True\<rparr>) (cache (?ev ?c2))\<rparr>) ?ks ?on ?d"
      using result_mark [OF ev m] by simp
    show ?thesis
    proof (cases "t = EventNew \<and> \<not> observedStart e")
      case True
      then show ?thesis using Some c1(1) finish [OF mark] by (simp add: flow_seen_def Let_def split del: if_split cong del: if_weak_cong)
    next
      case False
      then show ?thesis using Some c1(1) ev by (auto simp add: flow_seen_def Let_def split del: if_split cong del: if_weak_cong)
    qed
  qed
qed

lemma flow_ended_ok:
  assumes ok: "collector_ok c" and r: "record_ok r"
  shows "\<exists>c'. flow_ended f r s allow c = Inr c' \<and> result c c' (remove1 (flow_key f) (keys c)) (metrics_on (Some s)) (\<lambda>l. 0)"
proof -
  let ?k = "flow_key f" and ?on = "metrics_on (Some s)"
  let ?ks = "remove1 ?k (keys c)" and ?c0 = "call (MInc ConntrackEvents (identity_labels (identity c) @ [''end''])) c"
  have co: "cache_ok c" using ok by (simp add: collector_ok_def)
  have finish: "\<exists>c'. and_then (if ?on then flow_call (MInc EndedFlows) r c1 else Inr c1) (enqueueLogLocked r ''end'' s allow) = Inr c' \<and> result c c' ?ks ?on (\<lambda>l. 0)"
    if "result c c1 ?ks ?on (\<lambda>l. 0)" for c1
    using result_started(2) [OF that r, of ?on] result_enqueue [OF _ r, of c _ ?ks ?on "\<lambda>l. 0" "''end''" s allow] by fastforce
  have r0: "result c ?c0 (keys c) True (\<lambda>l. 0)" using ok by (intro result_call) (simp_all add: result_def)
  show ?thesis
  proof (cases "map_of (cache c) ?k")
    case None
    then have "?ks = keys c" using keys_cache [OF co] by (simp add: remove1_idem)
    then have "result c ?c0 ?ks ?on (\<lambda>l. 0)" using r0 by (simp add: result_def)
    from finish [OF this] show ?thesis using None by (simp add: flow_ended_def Let_def split del: if_split cong del: if_weak_cong)
  next
    case (Some e)
    have re: "record_ok (ceRecord e)" using cache_okD(6) [OF co Some] by simp
    obtain c1 where c1: "(if ?on then and_then (addCountersLocked (Some (ceFlow e)) f r ?c0) (flow_call (MDec ActiveFlows) (ceRecord e)) else Inr ?c0) = Inr c1"
      "same_cache c c1" "logQueue c1 = logQueue c" "?on \<longrightarrow> (\<forall>l. drift c1 l = drift c l - has_label c (ceRecord e) l)"
    proof (cases ?on)
      case True
      obtain c2 where c2: "addCountersLocked (Some (ceFlow e)) f r ?c0 = Inr c2" "result c c2 (keys c) True (\<lambda>l. 0)" "same_cache ?c0 c2" "logQueue c2 = logQueue ?c0"
        using result_counters [OF r0 r] by blast
      let ?c3 = "call (MDec ActiveFlows (labels_of (identity c2) (ceRecord e))) c2"
      have "drift ?c3 l = drift c l - has_label c (ceRecord e) l" for l
        using drift_dec [of c2 "ceRecord e" l] c2(2) has_label_identity [of c2 c] by (simp add: result_def)
      moreover have "same_cache c ?c3" using c2(3) by (simp add: same_cache_def)
      ultimately show ?thesis using that [of ?c3] True c2 re by (simp add: flow_call_ok)
    next
      case False
      then show ?thesis using that [of ?c0] by simp
    qed
    have ok1: "cache_ok c1" "map_of (cache c1) ?k = Some e" "keys c1 = keys c" "cache c1 = cache c" "identity c1 = identity c"
      using same_cache_ok [OF c1(2)] co Some c1(2) by (simp_all add: same_cache_def)
    let ?c = "(RemoveElement (ceElement e) c1)\<lparr>cache := mdel ?k (cache c1)\<rparr>"
    note rm = remove_ok [OF ok1(1,2)]
    have "cached ?c l = cached c1 l - has_label c1 (ceRecord e) l" for l
      using cached_mdel [OF cache_okD(1) [OF ok1(1)], of ?c ?k l] ok1(2) by (simp add: RemoveElement_def)
    then have "?on \<longrightarrow> (\<forall>l. drift ?c l = drift c l)"
      using c1(4) cached_same [OF c1(2)] has_label_identity [OF ok1(5)] by (auto simp: drift_def RemoveElement_def)
    moreover have "collector_ok ?c" using rm ok ok1(4) c1(3) by (simp add: collector_ok_def RemoveElement_def)
    moreover have "identity ?c = identity c" using ok1(5) by (simp add: RemoveElement_def)
    ultimately have "result c ?c ?ks ?on (\<lambda>l. 0)" using rm(2) ok1(3) by (simp add: result_def)
    from finish [OF this] show ?thesis using Some c1(1) by (simp add: flow_ended_def Let_def split del: if_split cong del: if_weak_cong)
  qed
qed

section \<open>Least recently seen flows go first\<close>

definition lastn :: "nat \<Rightarrow> 'a list \<Rightarrow> 'a list" where
  "lastn n xs = drop (length xs - n) xs"

lemma remdups_snoc: "remdups (xs @ [k]) = filter (\<lambda>x. x \<noteq> k) (remdups xs) @ [k]"
  by (induction xs) auto

lemma filter_remove1: "distinct xs \<Longrightarrow> filter (\<lambda>x. x \<noteq> k) xs = remove1 k xs"
  by (simp add: distinct_remove1_removeAll removeAll_filter_not_eq)  (metis (mono_tags, lifting) filter_cong)

lemma lru_lastn:
  assumes d: "distinct m" and cap: "0 < cap"
  shows "lru_seen cap k (lastn cap m) = lastn cap (filter (\<lambda>x. x \<noteq> k) m @ [k])"
proof -
  define a where "a = take (length m - cap) m"
  define b where "b = lastn cap m"
  have m: "m = a @ b" by (simp add: a_def b_def lastn_def)
  have da: "distinct a" "distinct b" "set a \<inter> set b = {}" using d m by auto
  have len: "length b = min cap (length m)" by (simp add: b_def lastn_def)
  have an: "a \<noteq> [] \<Longrightarrow> length b = cap" using len by (auto simp: a_def)
  have f: "filter (\<lambda>x. x \<noteq> k) m = filter (\<lambda>x. x \<noteq> k) a @ filter (\<lambda>x. x \<noteq> k) b" by (simp add: m)
  have last: "lastn cap (xs @ ys @ [k]) = ys @ [k]" if "Suc (length ys) = cap \<or> xs = [] \<and> Suc (length ys) \<le> cap" for xs ys
    using that by (auto simp: lastn_def)
  show ?thesis
  proof (cases "k \<in> set b")
    case True
    then have "k \<notin> set a" using da(3) by blast
    then have fa: "filter (\<lambda>x. x \<noteq> k) a = a" by (auto simp: filter_id_conv)
    have fb: "filter (\<lambda>x. x \<noteq> k) b = remove1 k b" by (rule filter_remove1 [OF da(2)])
    have "Suc (length (remove1 k b)) = length b" using True length_pos_if_in_set [OF True] by (simp add: length_remove1)
    then have "lastn cap (a @ remove1 k b @ [k]) = remove1 k b @ [k]" using an len by (intro last) auto
    then show ?thesis using True f fa fb by (simp add: lru_seen_def b_def [symmetric])
  next
    case False
    then have fb: "filter (\<lambda>x. x \<noteq> k) b = b" by (auto simp: filter_id_conv)
    show ?thesis
    proof (cases "length b \<ge> cap")
      case True
      then have l: "length b = cap" using len by simp
      then obtain x xs where b: "b = x # xs" using cap by (cases b) auto
      have "lastn cap ((filter (\<lambda>x. x \<noteq> k) a @ [x]) @ xs @ [k]) = xs @ [k]" using b l by (intro last) auto
      then show ?thesis using False True f fb b by (simp add: lru_seen_def b_def [symmetric])
    next
      case short: False
      then have "a = []" using an by auto
      moreover have "lastn cap ([] @ b @ [k]) = b @ [k]" using short by (intro last) auto
      ultimately show ?thesis using False short f fb by (simp add: lru_seen_def b_def [symmetric])
    qed
  qed
qed

text \<open>
  A bounded store that keeps its keys by recency: what a client may rely on is that after any accesses the keys are
  the last distinct ones accessed.
\<close>

locale recency =
  fixes keys_of :: "'s \<Rightarrow> 'k list"
    and ok :: "'s \<Rightarrow> bool"
    and key :: "'e \<Rightarrow> 'k"
    and live :: "'e \<Rightarrow> bool"
    and step :: "'e \<Rightarrow> 's \<Rightarrow> 's"
    and cap :: nat
  assumes cap_pos: "0 < cap"
    and keys_distinct: "ok s \<Longrightarrow> distinct (keys_of s)"
    and keys_bound: "ok s \<Longrightarrow> length (keys_of s) \<le> cap"
    and step_ok: "ok s \<Longrightarrow> live e \<Longrightarrow> ok (step e s)"
    and step_keys: "ok s \<Longrightarrow> live e \<Longrightarrow> keys_of (step e s) = lru_seen cap (key e) (keys_of s)"
begin

lemma run_ok: "ok s \<Longrightarrow> \<forall>e\<in>set es. live e \<Longrightarrow> ok (fold step es s)"
  by (induction es arbitrary: s) (simp_all add: step_ok)

lemma run_keys: "ok s \<Longrightarrow> \<forall>e\<in>set es. live e \<Longrightarrow> keys_of (fold step es s) = lastn cap (remdups (keys_of s @ map key es))"
proof (induction es rule: rev_induct)
  case Nil
  then show ?case using keys_distinct keys_bound by (simp add: lastn_def distinct_remdups_id)
next
  case (snoc e es)
  then have "keys_of (fold step es s) = lastn cap (remdups (keys_of s @ map key es))" by simp
  moreover have "ok (fold step es s)" using snoc.prems by (intro run_ok) auto
  ultimately have "keys_of (fold step (es @ [e]) s) = lru_seen cap (key e) (lastn cap (remdups (keys_of s @ map key es)))"
    using snoc.prems step_keys by simp
  then show ?case using lru_lastn [OF distinct_remdups cap_pos] remdups_snoc [of "keys_of s @ map key es" "key e"] by simp
qed

end

section \<open>Events\<close>

definition nat_flow :: "Flow \<Rightarrow> bool" where
  "nat_flow f = (SrcNAT f \<or> DstNAT f \<or> original_of f \<noteq> translated_of f)"

lemma recordFromFlow_None: "recordFromFlow (Some f) stamp i = None \<longleftrightarrow> \<not> nat_flow f"
proof -
  have "original_of f = translated_of f \<longleftrightarrow> SourceIP (original_of f) = SourceIP (translated_of f) \<and> SourcePort (original_of f) = SourcePort (translated_of f) \<and>
    DestinationIP (original_of f) = DestinationIP (translated_of f) \<and> DestinationPort (original_of f) = DestinationPort (translated_of f)"
    by (auto simp: original_of_def translated_of_def)
  then show ?thesis unfolding recordFromFlow_def nat_flow_def option.case Let_def by auto
qed

lemma result_refl: "collector_ok c \<Longrightarrow> result c c (keys c) True (\<lambda>l. 0)"
  by (simp add: result_def)

lemma result_entries: "result c c1 ks on d \<Longrightarrow> result c (set_entries c1) ks on d"
  unfolding set_entries_def by (rule result_call) simp_all

text \<open>What an event does to the keys.\<close>

definition event_keys :: "Event \<Rightarrow> runtimeSettings option \<Rightarrow> flowKey list \<Rightarrow> flowKey list" where
  "event_keys ev s ks =
     (case evFlow ev of
        None \<Rightarrow> ks
      | Some f \<Rightarrow>
          if \<not> nat_flow f \<or> s = None then ks
          else (case evType ev of
                  EventDestroy \<Rightarrow> remove1 (flow_key f) ks
                | EventOther \<Rightarrow> ks
                | _ \<Rightarrow> lru_seen DefaultCacheCapacity (flow_key f) ks))"

text \<open>A cached flow keeps its labels when it is seen again.\<close>

definition labels_kept :: "Event \<Rightarrow> nat \<Rightarrow> collector \<Rightarrow> bool" where
  "labels_kept ev stamp c =
     (\<forall>f r e. evFlow ev = Some f \<longrightarrow> evType ev \<noteq> EventDestroy \<longrightarrow> recordFromFlow (Some f) stamp (identity c) = Some r \<longrightarrow>
        map_of (cache c) (flow_key f) = Some e \<longrightarrow> labels_of (identity c) r = labels_of (identity c) (ceRecord e))"

lemma processEvent_ok:
  assumes ok: "collector_ok c"
  shows "\<exists>c'. processEvent ev stamp s s1 allow c = Inr c' \<and>
    result c c' (event_keys ev s (keys c)) (metrics_on s \<and> metrics_on s1 \<and> labels_kept ev stamp c) (\<lambda>l. 0)"
proof (cases "\<exists>f r st. evFlow ev = Some f \<and> recordFromFlow (Some f) stamp (identity c) = Some r \<and> s = Some st")
  case False
  then consider "evFlow ev = None" | f where "evFlow ev = Some f" "recordFromFlow (Some f) stamp (identity c) = None"
    | f r where "evFlow ev = Some f" "recordFromFlow (Some f) stamp (identity c) = Some r" "s = None" by (metis not_Some_eq)
  then have "processEvent ev stamp s s1 allow c = Inr c \<and> event_keys ev s (keys c) = keys c"
  proof cases
    case (2 f)
    then have "\<not> nat_flow f" using recordFromFlow_None by blast
    then show ?thesis using 2 by (simp add: processEvent_def event_keys_def)
  qed (simp_all add: processEvent_def event_keys_def)
  then show ?thesis using result_refl [OF ok] by (simp add: result_def)
next
  case True
  then obtain f r st where f: "evFlow ev = Some f" "recordFromFlow (Some f) stamp (identity c) = Some r" "s = Some st" by blast
  have r: "record_ok r" by (rule recordFromFlow_ok [OF f(2)])
  have nf: "nat_flow f" using recordFromFlow_None [of f stamp "identity c"] f(2) by auto
  let ?on = "metrics_on s \<and> metrics_on s1 \<and> labels_kept ev stamp c"
  have "\<exists>c1. (case evType ev of EventDestroy \<Rightarrow> flow_ended f r st allow c | EventOther \<Rightarrow> Inr c | t \<Rightarrow> flow_seen t f r st s1 allow c) = Inr c1 \<and>
    result c c1 (event_keys ev s (keys c)) ?on (\<lambda>l. 0)"
  proof (cases "evType ev = EventNew \<or> evType ev = EventUpdate")
    case True
    obtain c1 where c1: "flow_seen (evType ev) f r st s1 allow c = Inr c1"
      "result c c1 (lru_seen DefaultCacheCapacity (flow_key f) (keys c)) (metrics_on (Some st) \<and> metrics_on s1) (label_change c (flow_key f) r)"
      using flow_seen_ok [OF ok r] by blast
    have "label_change c (flow_key f) r l = 0" if "labels_kept ev stamp c" for l
      using that f True by (auto simp: labels_kept_def label_change_def has_label_def split: option.splits)
    then have "result c c1 (event_keys ev s (keys c)) ?on (\<lambda>l. 0)" using c1(2) f nf True by (auto simp: result_def event_keys_def)
    then show ?thesis using c1(1) True by auto
  next
    case other: False
    show ?thesis
    proof (cases "evType ev = EventDestroy")
      case True
      then show ?thesis using flow_ended_ok [OF ok r, of f st allow] f nf by (auto simp: result_def event_keys_def)
    next
      case False
      then have "evType ev = EventOther" using other by (cases "evType ev") auto
      then show ?thesis using result_refl [OF ok] f nf by (simp add: result_def event_keys_def)
    qed
  qed
  then obtain c1 where c1: "(case evType ev of EventDestroy \<Rightarrow> flow_ended f r st allow c | EventOther \<Rightarrow> Inr c | t \<Rightarrow> flow_seen t f r st s1 allow c) = Inr c1"
    "result c c1 (event_keys ev s (keys c)) ?on (\<lambda>l. 0)" by blast
  have "processEvent ev stamp s s1 allow c = Inr (set_entries c1)" using f c1(1) by (simp add: processEvent_def)
  then show ?thesis using result_entries [OF c1(2)] by blast
qed

section \<open>The dump\<close>

definition dump_keys :: "(Flow \<times> nat \<times> runtimeSettings option) list \<Rightarrow> flowKey list" where
  "dump_keys flows = map (\<lambda>x. flow_key (fst x)) (filter (\<lambda>x. nat_flow (fst x)) flows)"

text \<open>A flow of the dump that is cached already is moved; the gauge counts it again.\<close>

lemma insert_ok:
  assumes ok: "collector_ok c" and r: "record_ok r"
  shows "\<exists>c'. insertLocked f r st s c = Inr c' \<and>
    result c c' (lru_seen DefaultCacheCapacity (flow_key f) (keys c)) (metrics_on s \<and> map_of (cache c) (flow_key f) = None) (\<lambda>l. - has_label c r l)"
proof (cases "map_of (cache c) (flow_key f)")
  case None
  then show ?thesis using insert_new_ok [OF ok None r] by auto
next
  case (Some e)
  then show ?thesis using touch_ok [OF ok Some r] by (auto simp: insertLocked_def Let_def result_def)
qed

lemma result_trans:
  "result a b ks on d \<Longrightarrow> result b c ks' on' (\<lambda>l. 0) \<Longrightarrow> result a c ks' (on \<and> on') d"
  by (simp add: result_def)

lemma lru_seen_subset: "set (lru_seen cap k ks) \<subseteq> insert k (set ks)"
  by (cases ks) (auto simp: lru_seen_def dest: notin_set_remove1 split: if_splits)

definition dump_apply :: "flowKey list \<Rightarrow> flowKey list \<Rightarrow> flowKey list" where
  "dump_apply new ks = fold (lru_seen DefaultCacheCapacity) new ks"

lemma initialize_flows_ok:
  "collector_ok c \<Longrightarrow> \<exists>c'. initialize_flows s flows c = Inr c' \<and>
     result c c' (dump_apply (dump_keys flows) (keys c))
       (metrics_on s \<and> (\<forall>x\<in>set flows. metrics_on (snd (snd x))) \<and> distinct (dump_keys flows) \<and> set (dump_keys flows) \<inter> set (keys c) = {}) (\<lambda>l. 0)"
proof (induction s flows c rule: initialize_flows.induct)
  case (1 s c)
  then show ?case using result_refl [of c] by (simp add: dump_keys_def dump_apply_def result_def)
next
  case (2 s f stamp s1 flows c)
  show ?case
  proof (cases "recordFromFlow (Some f) stamp (identity c)")
    case None
    then have nf: "\<not> nat_flow f" using recordFromFlow_None by blast
    obtain c' where c': "initialize_flows s flows c = Inr c'" "result c c' (dump_apply (dump_keys flows) (keys c))
       (metrics_on s \<and> (\<forall>x\<in>set flows. metrics_on (snd (snd x))) \<and> distinct (dump_keys flows) \<and> set (dump_keys flows) \<inter> set (keys c) = {}) (\<lambda>l. 0)"
      using 2(1) [OF None 2(3)] by blast
    have k: "dump_keys ((f, stamp, s1) # flows) = dump_keys flows" using nf by (simp add: dump_keys_def)
    have "initialize_flows s ((f, stamp, s1) # flows) c = Inr c'" using c'(1) None by simp
    then show ?thesis using c'(2) unfolding k result_def by auto
  next
    case (Some r)
    let ?k = "flow_key f"
    have r: "record_ok r" by (rule recordFromFlow_ok [OF Some])
    have nf: "nat_flow f" using recordFromFlow_None [of f stamp "identity c"] Some by auto
    have co: "cache_ok c" using 2(3) by (simp add: collector_ok_def)
    let ?ks = "lru_seen DefaultCacheCapacity ?k (keys c)" and ?n = "metrics_on s1 \<and> map_of (cache c) ?k = None"
    obtain c1 where c1: "insertLocked f r False s1 c = Inr c1" "result c c1 ?ks ?n (\<lambda>l. - has_label c r l)" using insert_ok [OF 2(3) r] by blast
    obtain c2 where c2: "(if metrics_on s then and_then (flow_call (MInc ActiveFlows) r c1) (addCountersLocked None f r) else Inr c1) = Inr c2"
      "result c c2 ?ks (metrics_on s \<and> ?n) (\<lambda>l. 0)"
    proof (cases "metrics_on s")
      case True
      obtain c3 where c3: "flow_call (MInc ActiveFlows) r c1 = Inr c3" "result c c3 ?ks ?n (\<lambda>l. - has_label c r l + has_label c r l)"
        using result_inc [OF c1(2) r] by blast
      obtain c4 where "addCountersLocked None f r c3 = Inr c4" "result c c4 ?ks ?n (\<lambda>l. - has_label c r l + has_label c r l)"
        using result_counters [OF c3(2) r] by blast
      then show ?thesis using that [of c4] True c3(1) by (simp add: result_def)
    next
      case False
      then show ?thesis using that [of c1] c1(2) by (simp add: result_def)
    qed
    have ok2: "collector_ok c2" "keys c2 = ?ks" using c2(2) by (simp_all add: result_def)
    have ih: "\<exists>c'. initialize_flows s flows c2 = Inr c' \<and> result c2 c' (dump_apply (dump_keys flows) (keys c2))
       (metrics_on s \<and> (\<forall>x\<in>set flows. metrics_on (snd (snd x))) \<and> distinct (dump_keys flows) \<and> set (dump_keys flows) \<inter> set (keys c2) = {}) (\<lambda>l. 0)"
      using 2(2) [OF Some ok2(1)] by blast
    then obtain c' where c': "initialize_flows s flows c2 = Inr c'" "result c2 c' (dump_apply (dump_keys flows) (keys c2))
       (metrics_on s \<and> (\<forall>x\<in>set flows. metrics_on (snd (snd x))) \<and> distinct (dump_keys flows) \<and> set (dump_keys flows) \<inter> set (keys c2) = {}) (\<lambda>l. 0)" by blast
    have k: "dump_keys ((f, stamp, s1) # flows) = ?k # dump_keys flows" using nf by (simp add: dump_keys_def)
    have on: "?n \<and> set (dump_keys flows) \<inter> set (keys c2) = {}"
      if "metrics_on s1" "distinct (?k # dump_keys flows)" "set (?k # dump_keys flows) \<inter> set (keys c) = {}"
      using that lru_seen_subset [of DefaultCacheCapacity ?k "keys c"] keys_cache [OF co, of ?k] unfolding ok2(2) by auto
    have "initialize_flows s ((f, stamp, s1) # flows) c = Inr c'"
      using Some c1(1) c2(1) c'(1) by (simp split del: if_split)
    moreover have "dump_apply (dump_keys flows) (keys c2) = dump_apply (?k # dump_keys flows) (keys c)" by (simp add: dump_apply_def ok2(2))
    ultimately show ?thesis using result_trans [OF c2(2) c'(2)] on unfolding k result_def by auto
  qed
qed

lemma resetLocked_ok: "length (logQueue c) \<le> DefaultLogQueue \<Longrightarrow> collector_ok (resetLocked c)"
  by (simp add: resetLocked_def collector_ok_def cache_ok_def keys_def call_def)

lemma reset_simps [simp]:
  "keys (resetLocked c) = []" "cache (resetLocked c) = []" "identity (resetLocked c) = identity c" "logQueue (resetLocked c) = logQueue c" "drift (resetLocked c) l = 0"
  by (simp_all add: resetLocked_def keys_def drift_def cached_def gauge_append)

lemma initialize_ok:
  assumes "length (logQueue c) \<le> DefaultLogQueue"
  shows "\<exists>c'. initialize s flows c = Inr c' \<and> collector_ok c' \<and> identity c' = identity c \<and> keys c' = dump_apply (dump_keys flows) [] \<and>
    (metrics_on s \<and> (\<forall>x\<in>set flows. metrics_on (snd (snd x))) \<and> distinct (dump_keys flows) \<longrightarrow> (\<forall>l. drift c' l = 0))"
proof -
  obtain c1 where c1: "initialize_flows s flows (resetLocked c) = Inr c1" "result (resetLocked c) c1 (dump_apply (dump_keys flows) [])
       (metrics_on s \<and> (\<forall>x\<in>set flows. metrics_on (snd (snd x))) \<and> distinct (dump_keys flows)) (\<lambda>l. 0)"
    using initialize_flows_ok [OF resetLocked_ok [OF assms], of s flows] by auto
  have "initialize s flows c = Inr (set_entries c1)" using c1(1) by (simp add: initialize_def)
  moreover note result_entries [OF c1(2)]
  ultimately show ?thesis by (auto simp: result_def)
qed

end
