(* ===== verification/ObserverFilterProps.thy ===== *)
theory ObserverFilterProps
  imports ObserverFlow BfddControlProps
begin

text \<open>
  What the filters select: addresses read back from their texts, the reference meaning of rules, and the compiled
  filters against it.
\<close>

section \<open>Addresses read back\<close>

definition addr_ok :: "Addr \<Rightarrow> bool" where
  "addr_ok a = (azone a = [] \<and> length (abytes a) = 16 \<and> (abits a = 32 \<and> take 12 (abytes a) = v4InV6Prefix \<or> abits a = 128))"

lemma four_bytes: "length (xs :: 'a list) = 4 \<Longrightarrow> \<exists>a b c d. xs = [a, b, c, d]"
  by (cases xs; cases "tl xs"; cases "tl (tl xs)"; cases "tl (tl (tl xs))") auto

lemma parse_v6_mapped:
  assumes "length bs = 4"
  shows "parse_v6 (''::ffff:'' @ v4_string bs) = Some (replicate 5 0 @ 65535 # groups16 bs)"
proof -
  obtain a b c d where bs: "bs = [a, b, c, d]" using four_bytes [OF assms] by auto
  let ?s = "v4_string bs"
  have p: "parse_v4 ?s = Some (map unat bs)" using parse_v4_string [of bs] assms by simp
  have s: "?s = dec (unat a) @ CHR ''.'' # (dec (unat b) @ ''.'' @ dec (unat c) @ ''.'' @ dec (unat d))"
    by (simp add: v4_string_def bs)
  have hex: "\<forall>x\<in>set (dec (unat a)). is_hex x" using dec_digits [of "unat a"] by (auto simp: list_all_iff is_hex_def is_digit_def Let_def)
  have len: "length (dec (unat a)) \<le> 4"
  proof -
    have "unat a div 10 div 10 < 10" using unat_byte_less [of a] by linarith
    then show ?thesis by (subst dec.simps, simp, subst dec.simps, simp, subst dec.simps, simp)
  qed
  have tw: "takeWhile is_hex ?s = dec (unat a)" "dropWhile is_hex ?s = CHR ''.'' # (dec (unat b) @ ''.'' @ dec (unat c) @ ''.'' @ dec (unat d))"
    using hex unfolding s by (simp_all add: takeWhile_append2 dropWhile_append2)
  have l: "v6_loop (Suc 6) ?s [65535] (Some 0) = Some ([], 65535 # groups16 bs, Some 0)"
    unfolding v6_loop.simps(2) Let_def tw p using len by (simp add: bs)
  have h: "hexs 65535 = ''ffff''" by code_simp
  have "is_digit (hd (dec (unat a)))" using dec_digits [of "unat a"] dec_nonempty [of "unat a"] by (cases "dec (unat a)") auto
  then have "hd ?s \<noteq> CHR '':''" unfolding s by (cases "dec (unat a)") (auto simp: dec_nonempty)
  moreover have "?s \<noteq> []" unfolding s by simp
  ultimately have "v6_loop (Suc 7) (''ffff:'' @ ?s) [] (Some 0) = v6_loop 7 ?s [65535] (Some 0)"
    using v6_loop_colon [of 65535 ?s 7 "[]" "Some 0"] unfolding h by simp
  moreover have "Suc 6 = 7" "Suc 7 = 8" by simp_all
  ultimately have "v6_loop 8 (''ffff:'' @ ?s) [] (Some 0) = Some ([], 65535 # groups16 bs, Some 0)" using l by metis
  then show ?thesis by (simp add: parse_v6_def bs)
qed

lemma parse_addr_mapped:
  assumes "length bs = 4"
  shows "parse_addr (''::ffff:'' @ v4_string bs) = Some (v4InV6Prefix @ bs, 128)"
proof -
  have "CHR ''%'' \<notin> set (v4_string bs)" using v4_string_chars [of "CHR ''%''" bs] by auto
  moreover have "groups_bytes (replicate 5 0 @ [65535]) = v4InV6Prefix" by code_simp
  then have "groups_bytes (replicate 5 0 @ 65535 # groups16 bs) = v4InV6Prefix @ bs"
    using groups_bytes_groups16 [of bs] assms by (simp add: groups_bytes_def)
  ultimately show ?thesis using parse_v6_mapped [OF assms] by (simp add: parse_addr_def)
qed

lemma ParseAddr_String:
  assumes a: "addr_ok a"
  shows "ParseAddr (Addr_String a) = Some a"
proof -
  let ?bs = "abytes a"
  have z: "azone a = []" and l: "length ?bs = 16" "length (drop 12 ?bs) = 4" using a by (simp_all add: addr_ok_def)
  have v4: "CHR ''%'' \<notin> set (v4_string bs)" for bs using v4_string_chars [of "CHR ''%''" bs] by auto
  have split: "?bs = v4InV6Prefix @ drop 12 ?bs" if "take 12 ?bs = v4InV6Prefix" using that append_take_drop_id [of 12 ?bs] by simp
  consider (four) "abits a = 32" "take 12 ?bs = v4InV6Prefix" | (mapped) "abits a = 128" "take 12 ?bs = v4InV6Prefix"
    | (six) "abits a = 128" "take 12 ?bs \<noteq> v4InV6Prefix" using a by (auto simp: addr_ok_def)
  then have "CHR ''%'' \<notin> set (Addr_String a) \<and> parse_addr (Addr_String a) = Some (?bs, abits a)"
  proof cases
    case four
    then show ?thesis using parse_addr_v4_string [OF l(2)] split z v4 by (simp add: Addr_String_def Is4_def)
  next
    case mapped
    then show ?thesis using parse_addr_mapped [OF l(2)] split z v4 by (simp add: Addr_String_def Is4_def)
  next
    case six
    have "parse_addr (v6_string (groups16 ?bs)) = Some (groups_bytes (groups16 ?bs), 128)"
      using l by (intro parse_addr_v6_string) (auto simp: length_groups16 groups16_bound)
    moreover have "CHR ''%'' \<notin> set (v6_string (groups16 ?bs))" using v6_string_chars [of "CHR ''%''" "groups16 ?bs"] by auto
    ultimately show ?thesis using six z l by (simp add: Addr_String_def Is4_def groups_bytes_groups16)
  qed
  then show ?thesis using ParseAddr_parse_addr [of "Addr_String a"] z by simp
qed

lemma Addr_String_inj: "addr_ok a \<Longrightarrow> addr_ok b \<Longrightarrow> Addr_String a = Addr_String b \<longleftrightarrow> a = b"
  by (metis ParseAddr_String option.inject)

section \<open>What a filter selects\<close>

text \<open>
  The reference: which flows a rule admits, on addresses and numbers. A network in the text of a rule is the interval of
  the addresses of its family with the same leading bits.
\<close>

definition network_of :: "Prefix \<Rightarrow> nat set" where
  "network_of p =
     (let size = 2 ^ (abits (pAddr p) - pBits p); low = be_nat (abytes (pAddr p)) div size * size in {low..<low + size})"

definition cidr_holds :: "string \<Rightarrow> Addr \<Rightarrow> bool" where
  "cidr_holds raw a = (\<exists>p. ParsePrefix raw = Some p \<and> abits (pAddr p) = abits a \<and> be_nat (abytes a) \<in> network_of p)"

definition port_in :: "VpcEgressGatewayPortRange list \<Rightarrow> 16 word \<Rightarrow> bool" where
  "port_in rs port = (rs = [] \<or> (\<exists>r\<in>set rs. sint (rangeStart r) \<le> uint port \<and> uint port \<le> sint (rangeEnd r)))"

definition addr_in :: "string list \<Rightarrow> Addr \<Rightarrow> bool" where
  "addr_in raws a = (raws = [] \<or> (\<exists>raw\<in>set raws. cidr_holds raw a))"

definition tuple_admits :: "VpcEgressGatewayConntrackTupleFilter \<Rightarrow> Addr \<Rightarrow> 16 word \<Rightarrow> Addr \<Rightarrow> 16 word \<Rightarrow> bool" where
  "tuple_admits t src sport dst dport =
     (addr_in (SourceCIDRs t) src \<and> addr_in (DestinationCIDRs t) dst \<and> port_in (SourcePorts t) sport \<and> port_in (DestinationPorts t) dport)"

text \<open>The source of a flow is translated when the connection says so, or when the replies go to another place than the requests come from.\<close>

definition source_translated :: "Flow \<Rightarrow> bool" where
  "source_translated f =
     (SrcNAT f \<or> SourceAddress (tIP (TupleOrig f)) \<noteq> DestinationAddress (tIP (TupleReply f)) \<or>
      protoSourcePort (tProto (TupleOrig f)) \<noteq> protoDestinationPort (tProto (TupleReply f)))"

definition destination_translated :: "Flow \<Rightarrow> bool" where
  "destination_translated f =
     (DstNAT f \<or> DestinationAddress (tIP (TupleOrig f)) \<noteq> SourceAddress (tIP (TupleReply f)) \<or>
      protoDestinationPort (tProto (TupleOrig f)) \<noteq> protoSourcePort (tProto (TupleReply f)))"

definition nat_admits :: "string list \<Rightarrow> Flow \<Rightarrow> bool" where
  "nat_admits ts f =
     (ts = [] \<or> ''snat'' \<in> set ts \<and> source_translated f \<or> ''dnat'' \<in> set ts \<and> destination_translated f \<or>
      ''snat_dnat'' \<in> set ts \<and> source_translated f \<and> destination_translated f)"

definition rule_admits :: "VpcEgressGatewayConntrackLogFilter \<Rightarrow> Flow \<Rightarrow> bool" where
  "rule_admits rule f =
     ((AddressFamilies rule = [] \<or> (if Is4 (SourceAddress (tIP (TupleOrig f))) then ''ipv4'' else ''ipv6'') \<in> set (AddressFamilies rule)) \<and>
      (Protocols rule = [] \<or> protocolName (ProtocolNo (tProto (TupleOrig f))) \<in> set (Protocols rule)) \<and>
      nat_admits (NatTypes rule) f \<and>
      tuple_admits (fOriginal rule) (SourceAddress (tIP (TupleOrig f))) (protoSourcePort (tProto (TupleOrig f)))
        (DestinationAddress (tIP (TupleOrig f))) (protoDestinationPort (tProto (TupleOrig f))) \<and>
      tuple_admits (fTranslated rule) (DestinationAddress (tIP (TupleReply f))) (protoDestinationPort (tProto (TupleReply f)))
        (SourceAddress (tIP (TupleReply f))) (protoSourcePort (tProto (TupleReply f))))"

definition selected :: "VpcEgressGatewayConntrackLogFilters \<Rightarrow> Flow \<Rightarrow> bool" where
  "selected filters f =
     (\<not> (\<exists>rule\<in>set (Exclude filters). rule_admits rule f) \<and>
      (Include filters = [] \<or> (\<exists>rule\<in>set (Include filters). rule_admits rule f)))"

definition flow_ok :: "Flow \<Rightarrow> bool" where
  "flow_ok f =
     (addr_ok (SourceAddress (tIP (TupleOrig f))) \<and> addr_ok (DestinationAddress (tIP (TupleOrig f))) \<and>
      addr_ok (SourceAddress (tIP (TupleReply f))) \<and> addr_ok (DestinationAddress (tIP (TupleReply f))))"

section \<open>The compiled filters select the same\<close>

lemma ParseAddr_shape: "ParseAddr s = Some a \<Longrightarrow> length (abytes a) = 16 \<and> (abits a = 32 \<or> abits a = 128)"
proof -
  assume p: "ParseAddr s = Some a"
  have b: "length (groups_bytes gs) = 16" if "length gs = 8" for gs
    using that by (auto simp: groups_bytes_def length_concat comp_def sum_list_triv)
  have v: "length fs = 4" if "parse_v4 t = Some fs" for t fs using that by (auto simp: parse_v4_def Let_def split: if_splits)
  have w: "length v4InV6Prefix = 12" by (simp add: v4InV6Prefix_def)
  consider fs where "parse_v4 s = Some fs" "a = \<lparr>abytes = v4InV6Prefix @ map word_of_nat fs, abits = 32, azone = []\<rparr>"
    | t z gs where "parse_v6 t = Some gs" "a = \<lparr>abytes = groups_bytes gs, abits = 128, azone = z\<rparr>"
    using p unfolding ParseAddr_def by (auto split: option.split_asm if_split_asm prod.split_asm)
  then show ?thesis
  proof cases
    case (1 fs)
    then show ?thesis using v [OF 1(1)] w by simp
  next
    case (2 t z gs)
    then show ?thesis using b [OF parse_v6_length [OF 2(1)]] by simp
  qed
qed

lemma div_interval: "0 < m \<Longrightarrow> (n :: nat) div m = k div m \<longleftrightarrow> n \<in> {k div m * m..<k div m * m + m}"
proof -
  assume m: "0 < m"
  have "n div m = q \<longleftrightarrow> q * m \<le> n \<and> n < q * m + m" for q
  proof
    assume "n div m = q"
    then show "q * m \<le> n \<and> n < q * m + m" using dividend_less_div_times [OF m, of n] div_times_less_eq_dividend [of n m] by (simp add: add.commute)
  next
    assume "q * m \<le> n \<and> n < q * m + m"
    then show "n div m = q" by (intro div_nat_eqI) (simp_all add: algebra_simps)
  qed
  then show ?thesis by simp
qed

lemma Contains_Masked:
  assumes p: "ParsePrefix raw = Some p" and a: "addr_ok a"
  shows "Contains (Masked p) a \<longleftrightarrow> abits (pAddr p) = abits a \<and> be_nat (abytes a) \<in> network_of p"
proof -
  let ?n = "be_nat (abytes (pAddr p))" and ?m = "2 ^ (abits (pAddr p) - pBits p) :: nat"
  obtain s where "ParseAddr s = Some (pAddr p)" using p by (auto simp: ParsePrefix_def Let_def split: option.splits if_splits prod.splits)
  then have l: "length (abytes (pAddr p)) = 16" using ParseAddr_shape by blast
  have "?n - ?n mod ?m < 256 ^ 16" using be_nat_less [of "abytes (pAddr p)"] l by simp
  then have "be_nat (be_fixed 16 (?n - ?n mod ?m)) = ?n - ?n mod ?m" by (simp add: be_nat_be_fixed)
  moreover have "(?n - ?n mod ?m) div ?m = ?n div ?m" by (simp add: minus_mod_eq_div_mult)
  ultimately have "Contains (Masked p) a \<longleftrightarrow> abits (pAddr p) = abits a \<and> ?n div ?m = be_nat (abytes a) div ?m"
    using a unfolding Contains_def Masked_def Let_def addr_ok_def by auto
  then show ?thesis using div_interval [of ?m "be_nat (abytes a)" ?n] unfolding network_of_def Let_def by auto
qed

lemma compileCIDRs_holds:
  "compileCIDRs kind raws = Inr ps \<Longrightarrow> addr_ok a \<Longrightarrow> list_ex (\<lambda>p. Contains p a) ps \<longleftrightarrow> (\<exists>raw\<in>set raws. cidr_holds raw a)"
proof (induction raws arbitrary: ps)
  case (Cons raw raws)
  then obtain p qs where "ParsePrefix raw = Some p" "compileCIDRs kind raws = Inr qs" "ps = Masked p # qs"
    by (auto split: option.splits sum.splits)
  then show ?case using Cons Contains_Masked [of raw p a] by (auto simp: cidr_holds_def)
qed simp

lemma compileCIDRs_empty: "compileCIDRs kind raws = Inr ps \<Longrightarrow> ps = [] \<longleftrightarrow> raws = []"
  by (cases raws) (auto split: option.splits sum.splits)

lemma matchAddress_holds:
  "compileCIDRs kind raws = Inr ps \<Longrightarrow> addr_ok a \<Longrightarrow> matchAddress ps (Addr_String a) \<longleftrightarrow> addr_in raws a"
  using compileCIDRs_holds [of kind raws ps a] compileCIDRs_empty [of kind raws ps]
  by (auto simp: matchAddress_def ParseAddr_String matchCIDRs_def addr_in_def)

lemma sint_port: "sint (ucast (port :: 16 word) :: 32 word) = uint port"
proof -
  have l: "uint port < 65536" using uint_lt2p [of port] by simp
  then have "uint port < 2 ^ 31" by simp
  moreover have "- (2 ^ 31) \<le> uint port" by (rule order_trans [of _ 0]) simp_all
  ultimately have "signed_take_bit 31 (uint port) = uint port" by (intro signed_take_bit_int_eq_self)
  moreover have "uint (ucast port :: 32 word) = uint port" using l by (simp add: unsigned_ucast_eq take_bit_int_eq_self)
  ultimately show ?thesis by (simp add: sint_uint)
qed

lemma matchPorts_in: "matchPorts rs port \<longleftrightarrow> port_in rs port"
  by (auto simp: matchPorts_def port_in_def sint_port list_ex_iff)


lemma compileTuple_admits:
  assumes "compileTuple t = Inr ct" "addr_ok src" "addr_ok dst"
  shows "compiledTuple_match ct \<lparr>SourceIP = Addr_String src, SourcePort = sp, DestinationIP = Addr_String dst, DestinationPort = dp\<rparr> \<longleftrightarrow>
    tuple_admits t src sp dst dp"
  using assms matchAddress_holds
  by (auto simp: compileTuple_def compiledTuple_match_def tuple_admits_def matchPorts_in split: sum.splits)

lemma sort_nat_types: "sort_strings [ObservabilityNatTypeSNAT, ObservabilityNatTypeDNAT] = [ObservabilityNatTypeDNAT, ObservabilityNatTypeSNAT]"
  "sort_strings [x] = [x]"
  by (simp_all add: sort_strings_def ObservabilityNatTypeSNAT_def ObservabilityNatTypeDNAT_def)

text \<open>The translations of a record: those of its flow, in the order of their names.\<close>

definition nat_types :: "Flow \<Rightarrow> string list" where
  "nat_types f = (if destination_translated f then [''dnat''] else []) @ (if source_translated f then [''snat''] else [])"

lemma recordFromFlow_flow:
  assumes "flow_ok f" "recordFromFlow (Some f) stamp i = Some r"
  shows "NatType r = nat_types f" "nat_types f \<noteq> []" "Original r = original_of f" "Translated r = translated_of f"
    "AddressFamily r = (if Is4 (SourceAddress (tIP (TupleOrig f))) then ''ipv4'' else ''ipv6'')"
    "rProtocol r = protocolName (ProtocolNo (tProto (TupleOrig f)))"
    "ConntrackID r = flowID f" "rZone r = flowZone f"
proof -
  have s: "(SrcNAT f \<or> SourceIP (original_of f) \<noteq> SourceIP (translated_of f) \<or> SourcePort (original_of f) \<noteq> SourcePort (translated_of f)) = source_translated f"
    "(DstNAT f \<or> DestinationIP (original_of f) \<noteq> DestinationIP (translated_of f) \<or> DestinationPort (original_of f) \<noteq> DestinationPort (translated_of f)) = destination_translated f"
    using assms(1) by (auto simp: original_of_def translated_of_def source_translated_def destination_translated_def flow_ok_def Addr_String_inj)
  show "NatType r = nat_types f" "nat_types f \<noteq> []" "Original r = original_of f" "Translated r = translated_of f"
    "AddressFamily r = (if Is4 (SourceAddress (tIP (TupleOrig f))) then ''ipv4'' else ''ipv6'')"
    "rProtocol r = protocolName (ProtocolNo (tProto (TupleOrig f)))" "ConntrackID r = flowID f" "rZone r = flowZone f"
    using assms(2) unfolding recordFromFlow_def option.simps Let_def s
    by (auto simp: nat_types_def sort_nat_types ObservabilityNatTypeSNAT_def ObservabilityNatTypeDNAT_def
        ObservabilityAddressFamilyIPv4_def ObservabilityAddressFamilyIPv6_def
        sort_nat_types [unfolded ObservabilityNatTypeSNAT_def ObservabilityNatTypeDNAT_def] split: if_splits)
qed

lemma matchNatTypes_admits:
  "nat_types f \<noteq> [] \<Longrightarrow> matchNatTypes (stringSet ts) (nat_types f) = Inr (nat_admits ts f)"
  by (auto simp: matchNatTypes_def stringSet_def nat_admits_def nat_types_def metricNatType_def ObservabilityNatTypeSNATDNAT_def)

definition record_of_flow :: "Flow \<Rightarrow> flowRecord \<Rightarrow> bool" where
  "record_of_flow f r = (\<exists>stamp i e r0. recordFromFlow (Some f) stamp i = Some r0 \<and> r = r0\<lparr>rEvent := e\<rparr>)"

lemma compiledRule_admits:
  assumes "flow_ok f" "record_of_flow f r" "compileTuple (fOriginal rule) = Inr o1" "compileTuple (fTranslated rule) = Inr t1"
  shows "compiledRule_match \<lparr>addressFamilies = stringSet (AddressFamilies rule), protocols = stringSet (Protocols rule),
      natTypeSet = stringSet (NatTypes rule), original = o1, translated = t1\<rparr> r = Inr (rule_admits rule f)"
proof -
  obtain stamp i e r0 where r: "recordFromFlow (Some f) stamp i = Some r0" "r = r0\<lparr>rEvent := e\<rparr>" using assms(2) by (auto simp: record_of_flow_def)
  note f = recordFromFlow_flow [OF assms(1) r(1)]
  have a: "addr_ok (SourceAddress (tIP (TupleOrig f)))" "addr_ok (DestinationAddress (tIP (TupleOrig f)))"
    "addr_ok (SourceAddress (tIP (TupleReply f)))" "addr_ok (DestinationAddress (tIP (TupleReply f)))" using assms(1) by (simp_all add: flow_ok_def)
  show ?thesis using f matchNatTypes_admits [OF f(2)] compileTuple_admits [OF assms(3) a(1,2)] compileTuple_admits [OF assms(4) a(4,3)]
    by (auto simp: compiledRule_match_def rule_admits_def r(2) matchesString_def stringSet_def original_of_def translated_of_def)
qed

lemma compileRules_any:
  "compileRules rules = Inr rs \<Longrightarrow> flow_ok f \<Longrightarrow> record_of_flow f r \<Longrightarrow> any_match rs r = Inr (\<exists>rule\<in>set rules. rule_admits rule f) \<and> (rs = [] \<longleftrightarrow> rules = [])"
proof (induction rules arbitrary: rs)
  case (Cons rule rules)
  then obtain o1 t1 qs where q: "compileTuple (fOriginal rule) = Inr o1" "compileTuple (fTranslated rule) = Inr t1" "compileRules rules = Inr qs"
    "rs = \<lparr>addressFamilies = stringSet (AddressFamilies rule), protocols = stringSet (Protocols rule),
      natTypeSet = stringSet (NatTypes rule), original = o1, translated = t1\<rparr> # qs"
    by (auto split: sum.splits)
  show ?case using Cons.IH [OF q(3) Cons.prems(2,3)] compiledRule_admits [OF Cons.prems(2,3) q(1,2)] q(4) by auto
qed simp

end
