(* ===== verification/ObserverProps.thy ===== *)
theory ObserverProps
  imports ObserverCollectorInv ObserverFilterProps
begin

text \<open>
  The properties of the observer: the cache in every reachable state, eviction, gauges, records and reloads.
\<close>

section \<open>Filters\<close>

text \<open>C16.
  The compiled log filters of the observer mean what the configured rules mean: for the record of any
  flow with well-formed addresses, whatever its event, the filters answer without a panic, and they accept it exactly when no
  exclude rule admits the flow and, unless there is no include rule, some include rule does. A rule admits a flow by its family,
  protocol and kind of translation, by the networks its addresses lie in, and by its port ranges, before and after translation.\<close>

theorem filters_select:
  assumes "compileFilters filters = Inr cf" "flow_ok f" "recordFromFlow (Some f) stamp i = Some r"
  shows "compiledFilters_match cf (r\<lparr>rEvent := e\<rparr>) = Inr (selected filters f)"
proof -
  have r: "record_of_flow f (r\<lparr>rEvent := e\<rparr>)" using assms(3) by (auto simp: record_of_flow_def)
  obtain inc exc where c: "compileRules (Include filters) = Inr inc" "compileRules (Exclude filters) = Inr exc" "cf = \<lparr>includeRules = inc, excludeRules = exc\<rparr>"
    using assms(1) by (auto simp: compileFilters_def split: sum.splits)
  show ?thesis using compileRules_any [OF c(1) assms(2) r] compileRules_any [OF c(2) assms(2) r] c(3)
    by (auto simp: compiledFilters_match_def selected_def)
qed

section \<open>Runs of the collector\<close>

text \<open>
  The steps of the collector and of the writer of the log, in any order, with any settings, clocks and answers of the
  limiter. What a session does besides is to set a metric.
\<close>

definition aside :: "mcall \<Rightarrow> bool" where
  "aside m = ((\<exists>l n. m = MSet CollectorUp l n) \<or> (\<exists>l. m = MInc Errors l))"

inductive observing :: "observerIdentity \<Rightarrow> collector \<Rightarrow> bool" for i where
  start: "observing i (newConntrackCollector i)"
| dump: "observing i c \<Longrightarrow> initialize s flows c = Inr c' \<Longrightarrow> observing i c'"
| event: "observing i c \<Longrightarrow> processEvent ev stamp s s1 allow c = Inr c' \<Longrightarrow> observing i c'"
| clear: "observing i c \<Longrightarrow> observing i (collector_clear c)"
| reset: "observing i c \<Longrightarrow> observing i (resetDomainMetrics c)"
| written: "observing i c \<Longrightarrow> observing i (writeFlowLogs w c)"
| noted: "observing i c \<Longrightarrow> aside m \<Longrightarrow> observing i (call m c)"

lemma resetDomain_same: "same_cache c (resetDomainMetrics c)" "logQueue (resetDomainMetrics c) = logQueue c"
  by (simp_all add: resetDomainMetrics_def same_cache_def)

lemma write_same: "same_cache c (writeFlowLogs w c)" "length (logQueue (writeFlowLogs w c)) \<le> length (logQueue c)"
  by (simp_all add: writeFlowLogs_def same_cache_def split: list.splits)

lemma collector_ok_same: "collector_ok c \<Longrightarrow> same_cache c c' \<Longrightarrow> length (logQueue c') \<le> length (logQueue c) \<Longrightarrow> collector_ok c' \<and> identity c' = identity c"
  using same_cache_ok [of c c'] by (auto simp: collector_ok_def same_cache_def)

lemma observing_ok: "observing i c \<Longrightarrow> collector_ok c \<and> identity c = i"
proof (induction rule: observing.induct)
  case start
  then show ?case by (simp add: newConntrackCollector_def collector_ok_def cache_ok_def keys_def call_def)
next
  case (dump c s flows c')
  then show ?case using initialize_ok [of c s flows] by (auto simp: collector_ok_def)
next
  case (event c ev stamp s s1 allow c')
  then show ?case using processEvent_ok [of c ev stamp s s1 allow] by (auto simp: result_def)
next
  case (clear c)
  then show ?case using resetLocked_ok [of c] by (simp add: collector_clear_def collector_ok_def)
next
  case (reset c)
  then show ?case using collector_ok_same [OF _ resetDomain_same(1)] resetDomain_same(2) [of c] by simp
next
  case (written c w)
  then show ?case using collector_ok_same [OF _ write_same(1) write_same(2)] by simp
next
  case (noted c m)
  then show ?case using collector_ok_same [of c "call m c"] by simp
qed

text \<open>A session is made of these steps.\<close>

lemma session_loop_observing: "observing i c \<Longrightarrow> session_loop on ins c = Inr (c', out) \<Longrightarrow> observing i c'"
proof (induction on ins c rule: session_loop.induct)
  case (3 on settings "is" c)
  then show ?case by (auto intro: observing.intros split: if_splits)
next
  case (7 on ev stamp s s1 allow "is" c)
  then show ?case by (auto intro: observing.intros split: sum.splits)
qed (auto intro: observing.intros split: option.splits)

lemma observing_diagnostic: "observing i c \<Longrightarrow> observing i (writeDiagnostic k ok c)"
  unfolding writeDiagnostic_def by (auto intro: observing.noted simp: aside_def)

lemma runSession_observing: "observing i c \<Longrightarrow> runSession env ins c = Inr (c', out) \<Longrightarrow> observing i c'"
proof -
  assume c: "observing i c" and r: "runSession env ins c = Inr (c', out)"
  have fin: "observing i d' " if "and_then x (\<lambda>r. Inr (close_session env r)) = Inr (d', out')" "\<And>d o'. x = Inr (d, o') \<Longrightarrow> observing i d" for x d' out'
    using that by (cases x) (auto simp: close_session_def split: prod.splits outcome.splits)
  have dump: "observing i d'" if d: "observing i d" and a: "after_dump env ins d = Inr (d', o')" for d d' o'
  proof -
    consider "d' = d" | flows d1 s where "initialize (seInitSettings env) flows d = Inr d1" "seSettings env = Some s"
      "session_loop (conntrackMetricsEnabled (rsConfig s)) ins (call (MSet CollectorUp (identity_labels (identity d1) @ [''conntrack'']) 1) d1) = Inr (d', o')"
      using a by (auto simp: after_dump_def and_then_Inr split: sum.splits option.splits)
    then show ?thesis
    proof cases
      case (2 flows d1 s)
      have "observing i d1" by (rule observing.dump [OF d 2(1)])
      then have "observing i (call (MSet CollectorUp (identity_labels (identity d1) @ [''conntrack'']) 1) d1)" by (rule observing.noted) (auto simp: aside_def)
      then show ?thesis using 2(3) by (rule session_loop_observing)
    qed (use d in simp)
  qed
  let ?c0 = "if seReadBuffer env then c else writeDiagnostic ''conntrack'' (seDiagnostic env) (call (MInc Errors (identity_labels (identity c) @ [''conntrack'', ''set_read_buffer''])) c)"
  have "observing i (call (MInc Errors l) c)" for l by (rule observing.noted [OF c]) (simp add: aside_def)
  then have c0: "observing i ?c0" using c by (simp add: observing_diagnostic)
  show ?thesis
  proof (cases "seDial env")
    case (Some e)
    then show ?thesis using r c by (simp add: runSession_def)
  next
    case None
    show ?thesis using r None unfolding runSession_def Let_def option.case
      by (rule_tac fin) (auto split: option.splits intro: c0 dump)
  qed
qed

text \<open>C15.
  The flow cache of the observer is sound in every state its collector can reach, in whatever order dumps, events, clears and
  the writer of the log come, and whatever settings are loaded: its identity is fixed, it holds at most 65536
  flows and the log queue at most 4096 records, the order list has every cached flow exactly once and each entry points to the
  element of its own key, an entry is stored under the key of its flow, and neither an event nor a dump makes it panic.\<close>

theorem observer_cache_sound:
  assumes "observing i c"
  shows "length (cache c) \<le> 65536 \<and> length (logQueue c) \<le> 4096 \<and> distinct (map snd (order c)) \<and>
    set (map snd (order c)) = dom (map_of (cache c)) \<and>
    (\<forall>k e. map_of (cache c) k = Some e \<longrightarrow> (ceElement e, k) \<in> set (order c) \<and> (flowZone (ceFlow e), flowID (ceFlow e)) = k) \<and>
    (\<exists>c'. processEvent ev stamp s s1 allow c = Inr c') \<and> (\<exists>c'. initialize s flows c = Inr c')"
proof (intro conjI allI impI)
  have ok: "collector_ok c" and co: "cache_ok c" using observing_ok [OF assms] by (auto simp: collector_ok_def)
  show "length (cache c) \<le> 65536" "length (logQueue c) \<le> 4096" using ok by (simp_all add: collector_ok_def DefaultCacheCapacity_def DefaultLogQueue_def)
  show "distinct (map snd (order c))" using cache_okD(3) [OF co] by (simp add: keys_def)
  show "set (map snd (order c)) = dom (map_of (cache c))" using keys_cache [OF co] unfolding keys_def dom_def by blast
  show "\<exists>c'. processEvent ev stamp s s1 allow c = Inr c'" using processEvent_ok [OF ok] by blast
  show "\<exists>c'. initialize s flows c = Inr c'" using initialize_ok [of c s flows] ok by (auto simp: collector_ok_def)
  fix k e
  assume "map_of (cache c) k = Some e"
  then show "(ceElement e, k) \<in> set (order c)" "(flowZone (ceFlow e), flowID (ceFlow e)) = k" using cache_okD(5,6) [OF co] by (metis flow_key_def)+
qed

section \<open>The most recent flows\<close>

record sighting =
  sgType :: EventType
  sgFlow :: Flow
  sgStamp :: nat
  sgSettings :: runtimeSettings
  sgLoaded :: "runtimeSettings option"
  sgAllow :: bool

definition sighted :: "sighting \<Rightarrow> bool" where
  "sighted x = ((sgType x = EventNew \<or> sgType x = EventUpdate) \<and> nat_flow (sgFlow x))"

definition sight :: "sighting \<Rightarrow> collector \<Rightarrow> error + collector" where
  "sight x c = processEvent \<lparr>evType = sgType x, evFlow = Some (sgFlow x)\<rparr> (sgStamp x) (Some (sgSettings x)) (sgLoaded x) (sgAllow x) c"

definition sight_step :: "sighting \<Rightarrow> collector \<Rightarrow> collector" where
  "sight_step x c = (case sight x c of Inl _ \<Rightarrow> c | Inr c' \<Rightarrow> c')"

fun sight_all :: "sighting list \<Rightarrow> collector \<Rightarrow> error + collector" where
  "sight_all [] c = Inr c"
| "sight_all (x # xs) c = and_then (sight x c) (sight_all xs)"

lemma sight_ok:
  assumes "collector_ok c" "sighted x"
  shows "sight x c = Inr (sight_step x c)" "collector_ok (sight_step x c)"
    "keys (sight_step x c) = lru_seen DefaultCacheCapacity (flow_key (sgFlow x)) (keys c)"
proof -
  obtain c' where c': "sight x c = Inr c'" "collector_ok c'" "keys c' = event_keys \<lparr>evType = sgType x, evFlow = Some (sgFlow x)\<rparr> (Some (sgSettings x)) (keys c)"
    using processEvent_ok [OF assms(1)] unfolding sight_def result_def by blast
  then show "sight x c = Inr (sight_step x c)" "collector_ok (sight_step x c)" by (simp_all add: sight_step_def)
  show "keys (sight_step x c) = lru_seen DefaultCacheCapacity (flow_key (sgFlow x)) (keys c)"
    using c' assms(2) by (auto simp: sight_step_def event_keys_def sighted_def)
qed

interpretation flows: recency keys collector_ok "\<lambda>x. flow_key (sgFlow x)" sighted sight_step DefaultCacheCapacity
proof
  show "0 < DefaultCacheCapacity" by (simp add: DefaultCacheCapacity_def)
next
  fix c :: collector
  assume "collector_ok c"
  then show "distinct (keys c)" "length (keys c) \<le> DefaultCacheCapacity"
    using cache_okD(3) [of c] keys_length [of c] by (auto simp: collector_ok_def)
qed (simp_all add: sight_ok)

lemma sight_all_fold: "collector_ok c \<Longrightarrow> \<forall>x\<in>set xs. sighted x \<Longrightarrow> sight_all xs c = Inr (fold sight_step xs c)"
  by (induction xs arbitrary: c) (simp_all add: sight_ok)

text \<open>C17.
  The cache evicts the least recently seen flows: after any sequence of new and update events of translated flows, the order list of
  the collector is exactly the last 65536 distinct keys of its list before followed by those of the events.\<close>

theorem observer_keeps_recent:
  assumes "observing i c" "\<forall>x\<in>set xs. sighted x"
  shows "\<exists>c'. sight_all xs c = Inr c' \<and>
    map snd (order c') = lastn 65536 (remdups (map snd (order c) @ map (\<lambda>x. (flowZone (sgFlow x), flowID (sgFlow x))) xs))"
proof -
  have ok: "collector_ok c" using observing_ok [OF assms(1)] by simp
  have "map snd (order (fold sight_step xs c)) = lastn 65536 (remdups (map snd (order c) @ map (\<lambda>x. (flowZone (sgFlow x), flowID (sgFlow x))) xs))"
    using flows.run_keys [OF ok assms(2)] by (simp add: keys_def flow_key_def DefaultCacheCapacity_def)
  then show ?thesis using sight_all_fold [OF ok assms(2)] by simp
qed

section \<open>Gauges\<close>

text \<open>Runs with metrics on from the dump: the dump lists a flow once, and a cached flow keeps its labels.\<close>

inductive metered :: "observerIdentity \<Rightarrow> collector \<Rightarrow> bool" for i where
  dump: "observing i c \<Longrightarrow> initialize s flows c = Inr c' \<Longrightarrow> metrics_on s \<Longrightarrow> \<forall>x\<in>set flows. metrics_on (snd (snd x)) \<Longrightarrow>
     distinct (dump_keys flows) \<Longrightarrow> metered i c'"
| event: "metered i c \<Longrightarrow> processEvent ev stamp s s1 allow c = Inr c' \<Longrightarrow> metrics_on s \<Longrightarrow> metrics_on s1 \<Longrightarrow> labels_kept ev stamp c \<Longrightarrow> metered i c'"
| written: "metered i c \<Longrightarrow> metered i (writeFlowLogs w c)"

text \<open>The last value a gauge was set to.\<close>

fun shown :: "metric \<Rightarrow> mcall list \<Rightarrow> nat option" where
  "shown g [] = None"
| "shown g (MSet h l n # cs) = (case shown g cs of Some m \<Rightarrow> Some m | None \<Rightarrow> if h = g then Some n else None)"
| "shown g (m # cs) = shown g cs"

lemma shown_snoc: "shown g (cs @ [m]) = (case m of MSet h l n \<Rightarrow> if h = g then Some n else shown g cs | _ \<Rightarrow> shown g cs)"
  by (induction g cs rule: shown.induct) (auto split: mcall.splits option.splits)

lemma shown_entries: "shown CacheEntries (calls (set_entries c)) = Some (length (cache (set_entries c)))"
  by (simp add: set_entries_def shown_snoc)

lemma processEvent_shape: "processEvent ev stamp s s1 allow c = Inr c' \<Longrightarrow> c' = c \<or> (\<exists>c1. c' = set_entries c1)"
  by (auto simp: processEvent_def and_then_Inr split: option.splits)

lemma metered_observing: "metered i c \<Longrightarrow> observing i c"
  by (induction rule: metered.induct) (auto intro: observing.intros)

lemma write_gauges: "drift (writeFlowLogs w c) l = drift c l" "shown CacheEntries (calls (writeFlowLogs w c)) = shown CacheEntries (calls c)"
  "cache (writeFlowLogs w c) = cache c"
  using gauge_neutral [of "[MInc LogRecords x]" "calls c" l for x] gauge_neutral [of "[MInc LogDrops x]" "calls c" l for x]
  by (auto simp: writeFlowLogs_def drift_def cached_def shown_snoc split: list.splits)

lemma metered_gauges: "metered i c \<Longrightarrow> (\<forall>l. drift c l = 0) \<and> shown CacheEntries (calls c) = Some (length (cache c))"
proof (induction rule: metered.induct)
  case (dump c s flows c')
  have q: "length (logQueue c) \<le> DefaultLogQueue" using observing_ok [OF dump(1)] by (simp add: collector_ok_def)
  have "\<forall>l. drift c' l = 0" using initialize_ok [OF q, of s flows] dump by auto
  moreover obtain c1 where "c' = set_entries c1" using dump(2) by (auto simp: initialize_def and_then_Inr)
  ultimately show ?case using shown_entries by simp
next
  case (event c ev stamp s s1 allow c')
  have "collector_ok c" using observing_ok [OF metered_observing [OF event(1)]] by simp
  then have "\<forall>l. drift c' l = drift c l" using processEvent_ok [of c ev stamp s s1 allow] event by (auto simp: result_def)
  then show ?case using event.IH processEvent_shape [OF event(2)] shown_entries by auto
next
  case (written c w)
  then show ?case using write_gauges by simp
qed

text \<open>C18.
  While metrics are on, the gauges of the observer tell the truth: after a dump without repeated flows and any events in which a cached flow keeps its
  labels, with records written at any time, the gauge of active flows shows for every list of labels exactly the number of
  cached flows with these labels, and the gauge of cache entries the size of the cache.\<close>

theorem observer_gauges_exact:
  assumes "metered i c"
  shows "gauge (calls c) l = int (length (filter (\<lambda>(k, e). flowLabels i (ceRecord e) = Inr l) (cache c))) \<and>
    shown CacheEntries (calls c) = Some (length (cache c))"
proof -
  have ok: "cache_ok c" and i: "identity c = i" using observing_ok [OF metered_observing [OF assms]] by (auto simp: collector_ok_def)
  have "flowLabels i (ceRecord e) = Inr l \<longleftrightarrow> labels_of i (ceRecord e) = l" if "(k, e) \<in> set (cache c)" for k e
  proof -
    have "map_of (cache c) k = Some e" using that cache_okD(1) [OF ok] by (simp add: mwf_map_of_iff)
    then have "record_ok (ceRecord e)" using cache_okD(6) [OF ok] by blast
    then show ?thesis by (simp add: flowLabels_of)
  qed
  then have "filter (\<lambda>(k, e). flowLabels i (ceRecord e) = Inr l) (cache c) = filter (\<lambda>p. labels_of i (ceRecord (snd p)) = l) (cache c)"
    by (intro filter_cong) auto
  then show ?thesis using metered_gauges [OF assms] i by (simp add: drift_def cached_def)
qed

section \<open>Records\<close>

text \<open>C33.
  The record of a flow is well formed: a flow has a record exactly when its source or destination is translated; its
  kinds of translation are those of the flow, in the order of their names, its family and protocol are among the documented
  ones, its labels are seven strings, and the label for the translation is one of the three of the metrics.\<close>

theorem flow_record_typed:
  assumes "flow_ok f"
  shows "case recordFromFlow (Some f) stamp i of
      None \<Rightarrow> \<not> source_translated f \<and> \<not> destination_translated f
    | Some r \<Rightarrow>
        NatType r = (if destination_translated f then [''dnat''] else []) @ (if source_translated f then [''snat''] else []) \<and>
        NatType r \<noteq> [] \<and> AddressFamily r \<in> {''ipv4'', ''ipv6''} \<and> rProtocol r \<in> {''tcp'', ''udp'', ''sctp'', ''icmp'', ''icmpv6'', ''other''} \<and>
        (\<exists>t. metricNatType (NatType r) = Inr t \<and> t \<in> {''snat'', ''dnat'', ''snat_dnat''} \<and>
          flowLabels i r = Inr [idNamespace i, idName i, idPod i, idNode i, AddressFamily r, rProtocol r, t])"
proof (cases "recordFromFlow (Some f) stamp i")
  case None
  have "\<not> nat_flow f" using None recordFromFlow_None by blast
  then have "\<not> source_translated f \<and> \<not> destination_translated f"
    using assms by (auto simp: nat_flow_def source_translated_def destination_translated_def original_of_def translated_of_def flow_ok_def Addr_String_inj)
  then show ?thesis using None by simp
next
  case (Some r)
  note f = recordFromFlow_flow [OF assms Some]
  have "\<exists>t. metricNatType (nat_types f) = Inr t \<and> t \<in> {''snat'', ''dnat'', ''snat_dnat''}"
    using f(2) by (auto simp: metricNatType_def nat_types_def ObservabilityNatTypeSNATDNAT_def split: if_splits)
  then obtain t where t: "metricNatType (nat_types f) = Inr t" "t \<in> {''snat'', ''dnat'', ''snat_dnat''}" by blast
  have "flowLabels i r = Inr [idNamespace i, idName i, idPod i, idNode i, AddressFamily r, rProtocol r, t]"
    using t f(1) by (simp add: flowLabels_def identity_labels_def)
  moreover have "rProtocol r \<in> {''tcp'', ''udp'', ''sctp'', ''icmp'', ''icmpv6'', ''other''}" using f(6) by (simp add: protocolName_def)
  ultimately show ?thesis using Some f(1,2,5) t by (auto simp: nat_types_def)
qed

section \<open>Reloading\<close>

inductive reloads :: "(Config \<Rightarrow> error + 'h) \<Rightarrow> observerIdentity \<Rightarrow> 'h reloader \<Rightarrow> bool" for configHash i where
  begun: "run_start file pod node = Inr (i, st, cs) \<Longrightarrow> reloads configHash i (reload_start configHash zero i diag st cs)"
| tick: "reloads configHash i s \<Longrightarrow> reloads configHash i (reload_tick configHash i diag file s)"

definition in_force :: "observerIdentity \<Rightarrow> runtimeSettings \<Rightarrow> bool" where
  "in_force i st = (settings_for (rsConfig st) = Inr st \<and> identity_matches i (rsConfig st) \<and> cfgExternalNetwork (rsConfig st) \<noteq> [])"

lemma settings_for_config: "settings_for cfg = Inr st \<Longrightarrow> rsConfig st = cfg"
  by (auto simp: settings_for_def split: sum.splits)

lemma reloads_in_force: "reloads configHash i s \<Longrightarrow> in_force i (rlSettings s)"
proof (induction rule: reloads.induct)
  case (begun fl pod node st cs zero diag)
  have "in_force i st" using begun
    by (auto simp: run_start_def loadConfig_def in_force_def identity_matches_def Let_def dest: settings_for_config split: sum.splits if_splits)
  then show ?case by (simp add: reload_start_def reload_error_def split: sum.splits)
next
  case (tick s diag fl)
  then show ?case
    by (auto simp: reload_tick_def reload_error_def loadConfig_def in_force_def dest: settings_for_config split: sum.splits if_splits)
qed

text \<open>C32.
  Settings change as a whole or not at all: whatever the file of the observer holds at each tick, the settings in force are those of one configuration that
  was read, with its own filters compiled and its own rate limit, for the gateway the observer was started for. A
  configuration that cannot be read or decoded, names another gateway or has a filter that does not compile leaves them as they are.\<close>

theorem reload_atomic:
  assumes "reloads configHash i s"
  shows "settings_for (rsConfig (rlSettings s)) = Inr (rlSettings s) \<and> identity_matches i (rsConfig (rlSettings s)) \<and>
    (rlSettings (reload_tick configHash i diag file s) = rlSettings s \<or>
     (\<exists>cfg. file = Inr cfg \<and> cfgNamespace cfg = idNamespace i \<and> cfgName cfg = idName i \<and> settings_for cfg = Inr (rlSettings (reload_tick configHash i diag file s)))) \<and>
    (\<forall>cfg e. file = Inl e \<or> file = Inr cfg \<and> (\<not> identity_matches i cfg \<or> compileFilters (logFilters (conntrackLog cfg)) = Inl e) \<longrightarrow>
       rlSettings (reload_tick configHash i diag file s) = rlSettings s)"
proof (intro conjI allI impI)
  have f: "in_force i (rlSettings s)" by (rule reloads_in_force [OF assms])
  show "settings_for (rsConfig (rlSettings s)) = Inr (rlSettings s)" "identity_matches i (rsConfig (rlSettings s))" using f by (simp_all add: in_force_def)
  show "rlSettings (reload_tick configHash i diag file s) = rlSettings s \<or>
     (\<exists>cfg. file = Inr cfg \<and> cfgNamespace cfg = idNamespace i \<and> cfgName cfg = idName i \<and> settings_for cfg = Inr (rlSettings (reload_tick configHash i diag file s)))"
    by (auto simp: reload_tick_def reload_error_def loadConfig_def identity_matches_def split: sum.splits if_splits)
  fix cfg e
  assume "file = Inl e \<or> file = Inr cfg \<and> (\<not> identity_matches i cfg \<or> compileFilters (logFilters (conntrackLog cfg)) = Inl e)"
  then show "rlSettings (reload_tick configHash i diag file s) = rlSettings s"
    by (auto simp: reload_tick_def reload_error_def loadConfig_def settings_for_def split: sum.splits if_splits)
qed

section \<open>A gateway\<close>

definition veg_addr :: "byte \<Rightarrow> byte \<Rightarrow> byte \<Rightarrow> byte \<Rightarrow> Addr" where
  "veg_addr a b c d = \<lparr>abytes = v4InV6Prefix @ [a, b, c, d], abits = 32, azone = []\<rparr>"

definition veg_flow :: "32 word \<Rightarrow> bool \<Rightarrow> Flow" where
  "veg_flow n dst =
     \<lparr>flowID = n, flowZone = 0, SrcNAT = True, DstNAT = dst,
      TupleOrig = \<lparr>tIP = \<lparr>SourceAddress = veg_addr 10 0 0 5, DestinationAddress = veg_addr 8 8 8 8\<rparr>,
                   tProto = \<lparr>ProtocolNo = 17, protoSourcePort = 1000, protoDestinationPort = 53\<rparr>\<rparr>,
      TupleReply = \<lparr>tIP = \<lparr>SourceAddress = veg_addr 8 8 8 8, DestinationAddress = veg_addr 1 2 3 4\<rparr>,
                    tProto = \<lparr>ProtocolNo = 17, protoSourcePort = 53, protoDestinationPort = 2000\<rparr>\<rparr>,
      CountersOrig = \<lparr>Packets = 3, Bytes = 180\<rparr>, CountersReply = \<lparr>Packets = 2, Bytes = 300\<rparr>\<rparr>"

definition veg_filters :: VpcEgressGatewayConntrackLogFilters where
  "veg_filters =
     \<lparr>Include = [\<lparr>AddressFamilies = [''ipv4''], Protocols = [''udp'', ''tcp''], NatTypes = [''snat''],
         fOriginal = \<lparr>SourceCIDRs = [''10.0.0.7/8''], DestinationCIDRs = [], SourcePorts = [], DestinationPorts = [\<lparr>rangeStart = 50, rangeEnd = 60\<rparr>]\<rparr>,
         fTranslated = \<lparr>SourceCIDRs = [''1.2.3.4/32''], DestinationCIDRs = [], SourcePorts = [], DestinationPorts = []\<rparr>\<rparr>],
      Exclude = []\<rparr>"

definition veg_config :: Config where
  "veg_config =
     \<lparr>cfgNamespace = ''ns'', cfgName = ''gw'', cfgExternalNetwork = ''ext'', interfaceMetricsEnabled = True, conntrackMetricsEnabled = True,
      conntrackLog = \<lparr>logEnabled = True, logEvents = [], logRateLimit = \<lparr>RecordsPerSecond = 0, Burst = 0\<rparr>, logFilters = veg_filters\<rparr>\<rparr>"

definition veg_identity :: observerIdentity where
  "veg_identity = \<lparr>idNamespace = ''ns'', idName = ''gw'', idPod = ''p'', idNode = ''n''\<rparr>"

definition veg_compiled :: compiledFilters where
  "veg_compiled = projr (compileFilters veg_filters)"

definition veg_settings :: runtimeSettings where
  "veg_settings = projr (settings_for veg_config)"

definition veg_record :: "Flow \<Rightarrow> flowRecord" where
  "veg_record f = the (recordFromFlow (Some f) 0 veg_identity)"

definition veg_dump :: "Flow list \<Rightarrow> collector" where
  "veg_dump fs = projr (initialize (Some veg_settings) (map (\<lambda>f. (f, 0, Some veg_settings)) fs) (newConntrackCollector veg_identity))"

lemma veg_flow_ok: "flow_ok (veg_flow n dst)"
  by (simp add: flow_ok_def veg_flow_def addr_ok_def veg_addr_def v4InV6Prefix_def)

lemma veg_compiles: "compileFilters veg_filters = Inr veg_compiled"
  by code_simp

lemma veg_settings_for: "settings_for veg_config = Inr veg_settings"
  by code_simp

lemma veg_has_record: "recordFromFlow (Some (veg_flow 7 False)) 0 veg_identity = Some (veg_record (veg_flow 7 False))"
  by code_simp

theorem filters_select_witness:
  "compileFilters veg_filters = Inr veg_compiled \<and> flow_ok (veg_flow 7 False) \<and>
   compiledFilters_match veg_compiled (veg_record (veg_flow 7 False)\<lparr>rEvent := ''start''\<rparr>) = Inr True \<and> selected veg_filters (veg_flow 7 False)"
proof -
  have "compiledFilters_match veg_compiled (veg_record (veg_flow 7 False)\<lparr>rEvent := ''start''\<rparr>) = Inr True" by code_simp
  then show ?thesis using filters_select [OF veg_compiles veg_flow_ok veg_has_record, of "''start''"] veg_compiles veg_flow_ok by simp
qed

theorem flow_record_typed_witness:
  "flow_ok (veg_flow 7 False) \<and> recordFromFlow (Some (veg_flow 7 False)) 0 veg_identity = Some (veg_record (veg_flow 7 False)) \<and>
   source_translated (veg_flow 7 False) \<and> rProtocol (veg_record (veg_flow 7 False)) \<in> {''tcp'', ''udp'', ''sctp'', ''icmp'', ''icmpv6'', ''other''}"
  using flow_record_typed [OF veg_flow_ok [of 7 False], where stamp = 0 and i = veg_identity] veg_flow_ok veg_has_record
  by (auto simp: source_translated_def veg_flow_def split: if_splits)

lemma veg_observing: "observing veg_identity (newConntrackCollector veg_identity)"
  by (rule observing.start)

lemma veg_dumps:
  "initialize (Some veg_settings) [(veg_flow 7 False, 0, Some veg_settings), (veg_flow 8 True, 0, Some veg_settings)] (newConntrackCollector veg_identity) =
     Inr (veg_dump [veg_flow 7 False, veg_flow 8 True])"
  by code_simp

lemma veg_dump_observing: "observing veg_identity (veg_dump [veg_flow 7 False, veg_flow 8 True])"
  by (rule observing.dump [OF veg_observing veg_dumps])

theorem observer_cache_sound_witness:
  "observing veg_identity (veg_dump [veg_flow 7 False, veg_flow 8 True]) \<and> length (cache (veg_dump [veg_flow 7 False, veg_flow 8 True])) = 2 \<and>
   distinct (map snd (order (veg_dump [veg_flow 7 False, veg_flow 8 True])))"
proof -
  have "length (cache (veg_dump [veg_flow 7 False, veg_flow 8 True])) = 2" by code_simp
  then show ?thesis using observer_cache_sound [OF veg_dump_observing] veg_dump_observing by blast
qed

definition veg_sighting :: "Flow \<Rightarrow> sighting" where
  "veg_sighting f = \<lparr>sgType = EventNew, sgFlow = f, sgStamp = 0, sgSettings = veg_settings, sgLoaded = Some veg_settings, sgAllow = True\<rparr>"

lemma veg_sighted: "sighted (veg_sighting (veg_flow n d))"
  by (simp add: sighted_def veg_sighting_def nat_flow_def veg_flow_def)

theorem observer_keeps_recent_witness:
  "\<exists>c'. sight_all [veg_sighting (veg_flow 7 False)] (veg_dump [veg_flow 7 False, veg_flow 8 True]) = Inr c' \<and> map snd (order c') = [(0, 8), (0, 7)]"
proof -
  have "lastn 65536 (remdups (map snd (order (veg_dump [veg_flow 7 False, veg_flow 8 True])) @
    map (\<lambda>x. (flowZone (sgFlow x), flowID (sgFlow x))) [veg_sighting (veg_flow 7 False)])) = [(0, 8), (0, 7)]" by code_simp
  then show ?thesis using observer_keeps_recent [OF veg_dump_observing, of "[veg_sighting (veg_flow 7 False)]"] veg_sighted by simp
qed

lemma veg_metered: "metered veg_identity (veg_dump [veg_flow 7 False, veg_flow 8 True])"
proof (rule metered.dump [OF veg_observing veg_dumps])
  show "metrics_on (Some veg_settings)" by code_simp
  then show "\<forall>x\<in>set [(veg_flow 7 False, 0, Some veg_settings), (veg_flow 8 True, 0, Some veg_settings)]. metrics_on (snd (snd x))" by simp
  show "distinct (dump_keys [(veg_flow 7 False, 0, Some veg_settings), (veg_flow 8 True, 0, Some veg_settings)])" by code_simp
qed

theorem observer_gauges_exact_witness:
  "metered veg_identity (veg_dump [veg_flow 7 False, veg_flow 8 True]) \<and>
   gauge (calls (veg_dump [veg_flow 7 False, veg_flow 8 True])) [''ns'', ''gw'', ''p'', ''n'', ''ipv4'', ''udp'', ''snat''] = 1"
proof -
  have "int (length (filter (\<lambda>(k, e). flowLabels veg_identity (ceRecord e) = Inr [''ns'', ''gw'', ''p'', ''n'', ''ipv4'', ''udp'', ''snat''])
    (cache (veg_dump [veg_flow 7 False, veg_flow 8 True])))) = 1" by code_simp
  then show ?thesis using observer_gauges_exact [OF veg_metered] veg_metered by simp
qed

theorem reload_atomic_witness:
  "\<exists>s. reloads (\<lambda>cfg. Inr (cfgExternalNetwork cfg)) veg_identity s \<and> rlSettings s = veg_settings \<and>
     rlSettings (reload_tick (\<lambda>cfg. Inr (cfgExternalNetwork cfg)) veg_identity True (Inr (veg_config\<lparr>cfgName := ''other'', cfgExternalNetwork := ''x''\<rparr>)) s) = veg_settings"
proof -
  let ?h = "\<lambda>cfg. Inr (cfgExternalNetwork cfg) :: error + string"
  let ?cfg = "veg_config\<lparr>cfgName := ''other'', cfgExternalNetwork := ''x''\<rparr>"
  obtain cs where st: "run_start (Inr veg_config) ''p'' ''n'' = Inr (veg_identity, veg_settings, cs)"
    using veg_settings_for by (auto simp: run_start_def loadConfig_def veg_identity_def veg_config_def Let_def)
  let ?s = "reload_start ?h [] veg_identity True veg_settings cs"
  have s: "reloads ?h veg_identity ?s" by (rule reloads.begun [OF st])
  have "\<not> identity_matches veg_identity ?cfg" by code_simp
  moreover have "rlSettings ?s = veg_settings" by (simp add: reload_start_def)
  ultimately show ?thesis using reload_atomic [OF s, of True "Inr ?cfg"] s by (intro exI [of _ ?s]) auto
qed

section \<open>Where the gauge drifts\<close>

text \<open>The same flow twice in a dump: one cached flow, two active ones.\<close>

definition gauge_view :: "collector \<Rightarrow> nat \<times> int \<times> int" where
  "gauge_view c =
     (length (cache c), gauge (calls c) [''ns'', ''gw'', ''p'', ''n'', ''ipv4'', ''udp'', ''snat''],
      gauge (calls c) [''ns'', ''gw'', ''p'', ''n'', ''ipv4'', ''udp'', ''snat_dnat''])"

lemma repeated_dump_counts_twice: "gauge_view (veg_dump [veg_flow 7 False, veg_flow 7 False]) = (1, 2, 0)"
  by code_simp

text \<open>A flow whose translation changes: its end lowers the gauge of the new labels, below zero, and the gauge of the old ones stays.\<close>

definition veg_end :: collector where
  "veg_end =
     projr (processEvent \<lparr>evType = EventDestroy, evFlow = Some (veg_flow 7 True)\<rparr> 0 (Some veg_settings) (Some veg_settings) True
       (projr (processEvent \<lparr>evType = EventUpdate, evFlow = Some (veg_flow 7 True)\<rparr> 0 (Some veg_settings) (Some veg_settings) True
         (veg_dump [veg_flow 7 False]))))"

lemma changed_labels_drift: "gauge_view veg_end = (0, 1, -1)"
  by code_simp

end
