(* ===== verification/ObserverInterfaces.thy ===== *)
theory ObserverInterfaces
  imports ObserverCollector
begin

text \<open>
  The interface counters of the observer: interface_collector.go of pkg/vegobserver and the handler of the metrics in
  runner.go.
\<close>

section \<open>Interfaces\<close>



















section \<open>Counters of interfaces\<close>

text \<open>The conversion to a float is exact below \<open>2 ^ 53\<close>, and otherwise off by at most one part in \<open>2 ^ 53\<close>.\<close>

lemma float64_exact: "n < 2 ^ 53 \<Longrightarrow> float64_of n = n"
  by (simp add: float64_of_def float_shift.simps [of n] Let_def)

lemma float_shift_bound: "2 ^ 53 \<le> n \<Longrightarrow> 2 ^ (52 + float_shift n) \<le> n \<and> 0 < float_shift n"
proof (induction n rule: float_shift.induct)
  case (1 n)
  then show ?case
  proof (cases "n div 2 < 2 ^ 53")
    case True
    then have "float_shift n = 1" using 1(2) by (simp add: float_shift.simps [of n] float_shift.simps [of "n div 2"])
    then show ?thesis using 1(2) by simp
  next
    case False
    have s: "float_shift n = Suc (float_shift (n div 2))" using 1(2) by (subst float_shift.simps) simp
    have "2 ^ (52 + float_shift (n div 2)) \<le> n div 2" using 1 False by simp
    then have "2 * 2 ^ (52 + float_shift (n div 2)) \<le> n" by linarith
    then show ?thesis unfolding s by (simp add: power_add)
  qed
qed

lemma float64_near: "float64_of n \<le> n + n div 2 ^ 53 \<and> n \<le> float64_of n + n div 2 ^ 53"
proof (cases "n < 2 ^ 53")
  case False
  define k where "k = float_shift n"
  have k: "2 ^ (52 + k) \<le> n" "0 < k" using float_shift_bound [of n] False by (simp_all add: k_def)
  then obtain j where j: "k = Suc j" by (cases k) auto
  have "2 ^ j * 2 ^ 53 \<le> n" using k(1) by (simp add: j power_add mult.commute)
  then have e: "2 ^ j \<le> n div 2 ^ 53" by (simp add: less_eq_div_iff_mult_less_eq)
  have n: "n = n div 2 ^ k * 2 ^ k + n mod 2 ^ k" by (rule div_mult_mod_eq [symmetric])
  have r: "n mod 2 ^ k < 2 * 2 ^ j" by (simp add: j)
  have "float64_of n = n div 2 ^ k * 2 ^ k + (if 2 ^ j < n mod 2 ^ k \<or> 2 ^ j = n mod 2 ^ k \<and> odd (n div 2 ^ k) then 2 * 2 ^ j else 0)"
    unfolding float64_of_def Let_def k_def [symmetric] by (auto simp: j)
  then have "float64_of n \<le> n + 2 ^ j \<and> n \<le> float64_of n + 2 ^ j" using n r by (auto split: if_splits)
  then show ?thesis using e by linarith
qed (simp add: float64_exact)













































end
