(* ===== verification/Boundaries.thy ===== *)
theory Boundaries
  imports IPAM
begin

text \<open>
  Behaviour of the allocator and the helpers at the edges of their domain, where it differs from
  what the names and comments of the code suggest. The invariants of the other theories exclude
  these inputs (networks at the ends of the address space, hosts as networks, shared addresses).
\<close>

section \<open>Ends of the address space\<close>

text \<open>Removing 255.255.255.255 from a range adds the whole address space: the next address wraps to 0.0.0.0.\<close>

lemma remove_last_address:
  "IPRange_Remove (NewIPRange [255,255,255,0] [255,255,255,255]) [255,255,255,255] =
     ([NewIPRange [255,255,255,0] [255,255,255,254], NewIPRange [0,0,0,0] [255,255,255,255]], True)"
  by code_simp

text \<open>Adding 0.0.0.0 to a range that ends at 255.255.255.255 makes the range end at 0.0.0.0.\<close>

lemma add_wraps:
  "IPRange_Add (NewIPRange [255,255,255,0] [255,255,255,255]) [0,0,0,0] = (NewIPRange [255,255,255,0] [0,0,0,0], True)"
  by code_simp

text \<open>An IPv6 network with a small number gets the first address of an IPv4 network.\<close>

lemma first_ip_of_low_network: "FirstIP ''::/120'' = Inr ''0.0.0.1''"
  by code_simp

text \<open>For a host the first address comes after the last one.\<close>

lemma host_network_ends: "FirstIP ''10.0.0.1/32'' = Inr ''10.0.0.2'' \<and> LastIP ''10.0.0.1/32'' = Inr ''10.0.0.0''"
  by code_simp

text \<open>A random address of a host network panics.\<close>

lemma random_ip_of_host: "GenerateRandomIP ''10.0.0.1/32'' n = Inl Panic"
proof -
  have "map_option (\<lambda>p. mask_size (NetMask (snd p))) (ParseCIDR ''10.0.0.1/32'') = Some (32, 32)" by code_simp
  then show ?thesis by (auto simp: GenerateRandomIP_def)
qed

section \<open>Subnets without an IPv4 network\<close>

lemma v4_mask_of_mac_only: "GetSubnetV4Mask ''s'' \<lparr>Subnets = [(''s'', NewMacOnlySubnet [] ''s'')]\<rparr> = Inl Panic"
  by code_simp

section \<open>Shared addresses and replaced MAC addresses\<close>

text \<open>
  The release of an address that several pods share takes the pod off the list of owners and
  leaves the lease of its NIC.
\<close>

lemma shared_release_keeps_lease:
  assumes "map_of (NicToIP (sfam F s)) nic = Some ip" "length (split_char CHR '','' (mget0 (IPToPod (sfam F s)) (IP_String ip))) > 1"
  shows "\<exists>s'. releaseFamAddr F pod nic s = Inr s' \<and> map_of (NicToIP (sfam F s')) nic = Some ip"
  using assms by (cases F) (simp_all add: releaseFamAddr_def Let_def)

text \<open>A NIC that is given a new MAC address leaves the old one assigned to its pod.\<close>

lemma replaced_mac_stays:
  assumes "map_of (NicToMac s) nic = Some old" "map_of (MacToPod s) old = Some pod" "mac \<noteq> []" "mac \<noteq> old"
    and "map_of (MacToPod s) mac = None" "GatewayMAC s \<noteq> mac"
  shows "\<exists>s'. GetStaticMac pod nic mac True s = (s', None) \<and> map_of (NicToMac s') nic = Some mac \<and> map_of (MacToPod s') old = Some pod"
  using assms by (auto simp: GetStaticMac_def)

end
