(* ===== verification/Spec2Isabelle.thy ===== *)
theory Spec2Isabelle
  imports IPAMProps ServiceCIDR SupervisorProps BfddControlProps SubnetFormatProps SecurityGroupSyncProps OvsUtil ObserverProps ObserverInterfaces Boundaries
begin

text \<open>
  \<^bold>\<open>Kube-OVN\<close>: address management, validation, access control lists, the BFD supervisor and the gateway observer.

  Kube-OVN connects the pods of a Kubernetes cluster through OVN. Its controller
  (src/pkg/controller) watches subnets and pods, checks them (src/pkg/util/validator.go), asks
  the address manager (src/pkg/ipam) for addresses and writes logical ports and routes into the
  OVN database (src/pkg/ovs). A daemon on every node (src/pkg/daemon) sets up the interfaces. An
  egress gateway runs a BFD daemon under a supervisor (src/pkg/bfddsupervisor) and an observer of its
  connections and interfaces (src/pkg/vegobserver). The development
  covers the parts whose state is their own: the address manager with everything below it, the
  formatting and validation of subnets in front of it, the store of service networks, the
  supervisor and the observer; and the access control lists: the client functions that write them for policies,
  security groups and switches, with the handler of security groups above them.

  \<^bold>\<open>Theories and sources\<close>

  \<^item> \<open>Prelude\<close>: Go values (bytes, strings, maps as association lists in any order, errors as
    sums), \<open>strings\<close>. \<open>NetIP\<close>, \<open>NetText\<close>: the standard library's addresses as bytes and numbers,
    their text, networks and masks.
  \<^item> \<open>IP\<close>, \<open>IPRange\<close>, \<open>IPRangeList\<close>: ip.go, ip_range.go and ip_range_list.go of src/pkg/ipam, one
    definition per method. \<open>CidrBlocks\<close> has the arithmetic of splitting a range into networks,
    \<open>RangeSets\<close> the refinement of range lists to sets of addresses.
  \<^item> \<open>UtilText\<close>, \<open>UtilNet\<close>, \<open>UtilIPPool\<close>: slice.go, strings.go, ip.go, address_family.go, subnet.go,
    version.go, net.go and ippool.go of src/pkg/util. \<open>Networks\<close> proves what the network functions
    compute, as sets of addresses.
  \<^item> \<open>Subnet\<close>, \<open>IPAM\<close>: subnet.go, ippool.go and ipam.go of src/pkg/ipam. The fields of a subnet that
    exist once per family are one record \<open>SubnetFam\<close>, and the twin functions for IPv4 and IPv6 are
    one definition with the family as argument. \<open>SubnetInv\<close>, \<open>SubnetNets\<close>, \<open>Exclude\<close> and \<open>IPAMInv\<close> hold
    the invariant \<open>sub_ok\<close> and its preservation by every operation, \<open>SubnetProps\<close> and \<open>IPAMProps\<close>
    the properties. \<open>Boundaries\<close> has what happens outside the invariant.
  \<^item> \<open>ServiceCIDR\<close>: servicecidr_store.go, the effective service networks under updates.
  \<^item> \<open>Validate\<close>, \<open>ValidateProps\<close>: validator.go.
  \<^item> \<open>SubnetFormat\<close>, \<open>SubnetFormatProps\<close>: \<open>formatSubnet\<close> and what it calls in
    src/pkg/controller/subnet.go.
  \<^item> \<open>OvsMatch\<close>: the match expressions of src/pkg/ovs/util.go and what their texts mean. \<open>OvsUtil\<close>: the rest
    of that file, names, DHCP options and the limiter.
  \<^item> \<open>OvnAcl\<close>: ovn-nb-acl.go of src/pkg/ovs, one definition per function, with the parts of the
    port group and address set files it needs. \<open>NbServer\<close>: the database server as steps, and what the
    client's calls do to it. \<open>OvnAclProps\<close>: the matches of network policies. \<open>SecurityGroupProps\<close>,
    \<open>SwitchAclProps\<close>: the rows of groups and switches and their verdicts.
    \<open>SecurityGroupSync\<close>, \<open>SecurityGroupSyncProps\<close>: the handler in
    src/pkg/controller/security_group.go.
  \<^item> \<open>Supervisor\<close>, \<open>SupervisorInv\<close>, \<open>SupervisorProps\<close>: recovery.go of src/pkg/bfddsupervisor.
    \<open>BfddControl\<close>, \<open>BfddControlProps\<close>: control.go and managed_child.go.
  \<^item> \<open>ObserverFlow\<close>: flow.go and filter.go of src/pkg/vegobserver, with the prefixes of \<open>net/netip\<close>;
    \<open>ObserverFilterProps\<close> the meaning of the filters. \<open>ObserverCollector\<close>: conntrack_collector.go, config.go and
    the reloading in runner.go; \<open>ObserverCollectorInv\<close> the invariant of the cache and the locale \<open>recency\<close>,
    \<open>ObserverProps\<close> the properties. \<open>ObserverInterfaces\<close>: interface_collector.go.

  \<^bold>\<open>How state and effects are modelled\<close>

  Operations are functions from a state record to the new state and a result; a Go error is the
  left of a sum, a nil dereference the error \<open>Panic\<close>. Locks serialise the operations, so a run of
  the address manager is a sequence of calls: \<open>ipam_step\<close> and \<open>reachable\<close> in \<open>IPAMInv\<close>, \<open>supervised\<close>
  in \<open>SupervisorProps\<close>. What a call gets from outside is an argument: random bytes are the list
  \<open>rnd\<close> of draws (a retry loop that uses it up ends with \<open>NoReturn\<close>; \<open>random_mac_fresh\<close> shows that one
  free draw is enough), the supervisor gets an \<open>env\<close> with the readings of the clock and the answers
  of the daemon and of the file system, and returns the list of calls it made; the control command is
  a function of the state of the world. The northbound database is an argument of the client's
  functions, its server the function \<open>tx\<close> from operations and a database to the next one or an error;
  \<open>nb_server\<close> says what is documented of it. The order in which Go visits a map that it changes is an
  argument of the formatting. The observer's metrics are the list of calls it made to them; each load of
  its settings, the answer of its rate limiter and the clock are arguments of an event, so that a
  reload may come between any two of them. The numbers added to its counters are whole numbers rounded
  as \<open>float64\<close> does (\<open>float64_of\<close>). The callers of the limiter and the changes of its limit are steps of a relation, so that their
  interleavings are covered; its check of count and limit is one step, the addition to the count another, and both numbers are words
  of 32 bits.

  \<^bold>\<open>What is shown\<close>

  \<^item> Range lists are sets of addresses: difference, union, intersection, insertion, deletion,
    search and allocation of the least address, with the list form kept (\<open>RangeSets\<close>); the locale
    \<open>address_set\<close> states these laws for the allocator, \<open>address_family\<close> those of addresses.
  \<^item> Networks: the split of a range into networks is exact and minimal, overlap and containment
    are those of the sets, first and last address bound the usable ones (\<open>Networks\<close>).
  \<^item> Subnets: the least free address is granted, releases give back, to the released addresses of the pool, dual allocation is all or
    nothing, a failed request leaves the used and available addresses alone, a change of the network keeps the leases
    inside it, pools partition the usable addresses (\<open>SubnetProps\<close>).
  \<^item> Address manager: in every reachable state no address is leased twice, the available addresses are the usable ones that are
    neither in use nor reserved, each in one pool, and a release returns (\<open>IPAMProps\<close>).
  \<^item> Validation: an accepted IPv4 gateway is usable for the allocator, the conflict check is disjointness of
    addresses, accepted annotations are consistent (\<open>ValidateProps\<close>).
  \<^item> Formatting: excluded ranges are merged without losing or adding an address, what formatting
    gives is accepted by the allocator, which offers all but the excluded addresses and the gateways, and it settles
    (\<open>SubnetFormatProps\<close>).
  \<^item> Access control: the text of a match without a bare disjunction below a conjunction means what the match means; the rows of network policies
    match exactly the traffic they allow; the rows of a security group decide as its rules say, in
    the order of their priorities; a private switch lets in exactly the traffic it names; the pass over a subnet
    leaves exactly its rows; the handler of security groups keeps rows and status in step while the tier of a group stays. Options of DHCP
    read back, and the count of the limiter, as far as it fits, is exceeded at most by the callers between its check and its count.
  \<^item> Supervisor: an action is taken only when due and after its attempt is on disk, restarts keep
    their backoffs, a failing session is acted on, the state file restores a supervisor, and
    readiness is that of the sessions; the status report is read completely and a child is
    configured or stopped.
  \<^item> Observer: cache and order list agree in every state and no event panics, the flows seen last are
    kept as new and update events come, the gauges count the cached flows, the filters select what their rules say, settings
    change as a whole, records are well formed, and the interface counters follow those of the kernel since their last reset
    (\<open>ObserverProps\<close>, \<open>ObserverInterfaces\<close>).

  \<^bold>\<open>Hypotheses\<close>

  The invariant of a subnet holds for networks with at least four addresses (\<open>net_fit\<close>), with
  IPv6 numbers from \<open>2 ^ 48\<close> on, where no IPv4 address is mapped, and not at the ends of the address
  space. The steps of \<open>ipam_step\<close> are calls with conflict checks and pod names without a comma,
  as Kubernetes names are; without the check an address may be shared on purpose. The texts of
  excluded addresses and networks are canonical, as the controller writes them. Times are positive
  and do not go back in \<open>restart_spacing\<close>, and the keys of the expected sessions are distinct.
  Names and addresses in matches are plain: without parentheses, operators and spaces. The truth of
  a single comparison for a packet is a parameter. The rows of a port group or switch are those that name it as
  parent (\<open>tidy\<close>), as the client writes them, and the cache of the client is up to date. The digest of rules
  tells the rules at hand apart, but not a change of the tier, which \<open>in_step\<close> excludes. The subnets of the formatting have no gateway or
  one for each network. The gauges of the observer are exact while metrics stay on, the dump lists a
  flow once and a cached flow keeps its labels; the interface counters follow those of the kernel as
  long as these do not go back and grow by less than \<open>2 ^ 53\<close> between two requests. The limits a limiter is given are positive, and
  with the callers between check and count they fit 31 bits. The counters in a state file of the supervisor are not negative, as it writes them.

  \<^bold>\<open>Not modelled\<close>

  The other reconcilers of the controller and the daemon work on the Kubernetes API, the OVN database and
  the host's network; their state is outside this repository. Meters, and the deletion of rows without a parent, are left out of the access
  control lists, and what the database holds after an error is not followed. API types, clientsets and OVSDB
  models are generated. The concurrency of readers with a reconciliation of the supervisor, JSON
  encoding, timeouts of contexts and logging are left out. Of net.go the socket checks are left
  out, and unicode classes are those of ASCII.

  \<^bold>\<open>Plan\<close>

  Next are the router policies and static routes of src/pkg/ovs, the membership of ports in security
  groups, and the webhook checks of NAT gateways.
\<close>

end
